(* ===== verification/Prelude.thy ===== *)
theory Prelude
  imports Main "HOL-Library.Word"
begin

text \<open>
  Prelude of the mssanitizer development: the machine integer types of the C++ sources, the
  named theorem collections, and the generic facts on words, lists and maps that the component
  theories share.
\<close>

section \<open>Machine integers\<close>

type_synonym u8 = "8 word"
type_synonym u16 = "16 word"
type_synonym u32 = "32 word"
type_synonym u64 = "64 word"

named_theorems clock_simps \<open>facts on the value a vector time gives to a component\<close>
named_theorems queue_simps \<open>facts on event queues seen as lists\<close>

subsection \<open>Widening casts\<close>

lemma unat_ucast_16_32 [simp]: "unat (ucast (a :: u16) :: u32) = unat a"
  by (simp add: unsigned_ucast_eq take_bit_nat_eq_self_iff)
     (rule less_trans [OF unsigned_less], simp)

lemma unat_ucast_32_64 [simp]: "unat (ucast (a :: u32) :: u64) = unat a"
  by (simp add: unsigned_ucast_eq take_bit_nat_eq_self_iff)
     (rule less_trans [OF unsigned_less], simp)

lemma ucast_16_32_inject [simp]: "(ucast (a :: u16) :: u32) = ucast b \<longleftrightarrow> a = b"
  by (metis unat_ucast_16_32 word_unat_eq_iff)

lemma ucast_16_32_less [simp]: "(ucast (a :: u16) :: u32) < ucast b \<longleftrightarrow> a < b"
  by (simp add: word_less_nat_alt)

lemma ucast_32_16_32: "i \<le> (65535 :: u32) \<Longrightarrow> ucast (ucast i :: u16) = i"
proof -
  assume "i \<le> (65535 :: u32)"
  then have "unat i \<le> 65535" by (simp add: word_le_nat_alt)
  then have "unat (ucast (ucast i :: u16) :: u32) = unat i"
    by (simp add: unsigned_ucast_eq unsigned_take_bit_eq take_bit_nat_eq_self_iff)
  then show ?thesis by (simp add: word_unat_eq_iff)
qed

lemma ucast_16_32_le: "(ucast (a :: u16) :: u32) \<le> 65535"
proof -
  have "unat a < 65536" using unsigned_less [of a] by simp
  then show ?thesis by (simp add: word_le_nat_alt)
qed

section \<open>Lists\<close>

definition insert_at :: "nat \<Rightarrow> 'a \<Rightarrow> 'a list \<Rightarrow> 'a list" where
  "insert_at p x xs = take p xs @ x # drop p xs"

lemma set_insert_at [simp]: "set (insert_at p x xs) = insert x (set xs)"
  by (simp add: insert_at_def) (metis append_take_drop_id set_append)

lemma length_insert_at [simp]: "length (insert_at p x xs) = Suc (length xs)"
  by (simp add: insert_at_def)

lemma map_insert_at: "map f (insert_at p x xs) = insert_at p (f x) (map f xs)"
  by (simp add: insert_at_def take_map drop_map)

text \<open>\<open>std::lower_bound\<close> on a range sorted by key: the first position whose key is not below.\<close>

definition lower_bound :: "('k::linorder \<times> 'v) list \<Rightarrow> 'k \<Rightarrow> nat" where
  "lower_bound es i = length (takeWhile (\<lambda>e. fst e < i) es)"

lemma lower_bound_le: "lower_bound es i \<le> length es"
  by (simp add: lower_bound_def length_takeWhile_le)

lemma take_lower_bound: "take (lower_bound es i) es = takeWhile (\<lambda>e. fst e < i) es"
  by (metis lower_bound_def takeWhile_eq_take)

lemma drop_lower_bound: "drop (lower_bound es i) es = dropWhile (\<lambda>e. fst e < i) es"
  by (metis lower_bound_def dropWhile_eq_drop)

lemma fst_case_prod_fst [simp]: "fst (case p of (i, x) \<Rightarrow> (f i, x)) = f (fst p)"
  by (simp add: case_prod_beta)

lemma snd_case_prod_fst [simp]: "snd (case p of (i, x) \<Rightarrow> (f i, x)) = snd p"
  by (simp add: case_prod_beta)

subsection \<open>Association lists sorted strictly by key\<close>

definition sorted_keys :: "('k::linorder \<times> 'v) list \<Rightarrow> bool" where
  "sorted_keys es \<longleftrightarrow> sorted_wrt (<) (map fst es)"

lemma sorted_keys_Nil [simp]: "sorted_keys []"
  by (simp add: sorted_keys_def)

lemma sorted_keys_Cons: "sorted_keys (e # es) \<longleftrightarrow> (\<forall>f\<in>set es. fst e < fst f) \<and> sorted_keys es"
  by (auto simp: sorted_keys_def)

lemma sorted_keys_append:
  "sorted_keys (es @ fs) \<longleftrightarrow>
     sorted_keys es \<and> sorted_keys fs \<and> (\<forall>e\<in>set es. \<forall>f\<in>set fs. fst e < fst f)"
  by (auto simp: sorted_keys_def sorted_wrt_append)

lemma sorted_keys_distinct: "sorted_keys es \<Longrightarrow> distinct (map fst es)"
  using strict_sorted_iff by (auto simp: sorted_keys_def)

lemma sorted_keys_map_of:
  "sorted_keys es \<Longrightarrow> k < length es \<Longrightarrow> map_of es (fst (es ! k)) = Some (snd (es ! k))"
  by (simp add: map_of_is_SomeI nth_mem sorted_keys_distinct)

lemma sorted_keys_mono:
  "sorted_keys es \<Longrightarrow> a < b \<Longrightarrow> b < length es \<Longrightarrow> fst (es ! a) < fst (es ! b)"
  by (simp add: sorted_keys_def sorted_wrt_iff_nth_less)

lemma sorted_keys_dropWhile:
  assumes "sorted_keys es" "f \<in> set (dropWhile (\<lambda>e. fst e < i) es)"
  shows "i \<le> fst f"
  using assms by (induction es) (auto simp: sorted_keys_Cons split: if_splits)

lemma sorted_keys_dropWhile_keep: "sorted_keys es \<Longrightarrow> sorted_keys (dropWhile P es)"
  by (induction es) (auto simp: sorted_keys_Cons)

lemma sorted_keys_takeWhile_keep: "sorted_keys es \<Longrightarrow> sorted_keys (takeWhile P es)"
  by (induction es) (auto simp: sorted_keys_Cons dest: set_takeWhileD)

lemma map_of_sorted_insert:
  assumes "distinct (map fst (xs @ (i, v) # ys))"
  shows "map_of (xs @ (i, v) # ys) = (map_of (xs @ ys))(i \<mapsto> v)"
  using assms by (induction xs) (auto simp: fun_eq_iff image_iff)

end
