(* ===== verification/VectorTime.thy ===== *)
theory VectorTime
  imports Prelude
begin

text \<open>
  The sparse vector time of \<open>csrc/core/framework/vector_time.{h,cpp}\<close> and the vector clock
  operations of \<open>vector_clock.{h,cpp}\<close>.  A vector time stores only the components that differ
  from the default 1, in ascending index order: up to 48 of them in inline arrays
  (\<open>idx\<close>/\<open>val\<close>, here one list of pairs whose length is the field \<open>n\<close>), more, or a component
  whose index needs more than 16 bits, in \<open>heapEntries\<close>.  The abstract view is \<open>clock\<close>, the
  function from component index to value; every operation is shown to act on it pointwise.
\<close>

section \<open>Data\<close>

record VectorTime =
  heap :: bool
  inl :: "(u16 \<times> u32) list"
  heapEntries :: "(u32 \<times> u32) list"

definition INLINE_CAP :: nat where
  "INLINE_CAP = 48"

definition VectorTime_new :: VectorTime where
  "VectorTime_new = \<lparr>heap = False, inl = [], heapEntries = []\<rparr>"

definition VectorTime_empty :: "VectorTime \<Rightarrow> bool" where
  "VectorTime_empty s \<longleftrightarrow> length (inl s) = 0 \<and> heapEntries s = []"

definition VectorTime_clear :: "VectorTime \<Rightarrow> VectorTime" where
  "VectorTime_clear s = s\<lparr>inl := [], heap := False, heapEntries := []\<rparr>"

section \<open>Operations\<close>

text \<open>
  The binary search loop of \<open>Get\<close> and \<open>Set\<close>: \<open>Inl m\<close> where \<open>idx[m] == i\<close>,
  \<open>Inr lo\<close> with the insertion point when the loop ends.
\<close>

function bsearch :: "u16 list \<Rightarrow> u32 \<Rightarrow> int \<Rightarrow> int \<Rightarrow> int + int" where
  "bsearch idx i lo hi =
     (if lo \<le> hi then
        let m = (lo + hi) div 2; im = idx ! nat m in
        if ucast im = i then Inl m
        else if ucast im < i then bsearch idx i (m + 1) hi
        else bsearch idx i lo (m - 1)
      else Inr lo)"
  by pat_completeness auto
termination
  by (relation "measure (\<lambda>(idx, i, lo, hi). nat (hi + 1 - lo))") auto

declare bsearch.simps [simp del]

definition VectorTime_Get :: "VectorTime \<Rightarrow> u32 \<Rightarrow> u32" where
  "VectorTime_Get s i =
     (if \<not> heap s then
        if i > 65535 then 1
        else (case bsearch (map fst (inl s)) i 0 (int (length (inl s)) - 1) of
                Inl m \<Rightarrow> snd (inl s ! nat m)
              | Inr _ \<Rightarrow> 1)
      else
        let it = lower_bound (heapEntries s) i in
        if it \<noteq> length (heapEntries s) \<and> fst (heapEntries s ! it) = i
        then snd (heapEntries s ! it) else 1)"

definition MigrateToHeap :: "VectorTime \<Rightarrow> VectorTime" where
  "MigrateToHeap s =
     (if heap s then s
      else s\<lparr>heapEntries := heapEntries s @ map (\<lambda>(i, v). (ucast i, v)) (inl s),
             inl := [], heap := True\<rparr>)"

definition heap_set :: "(u32 \<times> u32) list \<Rightarrow> u32 \<Rightarrow> u32 \<Rightarrow> (u32 \<times> u32) list" where
  "heap_set es i v =
     (let it = lower_bound es i in
      if it \<noteq> length es \<and> fst (es ! it) = i
      then (if v > snd (es ! it) then es[it := (i, v)] else es)
      else insert_at it (i, v) es)"

definition VectorTime_Set :: "VectorTime \<Rightarrow> u32 \<Rightarrow> u32 \<Rightarrow> VectorTime" where
  "VectorTime_Set s i v =
     (if v \<le> 1 then s
      else
        let s1 = (if \<not> heap s \<and> i > 65535 then MigrateToHeap s else s) in
        if \<not> heap s1 then
          (case bsearch (map fst (inl s1)) i 0 (int (length (inl s1)) - 1) of
             Inl m \<Rightarrow>
               (if v > snd (inl s1 ! nat m)
                then s1\<lparr>inl := (inl s1)[nat m := (fst (inl s1 ! nat m), v)]\<rparr> else s1)
           | Inr lo \<Rightarrow>
               (if length (inl s1) < INLINE_CAP
                then s1\<lparr>inl := insert_at (nat lo) (ucast i, v) (inl s1)\<rparr>
                else let s2 = MigrateToHeap s1 in
                     s2\<lparr>heapEntries := heap_set (heapEntries s2) i v\<rparr>))
        else s1\<lparr>heapEntries := heap_set (heapEntries s1) i v\<rparr>)"

text \<open>The initializer-list constructor sets the positions in turn.\<close>

fun VectorTime_of_list_from :: "VectorTime \<Rightarrow> u32 \<Rightarrow> u32 list \<Rightarrow> VectorTime" where
  "VectorTime_of_list_from s i [] = s"
| "VectorTime_of_list_from s i (v # l) = VectorTime_of_list_from (VectorTime_Set s i v) (i + 1) l"

definition VectorTime_of_list :: "u32 list \<Rightarrow> VectorTime" where
  "VectorTime_of_list l = VectorTime_of_list_from VectorTime_new 0 l"

definition VectorTime_EqualTo :: "VectorTime \<Rightarrow> VectorTime \<Rightarrow> bool" where
  "VectorTime_EqualTo s t =
     (if \<not> heap s then list_all (\<lambda>(i, v). VectorTime_Get t (ucast i) = v) (inl s)
      else list_all (\<lambda>(i, v). VectorTime_Get t i = v) (heapEntries s))"

definition VectorTime_eq :: "VectorTime \<Rightarrow> VectorTime \<Rightarrow> bool" where
  "VectorTime_eq s t \<longleftrightarrow> VectorTime_EqualTo s t \<and> VectorTime_EqualTo t s"

text \<open>The components of a dense vector that are stored, with their positions.\<close>

definition stored :: "u32 list \<Rightarrow> (nat \<times> u32) list" where
  "stored full = filter (\<lambda>(i, v). v \<noteq> 1) (enumerate 0 full)"

definition VectorTime_FromFull :: "u32 list \<Rightarrow> VectorTime" where
  "VectorTime_FromFull full =
     (let cnt = length (stored full);
          hasLargeIdx = list_ex (\<lambda>(i, v). i > 65535) (stored full) in
      if cnt \<le> INLINE_CAP \<and> \<not> hasLargeIdx
      then VectorTime_new\<lparr>inl := map (\<lambda>(i, v). (of_nat i, v)) (stored full)\<rparr>
      else VectorTime_new\<lparr>heap := True,
             heapEntries := map (\<lambda>(i, v). (of_nat i, v)) (stored full)\<rparr>)"

subsection \<open>MergeMax\<close>

text \<open>The three loops of \<open>MergeInline\<close> over the two inline arrays.\<close>

fun merge_inline :: "('k::linorder \<times> u32) list \<Rightarrow> ('k \<times> u32) list \<Rightarrow> ('k \<times> u32) list" where
  "merge_inline ((i, v) # os) ((j, w) # ins) =
     (if i < j then (i, v) # merge_inline os ((j, w) # ins)
      else if i > j then (j, w) # merge_inline ((i, v) # os) ins
      else (i, max v w) # merge_inline os ins)"
| "merge_inline os [] = os"
| "merge_inline [] ins = ins"

definition MergeInline :: "VectorTime \<Rightarrow> VectorTime \<Rightarrow> nat \<Rightarrow> VectorTime option" where
  "MergeInline out inp inN =
     (if heap out \<or> heap inp \<or> length (inl out) + inN > INLINE_CAP then None
      else Some (out\<lparr>inl := merge_inline (inl out) (take inN (inl inp))\<rparr>))"

text \<open>\<open>inIdx\<close>/\<open>inVal\<close> of \<open>MergeHeap\<close>: the entries of the input in either representation.\<close>

definition in_entries :: "VectorTime \<Rightarrow> (u32 \<times> u32) list" where
  "in_entries s =
     (if heap s then heapEntries s else map (\<lambda>(i, v). (ucast i, v)) (inl s))"

text \<open>The counting loop of \<open>MergeHeap\<close>: the number of distinct indices.\<close>

function merge_count :: "(u32 \<times> u32) list \<Rightarrow> (u32 \<times> u32) list \<Rightarrow> nat \<Rightarrow> nat \<Rightarrow> nat \<Rightarrow> nat" where
  "merge_count es fs i j cnt =
     (if i < length es \<and> j < length fs then
        let outIndex = fst (es ! i); inIndex = fst (fs ! j) in
        merge_count es fs (if outIndex \<le> inIndex then Suc i else i)
          (if inIndex \<le> outIndex then Suc j else j) (Suc cnt)
      else cnt + (length es - i) + (length fs - j))"
  by pat_completeness auto
termination
  by (relation "measure (\<lambda>(es, fs, i, j, cnt). (length es - i) + (length fs - j))") auto

declare merge_count.simps [simp del]

text \<open>The backward in-place merge loops of \<open>MergeHeap\<close> over the resized array.\<close>

function merge_back ::
  "(u32 \<times> u32) list \<Rightarrow> (u32 \<times> u32) list \<Rightarrow> nat \<Rightarrow> nat \<Rightarrow> nat \<Rightarrow> (u32 \<times> u32) list" where
  "merge_back a fs i j k =
     (if i > 0 \<and> j > 0 then
        let outIndex = fst (a ! (i - 1)); inIndex = fst (fs ! (j - 1)); k' = k - 1 in
        if outIndex > inIndex then merge_back (a[k' := a ! (i - 1)]) fs (i - 1) j k'
        else if outIndex < inIndex
        then merge_back (a[k' := (inIndex, snd (fs ! (j - 1)))]) fs i (j - 1) k'
        else merge_back (a[k' := (outIndex, max (snd (a ! (i - 1))) (snd (fs ! (j - 1))))]) fs
               (i - 1) (j - 1) k'
      else if i > 0 then merge_back (a[k - 1 := a ! (i - 1)]) fs (i - 1) j (k - 1)
      else if j > 0 then merge_back (a[k - 1 := fs ! (j - 1)]) fs i (j - 1) (k - 1)
      else a)"
  by pat_completeness auto
termination
  by (relation "measure (\<lambda>(a, fs, i, j, k). i + j)") auto

declare merge_back.simps [simp del]

definition MergeHeap :: "VectorTime \<Rightarrow> VectorTime \<Rightarrow> nat \<Rightarrow> VectorTime" where
  "MergeHeap out inp inN =
     (let es = heapEntries out; fs = take inN (in_entries inp);
          resultCount = merge_count es fs 0 0 0;
          a = take resultCount es @ replicate (resultCount - length es) (0, 0) in
      out\<lparr>heapEntries := merge_back a fs (length es) (length fs) resultCount\<rparr>)"

definition vt_size :: "VectorTime \<Rightarrow> nat" where
  "vt_size s = (if heap s then length (heapEntries s) else length (inl s))"

text \<open>
  \<open>MergeMax\<close>; its test \<open>this == &in\<close> compares addresses, the parameter \<open>same\<close>.
\<close>

definition VectorTime_MergeMax :: "bool \<Rightarrow> VectorTime \<Rightarrow> VectorTime \<Rightarrow> VectorTime" where
  "VectorTime_MergeMax same out inp =
     (if same \<or> VectorTime_empty inp then out
      else case MergeInline out inp (vt_size inp) of
             Some out' \<Rightarrow> out'
           | None \<Rightarrow> MergeHeap (MigrateToHeap out) inp (vt_size inp))"

section \<open>Vector clock\<close>

definition UpdateLogicTime :: "VectorTime \<Rightarrow> u32 \<Rightarrow> VectorTime" where
  "UpdateLogicTime t pipe = VectorTime_Set t pipe (VectorTime_Get t pipe + 1)"

definition kLinearMergeMin :: nat where
  "kLinearMergeMin = 64"

definition UpdateVectorTime :: "VectorTime \<Rightarrow> VectorTime \<Rightarrow> VectorTime" where
  "UpdateVectorTime inp out =
     (if vt_size inp \<ge> kLinearMergeMin then VectorTime_MergeMax False out inp
      else if \<not> heap inp
      then fold (\<lambda>(i, v) t. VectorTime_Set t (ucast i) v) (inl inp) out
      else fold (\<lambda>(i, v) t. VectorTime_Set t i v) (heapEntries inp) out)"

definition IsNotHappensBefore4 :: "u32 \<Rightarrow> u32 \<Rightarrow> u32 \<Rightarrow> u32 \<Rightarrow> bool" where
  "IsNotHappensBefore4 a1 a2 b1 b2 =
     (if a1 = a2 then False else if a1 < a2 then b1 > b2 else b1 < b2)"

definition IsNotHappensBefore :: "VectorTime \<Rightarrow> VectorTime \<Rightarrow> u32 \<Rightarrow> u32 \<Rightarrow> bool" where
  "IsNotHappensBefore t1 t2 t1Pipe t2Pipe =
     (let a1 = VectorTime_Get t1 t1Pipe; a2 = VectorTime_Get t2 t1Pipe in
      if a1 = a2 then False
      else IsNotHappensBefore4 a1 a2 (VectorTime_Get t1 t2Pipe) (VectorTime_Get t2 t2Pipe))"

definition IsHappensBefore :: "VectorTime \<Rightarrow> VectorTime \<Rightarrow> u32 \<Rightarrow> u32 \<Rightarrow> bool" where
  "IsHappensBefore t1 t2 t1Pipe t2Pipe =
     (if VectorTime_Get t1 t1Pipe > VectorTime_Get t2 t1Pipe then False
      else VectorTime_Get t1 t2Pipe \<le> VectorTime_Get t2 t2Pipe)"

section \<open>Abstract view and invariant\<close>

definition value_in :: "('k \<times> u32) list \<Rightarrow> 'k \<Rightarrow> u32" where
  "value_in es i = (case map_of es i of None \<Rightarrow> 1 | Some v \<Rightarrow> v)"

definition clock :: "VectorTime \<Rightarrow> u32 \<Rightarrow> u32" where
  "clock s = value_in (in_entries s)"

definition entries_ok :: "('k::linorder \<times> u32) list \<Rightarrow> bool" where
  "entries_ok es \<longleftrightarrow> sorted_keys es \<and> (\<forall>e\<in>set es. 1 < snd e)"

definition vt_inv :: "VectorTime \<Rightarrow> bool" where
  "vt_inv s \<longleftrightarrow> entries_ok (in_entries s) \<and>
     (if heap s then inl s = [] else heapEntries s = [] \<and> length (inl s) \<le> INLINE_CAP)"

lemma entries_ok_Nil [simp]: "entries_ok []"
  by (simp add: entries_ok_def)

lemma entries_ok_Cons:
  "entries_ok (e # es) \<longleftrightarrow> (\<forall>f\<in>set es. fst e < fst f) \<and> 1 < snd e \<and> entries_ok es"
  by (auto simp: entries_ok_def sorted_keys_Cons)

lemma entries_ok_take: "entries_ok es \<Longrightarrow> entries_ok (take n es)"
  by (auto simp: entries_ok_def sorted_keys_def take_map [symmetric] dest: in_set_takeD
      intro: sorted_wrt_take)

lemma value_in_Nil [simp]: "value_in [] = (\<lambda>_. 1)"
  by (simp add: value_in_def fun_eq_iff)

lemma value_in_Cons: "value_in (e # es) = (value_in es)(fst e := snd e)"
  by (cases e) (simp add: value_in_def fun_eq_iff)

lemma value_in_fresh: "\<forall>f\<in>set es. k < fst f \<Longrightarrow> value_in es (k :: 'k::linorder) = 1"
  by (induction es) (auto simp: value_in_Cons)

lemma value_in_ge: "entries_ok es \<Longrightarrow> 1 \<le> value_in es i"
  by (induction es) (auto simp: entries_ok_Cons value_in_Cons)

lemma VectorTime_new_inv [simp]: "vt_inv VectorTime_new"
  by (simp add: vt_inv_def VectorTime_new_def in_entries_def)

lemma VectorTime_new_clock [simp]: "clock VectorTime_new = (\<lambda>_. 1)"
  by (simp add: clock_def VectorTime_new_def in_entries_def)

lemma VectorTime_clear_new: "VectorTime_clear s = VectorTime_new"
  by (simp add: VectorTime_clear_def VectorTime_new_def)

section \<open>Search\<close>

lemma lower_bound_Nil [simp]: "lower_bound [] i = 0"
  by (simp add: lower_bound_def)

lemma lower_bound_Cons:
  "lower_bound (e # es) i = (if fst e < i then Suc (lower_bound es i) else 0)"
  by (simp add: lower_bound_def)

lemma lower_bound_eqI:
  assumes "p \<le> length es" "\<And>k. k < p \<Longrightarrow> fst (es ! k) < i" "p < length es \<Longrightarrow> \<not> fst (es ! p) < i"
  shows "lower_bound es i = p"
  using takeWhile_eq_take_P_nth [of p es "\<lambda>e. fst e < i"] assms
  by (simp add: lower_bound_def)

lemma lower_bound_lookup:
  assumes "sorted_keys es"
  shows "(if lower_bound es i \<noteq> length es \<and> fst (es ! lower_bound es i) = i
          then snd (es ! lower_bound es i) else 1) = value_in es i"
  using assms
proof (induction es)
  case (Cons e es)
  show ?case
  proof (cases "i < fst e")
    case True
    with Cons.prems have "value_in (e # es) i = 1"
      by (intro value_in_fresh) (auto simp: sorted_keys_Cons)
    with True show ?thesis by (auto simp: lower_bound_Cons)
  qed (use Cons in \<open>auto simp: lower_bound_Cons sorted_keys_Cons value_in_Cons\<close>)
qed simp

lemma bsearch_result:
  assumes "sorted_wrt (<) idx" "0 \<le> lo" "hi < int (length idx)" "lo \<le> hi + 1"
    and "\<forall>k. int k < lo \<longrightarrow> k < length idx \<longrightarrow> ucast (idx ! k) < i"
    and "\<forall>k. hi < int k \<longrightarrow> k < length idx \<longrightarrow> i < ucast (idx ! k)"
  shows "case bsearch idx i lo hi of
           Inl m \<Rightarrow> 0 \<le> m \<and> nat m < length idx \<and> ucast (idx ! nat m) = i
         | Inr p \<Rightarrow> 0 \<le> p \<and> nat p \<le> length idx \<and> (\<forall>k < nat p. ucast (idx ! k) < i) \<and>
             (\<forall>k < length idx. nat p \<le> k \<longrightarrow> i < ucast (idx ! k))"
  using assms
proof (induction idx i lo hi rule: bsearch.induct)
  case (1 idx i lo hi)
  let ?m = "(lo + hi) div 2"
  show ?case
  proof (cases "lo \<le> hi")
    case False
    with "1.prems" show ?thesis
      by (subst bsearch.simps) (auto simp: le_nat_iff zless_nat_eq_int_zless)
  next
    case True
    with "1.prems" have m: "lo \<le> ?m" "?m \<le> hi" "nat ?m < length idx"
      by linarith+
    have mono: "a < b \<Longrightarrow> b < length idx \<Longrightarrow> idx ! a < idx ! b" for a b
      using "1.prems"(1) by (simp add: sorted_wrt_iff_nth_less)
    consider (eq) "ucast (idx ! nat ?m) = i" | (lt) "ucast (idx ! nat ?m) < i"
      | (gt) "i < ucast (idx ! nat ?m)" by fastforce
    then show ?thesis
    proof cases
      case eq
      with True m "1.prems"(2) show ?thesis by (subst bsearch.simps) (simp add: Let_def)
    next
      case lt
      have low: "ucast (idx ! k) < i" if "int k < ?m + 1" "k < length idx" for k
      proof (cases "k = nat ?m")
        case False
        with that(1) m "1.prems"(2) have "k < nat ?m" by linarith
        then have "idx ! k < idx ! nat ?m" using mono m(3) by blast
        then show ?thesis by (rule order.strict_trans [OF iffD2 [OF ucast_16_32_less] lt])
      qed (use lt in simp)
      from True lt have "bsearch idx i lo hi = bsearch idx i (?m + 1) hi"
        by (subst bsearch.simps) (auto simp: Let_def)
      moreover have "\<not> ucast (idx ! nat ?m) = i" using lt by auto
      moreover have "\<forall>k. int k < ?m + 1 \<longrightarrow> k < length idx \<longrightarrow> ucast (idx ! k) < i"
        using low by blast
      ultimately show ?thesis using "1.IH"(1) [OF True refl refl _ lt] "1.prems" m by simp
    next
      case gt
      have high: "i < ucast (idx ! k)" if "?m - 1 < int k" "k < length idx" for k
      proof (cases "k = nat ?m")
        case False
        with that(1) m "1.prems"(2) have "nat ?m < k" by linarith
        then have "idx ! nat ?m < idx ! k" using mono that(2) by blast
        then show ?thesis by (rule order.strict_trans [OF gt iffD2 [OF ucast_16_32_less]])
      qed (use gt in simp)
      from True gt have "bsearch idx i lo hi = bsearch idx i lo (?m - 1)"
        by (subst bsearch.simps) (auto simp: Let_def)
      moreover have "\<not> ucast (idx ! nat ?m) = i" "\<not> ucast (idx ! nat ?m) < i" using gt by auto
      moreover have "\<forall>k. ?m - 1 < int k \<longrightarrow> k < length idx \<longrightarrow> i < ucast (idx ! k)"
        using high by blast
      ultimately show ?thesis using "1.IH"(2) [OF True refl refl] "1.prems" m by simp
    qed
  qed
qed

text \<open>The search over the inline array finds the lower bound of the widened entries.\<close>

abbreviation widen :: "(u16 \<times> u32) list \<Rightarrow> (u32 \<times> u32) list" where
  "widen \<equiv> map (\<lambda>(i, v). (ucast i, v))"

lemma sorted_keys_widen [simp]: "sorted_keys (widen es) \<longleftrightarrow> sorted_keys es"
  by (induction es) (auto simp: sorted_keys_Cons)

lemma bsearch_lower_bound:
  assumes "sorted_keys es"
  shows "bsearch (map fst es) i 0 (int (length es) - 1) =
     (let p = lower_bound (widen es) i in
      if p \<noteq> length es \<and> ucast (fst (es ! p)) = i then Inl (int p) else Inr (int p))"
proof -
  have s: "sorted_wrt (<) (map fst es)" using assms by (simp add: sorted_keys_def)
  have r: "case bsearch (map fst es) i 0 (int (length es) - 1) of
           Inl m \<Rightarrow> 0 \<le> m \<and> nat m < length es \<and> ucast (fst (es ! nat m)) = i
         | Inr p \<Rightarrow> 0 \<le> p \<and> nat p \<le> length es \<and> (\<forall>k < nat p. ucast (fst (es ! k)) < i) \<and>
             (\<forall>k < length es. nat p \<le> k \<longrightarrow> i < ucast (fst (es ! k)))"
    using bsearch_result [OF s, of 0 "int (length es) - 1" i] by (auto split: sum.splits)
  show ?thesis
  proof (cases "bsearch (map fst es) i 0 (int (length es) - 1)")
    case (Inl m)
    with r have m: "0 \<le> m" "nat m < length es" "ucast (fst (es ! nat m)) = i" by auto
    have "lower_bound (widen es) i = nat m"
    proof (rule lower_bound_eqI)
      fix k assume "k < nat m"
      then show "fst (widen es ! k) < i"
        using m sorted_keys_mono [OF assms, of k "nat m"] by (auto simp flip: m(3))
    qed (use m in auto)
    with Inl m show ?thesis by (simp add: Let_def)
  next
    case (Inr p)
    with r have p: "0 \<le> p" "nat p \<le> length es" "\<forall>k < nat p. ucast (fst (es ! k)) < i"
      "\<forall>k < length es. nat p \<le> k \<longrightarrow> i < ucast (fst (es ! k))" by auto
    have "lower_bound (widen es) i = nat p"
      by (rule lower_bound_eqI) (use p in auto)
    moreover have "ucast (fst (es ! nat p)) \<noteq> i" if "nat p \<noteq> length es"
      using p(2) p(4) [rule_format, of "nat p"] that by auto
    ultimately show ?thesis using Inr p(1) by (auto simp: Let_def)
  qed
qed

section \<open>Get and Set\<close>

lemma vt_inv_sorted [simp]: "vt_inv s \<Longrightarrow> sorted_keys (in_entries s)"
  by (simp add: vt_inv_def entries_ok_def)

lemma Get_clock:
  assumes "vt_inv s"
  shows "VectorTime_Get s i = clock s i"
proof (cases "heap s")
  case True
  then have e: "in_entries s = heapEntries s" by (simp add: in_entries_def)
  show ?thesis using True lower_bound_lookup [OF vt_inv_sorted [OF assms], of i, unfolded e]
    by (simp add: VectorTime_Get_def clock_def e Let_def)
next
  case False
  then have e: "in_entries s = widen (inl s)" and sk: "sorted_keys (inl s)"
    using assms vt_inv_sorted [OF assms] by (auto simp: in_entries_def)
  have big: "value_in (widen (inl s)) i = 1" if "65535 < i"
  proof -
    have "(ucast (fst e) :: u32) \<noteq> i" for e :: "u16 \<times> u32"
      using that ucast_16_32_le [of "fst e"] by auto
    then have "i \<notin> fst ` set (widen (inl s))" by (auto simp: image_image)
    then show ?thesis by (simp add: value_in_def map_of_eq_None_iff [THEN iffD2])
  qed
  show ?thesis
    using False big lower_bound_lookup [of "widen (inl s)" i] sk bsearch_lower_bound [OF sk, of i]
      lower_bound_le [of "widen (inl s)" i]
    by (auto simp: VectorTime_Get_def clock_def e Let_def split: if_splits)
qed

lemma heap_set_Nil [simp]: "heap_set [] i v = [(i, v)]"
  by (simp add: heap_set_def insert_at_def Let_def)

lemma heap_set_Cons:
  "heap_set (e # es) i v =
     (if fst e < i then e # heap_set es i v
      else if fst e = i then (i, max v (snd e)) # es else (i, v) # e # es)"
  by (cases e) (auto simp: heap_set_def lower_bound_Cons insert_at_def Let_def max_def)

lemma set_heap_set_keys: "fst ` set (heap_set es i v) = insert i (fst ` set es)"
  by (induction es) (auto simp: heap_set_Cons)

lemma heap_set_ok: "entries_ok es \<Longrightarrow> 1 < v \<Longrightarrow> entries_ok (heap_set es i v)"
proof (induction es)
  case (Cons e es)
  have "\<forall>k\<in>fst ` set (heap_set es i v). fst e < k" if "fst e < i"
    using that Cons.prems(1) by (auto simp: set_heap_set_keys entries_ok_Cons)
  with Cons show ?case
    by (auto simp: heap_set_Cons entries_ok_Cons max_def)
qed (simp add: entries_ok_Cons)

lemma value_in_heap_set:
  "entries_ok es \<Longrightarrow> 1 < v \<Longrightarrow>
     value_in (heap_set es i v) = (value_in es)(i := max (value_in es i) v)"
proof (induction es)
  case (Cons e es)
  have "value_in es i = 1" if "i < fst e"
    using that Cons.prems by (intro value_in_fresh) (auto simp: entries_ok_Cons)
  with Cons show ?case
    by (auto simp: heap_set_Cons value_in_Cons entries_ok_Cons fun_eq_iff max_def)
qed (auto simp: value_in_Cons max_def)

lemma in_entries_migrate:
  "vt_inv s \<Longrightarrow> in_entries (MigrateToHeap s) = in_entries s"
  by (auto simp: MigrateToHeap_def in_entries_def vt_inv_def)

lemma heap_migrate [simp]: "heap (MigrateToHeap s)"
  by (simp add: MigrateToHeap_def)

lemma migrate_inv: "vt_inv s \<Longrightarrow> vt_inv (MigrateToHeap s)"
  using in_entries_migrate [of s]
  by (auto simp: vt_inv_def) (auto simp: MigrateToHeap_def)

lemma Set_inline_entries:
  assumes "vt_inv s" "\<not> heap s" "i \<le> 65535" "1 < v"
  shows "in_entries (VectorTime_Set s i v) = heap_set (in_entries s) i v"
proof -
  have e: "in_entries s = widen (inl s)" and sk: "sorted_keys (inl s)"
    using assms vt_inv_sorted [OF assms(1)] by (auto simp: in_entries_def)
  let ?p = "lower_bound (widen (inl s)) i"
  have le: "?p \<le> length (inl s)" using lower_bound_le [of "widen (inl s)" i] by simp
  have mig: "heapEntries (MigrateToHeap s) = widen (inl s)"
    using assms by (simp add: MigrateToHeap_def vt_inv_def)
  show ?thesis
    using assms le bsearch_lower_bound [OF sk, of i]
    by (auto simp: VectorTime_Set_def e heap_set_def Let_def in_entries_def mig
        map_update map_insert_at ucast_32_16_32 split: if_splits)
qed

lemma Set_entries:
  assumes "vt_inv s"
  shows "in_entries (VectorTime_Set s i v) =
     (if v \<le> 1 then in_entries s else heap_set (in_entries s) i v)"
proof -
  have 1: "in_entries (VectorTime_Set s i v) = heap_set (in_entries s) i v"
    if "1 < v" "heap s \<or> 65535 < i"
    using that in_entries_migrate [OF assms]
    by (auto simp: VectorTime_Set_def Let_def in_entries_def)
  show ?thesis
    using 1 Set_inline_entries [OF assms, of i v]
    by (cases "v \<le> 1"; cases "heap s \<or> 65535 < i")
       (auto simp: VectorTime_Set_def not_le not_less)
qed

lemma Set_heap_cases: "heap (VectorTime_Set s i v) \<Longrightarrow> vt_inv s \<Longrightarrow> inl (VectorTime_Set s i v) = []"
  by (auto simp: VectorTime_Set_def Let_def vt_inv_def MigrateToHeap_def
      split: if_splits sum.splits)

lemma Set_inline_cases:
  "\<not> heap (VectorTime_Set s i v) \<Longrightarrow> vt_inv s \<Longrightarrow>
     heapEntries (VectorTime_Set s i v) = [] \<and> length (inl (VectorTime_Set s i v)) \<le> INLINE_CAP"
  by (auto simp: VectorTime_Set_def Let_def vt_inv_def MigrateToHeap_def
      split: if_splits sum.splits)

lemma Set_inv [intro]: "vt_inv s \<Longrightarrow> vt_inv (VectorTime_Set s i v)"
  using Set_heap_cases [of s i v] Set_inline_cases [of s i v]
  by (auto simp: vt_inv_def [of "VectorTime_Set s i v"] Set_entries not_le intro!: heap_set_ok)
     (auto simp: vt_inv_def)

lemma Set_clock [clock_simps]:
  assumes "vt_inv s"
  shows "clock (VectorTime_Set s i v) =
     (clock s)(i := (if v \<le> 1 then clock s i else max (clock s i) v))"
  using assms value_in_heap_set [of "in_entries s" v i]
  by (auto simp: clock_def Set_entries not_le vt_inv_def)

lemma clock_ge: "vt_inv s \<Longrightarrow> 1 \<le> clock s i"
  by (simp add: clock_def value_in_ge vt_inv_def)

section \<open>Merging\<close>

lemma merge_inline_Nil [simp]: "merge_inline [] ys = ys"
  by (cases ys) auto

lemma set_merge_inline_keys:
  "fst ` set (merge_inline xs ys) = fst ` set xs \<union> fst ` set ys"
  by (induction xs ys rule: merge_inline.induct) auto

lemma merge_inline_ok: "entries_ok xs \<Longrightarrow> entries_ok ys \<Longrightarrow> entries_ok (merge_inline xs ys)"
proof (induction xs ys rule: merge_inline.induct)
  case (1 i v os j w ins)
  have keys: "(\<forall>f\<in>set (merge_inline as bs). k < fst f) \<longleftrightarrow>
      (\<forall>f\<in>set as. k < fst f) \<and> (\<forall>f\<in>set bs. k < fst f)" for k and as bs :: "('a \<times> u32) list"
  proof -
    have "(\<forall>f\<in>set (merge_inline as bs). k < fst f) \<longleftrightarrow>
        (\<forall>x\<in>fst ` set (merge_inline as bs). k < x)" by simp
    also have "\<dots> \<longleftrightarrow> (\<forall>f\<in>set as. k < fst f) \<and> (\<forall>f\<in>set bs. k < fst f)"
      unfolding set_merge_inline_keys by auto
    finally show ?thesis .
  qed
  from 1 show ?case
    by (auto simp: entries_ok_Cons keys less_max_iff_disj)
qed auto

lemma merge_inline_value:
  "entries_ok xs \<Longrightarrow> entries_ok ys \<Longrightarrow>
     value_in (merge_inline xs ys) k = max (value_in xs k) (value_in ys k)"
proof (induction xs ys rule: merge_inline.induct)
  case (1 i v os j w ins)
  have a: "value_in ((j, w) # ins) i = 1" if "i < j"
    using that "1.prems" by (intro value_in_fresh) (auto simp: entries_ok_Cons)
  have b: "value_in ((i, v) # os) j = 1" if "j < i"
    using that "1.prems" by (intro value_in_fresh) (auto simp: entries_ok_Cons)
  have o: "1 < v" "1 < w" "entries_ok os" "entries_ok ins" using "1.prems" by (auto simp: entries_ok_Cons)
  consider "i < j" | "j < i" | "i = j" by fastforce
  then show ?case
  proof cases
    case 1
    with "1.IH"(1) "1.prems" a o show ?thesis
      by (cases "k = i") (auto simp: value_in_Cons max_def)
  next
    case 2
    with "1.IH"(2) "1.prems" b o show ?thesis
      by (cases "k = j") (auto simp: value_in_Cons max_def)
  next
    case 3
    with "1.IH"(3) "1.prems" o show ?thesis
      by (cases "k = i") (auto simp: value_in_Cons)
  qed
qed (auto simp: max_absorb1 max_absorb2 value_in_ge)

lemma widen_merge_inline: "widen (merge_inline xs ys) = merge_inline (widen xs) (widen ys)"
  by (induction xs ys rule: merge_inline.induct) auto

lemma length_merge_inline_le: "length (merge_inline xs ys) \<le> length xs + length ys"
  by (induction xs ys rule: merge_inline.induct) auto

lemma length_merge_inline_ge:
  "length xs \<le> length (merge_inline xs ys)" "length ys \<le> length (merge_inline xs ys)"
  by (induction xs ys rule: merge_inline.induct) auto

lemma merge_count_eq:
  "merge_count es fs i j c = c + length (merge_inline (drop i es) (drop j fs))"
proof (induction es fs i j c rule: merge_count.induct)
  case (1 es fs i j c)
  show ?case
  proof (cases "i < length es \<and> j < length fs")
    case True
    then have d: "drop i es = es ! i # drop (Suc i) es" "drop j fs = fs ! j # drop (Suc j) fs"
      by (auto simp: Cons_nth_drop_Suc)
    from True "1.IH" [OF True refl refl] show ?thesis
      by (subst merge_count.simps)
         (cases "es ! i"; cases "fs ! j"; auto simp: Let_def d not_le)
  next
    case False
    then have "drop i es = [] \<or> drop j fs = []" by auto
    with False show ?thesis by (subst merge_count.simps) auto
  qed
qed

text \<open>Merging from the back: the last entries decide the last merged entry.\<close>

lemma merge_inline_skip_left:
  "\<forall>x\<in>set xs. \<forall>f\<in>set zs. fst x < fst f \<Longrightarrow> merge_inline (xs @ ys) zs = xs @ merge_inline ys zs"
  by (induction xs; cases zs) auto

lemma merge_inline_skip_right:
  "\<forall>x\<in>set xs. \<forall>f\<in>set zs. fst x < fst f \<Longrightarrow> merge_inline zs (xs @ ys) = xs @ merge_inline zs ys"
  by (induction xs; cases zs) auto

lemma merge_inline_append:
  assumes "\<forall>x\<in>set xs \<union> set ys. \<forall>f\<in>set xs' \<union> set ys'. fst x < fst f"
  shows "merge_inline (xs @ xs') (ys @ ys') = merge_inline xs ys @ merge_inline xs' ys'"
  using assms
proof (induction xs ys rule: merge_inline.induct)
  case (2 os)
  then show ?case by (simp add: merge_inline_skip_left)
next
  case (3 p ins)
  then show ?case using merge_inline_skip_right [of "p # ins" xs' ys'] by simp
qed auto

text \<open>One iteration of the backward loops writes the last merged entry and goes on before it.\<close>

lemma merge_back_write:
  assumes M: "merge_inline (take i es) (take j fs) = merge_inline (take i' es) (take j' fs) @ [e]"
    and le: "i' \<le> i" "i \<le> length es"
    and a: "take i a = take i es" "k = length (merge_inline (take i es) (take j fs))" "k \<le> length a"
  shows "k - 1 = length (merge_inline (take i' es) (take j' fs))" "k - 1 \<le> length (a[k - 1 := e])"
    and "take i' (a[k - 1 := e]) = take i' es"
    and "merge_inline (take i' es) (take j' fs) @ drop (k - 1) (a[k - 1 := e]) =
         merge_inline (take i es) (take j fs) @ drop k a"
proof -
  show k1: "k - 1 = length (merge_inline (take i' es) (take j' fs))" using M a(2) by simp
  then have ik: "i' \<le> k - 1" using le length_merge_inline_ge(1) [of "take i' es" "take j' fs"] by simp
  from M a(2) have k: "k = Suc (k - 1)" by simp
  show "k - 1 \<le> length (a[k - 1 := e])" using a(3) by simp
  show "take i' (a[k - 1 := e]) = take i' es"
    using ik le a(1) by (metis min.absorb1 take_take take_update_cancel)
  have "drop (k - 1) (a[k - 1 := e]) = e # drop k a"
    using a(3) k by (metis Suc_le_lessD drop_update_swap Cons_nth_drop_Suc length_list_update
        list_update_code(2) diff_self_eq_0 order_refl)
  then show "merge_inline (take i' es) (take j' fs) @ drop (k - 1) (a[k - 1 := e]) =
         merge_inline (take i es) (take j fs) @ drop k a" using M by simp
qed

lemma merge_back_eq:
  assumes "entries_ok es" "entries_ok fs" "i \<le> length es" "j \<le> length fs"
    and "take i a = take i es" "k = length (merge_inline (take i es) (take j fs))" "k \<le> length a"
  shows "merge_back a fs i j k = merge_inline (take i es) (take j fs) @ drop k a"
  using assms
proof (induction a fs i j k rule: merge_back.induct)
  case (1 a fs i j k)
  have ai: "a ! (i - 1) = es ! (i - 1)" if "0 < i"
    using that "1.prems"(5) by (metis diff_less nth_take zero_less_one)
  have ti: "take i es = take (i - 1) es @ [es ! (i - 1)]" if "0 < i"
    using that "1.prems"(3) by (metis Suc_diff_1 Suc_le_lessD take_Suc_conv_app_nth)
  have tj: "take j fs = take (j - 1) fs @ [fs ! (j - 1)]" if "0 < j"
    using that "1.prems"(4) by (metis Suc_diff_1 Suc_le_lessD take_Suc_conv_app_nth)
  have ski: "\<forall>x\<in>set (take (i - 1) es). fst x < fst (es ! (i - 1))" if "0 < i"
    using that "1.prems"(1) entries_ok_take [of es i] ti
    by (auto simp: entries_ok_def sorted_keys_append)
  have skj: "\<forall>x\<in>set (take (j - 1) fs). fst x < fst (fs ! (j - 1))" if "0 < j"
    using that "1.prems"(2) entries_ok_take [of fs j] tj
    by (auto simp: entries_ok_def sorted_keys_append)
  let ?x = "es ! (i - 1)" and ?y = "fs ! (j - 1)"
  note wr = merge_back_write [OF _ _ "1.prems"(3,5,6,7)]
  consider (gt) "0 < i" "0 < j" "fst ?y < fst ?x" | (lt) "0 < i" "0 < j" "fst ?x < fst ?y"
    | (eq) "0 < i" "0 < j" "fst ?x = fst ?y" | (only_out) "0 < i" "j = 0"
    | (only_in) "i = 0" "0 < j" | (none) "i = 0" "j = 0" by fastforce
  then show ?case
  proof cases
    case gt
    have "\<forall>f\<in>set (take (i - 1) es) \<union> set (take j fs). fst f < fst ?x"
      using ski [OF gt(1)] skj [OF gt(2)] gt(3) by (auto simp: tj [OF gt(2)] intro: order.strict_trans)
    then have M: "merge_inline (take i es) (take j fs) =
        merge_inline (take (i - 1) es) (take j fs) @ [?x]"
      using merge_inline_append [of "take (i - 1) es" "take j fs" "[?x]" "[]"]
      by (simp add: ti [OF gt(1)])
    note b = wr [OF M]
    have "merge_back a fs i j k = merge_back (a[k - 1 := ?x]) fs (i - 1) j (k - 1)"
      using gt ai by (subst merge_back.simps) (simp add: Let_def)
    with "1.IH"(1) gt "1.prems" b ai show ?thesis by simp
  next
    case lt
    have "\<forall>f\<in>set (take i es) \<union> set (take (j - 1) fs). fst f < fst ?y"
      using ski [OF lt(1)] skj [OF lt(2)] lt(3) by (auto simp: ti [OF lt(1)] intro: order.strict_trans)
    then have M: "merge_inline (take i es) (take j fs) =
        merge_inline (take i es) (take (j - 1) fs) @ [?y]"
      using merge_inline_append [of "take i es" "take (j - 1) fs" "[]" "[?y]"]
      by (simp add: tj [OF lt(2)])
    note b = wr [OF M]
    have "merge_back a fs i j k = merge_back (a[k - 1 := ?y]) fs i (j - 1) (k - 1)"
      using lt ai by (subst merge_back.simps) (auto simp: Let_def)
    with "1.IH"(2) lt "1.prems" b ai show ?thesis by auto
  next
    case eq
    let ?e = "(fst ?x, max (snd ?x) (snd ?y))"
    have "merge_inline [?x] [?y] = [?e]" using eq by (cases ?x; cases ?y) auto
    then have M: "merge_inline (take i es) (take j fs) =
        merge_inline (take (i - 1) es) (take (j - 1) fs) @ [?e]"
      using eq ski skj merge_inline_append [of "take (i - 1) es" "take (j - 1) fs" "[?x]" "[?y]"]
      by (auto simp: ti tj)
    note b = wr [OF M]
    have "merge_back a fs i j k = merge_back (a[k - 1 := ?e]) fs (i - 1) (j - 1) (k - 1)"
      using eq ai by (subst merge_back.simps) (simp add: Let_def)
    with "1.IH"(3) eq "1.prems" b ai show ?thesis by simp
  next
    case only_out
    then have M: "merge_inline (take i es) (take j fs) =
        merge_inline (take (i - 1) es) (take j fs) @ [?x]" by (simp add: ti)
    note b = wr [OF M]
    have "merge_back a fs i j k = merge_back (a[k - 1 := ?x]) fs (i - 1) j (k - 1)"
      using only_out ai by (subst merge_back.simps) (simp add: Let_def)
    with "1.IH"(4) only_out "1.prems" b ai show ?thesis by (simp del: list_update_id)
  next
    case only_in
    then have M: "merge_inline (take i es) (take j fs) =
        merge_inline (take i es) (take (j - 1) fs) @ [?y]" by (simp add: tj)
    note b = wr [OF M]
    have "merge_back a fs i j k = merge_back (a[k - 1 := ?y]) fs i (j - 1) (k - 1)"
      using only_in by (subst merge_back.simps) (simp add: Let_def)
    with "1.IH"(5) only_in "1.prems" b show ?thesis by simp
  next
    case none
    with "1.prems" show ?thesis by (subst merge_back.simps) simp
  qed
qed

lemma MergeHeap_entries:
  assumes "heap out" "vt_inv out" "vt_inv inp"
  shows "heapEntries (MergeHeap out inp (vt_size inp)) =
     merge_inline (in_entries out) (in_entries inp)"
proof -
  let ?es = "heapEntries out" and ?fs = "in_entries inp"
  have fs: "take (vt_size inp) ?fs = ?fs" by (simp add: vt_size_def in_entries_def)
  have ok: "entries_ok ?es" "entries_ok ?fs" using assms by (auto simp: vt_inv_def in_entries_def)
  let ?n = "length (merge_inline ?es ?fs)"
  let ?a = "take ?n ?es @ replicate (?n - length ?es) (0, 0)"
  have n: "length ?es \<le> ?n" by (rule length_merge_inline_ge(1))
  have a1: "take (length ?es) ?a = take (length ?es) ?es" using n by simp
  have a2: "?n = length (merge_inline (take (length ?es) ?es) (take (length ?fs) ?fs))" by simp
  have a3: "?n \<le> length ?a" by simp
  have "merge_back ?a ?fs (length ?es) (length ?fs) ?n = merge_inline ?es ?fs @ drop ?n ?a"
    using merge_back_eq [OF ok order_refl order_refl a1 a2 a3] by (simp only: take_all order_refl)
  moreover have "drop ?n ?a = []" using n by simp
  ultimately show ?thesis using assms(1)
    by (simp add: MergeHeap_def fs merge_count_eq Let_def in_entries_def [of out])
qed

lemma MergeMax_entries:
  assumes "vt_inv out" "vt_inv inp"
  shows "in_entries (VectorTime_MergeMax False out inp) =
     merge_inline (in_entries out) (in_entries inp)"
proof (cases "VectorTime_empty inp")
  case True
  then have "in_entries inp = []" by (auto simp: VectorTime_empty_def in_entries_def)
  with True show ?thesis by (simp add: VectorTime_MergeMax_def)
next
  case False
  show ?thesis
  proof (cases "MergeInline out inp (vt_size inp)")
    case None
    have "heap (MergeHeap o' i' n)= heap o'" for o' i' n by (simp add: MergeHeap_def Let_def)
    with None False MergeHeap_entries [OF heap_migrate migrate_inv [OF assms(1)] assms(2)]
    show ?thesis by (simp add: VectorTime_MergeMax_def in_entries_def [of "MergeHeap _ _ _"]
          in_entries_migrate [OF assms(1)])
  next
    case (Some out')
    then have h: "\<not> heap out" "\<not> heap inp"
      "out' = out\<lparr>inl := merge_inline (inl out) (inl inp)\<rparr>"
      by (auto simp: MergeInline_def vt_size_def split: if_splits)
    with Some False show ?thesis
      by (simp add: VectorTime_MergeMax_def in_entries_def widen_merge_inline)
  qed
qed

lemma MergeMax_shape:
  assumes "vt_inv out" "vt_inv inp"
  shows "let r = VectorTime_MergeMax False out inp in
     if heap r then inl r = [] else heapEntries r = [] \<and> length (inl r) \<le> INLINE_CAP"
proof -
  have "inl (MigrateToHeap out) = []" using assms(1) by (auto simp: MigrateToHeap_def vt_inv_def)
  moreover have "length (merge_inline (inl out) (inl inp)) \<le> INLINE_CAP"
    if "length (inl out) + length (inl inp) \<le> INLINE_CAP"
    using that length_merge_inline_le [of "inl out" "inl inp"] by simp
  ultimately show ?thesis using assms(1)
    by (auto simp: VectorTime_MergeMax_def MergeInline_def MergeHeap_def vt_size_def vt_inv_def Let_def
        split: option.splits if_splits)
qed

lemma MergeMax_inv: "vt_inv out \<Longrightarrow> vt_inv inp \<Longrightarrow> vt_inv (VectorTime_MergeMax False out inp)"
  using MergeMax_shape [of out inp]
  by (auto simp: vt_inv_def [of "VectorTime_MergeMax False out inp"] MergeMax_entries Let_def
      intro!: merge_inline_ok) (auto simp: vt_inv_def)

lemma MergeMax_clock:
  "vt_inv out \<Longrightarrow> vt_inv inp \<Longrightarrow>
     clock (VectorTime_MergeMax False out inp) i = max (clock out i) (clock inp i)"
  by (simp add: clock_def MergeMax_entries vt_inv_def merge_inline_value)

text \<open>The component-wise route of \<open>UpdateVectorTime\<close>.\<close>

lemma fold_Set:
  assumes "vt_inv out" "entries_ok es"
  shows "vt_inv (fold (\<lambda>(i, v) t. VectorTime_Set t i v) es out) \<and>
     clock (fold (\<lambda>(i, v) t. VectorTime_Set t i v) es out) j = max (clock out j) (value_in es j)"
  using assms
proof (induction es arbitrary: out)
  case Nil
  then show ?case using clock_ge [of out j] by (simp add: max_absorb1)
next
  case (Cons e es)
  obtain i v where e: "e = (i, v)" by force
  from Cons.prems(2) have "\<forall>f\<in>set es. i < fst f" by (simp add: entries_ok_Cons e)
  then have "value_in es i = 1" by (rule value_in_fresh)
  with Cons.IH [OF Set_inv [OF Cons.prems(1)], of i v] Cons.prems clock_ge [of out j] show ?case
    by (auto simp: e Set_clock value_in_Cons entries_ok_Cons max_absorb1 le_max_iff_disj)
qed

lemma UpdateVectorTime_fold:
  "vt_size inp < kLinearMergeMin \<Longrightarrow>
     UpdateVectorTime inp out = fold (\<lambda>(i, v) t. VectorTime_Set t i v) (in_entries inp) out"
  by (simp add: UpdateVectorTime_def in_entries_def fold_map comp_def case_prod_unfold)

lemma UpdateVectorTime_inv [intro]:
  "vt_inv inp \<Longrightarrow> vt_inv out \<Longrightarrow> vt_inv (UpdateVectorTime inp out)"
proof (cases "vt_size inp < kLinearMergeMin")
  case True
  assume "vt_inv inp" "vt_inv out"
  with True fold_Set [of out "in_entries inp"] show ?thesis
    by (simp add: UpdateVectorTime_fold vt_inv_def [of inp])
next
  case False
  assume "vt_inv inp" "vt_inv out"
  with False show ?thesis by (simp add: UpdateVectorTime_def MergeMax_inv)
qed

lemma UpdateVectorTime_clock:
  "vt_inv inp \<Longrightarrow> vt_inv out \<Longrightarrow>
     clock (UpdateVectorTime inp out) j = max (clock out j) (clock inp j)"
proof (cases "vt_size inp < kLinearMergeMin")
  case True
  assume "vt_inv inp" "vt_inv out"
  with True fold_Set [of out "in_entries inp" j] show ?thesis
    by (simp add: UpdateVectorTime_fold vt_inv_def [of inp] clock_def [of inp])
next
  case False
  assume "vt_inv inp" "vt_inv out"
  with False show ?thesis by (simp add: UpdateVectorTime_def MergeMax_clock)
qed

lemma UpdateLogicTime_inv [intro]: "vt_inv t \<Longrightarrow> vt_inv (UpdateLogicTime t p)"
  by (auto simp: UpdateLogicTime_def)

lemma word_add_one_cases: "(x :: u32) + 1 = 0 \<or> x < x + 1"
  using unatSuc [of x] by (cases "1 + x = 0") (auto simp: word_less_nat_alt add.commute)

lemma UpdateLogicTime_clock:
  assumes "vt_inv t"
  shows "clock (UpdateLogicTime t p) =
     (clock t)(p := (if clock t p = - 1 then clock t p else clock t p + 1))"
proof (cases "clock t p + 1 = 0")
  case True
  then have "clock t p = - 1" by (simp add: eq_neg_iff_add_eq_0)
  then show ?thesis using assms by (simp add: UpdateLogicTime_def Set_clock Get_clock)
next
  case False
  then have lt: "clock t p < clock t p + 1" and ne: "clock t p \<noteq> - 1"
    using word_add_one_cases [of "clock t p"] by auto
  have "1 \<le> clock t p" using assms by (rule clock_ge)
  then have "\<not> clock t p + 1 \<le> 1" using lt by simp
  with lt ne assms show ?thesis by (simp add: UpdateLogicTime_def Set_clock Get_clock max.absorb2 less_imp_le)
qed

section \<open>Equality and dense vectors\<close>

lemma EqualTo_entries:
  "vt_inv t \<Longrightarrow> VectorTime_EqualTo s t \<longleftrightarrow> (\<forall>(i, v)\<in>set (in_entries s). clock t i = v)"
  by (auto simp: VectorTime_EqualTo_def in_entries_def list_all_iff Get_clock)

lemma EqualTo_clock:
  assumes "vt_inv s" "vt_inv t"
  shows "VectorTime_EqualTo s t \<longleftrightarrow> (\<forall>i. clock s i \<noteq> 1 \<longrightarrow> clock t i = clock s i)"
proof -
  let ?es = "in_entries s"
  have d: "distinct (map fst ?es)" using assms(1) by (simp add: sorted_keys_distinct)
  have gt: "1 < v" if "(i, v) \<in> set ?es" for i v
    using that assms(1) by (auto simp: vt_inv_def entries_ok_def)
  have val: "clock s i = v" if "(i, v) \<in> set ?es" for i v
    using that d by (simp add: clock_def value_in_def)
  have mem: "(i, clock s i) \<in> set ?es" if "clock s i \<noteq> 1" for i
    using that by (auto simp: clock_def value_in_def split: option.splits dest: map_of_SomeD)
  show ?thesis unfolding EqualTo_entries [OF assms(2)] using gt val mem by fastforce
qed

lemma VectorTime_eq_clock:
  assumes "vt_inv s" "vt_inv t"
  shows "VectorTime_eq s t \<longleftrightarrow> (\<forall>j. clock s j = clock t j)"
proof
  assume "VectorTime_eq s t"
  then have e: "\<forall>j. clock s j \<noteq> 1 \<longrightarrow> clock t j = clock s j" "\<forall>j. clock t j \<noteq> 1 \<longrightarrow> clock s j = clock t j"
    unfolding VectorTime_eq_def EqualTo_clock [OF assms] EqualTo_clock [OF assms(2,1)] by blast+
  show "\<forall>j. clock s j = clock t j"
  proof
    fix j show "clock s j = clock t j" using e(1) [rule_format, of j] e(2) [rule_format, of j] by argo
  qed
qed (use assms in \<open>auto simp: VectorTime_eq_def EqualTo_clock\<close>)

lemma stored_mem: "(k, v) \<in> set (stored full) \<longleftrightarrow> k < length full \<and> full ! k = v \<and> v \<noteq> 1"
  by (auto simp: stored_def in_set_enumerate_eq)

lemma sorted_stored: "sorted_keys (stored full)"
  unfolding sorted_keys_def stored_def sorted_wrt_map
  by (rule sorted_wrt_filter) (simp add: sorted_wrt_iff_nth_less nth_enumerate_eq)

definition stored32 :: "u32 list \<Rightarrow> (u32 \<times> u32) list" where
  "stored32 full = map (\<lambda>(i, v). (of_nat i, v)) (stored full)"

lemma FromFull_entries:
  assumes "length full \<le> 2 ^ 32"
  shows "in_entries (VectorTime_FromFull full) = stored32 full"
proof -
  have "ucast (of_nat i :: u16) = (of_nat i :: u32)" if "i \<le> 65535" for i
    using that by (simp add: word_unat_eq_iff unat_of_nat)
  then show ?thesis
    by (auto simp: VectorTime_FromFull_def in_entries_def stored32_def Let_def VectorTime_new_def
        list_ex_iff case_prod_beta not_less)
qed

lemma stored32_ok:
  assumes "length full \<le> 2 ^ 32" "0 \<notin> set full"
  shows "entries_ok (stored32 full)"
proof -
  have "sorted_wrt (\<lambda>a b. (of_nat (fst a) :: u32) < of_nat (fst b)) (stored full)"
  proof (rule sorted_wrt_mono_rel)
    show "sorted_wrt (\<lambda>a b. fst a < fst b) (stored full)"
      using sorted_stored [of full] by (simp add: sorted_keys_def sorted_wrt_map)
    fix a b assume "a \<in> set (stored full)" "b \<in> set (stored full)" "fst a < fst b"
    then show "(of_nat (fst a) :: u32) < of_nat (fst b)"
      using assms(1) stored_mem [of "fst a" "snd a" full] stored_mem [of "fst b" "snd b" full]
      by (simp add: word_less_nat_alt unat_of_nat)
  qed
  then have "sorted_keys (stored32 full)"
    by (simp add: sorted_keys_def stored32_def sorted_wrt_map case_prod_beta)
  moreover have "1 < v" if "(i, v) \<in> set (stored32 full)" for i v
  proof -
    from that have "v \<in> set full" "v \<noteq> 1" by (auto simp: stored32_def stored_mem)
    with assms(2) have "v \<noteq> 0" "v \<noteq> 1" by auto
    then have "unat v \<noteq> 0" "unat v \<noteq> 1" by (simp_all add: word_unat_eq_iff)
    then show ?thesis by (simp add: word_less_nat_alt)
  qed
  ultimately show ?thesis by (auto simp: entries_ok_def)
qed

lemma FromFull_inv:
  assumes "length full \<le> 2 ^ 32" "0 \<notin> set full"
  shows "vt_inv (VectorTime_FromFull full)"
  using stored32_ok [OF assms] FromFull_entries [OF assms(1)]
  by (auto simp: vt_inv_def) (auto simp: VectorTime_FromFull_def VectorTime_new_def Let_def)

lemma FromFull_clock:
  assumes "length full \<le> 2 ^ 32" "0 \<notin> set full"
  shows "clock (VectorTime_FromFull full) i = (if unat i < length full then full ! unat i else 1)"
proof -
  have d: "distinct (map fst (stored32 full))"
    using stored32_ok [OF assms] by (simp add: entries_ok_def sorted_keys_distinct)
  have mem: "(i, v) \<in> set (stored32 full) \<longleftrightarrow> (unat i, v) \<in> set (stored full)" for v
  proof
    assume "(i, v) \<in> set (stored32 full)"
    then obtain k where "(k, v) \<in> set (stored full)" "i = of_nat k" by (auto simp: stored32_def)
    then show "(unat i, v) \<in> set (stored full)"
      using assms(1) by (auto simp: stored_mem unat_of_nat)
  next
    assume "(unat i, v) \<in> set (stored full)"
    then have "(of_nat (unat i), v) \<in> set (stored32 full)" by (force simp: stored32_def)
    then show "(i, v) \<in> set (stored32 full)" by simp
  qed
  show ?thesis
  proof (cases "map_of (stored32 full) i")
    case None
    then have "(i, v) \<notin> set (stored32 full)" for v by (auto simp: map_of_eq_None_iff image_iff)
    with None show ?thesis
      by (auto simp: clock_def value_in_def FromFull_entries [OF assms(1)] mem stored_mem)
  next
    case (Some v)
    with map_of_SomeD [OF Some] show ?thesis
      by (auto simp: clock_def value_in_def FromFull_entries [OF assms(1)] mem stored_mem)
  qed
qed

section \<open>The interface of a vector clock\<close>

text \<open>
  What the race algorithms rely on: a time gives every component a value, \<open>tick\<close> advances one
  component (until it saturates), \<open>join\<close> takes pointwise maxima.
\<close>

locale vector_clock_ops =
  fixes inv :: "'t \<Rightarrow> bool"
    and val :: "'t \<Rightarrow> 'i \<Rightarrow> 'v::linorder"
    and tick :: "'t \<Rightarrow> 'i \<Rightarrow> 't"
    and join :: "'t \<Rightarrow> 't \<Rightarrow> 't"
    and top :: 'v
  assumes inv_tick: "inv t \<Longrightarrow> inv (tick t i)"
    and inv_join: "inv s \<Longrightarrow> inv t \<Longrightarrow> inv (join s t)"
    and tick_other: "inv t \<Longrightarrow> j \<noteq> i \<Longrightarrow> val (tick t i) j = val t j"
    and tick_own: "inv t \<Longrightarrow> val t i \<noteq> top \<Longrightarrow> val t i < val (tick t i) i"
    and tick_top: "inv t \<Longrightarrow> val t i = top \<Longrightarrow> val (tick t i) i = top"
    and join_val: "inv s \<Longrightarrow> inv t \<Longrightarrow> val (join s t) i = max (val t i) (val s i)"
begin

definition dominated :: "'t \<Rightarrow> 't \<Rightarrow> bool" where
  "dominated s t \<longleftrightarrow> (\<forall>i. val s i \<le> val t i)"

definition concurrent :: "'t \<Rightarrow> 't \<Rightarrow> 'i \<Rightarrow> 'i \<Rightarrow> bool" where
  "concurrent s t p q \<longleftrightarrow>
     (val s p < val t p \<and> val t q < val s q) \<or> (val t p < val s p \<and> val s q < val t q)"

lemma tick_dominates: "inv t \<Longrightarrow> dominated t (tick t i)"
  using tick_other tick_own tick_top by (metis dominated_def less_imp_le order_refl)

lemma join_dominates: "inv s \<Longrightarrow> inv t \<Longrightarrow> dominated s (join s t) \<and> dominated t (join s t)"
  by (simp add: dominated_def join_val)

lemma dominated_trans: "dominated s t \<Longrightarrow> dominated t u \<Longrightarrow> dominated s u"
  using order_trans by (fastforce simp: dominated_def)

lemma dominated_not_concurrent: "dominated s t \<Longrightarrow> \<not> concurrent s t p q"
  by (auto simp: dominated_def concurrent_def not_less)

lemma receive_dominates:
  "inv s \<Longrightarrow> inv t \<Longrightarrow> dominated s (tick (join s t) p) \<and> dominated t (tick (join s t) p)"
  using join_dominates tick_dominates inv_join dominated_trans by blast

lemma unsynchronised_concurrent:
  assumes "inv s" "inv t" "p \<noteq> q" "val s p \<noteq> top" "val t q \<noteq> top"
    and "val t p \<le> val s p" "val s q \<le> val t q"
  shows "concurrent (tick s p) (tick t q) p q"
proof -
  have "val (tick t q) p < val (tick s p) p"
    using assms tick_other [of t p q] tick_own [of s p] by (metis order.strict_trans1)
  moreover have "val (tick s p) q < val (tick t q) q"
    using assms tick_other [of s q p] tick_own [of t q] by (metis order.strict_trans1)
  ultimately show ?thesis by (simp add: concurrent_def)
qed

end

interpretation vt: vector_clock_ops vt_inv clock UpdateLogicTime UpdateVectorTime "- 1"
proof
  show "clock t i < clock (UpdateLogicTime t i) i" if "vt_inv t" "clock t i \<noteq> - 1" for t i
    using that word_add_one_cases [of "clock t i"]
    by (auto simp: UpdateLogicTime_clock eq_neg_iff_add_eq_0)
qed (auto simp: UpdateLogicTime_clock UpdateVectorTime_clock)

lemma IsNotHappensBefore_concurrent:
  "vt_inv s \<Longrightarrow> vt_inv t \<Longrightarrow> IsNotHappensBefore s t p q \<longleftrightarrow> vt.concurrent s t p q"
  by (auto simp: IsNotHappensBefore_def IsNotHappensBefore4_def vt.concurrent_def Get_clock Let_def)

lemma IsHappensBefore_clock:
  "vt_inv s \<Longrightarrow> vt_inv t \<Longrightarrow>
     IsHappensBefore s t p q \<longleftrightarrow> clock s p \<le> clock t p \<and> clock s q \<le> clock t q"
  by (auto simp: IsHappensBefore_def Get_clock)

section \<open>Snapshot pool\<close>

text \<open>
  \<open>TimeInfoPool\<close>: a pointer to a pool element is its position in \<open>pool\<close> (a deque whose elements
  never move), the null pointer is \<open>None\<close>.
\<close>

record TimeInfoPool =
  pool :: "VectorTime list"
  freeList :: "nat list"

definition TimeInfoPool_Alloc :: "TimeInfoPool \<Rightarrow> VectorTime \<Rightarrow> TimeInfoPool \<times> nat" where
  "TimeInfoPool_Alloc tp v =
     (if freeList tp \<noteq> [] then
        let p = last (freeList tp) in
        (tp\<lparr>freeList := butlast (freeList tp), pool := (pool tp)[p := v]\<rparr>, p)
      else (tp\<lparr>pool := pool tp @ [v]\<rparr>, length (pool tp)))"

definition TimeInfoPool_Free :: "TimeInfoPool \<Rightarrow> nat option \<Rightarrow> TimeInfoPool" where
  "TimeInfoPool_Free tp p =
     (case p of None \<Rightarrow> tp | Some a \<Rightarrow> tp\<lparr>freeList := freeList tp @ [a]\<rparr>)"

definition pool_live :: "TimeInfoPool \<Rightarrow> nat \<Rightarrow> bool" where
  "pool_live tp p \<longleftrightarrow> p < length (pool tp) \<and> p \<notin> set (freeList tp)"

definition pool_inv :: "TimeInfoPool \<Rightarrow> bool" where
  "pool_inv tp \<longleftrightarrow> distinct (freeList tp) \<and> (\<forall>p\<in>set (freeList tp). p < length (pool tp))"

lemma butlast_last_set: "xs \<noteq> [] \<Longrightarrow> distinct xs \<Longrightarrow> set (butlast xs) = set xs - {last xs}"
  by (cases xs rule: rev_cases) auto

lemma Alloc_inv: "pool_inv tp \<Longrightarrow> pool_inv (fst (TimeInfoPool_Alloc tp v))"
  by (auto simp: pool_inv_def TimeInfoPool_Alloc_def Let_def distinct_butlast butlast_last_set
      split: if_splits)

lemma Alloc_fresh:
  assumes "pool_inv tp" "TimeInfoPool_Alloc tp v = (tp', p)"
  shows "\<not> pool_live tp p" "pool_live tp' p" "pool tp' ! p = v"
  using assms last_in_set [of "freeList tp"]
  by (auto simp: pool_inv_def TimeInfoPool_Alloc_def Let_def pool_live_def butlast_last_set
      split: if_splits)

lemma Alloc_frame:
  assumes "pool_inv tp" "TimeInfoPool_Alloc tp v = (tp', p)" "pool_live tp q"
  shows "pool_live tp' q \<and> pool tp' ! q = pool tp ! q \<and> q \<noteq> p"
  using assms last_in_set [of "freeList tp"]
  by (auto simp: pool_inv_def TimeInfoPool_Alloc_def Let_def pool_live_def butlast_last_set
      nth_append nth_list_update split: if_splits)

lemma Free_inv: "pool_inv tp \<Longrightarrow> pool_live tp p \<Longrightarrow> pool_inv (TimeInfoPool_Free tp (Some p))"
  by (auto simp: pool_inv_def pool_live_def TimeInfoPool_Free_def)

section \<open>Properties\<close>

text \<open>
  \<open>VectorTime::Set\<close> keeps the representation (ascending indices, at most 48 inline entries, only
  values above the default stored), raises component \<open>i\<close> to the maximum of its old value and
  \<open>v\<close> when \<open>v\<close> exceeds the default, and leaves every other component as \<open>Get\<close> reads it
  unchanged, in the inline array, on the heap, and when it moves from one to the other.
\<close>
theorem vt_Set_Get:
  assumes "vt_inv s"
  shows "vt_inv (VectorTime_Set s i v) \<and>
     VectorTime_Get (VectorTime_Set s i v) j =
       (if j = i \<and> 1 < v then max (VectorTime_Get s i) v else VectorTime_Get s j)"
  using assms by (auto simp: Get_clock Set_clock Set_inv)

theorem vt_Set_Get_witness:
  "VectorTime_Get (VectorTime_Set (VectorTime_Set VectorTime_new 7 4) 70000 9) 7 = 4 \<and>
   VectorTime_Get (VectorTime_Set (VectorTime_Set VectorTime_new 7 4) 70000 9) 70000 = 9"
  using vt_Set_Get [OF Set_inv [OF VectorTime_new_inv], of 7 4 70000 9 7]
    vt_Set_Get [OF Set_inv [OF VectorTime_new_inv], of 7 4 70000 9 70000]
  by (simp add: Get_clock Set_clock Set_inv max_def word_le_nat_alt)

text \<open>
  C36. \<open>VectorClock::UpdateVectorTime\<close> is the pointwise maximum, whichever of its routes it takes:
  the component-wise \<open>Set\<close> loop below 64 components, or \<open>MergeMax\<close> with its inline merge or its
  backward in-place heap merge; and the result keeps the representation invariant.
\<close>
theorem UpdateVectorTime_pointwise_max:
  assumes "vt_inv inp" "vt_inv out"
  shows "vt_inv (UpdateVectorTime inp out) \<and>
     VectorTime_Get (UpdateVectorTime inp out) j = max (VectorTime_Get out j) (VectorTime_Get inp j)"
  using assms by (simp add: Get_clock UpdateVectorTime_clock UpdateVectorTime_inv)

theorem UpdateVectorTime_pointwise_max_witness:
  "VectorTime_Get (UpdateVectorTime (VectorTime_Set VectorTime_new 3 5)
      (VectorTime_Set VectorTime_new 3 2)) 3 = 5"
  using UpdateVectorTime_pointwise_max
    [OF Set_inv [OF VectorTime_new_inv, of 3 5] Set_inv [OF VectorTime_new_inv, of 3 2], of 3]
  by (simp add: Get_clock Set_clock Set_inv max_def word_le_nat_alt)

text \<open>
  The linear merge of \<open>MergeMax\<close> and the loop of single \<open>Set\<close> calls over the same input give
  times that the operator \<open>==\<close> of the code calls equal: the fast path is an optimisation only.
\<close>
theorem MergeMax_equals_Set_loop:
  assumes "vt_inv inp" "vt_inv out"
  shows "VectorTime_eq (VectorTime_MergeMax False out inp)
     (fold (\<lambda>(i, v) t. VectorTime_Set t i v) (in_entries inp) out)"
proof -
  have "entries_ok (in_entries inp)" using assms(1) by (simp add: vt_inv_def)
  note f = fold_Set [OF assms(2) this]
  show ?thesis using f MergeMax_inv [OF assms(2,1)] MergeMax_clock [OF assms(2,1)]
    by (simp add: VectorTime_eq_def EqualTo_clock clock_def [of inp])
qed

theorem MergeMax_equals_Set_loop_witness:
  "VectorTime_eq
     (VectorTime_MergeMax False (VectorTime_Set VectorTime_new 3 2) (VectorTime_Set VectorTime_new 9 4))
     (fold (\<lambda>(i, v) t. VectorTime_Set t i v) (in_entries (VectorTime_Set VectorTime_new 9 4))
        (VectorTime_Set VectorTime_new 3 2))"
  by (rule MergeMax_equals_Set_loop) (rule Set_inv, rule VectorTime_new_inv)+

text \<open>
  Round trip of the sparse representation: a dense vector with positive components is read back
  component by component by \<open>Get\<close> from \<open>FromFull\<close>, with the default 1 beyond its end; the
  operator \<open>==\<close> holds of two converted vectors exactly when they agree at every index.
\<close>
theorem FromFull_roundtrip:
  assumes "length full \<le> 2 ^ 32" "0 \<notin> set full" "length full2 \<le> 2 ^ 32" "0 \<notin> set full2"
  shows "VectorTime_Get (VectorTime_FromFull full) i =
       (if unat i < length full then full ! unat i else 1) \<and>
     (VectorTime_eq (VectorTime_FromFull full) (VectorTime_FromFull full2) \<longleftrightarrow>
       (\<forall>j. VectorTime_Get (VectorTime_FromFull full) j = VectorTime_Get (VectorTime_FromFull full2) j))"
proof -
  note inv = FromFull_inv [OF assms(1,2)] FromFull_inv [OF assms(3,4)]
  show ?thesis using FromFull_clock [OF assms(1,2)]
    by (simp add: Get_clock [OF inv(1)] Get_clock [OF inv(2)] VectorTime_eq_clock [OF inv])
qed

theorem FromFull_roundtrip_witness:
  "VectorTime_Get (VectorTime_FromFull [1, 5, 1, 7]) 3 = 7"
proof -
  have "VectorTime_Get (VectorTime_FromFull [1, 5, 1, 7]) 3 =
      (if unat (3 :: u32) < length [1, 5, 1, 7 :: u32] then [1, 5, 1, 7] ! unat (3 :: u32) else 1)"
    by (rule conjunct1 [OF FromFull_roundtrip [of _ "[]"]]) auto
  then show ?thesis by simp
qed

text \<open>
  Receiving a time orders the sender before the receiver: after \<open>UpdateVectorTime\<close> and
  \<open>UpdateLogicTime\<close> of the receiving pipe, both the sent time and the receiver's old time happen
  before the new one on any two pipes, and \<open>IsNotHappensBefore\<close> never calls them concurrent.
\<close>
theorem receive_happens_before:
  assumes "vt_inv sent" "vt_inv own"
  shows "let new = UpdateLogicTime (UpdateVectorTime sent own) p in
     IsHappensBefore sent new q r \<and> IsHappensBefore own new q r \<and>
     \<not> IsNotHappensBefore sent new q r \<and> \<not> IsNotHappensBefore own new q r"
proof -
  let ?new = "UpdateLogicTime (UpdateVectorTime sent own) p"
  have inv: "vt_inv ?new" using assms by auto
  have "vt.dominated sent ?new" "vt.dominated own ?new"
    using vt.receive_dominates [OF assms] by auto
  with assms inv show ?thesis
    by (simp add: Let_def IsHappensBefore_clock IsNotHappensBefore_concurrent
        vt.dominated_not_concurrent) (simp add: vt.dominated_def)
qed

theorem receive_happens_before_witness:
  "\<not> IsNotHappensBefore (VectorTime_Set VectorTime_new 0 3)
     (UpdateLogicTime (UpdateVectorTime (VectorTime_Set VectorTime_new 0 3) VectorTime_new) 1) 0 1"
  using receive_happens_before [OF Set_inv [OF VectorTime_new_inv] VectorTime_new_inv, of 0 3 1 0 1]
  by (simp add: Let_def)

text \<open>
  Without a message the detector sees concurrency: when neither pipe knows more of the other
  than the other itself does, their next events carry times that \<open>IsNotHappensBefore\<close> calls
  concurrent, as long as no component has reached the 32-bit maximum.
\<close>
theorem unsynchronised_not_happens_before:
  assumes "vt_inv s" "vt_inv t" "p \<noteq> q"
    and "VectorTime_Get s p \<noteq> - 1" "VectorTime_Get t q \<noteq> - 1"
    and "VectorTime_Get t p \<le> VectorTime_Get s p" "VectorTime_Get s q \<le> VectorTime_Get t q"
  shows "IsNotHappensBefore (UpdateLogicTime s p) (UpdateLogicTime t q) p q"
  using assms vt.unsynchronised_concurrent [of s t p q]
  by (simp add: Get_clock IsNotHappensBefore_concurrent UpdateLogicTime_inv)

theorem unsynchronised_not_happens_before_witness:
  "IsNotHappensBefore (UpdateLogicTime VectorTime_new 0) (UpdateLogicTime VectorTime_new 1) 0 1"
  by (rule unsynchronised_not_happens_before) (simp_all add: Get_clock)

text \<open>
  \<open>TimeInfoPool::Alloc\<close> never hands out a slot that is still in use: the slot it returns was
  free, now holds the given time, and every live slot keeps its contents; with \<open>Free\<close> of live
  slots only, the free list stays duplicate-free.
\<close>
theorem TimeInfoPool_alloc_free:
  assumes "pool_inv tp" "pool_live tp q" "TimeInfoPool_Alloc tp v = (tp', p)"
  shows "p \<noteq> q \<and> \<not> pool_live tp p \<and> pool tp' ! p = v \<and> pool tp' ! q = pool tp ! q \<and>
     pool_live tp' q \<and> pool_inv tp' \<and> pool_inv (TimeInfoPool_Free tp' (Some p))"
  using assms Alloc_inv [of tp v] Alloc_fresh [of tp v tp' p] Alloc_frame [of tp v tp' p q] Free_inv [of tp' p]
  by auto

theorem TimeInfoPool_alloc_free_witness:
  "let tp = \<lparr>pool = [VectorTime_new, VectorTime_new], freeList = [1]\<rparr>;
       (tp', p) = TimeInfoPool_Alloc tp (VectorTime_Set VectorTime_new 0 2) in
   p = 1 \<and> pool tp' ! p = VectorTime_Set VectorTime_new 0 2"
  using TimeInfoPool_alloc_free
    [of "\<lparr>pool = [VectorTime_new, VectorTime_new], freeList = [1]\<rparr>" 0 "VectorTime_Set VectorTime_new 0 2"
        "fst (TimeInfoPool_Alloc \<lparr>pool = [VectorTime_new, VectorTime_new], freeList = [1]\<rparr>
           (VectorTime_Set VectorTime_new 0 2))" 1]
  by (simp add: TimeInfoPool_Alloc_def pool_inv_def pool_live_def Let_def)

end
