(* ===== verification/Platform.thy ===== *)
theory Platform
  imports Prelude
begin

text \<open>
  Chip and architecture data: the enumerations of \<open>csrc/core/framework/arch_def.h\<close>, the chip tables of
  \<open>platform_config.h\<close> with the C++ arithmetic of their initialisers, the record enumerations the
  event types use, and the block index functions of \<open>pipeline_replayer.h\<close>.
\<close>

section \<open>Enumerations\<close>

datatype PipeType =
    PIPE_S | PIPE_V | PIPE_M | PIPE_MTE1 | PIPE_MTE2 | PIPE_MTE3 | PIPE_ALL | PIPE_MTE4
  | PIPE_MTE5 | PIPE_V2 | PIPE_FIX | PIPE_S_CAL | PIPE_SIZE

primrec pipe_code :: "PipeType \<Rightarrow> nat" where
  "pipe_code PIPE_S = 0"
| "pipe_code PIPE_V = 1"
| "pipe_code PIPE_M = 2"
| "pipe_code PIPE_MTE1 = 3"
| "pipe_code PIPE_MTE2 = 4"
| "pipe_code PIPE_MTE3 = 5"
| "pipe_code PIPE_ALL = 6"
| "pipe_code PIPE_MTE4 = 7"
| "pipe_code PIPE_MTE5 = 8"
| "pipe_code PIPE_V2 = 9"
| "pipe_code PIPE_FIX = 10"
| "pipe_code PIPE_S_CAL = 11"
| "pipe_code PIPE_SIZE = 12"

definition PIPE_NUM :: nat where
  "PIPE_NUM = pipe_code PIPE_SIZE"

text \<open>\<open>static_cast<PipeType>\<close> of an index below \<open>PipeType::SIZE\<close>.\<close>

definition pipe_of :: "nat \<Rightarrow> PipeType" where
  "pipe_of n =
     (if n < PIPE_NUM
      then [PIPE_S, PIPE_V, PIPE_M, PIPE_MTE1, PIPE_MTE2, PIPE_MTE3, PIPE_ALL, PIPE_MTE4,
            PIPE_MTE5, PIPE_V2, PIPE_FIX, PIPE_S_CAL] ! n
      else PIPE_SIZE)"

datatype MemType =
    MEM_L1 | MEM_L0A | MEM_L0B | MEM_L0C | MEM_UB | MEM_BT | MEM_GM | MEM_PRIVATE | MEM_FB | MEM_UNKNOWN

datatype DeviceType =
    ASCEND_910_PREMIUM_A | ASCEND_910B_START | ASCEND_910B1 | ASCEND_910B2 | ASCEND_910B3
   | ASCEND_910B4 | ASCEND_910B_END | ASCEND_310P | ASCEND_950_START | ASCEND_950DT_950x
   | ASCEND_950DT_950y | ASCEND_950DT_9571 | ASCEND_950DT_9572 | ASCEND_950DT_9573
   | ASCEND_950DT_9574 | ASCEND_950DT_9575 | ASCEND_950DT_9576 | ASCEND_950DT_9577
   | ASCEND_950DT_9578 | ASCEND_950DT_9581 | ASCEND_950DT_9582 | ASCEND_950DT_9583
   | ASCEND_950DT_9584 | ASCEND_950DT_9585 | ASCEND_950DT_9586 | ASCEND_950DT_9587
   | ASCEND_950DT_9588 | ASCEND_950DT_9591 | ASCEND_950DT_9592 | ASCEND_950DT_9595
   | ASCEND_950DT_9596 | ASCEND_950DT_95A1 | ASCEND_950DT_95A2 | ASCEND_950PR_950z
   | ASCEND_950PR_9579 | ASCEND_950PR_957b | ASCEND_950PR_957c | ASCEND_950PR_957d
   | ASCEND_950PR_9589 | ASCEND_950PR_958b | ASCEND_950PR_9599 | ASCEND_950_END | DEV_INVALID

text \<open>The numeric values the comparisons of \<open>HasSubBlocks\<close> and \<open>IsAscend95\<close> use.\<close>

primrec device_code :: "DeviceType \<Rightarrow> u32" where
  "device_code ASCEND_910_PREMIUM_A = 0"
| "device_code ASCEND_910B_START = 1"
| "device_code ASCEND_910B1 = 2"
| "device_code ASCEND_910B2 = 3"
| "device_code ASCEND_910B3 = 4"
| "device_code ASCEND_910B4 = 5"
| "device_code ASCEND_910B_END = 6"
| "device_code ASCEND_310P = 7"
| "device_code ASCEND_950_START = 10"
| "device_code ASCEND_950DT_950x = 11"
| "device_code ASCEND_950DT_950y = 12"
| "device_code ASCEND_950DT_9571 = 13"
| "device_code ASCEND_950DT_9572 = 14"
| "device_code ASCEND_950DT_9573 = 15"
| "device_code ASCEND_950DT_9574 = 16"
| "device_code ASCEND_950DT_9575 = 17"
| "device_code ASCEND_950DT_9576 = 18"
| "device_code ASCEND_950DT_9577 = 19"
| "device_code ASCEND_950DT_9578 = 20"
| "device_code ASCEND_950DT_9581 = 21"
| "device_code ASCEND_950DT_9582 = 22"
| "device_code ASCEND_950DT_9583 = 23"
| "device_code ASCEND_950DT_9584 = 24"
| "device_code ASCEND_950DT_9585 = 25"
| "device_code ASCEND_950DT_9586 = 26"
| "device_code ASCEND_950DT_9587 = 27"
| "device_code ASCEND_950DT_9588 = 28"
| "device_code ASCEND_950DT_9591 = 29"
| "device_code ASCEND_950DT_9592 = 30"
| "device_code ASCEND_950DT_9595 = 31"
| "device_code ASCEND_950DT_9596 = 32"
| "device_code ASCEND_950DT_95A1 = 33"
| "device_code ASCEND_950DT_95A2 = 34"
| "device_code ASCEND_950PR_950z = 35"
| "device_code ASCEND_950PR_9579 = 36"
| "device_code ASCEND_950PR_957b = 37"
| "device_code ASCEND_950PR_957c = 38"
| "device_code ASCEND_950PR_957d = 39"
| "device_code ASCEND_950PR_9589 = 40"
| "device_code ASCEND_950PR_958b = 41"
| "device_code ASCEND_950PR_9599 = 42"
| "device_code ASCEND_950_END = 43"
| "device_code DEV_INVALID = 4294967295"

datatype KernelType = KT_AICPU | KT_AIVEC | KT_AICUBE | KT_MIX

datatype BlockType = BT_AIVEC | BT_AICUBE | BT_AICORE

datatype AccessType = READ | WRITE | MEMCPY_BLOCKS

datatype MaskMode = MASK_NORM | MASK_COUNT

datatype BufMode = BLOCK_MODE | NONBLOCK_MODE

datatype AddressSpace =
    AS_PRIVATE | AS_GM | AS_L1 | AS_L0A | AS_L0B | AS_L0C | AS_UB | AS_BT | AS_FB | AS_UNKNOWN

datatype CompareOp = CMP_EQ | CMP_NE | CMP_GT | CMP_GE | CMP_LT | CMP_LE

datatype RaceCheckType = SINGLE_BLOCK_CHECK | SINGLE_PIPE_CHECK | CROSS_BLOCK_CHECK | CROSS_NPU_CHECK

section \<open>Chip tables\<close>

definition KB_TO_BYTES :: u32 where
  "KB_TO_BYTES = 1024"

definition GB_TO_BYTES :: u32 where
  "GB_TO_BYTES = 1024 * 1024 * 1024"

definition AI_CORE_STACK_SIZE :: u32 where
  "AI_CORE_STACK_SIZE = 32 * KB_TO_BYTES"

definition ASCEND_910B_PRIVATE_SIZE :: u32 where
  "ASCEND_910B_PRIVATE_SIZE = 75 * AI_CORE_STACK_SIZE"

definition ASCEND_910A_PRIVATE_SIZE :: u32 where
  "ASCEND_910A_PRIVATE_SIZE = 32 * AI_CORE_STACK_SIZE"

definition ASCEND_310P_PRIVATE_SIZE :: u32 where
  "ASCEND_310P_PRIVATE_SIZE = 18 * AI_CORE_STACK_SIZE"

definition ASCEND_950_PRIVATE_SIZE :: u32 where
  "ASCEND_950_PRIVATE_SIZE = 108 * AI_CORE_STACK_SIZE"

record ChipInfo =
  aiCoreCnt :: u32
  l0aSize :: u32
  l0bSize :: u32
  l0cSize :: u32
  l1Size :: u32
  ubSize :: u32
  ubBlockSize :: u32
  privateSize :: u32
  hbmSize :: u64

text \<open>
  An entry of \<open>CHIP_INFO_MAP\<close>: the sizes in KB and GB are multiplied by \<open>uint32_t\<close> constants, so each
  product is a 32-bit one before it is widened to the field.
\<close>

definition chip ::
  "u32 \<Rightarrow> u32 \<Rightarrow> u32 \<Rightarrow> u32 \<Rightarrow> u32 \<Rightarrow> u32 \<Rightarrow> u32 \<Rightarrow> u32 \<Rightarrow> u32 \<Rightarrow> ChipInfo" where
  "chip cores l0a l0b l0c l1 ub ubBlock priv hbm =
     \<lparr>aiCoreCnt = cores, l0aSize = l0a * KB_TO_BYTES, l0bSize = l0b * KB_TO_BYTES,
      l0cSize = l0c * KB_TO_BYTES, l1Size = l1 * KB_TO_BYTES, ubSize = ub * KB_TO_BYTES,
      ubBlockSize = ubBlock, privateSize = priv, hbmSize = ucast (hbm * GB_TO_BYTES)\<rparr>"

fun CHIP_INFO_MAP :: "DeviceType \<Rightarrow> ChipInfo option" where
  "CHIP_INFO_MAP ASCEND_910_PREMIUM_A = Some (chip 32 64 64 256 1024 256 32 ASCEND_910A_PRIVATE_SIZE 32)"
| "CHIP_INFO_MAP ASCEND_910B1 = Some (chip 24 64 64 128 512 192 32 ASCEND_910B_PRIVATE_SIZE 64)"
| "CHIP_INFO_MAP ASCEND_910B2 = Some (chip 24 64 64 128 512 192 32 ASCEND_910B_PRIVATE_SIZE 64)"
| "CHIP_INFO_MAP ASCEND_910B3 = Some (chip 20 64 64 128 512 192 32 ASCEND_910B_PRIVATE_SIZE 64)"
| "CHIP_INFO_MAP ASCEND_910B4 = Some (chip 20 64 64 128 512 192 32 ASCEND_910B_PRIVATE_SIZE 64)"
| "CHIP_INFO_MAP ASCEND_310P = Some (chip 8 64 64 256 1024 256 32 ASCEND_310P_PRIVATE_SIZE 32)"
| "CHIP_INFO_MAP ASCEND_950DT_950x = Some (chip 8 64 64 256 512 256 32 ASCEND_950_PRIVATE_SIZE 24)"
| "CHIP_INFO_MAP ASCEND_950DT_950y = Some (chip 8 64 64 256 512 256 32 ASCEND_950_PRIVATE_SIZE 16)"
| "CHIP_INFO_MAP ASCEND_950PR_950z = Some (chip 8 64 64 256 512 256 32 ASCEND_950_PRIVATE_SIZE 24)"
| "CHIP_INFO_MAP ASCEND_950DT_9571 = Some (chip 28 64 64 256 512 256 32 ASCEND_950_PRIVATE_SIZE 144)"
| "CHIP_INFO_MAP ASCEND_950DT_9572 = Some (chip 28 64 64 256 512 256 32 ASCEND_950_PRIVATE_SIZE 96)"
| "CHIP_INFO_MAP ASCEND_950DT_9573 = Some (chip 28 64 64 256 512 256 32 ASCEND_950_PRIVATE_SIZE 126)"
| "CHIP_INFO_MAP ASCEND_950DT_9574 = Some (chip 28 64 64 256 512 256 32 ASCEND_950_PRIVATE_SIZE 84)"
| "CHIP_INFO_MAP ASCEND_950DT_9575 = Some (chip 28 64 64 256 512 256 32 ASCEND_950_PRIVATE_SIZE 96)"
| "CHIP_INFO_MAP ASCEND_950DT_9576 = Some (chip 28 64 64 256 512 256 32 ASCEND_950_PRIVATE_SIZE 64)"
| "CHIP_INFO_MAP ASCEND_950DT_9577 = Some (chip 28 64 64 256 512 256 32 ASCEND_950_PRIVATE_SIZE 84)"
| "CHIP_INFO_MAP ASCEND_950DT_9578 = Some (chip 28 64 64 256 512 256 32 ASCEND_950_PRIVATE_SIZE 56)"
| "CHIP_INFO_MAP ASCEND_950PR_9579 = Some (chip 28 64 64 256 512 256 32 ASCEND_950_PRIVATE_SIZE 128)"
| "CHIP_INFO_MAP ASCEND_950PR_957b = Some (chip 28 64 64 256 512 256 32 ASCEND_950_PRIVATE_SIZE 112)"
| "CHIP_INFO_MAP ASCEND_950PR_957c = Some (chip 28 64 64 256 512 256 32 ASCEND_950_PRIVATE_SIZE 84)"
| "CHIP_INFO_MAP ASCEND_950PR_957d = Some (chip 28 64 64 256 512 256 32 ASCEND_950_PRIVATE_SIZE 96)"
| "CHIP_INFO_MAP ASCEND_950DT_9581 = Some (chip 32 64 64 256 512 256 32 ASCEND_950_PRIVATE_SIZE 144)"
| "CHIP_INFO_MAP ASCEND_950DT_9582 = Some (chip 32 64 64 256 512 256 32 ASCEND_950_PRIVATE_SIZE 96)"
| "CHIP_INFO_MAP ASCEND_950DT_9583 = Some (chip 32 64 64 256 512 256 32 ASCEND_950_PRIVATE_SIZE 126)"
| "CHIP_INFO_MAP ASCEND_950DT_9584 = Some (chip 32 64 64 256 512 256 32 ASCEND_950_PRIVATE_SIZE 84)"
| "CHIP_INFO_MAP ASCEND_950DT_9585 = Some (chip 32 64 64 256 512 256 32 ASCEND_950_PRIVATE_SIZE 96)"
| "CHIP_INFO_MAP ASCEND_950DT_9586 = Some (chip 32 64 64 256 512 256 32 ASCEND_950_PRIVATE_SIZE 64)"
| "CHIP_INFO_MAP ASCEND_950DT_9587 = Some (chip 32 64 64 256 512 256 32 ASCEND_950_PRIVATE_SIZE 84)"
| "CHIP_INFO_MAP ASCEND_950DT_9588 = Some (chip 32 64 64 256 512 256 32 ASCEND_950_PRIVATE_SIZE 56)"
| "CHIP_INFO_MAP ASCEND_950PR_9589 = Some (chip 32 64 64 256 512 256 32 ASCEND_950_PRIVATE_SIZE 128)"
| "CHIP_INFO_MAP ASCEND_950PR_958b = Some (chip 32 64 64 256 512 256 32 ASCEND_950_PRIVATE_SIZE 112)"
| "CHIP_INFO_MAP ASCEND_950DT_9591 = Some (chip 36 64 64 256 512 256 32 ASCEND_950_PRIVATE_SIZE 144)"
| "CHIP_INFO_MAP ASCEND_950DT_9592 = Some (chip 36 64 64 256 512 256 32 ASCEND_950_PRIVATE_SIZE 96)"
| "CHIP_INFO_MAP ASCEND_950DT_9595 = Some (chip 36 64 64 256 512 256 32 ASCEND_950_PRIVATE_SIZE 96)"
| "CHIP_INFO_MAP ASCEND_950DT_9596 = Some (chip 36 64 64 256 512 256 32 ASCEND_950_PRIVATE_SIZE 64)"
| "CHIP_INFO_MAP ASCEND_950PR_9599 = Some (chip 36 64 64 256 512 256 32 ASCEND_950_PRIVATE_SIZE 128)"
| "CHIP_INFO_MAP ASCEND_950DT_95A1 = Some (chip 36 64 64 256 512 256 32 ASCEND_950_PRIVATE_SIZE 128)"
| "CHIP_INFO_MAP ASCEND_950DT_95A2 = Some (chip 36 64 64 256 512 256 32 ASCEND_950_PRIVATE_SIZE 96)"
| "CHIP_INFO_MAP _ = None"

text \<open>\<open>SOC_VERSION_MAP\<close>, with the lookup of an unordered map.\<close>

definition SOC_VERSION_MAP :: "(string \<times> DeviceType) list" where
  "SOC_VERSION_MAP = [
     (''Ascend910PremiumA'', ASCEND_910_PREMIUM_A),
     (''Ascend910B1'', ASCEND_910B1),
     (''Ascend910B2'', ASCEND_910B2),
     (''Ascend910B2C'', ASCEND_910B2),
     (''Ascend910B3'', ASCEND_910B3),
     (''Ascend910B4'', ASCEND_910B4),
     (''Ascend910B4-1'', ASCEND_910B4),
     (''Ascend910_9391'', ASCEND_910B1),
     (''Ascend910_9392'', ASCEND_910B1),
     (''Ascend910_9381'', ASCEND_910B2),
     (''Ascend910_9382'', ASCEND_910B2),
     (''Ascend910_9372'', ASCEND_910B3),
     (''Ascend910_9362'', ASCEND_910B4),
     (''Ascend910_9363'', ASCEND_910B4),
     (''Ascend950DT_950x'', ASCEND_950DT_950x),
     (''Ascend950DT_950y'', ASCEND_950DT_950y),
     (''Ascend950DT_9571'', ASCEND_950DT_9571),
     (''Ascend950DT_9572'', ASCEND_950DT_9572),
     (''Ascend950DT_9573'', ASCEND_950DT_9573),
     (''Ascend950DT_9574'', ASCEND_950DT_9574),
     (''Ascend950DT_9575'', ASCEND_950DT_9575),
     (''Ascend950DT_9576'', ASCEND_950DT_9576),
     (''Ascend950DT_9577'', ASCEND_950DT_9577),
     (''Ascend950DT_9578'', ASCEND_950DT_9578),
     (''Ascend950DT_9581'', ASCEND_950DT_9581),
     (''Ascend950DT_9582'', ASCEND_950DT_9582),
     (''Ascend950DT_9582x'', ASCEND_950DT_9582),
     (''Ascend950DT_9583'', ASCEND_950DT_9583),
     (''Ascend950DT_9584'', ASCEND_950DT_9584),
     (''Ascend950DT_9585'', ASCEND_950DT_9585),
     (''Ascend950DT_9586'', ASCEND_950DT_9586),
     (''Ascend950DT_9587'', ASCEND_950DT_9587),
     (''Ascend950DT_9588'', ASCEND_950DT_9588),
     (''Ascend950DT_9591'', ASCEND_950DT_9591),
     (''Ascend950DT_9592'', ASCEND_950DT_9592),
     (''Ascend950DT_9595'', ASCEND_950DT_9595),
     (''Ascend950DT_9596'', ASCEND_950DT_9596),
     (''Ascend950DT_95A1'', ASCEND_950DT_95A1),
     (''Ascend950DT_95A2'', ASCEND_950DT_95A2),
     (''Ascend950PR_950z'', ASCEND_950PR_950z),
     (''Ascend950PR_9579'', ASCEND_950PR_9579),
     (''Ascend950PR_957b'', ASCEND_950PR_957b),
     (''Ascend950PR_957bx'', ASCEND_950PR_957b),
     (''Ascend950PR_957c'', ASCEND_950PR_957c),
     (''Ascend950PR_957d'', ASCEND_950PR_957d),
     (''Ascend950PR_9589'', ASCEND_950PR_9589),
     (''Ascend950PR_958b'', ASCEND_950PR_958b),
     (''Ascend950PR_9599'', ASCEND_950PR_9599),
     (''Ascend310P1'', ASCEND_310P),
     (''Ascend310P3'', ASCEND_310P),
     (''Ascend310P5'', ASCEND_310P),
     (''Ascend310P7'', ASCEND_310P)]"

definition soc_version :: "string \<Rightarrow> DeviceType option" where
  "soc_version name = map_of SOC_VERSION_MAP name"

definition HasSubBlocks :: "DeviceType \<Rightarrow> bool" where
  "HasSubBlocks d =
     (if device_code d > device_code ASCEND_910B_START \<and> device_code d < device_code ASCEND_910B_END
      then True
      else if device_code d > device_code ASCEND_950_START \<and> device_code d < device_code ASCEND_950_END
      then True else False)"

definition IsAscend95 :: "DeviceType \<Rightarrow> bool" where
  "IsAscend95 d \<longleftrightarrow>
     device_code d > device_code ASCEND_950_START \<and> device_code d < device_code ASCEND_950_END"

section \<open>Source locations and block indices\<close>

record LocInfo =
  fileNo :: u64
  lineNo :: u64
  loc_pc :: u64
  deviceIdx :: nat
  kernelIdx :: nat
  deviceId :: nat
  coreId :: nat
  blockType :: BlockType

definition C220_VEC_SUB_BLOCKDIM :: nat where
  "C220_VEC_SUB_BLOCKDIM = 2"

definition C220_CUBE_SUB_BLOCKDIM :: nat where
  "C220_CUBE_SUB_BLOCKDIM = 1"

definition C220_MIX_SUB_BLOCKDIM :: nat where
  "C220_MIX_SUB_BLOCKDIM = C220_VEC_SUB_BLOCKDIM + C220_CUBE_SUB_BLOCKDIM"

definition NeedExpandBlockDim :: "KernelType \<Rightarrow> DeviceType \<Rightarrow> bool" where
  "NeedExpandBlockDim k d \<longleftrightarrow> k = KT_MIX \<and> HasSubBlocks d"

definition GetEventExpandBlockIndexByLoc :: "LocInfo \<Rightarrow> nat" where
  "GetEventExpandBlockIndexByLoc loc =
     (let aicoreIndex = (if blockType loc = BT_AIVEC then coreId loc div C220_VEC_SUB_BLOCKDIM
                         else coreId loc);
          subBlockIndex = (if blockType loc = BT_AIVEC then coreId loc mod C220_VEC_SUB_BLOCKDIM
                           else C220_VEC_SUB_BLOCKDIM) in
      aicoreIndex * C220_MIX_SUB_BLOCKDIM + subBlockIndex)"

definition GetEventBlockIndexByLoc ::
  "LocInfo \<Rightarrow> KernelType \<Rightarrow> DeviceType \<Rightarrow> RaceCheckType \<Rightarrow> nat" where
  "GetEventBlockIndexByLoc loc k d checkType =
     (if \<not> NeedExpandBlockDim k d then
        if checkType = SINGLE_BLOCK_CHECK then 0 else coreId loc
      else GetEventExpandBlockIndexByLoc loc)"

section \<open>Facts\<close>

lemmas subblock_dims = C220_VEC_SUB_BLOCKDIM_def C220_CUBE_SUB_BLOCKDIM_def C220_MIX_SUB_BLOCKDIM_def

lemma PIPE_NUM_eq [simp]: "PIPE_NUM = 12"
  by (simp add: PIPE_NUM_def)

lemma pipe_of_code [simp]: "pipe_of (pipe_code p) = p"
  by (cases p) (simp_all add: pipe_of_def)

lemma pipe_code_inj [simp]: "pipe_code p = pipe_code q \<longleftrightarrow> p = q"
  by (metis pipe_of_code)

lemma pipe_code_lt: "p \<noteq> PIPE_SIZE \<Longrightarrow> pipe_code p < PIPE_NUM"
  by (cases p) simp_all

lemma pipe_code_of: "n < 12 \<Longrightarrow> pipe_code (pipe_of n) = n"
proof -
  assume "n < 12"
  then have "n \<in> {0, 1, 2, 3, 4, 5, 6, 7, 8, 9, 10, 11}" by (simp, arith)
  then show ?thesis by (auto simp: pipe_of_def)
qed

lemma pipe_code_inject [simp]: "pipe_code p = pipe_code q \<longleftrightarrow> p = q"
  by (metis pipe_of_code)

lemma pipe_code_less: "pipe_code p < 12 \<longleftrightarrow> p \<noteq> PIPE_SIZE"
  by (cases p) simp_all

lemma IsAscend95_HasSubBlocks: "IsAscend95 d \<Longrightarrow> HasSubBlocks d"
  by (simp add: IsAscend95_def HasSubBlocks_def)

lemma expand_index_cases:
  "GetEventExpandBlockIndexByLoc loc =
     (if blockType loc = BT_AIVEC then 3 * (coreId loc div 2) + coreId loc mod 2
      else 3 * coreId loc + 2)"
  by (simp add: GetEventExpandBlockIndexByLoc_def subblock_dims)

text \<open>
  On a MIX kernel every core has a block of its own: two locations of vector or cube cores get
  the same expanded block index only when they name the same core of the same type, and the index
  stays below three times the block dimension when the core number is in its range.
\<close>
theorem expand_block_index_injective:
  assumes "blockType a \<in> {BT_AIVEC, BT_AICUBE}" "blockType b \<in> {BT_AIVEC, BT_AICUBE}"
    and "coreId a < (if blockType a = BT_AIVEC then C220_VEC_SUB_BLOCKDIM * blockDim else blockDim)"
  shows "(GetEventExpandBlockIndexByLoc a = GetEventExpandBlockIndexByLoc b \<longleftrightarrow>
       blockType a = blockType b \<and> coreId a = coreId b) \<and>
     GetEventExpandBlockIndexByLoc a < blockDim * C220_MIX_SUB_BLOCKDIM"
proof -
  have split: "(3 * (m div 2) + m mod 2) div 3 = m div 2" "(3 * (m div 2) + m mod 2) mod 3 = m mod 2"
    for m :: nat
    by (simp_all add: div_add1_eq mod_less) 
  have inj: "3 * (m div 2) + m mod 2 = 3 * (n div 2) + n mod 2 \<longleftrightarrow> m = n" for m n :: nat
    by (metis split mult_div_mod_eq)
  have ne: "3 * (m div 2) + m mod 2 \<noteq> 3 * n + 2" for m n :: nat
  proof
    assume "3 * (m div 2) + m mod 2 = 3 * n + 2"
    then have "(3 * (m div 2) + m mod 2) mod 3 = (3 * n + 2) mod 3" by simp
    moreover have "(3 * n + 2) mod 3 = 2" by presburger
    ultimately show False using split(2) [of m] mod_less_divisor [of 2 m] by simp
  qed
  have lt: "3 * (m div 2) + m mod 2 < 3 * n" if "m < 2 * n" for m n :: nat
    using that by linarith
  note ne' = ne [unfolded add_2_eq_Suc'] ne [unfolded add_2_eq_Suc', symmetric]
  show ?thesis using assms
    by (cases "blockType a"; cases "blockType b")
       (simp_all add: expand_index_cases subblock_dims inj ne' lt mult.commute [of blockDim])
qed

definition sample_loc :: "nat \<Rightarrow> BlockType \<Rightarrow> LocInfo" where
  "sample_loc core bt = \<lparr>fileNo = 0, lineNo = 0, loc_pc = 0, deviceIdx = 0, kernelIdx = 0,
     deviceId = 0, coreId = core, blockType = bt\<rparr>"

theorem expand_block_index_injective_witness:
  "GetEventExpandBlockIndexByLoc (sample_loc 1 BT_AIVEC) \<noteq>
     GetEventExpandBlockIndexByLoc (sample_loc 1 BT_AICUBE)"
  using expand_block_index_injective [of "sample_loc 1 BT_AIVEC" "sample_loc 1 BT_AICUBE" 1]
  by (simp add: sample_loc_def subblock_dims)

text \<open>
  The GB products of the chip table wrap at 32 bits: the memory size recorded for a chip with a
  multiple of 4 GB is 0, and never the size written in the table.
\<close>
lemma chip_hbm_wraps: "hbmSize (chip c a b l0c l1 ub ubb p g) = ucast ((g :: u32) * 2 ^ 30)"
  by (simp add: chip_def GB_TO_BYTES_def)

lemma premium_a_hbm_zero: "map_option hbmSize (CHIP_INFO_MAP ASCEND_910_PREMIUM_A) = Some 0"
  by (simp add: chip_def GB_TO_BYTES_def)

end
