(* ===== verification/Events.thy ===== *)
theory Events
  imports Platform
begin

text \<open>
  The event data model of \<open>csrc/core/framework/event_def.h\<close>: the payloads of the tagged union
  \<open>SanEvent::eventInfo\<close>, the events themselves, the memory events the race checker keeps, and the
  error units with the equality, hash and merge operations the result sets rely on.
  Serial numbers, indices and counters that only count records are natural numbers; addresses,
  block descriptions and register values keep their machine width.
\<close>

section \<open>Enumerations of the event model\<close>

datatype SanitizerControlType = SC_KERNEL_FINISH | SC_FINISH

datatype SyncType =
    SET_FLAG | WAIT_FLAG | PIPE_BARRIER | FFTS_SYNC | WAIT_FLAG_DEV | IB_SET | IB_WAIT | SYNC_ALL
  | MSTX_SET_CROSS | MSTX_WAIT_CROSS | GET_BUF | RLS_BUF | WAIT_INTRA_BLOCK | HSET_FLAG
  | HWAIT_FLAG | SYNC_DSB

datatype SyncCheckType = MATCH_CHECK | REDUMTAMCY_CHECK

datatype InstrClass = IC_UNKNOWN | CUBE_MATMUL

datatype MemDsbType = DSB_ALL | DSB_DDR | DSB_UB | DSB_SEQ

datatype RegisterType =
    VECTOR_MASK_0 | VECTOR_MASK_1 | CTRL | FFTS_BASE_ADDR | FPC | QUANT_PRE | QUANT_POST | LRELU_ALPHA

datatype RegisterValueType = VAL_UINT64 | VAL_HALF | VAL_FLOAT | VAL_INT32

text \<open>\<open>enum class RecordType : uint32_t\<close>; the values the modelled code compares with are named.\<close>

type_synonym RecordType = u32

definition RT_SIMT_ENTRY :: RecordType where
  "RT_SIMT_ENTRY = 80000"

definition INVALID_RECORD_TYPE :: RecordType where
  "INVALID_RECORD_TYPE = 0xFFFFFFFF"

primrec mem_code :: "MemType \<Rightarrow> nat" where
  "mem_code MEM_L1 = 0"
| "mem_code MEM_L0A = 1"
| "mem_code MEM_L0B = 2"
| "mem_code MEM_L0C = 3"
| "mem_code MEM_UB = 4"
| "mem_code MEM_BT = 5"
| "mem_code MEM_GM = 6"
| "mem_code MEM_PRIVATE = 7"
| "mem_code MEM_FB = 8"
| "mem_code MEM_UNKNOWN = 9"

primrec access_code :: "AccessType \<Rightarrow> nat" where
  "access_code READ = 0"
| "access_code WRITE = 1"
| "access_code MEMCPY_BLOCKS = 2"

fun DsbToMemType :: "MemDsbType \<Rightarrow> MemType" where
  "DsbToMemType DSB_DDR = MEM_GM"
| "DsbToMemType DSB_UB = MEM_UB"
| "DsbToMemType _ = MEM_UNKNOWN"

definition ADDR_SPACE_TO_MEM_TYPE_MAP :: "AddressSpace \<rightharpoonup> MemType" where
  "ADDR_SPACE_TO_MEM_TYPE_MAP = map_of
     [(AS_L1, MEM_L1), (AS_L0A, MEM_L0A), (AS_L0B, MEM_L0B), (AS_L0C, MEM_L0C), (AS_UB, MEM_UB),
      (AS_GM, MEM_GM), (AS_BT, MEM_BT), (AS_FB, MEM_FB), (AS_UNKNOWN, MEM_UNKNOWN),
      (AS_PRIVATE, MEM_PRIVATE)]"

definition AddrSpaceToMemType :: "AddressSpace \<Rightarrow> MemType" where
  "AddrSpaceToMemType s =
     (case ADDR_SPACE_TO_MEM_TYPE_MAP s of None \<Rightarrow> MEM_UNKNOWN | Some t \<Rightarrow> t)"

section \<open>Payloads of the event union\<close>

record VectorMask =
  mask0 :: u64
  mask1 :: u64

record MemOpInfo =
  memType :: MemType
  opType :: AccessType
  vectorMask :: VectorMask
  maskMode :: MaskMode
  instrName :: u8
  dataBits :: u8
  addr :: u64
  blockNum :: u32
  blockSize :: u32
  blockStride :: u32
  repeatTimes :: u32
  repeatStride :: u32
  alignSize :: u16
  ignoreIllegalCheck :: bool
  isScalarAtomic :: bool
  dcciDistance :: u32
  dstCoreId :: nat
  dstBlockType :: BlockType
  instrClass :: InstrClass
  matrixM :: u16
  matrixN :: u16

record SyncOpInfo =
  sync_opType :: SyncType
  srcPipe :: PipeType
  dstPipe :: PipeType
  eventId :: u32
  sync_memType :: MemType
  isRetrogress :: bool
  isGenerated :: bool

record HSyncOpInfo =
  h_eventId :: u64
  h_srcPipe :: PipeType
  h_dstPipe :: PipeType
  h_opType :: SyncType
  h_memType :: MemType
  h_v :: u8
  isReplaced :: bool

record FftsSyncInfo =
  ffts_opType :: SyncType
  ffts_dstPipe :: PipeType
  flagId :: u8
  ffts_mode :: u8
  vecSubBlockDim :: u8

record BufSyncInfo =
  buf_opType :: SyncType
  buf_pipe :: PipeType
  bufId :: u64
  rlsCount :: nat
  bufMode :: BufMode

record SoftSyncInfo =
  soft_opType :: SyncType
  soft_eventID :: int
  waitCoreID :: int
  usedCores :: int
  soft_isAIVOnly :: bool

record MstxCrossInfo =
  cross_addr :: u64
  cross_flagId :: u64
  cross_pipe :: PipeType
  isMore :: bool
  isMerge :: bool
  cross_opType :: SyncType

record RegisterPayload =
  regValType :: RegisterValueType
  regVal :: u64
  regIdx :: int

record RegisterOpInfo =
  regType :: RegisterType
  regPayLoad :: RegisterPayload

record MstxSignalSet =
  set_addr :: u64
  set_value :: int

record MstxSignalWait =
  wait_addr :: u64
  cmpValue :: int
  cmpOp :: CompareOp

text \<open>
  The barrier descriptions carry pointers to core and device lists next to their lengths; \<open>None\<close>
  is the null pointer.
\<close>

record MstxCrossCoreBarrier =
  ccb_usedCoreNum :: nat
  ccb_usedCoreId :: "nat list option"
  ccb_isAIVOnly :: bool
  ccb_pipeBarrierAll :: bool

record MstxCrossNpuBarrier =
  cnb_usedDeviceNum :: nat
  cnb_usedDeviceId :: "nat list option"
  cnb_usedCoreNum :: nat
  cnb_usedCoreId :: "nat list option"
  cnb_isAIVOnly :: bool
  cnb_pipeBarrierAll :: bool

subsection \<open>Thread locations and their order\<close>

datatype SimtThreadLocation = SimtThreadLocation (idX: u16) (idY: u16) (idZ: u16) (mainScalarPc: u64)

instantiation SimtThreadLocation :: linorder
begin

definition less_SimtThreadLocation :: "SimtThreadLocation \<Rightarrow> SimtThreadLocation \<Rightarrow> bool" where
  "less_SimtThreadLocation l r =
     (if mainScalarPc l \<noteq> mainScalarPc r then mainScalarPc l < mainScalarPc r
      else if idZ l \<noteq> idZ r then idZ l < idZ r
      else if idY l \<noteq> idY r then idY l < idY r
      else idX l < idX r)"

definition less_eq_SimtThreadLocation :: "SimtThreadLocation \<Rightarrow> SimtThreadLocation \<Rightarrow> bool" where
  "less_eq_SimtThreadLocation l r = (l = r \<or> l < r)"

instance
proof
  fix x y z :: SimtThreadLocation
  show "(x < y) = (x \<le> y \<and> \<not> y \<le> x)"
    by (auto simp: less_SimtThreadLocation_def less_eq_SimtThreadLocation_def split: if_splits)
  show "x \<le> x" by (simp add: less_eq_SimtThreadLocation_def)
  show "x \<le> z" if "x \<le> y" "y \<le> z"
    using that by (auto simp: less_SimtThreadLocation_def less_eq_SimtThreadLocation_def split: if_splits)
  show "x = y" if "x \<le> y" "y \<le> x"
    using that by (auto simp: less_SimtThreadLocation_def less_eq_SimtThreadLocation_def split: if_splits)
  show "x \<le> y \<or> y \<le> x"
    by (auto simp: less_SimtThreadLocation_def less_eq_SimtThreadLocation_def
        intro: SimtThreadLocation.expand split: if_splits)
qed

end

record Location =
  location_fileNo :: u64
  location_lineNo :: u64
  location_pc :: u64
  location_blockId :: u16

record ShadowMemoryRecord =
  sm_addr :: u64
  sm_size :: u64
  sm_location :: Location
  sm_threadLoc :: SimtThreadLocation
  sm_space :: AddressSpace
  sm_accessType :: AccessType

text \<open>
  \<open>DynamicOpInfo::buffer\<close> points to \<open>count\<close> records; \<open>None\<close> is the null pointer. That the buffer
  really holds \<open>count\<close> records is the well-formedness condition \<open>dynamic_ok\<close>.
\<close>

record DynamicOpInfo =
  dyn_count :: nat
  minAddr :: u64
  maxAddr :: u64
  dynamicType :: RecordType
  dyn_memType :: MemType
  dyn_buffer :: "ShadowMemoryRecord list option"

definition dynamic_ok :: "DynamicOpInfo \<Rightarrow> bool" where
  "dynamic_ok d \<longleftrightarrow> (case dyn_buffer d of None \<Rightarrow> True | Some rs \<Rightarrow> length rs = dyn_count d)"

section \<open>Events\<close>

text \<open>
  \<open>SanEvent::type\<close> together with the active member of the union \<open>eventInfo\<close>.
\<close>

datatype EventInfo =
    SANITIZER_CONTROL_EVENT SanitizerControlType
  | MEM_EVENT MemOpInfo
  | SYNC_EVENT SyncOpInfo
  | TIME_EVENT
  | CROSS_CORE_SYNC_EVENT FftsSyncInfo
  | CROSS_CORE_SOFT_SYNC_EVENT SoftSyncInfo
  | MSTX_CROSS_SYNC_EVENT MstxCrossInfo
  | REGISTER_EVENT RegisterOpInfo
  | H_SYNC_EVENT HSyncOpInfo
  | BUF_SYNC_EVENT BufSyncInfo
  | MSTX_SIGNAL_SET_EVENT MstxSignalSet
  | MSTX_SIGNAL_WAIT_EVENT MstxSignalWait
  | MSTX_CROSS_CORE_BARRIER MstxCrossCoreBarrier
  | MSTX_CROSS_NPU_BARRIER MstxCrossNpuBarrier
  | DYNAMIC_MEM_EVENT DynamicOpInfo

text \<open>\<open>timeInfo\<close> is the pointer into the snapshot pool: a slot number, or \<open>None\<close> for null.\<close>

record SanEvent =
  serialNo :: nat
  pipe :: PipeType
  eventInfo :: EventInfo
  timeInfo :: "nat option"
  loc :: LocInfo
  isAtomicMode :: bool
  recordType :: RecordType
  closedRingStartSerialNo :: nat
end
