(* ===== verification/RaceUnits.thy ===== *)
theory RaceUnits
  imports VectorTime Events
begin

text \<open>
  The memory events the race checkers keep and the units they report (\<open>MemEvent\<close>, \<open>ErrorEvent\<close>,
  \<open>RaceDispInfo\<close> and the set operations on them, \<open>csrc/core/framework/event_def.h\<close>). The result
  set of a checker is an \<open>unordered_set\<close> with \<open>ErrorEventHash\<close> and \<open>ErrorEventEqual\<close>: the theorems
  here are the contract such a set needs.
\<close>

section \<open>Memory events\<close>

record MemEvent =
  ev_serialNo :: nat
  barrierNo :: nat
  pipeSerialNo :: nat
  ev_closedRing :: nat
  ev_vt :: VectorTime
  memInfo :: MemOpInfo
  dynamicMemInfo :: DynamicOpInfo
  ev_loc :: LocInfo
  ev_pipe :: PipeType
  ev_isAtomicMode :: bool
  isDynamic :: bool

definition DynamicOpInfo_new :: DynamicOpInfo where
  "DynamicOpInfo_new = \<lparr>dyn_count = 0, minAddr = 0, maxAddr = 0, dynamicType = 0,
     dyn_memType = MEM_L1, dyn_buffer = None\<rparr>"

text \<open>
  The constructor leaves the members of \<open>memInfo\<close> without a default initialiser indeterminate when
  the event is dynamic; \<open>junk\<close> is what they hold, and the four members with an initialiser are set.
\<close>

definition MemOpInfo_new :: "MemOpInfo \<Rightarrow> MemOpInfo" where
  "MemOpInfo_new junk = junk\<lparr>isScalarAtomic := False, dstCoreId := 0, dstBlockType := BT_AIVEC,
     instrClass := IC_UNKNOWN, matrixM := 0, matrixN := 0\<rparr>"

definition MemEvent_new :: "MemOpInfo \<Rightarrow> SanEvent \<Rightarrow> MemEvent" where
  "MemEvent_new junk e =
     \<lparr>ev_serialNo = serialNo e, barrierNo = 0, pipeSerialNo = 0,
      ev_closedRing = closedRingStartSerialNo e, ev_vt = VectorTime_new,
      memInfo = (case eventInfo e of MEM_EVENT m \<Rightarrow> m | _ \<Rightarrow> MemOpInfo_new junk),
      dynamicMemInfo = (case eventInfo e of DYNAMIC_MEM_EVENT d \<Rightarrow> d | _ \<Rightarrow> DynamicOpInfo_new),
      ev_loc = loc e, ev_pipe = pipe e, ev_isAtomicMode = isAtomicMode e,
      isDynamic = (case eventInfo e of DYNAMIC_MEM_EVENT d \<Rightarrow> True | _ \<Rightarrow> False)\<rparr>"

section \<open>Error units\<close>

record ErrorEvent =
  ee_serialNo :: nat
  ee_deviceId :: nat
  ee_kernelIdx :: nat
  ee_coreId :: nat
  ee_addr :: u64
  ee_fileNo :: u64
  ee_lineNo :: u64
  ee_pc :: u64
  ee_accessType :: nat
  ee_memType :: nat
  ee_pipeType :: nat
  ee_blockType :: BlockType
  ee_threadLoc :: SimtThreadLocation
  isSimt :: bool

definition ErrorEvent_Init :: "MemEvent \<Rightarrow> nat \<Rightarrow> ErrorEvent" where
  "ErrorEvent_Init m dynamicErrIdx =
     (let d = dynamicMemInfo m;
          base = \<lparr>ee_serialNo = ev_serialNo m, ee_deviceId = deviceId (ev_loc m),
             ee_kernelIdx = kernelIdx (ev_loc m), ee_coreId = coreId (ev_loc m),
             ee_addr = addr (memInfo m), ee_fileNo = fileNo (ev_loc m), ee_lineNo = lineNo (ev_loc m),
             ee_pc = loc_pc (ev_loc m), ee_accessType = access_code (opType (memInfo m)),
             ee_memType = mem_code (memType (memInfo m)), ee_pipeType = pipe_code (ev_pipe m),
             ee_blockType = blockType (ev_loc m), ee_threadLoc = SimtThreadLocation 0 0 0 0,
             isSimt = False\<rparr>
      in if isDynamic m
         then (case dyn_buffer d of
                 Some rs \<Rightarrow>
                   (if dyn_count d > 0 \<and> dynamicErrIdx < dyn_count d \<and> dynamicType d = RT_SIMT_ENTRY
                    then (let r = rs ! dynamicErrIdx
                          in base\<lparr>ee_addr := sm_addr r, ee_pc := location_pc (sm_location r),
                                  ee_threadLoc := sm_threadLoc r, isSimt := True,
                                  ee_accessType := access_code (sm_accessType r),
                                  ee_memType := mem_code (AddrSpaceToMemType (sm_space r))\<rparr>)
                    else base)
               | None \<Rightarrow> base)
         else base)"

definition ErrorEvent_eq :: "ErrorEvent \<Rightarrow> ErrorEvent \<Rightarrow> bool" where
  "ErrorEvent_eq a b \<longleftrightarrow>
     ee_accessType a = ee_accessType b \<and> ee_memType a = ee_memType b \<and> ee_addr a = ee_addr b \<and>
     ee_fileNo a = ee_fileNo b \<and> ee_lineNo a = ee_lineNo b \<and> ee_pc a = ee_pc b \<and>
     ee_pipeType a = ee_pipeType b \<and> ee_coreId a = ee_coreId b \<and>
     ee_threadLoc a = ee_threadLoc b \<and> isSimt a = isSimt b"

definition ErrorEvent_IsSameSimt :: "ErrorEvent \<Rightarrow> ErrorEvent \<Rightarrow> bool" where
  "ErrorEvent_IsSameSimt a b \<longleftrightarrow>
     ee_coreId a = ee_coreId b \<and> ee_addr a = ee_addr b \<and> ee_fileNo a = ee_fileNo b \<and>
     ee_lineNo a = ee_lineNo b \<and> ee_pc a = ee_pc b \<and> ee_accessType a = ee_accessType b \<and>
     ee_memType a = ee_memType b \<and> ee_pipeType a = ee_pipeType b \<and>
     ee_blockType a = ee_blockType b \<and> isSimt a = isSimt b"

record RaceDispInfo =
  p1 :: ErrorEvent
  p2 :: ErrorEvent
  isMissDcci :: bool
  isOnlineError :: bool

definition RaceDispInfo_IsSameSimt :: "RaceDispInfo \<Rightarrow> RaceDispInfo \<Rightarrow> bool" where
  "RaceDispInfo_IsSameSimt a b \<longleftrightarrow>
     ErrorEvent_IsSameSimt (p1 a) (p1 b) \<and> ErrorEvent_IsSameSimt (p2 a) (p2 b) \<or>
     ErrorEvent_IsSameSimt (p1 a) (p2 b) \<and> ErrorEvent_IsSameSimt (p2 a) (p1 b)"

text \<open>\<open>std::sort\<close>, \<open>std::unique\<close> and \<open>erase\<close> on the four locations, then the first two if there are two.\<close>

definition UpdateMinThreadLoc :: "RaceDispInfo \<Rightarrow> RaceDispInfo \<Rightarrow> RaceDispInfo" where
  "UpdateMinThreadLoc a b =
     (let locs = remdups_adj (sort [ee_threadLoc (p1 a), ee_threadLoc (p2 a),
                                    ee_threadLoc (p1 b), ee_threadLoc (p2 b)])
      in if length locs \<ge> 2
         then a\<lparr>p1 := (p1 a)\<lparr>ee_threadLoc := locs ! 0\<rparr>, p2 := (p2 a)\<lparr>ee_threadLoc := locs ! 1\<rparr>\<rparr>
         else a)"

text \<open>The hash functions of the standard library are parameters.\<close>

definition ErrorEventHash ::
  "(bool \<Rightarrow> u64) \<Rightarrow> (u64 \<Rightarrow> u64) \<Rightarrow> (nat \<Rightarrow> u64) \<Rightarrow> RaceDispInfo \<Rightarrow> u64" where
  "ErrorEventHash hb h64 h8 it =
     foldr xor
       [hb (isMissDcci it), h64 (ee_addr (p1 it)), h64 (ee_addr (p2 it)),
        h64 (ee_fileNo (p1 it)), h64 (ee_fileNo (p2 it)), h64 (ee_lineNo (p1 it)),
        h64 (ee_lineNo (p2 it)), h64 (ee_pc (p1 it)), h64 (ee_pc (p2 it)),
        h8 (ee_accessType (p1 it)), h8 (ee_memType (p1 it)), h8 (ee_accessType (p2 it)),
        h8 (ee_memType (p2 it)), h8 (ee_pipeType (p1 it)), h8 (ee_pipeType (p2 it))] 0"

definition ErrorEventEqual :: "RaceDispInfo \<Rightarrow> RaceDispInfo \<Rightarrow> bool" where
  "ErrorEventEqual a b \<longleftrightarrow> isMissDcci a = isMissDcci b \<and>
     (ErrorEvent_eq (p1 a) (p1 b) \<and> ErrorEvent_eq (p2 a) (p2 b) \<or>
      ErrorEvent_eq (p1 a) (p2 b) \<and> ErrorEvent_eq (p2 a) (p1 b))"

definition FillRaceDispInfo :: "bool \<Rightarrow> MemEvent \<Rightarrow> MemEvent \<Rightarrow> nat \<Rightarrow> nat \<Rightarrow> RaceDispInfo" where
  "FillRaceDispInfo missDcci e1 e2 d1 d2 =
     \<lparr>p1 = ErrorEvent_Init e1 d1, p2 = ErrorEvent_Init e2 d2, isMissDcci = missDcci,
      isOnlineError = False\<rparr>"

section \<open>Result sets\<close>

text \<open>
  A result set: \<open>emplace\<close> keeps an element out when an equal one (for the set's key equality) is
  present. The interface is what the checkers rely on: a key equality that is an equivalence.
\<close>

locale result_set =
  fixes key_eq :: "'a \<Rightarrow> 'a \<Rightarrow> bool"
  assumes key_refl: "key_eq a a"
    and key_sym: "key_eq a b \<Longrightarrow> key_eq b a"
    and key_trans: "key_eq a b \<Longrightarrow> key_eq b c \<Longrightarrow> key_eq a c"
begin

definition emplace :: "'a \<Rightarrow> 'a list \<Rightarrow> 'a list" where
  "emplace x rs = (if \<exists>r\<in>set rs. key_eq r x then rs else rs @ [x])"

definition distinct_keys :: "'a list \<Rightarrow> bool" where
  "distinct_keys rs \<longleftrightarrow> (\<forall>i<length rs. \<forall>j<i. \<not> key_eq (rs ! j) (rs ! i))"

lemma emplace_distinct: "distinct_keys rs \<Longrightarrow> distinct_keys (emplace x rs)"
  unfolding distinct_keys_def emplace_def
  by (auto simp: nth_append less_Suc_eq)

lemma fold_emplace_distinct: "distinct_keys rs \<Longrightarrow> distinct_keys (fold emplace xs rs)"
  by (induction xs arbitrary: rs) (simp_all add: emplace_distinct)

lemma emplace_covers: "\<exists>r\<in>set (emplace x rs). key_eq r x"
  using key_refl by (auto simp: emplace_def)

lemma emplace_subset: "set (emplace x rs) \<subseteq> insert x (set rs)"
  by (auto simp: emplace_def)

lemma emplace_mono: "set rs \<subseteq> set (emplace x rs)"
  by (auto simp: emplace_def)

lemma fold_emplace_mono: "set rs \<subseteq> set (fold emplace xs rs)"
  by (induction xs arbitrary: rs) (simp_all, meson emplace_mono subset_trans)

lemma fold_emplace_subset: "set (fold emplace xs rs) \<subseteq> set rs \<union> set xs"
  by (induction xs arbitrary: rs) (simp_all, use emplace_subset in fastforce)

lemma fold_emplace_covers: "x \<in> set xs \<Longrightarrow> \<exists>r\<in>set (fold emplace xs rs). key_eq r x"
proof (induction xs arbitrary: rs)
  case (Cons a xs)
  show ?case
  proof (cases "x = a")
    case True
    then show ?thesis using emplace_covers [of a rs] fold_emplace_mono [of "emplace a rs" xs] by auto
  next
    case False
    with Cons show ?thesis by simp
  qed
qed simp

end

lemma ErrorEvent_eq_refl [simp]: "ErrorEvent_eq a a"
  and ErrorEvent_eq_sym: "ErrorEvent_eq a b \<Longrightarrow> ErrorEvent_eq b a"
  and ErrorEvent_eq_trans: "ErrorEvent_eq a b \<Longrightarrow> ErrorEvent_eq b c \<Longrightarrow> ErrorEvent_eq a c"
  by (simp_all add: ErrorEvent_eq_def)

interpretation races: result_set ErrorEventEqual
proof
  fix a b c :: RaceDispInfo
  show "ErrorEventEqual a a" by (simp add: ErrorEventEqual_def)
  show "ErrorEventEqual b a" if "ErrorEventEqual a b"
    using that ErrorEvent_eq_sym by (auto simp: ErrorEventEqual_def)
  show "ErrorEventEqual a c" if "ErrorEventEqual a b" "ErrorEventEqual b c"
    using that unfolding ErrorEventEqual_def
    by (elim conjE disjE) (simp, blast intro: ErrorEvent_eq_trans)+
qed

lemma ErrorEvent_eq_fields:
  assumes "ErrorEvent_eq a b"
  shows "ee_accessType a = ee_accessType b" "ee_memType a = ee_memType b" "ee_addr a = ee_addr b"
    "ee_fileNo a = ee_fileNo b" "ee_lineNo a = ee_lineNo b" "ee_pc a = ee_pc b"
    "ee_pipeType a = ee_pipeType b"
  using assms by (simp_all add: ErrorEvent_eq_def)

text \<open>
  The hash of the race result set respects its equality: two race reports that
  \<open>ErrorEventEqual\<close> identifies, in the same or in swapped order, have the same hash, whatever the
  hash functions of the standard library are.
\<close>
theorem ErrorEventHash_respects_equal:
  assumes "ErrorEventEqual a b"
  shows "ErrorEventHash hb h64 h8 a = ErrorEventHash hb h64 h8 b"
proof -
  have m: "isMissDcci a = isMissDcci b" using assms by (simp add: ErrorEventEqual_def)
  consider (same) "ErrorEvent_eq (p1 a) (p1 b)" "ErrorEvent_eq (p2 a) (p2 b)"
    | (swap) "ErrorEvent_eq (p1 a) (p2 b)" "ErrorEvent_eq (p2 a) (p1 b)"
    using assms by (auto simp: ErrorEventEqual_def)
  then show ?thesis
  proof cases
    case same
    then show ?thesis using m by (simp add: ErrorEventHash_def ErrorEvent_eq_fields)
  next
    case swap
    then show ?thesis using m
      by (simp add: ErrorEventHash_def ErrorEvent_eq_fields xor.left_commute xor.commute)
  qed
qed

definition sample_error :: "u64 \<Rightarrow> ErrorEvent" where
  "sample_error a = \<lparr>ee_serialNo = 0, ee_deviceId = 0, ee_kernelIdx = 0, ee_coreId = 0, ee_addr = a,
     ee_fileNo = 0, ee_lineNo = 0, ee_pc = 0, ee_accessType = 0, ee_memType = 0, ee_pipeType = 0,
     ee_blockType = BT_AIVEC, ee_threadLoc = SimtThreadLocation 0 0 0 0, isSimt = False\<rparr>"

definition sample_race :: "u64 \<Rightarrow> u64 \<Rightarrow> RaceDispInfo" where
  "sample_race a b = \<lparr>p1 = sample_error a, p2 = sample_error b, isMissDcci = False,
     isOnlineError = False\<rparr>"

theorem ErrorEventHash_respects_equal_witness:
  "ErrorEventHash (\<lambda>b. of_bool b) (\<lambda>x. x) of_nat (sample_race 1 2) =
     ErrorEventHash (\<lambda>b. of_bool b) (\<lambda>x. x) of_nat (sample_race 2 1)"
  by (rule ErrorEventHash_respects_equal)
     (simp add: sample_race_def ErrorEventEqual_def)

section \<open>Merging the thread locations of SIMT reports\<close>

lemma ErrorEvent_IsSameSimt_equiv:
  "ErrorEvent_IsSameSimt a a"
  "ErrorEvent_IsSameSimt a b \<Longrightarrow> ErrorEvent_IsSameSimt b a"
  "ErrorEvent_IsSameSimt a b \<Longrightarrow> ErrorEvent_IsSameSimt b c \<Longrightarrow> ErrorEvent_IsSameSimt a c"
  by (simp_all add: ErrorEvent_IsSameSimt_def)

interpretation simt_races: result_set RaceDispInfo_IsSameSimt
proof
  fix a b c :: RaceDispInfo
  show "RaceDispInfo_IsSameSimt a a" by (simp add: RaceDispInfo_IsSameSimt_def ErrorEvent_IsSameSimt_equiv(1))
  show "RaceDispInfo_IsSameSimt b a" if "RaceDispInfo_IsSameSimt a b"
    using that ErrorEvent_IsSameSimt_equiv(2) unfolding RaceDispInfo_IsSameSimt_def by blast
  show "RaceDispInfo_IsSameSimt a c" if "RaceDispInfo_IsSameSimt a b" "RaceDispInfo_IsSameSimt b c"
    using that unfolding RaceDispInfo_IsSameSimt_def
    by (elim conjE disjE) (blast intro: ErrorEvent_IsSameSimt_equiv(3))+
qed

lemma distinct_remdups_adj_sorted:
  fixes xs :: "'a::linorder list"
  shows "sorted xs \<Longrightarrow> distinct (remdups_adj xs)"
  by (induction xs rule: remdups_adj.induct) (auto simp: order.antisym)

lemma sorted_distinct_first_two:
  fixes xs :: "'a::linorder list"
  assumes "sorted xs" "distinct xs" "length xs \<ge> 2"
  shows "xs ! 0 < xs ! 1" "x \<in> set xs \<Longrightarrow> x = xs ! 0 \<or> xs ! 1 \<le> x"
proof -
  obtain a b ys where xs: "xs = a # b # ys"
    using assms(3) by (metis One_nat_def Suc_1 Suc_le_length_iff)
  show "xs ! 0 < xs ! 1" using assms(1,2) by (auto simp: xs order.strict_iff_order)
  show "x \<in> set xs \<Longrightarrow> x = xs ! 0 \<or> xs ! 1 \<le> x" using assms(1) by (auto simp: xs)
qed

definition thread_locs :: "RaceDispInfo \<Rightarrow> SimtThreadLocation set" where
  "thread_locs r = {ee_threadLoc (p1 r), ee_threadLoc (p2 r)}"

text \<open>
  Merging a SIMT race report into another keeps the two smallest distinct thread locations of
  the four: the first is the least, the second is the least of the rest, and they differ.
\<close>
theorem UpdateMinThreadLoc_two_least:
  assumes "ee_threadLoc (p1 a) \<noteq> ee_threadLoc (p2 a)"
  shows "let r = UpdateMinThreadLoc a b; all = thread_locs a \<union> thread_locs b in
     ee_threadLoc (p1 r) = Min all \<and> ee_threadLoc (p2 r) = Min (all - {Min all}) \<and>
     ee_threadLoc (p1 r) < ee_threadLoc (p2 r)"
proof -
  define locs where "locs = remdups_adj (sort [ee_threadLoc (p1 a), ee_threadLoc (p2 a),
                                    ee_threadLoc (p1 b), ee_threadLoc (p2 b)])"
  have set_locs: "set locs = thread_locs a \<union> thread_locs b"
    by (auto simp: locs_def thread_locs_def)
  have sd: "sorted locs" "distinct locs"
    by (simp_all add: locs_def distinct_remdups_adj_sorted del: sort_key_simps)
  have "card {ee_threadLoc (p1 a), ee_threadLoc (p2 a)} \<le> card (set locs)"
    by (rule card_mono) (auto simp: set_locs thread_locs_def)
  then have len: "length locs \<ge> 2"
    using assms distinct_card [OF sd(2)] by simp
  note two = sorted_distinct_first_two [OF sd len]
  have mem: "locs ! 0 \<in> set locs" "locs ! 1 \<in> set locs" 
    using len nth_mem [of 0 locs] nth_mem [of 1 locs] by linarith+
  have m0: "Min (set locs) = locs ! 0"
    using two mem by (intro Min_eqI) (auto intro: order.trans less_imp_le)
  have m1: "Min (set locs - {locs ! 0}) = locs ! 1"
    using two mem by (intro Min_eqI) auto
  have "UpdateMinThreadLoc a b = (if length locs \<ge> 2
         then a\<lparr>p1 := (p1 a)\<lparr>ee_threadLoc := locs ! 0\<rparr>, p2 := (p2 a)\<lparr>ee_threadLoc := locs ! 1\<rparr>\<rparr>
         else a)"
    unfolding UpdateMinThreadLoc_def Let_def locs_def by (rule refl)
  then show ?thesis
    using len two(1) m0 m1 by (simp add: set_locs [symmetric] Let_def)
qed

definition sample_simt_race :: "u16 \<Rightarrow> u16 \<Rightarrow> RaceDispInfo" where
  "sample_simt_race x y = (sample_race 0 0)
     \<lparr>p1 := (sample_error 0)\<lparr>ee_threadLoc := SimtThreadLocation x 0 0 0\<rparr>,
      p2 := (sample_error 0)\<lparr>ee_threadLoc := SimtThreadLocation y 0 0 0\<rparr>\<rparr>"

theorem UpdateMinThreadLoc_two_least_witness:
  "idX (ee_threadLoc (p1 (UpdateMinThreadLoc (sample_simt_race 7 3) (sample_simt_race 5 9)))) <
   idX (ee_threadLoc (p2 (UpdateMinThreadLoc (sample_simt_race 7 3) (sample_simt_race 5 9))))"
  using UpdateMinThreadLoc_two_least [of "sample_simt_race 7 3" "sample_simt_race 5 9"]
  by (simp add: sample_simt_race_def UpdateMinThreadLoc_def less_SimtThreadLocation_def
      less_eq_SimtThreadLocation_def Let_def)

end
