(* ===== verification/EventContainer.thy ===== *)
theory EventContainer
  imports Events
begin

text \<open>
  The event store of the pipeline simulation (\<open>csrc/core/framework/event_container.h\<close> and \<open>.cpp\<close>):
  the chunked queue \<open>SanEventQueue\<close>, shown to be a FIFO queue, and the \<open>EventContainer\<close> with one
  queue per device, block and pipe, its cursor and its progress counters. Indices and counters are
  natural numbers: the products \<open>deviceNum * blockNum * PipeType::SIZE\<close> are far below \<open>2 ^ 32\<close>.
\<close>

section \<open>The interface of a FIFO queue\<close>

locale fifo =
  fixes empty :: 'q
    and push :: "'q \<Rightarrow> 'a \<Rightarrow> 'q"
    and front :: "'q \<Rightarrow> 'a"
    and pop :: "'q \<Rightarrow> 'q"
    and is_empty :: "'q \<Rightarrow> bool"
    and size_of :: "'q \<Rightarrow> nat"
    and items :: "'q \<Rightarrow> 'a list"
    and ok :: "'q \<Rightarrow> bool"
  assumes empty_ok: "ok empty" and items_empty: "items empty = []"
    and push_ok: "ok q \<Longrightarrow> ok (push q x)" and items_push: "ok q \<Longrightarrow> items (push q x) = items q @ [x]"
    and front_items: "ok q \<Longrightarrow> items q \<noteq> [] \<Longrightarrow> front q = hd (items q)"
    and pop_ok: "ok q \<Longrightarrow> items q \<noteq> [] \<Longrightarrow> ok (pop q)"
    and items_pop: "ok q \<Longrightarrow> items q \<noteq> [] \<Longrightarrow> items (pop q) = tl (items q)"
    and is_empty_items: "ok q \<Longrightarrow> is_empty q \<longleftrightarrow> items q = []"
    and size_items: "ok q \<Longrightarrow> size_of q = length (items q)"
begin

lemma push_all_ok: "ok q \<Longrightarrow> ok (foldl push q xs)"
  by (induction xs arbitrary: q) (simp_all add: push_ok)

lemma items_push_all: "ok q \<Longrightarrow> items (foldl push q xs) = items q @ xs"
  by (induction xs arbitrary: q) (simp_all add: push_ok items_push)

primrec drain :: "nat \<Rightarrow> 'q \<Rightarrow> 'a list \<times> 'q" where
  "drain 0 q = ([], q)"
| "drain (Suc n) q = (let (xs, r) = drain n (pop q) in (front q # xs, r))"

lemma drain_items:
  "ok q \<Longrightarrow> n \<le> length (items q) \<Longrightarrow>
     fst (drain n q) = take n (items q) \<and> items (snd (drain n q)) = drop n (items q) \<and> ok (snd (drain n q))"
proof (induction n arbitrary: q)
  case (Suc n)
  then have ne: "items q \<noteq> []" by auto
  then obtain x xs where "items q = x # xs" by (cases "items q") auto
  then show ?case
    using Suc ne by (simp add: front_items items_pop pop_ok split_beta)
qed simp

lemma push_drain_roundtrip:
  "fst (drain (length xs) (foldl push empty xs)) = xs \<and>
     is_empty (snd (drain (length xs) (foldl push empty xs)))"
  using drain_items [of "foldl push empty xs" "length xs"]
  by (simp add: push_all_ok empty_ok items_push_all items_empty is_empty_items)

end

section \<open>The chunked queue\<close>

definition CHUNK_CAP :: nat where
  "CHUNK_CAP = 64"

record 'e SanEventQueue =
  chunks :: "'e list list"
  head :: nat
  queue_size :: nat

definition SanEventQueue_new :: "'e SanEventQueue" where
  "SanEventQueue_new = \<lparr>chunks = [], head = 0, queue_size = 0\<rparr>"

definition EnsureChunk :: "'e SanEventQueue \<Rightarrow> 'e SanEventQueue" where
  "EnsureChunk q =
     (if chunks q = [] \<or> length (last (chunks q)) = CHUNK_CAP
      then q\<lparr>chunks := chunks q @ [[]]\<rparr> else q)"

definition SanEventQueue_Push :: "'e SanEventQueue \<Rightarrow> 'e \<Rightarrow> 'e SanEventQueue" where
  "SanEventQueue_Push q e =
     (let q' = EnsureChunk q
      in q'\<lparr>chunks := butlast (chunks q') @ [last (chunks q') @ [e]],
            queue_size := queue_size q' + 1\<rparr>)"

definition SanEventQueue_Front :: "'e SanEventQueue \<Rightarrow> 'e" where
  "SanEventQueue_Front q = hd (chunks q) ! head q"

definition SanEventQueue_Pop :: "'e SanEventQueue \<Rightarrow> 'e SanEventQueue" where
  "SanEventQueue_Pop q =
     (let q' = q\<lparr>head := head q + 1, queue_size := queue_size q - 1\<rparr>
      in if head q' = length (hd (chunks q')) then q'\<lparr>chunks := tl (chunks q'), head := 0\<rparr> else q')"

definition SanEventQueue_Empty :: "'e SanEventQueue \<Rightarrow> bool" where
  "SanEventQueue_Empty q \<longleftrightarrow> queue_size q = 0"

definition SanEventQueue_Size :: "'e SanEventQueue \<Rightarrow> nat" where
  "SanEventQueue_Size q = queue_size q"

definition SanEventQueue_Clear :: "'e SanEventQueue \<Rightarrow> 'e SanEventQueue" where
  "SanEventQueue_Clear q = q\<lparr>chunks := [], head := 0, queue_size := 0\<rparr>"

text \<open>The items a chunked queue holds, and its representation invariant.\<close>

definition queue_items :: "'e SanEventQueue \<Rightarrow> 'e list" where
  "queue_items q = drop (head q) (concat (chunks q))"

definition queue_inv :: "'e SanEventQueue \<Rightarrow> bool" where
  "queue_inv q \<longleftrightarrow>
     (\<forall>c\<in>set (butlast (chunks q)). length c = CHUNK_CAP) \<and>
     (chunks q \<noteq> [] \<longrightarrow> last (chunks q) \<noteq> [] \<and> length (last (chunks q)) \<le> CHUNK_CAP) \<and>
     (if chunks q = [] then head q = 0 else head q < length (hd (chunks q))) \<and>
     queue_size q = length (queue_items q)"

lemma queue_inv_new: "queue_inv SanEventQueue_new"
  by (simp add: queue_inv_def SanEventQueue_new_def queue_items_def)

lemma queue_items_new [simp]: "queue_items SanEventQueue_new = []"
  by (simp add: SanEventQueue_new_def queue_items_def)

lemma queue_inv_nonempty: "queue_inv q \<Longrightarrow> queue_items q \<noteq> [] \<longleftrightarrow> chunks q \<noteq> []"
  by (cases "chunks q") (auto simp: queue_inv_def queue_items_def)

lemma Push_chunks:
  assumes "queue_inv q"
  shows "concat (chunks (SanEventQueue_Push q e)) = concat (chunks q) @ [e]"
    and "head (SanEventQueue_Push q e) = head q"
    and "queue_size (SanEventQueue_Push q e) = queue_size q + 1"
  by (simp_all add: SanEventQueue_Push_def EnsureChunk_def Let_def butlast_append)
     (metis append_butlast_last_id concat.simps concat_append append.right_neutral append_assoc)

lemma queue_inv_head_le: "queue_inv q \<Longrightarrow> head q \<le> length (concat (chunks q))"
  by (cases "chunks q") (auto simp: queue_inv_def)

lemma Push_items: "queue_inv q \<Longrightarrow> queue_items (SanEventQueue_Push q e) = queue_items q @ [e]"
  by (simp add: queue_items_def Push_chunks queue_inv_head_le)

lemma Push_inv:
  assumes inv: "queue_inv q"
  shows "queue_inv (SanEventQueue_Push q e)"
proof (cases "chunks q = [] \<or> length (last (chunks q)) = CHUNK_CAP")
  case True
  then have ch: "chunks (SanEventQueue_Push q e) = chunks q @ [[e]]"
    by (simp add: SanEventQueue_Push_def EnsureChunk_def Let_def)
  have full: "\<forall>c\<in>set (chunks q). length c = CHUNK_CAP"
    using True inv unfolding queue_inv_def
    by (metis append_butlast_last_id empty_iff list.set(1) set_append Un_iff set_ConsD)
  have "queue_size (SanEventQueue_Push q e) = length (queue_items (SanEventQueue_Push q e))"
    using inv Push_items [OF inv] Push_chunks [OF inv] by (simp add: queue_inv_def)
  then show ?thesis
    using inv full Push_chunks(2) [OF inv, of e]
    by (cases "chunks q") (simp_all add: queue_inv_def ch CHUNK_CAP_def)
next
  case False
  then have ch: "chunks (SanEventQueue_Push q e) = butlast (chunks q) @ [last (chunks q) @ [e]]"
    and ne: "chunks q \<noteq> []"
    by (simp_all add: SanEventQueue_Push_def EnsureChunk_def Let_def)
  have "queue_size (SanEventQueue_Push q e) = length (queue_items (SanEventQueue_Push q e))"
    using inv Push_items [OF inv] Push_chunks [OF inv] by (simp add: queue_inv_def)
  moreover have "head q < length (hd (butlast (chunks q) @ [last (chunks q) @ [e]]))"
    using inv ne by (cases "chunks q") (auto simp: queue_inv_def)
  ultimately show ?thesis
    using inv False ne Push_chunks(2) [OF inv, of e]
    by (simp add: queue_inv_def ch)
qed

lemma Front_items: "queue_inv q \<Longrightarrow> queue_items q \<noteq> [] \<Longrightarrow> SanEventQueue_Front q = hd (queue_items q)"
  by (cases "chunks q")
     (auto simp: queue_inv_def queue_items_def SanEventQueue_Front_def hd_drop_conv_nth hd_append
       split: if_splits)

lemma Pop_items:
  assumes "queue_inv q" "queue_items q \<noteq> []"
  shows "queue_items (SanEventQueue_Pop q) = tl (queue_items q)"
proof -
  obtain c cs where ch: "chunks q = c # cs"
    using assms queue_inv_nonempty by (cases "chunks q") auto
  then have h: "head q < length c" using assms(1) by (simp add: queue_inv_def)
  then show ?thesis
    by (simp add: SanEventQueue_Pop_def Let_def queue_items_def ch tl_drop drop_Suc [symmetric])
qed

lemma Pop_inv:
  assumes "queue_inv q" "queue_items q \<noteq> []"
  shows "queue_inv (SanEventQueue_Pop q)"
proof -
  obtain c cs where ch: "chunks q = c # cs"
    using assms queue_inv_nonempty by (cases "chunks q") auto
  have h: "head q < length c" using assms(1) ch by (simp add: queue_inv_def)
  have cs: "\<forall>d\<in>set (butlast cs). length d = CHUNK_CAP"
      "cs \<noteq> [] \<longrightarrow> last cs \<noteq> [] \<and> length (last cs) \<le> CHUNK_CAP"
    using assms(1) ch by (simp_all add: queue_inv_def split: if_splits)
  then have "cs \<noteq> [] \<longrightarrow> hd cs \<noteq> []"
    by (cases cs; cases "tl cs") (auto simp: CHUNK_CAP_def)
  note cs = cs this
  have sz: "queue_size (SanEventQueue_Pop q) = length (queue_items (SanEventQueue_Pop q))"
    using assms Pop_items [OF assms]
    by (simp add: queue_inv_def SanEventQueue_Pop_def Let_def)
  show ?thesis
    using assms(1) h cs sz
    by (auto simp: queue_inv_def SanEventQueue_Pop_def Let_def ch)
qed

lemma queue_inv_size: "queue_inv q \<Longrightarrow> queue_size q = length (queue_items q)"
  by (simp add: queue_inv_def)

interpretation eq: fifo SanEventQueue_new SanEventQueue_Push SanEventQueue_Front SanEventQueue_Pop
    SanEventQueue_Empty SanEventQueue_Size queue_items queue_inv
  by unfold_locales
     (simp_all add: queue_inv_new Push_inv Push_items Front_items Pop_inv Pop_items
       SanEventQueue_Empty_def SanEventQueue_Size_def queue_inv_size)

section \<open>The event container\<close>

record EventContainer =
  ques :: "SanEvent SanEventQueue list"
  deviceNum :: nat
  maxBlockNum :: nat
  blockPopCount :: nat
  devicePopCount :: nat
  isBlockStuck :: bool
  isDeviceStuck :: bool
  stuckDeviceNum :: nat
  pipeIndex :: nat
  blockIndex :: nat
  deviceIndex :: nat

definition EventContainer_Init :: "nat \<Rightarrow> nat \<Rightarrow> EventContainer" where
  "EventContainer_Init blocks devices =
     \<lparr>ques = replicate (devices * blocks * PIPE_NUM) SanEventQueue_new,
      deviceNum = devices, maxBlockNum = blocks, blockPopCount = 0, devicePopCount = 0,
      isBlockStuck = False, isDeviceStuck = False, stuckDeviceNum = 0,
      pipeIndex = 0, blockIndex = 0, deviceIndex = 0\<rparr>"

definition FlattenPipeIdx :: "EventContainer \<Rightarrow> nat \<Rightarrow> nat \<Rightarrow> nat \<Rightarrow> nat" where
  "FlattenPipeIdx c pipeIdx blockIdx devIdx =
     devIdx * maxBlockNum c * PIPE_NUM + blockIdx * PIPE_NUM + pipeIdx"

definition GetQueIndex :: "EventContainer \<Rightarrow> nat" where
  "GetQueIndex c = FlattenPipeIdx c (pipeIndex c) (blockIndex c) (deviceIndex c)"

definition queue_push :: "EventContainer \<Rightarrow> nat \<Rightarrow> SanEvent \<Rightarrow> EventContainer" where
  "queue_push c i e = c\<lparr>ques := (ques c)[i := SanEventQueue_Push (ques c ! i) e]\<rparr>"

text \<open>
  \<open>Push\<close>: an event for a block or device out of range is dropped, a \<open>MEMCPY_BLOCKS\<close> access is
  queued as its read followed by its write. The pipe is not checked by the code; the callers pass
  a pipe below \<open>PipeType::SIZE\<close>.
\<close>

definition EventContainer_Push :: "EventContainer \<Rightarrow> SanEvent \<Rightarrow> PipeType \<Rightarrow> nat \<Rightarrow> nat \<Rightarrow> EventContainer" where
  "EventContainer_Push c e p blockIdx devIdx =
     (if blockIdx \<ge> maxBlockNum c then c
      else if devIdx \<ge> deviceNum c then c
      else (let i = FlattenPipeIdx c (pipe_code p) blockIdx devIdx
            in case eventInfo e of
                 MEM_EVENT m \<Rightarrow>
                   (if opType m = MEMCPY_BLOCKS
                    then queue_push (queue_push c i (e\<lparr>eventInfo := MEM_EVENT (m\<lparr>opType := READ\<rparr>)\<rparr>))
                           i (e\<lparr>eventInfo := MEM_EVENT (m\<lparr>opType := WRITE\<rparr>)\<rparr>)
                    else queue_push c i e)
               | _ \<Rightarrow> queue_push c i e))"

definition EventContainer_Front :: "EventContainer \<Rightarrow> SanEvent" where
  "EventContainer_Front c = SanEventQueue_Front (ques c ! GetQueIndex c)"

definition EventContainer_Pop :: "EventContainer \<Rightarrow> EventContainer" where
  "EventContainer_Pop c =
     c\<lparr>blockPopCount := blockPopCount c + 1, devicePopCount := devicePopCount c + 1,
       ques := (ques c)[GetQueIndex c := SanEventQueue_Pop (ques c ! GetQueIndex c)]\<rparr>"

definition IsCurQueEmpty :: "EventContainer \<Rightarrow> bool" where
  "IsCurQueEmpty c \<longleftrightarrow> SanEventQueue_Empty (ques c ! GetQueIndex c)"

definition IsCurBlockEmpty :: "EventContainer \<Rightarrow> bool" where
  "IsCurBlockEmpty c \<longleftrightarrow>
     (let startIdx = FlattenPipeIdx c 0 (blockIndex c) (deviceIndex c); endIdx = startIdx + PIPE_NUM
      in list_all (\<lambda>i. SanEventQueue_Empty (ques c ! i)) [startIdx ..< endIdx])"

definition IsCurDeviceEmpty :: "EventContainer \<Rightarrow> bool" where
  "IsCurDeviceEmpty c \<longleftrightarrow>
     (let startIdx = FlattenPipeIdx c 0 0 (deviceIndex c); endIdx = startIdx + maxBlockNum c * PIPE_NUM
      in list_all (\<lambda>i. SanEventQueue_Empty (ques c ! i)) [startIdx ..< endIdx])"

definition IsNeedSwitchNextBlock :: "EventContainer \<Rightarrow> bool" where
  "IsNeedSwitchNextBlock c \<longleftrightarrow> (if isBlockStuck c then True else IsCurBlockEmpty c)"

definition IsNeedSwitchNextDevice :: "EventContainer \<Rightarrow> bool" where
  "IsNeedSwitchNextDevice c \<longleftrightarrow> isDeviceStuck c \<or> IsCurDeviceEmpty c"

definition EventContainer_IsEmpty :: "EventContainer \<Rightarrow> bool" where
  "EventContainer_IsEmpty c \<longleftrightarrow> list_all SanEventQueue_Empty (ques c)"

definition CheckCurDeviceStuck :: "EventContainer \<Rightarrow> EventContainer" where
  "CheckCurDeviceStuck c =
     (if isDeviceStuck c then c\<lparr>stuckDeviceNum := stuckDeviceNum c + 1\<rparr> else c\<lparr>stuckDeviceNum := 0\<rparr>)"

definition IsAllDeviceStuck :: "EventContainer \<Rightarrow> bool" where
  "IsAllDeviceStuck c \<longleftrightarrow> stuckDeviceNum c = deviceNum c"

text \<open>\<open>ForEachFrontEvent\<close>: the events its callback receives, in order.\<close>

definition ForEachFrontEvent :: "EventContainer \<Rightarrow> SanEvent list" where
  "ForEachFrontEvent c =
     concat (map (\<lambda>q. if SanEventQueue_Empty q then [] else [SanEventQueue_Front q]) (ques c))"

definition SwitchToNextDevice :: "EventContainer \<Rightarrow> EventContainer" where
  "SwitchToNextDevice c =
     c\<lparr>deviceIndex := (deviceIndex c + 1) mod deviceNum c, blockIndex := 0, pipeIndex := 0,
       blockPopCount := 0, devicePopCount := 0, isBlockStuck := False, isDeviceStuck := False\<rparr>"

definition SwitchToNextBlock :: "EventContainer \<Rightarrow> EventContainer" where
  "SwitchToNextBlock c =
     (let c1 = c\<lparr>blockIndex := (blockIndex c + 1) mod maxBlockNum c, pipeIndex := 0,
                 blockPopCount := 0, isBlockStuck := False\<rparr>
      in if blockIndex c1 = 0
         then (let c2 = c1\<lparr>isDeviceStuck := (devicePopCount c1 = 0)\<rparr>;
                   c3 = (if \<not> isDeviceStuck c2 then c2\<lparr>stuckDeviceNum := 0\<rparr> else c2)
               in c3\<lparr>devicePopCount := 0\<rparr>)
         else c1)"

definition SwitchToNextPipe :: "EventContainer \<Rightarrow> EventContainer" where
  "SwitchToNextPipe c =
     (let c1 = c\<lparr>pipeIndex := (pipeIndex c + 1) mod PIPE_NUM\<rparr>
      in if pipeIndex c1 = pipe_code PIPE_S
         then c1\<lparr>isBlockStuck := (blockPopCount c1 = 0), blockPopCount := 0\<rparr>
         else c1)"

definition GetPipeIndex :: "EventContainer \<Rightarrow> PipeType" where
  "GetPipeIndex c = pipe_of (pipeIndex c)"

definition GetBlockIndex :: "EventContainer \<Rightarrow> nat" where
  "GetBlockIndex c = blockIndex c"

text \<open>The two test interfaces of the class; \<open>GetCurQueSize\<close> leaves the device index out.\<close>

definition GetCurQueSize :: "EventContainer \<Rightarrow> nat" where
  "GetCurQueSize c = SanEventQueue_Size (ques c ! (blockIndex c * PIPE_NUM + pipeIndex c))"

definition GetAllQueSize :: "EventContainer \<Rightarrow> nat" where
  "GetAllQueSize c = sum_list (map SanEventQueue_Size (ques c))"

definition SetQueIndex :: "EventContainer \<Rightarrow> PipeType \<Rightarrow> EventContainer" where
  "SetQueIndex c p = c\<lparr>pipeIndex := pipe_code p\<rparr>"

section \<open>Invariant and abstract view\<close>

definition ec_inv :: "EventContainer \<Rightarrow> bool" where
  "ec_inv c \<longleftrightarrow>
     length (ques c) = deviceNum c * maxBlockNum c * PIPE_NUM \<and> list_all queue_inv (ques c) \<and>
     pipeIndex c < PIPE_NUM \<and> blockIndex c < maxBlockNum c \<and> deviceIndex c < deviceNum c"

text \<open>The events queued for a device, a block and a pipe: what the queues stand for.\<close>

definition queued :: "EventContainer \<Rightarrow> nat \<Rightarrow> nat \<Rightarrow> nat \<Rightarrow> SanEvent list" where
  "queued c d b p = queue_items (ques c ! FlattenPipeIdx c p b d)"

text \<open>The events a pushed event is split into.\<close>

definition split_event :: "SanEvent \<Rightarrow> SanEvent list" where
  "split_event e =
     (case eventInfo e of
        MEM_EVENT m \<Rightarrow>
          (if opType m = MEMCPY_BLOCKS
           then [e\<lparr>eventInfo := MEM_EVENT (m\<lparr>opType := READ\<rparr>)\<rparr>, e\<lparr>eventInfo := MEM_EVENT (m\<lparr>opType := WRITE\<rparr>)\<rparr>]
           else [e])
      | _ \<Rightarrow> [e])"

lemma ec_inv_Init: "0 < devices \<Longrightarrow> 0 < blocks \<Longrightarrow> ec_inv (EventContainer_Init blocks devices)"
  by (simp add: ec_inv_def EventContainer_Init_def list_all_iff queue_inv_new)

lemma queued_Init:
  "0 < devices \<Longrightarrow> d < devices \<Longrightarrow> b < blocks \<Longrightarrow> p < PIPE_NUM \<Longrightarrow>
     FlattenPipeIdx (EventContainer_Init blocks devices) p b d < devices * blocks * PIPE_NUM \<Longrightarrow>
     queued (EventContainer_Init blocks devices) d b p = []"
  by (simp add: queued_def EventContainer_Init_def FlattenPipeIdx_def)

subsection \<open>The flattened index\<close>

lemma mixed_radix_less:
  fixes a b n m :: nat
  assumes "a < n" "b < m"
  shows "a * m + b < n * m"
proof -
  have "a * m + b < (a + 1) * m" using assms(2) by simp
  also have "\<dots> \<le> n * m" using assms(1) by (intro mult_le_mono1) simp
  finally show ?thesis .
qed

lemma mixed_radix_inject:
  fixes a b a' b' m :: nat
  assumes "b < m" "b' < m"
  shows "a * m + b = a' * m + b' \<longleftrightarrow> a = a' \<and> b = b'"
  using assms by (metis add.commute div_mult_self2 div_less less_zeroE mod_less mod_mult_self2 mult.commute
      add_0_right)

lemma FlattenPipeIdx_alt: "FlattenPipeIdx c p b d = (d * maxBlockNum c + b) * PIPE_NUM + p"
  by (simp add: FlattenPipeIdx_def algebra_simps)

lemma FlattenPipeIdx_less:
  "p < PIPE_NUM \<Longrightarrow> b < maxBlockNum c \<Longrightarrow> d < deviceNum c \<Longrightarrow>
     FlattenPipeIdx c p b d < deviceNum c * maxBlockNum c * PIPE_NUM"
  unfolding FlattenPipeIdx_alt by (intro mixed_radix_less)

lemma FlattenPipeIdx_inject:
  "p < PIPE_NUM \<Longrightarrow> p' < PIPE_NUM \<Longrightarrow> b < maxBlockNum c \<Longrightarrow> b' < maxBlockNum c \<Longrightarrow>
     FlattenPipeIdx c p b d = FlattenPipeIdx c p' b' d' \<longleftrightarrow> d = d' \<and> b = b' \<and> p = p'"
  unfolding FlattenPipeIdx_alt by (simp only: mixed_radix_inject conj_assoc)

lemma FlattenPipeIdx_surj:
  assumes "i < deviceNum c * maxBlockNum c * PIPE_NUM"
  obtains p b d where "p < PIPE_NUM" "b < maxBlockNum c" "d < deviceNum c" "i = FlattenPipeIdx c p b d"
proof -
  let ?q = "i div PIPE_NUM"
  have q: "?q < deviceNum c * maxBlockNum c" using assms by (simp add: less_mult_imp_div_less)
  then have m: "0 < maxBlockNum c" by (cases "maxBlockNum c") auto
  have "i = FlattenPipeIdx c (i mod PIPE_NUM) (?q mod maxBlockNum c) (?q div maxBlockNum c)"
    by (simp only: FlattenPipeIdx_alt div_mult_mod_eq)
  moreover have "?q div maxBlockNum c < deviceNum c" using q by (simp add: less_mult_imp_div_less)
  ultimately show ?thesis using that [of "i mod PIPE_NUM" "?q mod maxBlockNum c" "?q div maxBlockNum c"] m
    by simp
qed

subsection \<open>Queue updates\<close>

definition in_range :: "EventContainer \<Rightarrow> nat \<Rightarrow> nat \<Rightarrow> nat \<Rightarrow> bool" where
  "in_range c d b p \<longleftrightarrow> d < deviceNum c \<and> b < maxBlockNum c \<and> p < PIPE_NUM"

lemma ec_inv_queue:
  "ec_inv c \<Longrightarrow> in_range c d b p \<Longrightarrow> queue_inv (ques c ! FlattenPipeIdx c p b d)"
  using FlattenPipeIdx_less [of p b c d]
  by (simp add: ec_inv_def in_range_def list_all_iff del: PIPE_NUM_eq)

lemma ec_inv_cursor: "ec_inv c \<Longrightarrow> in_range c (deviceIndex c) (blockIndex c) (pipeIndex c)"
  by (simp add: ec_inv_def in_range_def del: PIPE_NUM_eq)

text \<open>Everything but the queues.\<close>

definition same_frame :: "EventContainer \<Rightarrow> EventContainer \<Rightarrow> bool" where
  "same_frame c c' \<longleftrightarrow> c'\<lparr>ques := ques c\<rparr> = c"

lemma same_frame_fields:
  assumes "same_frame c c'"
  shows "deviceNum c' = deviceNum c" "maxBlockNum c' = maxBlockNum c" "pipeIndex c' = pipeIndex c"
    "blockIndex c' = blockIndex c" "deviceIndex c' = deviceIndex c" "blockPopCount c' = blockPopCount c"
    "devicePopCount c' = devicePopCount c" "isBlockStuck c' = isBlockStuck c"
    "isDeviceStuck c' = isDeviceStuck c" "stuckDeviceNum c' = stuckDeviceNum c"
    "FlattenPipeIdx c' p b d = FlattenPipeIdx c p b d" "GetQueIndex c' = GetQueIndex c"
    "in_range c' d b p = in_range c d b p"
  using assms unfolding same_frame_def
  by (cases c; cases c'; simp add: FlattenPipeIdx_def GetQueIndex_def in_range_def)+

lemma same_frame_refl [simp]: "same_frame c c"
  by (simp add: same_frame_def)

lemma same_frame_trans: "same_frame a b \<Longrightarrow> same_frame b c \<Longrightarrow> same_frame a c"
  by (cases a; cases b; cases c) (simp add: same_frame_def)

lemma queue_push_frame [simp]: "same_frame c (queue_push c i e)"
  by (cases c) (simp add: same_frame_def queue_push_def)

lemma ec_inv_update:
  assumes "ec_inv c" "same_frame c c'" "ques c' = (ques c)[i := q]" "queue_inv q"
  shows "ec_inv c'"
  using assms same_frame_fields [OF assms(2)] set_update_subset_insert [of "ques c" i q]
  by (auto simp: ec_inv_def list_all_iff)

lemma queued_update:
  assumes "ec_inv c" "in_range c d b p" "in_range c d' b' p'"
    and "ques c' = (ques c)[FlattenPipeIdx c p b d := q]" "maxBlockNum c' = maxBlockNum c"
  shows "queued c' d' b' p' = (if (d', b', p') = (d, b, p) then queue_items q else queued c d' b' p')"
proof -
  have lt: "FlattenPipeIdx c p b d < length (ques c)"
    using assms(1,2) FlattenPipeIdx_less by (simp add: ec_inv_def in_range_def del: PIPE_NUM_eq)
  have f: "FlattenPipeIdx c' p' b' d' = FlattenPipeIdx c p' b' d'"
    using assms(5) by (simp add: FlattenPipeIdx_def)
  show ?thesis
    using assms(2,3) lt FlattenPipeIdx_inject [of p p' b c b' d d']
    by (auto simp: queued_def f assms(4) in_range_def nth_list_update simp del: PIPE_NUM_eq)
qed

lemma queue_push_inv:
  "ec_inv c \<Longrightarrow> in_range c d b p \<Longrightarrow> ec_inv (queue_push c (FlattenPipeIdx c p b d) e)"
  by (rule ec_inv_update [where q = "SanEventQueue_Push (ques c ! FlattenPipeIdx c p b d) e"])
     (simp_all add: queue_push_def Push_inv ec_inv_queue same_frame_def)

lemma queue_push_queued:
  assumes "ec_inv c" "in_range c d b p" "in_range c d' b' p'"
  shows "queued (queue_push c (FlattenPipeIdx c p b d) e) d' b' p' =
     queued c d' b' p' @ (if (d', b', p') = (d, b, p) then [e] else [])"
  using assms queued_update [OF assms, where c' = "queue_push c (FlattenPipeIdx c p b d) e"]
  by (auto simp: queue_push_def Push_items ec_inv_queue queued_def)

lemma Push_cases:
  "EventContainer_Push c e p b d =
     (if b < maxBlockNum c \<and> d < deviceNum c
      then foldl (\<lambda>c. queue_push c (FlattenPipeIdx c (pipe_code p) b d)) c (split_event e) else c)"
proof -
  have "FlattenPipeIdx (queue_push c i e') (pipe_code p) b d = FlattenPipeIdx c (pipe_code p) b d" for i e'
    by (simp add: FlattenPipeIdx_def queue_push_def)
  then show ?thesis
    by (auto simp: EventContainer_Push_def split_event_def Let_def split: EventInfo.split)
qed

lemma push_all_queued:
  assumes "ec_inv c" "in_range c d b p" "in_range c d' b' p'"
  shows "let c' = foldl (\<lambda>c. queue_push c (FlattenPipeIdx c p b d)) c es in
     ec_inv c' \<and> same_frame c c' \<and>
     queued c' d' b' p' = queued c d' b' p' @ (if (d', b', p') = (d, b, p) then es else [])"
  using assms
proof (induction es arbitrary: c)
  case (Cons e es)
  let ?c = "queue_push c (FlattenPipeIdx c p b d) e"
  have r: "in_range ?c d b p" "in_range ?c d' b' p'"
    using Cons.prems same_frame_fields(13) [OF queue_push_frame] by blast+
  have "let c' = foldl (\<lambda>c. queue_push c (FlattenPipeIdx c p b d)) ?c es in
     ec_inv c' \<and> same_frame ?c c' \<and>
     queued c' d' b' p' = queued ?c d' b' p' @ (if (d', b', p') = (d, b, p) then es else [])"
    by (rule Cons.IH [OF queue_push_inv [OF Cons.prems(1,2)] r])
  then show ?case
    using queue_push_queued [OF Cons.prems, of e]
      same_frame_trans [OF queue_push_frame [of c "FlattenPipeIdx c p b d" e]]
    by (auto simp: Let_def)
qed simp

lemma EventContainer_Push_queued:
  assumes "ec_inv c" "p \<noteq> PIPE_SIZE" "in_range c d' b' p'"
  shows "ec_inv (EventContainer_Push c e p b d)" "same_frame c (EventContainer_Push c e p b d)"
    "queued (EventContainer_Push c e p b d) d' b' p' =
       queued c d' b' p' @ (if (d', b', p') = (d, b, pipe_code p) then split_event e else [])"
proof -
  have "let c' = EventContainer_Push c e p b d in
     ec_inv c' \<and> same_frame c c' \<and> queued c' d' b' p' =
       queued c d' b' p' @ (if (d', b', p') = (d, b, pipe_code p) then split_event e else [])"
  proof (cases "b < maxBlockNum c \<and> d < deviceNum c")
    case True
    then have "in_range c d b (pipe_code p)" using assms(2) pipe_code_lt by (simp add: in_range_def)
    then show ?thesis
      using push_all_queued [OF assms(1) _ assms(3)] True by (simp add: Push_cases)
  next
    case False
    then show ?thesis using assms(1,3) by (auto simp: Push_cases in_range_def)
  qed
  then show "ec_inv (EventContainer_Push c e p b d)" "same_frame c (EventContainer_Push c e p b d)"
    "queued (EventContainer_Push c e p b d) d' b' p' =
       queued c d' b' p' @ (if (d', b', p') = (d, b, pipe_code p) then split_event e else [])"
    by (simp_all add: Let_def)
qed

subsection \<open>Cursor operations\<close>

definition at_cursor :: "EventContainer \<Rightarrow> SanEvent list" where
  "at_cursor c = queued c (deviceIndex c) (blockIndex c) (pipeIndex c)"

lemma IsCurQueEmpty_queued: "ec_inv c \<Longrightarrow> IsCurQueEmpty c \<longleftrightarrow> at_cursor c = []"
  using ec_inv_queue [OF _ ec_inv_cursor]
  by (simp add: IsCurQueEmpty_def GetQueIndex_def at_cursor_def queued_def eq.is_empty_items)

lemma Front_queued: "ec_inv c \<Longrightarrow> at_cursor c \<noteq> [] \<Longrightarrow> EventContainer_Front c = hd (at_cursor c)"
  using ec_inv_queue [OF _ ec_inv_cursor]
  by (simp add: EventContainer_Front_def GetQueIndex_def at_cursor_def queued_def eq.front_items)

lemma Pop_frame:
  "same_frame (c\<lparr>blockPopCount := blockPopCount c + 1, devicePopCount := devicePopCount c + 1\<rparr>)
     (EventContainer_Pop c)"
  by (simp add: same_frame_def EventContainer_Pop_def)

lemma EventContainer_Pop_inv:
  assumes "ec_inv c" "at_cursor c \<noteq> []"
  shows "ec_inv (EventContainer_Pop c)"
proof (rule ec_inv_update [OF _ Pop_frame])
  show "ec_inv (c\<lparr>blockPopCount := blockPopCount c + 1, devicePopCount := devicePopCount c + 1\<rparr>)"
    using assms(1) by (simp add: ec_inv_def)
  show "queue_inv (SanEventQueue_Pop (ques c ! GetQueIndex c))"
    using assms ec_inv_queue [OF assms(1) ec_inv_cursor [OF assms(1)]]
    by (simp add: Pop_inv GetQueIndex_def at_cursor_def queued_def)
qed (simp add: EventContainer_Pop_def)

lemma EventContainer_Pop_queued:
  assumes "ec_inv c" "at_cursor c \<noteq> []" "in_range c d b p"
  shows "queued (EventContainer_Pop c) d b p =
     (if (d, b, p) = (deviceIndex c, blockIndex c, pipeIndex c) then tl (queued c d b p) else queued c d b p)"
  using assms(2) ec_inv_queue [OF assms(1) ec_inv_cursor [OF assms(1)]]
    queued_update [OF assms(1) ec_inv_cursor [OF assms(1)] assms(3), where c' = "EventContainer_Pop c"]
  by (auto simp: EventContainer_Pop_def GetQueIndex_def Pop_items at_cursor_def queued_def)

lemma Flatten_ivl_block:
  "list_all P [FlattenPipeIdx c 0 b d ..< FlattenPipeIdx c 0 b d + PIPE_NUM] \<longleftrightarrow>
     (\<forall>p<PIPE_NUM. P (FlattenPipeIdx c p b d))"
proof -
  have "{FlattenPipeIdx c 0 b d ..< FlattenPipeIdx c 0 b d + PIPE_NUM} =
      (\<lambda>p. FlattenPipeIdx c p b d) ` {..<PIPE_NUM}"
    by (auto simp: FlattenPipeIdx_def image_iff Bex_def le_iff_add)
  then show ?thesis by (auto simp: list_all_iff simp del: PIPE_NUM_eq)
qed

lemma Flatten_ivl_device:
  "list_all P [FlattenPipeIdx c 0 0 d ..< FlattenPipeIdx c 0 0 d + maxBlockNum c * PIPE_NUM] \<longleftrightarrow>
     (\<forall>b<maxBlockNum c. \<forall>p<PIPE_NUM. P (FlattenPipeIdx c p b d))"
  (is "?l \<longleftrightarrow> ?r")
proof -
  have "?l \<longleftrightarrow> (\<forall>j<maxBlockNum c * PIPE_NUM. P (FlattenPipeIdx c 0 0 d + j))"
    by (auto simp: list_all_iff Ball_def le_iff_add simp del: PIPE_NUM_eq)
  also have "\<dots> \<longleftrightarrow> ?r"
  proof safe
    fix b p assume "\<forall>j<maxBlockNum c * PIPE_NUM. P (FlattenPipeIdx c 0 0 d + j)"
      and "b < maxBlockNum c" "p < PIPE_NUM"
    then have "P (FlattenPipeIdx c 0 0 d + (b * PIPE_NUM + p))"
      using mixed_radix_less [of b "maxBlockNum c" p PIPE_NUM] by blast
    then show "P (FlattenPipeIdx c p b d)" by (simp add: FlattenPipeIdx_def add.assoc)
  next
    fix j assume r: ?r and "j < maxBlockNum c * PIPE_NUM"
    then have "j div PIPE_NUM < maxBlockNum c" "j mod PIPE_NUM < PIPE_NUM"
      by (simp_all add: less_mult_imp_div_less)
    then have "P (FlattenPipeIdx c (j mod PIPE_NUM) (j div PIPE_NUM) d)" using r by blast
    moreover have "FlattenPipeIdx c (j mod PIPE_NUM) (j div PIPE_NUM) d = FlattenPipeIdx c 0 0 d + j"
      by (simp only: FlattenPipeIdx_def div_mult_mod_eq add.assoc mult_0 add_0_left add_0_right)
    ultimately show "P (FlattenPipeIdx c 0 0 d + j)" by simp
  qed
  finally show ?thesis .
qed

lemma queue_Empty_queued:
  "ec_inv c \<Longrightarrow> in_range c d b p \<Longrightarrow>
     SanEventQueue_Empty (ques c ! FlattenPipeIdx c p b d) \<longleftrightarrow> queued c d b p = []"
  by (simp add: queued_def eq.is_empty_items ec_inv_queue)

lemma IsCurBlockEmpty_queued:
  "ec_inv c \<Longrightarrow> IsCurBlockEmpty c \<longleftrightarrow> (\<forall>p<PIPE_NUM. queued c (deviceIndex c) (blockIndex c) p = [])"
  using ec_inv_cursor [of c]
  by (simp add: IsCurBlockEmpty_def Let_def Flatten_ivl_block queue_Empty_queued in_range_def del: PIPE_NUM_eq)

lemma IsCurDeviceEmpty_queued:
  "ec_inv c \<Longrightarrow> IsCurDeviceEmpty c \<longleftrightarrow>
     (\<forall>b<maxBlockNum c. \<forall>p<PIPE_NUM. queued c (deviceIndex c) b p = [])"
  using ec_inv_cursor [of c]
  by (simp add: IsCurDeviceEmpty_def Let_def Flatten_ivl_device queue_Empty_queued in_range_def del: PIPE_NUM_eq)

lemma IsEmpty_queued:
  assumes "ec_inv c"
  shows "EventContainer_IsEmpty c \<longleftrightarrow> (\<forall>d b p. in_range c d b p \<longrightarrow> queued c d b p = [])"
proof
  assume e: "EventContainer_IsEmpty c"
  show "\<forall>d b p. in_range c d b p \<longrightarrow> queued c d b p = []"
  proof (intro allI impI)
    fix d b p assume r: "in_range c d b p"
    then have "FlattenPipeIdx c p b d < length (ques c)"
      using assms FlattenPipeIdx_less by (simp add: ec_inv_def in_range_def del: PIPE_NUM_eq)
    then show "queued c d b p = []"
      using e queue_Empty_queued [OF assms r] by (simp add: EventContainer_IsEmpty_def list_all_length)
  qed
next
  assume q: "\<forall>d b p. in_range c d b p \<longrightarrow> queued c d b p = []"
  show "EventContainer_IsEmpty c"
    unfolding EventContainer_IsEmpty_def list_all_length
  proof (intro allI impI)
    fix i assume "i < length (ques c)"
    then obtain p b d where "p < PIPE_NUM" "b < maxBlockNum c" "d < deviceNum c" "i = FlattenPipeIdx c p b d"
      using assms FlattenPipeIdx_surj [of i c] by (auto simp: ec_inv_def simp del: PIPE_NUM_eq)
    then show "SanEventQueue_Empty (ques c ! i)"
      using q queue_Empty_queued [OF assms, of d b p] by (simp add: in_range_def del: PIPE_NUM_eq)
  qed
qed

text \<open>The switch operations move the cursor and keep every queue.\<close>

lemma queued_frame: "ques c' = ques c \<Longrightarrow> maxBlockNum c' = maxBlockNum c \<Longrightarrow> queued c' d b p = queued c d b p"
  by (simp add: queued_def FlattenPipeIdx_def)

lemma SwitchToNextPipe_fields:
  "ques (SwitchToNextPipe c) = ques c" "deviceNum (SwitchToNextPipe c) = deviceNum c"
  "maxBlockNum (SwitchToNextPipe c) = maxBlockNum c" "deviceIndex (SwitchToNextPipe c) = deviceIndex c"
  "blockIndex (SwitchToNextPipe c) = blockIndex c"
  "pipeIndex (SwitchToNextPipe c) = (pipeIndex c + 1) mod PIPE_NUM"
  "isBlockStuck (SwitchToNextPipe c) =
     (if (pipeIndex c + 1) mod PIPE_NUM = 0 then blockPopCount c = 0 else isBlockStuck c)"
  "blockPopCount (SwitchToNextPipe c) = (if (pipeIndex c + 1) mod PIPE_NUM = 0 then 0 else blockPopCount c)"
  "devicePopCount (SwitchToNextPipe c) = devicePopCount c"
  "isDeviceStuck (SwitchToNextPipe c) = isDeviceStuck c"
  "stuckDeviceNum (SwitchToNextPipe c) = stuckDeviceNum c"
  by (simp_all add: SwitchToNextPipe_def Let_def)

lemma SwitchToNextBlock_fields:
  "ques (SwitchToNextBlock c) = ques c" "deviceNum (SwitchToNextBlock c) = deviceNum c"
  "maxBlockNum (SwitchToNextBlock c) = maxBlockNum c" "deviceIndex (SwitchToNextBlock c) = deviceIndex c"
  "blockIndex (SwitchToNextBlock c) = (blockIndex c + 1) mod maxBlockNum c"
  "pipeIndex (SwitchToNextBlock c) = 0"
  "isBlockStuck (SwitchToNextBlock c) = False" "blockPopCount (SwitchToNextBlock c) = 0"
  "devicePopCount (SwitchToNextBlock c) =
     (if (blockIndex c + 1) mod maxBlockNum c = 0 then 0 else devicePopCount c)"
  "isDeviceStuck (SwitchToNextBlock c) =
     (if (blockIndex c + 1) mod maxBlockNum c = 0 then devicePopCount c = 0 else isDeviceStuck c)"
  "stuckDeviceNum (SwitchToNextBlock c) =
     (if (blockIndex c + 1) mod maxBlockNum c = 0 \<and> devicePopCount c \<noteq> 0 then 0 else stuckDeviceNum c)"
  by (simp_all add: SwitchToNextBlock_def Let_def)

lemma SwitchToNextDevice_fields:
  "ques (SwitchToNextDevice c) = ques c" "deviceNum (SwitchToNextDevice c) = deviceNum c"
  "maxBlockNum (SwitchToNextDevice c) = maxBlockNum c"
  "deviceIndex (SwitchToNextDevice c) = (deviceIndex c + 1) mod deviceNum c"
  "blockIndex (SwitchToNextDevice c) = 0" "pipeIndex (SwitchToNextDevice c) = 0"
  "isBlockStuck (SwitchToNextDevice c) = False" "blockPopCount (SwitchToNextDevice c) = 0"
  "devicePopCount (SwitchToNextDevice c) = 0" "isDeviceStuck (SwitchToNextDevice c) = False"
  "stuckDeviceNum (SwitchToNextDevice c) = stuckDeviceNum c"
  by (simp_all add: SwitchToNextDevice_def)

lemma CheckCurDeviceStuck_fields:
  "ques (CheckCurDeviceStuck c) = ques c" "deviceNum (CheckCurDeviceStuck c) = deviceNum c"
  "maxBlockNum (CheckCurDeviceStuck c) = maxBlockNum c" "deviceIndex (CheckCurDeviceStuck c) = deviceIndex c"
  "blockIndex (CheckCurDeviceStuck c) = blockIndex c" "pipeIndex (CheckCurDeviceStuck c) = pipeIndex c"
  "isBlockStuck (CheckCurDeviceStuck c) = isBlockStuck c"
  "blockPopCount (CheckCurDeviceStuck c) = blockPopCount c"
  "devicePopCount (CheckCurDeviceStuck c) = devicePopCount c"
  "isDeviceStuck (CheckCurDeviceStuck c) = isDeviceStuck c"
  "stuckDeviceNum (CheckCurDeviceStuck c) = (if isDeviceStuck c then stuckDeviceNum c + 1 else 0)"
  by (simp_all add: CheckCurDeviceStuck_def)

lemma Pop_fields:
  "deviceNum (EventContainer_Pop c) = deviceNum c"
  "maxBlockNum (EventContainer_Pop c) = maxBlockNum c" "deviceIndex (EventContainer_Pop c) = deviceIndex c"
  "blockIndex (EventContainer_Pop c) = blockIndex c" "pipeIndex (EventContainer_Pop c) = pipeIndex c"
  "isBlockStuck (EventContainer_Pop c) = isBlockStuck c"
  "blockPopCount (EventContainer_Pop c) = blockPopCount c + 1"
  "devicePopCount (EventContainer_Pop c) = devicePopCount c + 1"
  "isDeviceStuck (EventContainer_Pop c) = isDeviceStuck c"
  "stuckDeviceNum (EventContainer_Pop c) = stuckDeviceNum c"
  by (simp_all add: EventContainer_Pop_def)

lemmas switch_fields [queue_simps] =
  SwitchToNextPipe_fields SwitchToNextBlock_fields SwitchToNextDevice_fields CheckCurDeviceStuck_fields
  Pop_fields

lemma switch_inv [queue_simps]:
  "ec_inv c \<Longrightarrow> ec_inv (SwitchToNextPipe c)" "ec_inv c \<Longrightarrow> ec_inv (SwitchToNextBlock c)"
  "ec_inv c \<Longrightarrow> ec_inv (SwitchToNextDevice c)" "ec_inv c \<Longrightarrow> ec_inv (CheckCurDeviceStuck c)"
  by (auto simp: ec_inv_def queue_simps)

lemma switch_queued [queue_simps]:
  "queued (SwitchToNextPipe c) = queued c" "queued (SwitchToNextBlock c) = queued c"
  "queued (SwitchToNextDevice c) = queued c" "queued (CheckCurDeviceStuck c) = queued c"
  by (intro ext queued_frame; simp add: queue_simps)+

section \<open>Properties\<close>

text \<open>
  The chunked queue is a FIFO queue: pushing any list of events and popping as many returns
  them in order and leaves the queue empty, whatever the chunk boundaries are.
\<close>
theorem SanEventQueue_fifo:
  "fst (eq.drain (length xs) (foldl SanEventQueue_Push SanEventQueue_new xs)) = xs \<and>
     SanEventQueue_Empty (snd (eq.drain (length xs) (foldl SanEventQueue_Push SanEventQueue_new xs)))"
  by (rule eq.push_drain_roundtrip)

text \<open>
  \<open>Push\<close> on a valid container appends the event (a block copy as its read and then its write)
  to the queue of its device, block and pipe, keeps every other queue and the cursor, keeps the
  container valid, and drops the event when the block or the device is out of range.
\<close>
theorem EventContainer_Push_correct:
  assumes "ec_inv c" "p \<noteq> PIPE_SIZE" "in_range c d' b' p'"
  shows "let c' = EventContainer_Push c e p b d in
     ec_inv c' \<and> same_frame c c' \<and>
     queued c' d' b' p' = queued c d' b' p' @ (if (d', b', p') = (d, b, pipe_code p) then split_event e else []) \<and>
     (b \<ge> maxBlockNum c \<or> d \<ge> deviceNum c \<longrightarrow> c' = c)"
  using EventContainer_Push_queued [OF assms] by (auto simp: Push_cases)

definition sample_event :: "PipeType \<Rightarrow> EventInfo \<Rightarrow> SanEvent" where
  "sample_event p i = \<lparr>serialNo = 0, pipe = p, eventInfo = i, timeInfo = None,
     loc = sample_loc 0 BT_AICORE, isAtomicMode = False, recordType = INVALID_RECORD_TYPE,
     closedRingStartSerialNo = 0\<rparr>"

theorem EventContainer_Push_correct_witness:
  "queued (EventContainer_Push (EventContainer_Init 2 1) (sample_event PIPE_V TIME_EVENT) PIPE_V 1 0) 0 1 1 =
     [sample_event PIPE_V TIME_EVENT]"
proof -
  have "ec_inv (EventContainer_Init 2 1)" by (rule ec_inv_Init) simp_all
  moreover have "in_range (EventContainer_Init 2 1) 0 1 1"
    by (simp add: in_range_def EventContainer_Init_def)
  moreover have "queued (EventContainer_Init 2 1) 0 1 1 = []"
    by (simp add: queued_def EventContainer_Init_def FlattenPipeIdx_def)
  ultimately show ?thesis
    using EventContainer_Push_correct [of "EventContainer_Init 2 1" PIPE_V 0 1 1
        "sample_event PIPE_V TIME_EVENT" 1 0]
    by (simp add: Let_def split_event_def sample_event_def)
qed

end
