(* ===== verification/PipeLine.thy ===== *)
theory PipeLine
  imports EventContainer "HOL-Library.While_Combinator"
begin

text \<open>
  The pipeline state machine of \<open>csrc/core/framework/pipe_line.h\<close> and \<open>.cpp\<close>. \<open>PipeLine::Run\<close>
  is the loop of \<open>PipeLine_step\<close> until \<open>EXIT\<close> or \<open>EXCEPTION\<close>; as it may run forever it is a
  \<open>while_option\<close>, so that not returning is the value \<open>None\<close>. What the state machine relies on in
  the registered event function is the locale \<open>event_handler\<close>.
\<close>

section \<open>The state machine\<close>

datatype ReturnType = PROCESS_OK | PROCESS_STALLED

datatype PipeState =
    CHECK_ALL_DEVICE | CHECK_CUR_DEVICE | CHECK_CUR_BLOCK | CHECK_CUR_PIPE | PROCESS_EVENT | EXIT | EXCEPTION

text \<open>
  The registered function works on the state of its owner and on the container, which it shares
  with the state machine.
\<close>

type_synonym 's EventFunc = "SanEvent \<Rightarrow> 's \<times> EventContainer \<Rightarrow> ReturnType \<times> 's \<times> EventContainer"

record 's PipeLine =
  client :: 's
  events :: EventContainer
  pipeState :: PipeState

definition PipeLine_new :: "'s \<Rightarrow> EventContainer \<Rightarrow> 's PipeLine" where
  "PipeLine_new s c = \<lparr>client = s, events = c, pipeState = CHECK_ALL_DEVICE\<rparr>"

definition CheckAllDevice :: "'s PipeLine \<Rightarrow> 's PipeLine" where
  "CheckAllDevice p =
     p\<lparr>pipeState := (if EventContainer_IsEmpty (events p) then EXIT else CHECK_CUR_DEVICE)\<rparr>"

definition CheckCurDevice :: "'s PipeLine \<Rightarrow> 's PipeLine" where
  "CheckCurDevice p =
     (if \<not> IsNeedSwitchNextDevice (events p) then p\<lparr>pipeState := CHECK_CUR_BLOCK\<rparr>
      else (let c = CheckCurDeviceStuck (events p)
            in if IsAllDeviceStuck c then p\<lparr>events := c, pipeState := EXCEPTION\<rparr>
               else p\<lparr>events := SwitchToNextDevice c, pipeState := CHECK_ALL_DEVICE\<rparr>))"

definition CheckCurBlock :: "'s PipeLine \<Rightarrow> 's PipeLine" where
  "CheckCurBlock p =
     (if \<not> IsNeedSwitchNextBlock (events p) then p\<lparr>pipeState := CHECK_CUR_PIPE\<rparr>
      else p\<lparr>events := SwitchToNextBlock (events p), pipeState := CHECK_CUR_DEVICE\<rparr>)"

definition CheckCurPipe :: "'s PipeLine \<Rightarrow> 's PipeLine" where
  "CheckCurPipe p =
     (if IsCurQueEmpty (events p)
      then p\<lparr>events := SwitchToNextPipe (events p), pipeState := CHECK_CUR_BLOCK\<rparr>
      else p\<lparr>pipeState := PROCESS_EVENT\<rparr>)"

definition Process :: "'s EventFunc option \<Rightarrow> 's PipeLine \<Rightarrow> 's PipeLine" where
  "Process func p =
     (let event = EventContainer_Front (events p)
      in case func of
           None \<Rightarrow> p\<lparr>pipeState := EXCEPTION\<rparr>
         | Some f \<Rightarrow>
             (case f event (client p, events p) of
                (PROCESS_OK, s, c) \<Rightarrow>
                  p\<lparr>client := s, events := EventContainer_Pop c, pipeState := CHECK_CUR_PIPE\<rparr>
              | (PROCESS_STALLED, s, c) \<Rightarrow>
                  p\<lparr>client := s, events := SwitchToNextPipe c, pipeState := CHECK_CUR_BLOCK\<rparr>))"

definition PipeLine_step :: "'s EventFunc option \<Rightarrow> 's PipeLine \<Rightarrow> 's PipeLine" where
  "PipeLine_step func p =
     (case pipeState p of
        CHECK_ALL_DEVICE \<Rightarrow> CheckAllDevice p
      | CHECK_CUR_DEVICE \<Rightarrow> CheckCurDevice p
      | CHECK_CUR_BLOCK \<Rightarrow> CheckCurBlock p
      | CHECK_CUR_PIPE \<Rightarrow> CheckCurPipe p
      | PROCESS_EVENT \<Rightarrow> Process func p
      | _ \<Rightarrow> p\<lparr>pipeState := EXCEPTION\<rparr>)"

definition running :: "'s PipeLine \<Rightarrow> bool" where
  "running p \<longleftrightarrow> pipeState p \<noteq> EXIT \<and> pipeState p \<noteq> EXCEPTION"

definition PipeLine_Run :: "'s EventFunc option \<Rightarrow> 's PipeLine \<Rightarrow> 's PipeLine option" where
  "PipeLine_Run func = while_option running (PipeLine_step func)"

lemmas step_defs = PipeLine_step_def CheckAllDevice_def CheckCurDevice_def CheckCurBlock_def
  CheckCurPipe_def Process_def

section \<open>What the event function promises\<close>

text \<open>
  A container seen at another position of its cursor, and the same content up to the cursor and
  the progress counters.
\<close>

definition at_position :: "EventContainer \<Rightarrow> nat \<Rightarrow> nat \<Rightarrow> nat \<Rightarrow> EventContainer" where
  "at_position c d b p = c\<lparr>deviceIndex := d, blockIndex := b, pipeIndex := p\<rparr>"

definition same_content :: "EventContainer \<Rightarrow> EventContainer \<Rightarrow> bool" where
  "same_content c c' \<longleftrightarrow> ques c' = ques c \<and> deviceNum c' = deviceNum c \<and> maxBlockNum c' = maxBlockNum c"

lemma same_content_queued: "same_content c c' \<Longrightarrow> queued c' = queued c"
  by (intro ext queued_frame) (simp_all add: same_content_def)

lemma same_content_in_range: "same_content c c' \<Longrightarrow> in_range c' = in_range c"
  by (intro ext) (simp add: same_content_def in_range_def)

lemma same_content_empty: "same_content c c' \<Longrightarrow> EventContainer_IsEmpty c' = EventContainer_IsEmpty c"
  by (simp add: same_content_def EventContainer_IsEmpty_def)

lemma switch_content [queue_simps]:
  "same_content c (SwitchToNextPipe c)" "same_content c (SwitchToNextBlock c)"
  "same_content c (SwitchToNextDevice c)" "same_content c (CheckCurDeviceStuck c)"
  "same_content c (SwitchToNextDevice (CheckCurDeviceStuck c))"
  by (simp_all add: same_content_def queue_simps)

lemma IsEmpty_device: "ec_inv c \<Longrightarrow> EventContainer_IsEmpty c \<Longrightarrow> IsCurDeviceEmpty c"
  using ec_inv_cursor [of c] by (simp add: IsEmpty_queued IsCurDeviceEmpty_queued in_range_def)

lemma IsEmpty_one_device: "ec_inv c \<Longrightarrow> deviceNum c = 1 \<Longrightarrow> IsCurDeviceEmpty c \<Longrightarrow> EventContainer_IsEmpty c"
  using ec_inv_cursor [of c] by (simp add: IsEmpty_queued IsCurDeviceEmpty_queued in_range_def)

lemma IsEmpty_at_cursor: "ec_inv c \<Longrightarrow> at_cursor c \<noteq> [] \<Longrightarrow> \<not> EventContainer_IsEmpty c"
  using ec_inv_cursor [of c] by (auto simp: IsEmpty_queued at_cursor_def)

text \<open>
  The contract: on a valid state the function keeps the cursor and the counters, only adds events
  behind those of the current queue, changes no queue when it stalls, and the measure \<open>work\<close> of
  the queued events goes down with every event it accepts.
\<close>

locale event_handler =
  fixes h :: "'s EventFunc"
    and valid :: "'s \<Rightarrow> EventContainer \<Rightarrow> bool"
    and work :: "EventContainer \<Rightarrow> nat"
  assumes valid_inv: "valid s c \<Longrightarrow> ec_inv c"
    and valid_content: "valid s c \<Longrightarrow> same_content c c' \<Longrightarrow> ec_inv c' \<Longrightarrow> valid s c'"
    and work_content: "same_content c c' \<Longrightarrow> work c' = work c"
    and ok_frame: "valid s c \<Longrightarrow> at_cursor c \<noteq> [] \<Longrightarrow> h (hd (at_cursor c)) (s, c) = (PROCESS_OK, s', c') \<Longrightarrow>
          same_frame c c' \<and> (\<exists>ys. at_cursor c' = at_cursor c @ ys)"
    and ok_valid: "valid s c \<Longrightarrow> at_cursor c \<noteq> [] \<Longrightarrow> h (hd (at_cursor c)) (s, c) = (PROCESS_OK, s', c') \<Longrightarrow>
          valid s' (EventContainer_Pop c')"
    and ok_work: "valid s c \<Longrightarrow> at_cursor c \<noteq> [] \<Longrightarrow> h (hd (at_cursor c)) (s, c) = (PROCESS_OK, s', c') \<Longrightarrow>
          work (EventContainer_Pop c') < work c"
    and stalled_frame: "valid s c \<Longrightarrow> at_cursor c \<noteq> [] \<Longrightarrow>
          h (hd (at_cursor c)) (s, c) = (PROCESS_STALLED, s', c') \<Longrightarrow> c' = c \<and> valid s' c"
begin

text \<open>The invariant of the loop, for any number of devices.\<close>

definition pl_inv :: "'s PipeLine \<Rightarrow> bool" where
  "pl_inv p \<longleftrightarrow>
     (let c = events p; st = pipeState p in
      valid (client p) c \<and>
      (st \<in> {CHECK_ALL_DEVICE, CHECK_CUR_BLOCK, CHECK_CUR_PIPE, PROCESS_EVENT} \<longrightarrow> \<not> isDeviceStuck c) \<and>
      (st \<in> {CHECK_CUR_PIPE, PROCESS_EVENT} \<longrightarrow> \<not> isBlockStuck c) \<and>
      (st = PROCESS_EVENT \<longrightarrow> at_cursor c \<noteq> []) \<and>
      (st \<in> {CHECK_CUR_BLOCK, CHECK_CUR_PIPE, PROCESS_EVENT} \<and> devicePopCount c = 0 \<longrightarrow>
         \<not> EventContainer_IsEmpty c) \<and>
      (st = CHECK_CUR_DEVICE \<and> isDeviceStuck c \<longrightarrow> \<not> EventContainer_IsEmpty c) \<and>
      (st \<notin> {EXIT, EXCEPTION} \<longrightarrow> stuckDeviceNum c < deviceNum c) \<and>
      (st = EXIT \<longrightarrow> EventContainer_IsEmpty c) \<and>
      (st = EXCEPTION \<longrightarrow> \<not> EventContainer_IsEmpty c))"

lemma pl_inv_ec: "pl_inv p \<Longrightarrow> ec_inv (events p)"
  by (rule valid_inv [of "client p"]) (simp add: pl_inv_def Let_def)

lemma inv_CheckAllDevice: "pl_inv p \<Longrightarrow> pipeState p = CHECK_ALL_DEVICE \<Longrightarrow> pl_inv (CheckAllDevice p)"
  by (simp add: pl_inv_def CheckAllDevice_def Let_def)

lemma inv_CheckCurDevice:
  assumes "pl_inv p" "pipeState p = CHECK_CUR_DEVICE"
  shows "pl_inv (CheckCurDevice p)"
proof (cases "IsNeedSwitchNextDevice (events p)")
  case False
  then show ?thesis
    using assms IsEmpty_device [OF valid_inv]
    by (auto simp: pl_inv_def CheckCurDevice_def Let_def IsNeedSwitchNextDevice_def)
next
  case True
  let ?c = "CheckCurDeviceStuck (events p)"
  have v: "valid (client p) (events p)" using assms by (simp add: pl_inv_def Let_def)
  then have v': "valid (client p) ?c" "valid (client p) (SwitchToNextDevice ?c)"
    using valid_inv valid_content by (meson queue_simps)+
  have "deviceIndex (events p) < deviceNum (events p)" using valid_inv [OF v] by (simp add: ec_inv_def)
  then show ?thesis
    using assms v' True
    by (auto simp: pl_inv_def CheckCurDevice_def Let_def IsAllDeviceStuck_def queue_simps
        same_content_empty [OF switch_content(4)])
qed

lemma inv_CheckCurBlock:
  assumes "pl_inv p" "pipeState p = CHECK_CUR_BLOCK"
  shows "pl_inv (CheckCurBlock p)"
proof -
  have v: "valid (client p) (events p)" using assms by (simp add: pl_inv_def Let_def)
  then have v': "valid (client p) (SwitchToNextBlock (events p))"
    using valid_inv valid_content by (meson queue_simps)
  show ?thesis
    using assms v' 
    by (auto simp: pl_inv_def CheckCurBlock_def Let_def IsNeedSwitchNextBlock_def queue_simps
        same_content_empty [OF switch_content(2)] split: if_splits)
qed

lemma inv_SwitchPipe:
  assumes "pl_inv p" "pipeState p \<in> {CHECK_CUR_PIPE, PROCESS_EVENT}" "valid s (events p)"
  shows "pl_inv (p\<lparr>client := s, events := SwitchToNextPipe (events p), pipeState := CHECK_CUR_BLOCK\<rparr>)"
proof -
  have "valid s (SwitchToNextPipe (events p))"
    using assms(3) valid_inv valid_content by (meson queue_simps)
  then show ?thesis
    using assms by (auto simp: pl_inv_def Let_def queue_simps same_content_empty [OF switch_content(1)])
qed

lemma inv_CheckCurPipe:
  assumes "pl_inv p" "pipeState p = CHECK_CUR_PIPE"
  shows "pl_inv (CheckCurPipe p)"
proof (cases "IsCurQueEmpty (events p)")
  case True
  then show ?thesis
    using inv_SwitchPipe [OF assms(1), of "client p"] assms
    by (simp add: CheckCurPipe_def pl_inv_def [of p] Let_def)
next
  case False
  then show ?thesis
    using assms IsCurQueEmpty_queued [OF valid_inv]
    by (auto simp: pl_inv_def CheckCurPipe_def Let_def)
qed

lemma inv_Process:
  assumes "pl_inv p" "pipeState p = PROCESS_EVENT"
  shows "pl_inv (Process (Some h) p)"
proof -
  let ?c = "events p"
  have v: "valid (client p) ?c" and ne: "at_cursor ?c \<noteq> []"
    using assms by (simp_all add: pl_inv_def Let_def)
  have f: "EventContainer_Front ?c = hd (at_cursor ?c)" by (rule Front_queued [OF valid_inv [OF v] ne])
  obtain r s' c' where h: "h (hd (at_cursor ?c)) (client p, ?c) = (r, s', c')" by (metis prod_cases3)
  show ?thesis
  proof (cases r)
    case PROCESS_OK
    have fr: "same_frame ?c c'" using ok_frame [OF v ne] h PROCESS_OK by simp
    have "valid s' (EventContainer_Pop c')" using ok_valid [OF v ne] h PROCESS_OK by simp
    then show ?thesis
      using assms h PROCESS_OK same_frame_fields [OF fr]
      by (simp add: Process_def f Let_def pl_inv_def queue_simps)
  next
    case PROCESS_STALLED
    then have "c' = ?c" "valid s' ?c" using stalled_frame [OF v ne] h by auto
    then show ?thesis
      using inv_SwitchPipe [OF assms(1), of s'] assms(2) h PROCESS_STALLED
      by (simp add: Process_def f Let_def)
  qed
qed

lemma pl_inv_step: "pl_inv p \<Longrightarrow> running p \<Longrightarrow> pl_inv (PipeLine_step (Some h) p)"
  by (cases "pipeState p")
     (simp_all add: PipeLine_step_def running_def inv_CheckAllDevice inv_CheckCurDevice inv_CheckCurBlock
       inv_CheckCurPipe inv_Process)

lemma pl_inv_new:
  "valid s c \<Longrightarrow> \<not> isDeviceStuck c \<Longrightarrow> stuckDeviceNum c < deviceNum c \<Longrightarrow> pl_inv (PipeLine_new s c)"
  by (simp add: pl_inv_def PipeLine_new_def Let_def)

lemma pl_inv_Run:
  assumes "pl_inv p" "PipeLine_Run (Some h) p = Some r"
  shows "pl_inv r \<and> \<not> running r"
  using assms while_option_rule [where P = pl_inv, OF _ assms(2) [unfolded PipeLine_Run_def] assms(1)]
    while_option_stop [of running "PipeLine_step (Some h)" p r] pl_inv_step
  unfolding PipeLine_Run_def by blast

text \<open>Progress of the loop on one device, most significant first.\<close>

definition state_rank :: "PipeState \<Rightarrow> nat" where
  "state_rank st = (case st of CHECK_ALL_DEVICE \<Rightarrow> 4 | CHECK_CUR_DEVICE \<Rightarrow> 3 | CHECK_CUR_BLOCK \<Rightarrow> 2
     | CHECK_CUR_PIPE \<Rightarrow> 1 | _ \<Rightarrow> 0)"

definition progress :: "('s PipeLine \<Rightarrow> nat) list" where
  "progress =
     [\<lambda>p. if running p then 1 else 0,
      \<lambda>p. work (events p),
      \<lambda>p. if EventContainer_IsEmpty (events p) then (if pipeState p = CHECK_ALL_DEVICE then 0 else 1) else 2,
      \<lambda>p. if isDeviceStuck (events p) then 0 else if devicePopCount (events p) = 0 then 1 else 2,
      \<lambda>p. maxBlockNum (events p) - blockIndex (events p),
      \<lambda>p. if isBlockStuck (events p) then 0 else if blockPopCount (events p) = 0 then 1 else 2,
      \<lambda>p. PIPE_NUM - pipeIndex (events p),
      \<lambda>p. state_rank (pipeState p)]"

lemma progress_CheckCurDevice:
  assumes "pl_inv p" "deviceNum (events p) = 1" "pipeState p = CHECK_CUR_DEVICE"
  shows "(CheckCurDevice p, p) \<in> measures progress"
proof (cases "IsNeedSwitchNextDevice (events p)")
  case False
  then show ?thesis
    using assms(3) by (simp add: progress_def CheckCurDevice_def running_def state_rank_def)
next
  case True
  have v: "ec_inv (events p)" by (rule pl_inv_ec [OF assms(1)])
  have s0: "stuckDeviceNum (events p) = 0" using assms by (simp add: pl_inv_def Let_def)
  show ?thesis
  proof (cases "isDeviceStuck (events p)")
    case True
    then show ?thesis
      using assms s0 \<open>IsNeedSwitchNextDevice (events p)\<close>
      by (simp add: progress_def CheckCurDevice_def running_def Let_def IsAllDeviceStuck_def queue_simps)
  next
    case False
    then have "EventContainer_IsEmpty (events p)"
      using True IsEmpty_one_device [OF v assms(2)] by (simp add: IsNeedSwitchNextDevice_def)
    then show ?thesis
      using assms False True work_content [OF switch_content(5)] same_content_empty [OF switch_content(5)]
      by (simp add: progress_def CheckCurDevice_def running_def Let_def IsAllDeviceStuck_def queue_simps)
  qed
qed

lemma progress_CheckCurBlock:
  assumes "pl_inv p" "pipeState p = CHECK_CUR_BLOCK"
  shows "(CheckCurBlock p, p) \<in> measures progress"
proof -
  have "blockIndex (events p) < maxBlockNum (events p)"
    using pl_inv_ec [OF assms(1)] by (simp add: ec_inv_def)
  then have wrap: "(blockIndex (events p) + 1) mod maxBlockNum (events p) =
      (if blockIndex (events p) + 1 = maxBlockNum (events p) then 0 else blockIndex (events p) + 1)"
    by (simp add: mod_if)
  have "\<not> isDeviceStuck (events p)" using assms by (simp add: pl_inv_def Let_def)
  then show ?thesis
    using assms(2) \<open>blockIndex (events p) < maxBlockNum (events p)\<close>
      work_content [OF switch_content(2)] same_content_empty [OF switch_content(2)]
    by (simp add: progress_def CheckCurBlock_def running_def state_rank_def queue_simps wrap [simplified]
        diff_less_mono2)
qed

lemma progress_SwitchPipe:
  assumes "pl_inv p" "pipeState p \<in> {CHECK_CUR_PIPE, PROCESS_EVENT}"
  shows "(p\<lparr>client := s, events := SwitchToNextPipe (events p), pipeState := CHECK_CUR_BLOCK\<rparr>, p)
     \<in> measures progress"
proof -
  have "pipeIndex (events p) < PIPE_NUM"
    using pl_inv_ec [OF assms(1)] by (simp add: ec_inv_def)
  then have wrap: "(pipeIndex (events p) + 1) mod PIPE_NUM =
      (if pipeIndex (events p) + 1 = PIPE_NUM then 0 else pipeIndex (events p) + 1)"
    by (simp add: mod_if)
  have "\<not> isBlockStuck (events p)" using assms by (auto simp: pl_inv_def Let_def)
  then show ?thesis
    using assms(2) \<open>pipeIndex (events p) < PIPE_NUM\<close>
      work_content [OF switch_content(1)] same_content_empty [OF switch_content(1)]
    by (auto simp: progress_def running_def queue_simps wrap [simplified] diff_less_mono2)
qed

lemma progress_Process:
  assumes "pl_inv p" "pipeState p = PROCESS_EVENT"
  shows "(Process (Some h) p, p) \<in> measures progress"
proof -
  let ?c = "events p"
  have v: "valid (client p) ?c" and ne: "at_cursor ?c \<noteq> []"
    using assms by (simp_all add: pl_inv_def Let_def)
  have f: "EventContainer_Front ?c = hd (at_cursor ?c)" by (rule Front_queued [OF valid_inv [OF v] ne])
  obtain r s' c' where h: "h (hd (at_cursor ?c)) (client p, ?c) = (r, s', c')" by (metis prod_cases3)
  show ?thesis
  proof (cases r)
    case PROCESS_OK
    then have "work (EventContainer_Pop c') < work ?c" using ok_work [OF v ne] h by simp
    then show ?thesis using h PROCESS_OK assms(2) by (simp add: Process_def f progress_def running_def)
  next
    case PROCESS_STALLED
    then have "c' = ?c" using stalled_frame [OF v ne] h by auto
    then show ?thesis
      using progress_SwitchPipe [OF assms(1), of s'] assms(2) h PROCESS_STALLED
      by (simp add: Process_def f)
  qed
qed

lemma progress_step:
  assumes "pl_inv p" "deviceNum (events p) = 1" "running p"
  shows "(PipeLine_step (Some h) p, p) \<in> measures progress"
proof (cases "pipeState p")
  case CHECK_CUR_PIPE
  show ?thesis
  proof (cases "IsCurQueEmpty (events p)")
    case True
    then show ?thesis
      using progress_SwitchPipe [OF assms(1), of "client p"] CHECK_CUR_PIPE
      by (simp add: PipeLine_step_def CheckCurPipe_def)
  next
    case False
    then show ?thesis
      using CHECK_CUR_PIPE by (simp add: PipeLine_step_def CheckCurPipe_def progress_def running_def state_rank_def)
  qed
next
  case CHECK_ALL_DEVICE
  then show ?thesis by (simp add: PipeLine_step_def CheckAllDevice_def progress_def running_def state_rank_def)
qed (use assms in \<open>simp_all add: PipeLine_step_def progress_CheckCurDevice progress_CheckCurBlock
       progress_Process running_def\<close>)

lemma deviceNum_step:
  assumes "pl_inv p" "running p"
  shows "deviceNum (events (PipeLine_step (Some h) p)) = deviceNum (events p)"
proof (cases "pipeState p = PROCESS_EVENT")
  case True
  let ?c = "events p"
  have v: "valid (client p) ?c" and ne: "at_cursor ?c \<noteq> []"
    using assms True by (simp_all add: pl_inv_def Let_def)
  have f: "EventContainer_Front ?c = hd (at_cursor ?c)" by (rule Front_queued [OF valid_inv [OF v] ne])
  obtain r s' c' where h: "h (hd (at_cursor ?c)) (client p, ?c) = (r, s', c')" by (metis prod_cases3)
  then have "deviceNum c' = deviceNum ?c"
    using ok_frame [OF v ne] stalled_frame [OF v ne] same_frame_fields(1) by (cases r) auto
  then show ?thesis using True h by (cases r) (simp_all add: PipeLine_step_def Process_def f queue_simps)
qed (use assms in \<open>cases "pipeState p"; simp add: step_defs running_def Let_def queue_simps\<close>)

lemma Run_returns_one_device:
  assumes "pl_inv p" "deviceNum (events p) = 1"
  shows "\<exists>r. PipeLine_Run (Some h) p = Some r"
  unfolding PipeLine_Run_def
  by (rule wf_rel_while_option_Some [where P = "\<lambda>p. pl_inv p \<and> deviceNum (events p) = 1"
        and R = "measures progress"])
     (use assms in \<open>simp_all add: wf_measures progress_step pl_inv_step deviceNum_step\<close>)

end

section \<open>Deadlock reports are sound\<close>

text \<open>
  The steps from one device to another in the round-robin order.
\<close>

definition dist_back :: "nat \<Rightarrow> nat \<Rightarrow> nat \<Rightarrow> nat" where
  "dist_back n d e = (d + n - e) mod n"

lemma dist_back_cases:
  "d < n \<Longrightarrow> e < n \<Longrightarrow> dist_back n d e = (if e \<le> d then d - e else d + n - e)"
  by (auto simp: dist_back_def mod_if)

lemma dist_back_zero: "d < n \<Longrightarrow> e < n \<Longrightarrow> dist_back n d e = 0 \<longleftrightarrow> e = d"
  by (auto simp: dist_back_cases)

lemma dist_back_next:
  assumes "d < n" "e < n" "dist_back n ((d + 1) mod n) e \<noteq> 0"
  shows "dist_back n ((d + 1) mod n) e = dist_back n d e + 1"
proof (cases "d + 1 = n")
  case True
  then show ?thesis using assms dist_back_cases [of 0 n e] by (cases "e = 0") (auto simp: dist_back_cases)
next
  case False
  then have "(d + 1) mod n = d + 1" "d + 1 < n" using assms(1) by simp_all
  then show ?thesis using assms by (auto simp: dist_back_cases split: if_splits)
qed

text \<open>
  An event function that is, beside the contract, a function of the queues and the cursor, and
  leaves its own state alone when it stalls.
\<close>

locale pure_handler = event_handler +
  assumes stalled_pure: "valid s c \<Longrightarrow> at_cursor c \<noteq> [] \<Longrightarrow>
          h (hd (at_cursor c)) (s, c) = (PROCESS_STALLED, s', c') \<Longrightarrow> s' = s"
    and result_content: "same_content c c' \<Longrightarrow> deviceIndex c' = deviceIndex c \<Longrightarrow>
          blockIndex c' = blockIndex c \<Longrightarrow> pipeIndex c' = pipeIndex c \<Longrightarrow>
          fst (h e (s, c')) = fst (h e (s, c))"
begin

definition blocked :: "'a \<Rightarrow> EventContainer \<Rightarrow> nat \<Rightarrow> nat \<Rightarrow> nat \<Rightarrow> bool" where
  "blocked s c d b p \<longleftrightarrow> queued c d b p = [] \<or>
     fst (h (hd (queued c d b p)) (s, at_position c d b p)) = PROCESS_STALLED"

definition device_blocked :: "'a \<Rightarrow> EventContainer \<Rightarrow> nat \<Rightarrow> bool" where
  "device_blocked s c d \<longleftrightarrow> (\<forall>b<maxBlockNum c. \<forall>p<PIPE_NUM. blocked s c d b p)"

lemma blocked_content: "same_content c c' \<Longrightarrow> blocked s c' d b p = blocked s c d b p"
  using same_content_queued [of c c'] result_content [of "at_position c d b p" "at_position c' d b p"]
  by (simp add: blocked_def at_position_def same_content_def)

lemma device_blocked_content: "same_content c c' \<Longrightarrow> device_blocked s c' d = device_blocked s c d"
  by (simp add: device_blocked_def blocked_content) (simp add: same_content_def)

definition stuck_inv :: "'a PipeLine \<Rightarrow> bool" where
  "stuck_inv p \<longleftrightarrow>
     (let c = events p; s = client p; d = deviceIndex c in
      (devicePopCount c = 0 \<longrightarrow> (\<forall>e<deviceNum c. 1 \<le> dist_back (deviceNum c) d e \<and>
          dist_back (deviceNum c) d e \<le> stuckDeviceNum c \<longrightarrow> device_blocked s c e)) \<and>
      (devicePopCount c = 0 \<longrightarrow> (\<forall>b<blockIndex c. \<forall>p<PIPE_NUM. blocked s c d b p)) \<and>
      (blockPopCount c = 0 \<longrightarrow> (\<forall>p<pipeIndex c. blocked s c d (blockIndex c) p)) \<and>
      (isBlockStuck c \<longrightarrow> (\<forall>p<PIPE_NUM. blocked s c d (blockIndex c) p)) \<and>
      (isDeviceStuck c \<longrightarrow> device_blocked s c d \<and> devicePopCount c = 0) \<and>
      (pipeState p = EXCEPTION \<longrightarrow> (\<forall>e<deviceNum c. device_blocked s c e)))"

lemma stuck_inv_state:
  "stuck_inv p \<Longrightarrow> st \<noteq> EXCEPTION \<Longrightarrow> stuck_inv (p\<lparr>pipeState := st\<rparr>)"
  by (simp add: stuck_inv_def Let_def)

lemma stuck_inv_new:
  "\<not> isDeviceStuck c \<Longrightarrow> \<not> isBlockStuck c \<Longrightarrow> stuckDeviceNum c = 0 \<Longrightarrow> blockIndex c = 0 \<Longrightarrow>
     pipeIndex c = 0 \<Longrightarrow> stuck_inv (PipeLine_new s c)"
  by (auto simp: stuck_inv_def PipeLine_new_def Let_def)

lemma stuck_CheckCurDevice:
  assumes inv: "pl_inv p" and st: "stuck_inv p"
  shows "stuck_inv (CheckCurDevice p)"
proof (cases "isDeviceStuck (events p)")
  case False
  have "0 < deviceNum (events p)" using pl_inv_ec [OF inv] by (auto simp: ec_inv_def)
  then show ?thesis using st False
    by (auto simp: CheckCurDevice_def stuck_inv_def Let_def IsAllDeviceStuck_def queue_simps
        device_blocked_content [OF switch_content(5)] blocked_content [OF switch_content(5)])
next
  case True
  let ?c = "events p" and ?s = "client p" and ?n = "deviceNum (events p)" and ?d = "deviceIndex (events p)"
  have d: "?d < ?n" using pl_inv_ec [OF inv] by (simp add: ec_inv_def)
  have cur: "device_blocked ?s ?c ?d" and pop: "devicePopCount ?c = 0"
    using st True by (simp_all add: stuck_inv_def Let_def)
  have prev: "device_blocked ?s ?c e"
    if "e < ?n" "1 \<le> dist_back ?n ?d e" "dist_back ?n ?d e \<le> stuckDeviceNum ?c" for e
    using st pop that by (simp add: stuck_inv_def Let_def)
  show ?thesis
  proof (cases "stuckDeviceNum ?c + 1 = ?n")
    case True
    have all: "device_blocked ?s ?c e" if "e < ?n" for e
    proof (cases "e = ?d")
      case False
      have "dist_back ?n ?d e < ?n" using d by (simp add: dist_back_def)
      then show ?thesis using prev [OF that] False dist_back_zero [OF d that] True by linarith
    qed (simp add: cur)
    have "stuck_inv (p\<lparr>events := CheckCurDeviceStuck ?c, pipeState := EXCEPTION\<rparr>)"
      using st all \<open>isDeviceStuck ?c\<close>
      by (simp add: stuck_inv_def Let_def queue_simps device_blocked_content [OF switch_content(4)]
          blocked_content [OF switch_content(4)])
    then show ?thesis
      using True \<open>isDeviceStuck ?c\<close>
      by (simp add: CheckCurDevice_def Let_def IsAllDeviceStuck_def IsNeedSwitchNextDevice_def queue_simps)
  next
    case False
    have "device_blocked ?s ?c e"
      if e: "e < ?n" "1 \<le> dist_back ?n ((?d + 1) mod ?n) e" "dist_back ?n ((?d + 1) mod ?n) e \<le> stuckDeviceNum ?c + 1"
      for e
    proof (cases "e = ?d")
      case False
      have "dist_back ?n ((?d + 1) mod ?n) e = dist_back ?n ?d e + 1"
        using dist_back_next [OF d e(1)] e(2) by linarith
      then show ?thesis using prev [OF e(1)] e dist_back_zero [OF d e(1)] False by linarith
    qed (simp add: cur)
    then have "stuck_inv (p\<lparr>events := SwitchToNextDevice (CheckCurDeviceStuck ?c), pipeState := CHECK_ALL_DEVICE\<rparr>)"
      using True
      by (simp add: stuck_inv_def Let_def queue_simps device_blocked_content [OF switch_content(5)])
    then show ?thesis
      using False True
      by (simp add: CheckCurDevice_def Let_def IsAllDeviceStuck_def IsNeedSwitchNextDevice_def queue_simps)
  qed
qed

lemma stuck_CheckCurBlock:
  assumes inv: "pl_inv p" and st: "stuck_inv p"
  shows "stuck_inv (CheckCurBlock p)"
proof (cases "IsNeedSwitchNextBlock (events p)")
  case False
  then show ?thesis using stuck_inv_state [OF st] by (simp add: CheckCurBlock_def)
next
  case True
  let ?c = "events p"
  have b: "blockIndex ?c < maxBlockNum ?c" using pl_inv_ec [OF inv] by (simp add: ec_inv_def)
  have cur: "\<forall>q<PIPE_NUM. blocked (client p) ?c (deviceIndex ?c) (blockIndex ?c) q"
    using True st IsCurBlockEmpty_queued [OF pl_inv_ec [OF inv]]
    by (auto simp: IsNeedSwitchNextBlock_def stuck_inv_def Let_def blocked_def split: if_splits)
  have upto: "\<forall>b'<blockIndex ?c + 1. \<forall>q<PIPE_NUM. blocked (client p) ?c (deviceIndex ?c) b' q"
    if "devicePopCount ?c = 0"
    using st that cur by (auto simp: stuck_inv_def Let_def less_Suc_eq)
  have wrap: "(blockIndex ?c + 1) mod maxBlockNum ?c =
      (if blockIndex ?c + 1 = maxBlockNum ?c then 0 else blockIndex ?c + 1)"
    using b by (simp add: mod_if)
  have all: "device_blocked (client p) ?c (deviceIndex ?c)"
    if "devicePopCount ?c = 0" "blockIndex ?c + 1 = maxBlockNum ?c"
    using upto [OF that(1)] that(2) by (simp add: device_blocked_def)
  have "stuck_inv (p\<lparr>events := SwitchToNextBlock ?c, pipeState := CHECK_CUR_DEVICE\<rparr>)"
    using st upto all unfolding stuck_inv_def Let_def
    by (auto simp: queue_simps wrap [simplified] device_blocked_content [OF switch_content(2)]
        blocked_content [OF switch_content(2)])
  then show ?thesis using True by (simp add: CheckCurBlock_def)
qed

lemma stuck_SwitchPipe:
  assumes inv: "pl_inv p" and st: "stuck_inv p" and nb: "\<not> isBlockStuck (events p)"
    and cur: "blocked (client p) (events p) (deviceIndex (events p)) (blockIndex (events p)) (pipeIndex (events p))"
  shows "stuck_inv (p\<lparr>events := SwitchToNextPipe (events p), pipeState := CHECK_CUR_BLOCK\<rparr>)"
proof -
  let ?c = "events p"
  have "pipeIndex ?c < PIPE_NUM" using pl_inv_ec [OF inv] by (simp add: ec_inv_def)
  then have wrap: "(pipeIndex ?c + 1) mod PIPE_NUM =
      (if pipeIndex ?c + 1 = PIPE_NUM then 0 else pipeIndex ?c + 1)"
    by (simp add: mod_if)
  have upto: "\<forall>q<pipeIndex ?c + 1. blocked (client p) ?c (deviceIndex ?c) (blockIndex ?c) q"
    if "blockPopCount ?c = 0"
    using st that cur by (auto simp: stuck_inv_def Let_def less_Suc_eq)
  then have all: "\<forall>q<PIPE_NUM. blocked (client p) ?c (deviceIndex ?c) (blockIndex ?c) q"
    if "blockPopCount ?c = 0" "pipeIndex ?c + 1 = PIPE_NUM"
    using that by metis
  show ?thesis
    using st nb upto all unfolding stuck_inv_def Let_def
    by (simp add: queue_simps wrap [simplified] device_blocked_content [OF switch_content(1)]
        blocked_content [OF switch_content(1)])
qed

lemma stuck_CheckCurPipe:
  assumes inv: "pl_inv p" and st: "stuck_inv p" and state: "pipeState p = CHECK_CUR_PIPE"
  shows "stuck_inv (CheckCurPipe p)"
proof (cases "IsCurQueEmpty (events p)")
  case True
  then have "blocked (client p) (events p) (deviceIndex (events p)) (blockIndex (events p)) (pipeIndex (events p))"
    using IsCurQueEmpty_queued [OF pl_inv_ec [OF inv]] by (simp add: blocked_def at_cursor_def)
  moreover have "\<not> isBlockStuck (events p)" using inv state by (simp add: pl_inv_def Let_def)
  ultimately show ?thesis using stuck_SwitchPipe [OF inv st] True by (simp add: CheckCurPipe_def)
qed (use stuck_inv_state [OF st] in \<open>simp add: CheckCurPipe_def\<close>)

lemma stuck_Process:
  assumes inv: "pl_inv p" and st: "stuck_inv p" and state: "pipeState p = PROCESS_EVENT"
  shows "stuck_inv (Process (Some h) p)"
proof -
  let ?c = "events p"
  have v: "valid (client p) ?c" and ne: "at_cursor ?c \<noteq> []" and nb: "\<not> isBlockStuck ?c" "\<not> isDeviceStuck ?c"
    using inv state by (simp_all add: pl_inv_def Let_def)
  have f: "EventContainer_Front ?c = hd (at_cursor ?c)" by (rule Front_queued [OF valid_inv [OF v] ne])
  obtain r s' c' where h: "h (hd (at_cursor ?c)) (client p, ?c) = (r, s', c')" by (metis prod_cases3)
  show ?thesis
  proof (cases r)
    case PROCESS_OK
    have "same_frame ?c c'" using ok_frame [OF v ne] h PROCESS_OK by simp
    then show ?thesis
      using nb h PROCESS_OK same_frame_fields [of ?c c']
      by (simp add: Process_def f stuck_inv_def Let_def queue_simps)
  next
    case PROCESS_STALLED
    then have eq: "c' = ?c" "s' = client p" using stalled_frame [OF v ne] stalled_pure [OF v ne] h by auto
    have "at_position ?c (deviceIndex ?c) (blockIndex ?c) (pipeIndex ?c) = ?c" by (simp add: at_position_def)
    then have "blocked (client p) ?c (deviceIndex ?c) (blockIndex ?c) (pipeIndex ?c)"
      using h PROCESS_STALLED by (simp add: blocked_def at_cursor_def)
    then show ?thesis
      using stuck_SwitchPipe [OF inv st nb(1)] h PROCESS_STALLED eq by (simp add: Process_def f)
  qed
qed

lemma stuck_inv_step:
  assumes "pl_inv p" "stuck_inv p" "running p"
  shows "stuck_inv (PipeLine_step (Some h) p)"
  using assms stuck_inv_state [OF assms(2)]
  by (cases "pipeState p")
     (simp_all add: PipeLine_step_def running_def stuck_CheckCurDevice stuck_CheckCurBlock
       stuck_CheckCurPipe stuck_Process CheckAllDevice_def)

lemma Run_exception_blocked:
  assumes "pl_inv p" "stuck_inv p" "PipeLine_Run (Some h) p = Some r" "pipeState r = EXCEPTION"
    and "in_range (events r) d b q"
  shows "blocked (client r) (events r) d b q"
proof -
  have "pl_inv r \<and> stuck_inv r"
    using while_option_rule [where P = "\<lambda>p. pl_inv p \<and> stuck_inv p",
        OF _ assms(3) [unfolded PipeLine_Run_def]] assms(1,2) pl_inv_step stuck_inv_step by blast
  then show ?thesis
    using assms(4,5) by (simp add: stuck_inv_def Let_def device_blocked_def in_range_def)
qed

end

section \<open>A round that never ends\<close>

text \<open>
  The counter of stuck devices is reset whenever the current device is left without being stuck,
  and a device with no events left is left that way. With one such device and one that waits for
  an event that never comes, the counter alternates between 0 and 1.
\<close>

definition stall_handler :: "'s EventFunc" where
  "stall_handler e = (\<lambda>(s, c). (PROCESS_STALLED, s, c))"

definition livelock_inv :: "EventContainer \<Rightarrow> 's PipeLine \<Rightarrow> bool" where
  "livelock_inv c0 p \<longleftrightarrow>
     (let c = events p in
      same_content c0 c \<and> ec_inv c \<and> running p \<and>
      (deviceIndex c = 0 \<longrightarrow> \<not> isDeviceStuck c \<and> pipeState p \<in> {CHECK_ALL_DEVICE, CHECK_CUR_DEVICE}) \<and>
      (deviceIndex c \<noteq> 0 \<longrightarrow> stuckDeviceNum c = 0))"

lemma same_content_trans: "same_content a b \<Longrightarrow> same_content b c \<Longrightarrow> same_content a c"
  by (simp add: same_content_def)

lemma livelock_step:
  assumes two: "deviceNum c0 = 2" and idle: "\<forall>b q. in_range c0 0 b q \<longrightarrow> queued c0 0 b q = []"
    and busy: "\<not> EventContainer_IsEmpty c0" and inv: "livelock_inv c0 p"
  shows "livelock_inv c0 (PipeLine_step (Some stall_handler) p)"
proof -
  let ?c = "events p"
  have sc: "same_content c0 ?c" and ec: "ec_inv ?c" using inv by (simp_all add: livelock_inv_def Let_def)
  note trans = same_content_trans [OF sc]
  have n: "deviceNum ?c = 2" using sc two by (simp add: same_content_def)
  have d: "deviceIndex ?c < 2" using ec n by (simp add: ec_inv_def)
  have empty0: "IsCurDeviceEmpty ?c" if "deviceIndex ?c = 0"
    using idle that ec two sc same_content_queued [OF sc]
    by (simp add: IsCurDeviceEmpty_queued in_range_def same_content_def)
  have ne: "\<not> EventContainer_IsEmpty ?c" using busy same_content_empty [OF sc] by simp
  show ?thesis
  proof (cases "pipeState p")
    case CHECK_CUR_DEVICE
    have "(deviceIndex ?c + 1) mod 2 = (if deviceIndex ?c = 0 then 1 else 0)"
      using d by (cases "deviceIndex ?c = 0") (simp_all add: less_2_cases_iff)
    then show ?thesis
      using CHECK_CUR_DEVICE inv empty0 n ec sc trans [OF switch_content(5)]
      by (auto simp: livelock_inv_def Let_def step_defs running_def IsNeedSwitchNextDevice_def
          IsAllDeviceStuck_def queue_simps)
  next
    case PROCESS_EVENT
    then show ?thesis
      using inv trans [OF switch_content(1)]
      by (auto simp: livelock_inv_def Let_def step_defs running_def stall_handler_def queue_simps)
  qed (use inv ne sc trans [OF switch_content(1)] trans [OF switch_content(2)] in
       \<open>auto simp: livelock_inv_def Let_def step_defs running_def queue_simps\<close>)
qed

text \<open>
  C39. With two devices, of which the first has no events and the second waits forever, \<open>Run\<close> does
  not return: the stuck device counter never reaches the number of devices, so the state machine
  never reports the deadlock.
\<close>
theorem Run_livelock_two_devices:
  assumes "ec_inv c" "deviceNum c = 2" "deviceIndex c = 0" "\<not> isDeviceStuck c"
    and "\<forall>b q. in_range c 0 b q \<longrightarrow> queued c 0 b q = []" and "\<not> EventContainer_IsEmpty c"
  shows "PipeLine_Run (Some stall_handler) (PipeLine_new s c) = None"
proof (rule ccontr)
  assume "PipeLine_Run (Some stall_handler) (PipeLine_new s c) \<noteq> None"
  then obtain r where r: "PipeLine_Run (Some stall_handler) (PipeLine_new s c) = Some r" by auto
  have "livelock_inv c (PipeLine_new s c)"
    using assms by (simp add: livelock_inv_def PipeLine_new_def running_def same_content_def)
  then have "livelock_inv c r"
    using while_option_rule [where P = "livelock_inv c", OF _ r [unfolded PipeLine_Run_def]]
      livelock_step [OF assms(2,5,6)] by blast
  then show False
    using while_option_stop [OF r [unfolded PipeLine_Run_def]] by (simp add: livelock_inv_def Let_def)
qed

theorem Run_livelock_two_devices_witness:
  "PipeLine_Run (Some stall_handler)
     (PipeLine_new () (EventContainer_Push (EventContainer_Init 1 2) (sample_event PIPE_S TIME_EVENT) PIPE_S 0 1))
   = None"
proof (rule Run_livelock_two_devices)
  let ?init = "EventContainer_Init 1 2"
  let ?c = "EventContainer_Push ?init (sample_event PIPE_S TIME_EVENT) PIPE_S 0 1"
  have inv0: "ec_inv ?init" by (rule ec_inv_Init) simp_all
  have r: "in_range ?init 1 0 0" by (simp add: in_range_def EventContainer_Init_def)
  have ne: "PIPE_S \<noteq> PIPE_SIZE" by simp
  note push = EventContainer_Push_queued [OF inv0 ne]
  show inv: "ec_inv ?c" using push(1) [OF r, of "sample_event PIPE_S TIME_EVENT" 0 1] by simp
  have fr: "same_frame ?init ?c" by (rule push(2) [OF r])
  show "deviceNum ?c = 2" "deviceIndex ?c = 0" "\<not> isDeviceStuck ?c"
    using same_frame_fields [OF fr] by (simp_all add: EventContainer_Init_def)
  have "queued ?c 1 0 0 \<noteq> []" using push(3) [OF r, of "sample_event PIPE_S TIME_EVENT" 0 1]
    by (simp add: split_event_def sample_event_def)
  then show "\<not> EventContainer_IsEmpty ?c"
    using IsEmpty_queued [OF inv] same_frame_fields(13) [OF fr] r by blast
  have "queued ?c 0 b q = []" if "in_range ?c 0 b q" for b q
  proof -
    have r0: "in_range ?init 0 b q" using that same_frame_fields(13) [OF fr] by simp
    then have "b < 1" "q < 12" by (simp_all add: in_range_def EventContainer_Init_def)
    then have "queued ?init 0 b q = []" by (simp add: queued_def EventContainer_Init_def FlattenPipeIdx_def)
    then show ?thesis using push(3) [OF r0, of "sample_event PIPE_S TIME_EVENT" 0 1] by simp
  qed
  then show "\<forall>b q. in_range ?c 0 b q \<longrightarrow> queued ?c 0 b q = []" by blast
qed

end
