(* ===== verification/SyncStores.thy ===== *)
theory SyncStores
  imports VectorTime Events
begin

text \<open>
  The stores that pair synchronisation events: \<open>SyncEventDataBase\<close> (set/wait flags between pipes,
  \<open>csrc/core/framework/sync_event_data_base.cpp\<close>), \<open>BarrierEvent\<close> and \<open>BarrierDatabase\<close>
  (\<open>barrier_database.h\<close> and \<open>.hpp\<close>) and \<open>SignalDatabase\<close>
  (\<open>csrc/race_sanitizer/alg_framework/signal_database.cpp\<close>).
  An output parameter that is only valid when the call returns true is an option.
\<close>

section \<open>Set and wait flags between pipes\<close>

text \<open>
  The key of the store: all five members take part in its equality and its hash. The casts to
  \<open>uint8_t\<close> are those of the callers.
\<close>

record SyncEvent =
  se_srcPipe :: nat
  se_dstPipe :: nat
  se_eventId :: u8
  se_memType :: nat
  se_isRetrogress :: bool

definition SyncEvent_of :: "SyncOpInfo \<Rightarrow> SyncEvent" where
  "SyncEvent_of i = \<lparr>se_srcPipe = pipe_code (srcPipe i), se_dstPipe = pipe_code (dstPipe i),
     se_eventId = ucast (eventId i), se_memType = mem_code (sync_memType i),
     se_isRetrogress = isRetrogress i\<rparr>"

type_synonym SyncEventDataBase = "SyncEvent \<rightharpoonup> VectorTime list"

definition pending :: "('k \<rightharpoonup> 'v list) \<Rightarrow> 'k \<Rightarrow> 'v list" where
  "pending db k = (case db k of None \<Rightarrow> [] | Some q \<Rightarrow> q)"

definition SyncEventDataBase_Set :: "SyncEventDataBase \<Rightarrow> SyncEvent \<Rightarrow> VectorTime \<Rightarrow> SyncEventDataBase" where
  "SyncEventDataBase_Set db e t = db(e \<mapsto> pending db e @ [t])"

definition SyncEventDataBase_Get :: "SyncEventDataBase \<Rightarrow> SyncEvent \<Rightarrow> SyncEventDataBase \<times> VectorTime option" where
  "SyncEventDataBase_Get db e =
     (case db e of
        None \<Rightarrow> (db, None)
      | Some q \<Rightarrow> (case q of [] \<Rightarrow> (db, None) | t # q' \<Rightarrow> (db(e \<mapsto> q'), Some t)))"

lemma pending_Set: "pending (SyncEventDataBase_Set db e t) k = pending db k @ (if k = e then [t] else [])"
  by (simp add: pending_def SyncEventDataBase_Set_def)

lemma Get_pending:
  "snd (SyncEventDataBase_Get db e) = (case pending db e of [] \<Rightarrow> None | t # _ \<Rightarrow> Some t)"
  "pending (fst (SyncEventDataBase_Get db e)) k = (if k = e then tl (pending db k) else pending db k)"
  by (auto simp: SyncEventDataBase_Get_def pending_def split: option.split list.split)

lemma Get_None: "snd (SyncEventDataBase_Get db e) = None \<Longrightarrow> fst (SyncEventDataBase_Get db e) = db"
  by (auto simp: SyncEventDataBase_Get_def split: option.splits list.splits)

text \<open>The waits on one key after a sequence of sets and waits on any keys.\<close>

datatype SyncOp = OpSet SyncEvent VectorTime | OpGet SyncEvent

primrec sync_run :: "SyncEventDataBase \<Rightarrow> SyncOp list \<Rightarrow> SyncEventDataBase \<times> (SyncEvent \<times> VectorTime) list" where
  "sync_run db [] = (db, [])"
| "sync_run db (op # ops) =
     (case op of
        OpSet e t \<Rightarrow> sync_run (SyncEventDataBase_Set db e t) ops
      | OpGet e \<Rightarrow>
          (let (db', r) = SyncEventDataBase_Get db e; (db'', rs) = sync_run db' ops
           in (db'', (case r of None \<Rightarrow> rs | Some t \<Rightarrow> (e, t) # rs))))"

definition sets_of :: "SyncEvent \<Rightarrow> SyncOp list \<Rightarrow> VectorTime list" where
  "sets_of k ops = concat (map (\<lambda>op. case op of OpSet e t \<Rightarrow> (if e = k then [t] else []) | OpGet e \<Rightarrow> []) ops)"

definition gets_of :: "SyncEvent \<Rightarrow> (SyncEvent \<times> VectorTime) list \<Rightarrow> VectorTime list" where
  "gets_of k rs = map snd (filter (\<lambda>r. fst r = k) rs)"

lemma sync_run_pending:
  "gets_of k (snd (sync_run db ops)) @ pending (fst (sync_run db ops)) k = pending db k @ sets_of k ops"
proof (induction ops arbitrary: db)
  case (Cons op ops)
  show ?case
  proof (cases op)
    case (OpSet e t)
    then show ?thesis
      using Cons.IH [of "SyncEventDataBase_Set db e t"] by (simp add: pending_Set sets_of_def)
  next
    case (OpGet e)
    obtain db' r where g: "SyncEventDataBase_Get db e = (db', r)" by fastforce
    have p: "pending db k = (if k = e then (case r of None \<Rightarrow> [] | Some t \<Rightarrow> [t]) else []) @ pending db' k"
      using Get_pending [of db e] g by (auto split: list.splits)
    show ?thesis
      using Cons.IH [of db'] OpGet g p
      by (auto simp: sets_of_def gets_of_def split_beta split: option.splits)
  qed
qed (simp add: gets_of_def sets_of_def)

section \<open>Barriers\<close>

record 'w BarrierEvent =
  allReachBarrier :: bool
  vtGlobal :: VectorTime
  reachedWorkers :: "'w list"

definition BarrierEvent_new :: "'w BarrierEvent" where
  "BarrierEvent_new = \<lparr>allReachBarrier = False, vtGlobal = VectorTime_new, reachedWorkers = []\<rparr>"

definition IsAllReachBarrier :: "'w BarrierEvent \<Rightarrow> nat \<Rightarrow> bool" where
  "IsAllReachBarrier b rank \<longleftrightarrow> length (reachedWorkers b) \<ge> rank"

definition IsAllConsumeBarrier :: "'w BarrierEvent \<Rightarrow> bool" where
  "IsAllConsumeBarrier b \<longleftrightarrow> reachedWorkers b = []"

text \<open>The recording phase of \<open>Wait\<close>, and its consuming phase.\<close>

definition barrier_arrive :: "nat \<Rightarrow> 'w \<Rightarrow> VectorTime \<Rightarrow> 'w BarrierEvent \<Rightarrow> 'w BarrierEvent" where
  "barrier_arrive rank w vtSelf b =
     (let b1 = b\<lparr>reachedWorkers := List.insert w (reachedWorkers b),
                 vtGlobal := (if VectorTime_empty (vtGlobal b) then vtSelf
                              else UpdateVectorTime vtSelf (vtGlobal b))\<rparr>
      in if IsAllReachBarrier b1 rank then b1\<lparr>allReachBarrier := True\<rparr> else b1)"

definition barrier_consume :: "'w \<Rightarrow> 'w BarrierEvent \<Rightarrow> 'w BarrierEvent \<times> VectorTime option" where
  "barrier_consume w b =
     (if w \<notin> set (reachedWorkers b) then (b, None)
      else (let b1 = b\<lparr>reachedWorkers := remove1 w (reachedWorkers b)\<rparr>
            in (if IsAllConsumeBarrier b1
                then b1\<lparr>allReachBarrier := False, vtGlobal := VectorTime_clear (vtGlobal b1), reachedWorkers := []\<rparr>
                else b1,
                Some (vtGlobal b1))))"

definition BarrierEvent_Wait :: "nat \<Rightarrow> 'w \<Rightarrow> VectorTime \<Rightarrow> 'w BarrierEvent \<Rightarrow> 'w BarrierEvent \<times> VectorTime option" where
  "BarrierEvent_Wait rank w vtSelf b =
     (if \<not> allReachBarrier b
      then (let b1 = barrier_arrive rank w vtSelf b
            in if allReachBarrier b1 then barrier_consume w b1 else (b1, None))
      else barrier_consume w b)"

record CrossNpuBarrierConf =
  conf_isAIVOnly :: bool
  conf_usedDeviceNum :: nat
  conf_usedCoreNum :: nat

type_synonym ('c, 'w) BarrierDatabase = "'c \<rightharpoonup> 'w BarrierEvent"

definition BarrierDatabase_index :: "('c, 'w) BarrierDatabase \<Rightarrow> 'c \<Rightarrow> 'w BarrierEvent" where
  "BarrierDatabase_index db conf = (case db conf of None \<Rightarrow> BarrierEvent_new | Some b \<Rightarrow> b)"

definition BarrierDatabase_Wait ::
  "nat \<Rightarrow> 'c \<Rightarrow> 'w \<Rightarrow> VectorTime \<Rightarrow> ('c, 'w) BarrierDatabase \<Rightarrow> ('c, 'w) BarrierDatabase \<times> VectorTime option" where
  "BarrierDatabase_Wait rank conf w vtSelf db =
     (let (b, r) = BarrierEvent_Wait rank w vtSelf (BarrierDatabase_index db conf) in (db(conf \<mapsto> b), r))"

subsection \<open>A round of a barrier\<close>

primrec barrier_run :: "nat \<Rightarrow> ('w \<times> VectorTime) list \<Rightarrow> 'w BarrierEvent \<Rightarrow> 'w BarrierEvent \<times> VectorTime option list" where
  "barrier_run rank [] b = (b, [])"
| "barrier_run rank (c # cs) b =
     (let (b', r) = BarrierEvent_Wait rank (fst c) (snd c) b; (b'', rs) = barrier_run rank cs b' in (b'', r # rs))"

lemma barrier_run_append:
  "barrier_run rank (xs @ ys) b =
     (let (b', rs) = barrier_run rank xs b; (b'', rs') = barrier_run rank ys b' in (b'', rs @ rs'))"
  by (induction xs arbitrary: b) (simp_all add: split_beta Let_def)

lemma VectorTime_empty_clock: "VectorTime_empty t \<Longrightarrow> vt_inv t \<Longrightarrow> clock t = (\<lambda>_. 1)"
  by (auto simp: VectorTime_empty_def clock_def vt_inv_def in_entries_def split: if_splits)

lemma arrive_vt:
  assumes "vt_inv t" "vt_inv (vtGlobal b)"
  shows "vt_inv (vtGlobal (barrier_arrive rank w t b))"
    and "clock (vtGlobal (barrier_arrive rank w t b)) i = max (clock (vtGlobal b) i) (clock t i)"
proof -
  have v: "vtGlobal (barrier_arrive rank w t b) =
      (if VectorTime_empty (vtGlobal b) then t else UpdateVectorTime t (vtGlobal b))"
    by (simp add: barrier_arrive_def Let_def)
  show "vt_inv (vtGlobal (barrier_arrive rank w t b))" using assms by (auto simp: v)
  show "clock (vtGlobal (barrier_arrive rank w t b)) i = max (clock (vtGlobal b) i) (clock t i)"
    using assms clock_ge [OF assms(1), of i]
    by (auto simp: v UpdateVectorTime_clock VectorTime_empty_clock max_def)
qed

definition merged_clock :: "('w \<times> VectorTime) list \<Rightarrow> u32 \<Rightarrow> u32 \<Rightarrow> u32" where
  "merged_clock cs i = fold (\<lambda>c m. max m (clock (snd c) i)) cs"

lemma barrier_collect:
  assumes "\<forall>c\<in>set cs. vt_inv (snd c)" "vt_inv (vtGlobal b)" "\<not> allReachBarrier b"
    and "distinct (reachedWorkers b)" "card (set (reachedWorkers b) \<union> fst ` set cs) < rank"
  shows "let (b', rs) = barrier_run rank cs b in
     rs = replicate (length cs) None \<and> \<not> allReachBarrier b' \<and> distinct (reachedWorkers b') \<and>
     set (reachedWorkers b') = set (reachedWorkers b) \<union> fst ` set cs \<and> vt_inv (vtGlobal b') \<and>
     (\<forall>i. clock (vtGlobal b') i = merged_clock cs i (clock (vtGlobal b) i))"
  using assms
proof (induction cs arbitrary: b)
  case (Cons c cs)
  let ?b = "barrier_arrive rank (fst c) (snd c) b"
  have st: "reachedWorkers ?b = List.insert (fst c) (reachedWorkers b)"
    by (simp add: barrier_arrive_def Let_def)
  have "card (set (List.insert (fst c) (reachedWorkers b))) \<le> card (set (reachedWorkers b) \<union> fst ` set (c # cs))"
    by (rule card_mono) auto
  then have "length (List.insert (fst c) (reachedWorkers b)) < rank"
    using Cons.prems(4,5) distinct_card [of "List.insert (fst c) (reachedWorkers b)"] by simp
  then have nr: "\<not> allReachBarrier ?b"
    using Cons.prems(3) by (simp add: barrier_arrive_def Let_def IsAllReachBarrier_def)
  then have w: "BarrierEvent_Wait rank (fst c) (snd c) b = (?b, None)"
    using Cons.prems(3) by (simp add: BarrierEvent_Wait_def Let_def)
  have "let (b', rs) = barrier_run rank cs ?b in
     rs = replicate (length cs) None \<and> \<not> allReachBarrier b' \<and> distinct (reachedWorkers b') \<and>
     set (reachedWorkers b') = set (reachedWorkers ?b) \<union> fst ` set cs \<and> vt_inv (vtGlobal b') \<and>
     (\<forall>i. clock (vtGlobal b') i = merged_clock cs i (clock (vtGlobal ?b) i))"
    by (rule Cons.IH) (use Cons.prems nr st arrive_vt(1) in \<open>auto simp: insert_absorb\<close>)
  moreover have "clock (vtGlobal ?b) i = max (clock (vtGlobal b) i) (clock (snd c) i)" for i
    using arrive_vt(2) Cons.prems by auto
  ultimately show ?case
    using Cons.prems by (auto simp: w st split_beta Let_def merged_clock_def)
qed (simp add: merged_clock_def)

lemma barrier_drain:
  assumes "distinct (map fst us)" "set (reachedWorkers b) = fst ` set us" "distinct (reachedWorkers b)"
    and "allReachBarrier b" "us \<noteq> []"
  shows "barrier_run rank us b = (BarrierEvent_new, replicate (length us) (Some (vtGlobal b)))"
  using assms
proof (induction us arbitrary: b)
  case (Cons u us)
  have mem: "fst u \<in> set (reachedWorkers b)" using Cons.prems(2) by simp
  have s: "set (remove1 (fst u) (reachedWorkers b)) = fst ` set us"
    using Cons.prems by auto
  show ?case
  proof (cases "us = []")
    case True
    then have "remove1 (fst u) (reachedWorkers b) = []" using s by simp
    then show ?thesis
      using True mem Cons.prems(4)
      by (simp add: BarrierEvent_Wait_def barrier_consume_def IsAllConsumeBarrier_def BarrierEvent_new_def
          VectorTime_clear_new)
  next
    case False
    then have ne: "remove1 (fst u) (reachedWorkers b) \<noteq> []" using s by (metis empty_set image_is_empty set_empty2)
    then have "BarrierEvent_Wait rank (fst u) (snd u) b =
        (b\<lparr>reachedWorkers := remove1 (fst u) (reachedWorkers b)\<rparr>, Some (vtGlobal b))"
      using mem Cons.prems(4)
      by (simp add: BarrierEvent_Wait_def barrier_consume_def IsAllConsumeBarrier_def)
    then show ?thesis
      using Cons.IH [of "b\<lparr>reachedWorkers := remove1 (fst u) (reachedWorkers b)\<rparr>"] Cons.prems False s
      by simp
  qed
qed simp

lemma Max_insert_max:
  fixes a b :: "'a::linorder"
  shows "finite S \<Longrightarrow> Max (insert (max a b) S) = Max (insert a (insert b S))"
  by (cases "S = {}") (simp_all add: max.assoc)

lemma merged_clock_Max:
  assumes "\<forall>c\<in>set cs. vt_inv (snd c)" "cs \<noteq> []"
  shows "merged_clock cs i 1 = Max ((\<lambda>c. clock (snd c) i) ` set cs)"
proof -
  have fold_max: "fold (\<lambda>c m. max m (f c)) cs m = Max (insert m (f ` set cs))"
    for f :: "'a \<times> VectorTime \<Rightarrow> u32" and m and cs :: "('a \<times> VectorTime) list"
    by (induction cs arbitrary: m) (simp_all add: Max_insert_max del: Max_insert)
  let ?S = "(\<lambda>c. clock (snd c) i) ` set cs"
  have "1 \<le> Max ?S"
    using assms clock_ge by (meson Max_ge_iff finite_imageI finite_set image_eqI image_is_empty last_in_set set_empty)
  then show ?thesis using assms(2) by (simp add: merged_clock_def fold_max max_absorb2)
qed

section \<open>Signals\<close>

record SignalValue =
  signal_value :: int
  signal_vt :: VectorTime

type_synonym SignalDatabase = "u64 \<rightharpoonup> SignalValue"

definition SignalDatabase_Set :: "SignalDatabase \<Rightarrow> MstxSignalSet \<Rightarrow> VectorTime \<Rightarrow> SignalDatabase" where
  "SignalDatabase_Set db e t = db(set_addr e \<mapsto> \<lparr>signal_value = set_value e, signal_vt = t\<rparr>)"

definition SignalDatabase_Accumulate :: "SignalDatabase \<Rightarrow> MstxSignalSet \<Rightarrow> VectorTime \<Rightarrow> SignalDatabase" where
  "SignalDatabase_Accumulate db e t =
     (case db (set_addr e) of
        None \<Rightarrow> db(set_addr e \<mapsto> \<lparr>signal_value = set_value e, signal_vt = t\<rparr>)
      | Some v \<Rightarrow> db(set_addr e \<mapsto> \<lparr>signal_value = max (signal_value v) (set_value e),
                                 signal_vt = UpdateVectorTime t (signal_vt v)\<rparr>))"

primrec signal_compare :: "CompareOp \<Rightarrow> int \<Rightarrow> int \<Rightarrow> bool" where
  "signal_compare CMP_EQ a b = (a = b)"
| "signal_compare CMP_NE a b = (a \<noteq> b)"
| "signal_compare CMP_GT a b = (a > b)"
| "signal_compare CMP_GE a b = (a \<ge> b)"
| "signal_compare CMP_LT a b = (a < b)"
| "signal_compare CMP_LE a b = (a \<le> b)"

text \<open>
  \<open>Wait\<close> writes the time of the entry to its output parameter before it compares: the first
  component is the parameter after the call, the second the result.
\<close>

definition SignalDatabase_Wait :: "SignalDatabase \<Rightarrow> MstxSignalWait \<Rightarrow> VectorTime \<Rightarrow> VectorTime \<times> bool" where
  "SignalDatabase_Wait db e t =
     (case db (wait_addr e) of
        None \<Rightarrow> (t, False)
      | Some v \<Rightarrow> (signal_vt v, signal_compare (cmpOp e) (signal_value v) (cmpValue e)))"

definition accumulate_all :: "SignalDatabase \<Rightarrow> (MstxSignalSet \<times> VectorTime) list \<Rightarrow> SignalDatabase" where
  "accumulate_all db cs = foldl (\<lambda>db (e, t). SignalDatabase_Accumulate db e t) db cs"

lemma accumulate_all_entry:
  assumes "\<forall>c\<in>set cs. set_addr (fst c) = a \<and> vt_inv (snd c)" "db a = Some v" "vt_inv (signal_vt v)"
  shows "\<exists>w. accumulate_all db cs a = Some w \<and> vt_inv (signal_vt w) \<and>
     signal_value w = Max (insert (signal_value v) ((\<lambda>c. set_value (fst c)) ` set cs)) \<and>
     (\<forall>i. clock (signal_vt w) i = Max (insert (clock (signal_vt v) i) ((\<lambda>c. clock (snd c) i) ` set cs)))"
  using assms
proof (induction cs arbitrary: db v)
  case (Cons c cs)
  let ?v = "\<lparr>signal_value = max (signal_value v) (set_value (fst c)),
             signal_vt = UpdateVectorTime (snd c) (signal_vt v)\<rparr>"
  have e: "SignalDatabase_Accumulate db (fst c) (snd c) a = Some ?v"
    using Cons.prems by (simp add: SignalDatabase_Accumulate_def)
  have inv: "vt_inv (signal_vt ?v)" using Cons.prems by auto
  have cl: "clock (UpdateVectorTime (snd c) (signal_vt v)) i = max (clock (signal_vt v) i) (clock (snd c) i)" for i
    using Cons.prems by (simp add: UpdateVectorTime_clock)
  show ?case
    using Cons.IH [of "SignalDatabase_Accumulate db (fst c) (snd c)" ?v] e inv Cons.prems(1)
    by (simp add: accumulate_all_def split_beta cl Max_insert_max del: Max_insert)
qed (simp add: accumulate_all_def)

section \<open>Properties\<close>

text \<open>
  Set and wait flags pair first in, first out and never across keys: after any sequence of
  sets and waits on an empty store, the times the successful waits on a key have received are, in
  order, the first times set on that key, and the others are still pending.
\<close>
theorem SyncEventDataBase_fifo_per_key:
  "\<exists>rest. sets_of k ops = gets_of k (snd (sync_run Map.empty ops)) @ rest \<and>
     pending (fst (sync_run Map.empty ops)) k = rest"
  using sync_run_pending [of k Map.empty ops] by (simp add: pending_def [of Map.empty])

text \<open>
  A barrier of rank \<open>n\<close> holds back the workers until \<open>n\<close> different ones have arrived, in
  whatever order and however often the early ones ask again; the worker that completes the barrier
  and then every other worker pass once, all with the same time, the pointwise maximum of the times
  of all arrivals, and the barrier is then back in its initial state.
\<close>
theorem Barrier_round:
  fixes xs us :: "('w \<times> VectorTime) list"
  assumes "\<forall>c\<in>set (xs @ [c]). vt_inv (snd c)"
    and "fst c \<notin> fst ` set xs" "card (fst ` set xs) + 1 = rank"
    and "distinct (map fst us)" "fst ` set us = fst ` set xs"
  shows "\<exists>g. barrier_run rank (xs @ [c] @ us) BarrierEvent_new =
       (BarrierEvent_new, replicate (length xs) None @ replicate (length us + 1) (Some g)) \<and>
     (\<forall>i. clock g i = Max ((\<lambda>c. clock (snd c) i) ` set (xs @ [c])))"
proof -
  let ?new = "BarrierEvent_new :: 'w BarrierEvent"
  have init: "vt_inv (vtGlobal ?new)" "\<not> allReachBarrier ?new"
      "reachedWorkers ?new = []" "clock (vtGlobal ?new) = (\<lambda>_. 1)"
    by (simp_all add: BarrierEvent_new_def)
  obtain b rs where run: "barrier_run rank xs BarrierEvent_new = (b, rs)" by fastforce
  have col: "rs = replicate (length xs) None" "\<not> allReachBarrier b" "distinct (reachedWorkers b)"
      "set (reachedWorkers b) = fst ` set xs" "vt_inv (vtGlobal b)"
      "\<And>i. clock (vtGlobal b) i = merged_clock xs i 1"
    using barrier_collect [of xs BarrierEvent_new rank] assms(1,3) init run by auto
  let ?b = "barrier_arrive rank (fst c) (snd c) b"
  have arr: "reachedWorkers ?b = fst c # reachedWorkers b"
    using assms(2) col(4) by (simp add: barrier_arrive_def Let_def)
  have "length (reachedWorkers b) + 1 = rank"
    using assms(3) col(3,4) distinct_card by metis
  then have full: "allReachBarrier ?b"
    using arr by (simp add: barrier_arrive_def Let_def IsAllReachBarrier_def split: if_splits)
  let ?g = "vtGlobal ?b"
  have cl: "clock ?g i = Max ((\<lambda>c. clock (snd c) i) ` set (xs @ [c]))" for i
    using merged_clock_Max [OF assms(1), of i] arrive_vt(2) [of "snd c" b] assms(1) col(5,6)
    by (simp add: merged_clock_def)
  have drain: "barrier_run rank (c # us) ?b = (BarrierEvent_new, replicate (length us + 1) (Some ?g))"
    using barrier_drain [of "c # us" ?b rank] full arr assms(2,4,5) col(3,4) by auto
  have "barrier_run rank (c # us) b = barrier_run rank (c # us) ?b"
    using full col(2) by (simp add: BarrierEvent_Wait_def Let_def)
  then show ?thesis
    using run drain col(1) cl by (auto simp: barrier_run_append)
qed

theorem Barrier_round_witness:
  "\<exists>g. barrier_run 2 [(0::nat, UpdateLogicTime VectorTime_new 0), (0, UpdateLogicTime VectorTime_new 0),
       (1, UpdateLogicTime VectorTime_new 1), (0, VectorTime_new)] BarrierEvent_new =
     (BarrierEvent_new, [None, None, Some g, Some g]) \<and> clock g 0 = 2 \<and> clock g 1 = 2"
  using Barrier_round [of "[(0::nat, UpdateLogicTime VectorTime_new 0), (0, UpdateLogicTime VectorTime_new 0)]"
      "(1, UpdateLogicTime VectorTime_new 1)" 2 "[(0, VectorTime_new)]"]
  by (simp add: UpdateLogicTime_inv UpdateLogicTime_clock numeral_2_eq_2 max_def word_le_nat_alt
      del: barrier_run.simps) auto

text \<open>
  A counting signal never goes back: after any number of \<open>Accumulate\<close> calls on an address, the
  wait for \<open>value >= n\<close> succeeds exactly when some producer has published a value of at least \<open>n\<close>,
  and the waiter then receives the pointwise maximum of the times of all the producers.
\<close>
theorem Signal_accumulate_wait:
  assumes "cs \<noteq> []" "\<forall>c\<in>set cs. set_addr (fst c) = a \<and> vt_inv (snd c)"
    and "wait_addr w = a" "cmpOp w = CMP_GE"
  shows "let (r, ok) = SignalDatabase_Wait (accumulate_all Map.empty cs) w t in
     (ok \<longleftrightarrow> (\<exists>c\<in>set cs. set_value (fst c) \<ge> cmpValue w)) \<and>
     (\<forall>i. clock r i = Max ((\<lambda>c. clock (snd c) i) ` set cs))"
proof -
  obtain c cs' where cs: "cs = c # cs'" using assms(1) by (cases cs) auto
  let ?db = "SignalDatabase_Accumulate Map.empty (fst c) (snd c)"
  let ?v = "\<lparr>signal_value = set_value (fst c), signal_vt = snd c\<rparr>"
  have "?db a = Some ?v" using assms(2) cs by (simp add: SignalDatabase_Accumulate_def)
  with accumulate_all_entry [of cs' a ?db ?v]
  obtain v where v: "accumulate_all ?db cs' a = Some v"
      "signal_value v = Max ((\<lambda>c. set_value (fst c)) ` set cs)"
      "\<And>i. clock (signal_vt v) i = Max ((\<lambda>c. clock (snd c) i) ` set cs)"
    using assms(2) cs by auto
  have "accumulate_all Map.empty cs = accumulate_all ?db cs'"
    by (simp add: cs accumulate_all_def split_beta)
  then have "SignalDatabase_Wait (accumulate_all Map.empty cs) w t = (signal_vt v, signal_value v \<ge> cmpValue w)"
    using v(1) assms(3,4) by (simp add: SignalDatabase_Wait_def)
  then show ?thesis using v(2,3) assms(1) by (simp add: Max_ge_iff)
qed

theorem Signal_accumulate_wait_witness:
  "snd (SignalDatabase_Wait (accumulate_all Map.empty
      [(\<lparr>set_addr = 16, set_value = 3\<rparr>, VectorTime_new), (\<lparr>set_addr = 16, set_value = 1\<rparr>, VectorTime_new)])
      \<lparr>wait_addr = 16, cmpValue = 2, cmpOp = CMP_GE\<rparr> VectorTime_new)"
  using Signal_accumulate_wait [of "[(\<lparr>set_addr = 16, set_value = 3\<rparr>, VectorTime_new),
      (\<lparr>set_addr = 16, set_value = 1\<rparr>, VectorTime_new)]" 16
      "\<lparr>wait_addr = 16, cmpValue = 2, cmpOp = CMP_GE\<rparr>" VectorTime_new]
  by (simp add: split_beta)

end
