(* ===== verification/CrossCoreSync.thy ===== *)
theory CrossCoreSync
  imports RaceUnits
begin

text \<open>
  The store of cross-core synchronisation, \<open>CrossCoreSyncInfoContainer\<close> and \<open>SemCores\<close>
  (\<open>csrc/core/framework/cross_core_sync_info_container.h\<close> and \<open>.cpp\<close>): the hardware flags of the
  FFTS modes 0, 1, 2 and 4, the software flags and \<open>SyncAll\<close>, and the mstx cross-core flags.
  The code indexes its tables without a check in several places; an access outside a table, which
  is undefined in C++, has no effect in the model, and \<open>sync_slot_ok\<close> says which accesses are
  inside.
\<close>

section \<open>State\<close>

record SemCores =
  cores :: int
  semSync :: u32
  semAfterSync :: u32

definition SemCores_Wait :: "SemCores \<Rightarrow> SemCores \<times> bool" where
  "SemCores_Wait s =
     (if semSync s = 0 then (s\<lparr>semAfterSync := semAfterSync s - 1\<rparr>, True)
      else (let s1 = s\<lparr>semSync := semSync s - 1\<rparr>;
                s2 = (if semSync s1 = 0 then s1\<lparr>semAfterSync := semAfterSync s1 - 1\<rparr> else s1)
            in (s2, semSync s2 = 0)))"

text \<open>The count is returned as a \<open>uint8_t\<close>: its high bits are cut off.\<close>

definition RemainSyncAllCount :: "SemCores \<Rightarrow> u8" where
  "RemainSyncAllCount s = ucast (semSync s)"

definition SemCores_IsFinished :: "SemCores \<Rightarrow> bool" where
  "SemCores_IsFinished s \<longleftrightarrow> semSync s = 0 \<and> semAfterSync s = 0"

definition SemCores_Reset :: "int \<Rightarrow> SemCores \<Rightarrow> SemCores" where
  "SemCores_Reset n s = s\<lparr>cores := n, semSync := word_of_int n, semAfterSync := word_of_int n\<rparr>"

record BlockSyncInfo =
  setVec0 :: "VectorTime list"
  setVec1 :: "VectorTime list"
  setVec2 :: "VectorTime list"
  setVec4 :: "VectorTime list"
  waitVec :: "VectorTime list"
  intrablockwaitVec :: "VectorTime list"

definition BlockSyncInfo_new :: BlockSyncInfo where
  "BlockSyncInfo_new = \<lparr>setVec0 = [], setVec1 = [], setVec2 = [], setVec4 = [], waitVec = [],
     intrablockwaitVec = []\<rparr>"

record BlockSoftSyncInfo =
  mapVectorTime :: "int \<rightharpoonup> VectorTime"
  syncAll :: bool
  soft_pipeIdx :: nat

definition BlockSoftSyncInfo_new :: BlockSoftSyncInfo where
  "BlockSoftSyncInfo_new = \<lparr>mapVectorTime = Map.empty, syncAll = False, soft_pipeIdx = 0\<rparr>"

definition MAX_FLAG_ID :: nat where
  "MAX_FLAG_ID = 32"

record CrossCoreSyncWarnInfo =
  warn_baseEvent :: ErrorEvent
  warn_flagId :: nat

record CrossCoreSyncInfoContainer =
  ccs_maxBlockNum :: nat
  ccs_kernelType :: KernelType
  ccs_vecSubBlockDim :: nat
  blockSyncEvent :: "BlockSyncInfo list list"
  blockSoftSyncInfo :: "BlockSoftSyncInfo list"
  mstxCrossSetMap :: "u64 \<times> u64 \<rightharpoonup> VectorTime list"
  semCores :: SemCores
  flagIdWarnInfo :: "CrossCoreSyncWarnInfo list"

definition CrossCoreSync_Init :: "nat \<Rightarrow> KernelType \<Rightarrow> CrossCoreSyncInfoContainer" where
  "CrossCoreSync_Init blocks kt =
     \<lparr>ccs_maxBlockNum = blocks, ccs_kernelType = kt, ccs_vecSubBlockDim = C220_VEC_SUB_BLOCKDIM,
      blockSyncEvent = replicate blocks (replicate MAX_FLAG_ID BlockSyncInfo_new),
      blockSoftSyncInfo = replicate blocks BlockSoftSyncInfo_new,
      mstxCrossSetMap = Map.empty, semCores = \<lparr>cores = 0, semSync = 0, semAfterSync = 0\<rparr>,
      flagIdWarnInfo = []\<rparr>"

section \<open>Table access\<close>

definition sync_slot_ok :: "CrossCoreSyncInfoContainer \<Rightarrow> nat \<Rightarrow> nat \<Rightarrow> bool" where
  "sync_slot_ok c b f \<longleftrightarrow> b < length (blockSyncEvent c) \<and> f < length (blockSyncEvent c ! b)"

definition sync_at :: "CrossCoreSyncInfoContainer \<Rightarrow> nat \<Rightarrow> nat \<Rightarrow> BlockSyncInfo" where
  "sync_at c b f = (if sync_slot_ok c b f then blockSyncEvent c ! b ! f else BlockSyncInfo_new)"

definition sync_upd ::
  "nat \<Rightarrow> nat \<Rightarrow> (BlockSyncInfo \<Rightarrow> BlockSyncInfo) \<Rightarrow> CrossCoreSyncInfoContainer \<Rightarrow> CrossCoreSyncInfoContainer" where
  "sync_upd b f g c =
     (if sync_slot_ok c b f
      then c\<lparr>blockSyncEvent := (blockSyncEvent c)[b := (blockSyncEvent c ! b)[f := g (blockSyncEvent c ! b ! f)]]\<rparr>
      else c)"

definition push_set0 :: "VectorTime \<Rightarrow> BlockSyncInfo \<Rightarrow> BlockSyncInfo" where
  "push_set0 t i = i\<lparr>setVec0 := setVec0 i @ [t]\<rparr>"

definition push_set1 :: "VectorTime \<Rightarrow> BlockSyncInfo \<Rightarrow> BlockSyncInfo" where
  "push_set1 t i = i\<lparr>setVec1 := setVec1 i @ [t]\<rparr>"

definition push_set2 :: "VectorTime \<Rightarrow> BlockSyncInfo \<Rightarrow> BlockSyncInfo" where
  "push_set2 t i = i\<lparr>setVec2 := setVec2 i @ [t]\<rparr>"

definition push_set4 :: "VectorTime \<Rightarrow> BlockSyncInfo \<Rightarrow> BlockSyncInfo" where
  "push_set4 t i = i\<lparr>setVec4 := setVec4 i @ [t]\<rparr>"

definition push_wait :: "VectorTime \<Rightarrow> BlockSyncInfo \<Rightarrow> BlockSyncInfo" where
  "push_wait t i = i\<lparr>waitVec := waitVec i @ [t]\<rparr>"

definition push_intra :: "VectorTime \<Rightarrow> BlockSyncInfo \<Rightarrow> BlockSyncInfo" where
  "push_intra t i = i\<lparr>intrablockwaitVec := intrablockwaitVec i @ [t]\<rparr>"

definition pop_set0 :: "BlockSyncInfo \<Rightarrow> BlockSyncInfo" where
  "pop_set0 i = i\<lparr>setVec0 := tl (setVec0 i)\<rparr>"

definition pop_set1 :: "BlockSyncInfo \<Rightarrow> BlockSyncInfo" where
  "pop_set1 i = i\<lparr>setVec1 := tl (setVec1 i)\<rparr>"

definition pop_set2 :: "BlockSyncInfo \<Rightarrow> BlockSyncInfo" where
  "pop_set2 i = i\<lparr>setVec2 := tl (setVec2 i)\<rparr>"

definition pop_set4 :: "BlockSyncInfo \<Rightarrow> BlockSyncInfo" where
  "pop_set4 i = i\<lparr>setVec4 := tl (setVec4 i)\<rparr>"

definition pop_wait :: "BlockSyncInfo \<Rightarrow> BlockSyncInfo" where
  "pop_wait i = i\<lparr>waitVec := tl (waitVec i)\<rparr>"

definition pop_intra :: "BlockSyncInfo \<Rightarrow> BlockSyncInfo" where
  "pop_intra i = i\<lparr>intrablockwaitVec := tl (intrablockwaitVec i)\<rparr>"

lemmas slot_ops = push_set0_def push_set1_def push_set2_def push_set4_def push_wait_def push_intra_def
  pop_set0_def pop_set1_def pop_set2_def pop_set4_def pop_wait_def pop_intra_def

section \<open>Hardware flags\<close>

definition IsAIC :: "nat \<Rightarrow> KernelType \<Rightarrow> bool" where
  "IsAIC blockIdx kt =
     (if kt = KT_AICUBE then True
      else if kt = KT_MIX then blockIdx mod C220_MIX_SUB_BLOCKDIM = C220_VEC_SUB_BLOCKDIM
      else False)"

definition GetAIVCount :: "CrossCoreSyncInfoContainer \<Rightarrow> nat" where
  "GetAIVCount c =
     (if ccs_kernelType c = KT_MIX
      then ccs_maxBlockNum c div C220_MIX_SUB_BLOCKDIM * ccs_vecSubBlockDim c else ccs_maxBlockNum c)"

definition GetAICCount :: "CrossCoreSyncInfoContainer \<Rightarrow> nat" where
  "GetAICCount c =
     (if ccs_kernelType c = KT_MIX then ccs_maxBlockNum c div C220_MIX_SUB_BLOCKDIM else ccs_maxBlockNum c)"

text \<open>The blocks the loops visit: the vector blocks, and the cube blocks \<open>2, 5, 8, ...\<close>.\<close>

definition aiv_blocks :: "CrossCoreSyncInfoContainer \<Rightarrow> nat list" where
  "aiv_blocks c = filter (\<lambda>i. \<not> IsAIC i (ccs_kernelType c)) [0 ..< ccs_maxBlockNum c]"

definition aic_blocks :: "CrossCoreSyncInfoContainer \<Rightarrow> nat list" where
  "aic_blocks c = filter (\<lambda>i. i mod C220_MIX_SUB_BLOCKDIM = C220_VEC_SUB_BLOCKDIM) [0 ..< ccs_maxBlockNum c]"

text \<open>\<open>UpdateSyncInfoInMode0\<close>: take one time from every block that has one, and give the merged time to all.\<close>

fun collect_set0 :: "nat \<Rightarrow> nat list \<Rightarrow> CrossCoreSyncInfoContainer \<times> VectorTime \<Rightarrow> CrossCoreSyncInfoContainer \<times> VectorTime" where
  "collect_set0 f [] (c, t) = (c, t)"
| "collect_set0 f (i # is) (c, t) =
     (case setVec0 (sync_at c i f) of
        [] \<Rightarrow> collect_set0 f is (c, t)
      | s # _ \<Rightarrow> collect_set0 f is (sync_upd i f pop_set0 c, UpdateVectorTime s t))"

definition UpdateSyncInfoInMode0 :: "nat \<Rightarrow> nat list \<Rightarrow> CrossCoreSyncInfoContainer \<Rightarrow> CrossCoreSyncInfoContainer" where
  "UpdateSyncInfoInMode0 f blocks c =
     (let (c1, t) = collect_set0 f blocks (c, VectorTime_new)
      in fold (\<lambda>i. sync_upd i f (push_wait t)) blocks c1)"

definition SetMode0SyncInfo :: "nat \<Rightarrow> nat \<Rightarrow> VectorTime \<Rightarrow> CrossCoreSyncInfoContainer \<Rightarrow> CrossCoreSyncInfoContainer" where
  "SetMode0SyncInfo f b t c =
     (let c1 = sync_upd b f (push_set0 t) c;
          blocks = (if IsAIC b (ccs_kernelType c1) then aic_blocks c1 else aiv_blocks c1);
          setCount = length (filter (\<lambda>i. setVec0 (sync_at c1 i f) \<noteq> []) blocks);
          total = (if IsAIC b (ccs_kernelType c1) then GetAICCount c1 else GetAIVCount c1)
      in if setCount = total then UpdateSyncInfoInMode0 f blocks c1 else c1)"

text \<open>
  Block indices are \<open>uint32_t\<close>: a subtraction wraps. \<open>aiv_in_group\<close> is the other vector block of a
  group; it is meant for the vector blocks of a MIX kernel.
\<close>

definition block_minus :: "nat \<Rightarrow> nat \<Rightarrow> nat" where
  "block_minus b k = unat (of_nat b - of_nat k :: u32)"

definition aiv_in_group :: "nat \<Rightarrow> nat" where
  "aiv_in_group b =
     unat ((of_nat C220_VEC_SUB_BLOCKDIM - of_nat (b mod C220_MIX_SUB_BLOCKDIM) - 1) +
           of_nat (b div C220_MIX_SUB_BLOCKDIM * C220_MIX_SUB_BLOCKDIM) :: u32)"

definition SetMode1SyncInfo :: "nat \<Rightarrow> nat \<Rightarrow> VectorTime \<Rightarrow> CrossCoreSyncInfoContainer \<Rightarrow> CrossCoreSyncInfoContainer" where
  "SetMode1SyncInfo f b t c =
     (if IsAIC b (ccs_kernelType c) then c
      else (let peer = aiv_in_group b
            in case setVec1 (sync_at c peer f) of
                 [] \<Rightarrow> sync_upd b f (push_set1 t) c
               | s # _ \<Rightarrow>
                   (let blv = UpdateVectorTime t s
                    in sync_upd peer f (push_wait blv)
                         (sync_upd b f (push_wait blv) (sync_upd peer f pop_set1 c)))))"

definition SetMode2SyncInfo :: "nat \<Rightarrow> nat \<Rightarrow> VectorTime \<Rightarrow> nat \<Rightarrow> CrossCoreSyncInfoContainer \<Rightarrow> CrossCoreSyncInfoContainer" where
  "SetMode2SyncInfo f b t subDim c =
     (if subDim = 0 then c
      else (let c1 = sync_upd b f (push_set2 t) c in
        if subDim = 1
        then (if IsAIC b (ccs_kernelType c1)
              then (let aiv = b div C220_MIX_SUB_BLOCKDIM div C220_VEC_SUB_BLOCKDIM * C220_MIX_SUB_BLOCKDIM +
                              b div C220_MIX_SUB_BLOCKDIM mod C220_VEC_SUB_BLOCKDIM
                    in sync_upd b f pop_set2 (sync_upd aiv f (push_wait t) c1))
              else (let aic = C220_MIX_SUB_BLOCKDIM * (b div C220_MIX_SUB_BLOCKDIM * C220_VEC_SUB_BLOCKDIM +
                              b mod C220_MIX_SUB_BLOCKDIM) + C220_VEC_SUB_BLOCKDIM
                    in sync_upd b f pop_set2 (sync_upd aic f (push_wait t) c1)))
        else (if IsAIC b (ccs_kernelType c1)
              then sync_upd b f pop_set2
                     (sync_upd (block_minus b 2) f (push_wait t) (sync_upd (block_minus b 1) f (push_wait t) c1))
              else (let peer = aiv_in_group b
                    in case setVec2 (sync_at c1 peer f) of
                         [] \<Rightarrow> c1
                       | s # _ \<Rightarrow>
                           (let aic = 2 + b div C220_MIX_SUB_BLOCKDIM * C220_MIX_SUB_BLOCKDIM
                            in sync_upd peer f pop_set2 (sync_upd b f pop_set2
                                 (sync_upd aic f (push_wait (UpdateVectorTime t s)) c1)))))))"

definition AddFlagIdWarnInfo :: "nat \<Rightarrow> LocInfo \<Rightarrow> nat \<Rightarrow> CrossCoreSyncInfoContainer \<Rightarrow> CrossCoreSyncInfoContainer" where
  "AddFlagIdWarnInfo f l sn c =
     c\<lparr>flagIdWarnInfo := flagIdWarnInfo c @
        [\<lparr>warn_baseEvent = \<lparr>ee_serialNo = sn, ee_deviceId = deviceId l, ee_kernelIdx = kernelIdx l,
             ee_coreId = coreId l, ee_addr = 0, ee_fileNo = fileNo l, ee_lineNo = lineNo l,
             ee_pc = loc_pc l, ee_accessType = 0, ee_memType = 0, ee_pipeType = 0,
             ee_blockType = blockType l, ee_threadLoc = SimtThreadLocation 0 0 0 0, isSimt = False\<rparr>,
          warn_flagId = f\<rparr>]\<rparr>"

text \<open>On a vector block a flag of 16 or more keeps its low four bits, as the hardware does.\<close>

definition truncate_flag :: "CrossCoreSyncInfoContainer \<Rightarrow> nat \<Rightarrow> nat \<Rightarrow> nat" where
  "truncate_flag c b f = (if \<not> IsAIC b (ccs_kernelType c) \<and> f \<ge> 16 then f mod 16 else f)"

definition SetMode4SyncInfo ::
  "nat \<Rightarrow> nat \<Rightarrow> VectorTime \<Rightarrow> nat \<Rightarrow> LocInfo \<Rightarrow> nat \<Rightarrow> CrossCoreSyncInfoContainer \<Rightarrow> CrossCoreSyncInfoContainer" where
  "SetMode4SyncInfo sid b t subDim l sn c0 =
     (if subDim = 0 then c0
      else (let c = (if \<not> IsAIC b (ccs_kernelType c0) \<and> sid \<ge> 16 then AddFlagIdWarnInfo sid l sn c0 else c0);
                f = truncate_flag c0 b sid;
                c1 = sync_upd b f (push_set4 t) c in
        if subDim = 1
        then (if IsAIC b (ccs_kernelType c1)
              then (let aiv = b div C220_MIX_SUB_BLOCKDIM div C220_VEC_SUB_BLOCKDIM * C220_MIX_SUB_BLOCKDIM +
                              b div C220_MIX_SUB_BLOCKDIM mod C220_VEC_SUB_BLOCKDIM
                    in sync_upd b f pop_set4 (sync_upd aiv f (push_intra t) c1))
              else (let aic = C220_MIX_SUB_BLOCKDIM * (b div C220_MIX_SUB_BLOCKDIM * C220_VEC_SUB_BLOCKDIM +
                              b mod C220_MIX_SUB_BLOCKDIM) + C220_VEC_SUB_BLOCKDIM
                    in sync_upd b f pop_set4 (sync_upd aic f (push_intra t) c1)))
        else (if IsAIC b (ccs_kernelType c1)
              then (let c2 = (if f \<le> 15 then sync_upd (block_minus b 2) f (push_intra t) c1
                              else if f \<ge> 16 \<and> f \<le> 31 then sync_upd (block_minus b 1) (f - 16) (push_intra t) c1
                              else c1)
                    in sync_upd b f pop_set4 c2)
              else (let aic = 2 + b div C220_MIX_SUB_BLOCKDIM * C220_MIX_SUB_BLOCKDIM;
                        aiv0 = b div C220_MIX_SUB_BLOCKDIM * C220_MIX_SUB_BLOCKDIM;
                        c2 = (if b = aiv0 then sync_upd aic f (push_intra t) c1
                              else sync_upd aic (f + 16) (push_intra t) c1)
                    in sync_upd b f pop_set4 c2))))"

definition SetBlockSyncInfo ::
  "nat \<Rightarrow> nat \<Rightarrow> nat \<Rightarrow> VectorTime \<Rightarrow> nat \<Rightarrow> LocInfo \<Rightarrow> nat \<Rightarrow> CrossCoreSyncInfoContainer \<Rightarrow> CrossCoreSyncInfoContainer" where
  "SetBlockSyncInfo f mode b t subDim l sn c =
     (if f > MAX_FLAG_ID then c
      else if b \<ge> ccs_maxBlockNum c then c
      else if mode = 0 then SetMode0SyncInfo f b t c
      else if mode = 1 then SetMode1SyncInfo f b t c
      else if mode = 2 then SetMode2SyncInfo f b t subDim c
      else if mode = 4 then SetMode4SyncInfo f b t subDim l sn c
      else c)"

definition GetBlockSyncInfo ::
  "nat \<Rightarrow> nat \<Rightarrow> VectorTime \<Rightarrow> CrossCoreSyncInfoContainer \<Rightarrow> CrossCoreSyncInfoContainer \<times> VectorTime \<times> bool" where
  "GetBlockSyncInfo f b t c =
     (if b \<ge> ccs_maxBlockNum c then (c, t, False)
      else (case waitVec (sync_at c b f) of
              [] \<Rightarrow> (c, t, False)
            | s # _ \<Rightarrow> (sync_upd b f pop_wait c, UpdateVectorTime s t, True)))"

definition GetIntraBlockSyncInfo ::
  "nat \<Rightarrow> nat \<Rightarrow> VectorTime \<Rightarrow> CrossCoreSyncInfoContainer \<Rightarrow> CrossCoreSyncInfoContainer \<times> VectorTime \<times> bool" where
  "GetIntraBlockSyncInfo sid b t c =
     (if b \<ge> ccs_maxBlockNum c then (c, t, False)
      else (let f = truncate_flag c b sid in
            case intrablockwaitVec (sync_at c b f) of
              [] \<Rightarrow> (c, t, False)
            | s # _ \<Rightarrow> (sync_upd b f pop_intra c, UpdateVectorTime s t, True)))"

definition SetVecSubBlockDim :: "nat \<Rightarrow> CrossCoreSyncInfoContainer \<Rightarrow> CrossCoreSyncInfoContainer" where
  "SetVecSubBlockDim n c = c\<lparr>ccs_vecSubBlockDim := n\<rparr>"

definition ClearFlagIdWarnInfo :: "CrossCoreSyncInfoContainer \<Rightarrow> CrossCoreSyncInfoContainer" where
  "ClearFlagIdWarnInfo c = c\<lparr>flagIdWarnInfo := []\<rparr>"

section \<open>Software flags\<close>

definition SetBlockSoftSyncInfo :: "int \<Rightarrow> nat \<Rightarrow> VectorTime \<Rightarrow> CrossCoreSyncInfoContainer \<Rightarrow> CrossCoreSyncInfoContainer" where
  "SetBlockSoftSyncInfo eid b t c =
     (if b \<ge> ccs_maxBlockNum c then c
      else c\<lparr>blockSoftSyncInfo := (blockSoftSyncInfo c)
               [b := (blockSoftSyncInfo c ! b)\<lparr>mapVectorTime := (mapVectorTime (blockSoftSyncInfo c ! b))(eid \<mapsto> t)\<rparr>]\<rparr>)"

definition ConsumeBlockSoftSyncInfo ::
  "int \<Rightarrow> nat \<Rightarrow> VectorTime \<Rightarrow> CrossCoreSyncInfoContainer \<Rightarrow> CrossCoreSyncInfoContainer \<times> VectorTime \<times> bool" where
  "ConsumeBlockSoftSyncInfo eid b t c =
     (let i = blockSoftSyncInfo c ! b in
      case mapVectorTime i eid of
        None \<Rightarrow> (c, t, False)
      | Some s \<Rightarrow> (c\<lparr>blockSoftSyncInfo := (blockSoftSyncInfo c)[b := i\<lparr>mapVectorTime := (mapVectorTime i)(eid := None)\<rparr>]\<rparr>,
                   UpdateVectorTime s t, True))"

fun consume_first ::
  "int \<Rightarrow> nat list \<Rightarrow> VectorTime \<Rightarrow> CrossCoreSyncInfoContainer \<Rightarrow> CrossCoreSyncInfoContainer \<times> VectorTime \<times> bool" where
  "consume_first eid [] t c = (c, t, False)"
| "consume_first eid (b # bs) t c =
     (case ConsumeBlockSoftSyncInfo eid b t c of
        (c', t', True) \<Rightarrow> (c', t', True)
      | (c', t', False) \<Rightarrow> consume_first eid bs t' c')"

definition GetBlockSoftSyncInfo ::
  "int \<Rightarrow> int \<Rightarrow> VectorTime \<Rightarrow> CrossCoreSyncInfoContainer \<Rightarrow> CrossCoreSyncInfoContainer \<times> VectorTime \<times> bool" where
  "GetBlockSoftSyncInfo eid peer t c =
     (if peer \<ge> 0
      then (if nat peer \<ge> ccs_maxBlockNum c then (c, t, False) else ConsumeBlockSoftSyncInfo eid (nat peer) t c)
      else consume_first eid [0 ..< ccs_maxBlockNum c] t c)"

definition SyncAll ::
  "nat \<Rightarrow> int \<Rightarrow> nat \<Rightarrow> VectorTime \<Rightarrow> CrossCoreSyncInfoContainer \<Rightarrow> CrossCoreSyncInfoContainer \<times> VectorTime \<times> bool" where
  "SyncAll b n pipeIdx t c =
     (if n < 0 \<or> n > int (ccs_maxBlockNum c) then (c, t, False)
      else (let used = (if n = 0 then int (GetAIVCount c) else n) in
        if \<not> SemCores_IsFinished (semCores c) \<and> cores (semCores c) \<noteq> used then (c, t, False)
        else
          (let c1 = (if \<not> SemCores_IsFinished (semCores c) then c
                     else c\<lparr>semCores := SemCores_Reset used (semCores c),
                            blockSoftSyncInfo := map (\<lambda>i. i\<lparr>syncAll := False\<rparr>) (blockSoftSyncInfo c)\<rparr>);
               i = blockSoftSyncInfo c1 ! b;
               (c2, t2) =
                 (if \<not> syncAll i
                  then (c1\<lparr>blockSoftSyncInfo := (blockSoftSyncInfo c1)[b := i\<lparr>syncAll := True, soft_pipeIdx := pipeIdx\<rparr>]\<rparr>,
                        UpdateLogicTime t (of_nat pipeIdx))
                  else (c1, t))
           in if syncAll (blockSoftSyncInfo c2 ! b) \<and> RemainSyncAllCount (semCores c2) \<noteq> 0
              then (c2, t2, False)
              else (let (s, r) = SemCores_Wait (semCores c2) in (c2\<lparr>semCores := s\<rparr>, t2, r)))))"

definition UpdateSyncAllVectorTime :: "CrossCoreSyncInfoContainer \<Rightarrow> VectorTime list \<Rightarrow> VectorTime list" where
  "UpdateSyncAllVectorTime c vec =
     fold (\<lambda>i vec.
         if \<not> syncAll i then vec
         else fold (\<lambda>j vec.
                if soft_pipeIdx i = soft_pipeIdx j \<or> \<not> syncAll j then vec
                else vec[soft_pipeIdx i := UpdateVectorTime (vec ! soft_pipeIdx j) (vec ! soft_pipeIdx i)])
              (blockSoftSyncInfo c) vec)
       (blockSoftSyncInfo c) vec"

section \<open>Mstx cross-core flags\<close>

definition SetMstxCrossInfo :: "MstxCrossInfo \<Rightarrow> VectorTime \<Rightarrow> CrossCoreSyncInfoContainer \<Rightarrow> CrossCoreSyncInfoContainer" where
  "SetMstxCrossInfo i t c =
     (let k = (cross_addr i, cross_flagId i)
      in c\<lparr>mstxCrossSetMap := (mstxCrossSetMap c)
             (k \<mapsto> (case mstxCrossSetMap c k of None \<Rightarrow> [] | Some q \<Rightarrow> q) @ [t])\<rparr>)"

definition GetMstxCrossInfo ::
  "MstxCrossInfo \<Rightarrow> VectorTime \<Rightarrow> CrossCoreSyncInfoContainer \<Rightarrow> CrossCoreSyncInfoContainer \<times> VectorTime \<times> bool" where
  "GetMstxCrossInfo i t c =
     (let k = (cross_addr i, cross_flagId i)
      in case mstxCrossSetMap c k of
           None \<Rightarrow> (c, t, False)
         | Some q \<Rightarrow>
             (case q of
                [] \<Rightarrow> (c, t, True)
              | s # q' \<Rightarrow>
                  (c\<lparr>mstxCrossSetMap := (mstxCrossSetMap c)(k := (if q' = [] then None else Some q'))\<rparr>,
                   UpdateVectorTime s t, True)))"

section \<open>Facts on the tables\<close>

lemma sync_slot_ok_upd [simp]: "sync_slot_ok (sync_upd b f g c) b' f' = sync_slot_ok c b' f'"
  by (auto simp: sync_slot_ok_def sync_upd_def nth_list_update)

lemma sync_upd_fields [simp]:
  "ccs_maxBlockNum (sync_upd b f g c) = ccs_maxBlockNum c"
  "ccs_kernelType (sync_upd b f g c) = ccs_kernelType c"
  "ccs_vecSubBlockDim (sync_upd b f g c) = ccs_vecSubBlockDim c"
  "blockSoftSyncInfo (sync_upd b f g c) = blockSoftSyncInfo c"
  "mstxCrossSetMap (sync_upd b f g c) = mstxCrossSetMap c"
  "semCores (sync_upd b f g c) = semCores c" "flagIdWarnInfo (sync_upd b f g c) = flagIdWarnInfo c"
  by (simp_all add: sync_upd_def)

lemma sync_at_upd:
  "sync_at (sync_upd b f g c) b' f' =
     (if b' = b \<and> f' = f \<and> sync_slot_ok c b f then g (sync_at c b f) else sync_at c b' f')"
proof -
  have "sync_slot_ok (sync_upd b f g c) b' f' = sync_slot_ok c b' f'" by simp
  then show ?thesis
    by (auto simp: sync_at_def sync_upd_def sync_slot_ok_def nth_list_update split: if_splits)
qed

lemma aiv_blocks_upd [simp]: "aiv_blocks (sync_upd b f g c) = aiv_blocks c"
  and aic_blocks_upd [simp]: "aic_blocks (sync_upd b f g c) = aic_blocks c"
  and GetAIVCount_upd [simp]: "GetAIVCount (sync_upd b f g c) = GetAIVCount c"
  and GetAICCount_upd [simp]: "GetAICCount (sync_upd b f g c) = GetAICCount c"
  by (simp_all add: aiv_blocks_def aic_blocks_def GetAIVCount_def GetAICCount_def)

lemma unat_of_nat_32: "n < 2 ^ 32 \<Longrightarrow> unat (of_nat n :: u32) = n"
  by (simp add: unat_of_nat take_bit_nat_eq_self_iff)

lemma block_minus_eq: "k \<le> b \<Longrightarrow> b < 2 ^ 32 \<Longrightarrow> block_minus b k = b - k"
  unfolding block_minus_def
  by (metis of_nat_diff unat_of_nat_32 less_imp_diff_less)

lemma aiv_in_group_eq:
  assumes "b mod 3 < 2" "b + 1 < 2 ^ 32"
  shows "aiv_in_group b = b div 3 * 3 + (1 - b mod 3)"
proof -
  have "b div 3 * 3 \<le> b" by simp
  then have lt: "b div 3 * 3 + (1 - b mod 3) < 2 ^ 32"
    using assms div_mult_mod_eq [of b 3] by linarith
  consider "b mod 3 = 0" | "b mod 3 = 1" using assms(1) by linarith
  then have "aiv_in_group b = unat (of_nat (b div 3 * 3 + (1 - b mod 3)) :: u32)"
    by cases (simp_all add: aiv_in_group_def subblock_dims)
  then show ?thesis using unat_of_nat_32 [OF lt] by simp
qed

text \<open>A well formed container: the tables have an entry for every block and every flag.\<close>

definition ccs_inv :: "CrossCoreSyncInfoContainer \<Rightarrow> bool" where
  "ccs_inv c \<longleftrightarrow> length (blockSyncEvent c) = ccs_maxBlockNum c \<and>
     list_all (\<lambda>r. length r = MAX_FLAG_ID) (blockSyncEvent c) \<and>
     length (blockSoftSyncInfo c) = ccs_maxBlockNum c \<and> ccs_maxBlockNum c < 2 ^ 32 \<and>
     (\<forall>k q. mstxCrossSetMap c k = Some q \<longrightarrow> q \<noteq> [])"

lemma ccs_inv_Init: "blocks < 2 ^ 32 \<Longrightarrow> ccs_inv (CrossCoreSync_Init blocks kt)"
  by (simp add: ccs_inv_def CrossCoreSync_Init_def list_all_iff)

lemma ccs_inv_upd [intro]: "ccs_inv c \<Longrightarrow> ccs_inv (sync_upd b f g c)"
  by (auto simp: ccs_inv_def sync_upd_def sync_slot_ok_def list_all_length nth_list_update)

lemma slot_ok_iff: "ccs_inv c \<Longrightarrow> sync_slot_ok c b f \<longleftrightarrow> b < ccs_maxBlockNum c \<and> f < MAX_FLAG_ID"
  by (auto simp: ccs_inv_def sync_slot_ok_def list_all_length)

text \<open>
  The guard on the flag lets one flag through that has no entry in the table: 32.
\<close>
lemma flag_32_passes_guard: "ccs_inv c \<Longrightarrow> \<not> 32 > MAX_FLAG_ID \<and> \<not> sync_slot_ok c b 32"
  by (simp add: slot_ok_iff) (simp add: MAX_FLAG_ID_def)

lemma Init_at [simp]: "sync_at (CrossCoreSync_Init blocks kt) b f = BlockSyncInfo_new"
  by (auto simp: sync_at_def sync_slot_ok_def CrossCoreSync_Init_def)

text \<open>A wait that does not succeed changes nothing.\<close>

lemma wait_failed_unchanged:
  "GetBlockSyncInfo f b t c = (c', t', False) \<Longrightarrow> c' = c \<and> t' = t"
  "GetIntraBlockSyncInfo f b t c = (c', t', False) \<Longrightarrow> c' = c \<and> t' = t"
  "GetMstxCrossInfo i t c = (c', t', False) \<Longrightarrow> c' = c \<and> t' = t"
  "GetBlockSoftSyncInfo eid peer t c = (c', t', False) \<Longrightarrow> c' = c \<and> t' = t"
proof -
  have "consume_first eid bs t c = (c', t', False) \<Longrightarrow> c' = c \<and> t' = t" for bs
    by (induction bs) (auto simp: ConsumeBlockSoftSyncInfo_def Let_def split: option.splits)
  then show "GetBlockSoftSyncInfo eid peer t c = (c', t', False) \<Longrightarrow> c' = c \<and> t' = t"
    by (auto simp: GetBlockSoftSyncInfo_def ConsumeBlockSoftSyncInfo_def Let_def split: if_splits option.splits)
qed (auto simp: GetBlockSyncInfo_def GetIntraBlockSyncInfo_def GetMstxCrossInfo_def Let_def
      split: if_splits list.splits option.splits)

section \<open>Mode 0: every core of a kind meets\<close>

lemma collect_set0_step:
  assumes "distinct is" "\<forall>i\<in>set is. sync_slot_ok c i f \<and> setVec0 (sync_at c i f) = [s i]" "\<forall>i\<in>set is. vt_inv (s i)"
    and "vt_inv t"
  shows "let (c', t') = collect_set0 f is (c, t) in
     vt_inv t' \<and> (\<forall>k. clock t' k = fold (\<lambda>i m. max m (clock (s i) k)) is (clock t k)) \<and>
     (\<forall>b f'. sync_at c' b f' = (if b \<in> set is \<and> f' = f then (sync_at c b f')\<lparr>setVec0 := []\<rparr> else sync_at c b f')) \<and>
     (\<forall>b f'. sync_slot_ok c' b f' = sync_slot_ok c b f')"
  using assms
proof (induction "is" arbitrary: c t)
  case (Cons i "is")
  let ?c = "sync_upd i f pop_set0 c" and ?t = "UpdateVectorTime (s i) t"
  have step: "collect_set0 f (i # is) (c, t) = collect_set0 f is (?c, ?t)"
    using Cons.prems(2) by simp
  have "let (c', t') = collect_set0 f is (?c, ?t) in
     vt_inv t' \<and> (\<forall>k. clock t' k = fold (\<lambda>i m. max m (clock (s i) k)) is (clock ?t k)) \<and>
     (\<forall>b f'. sync_at c' b f' = (if b \<in> set is \<and> f' = f then (sync_at ?c b f')\<lparr>setVec0 := []\<rparr> else sync_at ?c b f')) \<and>
     (\<forall>b f'. sync_slot_ok c' b f' = sync_slot_ok ?c b f')"
    by (rule Cons.IH) (use Cons.prems in \<open>auto simp: sync_at_upd\<close>)
  moreover have "clock ?t k = max (clock t k) (clock (s i) k)" for k
    using Cons.prems by (simp add: UpdateVectorTime_clock)
  moreover have "sync_at ?c b f' = (if b = i \<and> f' = f then (sync_at c b f')\<lparr>setVec0 := []\<rparr> else sync_at c b f')" for b f'
    using Cons.prems by (auto simp: sync_at_upd pop_set0_def)
  ultimately show ?case
    using Cons.prems(1) by (auto simp: step split_beta Let_def simp del: collect_set0.simps)
qed simp

lemma fold_push_wait:
  "distinct is \<Longrightarrow> \<forall>i\<in>set is. sync_slot_ok c i f \<Longrightarrow>
     sync_at (fold (\<lambda>i. sync_upd i f (push_wait t)) is c) b f' =
       (if b \<in> set is \<and> f' = f then push_wait t (sync_at c b f') else sync_at c b f')"
  by (induction "is" arbitrary: c) (auto simp: sync_at_upd)

lemma fold_Max_clock:
  fixes g :: "'a \<Rightarrow> u32"
  shows "fold (\<lambda>i m. max m (g i)) is m = Max (insert m (g ` set is))"
proof (induction "is" arbitrary: m)
  case (Cons i "is")
  then show ?case by (cases "is = []") (simp_all add: max.assoc)
qed simp

text \<open>The vector blocks of a MIX kernel: two of every three.\<close>

lemma aiv_mix: "i \<in> set (aiv_blocks c) \<longleftrightarrow> i < ccs_maxBlockNum c \<and> (ccs_kernelType c = KT_MIX \<longrightarrow> i mod 3 \<noteq> 2)
     \<and> ccs_kernelType c \<noteq> KT_AICUBE"
  by (auto simp: aiv_blocks_def IsAIC_def subblock_dims)

lemma length_filter_mod3: "length (filter (\<lambda>i. i mod 3 \<noteq> 2) [0 ..< 3 * n]) = 2 * n"
proof (induction n)
  case (Suc n)
  have "[0 ..< 3 * Suc n] = [0 ..< 3 * n] @ [3 * n, 3 * n + 1, 3 * n + 2]"
    using upt_add_eq_append [of 0 "3 * n" 3] by (simp add: upt_conv_Cons numeral_3_eq_3)
  moreover have "Suc (3 * n) mod 3 = 1" "Suc (Suc (3 * n)) mod 3 = 2" by presburger+
  ultimately show ?case using Suc by simp
qed simp

lemma length_aiv_blocks_mix:
  "ccs_kernelType c = KT_MIX \<Longrightarrow> ccs_maxBlockNum c = 3 * n \<Longrightarrow> length (aiv_blocks c) = 2 * n"
  using length_filter_mod3 [of n] by (simp add: aiv_blocks_def IsAIC_def subblock_dims)

text \<open>
  The state between the first and the last set of a round on flag \<open>f\<close>: the blocks of \<open>S\<close> have
  set their time and nobody has been released.
\<close>

definition mode0_waiting :: "nat \<Rightarrow> (nat \<Rightarrow> VectorTime) \<Rightarrow> nat set \<Rightarrow> CrossCoreSyncInfoContainer \<Rightarrow> CrossCoreSyncInfoContainer \<Rightarrow> bool" where
  "mode0_waiting f s S c0 c \<longleftrightarrow>
     (\<forall>b f'. sync_at c b f' = (if b \<in> S \<and> f' = f then (sync_at c0 b f')\<lparr>setVec0 := [s b]\<rparr> else sync_at c0 b f')) \<and>
     (\<forall>b f'. sync_slot_ok c b f' = sync_slot_ok c0 b f') \<and>
     ccs_maxBlockNum c = ccs_maxBlockNum c0 \<and> ccs_kernelType c = ccs_kernelType c0 \<and>
     ccs_vecSubBlockDim c = ccs_vecSubBlockDim c0"

lemma mode0_waiting_set:
  assumes w: "mode0_waiting f s S c0 c" and b: "b \<notin> S" "sync_slot_ok c0 b f" and free: "setVec0 (sync_at c0 b f) = []"
  shows "mode0_waiting f s (insert b S) c0 (sync_upd b f (push_set0 (s b)) c)"
  using assms by (auto simp: mode0_waiting_def sync_at_upd push_set0_def)

lemma mode0_not_full:
  assumes inv: "ccs_inv c0" and f: "f < MAX_FLAG_ID" and mix: "ccs_kernelType c0 = KT_MIX" "ccs_maxBlockNum c0 = 3 * n"
      "ccs_vecSubBlockDim c0 = 2"
    and free: "\<forall>b. setVec0 (sync_at c0 b f) = []" and w: "mode0_waiting f s S c0 c"
    and S: "insert b S \<subset> set (aiv_blocks c0)" "b \<notin> S"
  shows "mode0_waiting f s (insert b S) c0 (SetMode0SyncInfo f b (s b) c)"
proof -
  let ?c = "sync_upd b f (push_set0 (s b)) c"
  have k: "ccs_kernelType c = KT_MIX" "ccs_maxBlockNum c = 3 * n" "ccs_vecSubBlockDim c = 2"
    using w mix by (simp_all add: mode0_waiting_def)
  have bl: "aiv_blocks c = aiv_blocks c0" using w by (simp add: mode0_waiting_def aiv_blocks_def)
  have aiv: "\<not> IsAIC b KT_MIX" using S(1) mix by (auto simp: aiv_blocks_def)
  have ok: "sync_slot_ok c0 b f" using S(1) f slot_ok_iff [OF inv] by (auto simp: aiv_blocks_def)
  have w': "mode0_waiting f s (insert b S) c0 ?c" using mode0_waiting_set [OF w S(2) ok] free by simp
  obtain j where j: "j \<in> set (aiv_blocks c0)" "j \<notin> insert b S" using S(1) by blast
  have "setVec0 (sync_at ?c j f) = []" using w' free j(2) by (simp add: mode0_waiting_def)
  then have "length (filter (\<lambda>i. setVec0 (sync_at ?c i f) \<noteq> []) (aiv_blocks c0)) < length (aiv_blocks c0)"
    using j(1) by (intro length_filter_less [of j]) auto
  moreover have "GetAIVCount c = length (aiv_blocks c0)"
    using length_aiv_blocks_mix [OF mix(1,2)] k by (simp add: GetAIVCount_def subblock_dims)
  ultimately show ?thesis
    using w' aiv k bl by (simp add: SetMode0SyncInfo_def Let_def)
qed

lemma mode0_full:
  assumes inv: "ccs_inv c0" and f: "f < MAX_FLAG_ID" and mix: "ccs_kernelType c0 = KT_MIX" "ccs_maxBlockNum c0 = 3 * n"
      "ccs_vecSubBlockDim c0 = 2"
    and free: "\<forall>b. setVec0 (sync_at c0 b f) = []" and w: "mode0_waiting f s S c0 c"
    and S: "insert b S = set (aiv_blocks c0)" "b \<notin> S" and vts: "\<forall>b\<in>set (aiv_blocks c0). vt_inv (s b)"
  shows "\<exists>g. vt_inv g \<and> (\<forall>k. clock g k = Max ((\<lambda>b. clock (s b) k) ` set (aiv_blocks c0))) \<and>
     (\<forall>b' f'. sync_at (SetMode0SyncInfo f b (s b) c) b' f' =
        (if b' \<in> set (aiv_blocks c0) \<and> f' = f then push_wait g (sync_at c0 b' f') else sync_at c0 b' f'))"
proof -
  let ?c = "sync_upd b f (push_set0 (s b)) c" and ?B = "aiv_blocks c0"
  have k: "ccs_kernelType c = KT_MIX" "ccs_maxBlockNum c = 3 * n" "ccs_vecSubBlockDim c = 2"
    using w mix by (simp_all add: mode0_waiting_def)
  have bl: "aiv_blocks c = ?B" using w by (simp add: mode0_waiting_def aiv_blocks_def)
  have aiv: "\<not> IsAIC b KT_MIX" using S(1) mix by (auto simp: aiv_blocks_def)
  have okB: "\<forall>i\<in>set ?B. sync_slot_ok c0 i f" using f slot_ok_iff [OF inv] by (auto simp: aiv_blocks_def)
  then have ok: "sync_slot_ok c0 b f" using S(1) by blast
  have w': "mode0_waiting f s (set ?B) c0 ?c" using mode0_waiting_set [OF w S(2) ok] free S(1) by simp
  then have all: "\<forall>i\<in>set ?B. sync_slot_ok ?c i f \<and> setVec0 (sync_at ?c i f) = [s i]"
    using okB by (simp add: mode0_waiting_def)
  then have "filter (\<lambda>i. setVec0 (sync_at ?c i f) \<noteq> []) ?B = ?B" by (simp add: filter_id_conv)
  moreover have "GetAIVCount c = length ?B"
    using length_aiv_blocks_mix [OF mix(1,2)] k by (simp add: GetAIVCount_def subblock_dims)
  ultimately have set_eq: "SetMode0SyncInfo f b (s b) c = UpdateSyncInfoInMode0 f ?B ?c"
    using aiv k bl by (simp add: SetMode0SyncInfo_def Let_def)
  have dB: "distinct ?B" by (simp add: aiv_blocks_def)
  obtain c1 g where col: "collect_set0 f ?B (?c, VectorTime_new) = (c1, g)" by fastforce
  note cs = collect_set0_step [OF dB all vts VectorTime_new_inv, unfolded col Let_def split]
  have "\<forall>i\<in>set ?B. sync_slot_ok c1 i f" using cs all by simp
  note pw = fold_push_wait [OF dB this]
  have at: "sync_at (SetMode0SyncInfo f b (s b) c) b' f' =
        (if b' \<in> set ?B \<and> f' = f then push_wait g (sync_at c0 b' f') else sync_at c0 b' f')" for b' f'
    using cs w' free
    by (auto simp: set_eq UpdateSyncInfoInMode0_def col pw mode0_waiting_def push_wait_def)
  have "1 \<le> Max ((\<lambda>b. clock (s b) k) ` set ?B)" for k
  proof -
    have "b \<in> set ?B" using S(1) by blast
    then have "1 \<le> clock (s b) k" "clock (s b) k \<le> Max ((\<lambda>b. clock (s b) k) ` set ?B)"
      using vts clock_ge by auto
    then show ?thesis by (rule order.trans)
  qed
  moreover have "set ?B \<noteq> {}" using S(1) by (metis insert_not_empty)
  ultimately have "clock g k = Max ((\<lambda>b. clock (s b) k) ` set ?B)" for k
    using cs by (simp add: fold_Max_clock max_absorb2)
  then show ?thesis using cs at by blast
qed

section \<open>Properties\<close>

text \<open>
  Mode 0 is a meeting of all the vector cores of a MIX kernel: when every vector block has set
  a free flag once, in any order, each of them has exactly one new time to wait for on that flag,
  the same for all, and it is the pointwise maximum of the times they set; no other flag and no
  cube block changes.
\<close>
theorem Mode0_all_vector_cores_meet:
  assumes "ccs_inv c" "f < MAX_FLAG_ID" "ccs_kernelType c = KT_MIX" "ccs_maxBlockNum c = 3 * n"
      "ccs_vecSubBlockDim c = 2"
    and "\<forall>b. setVec0 (sync_at c b f) = []"
    and "bs \<noteq> []" "distinct bs" "set bs = set (aiv_blocks c)" "\<forall>b\<in>set bs. vt_inv (s b)"
  shows "\<exists>g. (\<forall>k. clock g k = Max ((\<lambda>b. clock (s b) k) ` set bs)) \<and>
     (\<forall>b f'. sync_at (fold (\<lambda>b. SetMode0SyncInfo f b (s b)) bs c) b f' =
        (if b \<in> set bs \<and> f' = f then push_wait g (sync_at c b f') else sync_at c b f'))"
proof -
  obtain as z where bs: "bs = as @ [z]" using assms(7) by (metis rev_exhaust)
  have "mode0_waiting f s (set ys) c (fold (\<lambda>b. SetMode0SyncInfo f b (s b)) ys c)"
    if "\<exists>zs. as = ys @ zs" for ys
    using that
  proof (induction ys rule: rev_induct)
    case Nil
    show ?case by (simp add: mode0_waiting_def)
  next
    case (snoc y ys)
    then obtain zs where zs: "as = ys @ y # zs" by auto
    have S: "set (aiv_blocks c) = insert y (set ys) \<union> set zs \<union> {z}" using assms(9) bs zs by auto
    have d: "z \<notin> insert y (set ys)" "y \<notin> set ys" using assms(8) bs zs by auto
    have "insert y (set ys) \<subset> set (aiv_blocks c)" unfolding S using d(1) by blast
    moreover have "\<exists>zs. as = ys @ zs" using zs by blast
    ultimately show ?case
      using mode0_not_full [OF assms(1-6) snoc.IH, of y] d(2) by simp
  qed
  then have w: "mode0_waiting f s (set as) c (fold (\<lambda>b. SetMode0SyncInfo f b (s b)) as c)" by simp
  have z: "insert z (set as) = set (aiv_blocks c)" "z \<notin> set as" using assms(8,9) bs by auto
  have eq: "fold (\<lambda>b. SetMode0SyncInfo f b (s b)) bs c =
      SetMode0SyncInfo f z (s z) (fold (\<lambda>b. SetMode0SyncInfo f b (s b)) as c)"
    by (simp add: bs)
  have "\<forall>b\<in>set (aiv_blocks c). vt_inv (s b)" using assms(9,10) by blast
  from mode0_full [OF assms(1-6) w z this] show ?thesis unfolding eq assms(9) by blast
qed

definition sample_time :: "nat \<Rightarrow> VectorTime" where
  "sample_time b = UpdateLogicTime VectorTime_new (of_nat b)"

theorem Mode0_all_vector_cores_meet_witness:
  "\<exists>g. (\<forall>b. b < 2 \<longrightarrow> clock g (of_nat b) = 2) \<and>
     waitVec (sync_at (fold (\<lambda>b. SetMode0SyncInfo 5 b (sample_time b)) [1, 0] (CrossCoreSync_Init 3 KT_MIX)) 0 5) = [g]"
proof -
  let ?c = "CrossCoreSync_Init 3 KT_MIX"
  have fields: "ccs_kernelType ?c = KT_MIX" "ccs_maxBlockNum ?c = 3 * 1" "ccs_vecSubBlockDim ?c = 2"
    by (simp_all add: CrossCoreSync_Init_def subblock_dims)
  have bl: "set [1, 0] = set (aiv_blocks ?c)"
    by (auto simp: aiv_blocks_def IsAIC_def CrossCoreSync_Init_def subblock_dims)
  have inv: "ccs_inv ?c" by (rule ccs_inv_Init) simp
  have f: "5 < MAX_FLAG_ID" by (simp add: MAX_FLAG_ID_def)
  have free: "\<forall>b. setVec0 (sync_at ?c b 5) = []" by (simp add: BlockSyncInfo_new_def)
  have vts: "\<forall>b\<in>set [1, 0]. vt_inv (sample_time b)" by (simp add: sample_time_def UpdateLogicTime_inv)
  have "\<exists>g. (\<forall>k. clock g k = Max ((\<lambda>b. clock (sample_time b) k) ` set [1, 0])) \<and>
     (\<forall>b f'. sync_at (fold (\<lambda>b. SetMode0SyncInfo 5 b (sample_time b)) [1, 0] ?c) b f' =
        (if b \<in> set [1, 0] \<and> f' = 5 then push_wait g (sync_at ?c b f') else sync_at ?c b f'))"
    by (rule Mode0_all_vector_cores_meet [OF inv f fields free _ _ bl vts]) simp_all
  then obtain g where g: "\<forall>k. clock g k = Max ((\<lambda>b. clock (sample_time b) k) ` set [1, 0])"
    "\<forall>b f'. sync_at (fold (\<lambda>b. SetMode0SyncInfo 5 b (sample_time b)) [1, 0] ?c) b f' =
        (if b \<in> set [1, 0] \<and> f' = 5 then push_wait g (sync_at ?c b f') else sync_at ?c b f')"
    by blast
  have "clock g (of_nat b) = 2" if "b < 2" for b
    using g(1) that
    by (auto simp: sample_time_def UpdateLogicTime_clock less_2_cases_iff max_def word_le_nat_alt)
  moreover have "waitVec (sync_at (fold (\<lambda>b. SetMode0SyncInfo 5 b (sample_time b)) [1, 0] ?c) 0 5) = [g]"
    using g(2) by (simp add: push_wait_def BlockSyncInfo_new_def del: fold.simps)
  ultimately show ?thesis by blast
qed

text \<open>The three blocks of a group of a MIX kernel.\<close>

definition group_ok :: "CrossCoreSyncInfoContainer \<Rightarrow> nat \<Rightarrow> bool" where
  "group_ok c g \<longleftrightarrow> ccs_inv c \<and> ccs_kernelType c = KT_MIX \<and> 3 * g + 2 < ccs_maxBlockNum c"

lemma group_blocks:
  assumes "group_ok c g"
  shows "aiv_in_group (3 * g) = 3 * g + 1" "aiv_in_group (3 * g + 1) = 3 * g"
    "\<not> IsAIC (3 * g) KT_MIX" "\<not> IsAIC (3 * g + 1) KT_MIX" "IsAIC (3 * g + 2) KT_MIX"
    "block_minus (3 * g + 2) 1 = 3 * g + 1" "block_minus (3 * g + 2) 2 = 3 * g"
    "(3 * g + 1) div 3 * 3 = 3 * g"
proof -
  have lt: "3 * g + 2 < 2 ^ 32" using assms by (simp add: group_ok_def ccs_inv_def)
  have m: "3 * g mod 3 = 0" "(3 * g + 1) mod 3 = 1" "(3 * g + 2) mod 3 = 2" "3 * g div 3 = g" "(3 * g + 1) div 3 = g"
    by presburger+
  show "aiv_in_group (3 * g) = 3 * g + 1" "aiv_in_group (3 * g + 1) = 3 * g"
    using aiv_in_group_eq [of "3 * g"] aiv_in_group_eq [of "3 * g + 1"] lt m by simp_all
  show "\<not> IsAIC (3 * g) KT_MIX" "\<not> IsAIC (3 * g + 1) KT_MIX" "IsAIC (3 * g + 2) KT_MIX"
    using m by (simp_all add: IsAIC_def subblock_dims)
  show "block_minus (3 * g + 2) 1 = 3 * g + 1" "block_minus (3 * g + 2) 2 = 3 * g"
    using block_minus_eq [of 1 "3 * g + 2"] block_minus_eq [of 2 "3 * g + 2"] lt by simp_all
  show "(3 * g + 1) div 3 * 3 = 3 * g" using m by simp
qed

lemma group_slots:
  "group_ok c g \<Longrightarrow> f < MAX_FLAG_ID \<Longrightarrow>
     sync_slot_ok c (3 * g) f \<and> sync_slot_ok c (3 * g + 1) f \<and> sync_slot_ok c (3 * g + 2) f"
  using slot_ok_iff [of c] by (simp add: group_ok_def)

text \<open>
  Mode 1 pairs the two vector cores of a group: when both have set the flag, in either order,
  both can wait successfully, each wait merges the times of both, and a single set releases nobody.
\<close>
theorem Mode1_vector_pair:
  assumes "group_ok c g" "f < MAX_FLAG_ID" "(a, b) = (3 * g, 3 * g + 1) \<or> (a, b) = (3 * g + 1, 3 * g)"
    and "setVec1 (sync_at c a f) = []" "setVec1 (sync_at c b f) = []"
    and "waitVec (sync_at c a f) = []" "waitVec (sync_at c b f) = []" "vt_inv ta" "vt_inv tb"
  shows "let c1 = SetMode1SyncInfo f a ta c; c2 = SetMode1SyncInfo f b tb c1 in
     snd (snd (GetBlockSyncInfo f a t c1)) = False \<and> snd (snd (GetBlockSyncInfo f b t c1)) = False \<and>
     GetBlockSyncInfo f a t c2 = (sync_upd a f pop_wait c2, UpdateVectorTime (UpdateVectorTime tb ta) t, True) \<and>
     GetBlockSyncInfo f b t c2 = (sync_upd b f pop_wait c2, UpdateVectorTime (UpdateVectorTime tb ta) t, True)"
proof -
  have k: "ccs_kernelType c = KT_MIX" "3 * g + 2 < ccs_maxBlockNum c" using assms(1) by (simp_all add: group_ok_def)
  have ab: "aiv_in_group a = b" "aiv_in_group b = a" "a \<noteq> b" "\<not> IsAIC a KT_MIX" "\<not> IsAIC b KT_MIX"
      "sync_slot_ok c a f" "sync_slot_ok c b f" "a < ccs_maxBlockNum c" "b < ccs_maxBlockNum c"
    using assms(3) group_blocks [OF assms(1)] group_slots [OF assms(1,2)] k(2) by auto
  have c1: "SetMode1SyncInfo f a ta c = sync_upd a f (push_set1 ta) c"
    using ab k assms(5) by (simp add: SetMode1SyncInfo_def Let_def)
  show ?thesis
    using ab k assms(4-7) c1
    by (simp add: SetMode1SyncInfo_def [of f b] Let_def sync_at_upd slot_ops GetBlockSyncInfo_def)
qed

theorem Mode1_vector_pair_witness:
  "snd (snd (GetBlockSyncInfo 3 0 VectorTime_new
     (SetMode1SyncInfo 3 1 (sample_time 1) (SetMode1SyncInfo 3 0 (sample_time 0) (CrossCoreSync_Init 3 KT_MIX)))))"
proof -
  have "ccs_inv (CrossCoreSync_Init 3 KT_MIX)" by (rule ccs_inv_Init) simp
  then have g: "group_ok (CrossCoreSync_Init 3 KT_MIX) 0" by (simp add: group_ok_def CrossCoreSync_Init_def)
  show ?thesis
    using Mode1_vector_pair [OF g, of 3 0 1 "sample_time 0" "sample_time 1" VectorTime_new]
    by (simp add: Let_def MAX_FLAG_ID_def BlockSyncInfo_new_def sample_time_def UpdateLogicTime_inv)
qed

lemma Mode2_group_parts:
  assumes "group_ok c g" "f < MAX_FLAG_ID" "(a, b) = (3 * g, 3 * g + 1) \<or> (a, b) = (3 * g + 1, 3 * g)"
    and "\<forall>x\<in>{3 * g, 3 * g + 1, 3 * g + 2}. sync_at c x f = BlockSyncInfo_new"
  shows "let c1 = SetMode2SyncInfo f (3 * g + 2) tc 2 c in
       waitVec (sync_at c1 (3 * g) f) = [tc] \<and> waitVec (sync_at c1 (3 * g + 1) f) = [tc] \<and>
       waitVec (sync_at c1 (3 * g + 2) f) = [] \<and> setVec2 (sync_at c1 (3 * g + 2) f) = []"
    and "let c1 = SetMode2SyncInfo f a ta 2 c; c2 = SetMode2SyncInfo f b tb 2 c1 in
       waitVec (sync_at c1 (3 * g + 2) f) = [] \<and>
       waitVec (sync_at c2 (3 * g + 2) f) = [UpdateVectorTime tb ta] \<and>
       setVec2 (sync_at c2 a f) = [] \<and> setVec2 (sync_at c2 b f) = []"
proof -
  have k: "ccs_kernelType c = KT_MIX" using assms(1) by (simp add: group_ok_def)
  note gb = group_blocks [OF assms(1)] and gs = group_slots [OF assms(1,2)]
  show "let c1 = SetMode2SyncInfo f (3 * g + 2) tc 2 c in
       waitVec (sync_at c1 (3 * g) f) = [tc] \<and> waitVec (sync_at c1 (3 * g + 1) f) = [tc] \<and>
       waitVec (sync_at c1 (3 * g + 2) f) = [] \<and> setVec2 (sync_at c1 (3 * g + 2) f) = []"
    using k gb gs assms(4) by (simp add: SetMode2SyncInfo_def Let_def sync_at_upd slot_ops BlockSyncInfo_new_def)
  have ab: "aiv_in_group a = b" "aiv_in_group b = a" "a \<noteq> b" "\<not> IsAIC a KT_MIX" "\<not> IsAIC b KT_MIX"
      "sync_slot_ok c a f" "sync_slot_ok c b f" "sync_slot_ok c (3 * g + 2) f"
      "a \<noteq> 3 * g + 2" "b \<noteq> 3 * g + 2" "2 + b div 3 * 3 = 3 * g + 2"
      "sync_at c a f = BlockSyncInfo_new" "sync_at c b f = BlockSyncInfo_new" "sync_at c (3 * g + 2) f = BlockSyncInfo_new"
    using assms(3,4) gb gs by auto
  have c1: "SetMode2SyncInfo f a ta 2 c = sync_upd a f (push_set2 ta) c"
    using ab k by (simp add: SetMode2SyncInfo_def Let_def sync_at_upd BlockSyncInfo_new_def)
  show "let c1 = SetMode2SyncInfo f a ta 2 c; c2 = SetMode2SyncInfo f b tb 2 c1 in
       waitVec (sync_at c1 (3 * g + 2) f) = [] \<and>
       waitVec (sync_at c2 (3 * g + 2) f) = [UpdateVectorTime tb ta] \<and>
       setVec2 (sync_at c2 a f) = [] \<and> setVec2 (sync_at c2 b f) = []"
    using ab k c1 ab(9) [symmetric] ab(10) [symmetric] ab(3) [symmetric]
    by (simp add: SetMode2SyncInfo_def [of f b] Let_def sync_at_upd slot_ops BlockSyncInfo_new_def subblock_dims
        mult.commute [of g 3])
qed

text \<open>
  Mode 2 with two vector cores per cube core: a set by the cube core releases both vector
  cores of its group with its time; a set by one vector core alone releases nobody, and when the
  second vector core sets the flag the cube core is released with the merged time of both.
\<close>
theorem Mode2_group:
  assumes "group_ok c g" "f < MAX_FLAG_ID" "(a, b) = (3 * g, 3 * g + 1) \<or> (a, b) = (3 * g + 1, 3 * g)"
    and "\<forall>x\<in>{3 * g, 3 * g + 1, 3 * g + 2}. sync_at c x f = BlockSyncInfo_new"
  shows "(let c1 = SetMode2SyncInfo f (3 * g + 2) tc 2 c in
       waitVec (sync_at c1 (3 * g) f) = [tc] \<and> waitVec (sync_at c1 (3 * g + 1) f) = [tc] \<and>
       waitVec (sync_at c1 (3 * g + 2) f) = [] \<and> setVec2 (sync_at c1 (3 * g + 2) f) = []) \<and>
     (let c1 = SetMode2SyncInfo f a ta 2 c; c2 = SetMode2SyncInfo f b tb 2 c1 in
       waitVec (sync_at c1 (3 * g + 2) f) = [] \<and>
       waitVec (sync_at c2 (3 * g + 2) f) = [UpdateVectorTime tb ta] \<and>
       setVec2 (sync_at c2 a f) = [] \<and> setVec2 (sync_at c2 b f) = [])"
  using Mode2_group_parts [OF assms] by blast

lemma Init_group: "group_ok (CrossCoreSync_Init 3 KT_MIX) 0"
proof -
  have "ccs_inv (CrossCoreSync_Init 3 KT_MIX)" by (rule ccs_inv_Init) simp
  then show ?thesis by (simp add: group_ok_def CrossCoreSync_Init_def)
qed

theorem Mode2_group_witness:
  "waitVec (sync_at (SetMode2SyncInfo 7 1 (sample_time 1) 2
     (SetMode2SyncInfo 7 0 (sample_time 0) 2 (CrossCoreSync_Init 3 KT_MIX))) 2 7) =
   [UpdateVectorTime (sample_time 1) (sample_time 0)]"
  using Mode2_group [OF Init_group, of 7 0 1 "sample_time 0" "sample_time 0" "sample_time 1"]
  by (simp add: Let_def MAX_FLAG_ID_def numeral_2_eq_2)

text \<open>
  Mode 4 with two vector cores per cube core gives every vector core its own sixteen flags of
  the cube core, in both directions: a set by vector core 0 (1) on flag \<open>f < 16\<close> lets the cube core
  wait on \<open>f\<close> (\<open>f + 16\<close>) and on no other flag; a set by the cube core on \<open>f\<close> (\<open>f + 16\<close>) lets vector
  core 0 (1) wait on \<open>f\<close>; and a vector core that uses a flag of 16 to 31 uses its low four bits and
  is reported.
\<close>
theorem Mode4_flag_halves:
  assumes "group_ok c g" "f < 16" "v < 2"
    and "\<forall>b f'. intrablockwaitVec (sync_at c b f') = []"
  shows "(let c1 = SetMode4SyncInfo f (3 * g + v) t 2 l sn c in
       (\<forall>f'. intrablockwaitVec (sync_at c1 (3 * g + 2) f') = (if f' = f + 16 * v then [t] else [])) \<and>
       flagIdWarnInfo c1 = flagIdWarnInfo c) \<and>
     (let c1 = SetMode4SyncInfo (f + 16 * v) (3 * g + 2) t 2 l sn c in
       \<forall>b f'. intrablockwaitVec (sync_at c1 b f') = (if b = 3 * g + v \<and> f' = f then [t] else [])) \<and>
     (let c1 = SetMode4SyncInfo (f + 16) (3 * g + v) t 2 l sn c in
       intrablockwaitVec (sync_at c1 (3 * g + 2) (f + 16 * v)) = [t] \<and>
       map warn_flagId (flagIdWarnInfo c1) = map warn_flagId (flagIdWarnInfo c) @ [f + 16])"
proof -
  have k: "ccs_kernelType c = KT_MIX" "3 * g + 2 < ccs_maxBlockNum c" using assms(1) by (simp_all add: group_ok_def)
  note gb = group_blocks [OF assms(1)]
  have f: "f < MAX_FLAG_ID" "f + 16 < MAX_FLAG_ID" using assms(2) by (simp_all add: MAX_FLAG_ID_def)
  note gs = group_slots [OF assms(1) f(1)] group_slots [OF assms(1) f(2)]
  have warn: "sync_at (AddFlagIdWarnInfo x l sn c) b f' = sync_at c b f'"
    "sync_slot_ok (AddFlagIdWarnInfo x l sn c) b f' = sync_slot_ok c b f'"
    "ccs_kernelType (AddFlagIdWarnInfo x l sn c) = ccs_kernelType c"
    "map warn_flagId (flagIdWarnInfo (AddFlagIdWarnInfo x l sn c)) = map warn_flagId (flagIdWarnInfo c) @ [x]" for x b f'
    by (simp_all add: AddFlagIdWarnInfo_def sync_at_def sync_slot_ok_def)
  have two: "2 + g * 3 = 3 * g + 2" by simp
  consider "v = 0" | "v = 1" using assms(3) by linarith
  then show ?thesis
    using k gb gs assms(2,4) two
    by cases
       (simp_all add: SetMode4SyncInfo_def Let_def sync_at_upd slot_ops truncate_flag_def subblock_dims warn
         mult.commute [of g 3])
qed

theorem Mode4_flag_halves_witness:
  "intrablockwaitVec (sync_at (SetMode4SyncInfo 4 1 (sample_time 1) 2 (sample_loc 1 BT_AIVEC) 9
     (CrossCoreSync_Init 3 KT_MIX)) 2 20) = [sample_time 1]"
  using Mode4_flag_halves [OF Init_group, of 4 1 "sample_time 1" "sample_loc 1 BT_AIVEC" 9]
  by (simp add: Let_def BlockSyncInfo_new_def numeral_2_eq_2)

text \<open>
  C40. On a cube-only kernel mode 0 never completes: the count of the blocks that have set the flag
  runs over the blocks 2, 5, 8, ... and is compared with the number of all the blocks, so that no
  set ever adds a time to wait for, whatever has been set before.
\<close>
theorem Mode0_cube_kernel_never_releases:
  assumes "ccs_kernelType c = KT_AICUBE" "ccs_maxBlockNum c > 0"
  shows "waitVec (sync_at (SetMode0SyncInfo f b t c) b' f') = waitVec (sync_at c b' f')"
proof -
  let ?c = "sync_upd b f (push_set0 t) c"
  have "length (aic_blocks c) < length [0 ..< ccs_maxBlockNum c]"
    unfolding aic_blocks_def by (rule length_filter_less [of 0]) (use assms(2) in \<open>simp_all add: subblock_dims\<close>)
  then have "length (filter (\<lambda>i. setVec0 (sync_at ?c i f) \<noteq> []) (aic_blocks c)) < GetAICCount c"
    using assms(1) le_less_trans [OF length_filter_le] by (simp add: GetAICCount_def)
  then have "SetMode0SyncInfo f b t c = ?c"
    using assms(1) by (simp add: SetMode0SyncInfo_def Let_def IsAIC_def)
  then show ?thesis by (simp add: sync_at_upd push_set0_def)
qed

theorem Mode0_cube_kernel_never_releases_witness:
  "waitVec (sync_at (SetMode0SyncInfo 0 0 (sample_time 0) (CrossCoreSync_Init 1 KT_AICUBE)) 0 0) = []"
proof -
  have "ccs_kernelType (CrossCoreSync_Init 1 KT_AICUBE) = KT_AICUBE" "ccs_maxBlockNum (CrossCoreSync_Init 1 KT_AICUBE) > 0"
    by (simp_all add: CrossCoreSync_Init_def)
  from Mode0_cube_kernel_never_releases [OF this] show ?thesis by (simp add: BlockSyncInfo_new_def)
qed

section \<open>SyncAll\<close>

text \<open>
  The semaphore of \<open>SyncAll\<close> is only counted down when its count is already zero: between two
  resets it stays at the value of the reset.
\<close>

definition sem_idle :: "CrossCoreSyncInfoContainer \<Rightarrow> bool" where
  "sem_idle c \<longleftrightarrow> (let s = semCores c in
     SemCores_IsFinished s \<or> (RemainSyncAllCount s \<noteq> 0 \<and> semSync s = word_of_int (cores s)))"

definition sync_all_cores :: "CrossCoreSyncInfoContainer \<Rightarrow> int \<Rightarrow> int" where
  "sync_all_cores c n = (if n = 0 then int (GetAIVCount c) else n)"

lemma SyncAll_idle:
  assumes "sem_idle c" "b < length (blockSoftSyncInfo c)" "sync_all_cores c n mod 256 \<noteq> 0"
    and "SyncAll b n p t c = (c', t', r)"
  shows "\<not> r \<and> sem_idle c' \<and> length (blockSoftSyncInfo c') = length (blockSoftSyncInfo c) \<and>
     (\<forall>m. sync_all_cores c' m = sync_all_cores c m)"
proof -
  have low: "(ucast (word_of_int n :: u32) :: u8) \<noteq> 0" if "n mod 256 \<noteq> 0" for n :: int
  proof -
    have "uint (ucast (word_of_int n :: u32) :: u8) = n mod 256"
      by (simp add: unsigned_ucast_eq uint_word_of_int_eq take_bit_take_bit take_bit_eq_mod mod_mod_cancel)
    then show ?thesis using that by (metis uint_0_eq)
  qed
  have reset: "RemainSyncAllCount (SemCores_Reset (sync_all_cores c n) s) \<noteq> 0" for s
    using low [OF assms(3)] by (simp add: RemainSyncAllCount_def SemCores_Reset_def)
  show ?thesis
    using assms(1,2,4) reset [of "semCores c"]
    by (auto simp: SyncAll_def sem_idle_def Let_def sync_all_cores_def GetAIVCount_def SemCores_Reset_def
        nth_list_update split: if_splits prod.splits)
qed

primrec sync_all_run ::
  "(nat \<times> int \<times> nat \<times> VectorTime) list \<Rightarrow> CrossCoreSyncInfoContainer \<Rightarrow> bool list" where
  "sync_all_run [] c = []"
| "sync_all_run (x # xs) c =
     (let (b, n, p, t) = x; (c', t', r) = SyncAll b n p t c in r # sync_all_run xs c')"

lemma sync_all_run_idle:
  assumes "sem_idle c" "\<forall>(b, n, p, t)\<in>set xs. b < length (blockSoftSyncInfo c) \<and> sync_all_cores c n mod 256 \<noteq> 0"
  shows "True \<notin> set (sync_all_run xs c)"
  using assms
proof (induction xs arbitrary: c)
  case (Cons x xs)
  obtain b n p t where x: "x = (b, n, p, t)" by (cases x) auto
  obtain c' t' r where s: "SyncAll b n p t c = (c', t', r)" by (metis prod_cases3)
  have b: "b < length (blockSoftSyncInfo c)" "sync_all_cores c n mod 256 \<noteq> 0" using Cons.prems(2) x by auto
  note idle = SyncAll_idle [OF Cons.prems(1) b s]
  have "True \<notin> set (sync_all_run xs c')"
    by (rule Cons.IH) (use idle Cons.prems(2) in auto)
  then show ?case using idle by (simp add: x s)
qed simp

text \<open>
  C38. \<open>SyncAll\<close> never succeeds: after initialisation, in every sequence of calls whose number of
  cores is not a multiple of 256, every call returns false, even when all the cores have called it.
\<close>
theorem SyncAll_never_succeeds:
  assumes "\<forall>(b, n, p, t)\<in>set xs. b < blocks \<and> sync_all_cores (CrossCoreSync_Init blocks kt) n mod 256 \<noteq> 0"
  shows "True \<notin> set (sync_all_run xs (CrossCoreSync_Init blocks kt))"
  by (rule sync_all_run_idle)
     (use assms in \<open>auto simp: sem_idle_def CrossCoreSync_Init_def SemCores_IsFinished_def Let_def\<close>)

theorem SyncAll_never_succeeds_witness:
  "True \<notin> set (sync_all_run [(0, 2, 0, VectorTime_new), (1, 2, 12, VectorTime_new), (0, 2, 0, VectorTime_new)]
     (CrossCoreSync_Init 2 KT_AIVEC))"
  by (rule SyncAll_never_succeeds) (simp add: sync_all_cores_def)

section \<open>Mstx flags pair in order\<close>

lemma mstx_set_get:
  assumes "ccs_inv c" "mstxCrossSetMap c (cross_addr i, cross_flagId i) = None"
  shows "GetMstxCrossInfo i t (SetMstxCrossInfo i s c) = (c, UpdateVectorTime s t, True)"
  using assms by (simp add: GetMstxCrossInfo_def SetMstxCrossInfo_def Let_def fun_upd_idem_iff)

lemma mstx_inv:
  "ccs_inv c \<Longrightarrow> ccs_inv (SetMstxCrossInfo i t c)"
  "ccs_inv c \<Longrightarrow> ccs_inv (fst (GetMstxCrossInfo i t c))"
  by (auto simp: ccs_inv_def SetMstxCrossInfo_def GetMstxCrossInfo_def Let_def split: option.splits list.splits)

definition mstx_pending :: "CrossCoreSyncInfoContainer \<Rightarrow> u64 \<times> u64 \<Rightarrow> VectorTime list" where
  "mstx_pending c k = (case mstxCrossSetMap c k of None \<Rightarrow> [] | Some q \<Rightarrow> q)"

text \<open>
  Mstx cross-core flags pair first in, first out per address and flag: a set appends its time
  to the queue of its key and to no other; a wait succeeds exactly when the queue of its key is not
  empty, merges the oldest time into the time of the waiter and removes it; a failed wait changes
  nothing.
\<close>
theorem mstx_cross_fifo:
  assumes "ccs_inv c"
  shows "mstx_pending (SetMstxCrossInfo i t c) k =
       mstx_pending c k @ (if k = (cross_addr i, cross_flagId i) then [t] else []) \<and>
     (case mstx_pending c (cross_addr i, cross_flagId i) of
        [] \<Rightarrow> GetMstxCrossInfo i t c = (c, t, False)
      | s # q \<Rightarrow> \<exists>c'. GetMstxCrossInfo i t c = (c', UpdateVectorTime s t, True) \<and> ccs_inv c' \<and>
          mstx_pending c' k = (if k = (cross_addr i, cross_flagId i) then q else mstx_pending c k))"
proof (cases "mstxCrossSetMap c (cross_addr i, cross_flagId i)")
  case None
  then show ?thesis
    by (simp add: mstx_pending_def SetMstxCrossInfo_def GetMstxCrossInfo_def Let_def)
next
  case (Some q)
  then obtain s q' where q: "q = s # q'" using assms by (cases q) (auto simp: ccs_inv_def)
  show ?thesis
    using Some mstx_inv(2) [OF assms, of i t]
    by (simp add: q mstx_pending_def SetMstxCrossInfo_def GetMstxCrossInfo_def Let_def split: if_splits)
qed

theorem mstx_cross_fifo_witness:
  "GetMstxCrossInfo \<lparr>cross_addr = 8, cross_flagId = 1, cross_pipe = PIPE_S, isMore = False, isMerge = False,
     cross_opType = MSTX_WAIT_CROSS\<rparr> VectorTime_new (CrossCoreSync_Init 3 KT_MIX) =
   (CrossCoreSync_Init 3 KT_MIX, VectorTime_new, False)"
  using mstx_cross_fifo [of "CrossCoreSync_Init 3 KT_MIX" "\<lparr>cross_addr = 8, cross_flagId = 1, cross_pipe = PIPE_S,
      isMore = False, isMerge = False, cross_opType = MSTX_WAIT_CROSS\<rparr>" VectorTime_new "(8, 1)"]
    Init_group
  by (simp add: mstx_pending_def group_ok_def) (simp add: CrossCoreSync_Init_def)

end
