(* ===== verification/MemSeries.thy ===== *)
theory MemSeries
  imports Events "HOL-Library.Product_Lexorder"
begin

text \<open>
  The interval iterators of the overlap test (\<open>csrc/race_sanitizer/alg_framework/mem_series.h\<close> and
  \<open>.cpp\<close>) and the two-pointer test \<open>IsMemoryOverlap\<close> of \<open>mem_event_checker.cpp\<close>. An access is
  described by repeats of blocks; the theorems relate the iterators to the set of bytes it covers.
  Addresses are 64-bit words with wrap-around; block and repeat counters are below \<open>2 ^ 32\<close> and are
  natural numbers.
\<close>

section \<open>Iterators\<close>

record Interval =
  itv_start :: u64
  itv_end :: u64

record BlkSeries =
  blk_addr :: u64
  blk_size :: u64
  blk_lastSize :: u64
  blk_stride :: u64
  blk_num :: nat
  curBlockIdx :: nat
  curInterval :: Interval

text \<open>\<open>blockNum_ - 1\<close> is a \<open>uint64_t\<close>: it is never the current index when \<open>blockNum_\<close> is 0.\<close>

definition UpdateCurItv :: "BlkSeries \<Rightarrow> BlkSeries" where
  "UpdateCurItv s =
     (let st = blk_addr s + of_nat (curBlockIdx s) * blk_size s * blk_stride s
      in s\<lparr>curInterval := \<lparr>itv_start = st,
             itv_end = st + (if blk_num s \<noteq> 0 \<and> curBlockIdx s = blk_num s - 1
                             then blk_lastSize s else blk_size s)\<rparr>\<rparr>)"

definition BlkSeries_new :: "u64 \<Rightarrow> u64 \<Rightarrow> u64 \<Rightarrow> u64 \<Rightarrow> nat \<Rightarrow> BlkSeries" where
  "BlkSeries_new a bsize lastSize stride num =
     UpdateCurItv \<lparr>blk_addr = a, blk_size = bsize, blk_lastSize = lastSize, blk_stride = stride,
       blk_num = num, curBlockIdx = 0, curInterval = \<lparr>itv_start = 0, itv_end = 0\<rparr>\<rparr>"

definition GetCurItv :: "BlkSeries \<Rightarrow> Interval" where
  "GetCurItv s = curInterval s"

definition Move2NextItv :: "BlkSeries \<Rightarrow> BlkSeries option" where
  "Move2NextItv s =
     (if curBlockIdx s + 1 \<ge> blk_num s then None
      else Some (UpdateCurItv (s\<lparr>curBlockIdx := curBlockIdx s + 1\<rparr>)))"

text \<open>
  The priority queue is a list sorted by \<open>Greater\<close>: start, then end. Which of two equal intervals
  comes first is not determined by the code and is not used.
\<close>

record MemSeries =
  repeatSeries :: "BlkSeries list"
  leftMostIntervals :: "(nat \<times> Interval) list"

definition itv_key :: "nat \<times> Interval \<Rightarrow> u64 \<times> u64" where
  "itv_key x = (itv_start (snd x), itv_end (snd x))"

primrec add_repeats :: "nat \<Rightarrow> u64 \<Rightarrow> MemOpInfo \<Rightarrow> BlkSeries list \<times> u64" where
  "add_repeats 0 a op = ([], a)"
| "add_repeats (Suc n) a op =
     (let s = BlkSeries_new a (ucast (blockSize op)) (ucast (blockSize op)) (ucast (blockStride op)) (unat (blockNum op));
          (ss, a') = add_repeats n (a + ucast (repeatStride op * blockSize op)) op
      in (s # ss, a'))"

text \<open>
  The constructor: one series per repeat, at least one, with the stride product computed in 32
  bits; the first intervals of the first \<open>repeatTimes\<close> series enter the queue.
\<close>

definition MemSeries_new :: "MemOpInfo \<Rightarrow> MemSeries" where
  "MemSeries_new op =
     (let (ss, a) = add_repeats (unat (repeatTimes op) - 1) (addr op) op;
          series = ss @ [BlkSeries_new a (ucast (blockSize op)) (ucast (blockSize op)) (ucast (blockStride op))
                           (unat (blockNum op))]
      in \<lparr>repeatSeries = series,
          leftMostIntervals = foldl (\<lambda>q i. insort_key itv_key (i, GetCurItv (series ! i)) q) []
            [0 ..< unat (repeatTimes op)]\<rparr>)"

definition series_work :: "MemSeries \<Rightarrow> nat" where
  "series_work m = sum_list (map (\<lambda>s. blk_num s - curBlockIdx s) (repeatSeries m)) + length (leftMostIntervals m)"

text \<open>One round of the loop in \<open>GetNextItv\<close>: take the top interval and refill from its series.\<close>

definition take_top :: "MemSeries \<Rightarrow> MemSeries" where
  "take_top m =
     (let (i, itv) = hd (leftMostIntervals m); rest = tl (leftMostIntervals m) in
      case Move2NextItv (repeatSeries m ! i) of
        None \<Rightarrow> m\<lparr>leftMostIntervals := rest\<rparr>
      | Some s \<Rightarrow> m\<lparr>repeatSeries := (repeatSeries m)[i := s],
                    leftMostIntervals := insort_key itv_key (i, GetCurItv s) rest\<rparr>)"

definition top_valid :: "MemSeries \<Rightarrow> bool" where
  "top_valid m \<longleftrightarrow> leftMostIntervals m \<noteq> [] \<and> fst (hd (leftMostIntervals m)) < length (repeatSeries m)"

lemma Move2NextItv_work:
  "Move2NextItv s = Some s' \<Longrightarrow> blk_num s' - curBlockIdx s' < blk_num s - curBlockIdx s"
  by (auto simp: Move2NextItv_def UpdateCurItv_def Let_def split: if_splits)

lemma sum_list_update_less:
  fixes f :: "'a \<Rightarrow> nat"
  assumes "i < length xs" "f x < f (xs ! i)"
  shows "sum_list (map f (xs[i := x])) < sum_list (map f xs)"
  using assms
proof (induction xs arbitrary: i)
  case (Cons y ys)
  then show ?case by (cases i) auto
qed simp

lemma take_top_work:
  assumes "top_valid m"
  shows "series_work (take_top m) < series_work m"
proof -
  obtain i itv rest where q: "leftMostIntervals m = (i, itv) # rest" and i: "i < length (repeatSeries m)"
    using assms by (cases "leftMostIntervals m") (auto simp: top_valid_def)
  show ?thesis
  proof (cases "Move2NextItv (repeatSeries m ! i)")
    case None
    then show ?thesis by (simp add: take_top_def q series_work_def)
  next
    case (Some s)
    then show ?thesis
      using sum_list_update_less [OF i, where f = "\<lambda>s. blk_num s - curBlockIdx s" and x = s] Move2NextItv_work [OF Some]
      by (simp add: take_top_def q series_work_def)
  qed
qed

text \<open>
  The loop of \<open>GetNextItv\<close>. An index outside \<open>repeatSeries_\<close> would be an undefined access; it ends
  the loop here, and the invariant below excludes it.
\<close>

function extend_itv :: "MemSeries \<Rightarrow> u64 \<Rightarrow> MemSeries \<times> u64" where
  "extend_itv m extEnd =
     (if top_valid m \<and> itv_start (snd (hd (leftMostIntervals m))) \<le> extEnd
      then extend_itv (take_top m) (itv_end (snd (hd (leftMostIntervals m))))
      else (m, extEnd))"
  by pat_completeness auto
termination
  by (relation "measure (\<lambda>(m, _). series_work m)") (auto simp: take_top_work)

declare extend_itv.simps [simp del]

definition GetNextItv :: "MemSeries \<Rightarrow> (MemSeries \<times> Interval) option" where
  "GetNextItv m =
     (if top_valid m
      then (let leftMostAddr = itv_start (snd (hd (leftMostIntervals m)));
                (m', extEnd) = extend_itv m leftMostAddr
            in Some (m', \<lparr>itv_start = leftMostAddr, itv_end = extEnd\<rparr>))
      else None)"

lemma extend_itv_work: "series_work (fst (extend_itv m e)) \<le> series_work m"
proof (induction m e rule: extend_itv.induct)
  case (1 m e)
  then show ?case using take_top_work [of m] by (subst extend_itv.simps) (force intro: less_imp_le order.strict_trans2)
qed

lemma GetNextItv_work:
  assumes "GetNextItv m = Some (m', itv)"
  shows "series_work m' < series_work m"
proof -
  have tv: "top_valid m" using assms by (simp add: GetNextItv_def split: if_splits)
  let ?e = "itv_end (snd (hd (leftMostIntervals m)))"
  have "m' = fst (extend_itv (take_top m) ?e)"
    using assms tv by (simp add: GetNextItv_def Let_def split_beta extend_itv.simps [of m])
  then show ?thesis using extend_itv_work [of "take_top m" ?e] take_top_work [OF tv] by simp
qed

section \<open>The overlap test\<close>

definition itv_meet :: "Interval \<Rightarrow> Interval \<Rightarrow> bool" where
  "itv_meet a b \<longleftrightarrow> itv_start a < itv_end b \<and> itv_start b < itv_end a"

function overlap_loop :: "MemSeries \<Rightarrow> Interval \<Rightarrow> MemSeries \<Rightarrow> Interval \<Rightarrow> bool" where
  "overlap_loop m1 i1 m2 i2 =
     (if itv_meet i1 i2 then True
      else if itv_end i1 < itv_end i2
      then (case GetNextItv m1 of None \<Rightarrow> False | Some (m1', i1') \<Rightarrow> overlap_loop m1' i1' m2 i2)
      else (case GetNextItv m2 of None \<Rightarrow> False | Some (m2', i2') \<Rightarrow> overlap_loop m1 i1 m2' i2'))"
  by pat_completeness auto
termination
  by (relation "measure (\<lambda>(m1, _, m2, _). series_work m1 + series_work m2)")
     (auto dest: GetNextItv_work)

declare overlap_loop.simps [simp del]

definition IsMemoryOverlap :: "MemOpInfo \<Rightarrow> MemOpInfo \<Rightarrow> bool" where
  "IsMemoryOverlap op1 op2 =
     (if memType op1 \<noteq> memType op2 then False
      else (case (GetNextItv (MemSeries_new op1), GetNextItv (MemSeries_new op2)) of
              (Some (m1, i1), Some (m2, i2)) \<Rightarrow> overlap_loop m1 i1 m2 i2
            | _ \<Rightarrow> False))"

section \<open>The bytes of an access\<close>

definition op_start :: "MemOpInfo \<Rightarrow> nat \<Rightarrow> nat \<Rightarrow> nat" where
  "op_start op r k = unat (addr op) + r * (unat (repeatStride op) * unat (blockSize op)) +
     k * (unat (blockStride op) * unat (blockSize op))"

definition op_bytes :: "MemOpInfo \<Rightarrow> nat set" where
  "op_bytes op = (\<Union>r<unat (repeatTimes op). \<Union>k<unat (blockNum op).
     {op_start op r k ..< op_start op r k + unat (blockSize op)})"

text \<open>An access is regular when it is not empty and its address arithmetic does not wrap.\<close>

definition op_regular :: "MemOpInfo \<Rightarrow> bool" where
  "op_regular op \<longleftrightarrow> repeatTimes op \<noteq> 0 \<and> blockNum op \<noteq> 0 \<and> blockSize op \<noteq> 0 \<and>
     unat (repeatStride op) * unat (blockSize op) < 2 ^ 32 \<and>
     op_start op (unat (repeatTimes op) - 1) (unat (blockNum op) - 1) + unat (blockSize op) < 2 ^ 64"

section \<open>A series of blocks\<close>

definition ser_start :: "BlkSeries \<Rightarrow> nat \<Rightarrow> nat" where
  "ser_start s k = unat (blk_addr s) + k * (unat (blk_stride s) * unat (blk_size s))"

definition ser_bytes :: "nat \<Rightarrow> BlkSeries \<Rightarrow> nat set" where
  "ser_bytes n s = (\<Union>k\<in>{curBlockIdx s ..< blk_num s}. {ser_start s k ..< ser_start s k + n})"

definition series_ok :: "nat \<Rightarrow> BlkSeries \<Rightarrow> bool" where
  "series_ok n s \<longleftrightarrow> 0 < n \<and> unat (blk_size s) = n \<and> blk_lastSize s = blk_size s \<and>
     curBlockIdx s < blk_num s \<and> ser_start s (blk_num s - 1) + n < 2 ^ 64"

definition itv_ok :: "nat \<Rightarrow> BlkSeries \<Rightarrow> Interval \<Rightarrow> bool" where
  "itv_ok n s itv \<longleftrightarrow> unat (itv_start itv) = ser_start s (curBlockIdx s) \<and>
     unat (itv_end itv) = ser_start s (curBlockIdx s) + n"

lemma unat_of_nat_64: "n < 2 ^ 64 \<Longrightarrow> unat (of_nat n :: u64) = n"
  by (simp add: unat_of_nat take_bit_nat_eq_self_iff)

lemma ser_start_mono: "k \<le> j \<Longrightarrow> ser_start s k \<le> ser_start s j"
  by (simp add: ser_start_def mult_le_mono1)

lemma ser_start_cur [simp]: "ser_start (s\<lparr>curBlockIdx := x\<rparr>) k = ser_start s k"
  by (simp add: ser_start_def)

lemma UpdateCurItv_fields [simp]:
  "blk_addr (UpdateCurItv s) = blk_addr s" "blk_size (UpdateCurItv s) = blk_size s"
  "blk_lastSize (UpdateCurItv s) = blk_lastSize s" "blk_stride (UpdateCurItv s) = blk_stride s"
  "blk_num (UpdateCurItv s) = blk_num s" "curBlockIdx (UpdateCurItv s) = curBlockIdx s"
  "ser_start (UpdateCurItv s) k = ser_start s k" "series_ok n (UpdateCurItv s) = series_ok n s"
  "ser_bytes n (UpdateCurItv s) = ser_bytes n s"
  by (simp_all add: UpdateCurItv_def Let_def ser_start_def series_ok_def ser_bytes_def)

lemma UpdateCurItv_itv:
  assumes "series_ok n s"
  shows "itv_ok n (UpdateCurItv s) (GetCurItv (UpdateCurItv s))"
proof -
  let ?k = "curBlockIdx s"
  have size: "unat (blk_size s) = n" "blk_lastSize s = blk_size s" using assms by (simp_all add: series_ok_def)
  have le: "ser_start s ?k \<le> ser_start s (blk_num s - 1)"
    using assms by (intro ser_start_mono) (auto simp: series_ok_def)
  then have lt: "ser_start s ?k + n < 2 ^ 64" using assms by (simp add: series_ok_def)
  have st: "blk_addr s + of_nat ?k * blk_size s * blk_stride s = of_nat (ser_start s ?k)"
    by (simp add: ser_start_def mult.assoc mult.commute [of "blk_size s"])
  have en: "of_nat (ser_start s ?k) + blk_size s = (of_nat (ser_start s ?k + n) :: u64)"
    by (simp add: size(1) [symmetric])
  have "unat (of_nat (ser_start s ?k) :: u64) = ser_start s ?k"
    "unat (of_nat (ser_start s ?k + n) :: u64) = ser_start s ?k + n"
    using lt by (intro unat_of_nat_64; simp)+
  moreover have "GetCurItv (UpdateCurItv s) =
      \<lparr>itv_start = of_nat (ser_start s ?k), itv_end = of_nat (ser_start s ?k + n)\<rparr>"
    unfolding UpdateCurItv_def GetCurItv_def Let_def st size(2) if_cancel en by simp
  ultimately show ?thesis by (simp add: itv_ok_def)
qed

lemma ser_bytes_split:
  assumes "series_ok n s"
  shows "ser_bytes n s = {ser_start s (curBlockIdx s) ..< ser_start s (curBlockIdx s) + n} \<union>
     (if curBlockIdx s + 1 < blk_num s then ser_bytes n (s\<lparr>curBlockIdx := curBlockIdx s + 1\<rparr>) else {})"
proof -
  have "{curBlockIdx s ..< blk_num s} = insert (curBlockIdx s) {curBlockIdx s + 1 ..< blk_num s}"
    using assms by (auto simp: series_ok_def)
  then show ?thesis by (auto simp: ser_bytes_def ser_start_def)
qed

lemma Move2NextItv_ok:
  assumes "series_ok n s" "Move2NextItv s = Some s'"
  shows "series_ok n s'" "itv_ok n s' (GetCurItv s')"
    "ser_bytes n s = {ser_start s (curBlockIdx s) ..< ser_start s (curBlockIdx s) + n} \<union> ser_bytes n s'"
    "ser_start s (curBlockIdx s) \<le> ser_start s' (curBlockIdx s')"
proof -
  let ?s = "s\<lparr>curBlockIdx := curBlockIdx s + 1\<rparr>"
  have lt: "curBlockIdx s + 1 < blk_num s" and s': "s' = UpdateCurItv ?s"
    using assms(2) by (simp_all add: Move2NextItv_def split: if_splits)
  have ss: "ser_start ?s k = ser_start s k" for k by (simp add: ser_start_def)
  have ok: "series_ok n ?s" using assms(1) lt by (simp add: series_ok_def ss)
  then show "series_ok n s'" by (simp add: s')
  show "itv_ok n s' (GetCurItv s')" unfolding s' by (rule UpdateCurItv_itv [OF ok])
  show "ser_bytes n s = {ser_start s (curBlockIdx s) ..< ser_start s (curBlockIdx s) + n} \<union> ser_bytes n s'"
    using ser_bytes_split [OF assms(1)] lt by (simp add: s')
  show "ser_start s (curBlockIdx s) \<le> ser_start s' (curBlockIdx s')"
    by (simp add: s' ss ser_start_mono)
qed

lemma Move2NextItv_None:
  "series_ok n s \<Longrightarrow> Move2NextItv s = None \<Longrightarrow>
     ser_bytes n s = {ser_start s (curBlockIdx s) ..< ser_start s (curBlockIdx s) + n}"
  using ser_bytes_split [of n s] by (simp add: Move2NextItv_def split: if_splits)

lemma ser_bytes_ge: "x \<in> ser_bytes n s \<Longrightarrow> ser_start s (curBlockIdx s) \<le> x"
proof -
  assume "x \<in> ser_bytes n s"
  then obtain k where "curBlockIdx s \<le> k" "ser_start s k \<le> x" by (auto simp: ser_bytes_def)
  then show ?thesis using ser_start_mono [of "curBlockIdx s" k s] by linarith
qed

section \<open>The iterator over all repeats\<close>

definition ms_inv :: "nat \<Rightarrow> MemSeries \<Rightarrow> bool" where
  "ms_inv n m \<longleftrightarrow> distinct (map fst (leftMostIntervals m)) \<and> sorted (map itv_key (leftMostIntervals m)) \<and>
     (\<forall>(i, itv)\<in>set (leftMostIntervals m). i < length (repeatSeries m) \<and>
        series_ok n (repeatSeries m ! i) \<and> itv_ok n (repeatSeries m ! i) itv)"

definition ms_bytes :: "nat \<Rightarrow> MemSeries \<Rightarrow> nat set" where
  "ms_bytes n m = (\<Union>(i, itv)\<in>set (leftMostIntervals m). ser_bytes n (repeatSeries m ! i))"

lemma ms_inv_top: "ms_inv n m \<Longrightarrow> top_valid m \<longleftrightarrow> leftMostIntervals m \<noteq> []"
  by (cases "leftMostIntervals m") (auto simp: ms_inv_def top_valid_def)

lemma ms_bytes_empty: "ms_inv n m \<Longrightarrow> ms_bytes n m = {} \<longleftrightarrow> leftMostIntervals m = []"
proof -
  assume inv: "ms_inv n m"
  have "ser_bytes n (repeatSeries m ! i) \<noteq> {}" if "(i, itv) \<in> set (leftMostIntervals m)" for i itv
  proof -
    have "series_ok n (repeatSeries m ! i)" using inv that by (auto simp: ms_inv_def)
    then have "0 < n" "curBlockIdx (repeatSeries m ! i) < blk_num (repeatSeries m ! i)"
      by (simp_all add: series_ok_def)
    then have "ser_start (repeatSeries m ! i) (curBlockIdx (repeatSeries m ! i)) \<in> ser_bytes n (repeatSeries m ! i)"
      unfolding ser_bytes_def by (intro UN_I [where a = "curBlockIdx (repeatSeries m ! i)"]) auto
    then show ?thesis by blast
  qed
  then show ?thesis by (cases "leftMostIntervals m") (auto simp: ms_bytes_def)
qed

lemma distinct_insort_fst:
  "distinct (map fst (insort_key f x q)) \<longleftrightarrow> fst x \<notin> fst ` set q \<and> distinct (map fst q)"
  by (induction q) (auto simp: set_insort_key)

text \<open>The top of the queue is the least of the intervals that are left.\<close>

lemma ms_top_least:
  assumes "ms_inv n m" "leftMostIntervals m = (i, itv) # q"
  shows "(j, itv') \<in> set (leftMostIntervals m) \<Longrightarrow> unat (itv_start itv) \<le> unat (itv_start itv')"
    and "x \<in> ms_bytes n m \<Longrightarrow> unat (itv_start itv) \<le> x"
proof -
  have le: "unat (itv_start itv) \<le> unat (itv_start itv')" if "(j, itv') \<in> set (leftMostIntervals m)" for j itv'
    using assms that by (auto simp: ms_inv_def itv_key_def word_le_nat_alt [symmetric])
  then show "(j, itv') \<in> set (leftMostIntervals m) \<Longrightarrow> unat (itv_start itv) \<le> unat (itv_start itv')" .
  assume "x \<in> ms_bytes n m"
  then obtain j itv' where j: "(j, itv') \<in> set (leftMostIntervals m)" "x \<in> ser_bytes n (repeatSeries m ! j)"
    by (auto simp: ms_bytes_def)
  then have "unat (itv_start itv') = ser_start (repeatSeries m ! j) (curBlockIdx (repeatSeries m ! j))"
    using assms(1) by (auto simp: ms_inv_def itv_ok_def)
  then show "unat (itv_start itv) \<le> x" using le [OF j(1)] ser_bytes_ge [OF j(2)] by simp
qed

lemma take_top_ok:
  assumes inv: "ms_inv n m" and q: "leftMostIntervals m = (i, itv) # q"
  shows "ms_inv n (take_top m)"
    and "ms_bytes n m = {unat (itv_start itv) ..< unat (itv_start itv) + n} \<union> ms_bytes n (take_top m)"
    and "unat (itv_end itv) = unat (itv_start itv) + n"
    and "(j, itv') \<in> set (leftMostIntervals (take_top m)) \<Longrightarrow> unat (itv_start itv) \<le> unat (itv_start itv')"
proof -
  let ?s = "repeatSeries m ! i"
  have i: "i < length (repeatSeries m)" "series_ok n ?s" "itv_ok n ?s itv" "i \<notin> fst ` set q"
    using inv q by (auto simp: ms_inv_def)
  have st: "unat (itv_start itv) = ser_start ?s (curBlockIdx ?s)" using i(3) by (simp add: itv_ok_def)
  show "unat (itv_end itv) = unat (itv_start itv) + n" using i(3) by (simp add: itv_ok_def)
  have other: "(repeatSeries m)[i := s'] ! j = repeatSeries m ! j" if "(j, itv') \<in> set q" for j itv' s'
  proof -
    have "j \<noteq> i" using i(4) that by force
    then show ?thesis by simp
  qed
  have least: "unat (itv_start itv) \<le> unat (itv_start itv')" if "(j, itv') \<in> set q" for j itv'
    using ms_top_least(1) [OF inv q, of j itv'] that q by simp
  have "ms_inv n (take_top m) \<and>
     ms_bytes n m = {unat (itv_start itv) ..< unat (itv_start itv) + n} \<union> ms_bytes n (take_top m) \<and>
     (\<forall>(j, itv')\<in>set (leftMostIntervals (take_top m)). unat (itv_start itv) \<le> unat (itv_start itv'))"
  proof (cases "Move2NextItv ?s")
    case None
    then have tt: "take_top m = m\<lparr>leftMostIntervals := q\<rparr>" by (simp add: take_top_def q)
    show ?thesis
      using inv q least Move2NextItv_None [OF i(2) None] st by (auto simp: tt ms_inv_def ms_bytes_def)
  next
    case (Some s')
    let ?m = "take_top m"
    have tt: "?m = m\<lparr>repeatSeries := (repeatSeries m)[i := s'],
        leftMostIntervals := insort_key itv_key (i, GetCurItv s') q\<rparr>"
      using Some by (simp add: take_top_def q)
    note mv = Move2NextItv_ok [OF i(2) Some]
    have set_q: "set (leftMostIntervals ?m) = insert (i, GetCurItv s') (set q)" by (simp add: tt set_insort_key)
    have "ms_inv n ?m"
      using inv q i mv(1,2) other
      by (auto simp: ms_inv_def tt set_insort_key sorted_insort_key distinct_insort_fst)
    moreover have "ms_bytes n m = {unat (itv_start itv) ..< unat (itv_start itv) + n} \<union> ms_bytes n ?m"
    proof -
      have "ms_bytes n ?m = ser_bytes n s' \<union> (\<Union>(j, itv')\<in>set q. ser_bytes n (repeatSeries m ! j))"
        using i(1) other by (auto simp: ms_bytes_def set_insort_key tt)
      then show ?thesis using mv(3) st by (auto simp: ms_bytes_def q)
    qed
    moreover have "unat (itv_start itv) \<le> unat (itv_start (GetCurItv s'))"
      using mv(2,4) st by (simp add: itv_ok_def)
    ultimately show ?thesis using least set_q by auto
  qed
  then show "ms_inv n (take_top m)"
    "ms_bytes n m = {unat (itv_start itv) ..< unat (itv_start itv) + n} \<union> ms_bytes n (take_top m)"
    "(j, itv') \<in> set (leftMostIntervals (take_top m)) \<Longrightarrow> unat (itv_start itv) \<le> unat (itv_start itv')"
    by auto
qed

text \<open>The loop joins intervals as long as the next one touches what it has.\<close>

lemma extend_itv_ok:
  assumes "ms_inv n m" "a \<le> unat e"
    and "\<forall>(j, itv)\<in>set (leftMostIntervals m). a \<le> unat (itv_start itv) \<and> unat e \<le> unat (itv_start itv) + n"
    and "extend_itv m e = (m', e')"
  shows "ms_inv n m' \<and> {a ..< unat e'} \<union> ms_bytes n m' = {a ..< unat e} \<union> ms_bytes n m \<and> unat e \<le> unat e' \<and>
     (\<forall>(j, itv)\<in>set (leftMostIntervals m'). unat e' < unat (itv_start itv))"
  using assms
proof (induction m e arbitrary: m' e' rule: extend_itv.induct)
  case (1 m e)
  show ?case
  proof (cases "leftMostIntervals m")
    case Nil
    then have "(m', e') = (m, e)"
      using "1.prems"(4) by (simp add: extend_itv.simps [of m] top_valid_def)
    then show ?thesis using "1.prems"(1) Nil by simp
  next
    case (Cons x q)
    obtain i itv where x: "x = (i, itv)" by fastforce
    note q = Cons [unfolded x]
    have tv: "top_valid m" using ms_inv_top [OF "1.prems"(1)] q by simp
    note tt = take_top_ok [OF "1.prems"(1) q]
    show ?thesis
    proof (cases "itv_start itv \<le> e")
      case True
      then have le: "unat (itv_start itv) \<le> unat e" by (simp add: word_le_nat_alt)
      have h: "a \<le> unat (itv_start itv)" "unat e \<le> unat (itv_start itv) + n" using "1.prems"(3) q by auto
      have rec: "extend_itv (take_top m) (itv_end itv) = (m', e')"
        using "1.prems"(4) tv True q by (simp add: extend_itv.simps [of m])
      have "ms_inv n m' \<and> {a ..< unat e'} \<union> ms_bytes n m' = {a ..< unat (itv_end itv)} \<union> ms_bytes n (take_top m) \<and>
        unat (itv_end itv) \<le> unat e' \<and> (\<forall>(j, itv)\<in>set (leftMostIntervals m'). unat e' < unat (itv_start itv))"
        using "1.IH" [of m' e'] tv True q tt h rec by fastforce
      moreover have "{a ..< unat (itv_end itv)} = {a ..< unat e} \<union> {unat (itv_start itv) ..< unat (itv_start itv) + n}"
        using le h tt(3) by auto
      ultimately show ?thesis using tt(2,3) h by auto
    next
      case False
      then have "(m', e') = (m, e)" using "1.prems"(4) q by (simp add: extend_itv.simps [of m])
      moreover have "unat e < unat (itv_start itv')" if "(j, itv') \<in> set (leftMostIntervals m)" for j itv'
        using False ms_top_least(1) [OF "1.prems"(1) q that] by (simp add: word_le_nat_alt)
      ultimately show ?thesis using "1.prems"(1) by auto
    qed
  qed
qed

lemma GetNextItv_ok:
  assumes inv: "ms_inv n m"
  shows "GetNextItv m = None \<longleftrightarrow> ms_bytes n m = {}"
    and "GetNextItv m = Some (m', itv) \<Longrightarrow> ms_inv n m' \<and> unat (itv_start itv) < unat (itv_end itv) \<and>
      ms_bytes n m = {unat (itv_start itv) ..< unat (itv_end itv)} \<union> ms_bytes n m' \<and>
      (\<forall>x\<in>ms_bytes n m'. unat (itv_end itv) < x)"
proof -
  show "GetNextItv m = None \<longleftrightarrow> ms_bytes n m = {}"
    using ms_inv_top [OF inv] ms_bytes_empty [OF inv] by (simp add: GetNextItv_def split_beta Let_def)
  assume g: "GetNextItv m = Some (m', itv)"
  then have tv: "top_valid m" by (simp add: GetNextItv_def split: if_splits)
  then obtain i itv0 q where q: "leftMostIntervals m = (i, itv0) # q"
    by (cases "leftMostIntervals m") (auto simp: top_valid_def)
  let ?a = "itv_start itv0"
  have e: "extend_itv m ?a = (m', itv_end itv)" and s: "itv_start itv = ?a"
    using g tv q by (auto simp: GetNextItv_def split_beta Let_def)
  have n: "0 < n" using inv q by (auto simp: ms_inv_def series_ok_def)
  have "unat ?a \<le> unat (itv_start itv')" if "(j, itv') \<in> set (leftMostIntervals m)" for j itv'
    by (rule ms_top_least(1) [OF inv q that])
  then have ext: "ms_inv n m' \<and> {unat ?a ..< unat (itv_end itv)} \<union> ms_bytes n m' = {unat ?a ..< unat ?a} \<union> ms_bytes n m \<and>
      unat ?a \<le> unat (itv_end itv) \<and> (\<forall>(j, itv')\<in>set (leftMostIntervals m'). unat (itv_end itv) < unat (itv_start itv'))"
    by (intro extend_itv_ok [OF inv _ _ e]) (auto intro: trans_le_add1)
  have gt: "unat (itv_end itv) < x" if x: "x \<in> ms_bytes n m'" for x
  proof -
    obtain i' itv' q' where q': "leftMostIntervals m' = (i', itv') # q'"
      using x by (cases "leftMostIntervals m'") (auto simp: ms_bytes_def)
    then have "unat (itv_start itv') \<le> x" using ms_top_least(2) [of n m'] ext x by blast
    then show ?thesis using ext q' by auto
  qed
  have "unat ?a \<in> ms_bytes n m"
    using take_top_ok(2) [OF inv q] n by auto
  then have "unat ?a < unat (itv_end itv)" using ext gt by fastforce
  then show "ms_inv n m' \<and> unat (itv_start itv) < unat (itv_end itv) \<and>
      ms_bytes n m = {unat (itv_start itv) ..< unat (itv_end itv)} \<union> ms_bytes n m' \<and>
      (\<forall>x\<in>ms_bytes n m'. unat (itv_end itv) < x)"
    using ext gt s by auto
qed

section \<open>The two-pointer test\<close>

lemma overlap_loop_ok:
  assumes "ms_inv n1 m1" "ms_inv n2 m2"
    and "unat (itv_start i1) < unat (itv_end i1)" "unat (itv_start i2) < unat (itv_end i2)"
    and "\<forall>x\<in>ms_bytes n1 m1. unat (itv_end i1) < x" "\<forall>x\<in>ms_bytes n2 m2. unat (itv_end i2) < x"
  shows "overlap_loop m1 i1 m2 i2 \<longleftrightarrow>
     ({unat (itv_start i1) ..< unat (itv_end i1)} \<union> ms_bytes n1 m1) \<inter>
     ({unat (itv_start i2) ..< unat (itv_end i2)} \<union> ms_bytes n2 m2) \<noteq> {}"
  using assms
proof (induction m1 i1 m2 i2 rule: overlap_loop.induct)
  case (1 m1 i1 m2 i2)
  show ?case
  proof (cases "itv_meet i1 i2")
    case True
    then have "unat (itv_start i1) < unat (itv_end i2)" "unat (itv_start i2) < unat (itv_end i1)"
      by (simp_all add: itv_meet_def word_less_nat_alt)
    then have "max (unat (itv_start i1)) (unat (itv_start i2)) \<in>
        {unat (itv_start i1) ..< unat (itv_end i1)} \<inter> {unat (itv_start i2) ..< unat (itv_end i2)}"
      using "1.prems"(3,4) by auto
    then have "({unat (itv_start i1) ..< unat (itv_end i1)} \<union> ms_bytes n1 m1) \<inter>
        ({unat (itv_start i2) ..< unat (itv_end i2)} \<union> ms_bytes n2 m2) \<noteq> {}" by blast
    moreover have "overlap_loop m1 i1 m2 i2" using True by (subst overlap_loop.simps) simp
    ultimately show ?thesis by blast
  next
    case False
    then have no: "{unat (itv_start i1) ..< unat (itv_end i1)} \<inter> {unat (itv_start i2) ..< unat (itv_end i2)} = {}"
      by (auto simp: itv_meet_def word_less_nat_alt)
    show ?thesis
    proof (cases "itv_end i1 < itv_end i2")
      case lt: True
      then have gap: "{unat (itv_start i1) ..< unat (itv_end i1)} \<inter> ms_bytes n2 m2 = {}"
        using "1.prems"(6) by (auto simp: word_less_nat_alt)
      show ?thesis
      proof (cases "GetNextItv m1")
        case None
        then have "ms_bytes n1 m1 = {}" using GetNextItv_ok(1) [OF "1.prems"(1)] by simp
        then show ?thesis using None False lt no gap by (subst overlap_loop.simps) auto
      next
        case (Some r)
        obtain m1' i1' where r: "r = (m1', i1')" by fastforce
        note nx = GetNextItv_ok(2) [OF "1.prems"(1) Some [unfolded r]]
        have "overlap_loop m1' i1' m2 i2 \<longleftrightarrow>
            ({unat (itv_start i1') ..< unat (itv_end i1')} \<union> ms_bytes n1 m1') \<inter>
            ({unat (itv_start i2) ..< unat (itv_end i2)} \<union> ms_bytes n2 m2) \<noteq> {}"
          using "1.IH"(1) [OF False lt Some r [symmetric]] "1.prems" nx by blast
        moreover have "overlap_loop m1 i1 m2 i2 = overlap_loop m1' i1' m2 i2"
          using False lt Some r by (subst overlap_loop.simps) simp
        ultimately show ?thesis using nx no gap by auto
      qed
    next
      case ge: False
      then have gap: "{unat (itv_start i2) ..< unat (itv_end i2)} \<inter> ms_bytes n1 m1 = {}"
        using "1.prems"(5) by (auto simp: word_less_nat_alt)
      show ?thesis
      proof (cases "GetNextItv m2")
        case None
        then have "ms_bytes n2 m2 = {}" using GetNextItv_ok(1) [OF "1.prems"(2)] by simp
        then show ?thesis using None False ge no gap by (subst overlap_loop.simps) auto
      next
        case (Some r)
        obtain m2' i2' where r: "r = (m2', i2')" by fastforce
        note nx = GetNextItv_ok(2) [OF "1.prems"(2) Some [unfolded r]]
        have "overlap_loop m1 i1 m2' i2' \<longleftrightarrow>
            ({unat (itv_start i1) ..< unat (itv_end i1)} \<union> ms_bytes n1 m1) \<inter>
            ({unat (itv_start i2') ..< unat (itv_end i2')} \<union> ms_bytes n2 m2') \<noteq> {}"
          using "1.IH"(2) [OF False ge Some r [symmetric]] "1.prems" nx by blast
        moreover have "overlap_loop m1 i1 m2 i2 = overlap_loop m1 i1 m2' i2'"
          using False ge Some r by (subst overlap_loop.simps) simp
        ultimately show ?thesis using nx no gap by auto
      qed
    qed
  qed
qed

section \<open>The initial iterator covers the access\<close>

definition repeat_series :: "MemOpInfo \<Rightarrow> u64 \<Rightarrow> nat \<Rightarrow> BlkSeries" where
  "repeat_series op a r = BlkSeries_new (a + of_nat r * ucast (repeatStride op * blockSize op))
     (ucast (blockSize op)) (ucast (blockSize op)) (ucast (blockStride op)) (unat (blockNum op))"

lemma add_repeats_eq:
  "add_repeats n a op =
     (map (repeat_series op a) [0 ..< n], a + of_nat n * ucast (repeatStride op * blockSize op))"
proof (induction n arbitrary: a)
  case (Suc n)
  have "map (repeat_series op a) [0 ..< Suc n] = repeat_series op a 0 #
      map (repeat_series op (a + ucast (repeatStride op * blockSize op))) [0 ..< n]"
    by (simp add: upt_conv_Cons map_Suc_upt [symmetric] repeat_series_def algebra_simps del: upt_Suc)
  moreover have "BlkSeries_new a (ucast (blockSize op)) (ucast (blockSize op)) (ucast (blockStride op))
      (unat (blockNum op)) = repeat_series op a 0" by (simp add: repeat_series_def)
  ultimately show ?case using Suc by (simp add: distrib_right add.assoc del: upt_Suc)
qed simp

lemma foldl_insort:
  "set (foldl (\<lambda>q i. insort_key f (g i) q) q0 is) = set q0 \<union> g ` set is"
  "sorted (map f q0) \<Longrightarrow> sorted (map f (foldl (\<lambda>q i. insort_key f (g i) q) q0 is))"
  by (induction "is" arbitrary: q0) (auto simp: set_insort_key sorted_insort_key)

lemma foldl_insort_fst:
  assumes "\<And>i. fst (g i) = i"
  shows "distinct (map fst q0) \<Longrightarrow> distinct is \<Longrightarrow> set is \<inter> fst ` set q0 = {} \<Longrightarrow>
     distinct (map fst (foldl (\<lambda>q i. insort_key f (g i) q) q0 is))"
  by (induction "is" arbitrary: q0) (auto simp: assms distinct_insort_fst set_insort_key)

lemma op_start_mono: "r \<le> r' \<Longrightarrow> k \<le> k' \<Longrightarrow> op_start op r k \<le> op_start op r' k'"
  unfolding op_start_def by (intro add_mono mult_le_mono1 order_refl)

lemma repeat_series_ok:
  assumes reg: "op_regular op" and r: "r < unat (repeatTimes op)"
  defines "s \<equiv> repeat_series op (addr op) r"
  shows "series_ok (unat (blockSize op)) s" "itv_ok (unat (blockSize op)) s (GetCurItv s)"
    "ser_start s k = op_start op r k" "curBlockIdx s = 0" "blk_num s = unat (blockNum op)"
proof -
  let ?n = "unat (blockSize op)"
  let ?raw = "\<lparr>blk_addr = addr op + of_nat r * ucast (repeatStride op * blockSize op), blk_size = ucast (blockSize op),
      blk_lastSize = ucast (blockSize op), blk_stride = ucast (blockStride op), blk_num = unat (blockNum op),
      curBlockIdx = 0, curInterval = \<lparr>itv_start = 0, itv_end = 0\<rparr>\<rparr>"
  have s: "s = UpdateCurItv ?raw" by (simp add: s_def repeat_series_def BlkSeries_new_def)
  have pos: "0 < ?n" "0 < unat (blockNum op)" using reg by (simp_all add: op_regular_def unat_gt_0)
  have step: "unat (ucast (repeatStride op * blockSize op) :: u64) = unat (repeatStride op) * ?n"
    using reg by (simp add: op_regular_def unat_word_ariths take_bit_nat_eq_self_iff)
  have "op_start op r (unat (blockNum op) - 1) \<le> op_start op (unat (repeatTimes op) - 1) (unat (blockNum op) - 1)"
    using r by (intro op_start_mono) auto
  then have lim: "op_start op r (unat (blockNum op) - 1) + ?n < 2 ^ 64"
    using reg by (simp add: op_regular_def)
  have "op_start op r 0 \<le> op_start op r (unat (blockNum op) - 1)" by (rule op_start_mono) simp_all
  then have lim0: "op_start op r 0 < 2 ^ 64" using lim pos by linarith
  have "addr op + of_nat r * ucast (repeatStride op * blockSize op) = of_nat (op_start op r 0)"
    by (simp add: op_start_def step [symmetric])
  then have base: "unat (addr op + of_nat r * ucast (repeatStride op * blockSize op)) = op_start op r 0"
    using unat_of_nat_64 [OF lim0] by simp
  have start: "ser_start ?raw k = op_start op r k" for k
    by (simp add: ser_start_def base) (simp add: op_start_def)
  have ok: "series_ok ?n ?raw" using pos lim by (simp add: series_ok_def start)
  show "series_ok ?n s" "ser_start s k = op_start op r k" "curBlockIdx s = 0" "blk_num s = unat (blockNum op)"
    using ok start by (simp_all add: s)
  show "itv_ok ?n s (GetCurItv s)" unfolding s by (rule UpdateCurItv_itv [OF ok])
qed

lemma MemSeries_new_ok:
  assumes "op_regular op"
  shows "ms_inv (unat (blockSize op)) (MemSeries_new op)"
    and "ms_bytes (unat (blockSize op)) (MemSeries_new op) = op_bytes op"
proof -
  let ?R = "unat (repeatTimes op)" and ?n = "unat (blockSize op)" and ?ser = "repeat_series op (addr op)"
  have R: "?R = Suc (?R - 1)" using assms by (simp add: op_regular_def unat_gt_0)
  let ?series = "map ?ser [0 ..< ?R]"
  have ser: "?series = map ?ser [0 ..< ?R - 1] @ [?ser (?R - 1)]" by (subst R) simp
  let ?q = "foldl (\<lambda>q i. insort_key itv_key (i, GetCurItv (?series ! i)) q) [] [0 ..< ?R]"
  have m: "MemSeries_new op = \<lparr>repeatSeries = ?series, leftMostIntervals = ?q\<rparr>"
    unfolding MemSeries_new_def add_repeats_eq Let_def split ser repeat_series_def by simp
  have q: "set ?q = (\<lambda>i. (i, GetCurItv (?series ! i))) ` {0 ..< ?R}" by (simp add: foldl_insort(1))
  have d: "distinct (map fst ?q)" by (rule foldl_insort_fst) simp_all
  have so: "sorted (map itv_key ?q)" by (rule foldl_insort(2)) simp
  have ok: "series_ok ?n (?series ! i) \<and> itv_ok ?n (?series ! i) (GetCurItv (?series ! i))" if "i < ?R" for i
    using repeat_series_ok(1,2) [OF assms that] that by simp
  show "ms_inv ?n (MemSeries_new op)" unfolding m ms_inv_def using d so q ok by auto
  have "ser_bytes ?n (?series ! i) = (\<Union>k<unat (blockNum op). {op_start op i k ..< op_start op i k + ?n})" if "i < ?R" for i
    using repeat_series_ok(3-5) [OF assms that] that by (simp add: ser_bytes_def lessThan_atLeast0)
  then show "ms_bytes ?n (MemSeries_new op) = op_bytes op"
    unfolding m ms_bytes_def op_bytes_def using q by auto
qed

lemma op_bytes_nonempty: "op_regular op \<Longrightarrow> op_bytes op \<noteq> {}"
  by (auto simp: op_regular_def op_bytes_def unat_gt_0 intro!: exI [of _ 0])

lemma IsMemoryOverlap_bytes:
  assumes "op_regular a" "op_regular b"
  shows "IsMemoryOverlap a b \<longleftrightarrow> memType a = memType b \<and> op_bytes a \<inter> op_bytes b \<noteq> {}"
proof -
  note na = MemSeries_new_ok [OF assms(1)] and nb = MemSeries_new_ok [OF assms(2)]
  have "GetNextItv (MemSeries_new a) \<noteq> None" "GetNextItv (MemSeries_new b) \<noteq> None"
    using GetNextItv_ok(1) [OF na(1)] GetNextItv_ok(1) [OF nb(1)] na(2) nb(2)
      op_bytes_nonempty [OF assms(1)] op_bytes_nonempty [OF assms(2)] by simp_all
  then obtain m1 i1 m2 i2 where g: "GetNextItv (MemSeries_new a) = Some (m1, i1)"
      "GetNextItv (MemSeries_new b) = Some (m2, i2)" by force
  note ga = GetNextItv_ok(2) [OF na(1) g(1)] and gb = GetNextItv_ok(2) [OF nb(1) g(2)]
  have "overlap_loop m1 i1 m2 i2 \<longleftrightarrow> op_bytes a \<inter> op_bytes b \<noteq> {}"
    using overlap_loop_ok [of _ m1 _ m2 i1 i2] ga gb na(2) nb(2) by metis
  then show ?thesis by (simp add: IsMemoryOverlap_def g)
qed

text \<open>
  C27. The overlap test is exact: for two regular accesses (not empty, no address wrap-around) the
  two-pointer walk over the merged intervals answers true exactly when the accesses are to the same
  memory and share a byte, however the blocks and repeats of the two interleave.
\<close>
theorem IsMemoryOverlap_exact:
  assumes "op_regular a" "op_regular b"
  shows "IsMemoryOverlap a b \<longleftrightarrow> memType a = memType b \<and> op_bytes a \<inter> op_bytes b \<noteq> {}"
  by (rule IsMemoryOverlap_bytes [OF assms])

definition sample_op :: "u64 \<Rightarrow> MemOpInfo" where
  "sample_op a = \<lparr>memType = MEM_UB, opType = WRITE, vectorMask = \<lparr>mask0 = 0, mask1 = 0\<rparr>, maskMode = MASK_NORM,
     instrName = 0, dataBits = 0, addr = a, blockNum = 2, blockSize = 32, blockStride = 2, repeatTimes = 1,
     repeatStride = 1, alignSize = 32, ignoreIllegalCheck = False, isScalarAtomic = False, dcciDistance = 0,
     dstCoreId = 0, dstBlockType = BT_AIVEC, instrClass = IC_UNKNOWN, matrixM = 0, matrixN = 0\<rparr>"

theorem IsMemoryOverlap_exact_witness:
  "\<not> IsMemoryOverlap (sample_op 0) (sample_op 32) \<and> IsMemoryOverlap (sample_op 0) (sample_op 64)"
proof -
  have reg: "op_regular (sample_op 0)" "op_regular (sample_op 32)" "op_regular (sample_op 64)"
    by (simp_all add: op_regular_def op_start_def sample_op_def)
  have two: "{..<2} = {0, 1 :: nat}" by auto
  have bytes: "op_bytes (sample_op 0) = {0 ..< 32} \<union> {64 ..< 96}" "op_bytes (sample_op 32) = {32 ..< 64} \<union> {96 ..< 128}"
    "op_bytes (sample_op 64) = {64 ..< 96} \<union> {128 ..< 160}"
    by (simp_all add: op_bytes_def op_start_def sample_op_def two lessThan_Suc)
  have "op_bytes (sample_op 0) \<inter> op_bytes (sample_op 32) = {}" unfolding bytes by auto
  moreover have "64 \<in> op_bytes (sample_op 0) \<inter> op_bytes (sample_op 64)" unfolding bytes by simp
  ultimately show ?thesis
    using IsMemoryOverlap_exact [OF reg(1,2)] IsMemoryOverlap_exact [OF reg(1,3)] by (auto simp: sample_op_def)
qed

text \<open>
  The stride of a repeat is a product of two \<open>uint32_t\<close>: with a stride of \<open>2 ^ 26\<close> blocks of 64 bytes
  it wraps to 0, and the byte both accesses write is not found.
\<close>
lemma stride_product_wraps:
  defines "a \<equiv> (sample_op 0)\<lparr>blockNum := 1, blockSize := 64, repeatTimes := 2, repeatStride := 0x4000000\<rparr>"
    and "b \<equiv> (sample_op 0x100000000)\<lparr>blockNum := 1\<rparr>"
  shows "\<not> IsMemoryOverlap a b" "0x100000000 \<in> op_bytes a \<inter> op_bytes b"
proof -
  show "\<not> IsMemoryOverlap a b" unfolding a_def b_def by code_simp
  have two: "{..<2} = {0, 1 :: nat}" by auto
  show "0x100000000 \<in> op_bytes a \<inter> op_bytes b"
    by (simp add: a_def b_def op_bytes_def op_start_def sample_op_def two lessThan_Suc)
qed

end
