(* ===== verification/RaceChecks.thy ===== *)
theory RaceChecks
  imports RaceUnits MemSeries
begin

text \<open>
  The race predicates of \<open>MemEventChecker\<close>
  (\<open>csrc/race_sanitizer/alg_framework/mem_event_checker.h\<close> and \<open>.cpp\<close>): overlap of plain and SIMT
  accesses, the atomicity and hardware ordering exceptions, and the pair tests for one block, one
  pipe, several cores, several devices and missing cache operations.
  A pair test has the two index records as in-out parameters: it returns them after its result.
\<close>

section \<open>Pipe indices\<close>

definition GetPipeIdxByMemEvent :: "RaceCheckType \<Rightarrow> MemEvent \<Rightarrow> KernelType \<Rightarrow> DeviceType \<Rightarrow> nat" where
  "GetPipeIdxByMemEvent checkType e kt dt =
     GetEventBlockIndexByLoc (ev_loc e) kt dt checkType * PIPE_NUM + pipe_code (ev_pipe e)"

definition GetExpandPipeIdx :: "MemEvent \<Rightarrow> nat \<Rightarrow> nat" where
  "GetExpandPipeIdx e blocks =
     deviceIdx (ev_loc e) * blocks * PIPE_NUM +
     GetEventExpandBlockIndexByLoc (ev_loc e) * PIPE_NUM + pipe_code (ev_pipe e)"

section \<open>Overlap of accesses\<close>

record EventIdxInfo =
  eventIdx :: nat
  dynamicErrorIdx :: nat

type_synonym CheckResult = "bool \<times> EventIdxInfo \<times> EventIdxInfo"

text \<open>\<open>CompareSmRecord\<close> is the order of these keys; the index makes it total, so that the sort is unique.\<close>

definition sm_key :: "ShadowMemoryRecord \<times> nat \<Rightarrow> u64 \<times> u64 \<times> nat" where
  "sm_key x = (sm_addr (fst x), sm_size (fst x), snd x)"

definition CompareSmRecord :: "ShadowMemoryRecord \<times> nat \<Rightarrow> ShadowMemoryRecord \<times> nat \<Rightarrow> bool" where
  "CompareSmRecord l r =
     (if sm_addr (fst l) = sm_addr (fst r)
      then (if sm_size (fst l) = sm_size (fst r) then snd l < snd r else sm_size (fst l) < sm_size (fst r))
      else sm_addr (fst l) < sm_addr (fst r))"

lemma CompareSmRecord_key: "CompareSmRecord l r \<longleftrightarrow> sm_key l < sm_key r"
  by (auto simp: CompareSmRecord_def sm_key_def less_prod_def)

definition TransToRecords :: "ShadowMemoryRecord list \<Rightarrow> nat \<Rightarrow> (ShadowMemoryRecord \<times> nat) list" where
  "TransToRecords buffer count = sort_key sm_key (map (\<lambda>i. (buffer ! i, i)) [0 ..< count])"

definition simt_buffer :: "DynamicOpInfo \<Rightarrow> ShadowMemoryRecord list option" where
  "simt_buffer d = (if dynamicType d = RT_SIMT_ENTRY \<and> dyn_count d > 0 then dyn_buffer d else None)"

text \<open>
  The two-pointer loop over the records of two SIMT accesses: \<open>simt_check\<close> is the test at the head
  of the loop body, with true as its first component when the loop returns at once.
\<close>

definition sm_end :: "ShadowMemoryRecord \<Rightarrow> u64" where
  "sm_end r = sm_addr r + sm_size r"

definition simt_hit :: "ShadowMemoryRecord \<Rightarrow> ShadowMemoryRecord \<Rightarrow> bool" where
  "simt_hit x y \<longleftrightarrow> sm_addr x < sm_end y \<and> sm_addr y < sm_end x \<and>
     \<not> (sm_accessType x = READ \<and> sm_accessType y = READ)"

definition simt_check :: "ShadowMemoryRecord \<times> nat \<Rightarrow> ShadowMemoryRecord \<times> nat \<Rightarrow> CheckResult \<Rightarrow> bool \<times> CheckResult" where
  "simt_check x y r =
     (let (existRace, i1, i2) = r in
      if simt_hit (fst x) (fst y)
      then (location_pc (sm_location (fst x)) \<noteq> location_pc (sm_location (fst y)),
            True, i1\<lparr>dynamicErrorIdx := snd x\<rparr>, i2\<lparr>dynamicErrorIdx := snd y\<rparr>)
      else (False, r))"

fun simt_loop ::
  "(ShadowMemoryRecord \<times> nat) list \<Rightarrow> (ShadowMemoryRecord \<times> nat) list \<Rightarrow> CheckResult \<Rightarrow> CheckResult" where
  "simt_loop [] ys r = r"
| "simt_loop (x # xs) [] r = r"
| "simt_loop (x # xs) (y # ys) r =
     (if fst (simt_check x y r) then snd (simt_check x y r)
      else if sm_end (fst x) < sm_end (fst y) then simt_loop xs (y # ys) (snd (simt_check x y r))
      else if sm_end (fst x) = sm_end (fst y) then simt_loop xs ys (snd (simt_check x y r))
      else simt_loop (x # xs) ys (snd (simt_check x y r)))"

definition IsMemoryOverlapSimt :: "DynamicOpInfo \<Rightarrow> DynamicOpInfo \<Rightarrow> EventIdxInfo \<Rightarrow> EventIdxInfo \<Rightarrow> CheckResult" where
  "IsMemoryOverlapSimt d1 d2 i1 i2 =
     (case (simt_buffer d1, simt_buffer d2) of
        (Some b1, Some b2) \<Rightarrow>
          simt_loop (TransToRecords b1 (dyn_count d1)) (TransToRecords b2 (dyn_count d2)) (False, i1, i2)
      | _ \<Rightarrow> (False, i1, i2))"

definition SplitMem :: "MemOpInfo \<Rightarrow> (u64 \<times> u64) list" where
  "SplitMem op =
     concat (map (\<lambda>r. map (\<lambda>k.
         let startAddr = addr op + of_nat r * ucast (repeatStride op) * ucast (blockSize op) +
                         of_nat k * ucast (blockStride op) * ucast (blockSize op)
         in (startAddr, startAddr + ucast (blockSize op)))
       [0 ..< unat (blockNum op)]) [0 ..< unat (repeatTimes op)])"

definition mixed_hit :: "AccessType \<Rightarrow> u64 \<times> u64 \<Rightarrow> ShadowMemoryRecord \<Rightarrow> bool" where
  "mixed_hit t x y \<longleftrightarrow> fst x < sm_end y \<and> sm_addr y < snd x \<and> \<not> (sm_accessType y = READ \<and> t = READ)"

fun mixed_loop :: "AccessType \<Rightarrow> (u64 \<times> u64) list \<Rightarrow> (ShadowMemoryRecord \<times> nat) list \<Rightarrow> EventIdxInfo \<Rightarrow> bool \<times> EventIdxInfo" where
  "mixed_loop t [] ys i2 = (False, i2)"
| "mixed_loop t (x # xs) [] i2 = (False, i2)"
| "mixed_loop t (x # xs) (y # ys) i2 =
     (if mixed_hit t x (fst y) then (True, i2\<lparr>dynamicErrorIdx := snd y\<rparr>)
      else if snd x < sm_end (fst y) then mixed_loop t xs (y # ys) i2
      else if snd x = sm_end (fst y) then mixed_loop t xs ys i2
      else mixed_loop t (x # xs) ys i2)"

definition IsMemoryOverlapMixed :: "MemOpInfo \<Rightarrow> DynamicOpInfo \<Rightarrow> EventIdxInfo \<Rightarrow> bool \<times> EventIdxInfo" where
  "IsMemoryOverlapMixed op1 d2 i2 =
     (case simt_buffer d2 of
        Some b2 \<Rightarrow> mixed_loop (opType op1) (sort (SplitMem op1)) (TransToRecords b2 (dyn_count d2)) i2
      | None \<Rightarrow> (False, i2))"

definition IsMemSpaceOverlap :: "MemEvent \<Rightarrow> MemEvent \<Rightarrow> EventIdxInfo \<Rightarrow> EventIdxInfo \<Rightarrow> CheckResult" where
  "IsMemSpaceOverlap e1 e2 i1 i2 =
     (if \<not> isDynamic e1 \<and> \<not> isDynamic e2 then (IsMemoryOverlap (memInfo e1) (memInfo e2), i1, i2)
      else if \<not> isDynamic e1 \<and> isDynamic e2
      then (let (r, i2') = IsMemoryOverlapMixed (memInfo e1) (dynamicMemInfo e2) i2 in (r, i1, i2'))
      else if isDynamic e1 \<and> \<not> isDynamic e2
      then (let (r, i1') = IsMemoryOverlapMixed (memInfo e2) (dynamicMemInfo e1) i1 in (r, i1', i2))
      else IsMemoryOverlapSimt (dynamicMemInfo e1) (dynamicMemInfo e2) i1 i2)"

section \<open>Exceptions\<close>

definition MMAD_FRACTAL_SIZE :: nat where
  "MMAD_FRACTAL_SIZE = 16"

definition MMAD_K_ACCUM_MIN_FRACTAL_NUM :: nat where
  "MMAD_K_ACCUM_MIN_FRACTAL_NUM = 10"

text \<open>The product of two quotients of 16-bit values is below \<open>2 ^ 24\<close>: the 32-bit product does not wrap.\<close>

definition IsLargeMatmulAccess :: "MemEvent \<Rightarrow> bool" where
  "IsLargeMatmulAccess e \<longleftrightarrow> (let op = memInfo e in
     if instrClass op \<noteq> CUBE_MATMUL then False
     else (unat (matrixM op) div MMAD_FRACTAL_SIZE) * (unat (matrixN op) div MMAD_FRACTAL_SIZE)
            \<ge> MMAD_K_ACCUM_MIN_FRACTAL_NUM)"

definition serial_diff :: "MemEvent \<Rightarrow> MemEvent \<Rightarrow> nat" where
  "serial_diff e1 e2 =
     (if pipeSerialNo e1 > pipeSerialNo e2 then pipeSerialNo e1 - pipeSerialNo e2
      else pipeSerialNo e2 - pipeSerialNo e1)"

definition IsMatmulAccumOrderedByHardware :: "MemEvent \<Rightarrow> MemEvent \<Rightarrow> bool" where
  "IsMatmulAccumOrderedByHardware e1 e2 =
     (if serial_diff e1 e2 \<noteq> 1 then False else IsLargeMatmulAccess e1 \<and> IsLargeMatmulAccess e2)"

definition isAtomicEvent :: "MemEvent \<Rightarrow> bool" where
  "isAtomicEvent e \<longleftrightarrow> isScalarAtomic (memInfo e) \<or>
     (ev_isAtomicMode e \<and> opType (memInfo e) = WRITE \<and> ev_pipe e \<noteq> PIPE_S)"

definition IsAtomicAgainst :: "MemEvent \<Rightarrow> MemEvent \<Rightarrow> bool" where
  "IsAtomicAgainst e1 e2 \<longleftrightarrow> isAtomicEvent e1 \<and> isAtomicEvent e2"

definition EffOpType :: "MemEvent \<Rightarrow> AccessType" where
  "EffOpType e = (if isDynamic e then WRITE else opType (memInfo e))"

definition EffMemType :: "MemEvent \<Rightarrow> MemType" where
  "EffMemType e = (if isDynamic e then dyn_memType (dynamicMemInfo e) else memType (memInfo e))"

section \<open>Pair tests\<close>

text \<open>
  The members of \<open>MemEventChecker\<close> the tests read, the configuration switch for cache checks, and
  the kernel names of \<open>KernelManager\<close>, by device and kernel index.
\<close>

record CheckEnv =
  env_kernelType :: KernelType
  env_deviceType :: DeviceType
  env_blockNum :: nat
  env_checkDcci :: bool
  env_kernelName :: "nat \<Rightarrow> nat \<Rightarrow> string option"

definition NeedCrossCoreCheck :: "CheckEnv \<Rightarrow> MemEvent \<Rightarrow> MemEvent \<Rightarrow> bool" where
  "NeedCrossCoreCheck env e1 e2 =
     (let l1 = ev_loc e1; l2 = ev_loc e2 in
      if coreId l1 = coreId l2 \<and> blockType l1 = blockType l2 then False
      else if \<not> IsAscend95 (env_deviceType env) then True
      else if EffMemType e1 \<noteq> MEM_UB \<or> EffMemType e2 \<noteq> MEM_UB then True
      else if blockType l1 = blockType l2 then False
      else if blockType l1 = BT_AIVEC \<and> blockType l2 = BT_AICUBE \<and> coreId l1 \<noteq> dstCoreId (memInfo e2) then False
      else if blockType l1 = BT_AICUBE \<and> blockType l2 = BT_AIVEC \<and> dstCoreId (memInfo e1) \<noteq> coreId l2 then False
      else True)"

definition IsInnerCoreRaceCandidate :: "MemEvent \<Rightarrow> MemEvent \<Rightarrow> nat \<Rightarrow> u32 \<Rightarrow> nat \<Rightarrow> u32 \<Rightarrow> bool" where
  "IsInnerCoreRaceCandidate e1 e2 pipeIdx1 ownTime1 pipeIdx2 ownTime2 =
     (let a1 = ownTime1; a2 = VectorTime_Get (ev_vt e2) (of_nat pipeIdx1) in
      if a1 = a2 then False
      else (let b1 = VectorTime_Get (ev_vt e1) (of_nat pipeIdx2); b2 = ownTime2 in
            if \<not> IsNotHappensBefore4 a1 a2 b1 b2 then False else \<not> IsAtomicAgainst e1 e2))"

definition IsInnerCoreRaceEvent :: "CheckEnv \<Rightarrow> MemEvent list \<Rightarrow> EventIdxInfo \<Rightarrow> EventIdxInfo \<Rightarrow> CheckResult" where
  "IsInnerCoreRaceEvent env evs i1 i2 =
     (let e1 = evs ! eventIdx i1; e2 = evs ! eventIdx i2 in
      if ev_pipe e1 = ev_pipe e2 then (False, i1, i2)
      else (let p1 = GetPipeIdxByMemEvent SINGLE_BLOCK_CHECK e1 (env_kernelType env) (env_deviceType env);
                p2 = GetPipeIdxByMemEvent SINGLE_BLOCK_CHECK e2 (env_kernelType env) (env_deviceType env) in
            if \<not> IsInnerCoreRaceCandidate e1 e2 p1 (VectorTime_Get (ev_vt e1) (of_nat p1))
                   p2 (VectorTime_Get (ev_vt e2) (of_nat p2))
            then (False, i1, i2)
            else IsMemSpaceOverlap e1 e2 i1 i2))"

definition MAX_SERIAL_NUMBER_DIFF :: nat where
  "MAX_SERIAL_NUMBER_DIFF = 16"

definition IsSinglePipeRaceEvent :: "MemEvent list \<Rightarrow> EventIdxInfo \<Rightarrow> EventIdxInfo \<Rightarrow> CheckResult" where
  "IsSinglePipeRaceEvent evs i1 i2 =
     (let e1 = evs ! eventIdx i1; e2 = evs ! eventIdx i2 in
      if memType (memInfo e1) \<noteq> memType (memInfo e2) then (False, i1, i2)
      else if ev_pipe e1 \<noteq> ev_pipe e2 then (False, i1, i2)
      else if ev_serialNo e1 = ev_serialNo e2 then (False, i1, i2)
      else if IsAtomicAgainst e1 e2 then (False, i1, i2)
      else if serial_diff e1 e2 > MAX_SERIAL_NUMBER_DIFF then (False, i1, i2)
      else if barrierNo e1 \<noteq> barrierNo e2 then (False, i1, i2)
      else if IsMatmulAccumOrderedByHardware e1 e2 then (False, i1, i2)
      else if ev_serialNo e1 \<le> ev_closedRing e2 \<or> ev_serialNo e2 \<le> ev_closedRing e1 then (False, i1, i2)
      else IsMemSpaceOverlap e1 e2 i1 i2)"

definition IsCrossCoreRaceEvent :: "CheckEnv \<Rightarrow> MemEvent list \<Rightarrow> EventIdxInfo \<Rightarrow> EventIdxInfo \<Rightarrow> CheckResult" where
  "IsCrossCoreRaceEvent env evs i1 i2 =
     (let e1 = evs ! eventIdx i1; e2 = evs ! eventIdx i2 in
      if \<not> NeedCrossCoreCheck env e1 e2 then (False, i1, i2)
      else if \<not> IsNotHappensBefore (ev_vt e1) (ev_vt e2)
                 (of_nat (GetPipeIdxByMemEvent CROSS_BLOCK_CHECK e1 (env_kernelType env) (env_deviceType env)))
                 (of_nat (GetPipeIdxByMemEvent CROSS_BLOCK_CHECK e2 (env_kernelType env) (env_deviceType env)))
      then (False, i1, i2)
      else if IsAtomicAgainst e1 e2 then (False, i1, i2)
      else IsMemSpaceOverlap e1 e2 i1 i2)"

definition IsCrossNpuRaceEvent :: "CheckEnv \<Rightarrow> MemEvent list \<Rightarrow> EventIdxInfo \<Rightarrow> EventIdxInfo \<Rightarrow> CheckResult" where
  "IsCrossNpuRaceEvent env evs i1 i2 =
     (let e1 = evs ! eventIdx i1; e2 = evs ! eventIdx i2; l1 = ev_loc e1; l2 = ev_loc e2 in
      if deviceId l1 = deviceId l2 then (False, i1, i2)
      else if \<not> IsNotHappensBefore (ev_vt e1) (ev_vt e2) (of_nat (GetExpandPipeIdx e1 (env_blockNum env)))
                 (of_nat (GetExpandPipeIdx e2 (env_blockNum env)))
      then (False, i1, i2)
      else (case (env_kernelName env (deviceId l1) (kernelIdx l1), env_kernelName env (deviceId l2) (kernelIdx l2)) of
              (Some k1, Some k2) \<Rightarrow> (if k1 \<noteq> k2 then (False, i1, i2) else IsMemSpaceOverlap e1 e2 i1 i2)
            | _ \<Rightarrow> (False, i1, i2)))"

definition DCCI_WINDOW_THRESHOLD :: u32 where
  "DCCI_WINDOW_THRESHOLD = 1"

definition dcci_ok :: "MemEvent \<Rightarrow> bool" where
  "dcci_ok e \<longleftrightarrow> ev_pipe e \<noteq> PIPE_S_CAL \<or>
     (dcciDistance (memInfo e) > 0 \<and> dcciDistance (memInfo e) \<le> DCCI_WINDOW_THRESHOLD)"

definition IsMissDcciEvent :: "CheckEnv \<Rightarrow> MemEvent list \<Rightarrow> EventIdxInfo \<Rightarrow> EventIdxInfo \<Rightarrow> CheckResult" where
  "IsMissDcciEvent env evs i1 i2 =
     (let e1 = evs ! eventIdx i1; e2 = evs ! eventIdx i2 in
      if coreId (ev_loc e1) = coreId (ev_loc e2) \<and> blockType (ev_loc e1) = blockType (ev_loc e2)
      then (False, i1, i2)
      else if memType (memInfo e1) \<noteq> MEM_GM \<and> memType (memInfo e2) \<noteq> MEM_GM then (False, i1, i2)
      else if ev_pipe e1 \<noteq> PIPE_S_CAL \<and> ev_pipe e2 \<noteq> PIPE_S_CAL then (False, i1, i2)
      else
        (let roles = (if opType (memInfo e1) = READ \<and> opType (memInfo e2) = WRITE then Some (e2, e1)
                      else if opType (memInfo e1) = WRITE \<and> opType (memInfo e2) = READ then Some (e1, e2)
                      else None)
         in case roles of
              None \<Rightarrow> (False, i1, i2)
            | Some (w, r) \<Rightarrow>
                (let pw = GetPipeIdxByMemEvent CROSS_BLOCK_CHECK w (env_kernelType env) (env_deviceType env);
                     pr = GetPipeIdxByMemEvent CROSS_BLOCK_CHECK r (env_kernelType env) (env_deviceType env)
                 in if IsHappensBefore (ev_vt r) (ev_vt w) (of_nat pr) (of_nat pw) then (False, i1, i2)
                    else if dcci_ok w \<and> dcci_ok r then (False, i1, i2)
                    else IsMemSpaceOverlap e1 e2 i1 i2)))"

text \<open>\<open>checkTypeMap_\<close>: the test a check type selects.\<close>

definition check_of :: "RaceCheckType \<Rightarrow> CheckEnv \<Rightarrow> MemEvent list \<Rightarrow> EventIdxInfo \<Rightarrow> EventIdxInfo \<Rightarrow> CheckResult" where
  "check_of t env =
     (case t of
        SINGLE_BLOCK_CHECK \<Rightarrow> IsInnerCoreRaceEvent env
      | SINGLE_PIPE_CHECK \<Rightarrow> IsSinglePipeRaceEvent
      | CROSS_BLOCK_CHECK \<Rightarrow> IsCrossCoreRaceEvent env
      | CROSS_NPU_CHECK \<Rightarrow> IsCrossNpuRaceEvent env)"

section \<open>The result of a test on a pair of plain accesses\<close>

lemma IsMemSpaceOverlap_plain:
  "\<not> isDynamic e1 \<Longrightarrow> \<not> isDynamic e2 \<Longrightarrow>
     IsMemSpaceOverlap e1 e2 i1 i2 = (IsMemoryOverlap (memInfo e1) (memInfo e2), i1, i2)"
  by (simp add: IsMemSpaceOverlap_def)

text \<open>The events a test is run on have valid times and regular accesses.\<close>

definition plain_event :: "MemEvent \<Rightarrow> bool" where
  "plain_event e \<longleftrightarrow> \<not> isDynamic e \<and> vt_inv (ev_vt e) \<and> op_regular (memInfo e)"

definition share_bytes :: "MemEvent \<Rightarrow> MemEvent \<Rightarrow> bool" where
  "share_bytes e1 e2 \<longleftrightarrow> memType (memInfo e1) = memType (memInfo e2) \<and>
     op_bytes (memInfo e1) \<inter> op_bytes (memInfo e2) \<noteq> {}"

lemma share_bytes_sym: "share_bytes e1 e2 = share_bytes e2 e1"
  by (auto simp: share_bytes_def)

lemma plain_overlap:
  "plain_event e1 \<Longrightarrow> plain_event e2 \<Longrightarrow> IsMemSpaceOverlap e1 e2 i1 i2 = (share_bytes e1 e2, i1, i2)"
proof -
  assume p: "plain_event e1" "plain_event e2"
  have "IsMemoryOverlap (memInfo e1) (memInfo e2) = share_bytes e1 e2"
  proof -
    have r: "op_regular (memInfo e1)" "op_regular (memInfo e2)" using p by (simp_all add: plain_event_def)
    show ?thesis
    proof (cases "memType (memInfo e1) = memType (memInfo e2)")
      case True
      have "IsMemoryOverlap (memInfo e1) (memInfo e2) \<longleftrightarrow> op_bytes (memInfo e1) \<inter> op_bytes (memInfo e2) \<noteq> {}"
        using IsMemoryOverlap_bytes [OF r] True by simp
      then show ?thesis using True by (simp add: share_bytes_def)
    qed (simp add: share_bytes_def IsMemoryOverlap_def)
  qed
  then show ?thesis using p by (simp add: IsMemSpaceOverlap_plain plain_event_def)
qed

definition concurrent_at :: "nat \<Rightarrow> nat \<Rightarrow> MemEvent \<Rightarrow> MemEvent \<Rightarrow> bool" where
  "concurrent_at p q e1 e2 \<longleftrightarrow> vt.concurrent (ev_vt e1) (ev_vt e2) (of_nat p) (of_nat q)"

lemma InnerCore_plain:
  assumes "plain_event (evs ! eventIdx i1)" "plain_event (evs ! eventIdx i2)"
  shows "IsInnerCoreRaceEvent env evs i1 i2 =
     (let e1 = evs ! eventIdx i1; e2 = evs ! eventIdx i2 in
      (ev_pipe e1 \<noteq> ev_pipe e2 \<and>
       concurrent_at (GetPipeIdxByMemEvent SINGLE_BLOCK_CHECK e1 (env_kernelType env) (env_deviceType env))
         (GetPipeIdxByMemEvent SINGLE_BLOCK_CHECK e2 (env_kernelType env) (env_deviceType env)) e1 e2 \<and>
       \<not> IsAtomicAgainst e1 e2 \<and> share_bytes e1 e2, i1, i2))"
  using assms
  by (auto simp: IsInnerCoreRaceEvent_def IsInnerCoreRaceCandidate_def Let_def plain_overlap concurrent_at_def
      IsNotHappensBefore_concurrent [symmetric] IsNotHappensBefore_def IsNotHappensBefore4_def plain_event_def)

lemma concurrent_at_sym: "concurrent_at p q e1 e2 = concurrent_at q p e2 e1"
  by (auto simp: concurrent_at_def vt.concurrent_def)

lemma concurrent_at_NotHappensBefore:
  "plain_event e1 \<Longrightarrow> plain_event e2 \<Longrightarrow>
     IsNotHappensBefore (ev_vt e1) (ev_vt e2) (of_nat p) (of_nat q) = concurrent_at p q e1 e2"
  by (simp add: concurrent_at_def IsNotHappensBefore_concurrent plain_event_def)

lemma serial_diff_sym: "serial_diff e1 e2 = serial_diff e2 e1"
  by (simp add: serial_diff_def)

lemma IsAtomicAgainst_sym: "IsAtomicAgainst e1 e2 = IsAtomicAgainst e2 e1"
  by (auto simp: IsAtomicAgainst_def)

lemma NeedCrossCoreCheck_sym: "NeedCrossCoreCheck env e1 e2 = NeedCrossCoreCheck env e2 e1"
  by (auto simp: NeedCrossCoreCheck_def Let_def)

definition pair_test :: "(EventIdxInfo \<Rightarrow> EventIdxInfo \<Rightarrow> CheckResult) \<Rightarrow> nat \<Rightarrow> nat \<Rightarrow> bool" where
  "pair_test check i j = fst (check \<lparr>eventIdx = i, dynamicErrorIdx = 0\<rparr> \<lparr>eventIdx = j, dynamicErrorIdx = 0\<rparr>)"

lemma check_InnerCore:
  assumes "plain_event (evs ! i)" "plain_event (evs ! j)"
  shows "pair_test (IsInnerCoreRaceEvent env evs) i j \<longleftrightarrow>
     ev_pipe (evs ! i) \<noteq> ev_pipe (evs ! j) \<and>
     concurrent_at (GetPipeIdxByMemEvent SINGLE_BLOCK_CHECK (evs ! i) (env_kernelType env) (env_deviceType env))
       (GetPipeIdxByMemEvent SINGLE_BLOCK_CHECK (evs ! j) (env_kernelType env) (env_deviceType env)) (evs ! i) (evs ! j) \<and>
     \<not> IsAtomicAgainst (evs ! i) (evs ! j) \<and> share_bytes (evs ! i) (evs ! j)"
  using assms by (simp add: pair_test_def InnerCore_plain Let_def)

lemma check_SinglePipe:
  assumes "plain_event (evs ! i)" "plain_event (evs ! j)"
  shows "pair_test (IsSinglePipeRaceEvent evs) i j \<longleftrightarrow>
     ev_pipe (evs ! i) = ev_pipe (evs ! j) \<and> ev_serialNo (evs ! i) \<noteq> ev_serialNo (evs ! j) \<and>
     \<not> IsAtomicAgainst (evs ! i) (evs ! j) \<and> serial_diff (evs ! i) (evs ! j) \<le> MAX_SERIAL_NUMBER_DIFF \<and>
     barrierNo (evs ! i) = barrierNo (evs ! j) \<and> \<not> IsMatmulAccumOrderedByHardware (evs ! i) (evs ! j) \<and>
     ev_closedRing (evs ! j) < ev_serialNo (evs ! i) \<and> ev_closedRing (evs ! i) < ev_serialNo (evs ! j) \<and>
     share_bytes (evs ! i) (evs ! j)"
  using assms by (auto simp: pair_test_def IsSinglePipeRaceEvent_def Let_def plain_overlap share_bytes_def)

lemma check_CrossCore:
  assumes "plain_event (evs ! i)" "plain_event (evs ! j)"
  shows "pair_test (IsCrossCoreRaceEvent env evs) i j \<longleftrightarrow>
     NeedCrossCoreCheck env (evs ! i) (evs ! j) \<and>
     concurrent_at (GetPipeIdxByMemEvent CROSS_BLOCK_CHECK (evs ! i) (env_kernelType env) (env_deviceType env))
       (GetPipeIdxByMemEvent CROSS_BLOCK_CHECK (evs ! j) (env_kernelType env) (env_deviceType env)) (evs ! i) (evs ! j) \<and>
     \<not> IsAtomicAgainst (evs ! i) (evs ! j) \<and> share_bytes (evs ! i) (evs ! j)"
  using assms
  by (auto simp: pair_test_def IsCrossCoreRaceEvent_def Let_def plain_overlap concurrent_at_NotHappensBefore)

lemma check_CrossNpu:
  assumes "plain_event (evs ! i)" "plain_event (evs ! j)"
  shows "pair_test (IsCrossNpuRaceEvent env evs) i j \<longleftrightarrow>
     (let l1 = ev_loc (evs ! i); l2 = ev_loc (evs ! j) in
     deviceId l1 \<noteq> deviceId l2 \<and>
     concurrent_at (GetExpandPipeIdx (evs ! i) (env_blockNum env)) (GetExpandPipeIdx (evs ! j) (env_blockNum env))
       (evs ! i) (evs ! j) \<and>
     env_kernelName env (deviceId l1) (kernelIdx l1) \<noteq> None \<and>
     env_kernelName env (deviceId l1) (kernelIdx l1) = env_kernelName env (deviceId l2) (kernelIdx l2) \<and>
     share_bytes (evs ! i) (evs ! j))"
  using assms
  by (auto simp: pair_test_def IsCrossNpuRaceEvent_def Let_def plain_overlap concurrent_at_NotHappensBefore
      split: option.splits)

section \<open>Properties\<close>

lemma pair_test_sym:
  assumes "plain_event (evs ! i)" "plain_event (evs ! j)"
  shows "pair_test (check_of t env evs) i j = pair_test (check_of t env evs) j i"
proof (cases t)
  case SINGLE_BLOCK_CHECK
  then show ?thesis
    using assms by (auto simp: check_of_def check_InnerCore share_bytes_sym IsAtomicAgainst_sym concurrent_at_sym)
next
  case SINGLE_PIPE_CHECK
  have "IsMatmulAccumOrderedByHardware (evs ! i) (evs ! j) = IsMatmulAccumOrderedByHardware (evs ! j) (evs ! i)"
    by (auto simp: IsMatmulAccumOrderedByHardware_def serial_diff_sym)
  then show ?thesis
    using assms SINGLE_PIPE_CHECK
      share_bytes_sym [of "evs ! i" "evs ! j"] IsAtomicAgainst_sym [of "evs ! i" "evs ! j"]
      serial_diff_sym [of "evs ! i" "evs ! j"]
    by (auto simp: check_of_def check_SinglePipe)
next
  case CROSS_BLOCK_CHECK
  then show ?thesis
    using assms share_bytes_sym [of "evs ! i" "evs ! j"] IsAtomicAgainst_sym [of "evs ! i" "evs ! j"]
      NeedCrossCoreCheck_sym [of env "evs ! i" "evs ! j"] concurrent_at_sym [of _ _ "evs ! i" "evs ! j"]
    by (simp add: check_of_def check_CrossCore)
next
  case CROSS_NPU_CHECK
  then show ?thesis
    using assms share_bytes_sym [of "evs ! i" "evs ! j"] concurrent_at_sym [of _ _ "evs ! i" "evs ! j"]
    by (auto simp: check_of_def check_CrossNpu Let_def)
qed

text \<open>
  The pair tests do not depend on which of two plain events comes first, as the scanline, which
  loses their order, needs: for every check type the test of \<open>(i, j)\<close> and of \<open>(j, i)\<close> agree.
\<close>
theorem pair_tests_symmetric:
  assumes "plain_event (evs ! i)" "plain_event (evs ! j)"
  shows "pair_test (check_of t env evs) i j = pair_test (check_of t env evs) j i"
  using assms by (rule pair_test_sym)

definition sample_mem_event :: "u64 \<Rightarrow> PipeType \<Rightarrow> VectorTime \<Rightarrow> MemEvent" where
  "sample_mem_event a p t = \<lparr>ev_serialNo = unat a, barrierNo = 0, pipeSerialNo = 0, ev_closedRing = 0, ev_vt = t,
     memInfo = sample_op a, dynamicMemInfo = DynamicOpInfo_new, ev_loc = sample_loc 0 BT_AICORE, ev_pipe = p,
     ev_isAtomicMode = False, isDynamic = False\<rparr>"

lemma sample_op_regular: "unat a < 2 ^ 32 \<Longrightarrow> op_regular (sample_op a)"
  by (simp add: op_regular_def op_start_def sample_op_def)

lemma sample_plain: "unat a < 2 ^ 32 \<Longrightarrow> vt_inv t \<Longrightarrow> plain_event (sample_mem_event a p t)"
  by (simp add: plain_event_def sample_mem_event_def sample_op_regular)

definition sample_env :: CheckEnv where
  "sample_env = \<lparr>env_kernelType = KT_AIVEC, env_deviceType = ASCEND_910B1, env_blockNum = 1,
     env_checkDcci = False, env_kernelName = (\<lambda>_ _. None)\<rparr>"

theorem pair_tests_symmetric_witness:
  "let evs = [sample_mem_event 0 PIPE_V VectorTime_new, sample_mem_event 64 PIPE_MTE2 VectorTime_new] in
     pair_test (check_of SINGLE_BLOCK_CHECK sample_env evs) 0 1 = pair_test (check_of SINGLE_BLOCK_CHECK sample_env evs) 1 0"
  unfolding Let_def
  by (rule pair_tests_symmetric) (simp_all add: sample_plain)

text \<open>
  Two SIMT accesses of one address range, a read and a write, against a read of the same range: the
  loop compares the reads, moves on in both lists as the ends are equal, and never compares the
  write.
\<close>

definition sample_simt :: "(u64 \<times> u64 \<times> AccessType) list \<Rightarrow> DynamicOpInfo" where
  "sample_simt rs = \<lparr>dyn_count = length rs, minAddr = 0, maxAddr = 0, dynamicType = RT_SIMT_ENTRY, dyn_memType = MEM_UB,
     dyn_buffer = Some (map (\<lambda>(a, n, t). \<lparr>sm_addr = a, sm_size = n,
       sm_location = \<lparr>location_fileNo = 0, location_lineNo = 0, location_pc = 0, location_blockId = 0\<rparr>,
       sm_threadLoc = SimtThreadLocation 0 0 0 0, sm_space = AS_UB, sm_accessType = t\<rparr>) rs)\<rparr>"

text \<open>
  The overlap test of two SIMT accesses can miss a race: with a read and a write of the same
  four bytes on one side and a read of them on the other it answers no, although the write and the
  read overlap; without the first read it answers yes.
\<close>
theorem simt_overlap_misses_race:
  "\<not> fst (IsMemoryOverlapSimt (sample_simt [(0, 4, READ), (0, 4, WRITE)]) (sample_simt [(0, 4, READ)]) i1 i2) \<and>
     fst (IsMemoryOverlapSimt (sample_simt [(0, 4, WRITE)]) (sample_simt [(0, 4, READ)]) i1 i2)"
  by (simp add: IsMemoryOverlapSimt_def simt_buffer_def sample_simt_def TransToRecords_def simt_check_def
      simt_hit_def sm_end_def sm_key_def less_eq_prod_def RT_SIMT_ENTRY_def upt_rec)

end
