(* ===== verification/RadixSort.thy ===== *)
theory RadixSort
  imports RaceChecks "HOL-Library.Multiset"
begin

text \<open>
  The sort of the scanline end points (\<open>SortMetaData\<close>, \<open>CompareEvent\<close> and \<open>RadixSortByAddr\<close> of
  \<open>mem_event_checker.cpp\<close>): a least significant digit radix sort of the 64-bit addresses in four
  passes of a counting sort over 16-bit digits. It is shown to be the stable sort by address, and,
  on the input the scanline gives it, the sort by \<open>CompareEvent\<close>.
\<close>

section \<open>Definitions\<close>

record SortMetaData =
  meta_addr :: u64
  meta_idx :: u32
  isStart :: bool

definition CompareEvent :: "SortMetaData \<Rightarrow> SortMetaData \<Rightarrow> bool" where
  "CompareEvent l r =
     (if meta_addr l = meta_addr r
      then (if isStart l = isStart r then meta_idx l < meta_idx r else \<not> isStart l \<and> isStart r)
      else meta_addr l < meta_addr r)"

definition kRadixBits :: nat where
  "kRadixBits = 16"

definition kRadixSize :: nat where
  "kRadixSize = 2 ^ kRadixBits"

definition radix_digit :: "nat \<Rightarrow> SortMetaData \<Rightarrow> nat" where
  "radix_digit shift x = unat (and (drop_bit shift (meta_addr x)) (mask kRadixBits))"

text \<open>The \<open>count\<close> array is a function of its index.\<close>

definition histogram :: "('a \<Rightarrow> nat) \<Rightarrow> 'a list \<Rightarrow> nat \<Rightarrow> nat" where
  "histogram d xs = fold (\<lambda>x c. c(d x + 1 := c (d x + 1) + 1)) xs (\<lambda>_. 0)"

definition prefix_sums :: "nat \<Rightarrow> (nat \<Rightarrow> nat) \<Rightarrow> nat \<Rightarrow> nat" where
  "prefix_sums n c = fold (\<lambda>i c. c(i := c i + c (i - 1))) [1 ..< n + 1] c"

definition place :: "('a \<Rightarrow> nat) \<Rightarrow> 'a list \<Rightarrow> 'a list \<times> (nat \<Rightarrow> nat) \<Rightarrow> 'a list \<times> (nat \<Rightarrow> nat)" where
  "place d xs st = fold (\<lambda>x (tmp, c). (tmp[c (d x) := x], c(d x := c (d x) + 1))) xs st"

definition counting_pass :: "'a \<Rightarrow> nat \<Rightarrow> ('a \<Rightarrow> nat) \<Rightarrow> 'a list \<Rightarrow> 'a list" where
  "counting_pass dummy n d xs =
     fst (place d xs (replicate (length xs) dummy, prefix_sums n (histogram d xs)))"

definition RadixSortByAddr :: "SortMetaData list \<Rightarrow> SortMetaData list" where
  "RadixSortByAddr xs =
     (if length xs < 2 then xs
      else fold (\<lambda>shift. counting_pass \<lparr>meta_addr = 0, meta_idx = 0, isStart = False\<rparr> kRadixSize (radix_digit shift))
             [0, 16, 32, 48] xs)"

section \<open>A counting pass is a stable sort\<close>

definition below :: "('a \<Rightarrow> nat) \<Rightarrow> 'a list \<Rightarrow> nat \<Rightarrow> nat" where
  "below d xs k = length (filter (\<lambda>x. d x < k) xs)"

definition equals :: "('a \<Rightarrow> nat) \<Rightarrow> 'a list \<Rightarrow> nat \<Rightarrow> 'a list" where
  "equals d xs k = filter (\<lambda>x. d x = k) xs"

lemma below_Suc: "below d xs (Suc k) = below d xs k + length (equals d xs k)"
  by (induction xs) (auto simp: below_def equals_def less_Suc_eq)

lemma below_mono: "k \<le> k' \<Longrightarrow> below d xs k \<le> below d xs k'"
  by (induction k' rule: dec_induct) (auto simp: below_Suc)

lemma below_le: "below d xs k \<le> length xs"
  by (simp add: below_def)

lemma histogram_eq: "histogram d xs (Suc k) = length (equals d xs k) \<and> histogram d xs 0 = 0"
proof (induction xs rule: rev_induct)
  case Nil
  show ?case by (simp add: histogram_def equals_def)
next
  case (snoc x xs)
  then show ?case by (auto simp: histogram_def equals_def)
qed

lemma prefix_sums_eq:
  assumes "k \<le> n"
  shows "prefix_sums n (histogram d xs) k = below d xs k"
proof -
  have "(\<forall>k\<le>n. prefix_sums n (histogram d xs) k = below d xs k) \<and>
        (\<forall>k>n. prefix_sums n (histogram d xs) k = histogram d xs k)"
  proof (induction n)
    case 0
    show ?case using histogram_eq [of d xs] by (simp add: prefix_sums_def below_def)
  next
    case (Suc n)
    let ?c = "prefix_sums n (histogram d xs)"
    have "prefix_sums (Suc n) (histogram d xs) = ?c(Suc n := ?c (Suc n) + ?c n)"
      by (simp add: prefix_sums_def)
    then show ?case
      using Suc histogram_eq [of d xs n] by (auto simp: below_Suc le_Suc_eq)
  qed
  then show ?thesis using assms by blast
qed

lemma place_inv:
  assumes "xs = ys @ zs" "\<forall>x\<in>set xs. d x < n" "length tmp0 = length xs" "\<forall>k<n. c0 k = below d xs k"
    and "place d ys (tmp0, c0) = (tmp, c)"
  shows "length tmp = length xs \<and> (\<forall>k<n. c k = below d xs k + length (equals d ys k)) \<and>
     (\<forall>k<n. \<forall>j<length (equals d ys k). tmp ! (below d xs k + j) = equals d ys k ! j)"
  using assms
proof (induction ys arbitrary: zs tmp c rule: rev_induct)
  case Nil
  then show ?case by (simp add: place_def equals_def)
next
  case (snoc y ys)
  obtain tmp1 c1 where p: "place d ys (tmp0, c0) = (tmp1, c1)" by fastforce
  have IH: "length tmp1 = length xs" "\<forall>k<n. c1 k = below d xs k + length (equals d ys k)"
      "\<forall>k<n. \<forall>j<length (equals d ys k). tmp1 ! (below d xs k + j) = equals d ys k ! j"
    using snoc.IH [of "y # zs"] snoc.prems p by auto
  have tc: "tmp = tmp1[c1 (d y) := y]" "c = c1(d y := c1 (d y) + 1)"
    using snoc.prems(5) p by (auto simp: place_def)
  have dy: "d y < n" using snoc.prems(1,2) by simp
  have room: "length (equals d ys (d y)) < length (equals d xs (d y))"
    using snoc.prems(1) by (simp add: equals_def)
  have le: "length (equals d ys k) \<le> length (equals d xs k)" for k using snoc.prems(1) by (simp add: equals_def)
  have pos: "c1 (d y) = below d xs (d y) + length (equals d ys (d y))" using IH(2) dy by simp
  have "below d xs (Suc (d y)) \<le> length xs" by (rule below_le)
  then have lt: "c1 (d y) < length tmp1" using room pos IH(1) by (simp add: below_Suc)
  have apart: "below d xs k + j \<noteq> c1 (d y)" if "k \<noteq> d y" "j < length (equals d ys k)" for k j
  proof (cases "k < d y")
    case True
    then have "below d xs (Suc k) \<le> below d xs (d y)" by (intro below_mono) simp
    then show ?thesis using that le [of k] pos by (simp add: below_Suc)
  next
    case False
    then have "below d xs (Suc (d y)) \<le> below d xs k" using that(1) by (intro below_mono) simp
    then show ?thesis using room pos by (simp add: below_Suc)
  qed
  have eq: "equals d (ys @ [y]) k = equals d ys k @ (if k = d y then [y] else [])" for k
    by (auto simp: equals_def)
  show ?case
  proof (intro conjI allI impI)
    show "length tmp = length xs" using IH(1) tc by simp
    show "c k = below d xs k + length (equals d (ys @ [y]) k)" if "k < n" for k
      using IH(2) that tc dy by (simp add: eq)
    show "tmp ! (below d xs k + j) = equals d (ys @ [y]) k ! j" if k: "k < n" and j: "j < length (equals d (ys @ [y]) k)" for k j
    proof (cases "k = d y \<and> j = length (equals d ys k)")
      case True
      then show ?thesis using pos lt tc by (simp add: eq nth_append)
    next
      case False
      then have j': "j < length (equals d ys k)" using j by (auto simp: eq split: if_splits)
      have "below d xs k + j \<noteq> c1 (d y)" using apart [OF _ j'] False pos j' by (cases "k = d y") auto
      then show ?thesis using IH(3) k j' tc by (simp add: eq nth_append)
    qed
  qed
qed

lemma sorted_split:
  fixes d :: "'a \<Rightarrow> nat"
  assumes "sorted (map d zs)"
  shows "zs = filter (\<lambda>x. d x < k) zs @ filter (\<lambda>x. d x = k) zs @ filter (\<lambda>x. k < d x) zs" (is "_ = ?r zs")
  using assms
proof (induction zs)
  case (Cons z zs)
  have le: "\<forall>x\<in>set zs. d z \<le> d x" using Cons.prems by auto
  have IH: "zs = ?r zs" using Cons by simp
  consider "d z < k" | "d z = k" | "k < d z" by linarith
  then show ?case
  proof cases
    case 2
    then have "filter (\<lambda>x. d x < k) zs = []" using le by (auto simp: filter_empty_conv)
    then show ?thesis using IH 2 by simp
  next
    case 3
    then have "filter (\<lambda>x. d x < k) zs = []" "filter (\<lambda>x. d x = k) zs = []" using le by (auto simp: filter_empty_conv)
    then show ?thesis using IH 3 by simp
  qed (use IH in simp)
qed simp

lemma sort_key_regions:
  fixes d :: "'a \<Rightarrow> nat"
  assumes "i < length xs"
  shows "\<exists>j. j < length (equals d xs (d (sort_key d xs ! i))) \<and> i = below d xs (d (sort_key d xs ! i)) + j \<and>
     sort_key d xs ! i = equals d xs (d (sort_key d xs ! i)) ! j"
proof -
  let ?zs = "sort_key d xs" and ?k = "d (sort_key d xs ! i)"
  let ?A = "filter (\<lambda>x. d x < ?k) ?zs" and ?B = "filter (\<lambda>x. d x = ?k) ?zs" and ?C = "filter (\<lambda>x. ?k < d x) ?zs"
  have split: "?zs = ?A @ ?B @ ?C" by (rule sorted_split) simp
  have A: "length ?A = below d xs ?k"
    unfolding below_def by (metis length_sort filter_sort)
  have B: "?B = equals d xs ?k" by (simp add: equals_def sort_key_stable)
  have i: "i < length (?A @ ?B @ ?C)" using assms by (metis split length_sort)
  have notA: "\<not> i < length ?A"
  proof
    assume "i < length ?A"
    then have "?A ! i \<in> set ?A" by (rule nth_mem)
    moreover have "?zs ! i = (?A @ ?B @ ?C) ! i" using split by simp
    moreover have "(?A @ ?B @ ?C) ! i = ?A ! i" using \<open>i < length ?A\<close> by (simp add: nth_append)
    ultimately show False by auto
  qed
  have "i < length ?A + length ?B"
  proof (rule ccontr)
    assume n: "\<not> i < length ?A + length ?B"
    let ?j = "i - length ?A - length ?B"
    have j: "?j < length ?C" using n i by simp
    have "?zs ! i = (?A @ ?B @ ?C) ! i" using split by simp
    also have "\<dots> = ?C ! ?j" using n by (simp add: nth_append)
    finally have "?zs ! i \<in> set ?C" using nth_mem [OF j] by simp
    then show False by auto
  qed
  then have j: "i - length ?A < length ?B" using notA by linarith
  have "?zs ! i = (?A @ ?B @ ?C) ! i" using split by simp
  also have "\<dots> = ?B ! (i - length ?A)" using notA j by (simp add: nth_append)
  finally show ?thesis using notA j A B by (intro exI [of _ "i - length ?A"]) simp
qed

lemma counting_pass_sort:
  assumes "\<forall>x\<in>set xs. d x < n"
  shows "counting_pass dummy n d xs = sort_key d xs"
proof -
  let ?c = "prefix_sums n (histogram d xs)"
  obtain tmp c where p: "place d xs (replicate (length xs) dummy, ?c) = (tmp, c)" by fastforce
  have inv: "length tmp = length xs \<and> (\<forall>k<n. c k = below d xs k + length (equals d xs k)) \<and>
     (\<forall>k<n. \<forall>j<length (equals d xs k). tmp ! (below d xs k + j) = equals d xs k ! j)"
    by (rule place_inv [OF _ assms _ _ p, of "[]"]) (simp_all add: prefix_sums_eq)
  have "tmp = sort_key d xs"
  proof (rule nth_equalityI)
    show "length tmp = length (sort_key d xs)" using inv by simp
    fix i assume "i < length tmp"
    then have i: "i < length xs" using inv by simp
    let ?z = "sort_key d xs ! i"
    have "?z \<in> set xs" using i by (metis length_sort nth_mem set_sort)
    then have "d ?z < n" using assms by blast
    then show "tmp ! i = sort_key d xs ! i" using sort_key_regions [OF i, of d] inv by metis
  qed
  then show ?thesis using p by (simp add: counting_pass_def)
qed

section \<open>Four passes sort by address\<close>

lemma sorted_wrt_sort_key:
  fixes g :: "'a \<Rightarrow> 'b::linorder"
  assumes "sorted_wrt R zs"
  shows "sorted_wrt (\<lambda>x y. g x < g y \<or> g x = g y \<and> R x y) (sort_key g zs)"
  unfolding sorted_wrt_iff_nth_less
proof (intro allI impI)
  let ?s = "sort_key g zs"
  fix i j assume ij: "i < j" "j < length ?s"
  let ?k = "g (?s ! i)"
  have split: "?s = take i ?s @ ?s ! i # drop (Suc i) ?s" using ij by (simp add: id_take_nth_drop)
  have j: "?s ! j \<in> set (drop (Suc i) ?s)"
    using ij by (auto simp: in_set_conv_nth intro!: exI [of _ "j - Suc i"])
  have "sorted_wrt R (filter (\<lambda>x. g x = ?k) ?s)"
    using assms sorted_wrt_filter by (auto simp: sort_key_stable)
  then have "sorted_wrt R (filter (\<lambda>x. g x = ?k) (take i ?s @ ?s ! i # drop (Suc i) ?s))" using split by argo
  then have "\<forall>x\<in>set (drop (Suc i) ?s). g x = ?k \<longrightarrow> R (?s ! i) x" by (auto simp: sorted_wrt_append)
  moreover have "g (?s ! i) \<le> g (?s ! j)"
    using sorted_sort_key [of g zs] ij by (simp add: sorted_map sorted_wrt_iff_nth_less)
  ultimately show "g (?s ! i) < g (?s ! j) \<or> g (?s ! i) = g (?s ! j) \<and> R (?s ! i) (?s ! j)"
    using j by (auto simp: le_less)
qed

lemma digits_le: "(a::nat) < N \<Longrightarrow> b < N \<Longrightarrow> (g * N + a \<le> h * N + b) = (g < h \<or> g = h \<and> a \<le> b)"
proof -
  assume ab: "a < N" "b < N"
  consider "g < h" | "g = h" | "h < g" by linarith
  then show ?thesis
  proof cases
    case 1
    then have "Suc g * N \<le> h * N" by (intro mult_le_mono1) simp
    then show ?thesis using ab 1 by simp
  next
    case 3
    then have "Suc h * N \<le> g * N" by (intro mult_le_mono1) simp
    then show ?thesis using ab 3 by simp
  qed simp
qed

lemma sort_key_digits:
  assumes "\<forall>x\<in>set xs. f x < (N::nat)"
  shows "sort_key g (sort_key f xs) = sort_key (\<lambda>x. g x * N + f x) xs"
proof (rule properties_for_sort_key [symmetric])
  let ?h = "\<lambda>x. g x * N + f x" and ?ys = "sort_key g (sort_key f xs)"
  show "mset ?ys = mset xs" by simp
  have eq: "(?h k = ?h x) = (g x = g k \<and> f x = f k)" if "k \<in> set xs" "x \<in> set xs" for k x
    using assms that digits_le [of "f k" N "f x" "g k" "g x"] digits_le [of "f x" N "f k" "g x" "g k"]
    by (metis le_antisym order_refl nat_less_le)
  show "filter (\<lambda>x. ?h k = ?h x) ?ys = filter (\<lambda>x. ?h k = ?h x) xs" if "k \<in> set ?ys" for k
  proof -
    have k: "k \<in> set xs" using that by simp
    have split: "filter (\<lambda>x. ?h k = ?h x) zs = filter (\<lambda>x. f x = f k) (filter (\<lambda>x. g x = g k) zs)"
      if "set zs = set xs" for zs
      unfolding filter_filter by (rule filter_cong) (use eq k that in auto)
    have "filter (\<lambda>x. ?h k = ?h x) ?ys = filter (\<lambda>x. f x = f k) (filter (\<lambda>x. g x = g k) (sort_key f xs))"
      by (subst split) (simp_all add: sort_key_stable)
    also have "\<dots> = filter (\<lambda>x. g x = g k) (filter (\<lambda>x. f x = f k) (sort_key f xs))"
      by (simp add: filter_filter conj_commute)
    also have "\<dots> = filter (\<lambda>x. g x = g k) (filter (\<lambda>x. f x = f k) xs)" by (simp add: sort_key_stable)
    also have "\<dots> = filter (\<lambda>x. ?h k = ?h x) xs" by (subst split) (simp_all add: filter_filter conj_commute)
    finally show ?thesis .
  qed
  have "sorted_wrt (\<lambda>x y. g x < g y \<or> g x = g y \<and> f x \<le> f y) ?ys"
    by (rule sorted_wrt_sort_key) (use sorted_sort_key [of f xs] in \<open>simp add: sorted_map\<close>)
  then have "sorted_wrt (\<lambda>x y. ?h x \<le> ?h y) ?ys"
    by (rule sorted_wrt_mono_rel [rotated]) (use assms digits_le in auto)
  then show "sorted (map ?h ?ys)" by (simp add: sorted_map)
qed

lemma radix_digit_eq: "radix_digit shift x = unat (meta_addr x) div 2 ^ shift mod 2 ^ 16"
proof -
  have "radix_digit shift x = take_bit 16 (drop_bit shift (unat (meta_addr x)))"
    unfolding radix_digit_def kRadixBits_def take_bit_eq_mask [symmetric]
    using unsigned_less [of "meta_addr x", where 'a = nat]
    by (simp only: unsigned_take_bit_eq unsigned_drop_bit_eq) (simp add: take_bit_nat_eq_self)
  then show ?thesis by (simp only: drop_bit_eq_div take_bit_eq_mod)
qed

lemma radix_digit_lt: "radix_digit shift x < kRadixSize"
  by (simp add: radix_digit_eq kRadixSize_def kRadixBits_def)

lemma radix_digits:
  "((radix_digit 48 x * kRadixSize + radix_digit 32 x) * kRadixSize + radix_digit 16 x) * kRadixSize + radix_digit 0 x
   = unat (meta_addr x)"
proof -
  let ?n = "unat (meta_addr x)"
  have lt: "?n < 2 ^ 64" using unsigned_less [of "meta_addr x"] by simp
  have step: "n div (2 ^ 16) mod 2 ^ 16 + 2 ^ 16 * (n div (2 ^ 16) div 2 ^ 16) = n div (2 ^ 16)" for n :: nat by simp
  have d: "?n div 2 ^ 32 = ?n div 2 ^ 16 div 2 ^ 16" "?n div 2 ^ 48 = ?n div 2 ^ 16 div 2 ^ 16 div 2 ^ 16"
    by (simp_all add: div_mult2_eq [symmetric])
  have "?n div 2 ^ 48 < 2 ^ 16" using lt by (simp add: div_less_iff_less_mult)
  then have "?n div 2 ^ 48 mod 2 ^ 16 = ?n div 2 ^ 48" by simp
  then show ?thesis
    using step [of ?n] step [of "?n div 2 ^ 16"] div_mult_mod_eq [of ?n "2 ^ 16"]
    unfolding radix_digit_eq kRadixSize_def kRadixBits_def d by simp
qed

lemma RadixSortByAddr_sort_key: "RadixSortByAddr xs = sort_key meta_addr xs"
proof -
  have key: "sort_key meta_addr xs = sort_key (\<lambda>x. unat (meta_addr x)) xs"
  proof (rule properties_for_sort_key)
    let ?ys = "sort_key (\<lambda>x. unat (meta_addr x)) xs"
    show "mset ?ys = mset xs" by simp
    have e: "(\<lambda>x. meta_addr k = meta_addr x) = (\<lambda>x. unat (meta_addr x) = unat (meta_addr k))" for k :: SortMetaData
      by (auto simp: word_unat_eq_iff)
    show "filter (\<lambda>x. meta_addr k = meta_addr x) ?ys = filter (\<lambda>x. meta_addr k = meta_addr x) xs" for k :: SortMetaData
      unfolding e by (simp only: sort_key_stable)
    show "sorted (map meta_addr ?ys)"
      using sorted_sort_key [of "\<lambda>x. unat (meta_addr x)" xs] by (simp add: sorted_map word_le_nat_alt)
  qed
  show ?thesis
  proof (cases "length xs < 2")
    case True
    then show ?thesis by (cases xs rule: list.exhaust) (auto simp: RadixSortByAddr_def less_2_cases_iff length_Suc_conv)
  next
    case False
    have join: "sort_key h (sort_key (radix_digit k) ys) = sort_key (\<lambda>x. h x * kRadixSize + radix_digit k x) ys" for h k ys
      by (rule sort_key_digits) (simp add: radix_digit_lt)
    have "RadixSortByAddr xs = sort_key (radix_digit 48) (sort_key (radix_digit 32) (sort_key (radix_digit 16) (sort_key (radix_digit 0) xs)))"
      using False by (simp add: RadixSortByAddr_def counting_pass_sort radix_digit_lt)
    also have "\<dots> = sort_key (\<lambda>x. ((radix_digit 48 x * kRadixSize + radix_digit 32 x) * kRadixSize + radix_digit 16 x)
        * kRadixSize + radix_digit 0 x) xs"
      by (subst join, subst join, subst join) (rule refl)
    finally show ?thesis unfolding key radix_digits .
  qed
qed

section \<open>The order of the scanline\<close>

lemma RadixSortByAddr_sorted:
  assumes "\<forall>x\<in>set ends. \<not> isStart x" "sorted_wrt (<) (map meta_idx ends)"
    and "\<forall>x\<in>set starts. isStart x" "sorted_wrt (<) (map meta_idx starts)"
  shows "mset (RadixSortByAddr (ends @ starts)) = mset (ends @ starts) \<and>
     sorted_wrt CompareEvent (RadixSortByAddr (ends @ starts))"
proof -
  let ?R = "\<lambda>l r. if isStart l = isStart r then meta_idx l < meta_idx r else \<not> isStart l \<and> isStart r"
  have "sorted_wrt ?R ends"
    using assms(2) unfolding sorted_wrt_map by (rule sorted_wrt_mono_rel [rotated]) (use assms(1) in auto)
  moreover have "sorted_wrt ?R starts"
    using assms(4) unfolding sorted_wrt_map by (rule sorted_wrt_mono_rel [rotated]) (use assms(3) in auto)
  ultimately have "sorted_wrt ?R (ends @ starts)" using assms(1,3) by (auto simp: sorted_wrt_append)
  from sorted_wrt_sort_key [OF this, of meta_addr]
  have "sorted_wrt CompareEvent (sort_key meta_addr (ends @ starts))"
    by (rule sorted_wrt_mono_rel [rotated]) (auto simp: CompareEvent_def)
  then show ?thesis by (simp add: RadixSortByAddr_sort_key)
qed

text \<open>
  C26. Given the end points before the start points, each group with ascending event index,
  \<open>RadixSortByAddr\<close> permutes its input and the result is strictly ordered by \<open>CompareEvent\<close>: by
  address, at one address ends before starts, and then by event index.
\<close>

theorem RadixSortByAddr_CompareEvent:
  assumes "\<forall>x\<in>set ends. \<not> isStart x" "sorted_wrt (<) (map meta_idx ends)"
    and "\<forall>x\<in>set starts. isStart x" "sorted_wrt (<) (map meta_idx starts)"
  shows "mset (RadixSortByAddr (ends @ starts)) = mset (ends @ starts) \<and>
     sorted_wrt CompareEvent (RadixSortByAddr (ends @ starts))"
  using assms by (rule RadixSortByAddr_sorted)

theorem RadixSortByAddr_CompareEvent_witness:
  "mset (RadixSortByAddr ([\<lparr>meta_addr = 70000, meta_idx = 0, isStart = False\<rparr>] @ [\<lparr>meta_addr = 3, meta_idx = 0, isStart = True\<rparr>]))
     = mset ([\<lparr>meta_addr = 70000, meta_idx = 0, isStart = False\<rparr>] @ [\<lparr>meta_addr = 3, meta_idx = 0, isStart = True\<rparr>])
   \<and> sorted_wrt CompareEvent
       (RadixSortByAddr ([\<lparr>meta_addr = 70000, meta_idx = 0, isStart = False\<rparr>] @ [\<lparr>meta_addr = 3, meta_idx = 0, isStart = True\<rparr>]))"
  by (rule RadixSortByAddr_CompareEvent) simp_all

end
