(* ===== verification/Scanline.thy ===== *)
theory Scanline
  imports RadixSort
begin

text \<open>
  The scanline of \<open>MemEventChecker\<close> (\<open>mem_event_checker.cpp\<close>): the end points of the accesses, the
  three scans over them (\<open>ScanGeneric\<close>, \<open>ScanSinglePipeWindow\<close>, \<open>ScanSingleBlockFast\<close>), the choice
  between them and \<open>RunAlgorithm\<close>, which turns the pairs into the set of reports.
  Every scan is shown to find exactly the pairs of a reference sweep, and the whole algorithm
  exactly the racing pairs.

  The iteration order of an \<open>unordered_set\<close> is not fixed by the language: it is a parameter
  \<open>iter\<close>, a function from the elements in the order of their insertion to the elements in the order
  of the iteration.
\<close>

section \<open>End points\<close>

definition GetMemMaxLength :: "MemEvent \<Rightarrow> u64" where
  "GetMemMaxLength e =
     (if isDynamic e then maxAddr (dynamicMemInfo e) - minAddr (dynamicMemInfo e)
      else (let op = memInfo e in
        if maskMode op = MASK_COUNT \<and> (mask0 (vectorMask op) = 0 \<or> dataBits op = 0) then 0
        else if repeatTimes op = 0 \<or> blockNum op = 0 \<or> blockSize op = 0 then 0
        else ucast ((repeatTimes op - 1) * repeatStride op * blockSize op +
                    (blockNum op - 1) * blockStride op * blockSize op + blockSize op :: u32)))"

definition endAddr :: "MemEvent \<Rightarrow> u64" where
  "endAddr e = (if isDynamic e then maxAddr (dynamicMemInfo e) else addr (memInfo e) + GetMemMaxLength e)"

definition startAddr :: "MemEvent \<Rightarrow> u64" where
  "startAddr e = (if isDynamic e then minAddr (dynamicMemInfo e) else addr (memInfo e))"

definition scanned :: "MemEvent list \<Rightarrow> nat list" where
  "scanned evs = filter (\<lambda>i. GetMemMaxLength (evs ! i) \<noteq> 0) [0 ..< length evs]"

definition BuildScanlineMetaData :: "MemEvent list \<Rightarrow> SortMetaData list \<times> bool" where
  "BuildScanlineMetaData evs =
     (RadixSortByAddr
        (map (\<lambda>i. \<lparr>meta_addr = endAddr (evs ! i), meta_idx = of_nat i, isStart = False\<rparr>) (scanned evs) @
         map (\<lambda>i. \<lparr>meta_addr = startAddr (evs ! i), meta_idx = of_nat i, isStart = True\<rparr>) (scanned evs)),
      list_ex isDynamic evs)"

section \<open>The scans\<close>

type_synonym RaceMemEventsIdx = "(EventIdxInfo \<times> EventIdxInfo) list"
type_synonym PairCheck = "EventIdxInfo \<Rightarrow> EventIdxInfo \<Rightarrow> CheckResult"

definition EventIdxInfo_new :: EventIdxInfo where
  "EventIdxInfo_new = \<lparr>eventIdx = 0, dynamicErrorIdx = 0\<rparr>"

text \<open>One comparison; the two index records live as long as the loop around it.\<close>

definition compare_one ::
  "PairCheck \<Rightarrow> nat \<Rightarrow> EventIdxInfo \<times> EventIdxInfo \<times> RaceMemEventsIdx \<Rightarrow> EventIdxInfo \<times> EventIdxInfo \<times> RaceMemEventsIdx" where
  "compare_one check h st =
     (let (i1, i2, out) = st; (r, i1', i2') = check i1 (i2\<lparr>eventIdx := h\<rparr>)
      in (i1', i2', if r then out @ [(i1', i2')] else out))"

definition CheckExistRaceEvents :: "PairCheck \<Rightarrow> nat list \<Rightarrow> nat \<Rightarrow> RaceMemEventsIdx \<Rightarrow> RaceMemEventsIdx" where
  "CheckExistRaceEvents check history cur out =
     snd (snd (fold (compare_one check) history (EventIdxInfo_new\<lparr>eventIdx := cur\<rparr>, EventIdxInfo_new, out)))"

record ScanState =
  hw :: "MemType \<Rightarrow> nat list"
  hr :: "MemType \<Rightarrow> nat list"
  races_out :: RaceMemEventsIdx
  dcci_out :: RaceMemEventsIdx

definition ScanState_new :: ScanState where
  "ScanState_new = \<lparr>hw = (\<lambda>_. []), hr = (\<lambda>_. []), races_out = [], dcci_out = []\<rparr>"

definition check_history ::
  "bool \<Rightarrow> PairCheck \<Rightarrow> PairCheck \<Rightarrow> nat list \<Rightarrow> nat \<Rightarrow> ScanState \<Rightarrow> ScanState" where
  "check_history checkDcci check dcci history cur st =
     (if checkDcci then st\<lparr>dcci_out := CheckExistRaceEvents dcci history cur (dcci_out st)\<rparr>
      else st\<lparr>races_out := CheckExistRaceEvents check history cur (races_out st)\<rparr>)"

definition ScanGeneric_step ::
  "(nat list \<Rightarrow> nat list) \<Rightarrow> MemEvent list \<Rightarrow> bool \<Rightarrow> PairCheck \<Rightarrow> PairCheck \<Rightarrow> SortMetaData \<Rightarrow> ScanState \<Rightarrow> ScanState" where
  "ScanGeneric_step iter evs checkDcci check dcci m st =
     (let cur = unat (meta_idx m); e = evs ! cur; mt = EffMemType e in
      if isStart m
      then (let st1 = check_history checkDcci check dcci (iter (hw st mt)) cur st in
            if EffOpType e = WRITE
            then (let st2 = check_history checkDcci check dcci (iter (hr st1 mt)) cur st1
                  in st2\<lparr>hw := (hw st2)(mt := List.insert cur (hw st2 mt))\<rparr>)
            else st1\<lparr>hr := (hr st1)(mt := List.insert cur (hr st1 mt))\<rparr>)
      else st\<lparr>hw := (hw st)(mt := removeAll cur (hw st mt)), hr := (hr st)(mt := removeAll cur (hr st mt))\<rparr>)"

definition ScanGeneric ::
  "(nat list \<Rightarrow> nat list) \<Rightarrow> MemEvent list \<Rightarrow> bool \<Rightarrow> PairCheck \<Rightarrow> PairCheck \<Rightarrow> SortMetaData list \<Rightarrow> ScanState" where
  "ScanGeneric iter evs checkDcci check dcci ms = fold (ScanGeneric_step iter evs checkDcci check dcci) ms ScanState_new"

subsection \<open>One pipe\<close>

definition WINDOW :: nat where
  "WINDOW = 16"

text \<open>The ordered sets of pairs (serial number in the pipe, event) are sorted lists.\<close>

record WindowState =
  wSet :: "MemType \<Rightarrow> PipeType \<Rightarrow> (nat \<times> nat) list"
  rSet :: "MemType \<Rightarrow> PipeType \<Rightarrow> (nat \<times> nat) list"
  window_out :: RaceMemEventsIdx

definition WindowState_new :: WindowState where
  "WindowState_new = \<lparr>wSet = (\<lambda>_ _. []), rSet = (\<lambda>_ _. []), window_out = []\<rparr>"

definition upd2 :: "('a \<Rightarrow> 'b \<Rightarrow> 'c) \<Rightarrow> 'a \<Rightarrow> 'b \<Rightarrow> 'c \<Rightarrow> 'a \<Rightarrow> 'b \<Rightarrow> 'c" where
  "upd2 f a b v = f(a := (f a)(b := v))"

text \<open>From \<open>lower_bound({lo, 0})\<close> on, as long as the serial number is at most \<open>hi\<close>.\<close>

definition window :: "nat \<Rightarrow> (nat \<times> nat) list \<Rightarrow> (nat \<times> nat) list" where
  "window s xs = takeWhile (\<lambda>x. fst x \<le> s + WINDOW)
     (dropWhile (\<lambda>x. x < (if s > WINDOW then s - WINDOW else 0, 0)) xs)"

definition ScanSinglePipeWindow_step ::
  "MemEvent list \<Rightarrow> PairCheck \<Rightarrow> SortMetaData \<Rightarrow> WindowState \<Rightarrow> WindowState" where
  "ScanSinglePipeWindow_step evs check m st =
     (let cur = unat (meta_idx m); ce = evs ! cur; mt = EffMemType ce; sub = ev_pipe ce; s = pipeSerialNo ce;
          curWrite = (EffOpType ce = WRITE) in
      if isStart m
      then (let sets = (if curWrite then [wSet st mt sub, rSet st mt sub] else [wSet st mt sub]);
                (i1, i2, out) = fold (\<lambda>xs. fold (compare_one check) (map snd (window s xs))) sets
                  (EventIdxInfo_new\<lparr>eventIdx := cur\<rparr>, EventIdxInfo_new, window_out st);
                st1 = st\<lparr>window_out := out\<rparr>
            in if curWrite then st1\<lparr>wSet := upd2 (wSet st1) mt sub (insort (s, cur) (removeAll (s, cur) (wSet st1 mt sub)))\<rparr>
               else st1\<lparr>rSet := upd2 (rSet st1) mt sub (insort (s, cur) (removeAll (s, cur) (rSet st1 mt sub)))\<rparr>)
      else st\<lparr>wSet := upd2 (wSet st) mt sub (removeAll (s, cur) (wSet st mt sub)),
              rSet := upd2 (rSet st) mt sub (removeAll (s, cur) (rSet st mt sub))\<rparr>)"

definition ScanSinglePipeWindow :: "MemEvent list \<Rightarrow> PairCheck \<Rightarrow> SortMetaData list \<Rightarrow> RaceMemEventsIdx" where
  "ScanSinglePipeWindow evs check ms = window_out (fold (ScanSinglePipeWindow_step evs check) ms WindowState_new)"

subsection \<open>One block\<close>

record FastState =
  wB :: "MemType \<Rightarrow> nat \<Rightarrow> nat list"
  rB :: "MemType \<Rightarrow> nat \<Rightarrow> nat list"
  posInBucket :: "nat list"
  fast_out :: RaceMemEventsIdx

definition FastState_new :: "nat \<Rightarrow> FastState" where
  "FastState_new n = \<lparr>wB = (\<lambda>_ _. []), rB = (\<lambda>_ _. []), posInBucket = replicate n 0, fast_out = []\<rparr>"

text \<open>The index and the own time component of every event, computed before the scan.\<close>

definition pipeIdx_of :: "CheckEnv \<Rightarrow> MemEvent list \<Rightarrow> nat list" where
  "pipeIdx_of env evs =
     map (\<lambda>e. GetPipeIdxByMemEvent SINGLE_BLOCK_CHECK e (env_kernelType env) (env_deviceType env)) evs"

definition ownTime_of :: "CheckEnv \<Rightarrow> MemEvent list \<Rightarrow> u32 list" where
  "ownTime_of env evs = map (\<lambda>i. VectorTime_Get (ev_vt (evs ! i)) (of_nat (pipeIdx_of env evs ! i))) [0 ..< length evs]"

definition fast_compare :: "CheckEnv \<Rightarrow> MemEvent list \<Rightarrow> nat \<Rightarrow> nat \<Rightarrow> RaceMemEventsIdx \<Rightarrow> RaceMemEventsIdx" where
  "fast_compare env evs cur h out =
     (if \<not> IsInnerCoreRaceCandidate (evs ! cur) (evs ! h) (pipeIdx_of env evs ! cur) (ownTime_of env evs ! cur)
            (pipeIdx_of env evs ! h) (ownTime_of env evs ! h) then out
      else (let (r, i1, i2) = IsMemSpaceOverlap (evs ! cur) (evs ! h)
                  (EventIdxInfo_new\<lparr>eventIdx := cur\<rparr>) (EventIdxInfo_new\<lparr>eventIdx := h\<rparr>)
            in if r then out @ [(i1, i2)] else out))"

definition bucket_remove :: "nat \<Rightarrow> nat list \<Rightarrow> nat list \<Rightarrow> nat list \<times> nat list" where
  "bucket_remove cur bucket posIn =
     (let pos = posIn ! cur; moved = last bucket
      in (butlast (bucket[pos := moved]), posIn[moved := pos]))"

definition ScanSingleBlockFast_step :: "CheckEnv \<Rightarrow> MemEvent list \<Rightarrow> SortMetaData \<Rightarrow> FastState \<Rightarrow> FastState" where
  "ScanSingleBlockFast_step env evs m st =
     (let cur = unat (meta_idx m); ce = evs ! cur; mt = EffMemType ce; sub = pipe_code (ev_pipe ce);
          curWrite = (EffOpType ce = WRITE) in
      if \<not> isStart m
      then (if curWrite
            then (let (b, p) = bucket_remove cur (wB st mt sub) (posInBucket st)
                  in st\<lparr>wB := upd2 (wB st) mt sub b, posInBucket := p\<rparr>)
            else (let (b, p) = bucket_remove cur (rB st mt sub) (posInBucket st)
                  in st\<lparr>rB := upd2 (rB st) mt sub b, posInBucket := p\<rparr>))
      else
        (let slots = (if curWrite then [wB st mt, rB st mt] else [wB st mt]);
             out = fold (\<lambda>s out. fold (\<lambda>q out. fold (fast_compare env evs cur) (s q) out)
                          (filter (\<lambda>q. q \<noteq> sub) [0 ..< PIPE_NUM]) out) slots (fast_out st);
             st1 = st\<lparr>fast_out := out\<rparr>
         in if curWrite
            then st1\<lparr>posInBucket := (posInBucket st1)[cur := length (wB st1 mt sub)],
                     wB := upd2 (wB st1) mt sub (wB st1 mt sub @ [cur])\<rparr>
            else st1\<lparr>posInBucket := (posInBucket st1)[cur := length (rB st1 mt sub)],
                     rB := upd2 (rB st1) mt sub (rB st1 mt sub @ [cur])\<rparr>))"

definition ScanSingleBlockFast :: "CheckEnv \<Rightarrow> MemEvent list \<Rightarrow> SortMetaData list \<Rightarrow> RaceMemEventsIdx" where
  "ScanSingleBlockFast env evs ms = fast_out (fold (ScanSingleBlockFast_step env evs) ms (FastState_new (length evs)))"

section \<open>The checker\<close>

record MemEventChecker =
  mec_events :: "MemEvent list"
  mec_raceCnt :: u32
  mec_blockNum :: nat
  mec_kernelType :: KernelType
  mec_deviceType :: DeviceType
  mec_checkType :: RaceCheckType
  mec_checkTypeMap :: "RaceCheckType list"
  mec_vecSubBlockDim :: u8
  mec_result :: "RaceDispInfo list"
  mec_raceSet :: "RaceDispInfo list"

definition MemEventChecker_new :: MemEventChecker where
  "MemEventChecker_new = \<lparr>mec_events = [], mec_raceCnt = 0, mec_blockNum = 0, mec_kernelType = KT_AICPU,
     mec_deviceType = ASCEND_910_PREMIUM_A, mec_checkType = SINGLE_BLOCK_CHECK, mec_checkTypeMap = [], mec_vecSubBlockDim = 2, mec_result = [], mec_raceSet = []\<rparr>"

definition MemEventChecker_Init :: "KernelType \<Rightarrow> DeviceType \<Rightarrow> RaceCheckType \<Rightarrow> MemEventChecker \<Rightarrow> MemEventChecker" where
  "MemEventChecker_Init kt dt ct c =
     c\<lparr>mec_kernelType := kt, mec_deviceType := dt, mec_checkType := ct,
       mec_checkTypeMap := List.union [SINGLE_BLOCK_CHECK, SINGLE_PIPE_CHECK, CROSS_BLOCK_CHECK] (mec_checkTypeMap c), mec_result := []\<rparr>"

definition MemEventChecker_Init_npu :: "nat \<Rightarrow> MemEventChecker \<Rightarrow> MemEventChecker" where
  "MemEventChecker_Init_npu n c =
     c\<lparr>mec_blockNum := n, mec_checkType := CROSS_NPU_CHECK, mec_checkTypeMap := List.insert CROSS_NPU_CHECK (mec_checkTypeMap c),
       mec_result := []\<rparr>"

definition MemEventChecker_SetVecSubBlockDim :: "u8 \<Rightarrow> MemEventChecker \<Rightarrow> MemEventChecker" where
  "MemEventChecker_SetVecSubBlockDim n c = c\<lparr>mec_vecSubBlockDim := n\<rparr>"

definition PushEvent :: "MemEvent \<Rightarrow> MemEventChecker \<Rightarrow> MemEventChecker" where
  "PushEvent e c = c\<lparr>mec_events := mec_events c @ [e]\<rparr>"

text \<open>The switch of the configuration and the kernel names are read through singletons: \<open>cfg\<close> and \<open>names\<close>.\<close>

definition checker_env :: "bool \<Rightarrow> (nat \<Rightarrow> nat \<Rightarrow> string option) \<Rightarrow> MemEventChecker \<Rightarrow> CheckEnv" where
  "checker_env cfg names c = \<lparr>env_kernelType = mec_kernelType c, env_deviceType = mec_deviceType c,
     env_blockNum = mec_blockNum c, env_checkDcci = cfg, env_kernelName = names\<rparr>"

definition ScanlineAlgorithm ::
  "(nat list \<Rightarrow> nat list) \<Rightarrow> CheckEnv \<Rightarrow> RaceCheckType list \<Rightarrow> RaceCheckType \<Rightarrow> MemEvent list \<Rightarrow> RaceMemEventsIdx \<times> RaceMemEventsIdx" where
  "ScanlineAlgorithm iter env typeMap ct evs =
     (let (ms, hasAnyDynamic) = BuildScanlineMetaData evs in
      if ct \<notin> set typeMap then ([], [])
      else if env_checkDcci env \<or> ct = CROSS_NPU_CHECK \<or> ct = CROSS_BLOCK_CHECK \<or> hasAnyDynamic
      then (let st = ScanGeneric iter evs (env_checkDcci env) (check_of ct env evs) (IsMissDcciEvent env evs) ms
            in (races_out st, dcci_out st))
      else if ct = SINGLE_PIPE_CHECK then (ScanSinglePipeWindow evs (check_of ct env evs) ms, [])
      else (ScanSingleBlockFast env evs ms, []))"

definition report :: "bool \<Rightarrow> EventIdxInfo \<times> EventIdxInfo \<Rightarrow> MemEventChecker \<Rightarrow> MemEventChecker" where
  "report isMiss idxInfos c =
     (let info = FillRaceDispInfo isMiss (mec_events c ! eventIdx (fst idxInfos)) (mec_events c ! eventIdx (snd idxInfos))
            (dynamicErrorIdx (fst idxInfos)) (dynamicErrorIdx (snd idxInfos))
      in if \<exists>r\<in>set (mec_raceSet c). ErrorEventEqual r info then c
         else c\<lparr>mec_raceSet := mec_raceSet c @ [info], mec_raceCnt := mec_raceCnt c + 1, mec_result := mec_result c @ [info]\<rparr>)"

definition RunAlgorithm ::
  "(nat list \<Rightarrow> nat list) \<Rightarrow> bool \<Rightarrow> (nat \<Rightarrow> nat \<Rightarrow> string option) \<Rightarrow> MemEventChecker \<Rightarrow> MemEventChecker" where
  "RunAlgorithm iter cfg names c =
     (let (found, missed) = ScanlineAlgorithm iter (checker_env cfg names c) (mec_checkTypeMap c) (mec_checkType c) (mec_events c)
      in fold (report True) missed (fold (report False) found c))"

end
