(* ===== verification/ScanlineCorrect.thy ===== *)
theory ScanlineCorrect
  imports Scanline
begin

text \<open>
  Correctness of the scanline: the three scans agree with a reference sweep over the end points,
  the sweep compares exactly the accesses whose address ranges meet, and the checker reports
  exactly the pairs that pass the test of its check type.
\<close>

section \<open>The reference sweep\<close>

definition meta_nat :: "SortMetaData \<Rightarrow> nat" where
  "meta_nat m = unat (meta_idx m)"

definition starts :: "SortMetaData list \<Rightarrow> nat set" where
  "starts ms = meta_nat ` {m \<in> set ms. isStart m}"

definition ends :: "SortMetaData list \<Rightarrow> nat set" where
  "ends ms = meta_nat ` {m \<in> set ms. \<not> isStart m}"

definition active :: "SortMetaData list \<Rightarrow> nat set" where
  "active ms = starts ms - ends ms"

text \<open>Every event starts once and ends once, after its start.\<close>

definition scan_ok :: "nat \<Rightarrow> SortMetaData list \<Rightarrow> bool" where
  "scan_ok n ms \<longleftrightarrow> (\<forall>ps m qs. ms = ps @ m # qs \<longrightarrow> meta_nat m < n \<and>
     (if isStart m then meta_nat m \<notin> starts ps \<and> meta_nat m \<notin> ends ps else meta_nat m \<in> active ps))"

definition sweep_pairs :: "(nat \<Rightarrow> nat \<Rightarrow> bool) \<Rightarrow> SortMetaData list \<Rightarrow> (nat \<times> nat) set" where
  "sweep_pairs C ms = {(c, h). \<exists>ps m qs. ms = ps @ m # qs \<and> isStart m \<and> meta_nat m = c \<and> h \<in> active ps \<and> C c h}"

lemma starts_simps [simp]: "starts [] = {}" "starts (ps @ qs) = starts ps \<union> starts qs"
    "starts (m # ps) = (if isStart m then insert (meta_nat m) (starts ps) else starts ps)"
  by (auto simp: starts_def)

lemma ends_simps [simp]: "ends [] = {}" "ends (ps @ qs) = ends ps \<union> ends qs"
    "ends (m # ps) = (if isStart m then ends ps else insert (meta_nat m) (ends ps))"
  by (auto simp: ends_def)

lemma scan_ok_snoc:
  "scan_ok n (ms @ [m]) \<longleftrightarrow> scan_ok n ms \<and> meta_nat m < n \<and>
     (if isStart m then meta_nat m \<notin> starts ms \<and> meta_nat m \<notin> ends ms else meta_nat m \<in> active ms)"
  (is "?l \<longleftrightarrow> ?r")
proof
  assume l: ?l
  have "scan_ok n ms"
    unfolding scan_ok_def
  proof (intro allI impI)
    fix ps k qs assume "ms = ps @ k # qs"
    then have "ms @ [m] = ps @ k # (qs @ [m])" by simp
    then show "meta_nat k < n \<and> (if isStart k then meta_nat k \<notin> starts ps \<and> meta_nat k \<notin> ends ps else meta_nat k \<in> active ps)"
      using l unfolding scan_ok_def by blast
  qed
  moreover have "meta_nat m < n \<and> (if isStart m then meta_nat m \<notin> starts ms \<and> meta_nat m \<notin> ends ms else meta_nat m \<in> active ms)"
    using l unfolding scan_ok_def by blast
  ultimately show ?r by simp
next
  assume r: ?r
  show ?l
    unfolding scan_ok_def
  proof (intro allI impI)
    fix ps k qs assume eq: "ms @ [m] = ps @ k # qs"
    show "meta_nat k < n \<and> (if isStart k then meta_nat k \<notin> starts ps \<and> meta_nat k \<notin> ends ps else meta_nat k \<in> active ps)"
    proof (cases qs rule: rev_exhaust)
      case Nil
      then show ?thesis using eq r by auto
    next
      case (snoc qs' q)
      then have "ms = ps @ k # qs'" using eq by simp
      then show ?thesis using r unfolding scan_ok_def by blast
    qed
  qed
qed

lemma scan_ok_Nil [simp]: "scan_ok n []"
  by (simp add: scan_ok_def)

lemma active_Nil [simp]: "active [] = {}"
  by (simp add: active_def)

lemma active_snoc:
  assumes "scan_ok n (ms @ [m])"
  shows "active (ms @ [m]) = (if isStart m then insert (meta_nat m) (active ms) else active ms - {meta_nat m})"
  using assms by (auto simp: active_def scan_ok_snoc)

lemma starts_lt: "scan_ok n ms \<Longrightarrow> h \<in> starts ms \<Longrightarrow> h < n"
  by (induction ms rule: rev_induct) (auto simp: scan_ok_snoc split: if_splits)

lemma active_lt: "scan_ok n ms \<Longrightarrow> h \<in> active ms \<Longrightarrow> h < n"
  by (simp add: active_def starts_lt)

lemma sweep_pairs_Nil [simp]: "sweep_pairs C [] = {}"
  by (simp add: sweep_pairs_def)

lemma sweep_pairs_snoc:
  "sweep_pairs C (ms @ [m]) =
     sweep_pairs C ms \<union> (if isStart m then {(meta_nat m, h) |h. h \<in> active ms \<and> C (meta_nat m) h} else {})"
  (is "?l = ?r")
proof
  show "?l \<subseteq> ?r"
  proof
    fix x assume "x \<in> ?l"
    then obtain ps k qs h where eq: "ms @ [m] = ps @ k # qs" and x: "x = (meta_nat k, h)" "isStart k" "h \<in> active ps" "C (meta_nat k) h"
      unfolding sweep_pairs_def by blast
    show "x \<in> ?r"
    proof (cases qs rule: rev_exhaust)
      case Nil
      then show ?thesis using eq x by simp
    next
      case (snoc qs' q)
      then have "ms = ps @ k # qs'" using eq by simp
      then have "x \<in> sweep_pairs C ms" using x unfolding sweep_pairs_def by blast
      then show ?thesis by simp
    qed
  qed
  show "?r \<subseteq> ?l"
  proof
    fix x assume "x \<in> ?r"
    then consider "x \<in> sweep_pairs C ms" | h where "isStart m" "x = (meta_nat m, h)" "h \<in> active ms" "C (meta_nat m) h"
      by (auto split: if_splits)
    then show "x \<in> ?l"
    proof cases
      case 1
      then obtain ps k qs h where "ms = ps @ k # qs" and x: "x = (meta_nat k, h)" "isStart k" "h \<in> active ps" "C (meta_nat k) h"
        unfolding sweep_pairs_def by blast
      then have "ms @ [m] = ps @ k # (qs @ [m])" by simp
      then show ?thesis using x unfolding sweep_pairs_def by blast
    next
      case 2
      then show ?thesis unfolding sweep_pairs_def by blast
    qed
  qed
qed

lemma sweep_pairs_cong:
  "(\<And>c h. c < n \<Longrightarrow> h < n \<Longrightarrow> C c h = D c h) \<Longrightarrow> scan_ok n ms \<Longrightarrow> sweep_pairs C ms = sweep_pairs D ms"
proof (induction ms rule: rev_induct)
  case (snoc m ms)
  have ok: "scan_ok n ms" "meta_nat m < n" using snoc.prems(2) by (auto simp: scan_ok_snoc)
  have "{(meta_nat m, h) |h. h \<in> active ms \<and> C (meta_nat m) h} = {(meta_nat m, h) |h. h \<in> active ms \<and> D (meta_nat m) h}"
    using snoc.prems(1) ok active_lt by blast
  then show ?case using snoc.IH [OF snoc.prems(1) ok(1)] by (simp add: sweep_pairs_snoc)
qed simp

section \<open>Comparisons\<close>

definition idx_pairs :: "RaceMemEventsIdx \<Rightarrow> (nat \<times> nat) set" where
  "idx_pairs out = (\<lambda>(a, b). (eventIdx a, eventIdx b)) ` set out"

text \<open>A test is stable below \<open>n\<close> when it leaves the index records alone and depends only on the events.\<close>

definition stable :: "nat \<Rightarrow> PairCheck \<Rightarrow> bool" where
  "stable n check \<longleftrightarrow> (\<forall>i1 i2. eventIdx i1 < n \<longrightarrow> eventIdx i2 < n \<longrightarrow>
     check i1 i2 = (pair_test check (eventIdx i1) (eventIdx i2), i1, i2))"

lemma idx_pairs_simps [simp]: "idx_pairs [] = {}"
    "idx_pairs (xs @ [(a, b)]) = insert (eventIdx a, eventIdx b) (idx_pairs xs)"
  by (auto simp: idx_pairs_def)

lemma fold_compare_one:
  assumes "stable n check" "eventIdx i1 < n" "\<forall>h\<in>set hs. h < n"
  shows "\<exists>i2' out'. fold (compare_one check) hs (i1, i2, out) = (i1, i2', out') \<and>
     idx_pairs out' = idx_pairs out \<union> {(eventIdx i1, h) |h. h \<in> set hs \<and> pair_test check (eventIdx i1) h}"
  using assms(3)
proof (induction hs arbitrary: i2 out)
  case (Cons h hs)
  have "check i1 (i2\<lparr>eventIdx := h\<rparr>) = (pair_test check (eventIdx i1) h, i1, i2\<lparr>eventIdx := h\<rparr>)"
    using assms(1,2) Cons.prems unfolding stable_def by simp
  then have one: "compare_one check h (i1, i2, out) = (i1, i2\<lparr>eventIdx := h\<rparr>,
      if pair_test check (eventIdx i1) h then out @ [(i1, i2\<lparr>eventIdx := h\<rparr>)] else out)"
    by (simp add: compare_one_def)
  from Cons.IH obtain i2' out' where IH: "fold (compare_one check) hs (compare_one check h (i1, i2, out)) = (i1, i2', out')"
      "idx_pairs out' = idx_pairs (if pair_test check (eventIdx i1) h then out @ [(i1, i2\<lparr>eventIdx := h\<rparr>)] else out) \<union>
         {(eventIdx i1, h) |h. h \<in> set hs \<and> pair_test check (eventIdx i1) h}"
    using Cons.prems unfolding one by fastforce
  then show ?case by (auto split: if_splits)
qed simp

lemma CheckExistRaceEvents_pairs:
  assumes "stable n check" "cur < n" "\<forall>h\<in>set hs. h < n"
  shows "idx_pairs (CheckExistRaceEvents check hs cur out) =
     idx_pairs out \<union> {(cur, h) |h. h \<in> set hs \<and> pair_test check cur h}"
proof -
  let ?i = "EventIdxInfo_new\<lparr>eventIdx := cur\<rparr>"
  obtain i2' out' where "fold (compare_one check) hs (?i, EventIdxInfo_new, out) = (?i, i2', out')"
      "idx_pairs out' = idx_pairs out \<union> {(eventIdx ?i, h) |h. h \<in> set hs \<and> pair_test check (eventIdx ?i) h}"
    using fold_compare_one [OF assms(1) _ assms(3), of ?i] assms(2) by fastforce
  then show ?thesis by (simp add: CheckExistRaceEvents_def)
qed

definition same_mem :: "MemEvent list \<Rightarrow> nat \<Rightarrow> nat \<Rightarrow> bool" where
  "same_mem evs c h \<longleftrightarrow> EffMemType (evs ! c) = EffMemType (evs ! h)"

definition is_write :: "MemEvent list \<Rightarrow> nat \<Rightarrow> bool" where
  "is_write evs h \<longleftrightarrow> EffOpType (evs ! h) = WRITE"

definition compared :: "MemEvent list \<Rightarrow> (nat \<Rightarrow> nat \<Rightarrow> bool) \<Rightarrow> nat \<Rightarrow> nat \<Rightarrow> bool" where
  "compared evs C c h \<longleftrightarrow> same_mem evs c h \<and> (is_write evs c \<or> is_write evs h) \<and> C c h"

section \<open>The generic scan\<close>

definition the_out :: "bool \<Rightarrow> ScanState \<Rightarrow> RaceMemEventsIdx" where
  "the_out d st = (if d then dcci_out st else races_out st)"

definition generic_inv :: "MemEvent list \<Rightarrow> bool \<Rightarrow> (nat \<Rightarrow> nat \<Rightarrow> bool) \<Rightarrow> SortMetaData list \<Rightarrow> ScanState \<Rightarrow> bool" where
  "generic_inv evs d C ms st \<longleftrightarrow>
     (\<forall>mt. set (hw st mt) = {h \<in> active ms. EffMemType (evs ! h) = mt \<and> is_write evs h}) \<and>
     (\<forall>mt. set (hr st mt) = {h \<in> active ms. EffMemType (evs ! h) = mt \<and> \<not> is_write evs h}) \<and>
     idx_pairs (the_out d st) = sweep_pairs (compared evs C) ms \<and> the_out (\<not> d) st = []"

lemma check_history_simps [simp]:
  "hw (check_history d check dcci hs cur st) = hw st" "hr (check_history d check dcci hs cur st) = hr st"
  "the_out d (check_history d check dcci hs cur st) =
     CheckExistRaceEvents (if d then dcci else check) hs cur (the_out d st)"
  "the_out (\<not> d) (check_history d check dcci hs cur st) = the_out (\<not> d) st"
  by (auto simp: check_history_def the_out_def)

lemma the_out_upd [simp]: "the_out d (st\<lparr>hw := x\<rparr>) = the_out d st" "the_out d (st\<lparr>hr := y\<rparr>) = the_out d st"
  by (simp_all add: the_out_def)

lemma ScanGeneric_step_inv:
  assumes inv: "generic_inv evs d (pair_test (if d then dcci else check)) ms st"
    and ok: "scan_ok n (ms @ [m])" and st: "stable n (if d then dcci else check)"
    and iter: "\<And>xs. set (iter xs) = set xs"
  shows "generic_inv evs d (pair_test (if d then dcci else check)) (ms @ [m]) (ScanGeneric_step iter evs d check dcci m st)"
proof -
  let ?chk = "if d then dcci else check" and ?c = "meta_nat m"
  let ?mt = "EffMemType (evs ! ?c)"
  have ok': "scan_ok n ms" "?c < n" using ok by (auto simp: scan_ok_snoc)
  have W: "set (hw st mt) = {h \<in> active ms. EffMemType (evs ! h) = mt \<and> is_write evs h}"
   and R: "set (hr st mt) = {h \<in> active ms. EffMemType (evs ! h) = mt \<and> \<not> is_write evs h}" for mt
    using inv by (simp_all add: generic_inv_def)
  have lt: "\<forall>h\<in>set (iter (hw st mt)). h < n" "\<forall>h\<in>set (iter (hr st mt)). h < n" for mt
    using iter W R active_lt [OF ok'(1)] by auto
  note CE = CheckExistRaceEvents_pairs [OF st ok'(2)]
  consider (wr) "isStart m" "is_write evs ?c" | (rd) "isStart m" "\<not> is_write evs ?c" | (en) "\<not> isStart m" by blast
  then show ?thesis
  proof cases
    case wr
    let ?st = "check_history d check dcci (iter (hr st ?mt)) ?c (check_history d check dcci (iter (hw st ?mt)) ?c st)"
    have step: "ScanGeneric_step iter evs d check dcci m st = ?st\<lparr>hw := (hw st)(?mt := List.insert ?c (hw st ?mt))\<rparr>"
      using wr by (simp add: ScanGeneric_step_def Let_def meta_nat_def is_write_def)
    have "idx_pairs (the_out d ?st) = sweep_pairs (compared evs (pair_test ?chk)) (ms @ [m])"
      using inv wr(1,2) W R iter
      by (auto simp: CE lt sweep_pairs_snoc compared_def same_mem_def generic_inv_def)
    then show ?thesis
      using wr W R inv unfolding step generic_inv_def active_snoc [OF ok] by (auto simp: is_write_def)
  next
    case rd
    let ?st = "check_history d check dcci (iter (hw st ?mt)) ?c st"
    have step: "ScanGeneric_step iter evs d check dcci m st = ?st\<lparr>hr := (hr st)(?mt := List.insert ?c (hr st ?mt))\<rparr>"
      using rd by (simp add: ScanGeneric_step_def Let_def meta_nat_def is_write_def)
    have "idx_pairs (the_out d ?st) = sweep_pairs (compared evs (pair_test ?chk)) (ms @ [m])"
      using inv rd(1,2) W R iter
      by (auto simp: CE lt sweep_pairs_snoc compared_def same_mem_def generic_inv_def)
    then show ?thesis
      using rd W R inv unfolding step generic_inv_def active_snoc [OF ok] by (auto simp: is_write_def)
  next
    case en
    have step: "ScanGeneric_step iter evs d check dcci m st = st\<lparr>hw := (hw st)(?mt := removeAll ?c (hw st ?mt)),
        hr := (hr st)(?mt := removeAll ?c (hr st ?mt))\<rparr>"
      using en by (simp add: ScanGeneric_step_def Let_def meta_nat_def)
    show ?thesis
      using en W R inv unfolding step generic_inv_def active_snoc [OF ok] by (auto simp: sweep_pairs_snoc)
  qed
qed

lemma ScanGeneric_sweep:
  assumes "scan_ok n ms" "stable n (if d then dcci else check)" "\<And>xs. set (iter xs) = set xs"
  shows "generic_inv evs d (pair_test (if d then dcci else check)) ms (ScanGeneric iter evs d check dcci ms)"
  using assms(1)
proof (induction ms rule: rev_induct)
  case Nil
  show ?case by (simp add: generic_inv_def ScanGeneric_def ScanState_new_def the_out_def)
next
  case (snoc m ms)
  have "scan_ok n ms" using snoc.prems by (simp add: scan_ok_snoc)
  from ScanGeneric_step_inv [OF snoc.IH [OF this] snoc.prems assms(2,3)]
  show ?case by (simp add: ScanGeneric_def)
qed

section \<open>The window scan\<close>

lemma set_dropWhile_sorted:
  fixes xs :: "'a::linorder list"
  shows "sorted xs \<Longrightarrow> set (dropWhile (\<lambda>x. x < a) xs) = {x \<in> set xs. a \<le> x}"
  by (induction xs) (auto dest: order.trans)

lemma set_takeWhile_sorted:
  fixes f :: "'a \<Rightarrow> 'b::linorder"
  shows "sorted (map f xs) \<Longrightarrow> set (takeWhile (\<lambda>x. f x \<le> b) xs) = {x \<in> set xs. f x \<le> b}"
  by (induction xs) (auto dest: order.trans)

lemma sorted_map_fst: "sorted xs \<Longrightarrow> sorted (map fst xs)" for xs :: "(nat \<times> nat) list"
  by (induction xs) (auto simp: less_eq_prod_def)

lemma set_window:
  assumes "sorted xs"
  shows "set (window s xs) = {x \<in> set xs. s \<le> fst x + WINDOW \<and> fst x \<le> s + WINDOW}"
proof -
  let ?a = "(if s > WINDOW then s - WINDOW else 0, 0 :: nat)"
  have "sorted (dropWhile (\<lambda>x. x < ?a) xs)" using assms sorted_dropWhile by blast
  then have "set (window s xs) = {x \<in> set (dropWhile (\<lambda>x. x < ?a) xs). fst x \<le> s + WINDOW}"
    unfolding window_def by (rule set_takeWhile_sorted [OF sorted_map_fst])
  also have "\<dots> = {x \<in> {x \<in> set xs. ?a \<le> x}. fst x \<le> s + WINDOW}"
    unfolding set_dropWhile_sorted [OF assms] by (rule refl)
  finally show ?thesis by (auto simp: less_eq_prod_def)
qed

definition serial_key :: "MemEvent list \<Rightarrow> nat \<Rightarrow> nat \<times> nat" where
  "serial_key evs h = (pipeSerialNo (evs ! h), h)"

lemma serial_key_inj [simp]: "serial_key evs h = serial_key evs k \<longleftrightarrow> h = k"
  by (auto simp: serial_key_def)

lemma snd_serial_key [simp]: "snd (serial_key evs h) = h"
  by (simp add: serial_key_def)

definition at_pipe :: "MemEvent list \<Rightarrow> MemType \<Rightarrow> PipeType \<Rightarrow> nat set \<Rightarrow> nat set" where
  "at_pipe evs mt p A = {h \<in> A. EffMemType (evs ! h) = mt \<and> ev_pipe (evs ! h) = p}"

definition window_inv :: "MemEvent list \<Rightarrow> (nat \<Rightarrow> nat \<Rightarrow> bool) \<Rightarrow> SortMetaData list \<Rightarrow> WindowState \<Rightarrow> bool" where
  "window_inv evs C ms st \<longleftrightarrow>
     (\<forall>mt p. sorted (wSet st mt p) \<and> set (wSet st mt p) = serial_key evs ` {h \<in> at_pipe evs mt p (active ms). is_write evs h}) \<and>
     (\<forall>mt p. sorted (rSet st mt p) \<and> set (rSet st mt p) = serial_key evs ` {h \<in> at_pipe evs mt p (active ms). \<not> is_write evs h}) \<and>
     idx_pairs (window_out st) = sweep_pairs (compared evs C) ms"

text \<open>The window loses nothing when the test fails outside it.\<close>

definition windowed :: "MemEvent list \<Rightarrow> (nat \<Rightarrow> nat \<Rightarrow> bool) \<Rightarrow> bool" where
  "windowed evs C \<longleftrightarrow> (\<forall>c h. c < length evs \<longrightarrow> h < length evs \<longrightarrow> C c h \<longrightarrow>
     ev_pipe (evs ! c) = ev_pipe (evs ! h) \<and> serial_diff (evs ! c) (evs ! h) \<le> WINDOW)"

lemma in_window_snd:
  assumes "sorted xs" "set xs = serial_key evs ` H"
  shows "set (map snd (window (pipeSerialNo (evs ! c)) xs)) = {h \<in> H. serial_diff (evs ! c) (evs ! h) \<le> WINDOW}"
proof -
  have "set (map snd (window (pipeSerialNo (evs ! c)) xs)) =
      {h \<in> H. pipeSerialNo (evs ! c) \<le> pipeSerialNo (evs ! h) + WINDOW \<and> pipeSerialNo (evs ! h) \<le> pipeSerialNo (evs ! c) + WINDOW}"
    unfolding set_map set_window [OF assms(1)] assms(2) by (force simp: serial_key_def)
  then show ?thesis by (auto simp: serial_diff_def)
qed

lemma sorted_reinsert: "sorted xs \<Longrightarrow> sorted (insort x (removeAll x xs)) \<and> set (insort x (removeAll x xs)) = insert x (set xs)"
  for xs :: "'a::linorder list"
  by (auto simp: sorted_insort set_insort_key sorted_wrt_filter removeAll_filter_not_eq)

lemma sorted_removeAll: "sorted xs \<Longrightarrow> sorted (removeAll x xs)" for xs :: "'a::linorder list"
  by (simp add: sorted_wrt_filter removeAll_filter_not_eq)

lemma upd2_apply [simp]: "upd2 f a b v x y = (if x = a \<and> y = b then v else f x y)"
  by (auto simp: upd2_def)

lemma window_compare:
  assumes inv: "window_inv evs (pair_test check) ms st" and ok: "scan_ok (length evs) ms" "c < length evs"
    and chk: "stable (length evs) check" "windowed evs (pair_test check)"
  defines "mt \<equiv> EffMemType (evs ! c)" and "p \<equiv> ev_pipe (evs ! c)" and "s \<equiv> pipeSerialNo (evs ! c)"
  shows "idx_pairs (snd (snd (fold (\<lambda>xs. fold (compare_one check) (map snd (window s xs)))
            (if is_write evs c then [wSet st mt p, rSet st mt p] else [wSet st mt p])
            (EventIdxInfo_new\<lparr>eventIdx := c\<rparr>, EventIdxInfo_new, window_out st)))) =
     sweep_pairs (compared evs (pair_test check)) ms \<union> {(c, h) |h. h \<in> active ms \<and> compared evs (pair_test check) c h}"
proof -
  let ?W = "map snd (window s (wSet st mt p))" and ?R = "map snd (window s (rSet st mt p))"
  let ?i = "EventIdxInfo_new\<lparr>eventIdx := c\<rparr>"
  have W: "set ?W = {h \<in> {h \<in> at_pipe evs mt p (active ms). is_write evs h}. serial_diff (evs ! c) (evs ! h) \<le> WINDOW}"
    using inv unfolding s_def by (intro in_window_snd) (auto simp: window_inv_def)
  have R: "set ?R = {h \<in> {h \<in> at_pipe evs mt p (active ms). \<not> is_write evs h}. serial_diff (evs ! c) (evs ! h) \<le> WINDOW}"
    using inv unfolding s_def by (intro in_window_snd) (auto simp: window_inv_def)
  have lt: "\<forall>h\<in>set ?W. h < length evs" "\<forall>h\<in>set ?R. h < length evs"
    unfolding W R using active_lt [OF ok(1)] by (auto simp: at_pipe_def)
  have i: "eventIdx ?i < length evs" using ok(2) by simp
  have old: "idx_pairs (window_out st) = sweep_pairs (compared evs (pair_test check)) ms"
    using inv by (simp add: window_inv_def)
  have near: "(h \<in> at_pipe evs mt p (active ms) \<and> serial_diff (evs ! c) (evs ! h) \<le> WINDOW) = (h \<in> active ms \<and> same_mem evs c h)"
    if "pair_test check c h" for h
    using that chk(2) ok(2) active_lt [OF ok(1)] unfolding windowed_def at_pipe_def same_mem_def mt_def p_def
    by (metis (mono_tags, lifting) mem_Collect_eq)
  obtain i2' out' where f1: "fold (compare_one check) ?W (?i, EventIdxInfo_new, window_out st) = (?i, i2', out')"
      "idx_pairs out' = idx_pairs (window_out st) \<union> {(c, h) |h. h \<in> set ?W \<and> pair_test check c h}"
    using fold_compare_one [OF chk(1) i lt(1), of EventIdxInfo_new "window_out st"] by auto
  show ?thesis
  proof (cases "is_write evs c")
    case True
    obtain i2'' out'' where f2: "fold (compare_one check) ?R (?i, i2', out') = (?i, i2'', out'')"
        "idx_pairs out'' = idx_pairs out' \<union> {(c, h) |h. h \<in> set ?R \<and> pair_test check c h}"
      using fold_compare_one [OF chk(1) i lt(2), of i2' out'] by auto
    have "{(c, h) |h. h \<in> set ?W \<and> pair_test check c h} \<union> {(c, h) |h. h \<in> set ?R \<and> pair_test check c h}
        = {(c, h) |h. h \<in> active ms \<and> compared evs (pair_test check) c h}"
      using near True unfolding W R compared_def by blast
    then show ?thesis using True f1 f2 old by (simp del: map_map) blast
  next
    case False
    have "{(c, h) |h. h \<in> set ?W \<and> pair_test check c h} = {(c, h) |h. h \<in> active ms \<and> compared evs (pair_test check) c h}"
      using near False unfolding W compared_def by blast
    then show ?thesis using False f1 old by simp
  qed
qed

lemma ScanSinglePipeWindow_step_inv:
  assumes inv: "window_inv evs (pair_test check) ms st" and ok: "scan_ok (length evs) (ms @ [m])"
    and chk: "stable (length evs) check" "windowed evs (pair_test check)"
  shows "window_inv evs (pair_test check) (ms @ [m]) (ScanSinglePipeWindow_step evs check m st)"
proof -
  let ?c = "meta_nat m"
  let ?mt = "EffMemType (evs ! ?c)" and ?p = "ev_pipe (evs ! ?c)" and ?k = "serial_key evs ?c"
  have ok': "scan_ok (length evs) ms" "?c < length evs" using ok by (auto simp: scan_ok_snoc)
  have W: "sorted (wSet st mt p)" "set (wSet st mt p) = serial_key evs ` {h \<in> at_pipe evs mt p (active ms). is_write evs h}"
   and R: "sorted (rSet st mt p)" "set (rSet st mt p) = serial_key evs ` {h \<in> at_pipe evs mt p (active ms). \<not> is_write evs h}" for mt p
    using inv by (simp_all add: window_inv_def)
  note act = active_snoc [OF ok]
  note cmp = window_compare [OF inv ok' chk]
  let ?sets = "if is_write evs ?c then [wSet st ?mt ?p, rSet st ?mt ?p] else [wSet st ?mt ?p]"
  let ?out = "snd (snd (fold (\<lambda>xs. fold (compare_one check) (map snd (window (pipeSerialNo (evs ! ?c)) xs))) ?sets
            (EventIdxInfo_new\<lparr>eventIdx := ?c\<rparr>, EventIdxInfo_new, window_out st)))"
  consider (wr) "isStart m" "is_write evs ?c" | (rd) "isStart m" "\<not> is_write evs ?c" | (en) "\<not> isStart m" by blast
  then show ?thesis
  proof cases
    case wr
    have step: "ScanSinglePipeWindow_step evs check m st = st\<lparr>window_out := ?out,
        wSet := upd2 (wSet st) ?mt ?p (insort ?k (removeAll ?k (wSet st ?mt ?p)))\<rparr>"
      using wr by (simp add: ScanSinglePipeWindow_step_def Let_def meta_nat_def is_write_def serial_key_def case_prod_beta)
    have "idx_pairs ?out = sweep_pairs (compared evs (pair_test check)) (ms @ [m])"
      unfolding cmp sweep_pairs_snoc using wr by simp
    moreover have "sorted (wSet (ScanSinglePipeWindow_step evs check m st) mt p) \<and>
        set (wSet (ScanSinglePipeWindow_step evs check m st) mt p) =
          serial_key evs ` {h \<in> at_pipe evs mt p (active (ms @ [m])). is_write evs h}" for mt p
      using W [of mt p] sorted_reinsert [OF W(1) [of ?mt ?p], of ?k] W(2) [of ?mt ?p] wr unfolding step act
      by (auto simp: at_pipe_def)
    moreover have "{h \<in> at_pipe evs mt p (active (ms @ [m])). \<not> is_write evs h} = {h \<in> at_pipe evs mt p (active ms). \<not> is_write evs h}" for mt p
      using wr unfolding act at_pipe_def by auto
    ultimately show ?thesis using R unfolding window_inv_def step by simp
  next
    case rd
    have step: "ScanSinglePipeWindow_step evs check m st = st\<lparr>window_out := ?out,
        rSet := upd2 (rSet st) ?mt ?p (insort ?k (removeAll ?k (rSet st ?mt ?p)))\<rparr>"
      using rd by (simp add: ScanSinglePipeWindow_step_def Let_def meta_nat_def is_write_def serial_key_def case_prod_beta)
    have "idx_pairs ?out = sweep_pairs (compared evs (pair_test check)) (ms @ [m])"
      unfolding cmp sweep_pairs_snoc using rd by simp
    moreover have "sorted (rSet (ScanSinglePipeWindow_step evs check m st) mt p) \<and>
        set (rSet (ScanSinglePipeWindow_step evs check m st) mt p) =
          serial_key evs ` {h \<in> at_pipe evs mt p (active (ms @ [m])). \<not> is_write evs h}" for mt p
      using R [of mt p] sorted_reinsert [OF R(1) [of ?mt ?p], of ?k] R(2) [of ?mt ?p] rd unfolding step act
      by (auto simp: at_pipe_def)
    moreover have "{h \<in> at_pipe evs mt p (active (ms @ [m])). is_write evs h} = {h \<in> at_pipe evs mt p (active ms). is_write evs h}" for mt p
      using rd unfolding act at_pipe_def by auto
    ultimately show ?thesis using W unfolding window_inv_def step by simp
  next
    case en
    have step: "ScanSinglePipeWindow_step evs check m st = st\<lparr>wSet := upd2 (wSet st) ?mt ?p (removeAll ?k (wSet st ?mt ?p)),
        rSet := upd2 (rSet st) ?mt ?p (removeAll ?k (rSet st ?mt ?p))\<rparr>"
      using en by (simp add: ScanSinglePipeWindow_step_def Let_def meta_nat_def serial_key_def)
    have "sorted (wSet (ScanSinglePipeWindow_step evs check m st) mt p) \<and>
        set (wSet (ScanSinglePipeWindow_step evs check m st) mt p) =
          serial_key evs ` {h \<in> at_pipe evs mt p (active (ms @ [m])). is_write evs h}" for mt p
      using W [of mt p] sorted_removeAll [OF W(1) [of ?mt ?p], of ?k] W(2) [of ?mt ?p] en unfolding step act
      by (auto simp: at_pipe_def)
    moreover have "sorted (rSet (ScanSinglePipeWindow_step evs check m st) mt p) \<and>
        set (rSet (ScanSinglePipeWindow_step evs check m st) mt p) =
          serial_key evs ` {h \<in> at_pipe evs mt p (active (ms @ [m])). \<not> is_write evs h}" for mt p
      using R [of mt p] sorted_removeAll [OF R(1) [of ?mt ?p], of ?k] R(2) [of ?mt ?p] en unfolding step act
      by (auto simp: at_pipe_def)
    moreover have "idx_pairs (window_out st) = sweep_pairs (compared evs (pair_test check)) (ms @ [m])"
      using inv en by (simp add: window_inv_def sweep_pairs_snoc)
    ultimately show ?thesis unfolding window_inv_def step by simp
  qed
qed

lemma ScanSinglePipeWindow_sweep:
  assumes "scan_ok (length evs) ms" "stable (length evs) check" "windowed evs (pair_test check)"
  shows "idx_pairs (ScanSinglePipeWindow evs check ms) = sweep_pairs (compared evs (pair_test check)) ms"
proof -
  have "window_inv evs (pair_test check) ms (fold (ScanSinglePipeWindow_step evs check) ms WindowState_new)"
    using assms(1)
  proof (induction ms rule: rev_induct)
    case Nil
    show ?case by (simp add: window_inv_def WindowState_new_def at_pipe_def)
  next
    case (snoc m ms)
    have "scan_ok (length evs) ms" using snoc.prems by (simp add: scan_ok_snoc)
    from ScanSinglePipeWindow_step_inv [OF snoc.IH [OF this] snoc.prems assms(2,3)] show ?case by simp
  qed
  then show ?thesis by (simp add: ScanSinglePipeWindow_def window_inv_def)
qed

section \<open>The bucket scan\<close>

text \<open>A bucket holds its events once and the position array knows where.\<close>

definition bucket_ok :: "nat list \<Rightarrow> nat list \<Rightarrow> bool" where
  "bucket_ok posIn b \<longleftrightarrow> distinct b \<and> (\<forall>h\<in>set b. h < length posIn) \<and> (\<forall>k<length b. posIn ! (b ! k) = k)"

lemma bucket_ok_push:
  "bucket_ok posIn b \<Longrightarrow> c < length posIn \<Longrightarrow> c \<notin> set b \<Longrightarrow> bucket_ok (posIn[c := length b]) (b @ [c])"
  by (auto simp: bucket_ok_def nth_append nth_list_update less_Suc_eq)

lemma bucket_ok_other:
  "bucket_ok posIn b \<Longrightarrow> c \<notin> set b \<Longrightarrow> bucket_ok (posIn[c := k]) b"
  unfolding bucket_ok_def by (metis length_list_update nth_list_update_neq nth_mem)

lemma bucket_remove_ok:
  assumes "bucket_ok posIn b" "c \<in> set b" "bucket_remove c b posIn = (b', posIn')"
  shows "bucket_ok posIn' b'" "set b' = set b - {c}" "posIn' = posIn[last b := posIn ! c]" "last b \<in> set b"
proof -
  obtain k where k: "k < length b" "b ! k = c" using assms(2) by (auto simp: in_set_conv_nth)
  have pos: "posIn ! c = k" using assms(1) k by (auto simp: bucket_ok_def)
  obtain ys z where b: "b = ys @ [z]" using assms(2) by (cases b rule: rev_cases) auto
  have d: "distinct ys" "z \<notin> set ys" using assms(1) b by (auto simp: bucket_ok_def)
  have p: "ys ! j < length posIn \<and> posIn ! (ys ! j) = j" if "j < length ys" for j
    using assms(1) that unfolding b bucket_ok_def
    by (metis Un_iff length_append_singleton less_SucI nth_append nth_mem set_append)
  have z: "z < length posIn" using assms(1) b by (auto simp: bucket_ok_def)
  have r: "b' = butlast (b[k := z])" "posIn' = posIn[z := k]"
    using assms(3) pos by (auto simp: bucket_remove_def b)
  then show "posIn' = posIn[last b := posIn ! c]" "last b \<in> set b" using b pos by simp_all
  show "bucket_ok posIn' b'" "set b' = set b - {c}"
  proof -
    consider (last) "k = length ys" | (mid) "k < length ys" using k b by fastforce
    then have "bucket_ok posIn' b' \<and> set b' = set b - {c}"
    proof cases
      case last
      then have "b' = ys" "c = z" using r k b by auto
      moreover have "bucket_ok posIn ys" using d p by (auto simp: bucket_ok_def in_set_conv_nth)
      ultimately show ?thesis using d r bucket_ok_other b by auto
    next
      case mid
      then have b': "b' = ys[k := z]" and ck: "c = ys ! k" using r k b by (auto simp: list_update_append nth_append)
      have "set (ys[k := z]) = insert z (set ys - {c})"
        using mid d(1) ck by (simp add: set_update_distinct)
      moreover have "distinct (ys[k := z])" using d by (simp add: distinct_list_update)
      moreover have "posIn' ! (ys[k := z] ! j) = j \<and> ys[k := z] ! j < length posIn'" if "j < length ys" for j
      proof (cases "j = k")
        case True
        then show ?thesis using r z mid by simp
      next
        case False
        then have "ys[k := z] ! j = ys ! j" by simp
        moreover have "ys ! j \<noteq> z" using d(2) that by (metis nth_mem)
        ultimately show ?thesis using p [OF that] r by simp
      qed
      ultimately have "bucket_ok posIn' b'" unfolding b' bucket_ok_def by (metis in_set_conv_nth length_list_update)
      moreover have "insert z (set ys - {c}) = set b - {c}" using b d ck mid by auto
      ultimately show ?thesis using b' \<open>set (ys[k := z]) = insert z (set ys - {c})\<close> by simp
    qed
    then show "bucket_ok posIn' b'" "set b' = set b - {c}" by simp_all
  qed
qed

definition at_slot :: "MemEvent list \<Rightarrow> MemType \<Rightarrow> nat \<Rightarrow> nat set \<Rightarrow> nat set" where
  "at_slot evs mt q A = {h \<in> A. EffMemType (evs ! h) = mt \<and> pipe_code (ev_pipe (evs ! h)) = q}"

definition fast_inv :: "MemEvent list \<Rightarrow> (nat \<Rightarrow> nat \<Rightarrow> bool) \<Rightarrow> SortMetaData list \<Rightarrow> FastState \<Rightarrow> bool" where
  "fast_inv evs C ms st \<longleftrightarrow> length (posInBucket st) = length evs \<and>
     (\<forall>mt q. bucket_ok (posInBucket st) (wB st mt q) \<and> set (wB st mt q) = {h \<in> at_slot evs mt q (active ms). is_write evs h}) \<and>
     (\<forall>mt q. bucket_ok (posInBucket st) (rB st mt q) \<and> set (rB st mt q) = {h \<in> at_slot evs mt q (active ms). \<not> is_write evs h}) \<and>
     idx_pairs (fast_out st) = sweep_pairs (compared evs C) ms"

definition bucketed :: "MemEvent list \<Rightarrow> bool" where
  "bucketed evs \<longleftrightarrow> (\<forall>e\<in>set evs. \<not> isDynamic e \<and> ev_pipe e \<noteq> PIPE_SIZE)"

lemma fast_compare_eq:
  assumes "c < length evs" "h < length evs" "\<not> isDynamic (evs ! c)" "\<not> isDynamic (evs ! h)"
    and "ev_pipe (evs ! c) \<noteq> ev_pipe (evs ! h)"
  shows "fast_compare env evs c h out =
     (if pair_test (IsInnerCoreRaceEvent env evs) c h
      then out @ [(EventIdxInfo_new\<lparr>eventIdx := c\<rparr>, EventIdxInfo_new\<lparr>eventIdx := h\<rparr>)] else out)"
  using assms
  by (simp add: fast_compare_def pair_test_def IsInnerCoreRaceEvent_def IsMemSpaceOverlap_plain ownTime_of_def pipeIdx_of_def Let_def)

lemma fold_fast_compare:
  assumes "c < length evs" "\<not> isDynamic (evs ! c)"
    and "\<forall>h\<in>set hs. h < length evs \<and> \<not> isDynamic (evs ! h) \<and> ev_pipe (evs ! c) \<noteq> ev_pipe (evs ! h)"
  shows "idx_pairs (fold (fast_compare env evs c) hs out) =
     idx_pairs out \<union> {(c, h) |h. h \<in> set hs \<and> pair_test (IsInnerCoreRaceEvent env evs) c h}"
  using assms(3)
proof (induction hs arbitrary: out)
  case (Cons h hs)
  then show ?case using assms(1,2) by (auto simp: fast_compare_eq)
qed simp

lemma fold_slots:
  assumes "c < length evs" "\<not> isDynamic (evs ! c)"
    and "\<forall>q\<in>set qs. \<forall>h\<in>set (s q). h < length evs \<and> \<not> isDynamic (evs ! h) \<and> ev_pipe (evs ! c) \<noteq> ev_pipe (evs ! h)"
  shows "idx_pairs (fold (\<lambda>q out. fold (fast_compare env evs c) (s q) out) qs out) =
     idx_pairs out \<union> {(c, h) |h. h \<in> (\<Union>q\<in>set qs. set (s q)) \<and> pair_test (IsInnerCoreRaceEvent env evs) c h}"
  using assms(3)
proof (induction qs arbitrary: out)
  case (Cons q qs)
  have "\<forall>h\<in>set (s q). h < length evs \<and> \<not> isDynamic (evs ! h) \<and> ev_pipe (evs ! c) \<noteq> ev_pipe (evs ! h)" using Cons.prems by simp
  note one = fold_fast_compare [OF assms(1,2) this, of env out]
  have "idx_pairs (fold (\<lambda>q out. fold (fast_compare env evs c) (s q) out) (q # qs) out) =
      idx_pairs (fold (fast_compare env evs c) (s q) out) \<union>
      {(c, h) |h. h \<in> (\<Union>q\<in>set qs. set (s q)) \<and> pair_test (IsInnerCoreRaceEvent env evs) c h}"
    using Cons by simp
  then show ?case unfolding one by auto
qed simp

definition fast_scan :: "CheckEnv \<Rightarrow> MemEvent list \<Rightarrow> nat \<Rightarrow> (nat \<Rightarrow> nat list) \<Rightarrow> RaceMemEventsIdx \<Rightarrow> RaceMemEventsIdx" where
  "fast_scan env evs c s out = fold (\<lambda>q out. fold (fast_compare env evs c) (s q) out)
     (filter (\<lambda>q. q \<noteq> pipe_code (ev_pipe (evs ! c))) [0 ..< PIPE_NUM]) out"

lemma fast_scan_pairs:
  assumes b: "bucketed evs" and c: "c < length evs"
    and A: "\<forall>h\<in>A. h < length evs" and s: "\<forall>q. set (s q) = {h \<in> at_slot evs (EffMemType (evs ! c)) q A. P h}"
  shows "idx_pairs (fast_scan env evs c s out) = idx_pairs out \<union>
     {(c, h) |h. h \<in> A \<and> P h \<and> same_mem evs c h \<and> pair_test (IsInnerCoreRaceEvent env evs) c h}"
proof -
  let ?qs = "filter (\<lambda>q. q \<noteq> pipe_code (ev_pipe (evs ! c))) [0 ..< PIPE_NUM]"
  have dyn: "\<not> isDynamic (evs ! h)" "pipe_code (ev_pipe (evs ! h)) < PIPE_NUM" if "h < length evs" for h
    using b that pipe_code_lt [of "ev_pipe (evs ! h)"] by (auto simp: bucketed_def)
  have pre: "\<forall>q\<in>set ?qs. \<forall>h\<in>set (s q). h < length evs \<and> \<not> isDynamic (evs ! h) \<and> ev_pipe (evs ! c) \<noteq> ev_pipe (evs ! h)"
    using s A dyn by (auto simp: at_slot_def)
  have U: "(\<Union>q\<in>set ?qs. set (s q)) = {h \<in> A. P h \<and> same_mem evs c h \<and> ev_pipe (evs ! h) \<noteq> ev_pipe (evs ! c)}"
    using s A dyn(2) by (auto simp: at_slot_def same_mem_def simp del: PIPE_NUM_eq)
  have pipes: "ev_pipe (evs ! h) \<noteq> ev_pipe (evs ! c)" if "pair_test (IsInnerCoreRaceEvent env evs) c h" for h
    using that by (auto simp: pair_test_def IsInnerCoreRaceEvent_def)
  show ?thesis
    unfolding fast_scan_def fold_slots [OF c dyn(1) [OF c] pre] U using pipes by blast
qed

lemma fast_inv_push:
  assumes "length posIn = length evs" "c < length evs" "c \<notin> A"
    and "\<forall>mt q. bucket_ok posIn (B mt q) \<and> set (B mt q) = {h \<in> at_slot evs mt q A. P h}" and "P c"
  defines "mt0 \<equiv> EffMemType (evs ! c)" and "q0 \<equiv> pipe_code (ev_pipe (evs ! c))"
  defines "posIn' \<equiv> posIn[c := length (B mt0 q0)]"
  shows "bucket_ok posIn' (upd2 B mt0 q0 (B mt0 q0 @ [c]) mt q) \<and>
     set (upd2 B mt0 q0 (B mt0 q0 @ [c]) mt q) = {h \<in> at_slot evs mt q (insert c A). P h}"
proof -
  have nc: "c \<notin> set (B mt q)" for mt q using assms(3,4) by (auto simp: at_slot_def)
  show ?thesis
  proof (cases "mt = mt0 \<and> q = q0")
    case True
    then show ?thesis
      using bucket_ok_push [of posIn "B mt0 q0" c] nc assms(1,2,4,5)
      by (auto simp: at_slot_def mt0_def q0_def posIn'_def)
  next
    case False
    then show ?thesis
      using bucket_ok_other [of posIn "B mt q" c] nc assms(4)
      by (auto simp: at_slot_def mt0_def q0_def posIn'_def)
  qed
qed

lemma fast_inv_untouched:
  assumes "\<forall>mt q. bucket_ok posIn (B mt q) \<and> set (B mt q) = {h \<in> at_slot evs mt q A. P h}"
    and "\<not> (x \<in> A \<and> P x)" "\<not> P c"
  shows "bucket_ok (posIn[x := k]) (B mt q) \<and> set (B mt q) = {h \<in> at_slot evs mt q (insert c A). P h}"
    and "bucket_ok (posIn[x := k]) (B mt q) \<and> set (B mt q) = {h \<in> at_slot evs mt q (A - {c}). P h}"
  using assms bucket_ok_other [of posIn "B mt q" x k] by (auto simp: at_slot_def)

lemma fast_inv_pop:
  assumes "\<forall>mt q. bucket_ok posIn (B mt q) \<and> set (B mt q) = {h \<in> at_slot evs mt q A. P h}" "c \<in> A" "P c"
  defines "mt0 \<equiv> EffMemType (evs ! c)" and "q0 \<equiv> pipe_code (ev_pipe (evs ! c))"
  assumes r: "bucket_remove c (B mt0 q0) posIn = (b', posIn')"
  shows "(bucket_ok posIn' (upd2 B mt0 q0 b' mt q) \<and> set (upd2 B mt0 q0 b' mt q) = {h \<in> at_slot evs mt q (A - {c}). P h}) \<and>
     (\<exists>x k. posIn' = posIn[x := k] \<and> x \<in> A \<and> P x)"
proof -
  have c: "c \<in> set (B mt0 q0)" using assms(1-3) by (simp add: at_slot_def mt0_def q0_def)
  note rm = bucket_remove_ok [OF _ c r]
  have b: "bucket_ok posIn (B mt0 q0)" using assms(1) by blast
  have x: "last (B mt0 q0) \<in> at_slot evs mt0 q0 A" "P (last (B mt0 q0))"
    using rm(4) [OF b] assms(1) by auto
  have "bucket_ok posIn' (upd2 B mt0 q0 b' mt q) \<and> set (upd2 B mt0 q0 b' mt q) = {h \<in> at_slot evs mt q (A - {c}). P h}"
  proof (cases "mt = mt0 \<and> q = q0")
    case True
    then show ?thesis using rm(1,2) [OF b] assms(1) by (auto simp: at_slot_def)
  next
    case False
    then have "last (B mt0 q0) \<notin> set (B mt q)" using x assms(1) by (auto simp: at_slot_def)
    then show ?thesis
      using False bucket_ok_other assms(1) rm(3) [OF b] by (auto simp: at_slot_def mt0_def q0_def)
  qed
  then show ?thesis using rm(3) [OF b] x by (auto simp: at_slot_def)
qed

lemma fast_compared:
  assumes inv: "fast_inv evs (pair_test (IsInnerCoreRaceEvent env evs)) ms st" and ok: "scan_ok (length evs) ms" "c < length evs"
    and b: "bucketed evs"
  defines "mt \<equiv> EffMemType (evs ! c)"
  shows "idx_pairs (fold (fast_scan env evs c) (if is_write evs c then [wB st mt, rB st mt] else [wB st mt]) (fast_out st)) =
     sweep_pairs (compared evs (pair_test (IsInnerCoreRaceEvent env evs))) ms \<union>
     {(c, h) |h. h \<in> active ms \<and> compared evs (pair_test (IsInnerCoreRaceEvent env evs)) c h}"
proof -
  have A: "\<forall>h\<in>active ms. h < length evs" using active_lt [OF ok(1)] by blast
  have W: "\<forall>q. set (wB st mt q) = {h \<in> at_slot evs (EffMemType (evs ! c)) q (active ms). is_write evs h}"
   and R: "\<forall>q. set (rB st mt q) = {h \<in> at_slot evs (EffMemType (evs ! c)) q (active ms). \<not> is_write evs h}"
    using inv by (simp_all add: fast_inv_def mt_def)
  show ?thesis
    using inv fast_scan_pairs [OF b ok(2) A W] fast_scan_pairs [OF b ok(2) A R]
    by (auto simp: fast_inv_def compared_def)
qed

lemma ScanSingleBlockFast_step_inv:
  assumes inv: "fast_inv evs (pair_test (IsInnerCoreRaceEvent env evs)) ms st" and ok: "scan_ok (length evs) (ms @ [m])"
    and b: "bucketed evs"
  shows "fast_inv evs (pair_test (IsInnerCoreRaceEvent env evs)) (ms @ [m]) (ScanSingleBlockFast_step env evs m st)"
proof -
  let ?c = "meta_nat m" and ?P = "is_write evs" and ?C = "compared evs (pair_test (IsInnerCoreRaceEvent env evs))"
  let ?mt = "EffMemType (evs ! ?c)" and ?q = "pipe_code (ev_pipe (evs ! ?c))"
  let ?out = "fold (fast_scan env evs ?c) (if ?P ?c then [wB st ?mt, rB st ?mt] else [wB st ?mt]) (fast_out st)"
  have ok': "scan_ok (length evs) ms" "?c < length evs" using ok by (auto simp: scan_ok_snoc)
  have len: "length (posInBucket st) = length evs"
   and W: "\<forall>mt q. bucket_ok (posInBucket st) (wB st mt q) \<and> set (wB st mt q) = {h \<in> at_slot evs mt q (active ms). ?P h}"
   and R: "\<forall>mt q. bucket_ok (posInBucket st) (rB st mt q) \<and> set (rB st mt q) = {h \<in> at_slot evs mt q (active ms). \<not> ?P h}"
   and old: "idx_pairs (fast_out st) = sweep_pairs ?C ms"
    using inv by (simp_all add: fast_inv_def)
  have new: "idx_pairs ?out = sweep_pairs ?C (ms @ [m])" if "isStart m"
    unfolding fast_compared [OF inv ok' b] sweep_pairs_snoc using that by simp
  have nA: "?c \<notin> active ms" if "isStart m" using ok that by (auto simp: scan_ok_snoc active_def)
  have iA: "?c \<in> active ms" if "\<not> isStart m" using ok that by (auto simp: scan_ok_snoc)
  note act = active_snoc [OF ok]
  note step_def = ScanSingleBlockFast_step_def Let_def meta_nat_def is_write_def
  consider (ws) "isStart m" "?P ?c" | (rs) "isStart m" "\<not> ?P ?c" | (we) "\<not> isStart m" "?P ?c" | (re) "\<not> isStart m" "\<not> ?P ?c" by blast
  then show ?thesis
  proof cases
    case ws
    have step: "ScanSingleBlockFast_step env evs m st = st\<lparr>fast_out := ?out,
        posInBucket := (posInBucket st)[?c := length (wB st ?mt ?q)], wB := upd2 (wB st) ?mt ?q (wB st ?mt ?q @ [?c])\<rparr>"
      using ws by (simp add: step_def fast_scan_def)
    show ?thesis
      using len new ws fast_inv_push [OF len ok'(2) nA W] fast_inv_untouched(1) [OF R, of ?c ?c]
      unfolding fast_inv_def step act by simp
  next
    case rs
    have step: "ScanSingleBlockFast_step env evs m st = st\<lparr>fast_out := ?out,
        posInBucket := (posInBucket st)[?c := length (rB st ?mt ?q)], rB := upd2 (rB st) ?mt ?q (rB st ?mt ?q @ [?c])\<rparr>"
      using rs by (simp add: step_def fast_scan_def)
    show ?thesis
      using len new rs fast_inv_push [OF len ok'(2) nA R] fast_inv_untouched(1) [OF W, of ?c ?c]
      unfolding fast_inv_def step act by simp
  next
    case we
    obtain b' p' where r: "bucket_remove ?c (wB st ?mt ?q) (posInBucket st) = (b', p')" by fastforce
    have step: "ScanSingleBlockFast_step env evs m st = st\<lparr>wB := upd2 (wB st) ?mt ?q b', posInBucket := p'\<rparr>"
      using we r by (simp add: step_def)
    note pop = fast_inv_pop [OF W iA [OF we(1)] we(2) r]
    then obtain x k where p': "p' = (posInBucket st)[x := k]" "x \<in> active ms" "?P x" by blast
    then show ?thesis
      using len we old pop fast_inv_untouched(2) [OF R, of x ?c k]
      unfolding fast_inv_def step act sweep_pairs_snoc by simp
  next
    case re
    obtain b' p' where r: "bucket_remove ?c (rB st ?mt ?q) (posInBucket st) = (b', p')" by fastforce
    have step: "ScanSingleBlockFast_step env evs m st = st\<lparr>rB := upd2 (rB st) ?mt ?q b', posInBucket := p'\<rparr>"
      using re r by (simp add: step_def)
    note pop = fast_inv_pop [OF R iA [OF re(1)] re(2) r]
    then obtain x k where p': "p' = (posInBucket st)[x := k]" "x \<in> active ms" "\<not> ?P x" by blast
    then show ?thesis
      using len re old pop fast_inv_untouched(2) [OF W, of x ?c k]
      unfolding fast_inv_def step act sweep_pairs_snoc by simp
  qed
qed

lemma ScanSingleBlockFast_sweep:
  assumes "scan_ok (length evs) ms" "bucketed evs"
  shows "idx_pairs (ScanSingleBlockFast env evs ms) = sweep_pairs (compared evs (pair_test (IsInnerCoreRaceEvent env evs))) ms"
proof -
  have "fast_inv evs (pair_test (IsInnerCoreRaceEvent env evs)) ms (fold (ScanSingleBlockFast_step env evs) ms (FastState_new (length evs)))"
    using assms(1)
  proof (induction ms rule: rev_induct)
    case Nil
    show ?case by (simp add: fast_inv_def FastState_new_def at_slot_def bucket_ok_def)
  next
    case (snoc m ms)
    have "scan_ok (length evs) ms" using snoc.prems by (simp add: scan_ok_snoc)
    from ScanSingleBlockFast_step_inv [OF snoc.IH [OF this] snoc.prems assms(2)] show ?case by simp
  qed
  then show ?thesis by (simp add: ScanSingleBlockFast_def fast_inv_def)
qed

section \<open>The sweep compares the accesses whose ranges meet\<close>

abbreviation start_meta :: "MemEvent list \<Rightarrow> nat \<Rightarrow> SortMetaData" where
  "start_meta evs i \<equiv> \<lparr>meta_addr = startAddr (evs ! i), meta_idx = of_nat i, isStart = True\<rparr>"

abbreviation end_meta :: "MemEvent list \<Rightarrow> nat \<Rightarrow> SortMetaData" where
  "end_meta evs i \<equiv> \<lparr>meta_addr = endAddr (evs ! i), meta_idx = of_nat i, isStart = False\<rparr>"

text \<open>The indices fit 32 bits and no scanned range is empty or wraps around.\<close>

definition ranges_ok :: "MemEvent list \<Rightarrow> bool" where
  "ranges_ok evs \<longleftrightarrow> length evs \<le> 2 ^ 32 \<and> (\<forall>i\<in>set (scanned evs). startAddr (evs ! i) < endAddr (evs ! i))"

definition ranges_meet :: "MemEvent list \<Rightarrow> nat \<Rightarrow> nat \<Rightarrow> bool" where
  "ranges_meet evs i j \<longleftrightarrow> startAddr (evs ! i) < endAddr (evs ! j) \<and> startAddr (evs ! j) < endAddr (evs ! i)"

lemma CompareEvent_irrefl [simp]: "\<not> CompareEvent m m"
  by (simp add: CompareEvent_def)

lemma CompareEvent_asym: "CompareEvent k m \<Longrightarrow> \<not> CompareEvent m k"
  by (auto simp: CompareEvent_def split: if_splits)

lemma sorted_prefix:
  assumes "sorted_wrt CompareEvent ms" "ms = ps @ m # qs"
  shows "set ps = {k \<in> set ms. CompareEvent k m}"
  using assms by (auto simp: sorted_wrt_append dest: CompareEvent_asym)

lemma idx_inj: "i < 2 ^ 32 \<Longrightarrow> j < 2 ^ 32 \<Longrightarrow> (of_nat i :: u32) = of_nat j \<longleftrightarrow> i = j"
  by (simp add: word_unat_eq_iff unat_of_nat take_bit_nat_eq_self)

lemma idx_less: "i < 2 ^ 32 \<Longrightarrow> j < 2 ^ 32 \<Longrightarrow> (of_nat i :: u32) < of_nat j \<longleftrightarrow> i < j"
  by (simp add: word_less_nat_alt unat_of_nat take_bit_nat_eq_self)

lemma meta_nat_of_nat: "i < 2 ^ 32 \<Longrightarrow> meta_nat \<lparr>meta_addr = a, meta_idx = of_nat i, isStart = b\<rparr> = i"
  by (simp add: meta_nat_def unat_of_nat take_bit_nat_eq_self)

lemma scanned_lt: "i \<in> set (scanned evs) \<Longrightarrow> i < length evs"
  by (simp add: scanned_def)

lemma scanned_sorted: "sorted_wrt (<) (scanned evs)"
  by (simp add: scanned_def sorted_wrt_filter)

lemma Build_sorted:
  assumes "length evs \<le> 2 ^ 32"
  shows "sorted_wrt CompareEvent (fst (BuildScanlineMetaData evs))"
    "set (fst (BuildScanlineMetaData evs)) = end_meta evs ` set (scanned evs) \<union> start_meta evs ` set (scanned evs)"
proof -
  let ?e = "map (end_meta evs) (scanned evs)" and ?s = "map (start_meta evs) (scanned evs)"
  have up: "sorted_wrt (\<lambda>i j. (of_nat i :: u32) < of_nat j) (scanned evs)"
  proof (rule sorted_wrt_mono_rel [OF _ scanned_sorted])
    fix i j assume "i \<in> set (scanned evs)" "j \<in> set (scanned evs)" "i < j"
    then show "(of_nat i :: u32) < of_nat j" using assms scanned_lt [of i evs] scanned_lt [of j evs] by (subst idx_less) simp_all
  qed
  have r: "mset (RadixSortByAddr (?e @ ?s)) = mset (?e @ ?s)" "sorted_wrt CompareEvent (RadixSortByAddr (?e @ ?s))"
    using RadixSortByAddr_sorted [of ?e ?s] up by (simp_all add: sorted_wrt_map)
  have b: "fst (BuildScanlineMetaData evs) = RadixSortByAddr (?e @ ?s)" by (simp add: BuildScanlineMetaData_def)
  show "sorted_wrt CompareEvent (fst (BuildScanlineMetaData evs))" unfolding b by (rule r(2))
  have "set (RadixSortByAddr (?e @ ?s)) = set (?e @ ?s)" by (rule mset_eq_setD [OF r(1)])
  then show "set (fst (BuildScanlineMetaData evs)) = end_meta evs ` set (scanned evs) \<union> start_meta evs ` set (scanned evs)"
    unfolding b by simp
qed

lemma prefix_starts_ends:
  assumes "ranges_ok evs" "fst (BuildScanlineMetaData evs) = ps @ m # qs"
  shows "starts ps = {i \<in> set (scanned evs). CompareEvent (start_meta evs i) m}"
    "ends ps = {i \<in> set (scanned evs). CompareEvent (end_meta evs i) m}"
proof -
  have n: "length evs \<le> 2 ^ 32" using assms(1) by (simp add: ranges_ok_def)
  have i: "meta_nat \<lparr>meta_addr = a, meta_idx = of_nat i, isStart = b\<rparr> = i" if "i \<in> set (scanned evs)" for i a b
    using meta_nat_of_nat [of i] scanned_lt [OF that] n by simp
  have ps: "set ps = {k \<in> end_meta evs ` set (scanned evs) \<union> start_meta evs ` set (scanned evs). CompareEvent k m}"
    using sorted_prefix [OF Build_sorted(1) [OF n] assms(2)] Build_sorted(2) [OF n] by simp
  have "{k \<in> set ps. isStart k} = start_meta evs ` {i \<in> set (scanned evs). CompareEvent (start_meta evs i) m}"
    unfolding ps by auto
  then show "starts ps = {i \<in> set (scanned evs). CompareEvent (start_meta evs i) m}"
    unfolding starts_def using i by (force simp: image_image)
  have "{k \<in> set ps. \<not> isStart k} = end_meta evs ` {i \<in> set (scanned evs). CompareEvent (end_meta evs i) m}"
    unfolding ps by auto
  then show "ends ps = {i \<in> set (scanned evs). CompareEvent (end_meta evs i) m}"
    unfolding ends_def using i by (force simp: image_image)
qed

lemma Build_scan_ok:
  assumes "ranges_ok evs"
  shows "scan_ok (length evs) (fst (BuildScanlineMetaData evs))"
  unfolding scan_ok_def
proof (intro allI impI)
  fix ps m qs assume eq: "fst (BuildScanlineMetaData evs) = ps @ m # qs"
  have n: "length evs \<le> 2 ^ 32" using assms by (simp add: ranges_ok_def)
  have "m \<in> set (fst (BuildScanlineMetaData evs))" using eq by simp
  then obtain i where i: "i \<in> set (scanned evs)" "m = end_meta evs i \<or> m = start_meta evs i"
    unfolding Build_sorted(2) [OF n] by auto
  have lt: "i < length evs" "i < 2 ^ 32" using scanned_lt [OF i(1)] n by simp_all
  have "startAddr (evs ! i) < endAddr (evs ! i)" using assms i(1) by (auto simp: ranges_ok_def)
  then show "meta_nat m < length evs \<and> (if isStart m then meta_nat m \<notin> starts ps \<and> meta_nat m \<notin> ends ps else meta_nat m \<in> active ps)"
    using i lt meta_nat_of_nat [OF lt(2)] unfolding active_def prefix_starts_ends [OF assms eq]
    by (auto simp: CompareEvent_def)
qed

lemma sweep_pairs_ranges:
  assumes "ranges_ok evs"
  shows "(c, h) \<in> sweep_pairs C (fst (BuildScanlineMetaData evs)) \<longleftrightarrow>
     c \<in> set (scanned evs) \<and> h \<in> set (scanned evs) \<and> CompareEvent (start_meta evs h) (start_meta evs c) \<and>
     startAddr (evs ! c) < endAddr (evs ! h) \<and> C c h" (is "?l \<longleftrightarrow> ?r")
proof -
  have n: "length evs \<le> 2 ^ 32" using assms by (simp add: ranges_ok_def)
  let ?ms = "fst (BuildScanlineMetaData evs)"
  show ?thesis
  proof
    assume ?l
    then obtain ps m qs where eq: "?ms = ps @ m # qs" and m: "isStart m" "meta_nat m = c" "h \<in> active ps" "C c h"
      unfolding sweep_pairs_def by blast
    have "m \<in> set ?ms" using eq by simp
    then obtain i where i: "i \<in> set (scanned evs)" "m = start_meta evs i"
      unfolding Build_sorted(2) [OF n] using m(1) by auto
    have "i = c" using i m(2) meta_nat_of_nat [of i] scanned_lt [OF i(1)] n by simp
    then show ?r using i m(3,4) unfolding active_def prefix_starts_ends [OF assms eq]
      by (auto simp: CompareEvent_def split: if_splits)
  next
    assume r: ?r
    then have "start_meta evs c \<in> set ?ms" unfolding Build_sorted(2) [OF n] by blast
    then obtain ps qs where eq: "?ms = ps @ start_meta evs c # qs" by (metis split_list)
    have "h \<in> active ps" using r unfolding active_def prefix_starts_ends [OF assms eq]
      by (auto simp: CompareEvent_def)
    moreover have "meta_nat (start_meta evs c) = c" using r meta_nat_of_nat [of c] scanned_lt [of c evs] n by simp
    ultimately show ?l using eq r unfolding sweep_pairs_def by (auto intro!: exI [of _ ps])
  qed
qed

definition reported :: "RaceMemEventsIdx \<Rightarrow> nat \<Rightarrow> nat \<Rightarrow> bool" where
  "reported out i j \<longleftrightarrow> (i, j) \<in> idx_pairs out \<or> (j, i) \<in> idx_pairs out"

lemma reported_iff:
  assumes ok: "ranges_ok evs" and out: "idx_pairs out = sweep_pairs C (fst (BuildScanlineMetaData evs))"
    and sym: "\<And>i j. i < length evs \<Longrightarrow> j < length evs \<Longrightarrow> C i j = C j i"
  shows "reported out i j \<longleftrightarrow> i \<in> set (scanned evs) \<and> j \<in> set (scanned evs) \<and> i \<noteq> j \<and> ranges_meet evs i j \<and> C i j"
proof (cases "i \<in> set (scanned evs) \<and> j \<in> set (scanned evs)")
  case True
  have n: "i < length evs" "j < length evs" "i < 2 ^ 32" "j < 2 ^ 32"
    using True scanned_lt [of i evs] scanned_lt [of j evs] ok by (simp_all add: ranges_ok_def)
  have r: "startAddr (evs ! i) < endAddr (evs ! i)" "startAddr (evs ! j) < endAddr (evs ! j)"
    using True ok by (auto simp: ranges_ok_def)
  have "i \<noteq> j \<Longrightarrow> CompareEvent (start_meta evs i) (start_meta evs j) \<or> CompareEvent (start_meta evs j) (start_meta evs i)"
    using idx_inj [OF n(3,4)] by (auto simp: CompareEvent_def)
  then show ?thesis
    using True r sym [OF n(1,2)] unfolding reported_def out sweep_pairs_ranges [OF ok] ranges_meet_def
    by (auto simp: CompareEvent_def split: if_splits)
next
  case False
  then show ?thesis unfolding reported_def out sweep_pairs_ranges [OF ok] by auto
qed

section \<open>Tests on plain events\<close>

lemma check_stable:
  assumes "\<forall>e\<in>set evs. \<not> isDynamic e"
  shows "stable (length evs) (check_of t env evs)" "stable (length evs) (IsMissDcciEvent env evs)"
proof -
  have o: "IsMemSpaceOverlap (evs ! i) (evs ! j) i1 i2 = (IsMemoryOverlap (memInfo (evs ! i)) (memInfo (evs ! j)), i1, i2)"
    if "i < length evs" "j < length evs" for i j i1 i2
    using assms that by (simp add: IsMemSpaceOverlap_plain)
  show "stable (length evs) (check_of t env evs)"
    unfolding stable_def pair_test_def check_of_def
    by (cases t)
       (simp_all add: IsInnerCoreRaceEvent_def IsSinglePipeRaceEvent_def IsCrossCoreRaceEvent_def IsCrossNpuRaceEvent_def
          Let_def o split: option.splits)
  show "stable (length evs) (IsMissDcciEvent env evs)"
    unfolding stable_def pair_test_def by (simp add: IsMissDcciEvent_def Let_def o)
qed

lemma SinglePipe_windowed: "windowed evs (pair_test (check_of SINGLE_PIPE_CHECK env evs))"
  by (auto simp: windowed_def pair_test_def check_of_def IsSinglePipeRaceEvent_def Let_def WINDOW_def
      MAX_SERIAL_NUMBER_DIFF_def split: if_splits)

definition op_len :: "MemOpInfo \<Rightarrow> nat" where
  "op_len op = (unat (repeatTimes op) - 1) * (unat (repeatStride op) * unat (blockSize op)) +
     (unat (blockNum op) - 1) * (unat (blockStride op) * unat (blockSize op)) + unat (blockSize op)"

text \<open>A plain event the scanline handles: it accesses something, its length fits 32 bits, its pipe is one.\<close>

definition scan_regular :: "MemEvent \<Rightarrow> bool" where
  "scan_regular e \<longleftrightarrow> plain_event e \<and> ev_pipe e \<noteq> PIPE_SIZE \<and> op_len (memInfo e) < 2 ^ 32 \<and>
     \<not> (maskMode (memInfo e) = MASK_COUNT \<and> (mask0 (vectorMask (memInfo e)) = 0 \<or> dataBits (memInfo e) = 0))"

lemma GetMemMaxLength_regular:
  assumes "scan_regular e"
  shows "unat (GetMemMaxLength e) = op_len (memInfo e)" "0 < op_len (memInfo e)"
proof -
  let ?op = "memInfo e"
  have reg: "repeatTimes ?op \<noteq> 0" "blockNum ?op \<noteq> 0" "blockSize ?op \<noteq> 0" "\<not> isDynamic e"
    using assms by (simp_all add: scan_regular_def plain_event_def op_regular_def)
  have minus: "of_nat (unat x - Suc 0) = x - 1" if "x \<noteq> 0" for x :: u32
    using that by (simp add: of_nat_diff Suc_leI unat_gt_0)
  have "(repeatTimes ?op - 1) * repeatStride ?op * blockSize ?op + (blockNum ?op - 1) * blockStride ?op * blockSize ?op + blockSize ?op
      = of_nat (op_len ?op)"
    by (simp add: op_len_def minus reg mult.assoc)
  then have "GetMemMaxLength e = ucast (of_nat (op_len ?op) :: u32)"
    using assms reg by (auto simp: GetMemMaxLength_def Let_def scan_regular_def)
  then show "unat (GetMemMaxLength e) = op_len (memInfo e)"
    using assms by (simp add: scan_regular_def unat_of_nat take_bit_nat_eq_self)
  show "0 < op_len (memInfo e)" using reg by (simp add: op_len_def unat_gt_0)
qed

lemma scan_regular_range:
  assumes "scan_regular e"
  shows "unat (startAddr e) = unat (addr (memInfo e))" "unat (endAddr e) = unat (addr (memInfo e)) + op_len (memInfo e)"
    "startAddr e < endAddr e" "GetMemMaxLength e \<noteq> 0"
    "op_bytes (memInfo e) \<subseteq> {unat (startAddr e) ..< unat (endAddr e)}"
proof -
  let ?op = "memInfo e"
  have reg: "op_regular ?op" "\<not> isDynamic e" using assms by (simp_all add: scan_regular_def plain_event_def)
  have last: "op_start ?op (unat (repeatTimes ?op) - 1) (unat (blockNum ?op) - 1) + unat (blockSize ?op) = unat (addr ?op) + op_len ?op"
    by (simp add: op_start_def op_len_def)
  have lt: "unat (addr ?op) + op_len ?op < 2 ^ 64" using reg(1) last by (simp add: op_regular_def)
  show s: "unat (startAddr e) = unat (addr (memInfo e))" using reg by (simp add: startAddr_def)
  have "unat (addr ?op + GetMemMaxLength e) = (unat (addr ?op) + unat (GetMemMaxLength e)) mod 2 ^ 64"
    by (simp add: unat_word_ariths)
  then show e: "unat (endAddr e) = unat (addr (memInfo e)) + op_len (memInfo e)"
    using reg lt GetMemMaxLength_regular [OF assms] by (simp add: endAddr_def)
  show "startAddr e < endAddr e" using s e GetMemMaxLength_regular [OF assms] by (simp add: word_less_nat_alt)
  show "GetMemMaxLength e \<noteq> 0" using GetMemMaxLength_regular [OF assms] by auto
  show "op_bytes ?op \<subseteq> {unat (startAddr e) ..< unat (endAddr e)}"
  proof
    fix x assume "x \<in> op_bytes ?op"
    then obtain r k where rk: "r < unat (repeatTimes ?op)" "k < unat (blockNum ?op)"
        "op_start ?op r k \<le> x" "x < op_start ?op r k + unat (blockSize ?op)"
      by (auto simp: op_bytes_def)
    have "op_start ?op r k \<le> op_start ?op (unat (repeatTimes ?op) - 1) (unat (blockNum ?op) - 1)"
      unfolding op_start_def using rk(1,2) by (intro add_mono mult_le_mono1 order_refl) simp_all
    moreover have "unat (addr ?op) \<le> op_start ?op r k" by (simp add: op_start_def)
    ultimately show "x \<in> {unat (startAddr e) ..< unat (endAddr e)}" using rk(3,4) last s e by simp
  qed
qed

lemma share_bytes_meet:
  assumes "scan_regular (evs ! i)" "scan_regular (evs ! j)" "share_bytes (evs ! i) (evs ! j)"
  shows "ranges_meet evs i j"
  using assms(3) scan_regular_range(5) [OF assms(1)] scan_regular_range(5) [OF assms(2)]
  by (fastforce simp: share_bytes_def ranges_meet_def word_less_nat_alt)

section \<open>What a race is\<close>

definition racing :: "RaceCheckType \<Rightarrow> CheckEnv \<Rightarrow> MemEvent \<Rightarrow> MemEvent \<Rightarrow> bool" where
  "racing t env e1 e2 \<longleftrightarrow>
     (opType (memInfo e1) = WRITE \<or> opType (memInfo e2) = WRITE) \<and> share_bytes e1 e2 \<and>
     (case t of
        SINGLE_BLOCK_CHECK \<Rightarrow> ev_pipe e1 \<noteq> ev_pipe e2 \<and> \<not> IsAtomicAgainst e1 e2 \<and>
          concurrent_at (GetPipeIdxByMemEvent t e1 (env_kernelType env) (env_deviceType env))
            (GetPipeIdxByMemEvent t e2 (env_kernelType env) (env_deviceType env)) e1 e2
      | SINGLE_PIPE_CHECK \<Rightarrow> ev_pipe e1 = ev_pipe e2 \<and> ev_serialNo e1 \<noteq> ev_serialNo e2 \<and> \<not> IsAtomicAgainst e1 e2 \<and>
          serial_diff e1 e2 \<le> MAX_SERIAL_NUMBER_DIFF \<and> barrierNo e1 = barrierNo e2 \<and>
          \<not> IsMatmulAccumOrderedByHardware e1 e2 \<and>
          ev_closedRing e2 < ev_serialNo e1 \<and> ev_closedRing e1 < ev_serialNo e2
      | CROSS_BLOCK_CHECK \<Rightarrow> NeedCrossCoreCheck env e1 e2 \<and> \<not> IsAtomicAgainst e1 e2 \<and>
          concurrent_at (GetPipeIdxByMemEvent t e1 (env_kernelType env) (env_deviceType env))
            (GetPipeIdxByMemEvent t e2 (env_kernelType env) (env_deviceType env)) e1 e2
      | CROSS_NPU_CHECK \<Rightarrow> deviceId (ev_loc e1) \<noteq> deviceId (ev_loc e2) \<and>
          concurrent_at (GetExpandPipeIdx e1 (env_blockNum env)) (GetExpandPipeIdx e2 (env_blockNum env)) e1 e2 \<and>
          env_kernelName env (deviceId (ev_loc e1)) (kernelIdx (ev_loc e1)) \<noteq> None \<and>
          env_kernelName env (deviceId (ev_loc e1)) (kernelIdx (ev_loc e1)) =
            env_kernelName env (deviceId (ev_loc e2)) (kernelIdx (ev_loc e2)))"

lemma racing_test:
  assumes "plain_event (evs ! i)" "plain_event (evs ! j)"
  shows "racing t env (evs ! i) (evs ! j) \<longleftrightarrow>
     (is_write evs i \<or> is_write evs j) \<and> same_mem evs i j \<and> pair_test (check_of t env evs) i j"
proof -
  have w: "is_write evs k = (opType (memInfo (evs ! k)) = WRITE)" if "plain_event (evs ! k)" for k
    using that by (simp add: is_write_def EffOpType_def plain_event_def)
  have m: "share_bytes (evs ! i) (evs ! j) \<Longrightarrow> same_mem evs i j"
    using assms by (simp add: same_mem_def EffMemType_def share_bytes_def plain_event_def)
  show ?thesis
    using assms m
    by (cases t) (auto simp: racing_def w check_of_def check_InnerCore check_SinglePipe check_CrossCore check_CrossNpu Let_def)
qed

section \<open>The scanline finds exactly the races\<close>

definition all_regular :: "MemEvent list \<Rightarrow> bool" where
  "all_regular evs \<longleftrightarrow> length evs \<le> 2 ^ 32 \<and> (\<forall>e\<in>set evs. scan_regular e)"

lemma all_regular_facts:
  assumes "all_regular evs"
  shows "ranges_ok evs" "bucketed evs" "\<forall>e\<in>set evs. \<not> isDynamic e" "set (scanned evs) = {..<length evs}"
    "list_ex isDynamic evs = False"
proof -
  have r: "scan_regular (evs ! i)" if "i < length evs" for i using assms that by (simp add: all_regular_def)
  show d: "\<forall>e\<in>set evs. \<not> isDynamic e" using assms by (simp add: all_regular_def scan_regular_def plain_event_def)
  then show "list_ex isDynamic evs = False" by (simp add: list_ex_iff)
  show "set (scanned evs) = {..<length evs}" using scan_regular_range(4) [OF r] by (auto simp: scanned_def)
  then show "ranges_ok evs" using assms scan_regular_range(3) [OF r] by (auto simp: ranges_ok_def all_regular_def)
  show "bucketed evs" using assms d by (simp add: bucketed_def all_regular_def scan_regular_def)
qed

lemma Scanline_sweep:
  assumes reg: "all_regular evs" and iter: "\<And>xs. set (iter xs) = set xs"
    and t: "t \<in> set typeMap" and d: "\<not> env_checkDcci env"
  shows "idx_pairs (fst (ScanlineAlgorithm iter env typeMap t evs)) =
     sweep_pairs (compared evs (pair_test (check_of t env evs))) (fst (BuildScanlineMetaData evs))"
    and "snd (ScanlineAlgorithm iter env typeMap t evs) = []"
proof -
  note F = all_regular_facts [OF reg]
  obtain ms where ms: "BuildScanlineMetaData evs = (ms, False)" using F(5) by (simp add: BuildScanlineMetaData_def)
  have ok: "scan_ok (length evs) ms" using Build_scan_ok [OF F(1)] by (simp add: ms)
  note st = check_stable [OF F(3)]
  have gen: "idx_pairs (races_out (ScanGeneric iter evs False (check_of t env evs) dcci ms)) =
      sweep_pairs (compared evs (pair_test (check_of t env evs))) ms \<and>
      dcci_out (ScanGeneric iter evs False (check_of t env evs) dcci ms) = []" for dcci
    using ScanGeneric_sweep [OF ok, of False dcci "check_of t env evs" iter evs] st iter
    by (simp add: generic_inv_def the_out_def)
  have "idx_pairs (fst (ScanlineAlgorithm iter env typeMap t evs)) =
     sweep_pairs (compared evs (pair_test (check_of t env evs))) ms \<and> snd (ScanlineAlgorithm iter env typeMap t evs) = []"
  proof (cases t)
    case SINGLE_BLOCK_CHECK
    then show ?thesis using ScanSingleBlockFast_sweep [OF ok F(2)] t d
      by (simp add: ScanlineAlgorithm_def ms check_of_def)
  next
    case SINGLE_PIPE_CHECK
    then show ?thesis using ScanSinglePipeWindow_sweep [OF ok st(1) SinglePipe_windowed] t d
      by (simp add: ScanlineAlgorithm_def ms)
  next
    case CROSS_BLOCK_CHECK
    then show ?thesis using gen t d by (simp add: ScanlineAlgorithm_def ms Let_def)
  next
    case CROSS_NPU_CHECK
    then show ?thesis using gen t d by (simp add: ScanlineAlgorithm_def ms Let_def)
  qed
  then show "idx_pairs (fst (ScanlineAlgorithm iter env typeMap t evs)) =
     sweep_pairs (compared evs (pair_test (check_of t env evs))) (fst (BuildScanlineMetaData evs))"
    "snd (ScanlineAlgorithm iter env typeMap t evs) = []" by (simp_all add: ms)
qed

lemma Scanline_reported:
  assumes reg: "all_regular evs" and iter: "\<And>xs. set (iter xs) = set xs"
    and t: "t \<in> set typeMap" and d: "\<not> env_checkDcci env"
  shows "reported (fst (ScanlineAlgorithm iter env typeMap t evs)) i j \<longleftrightarrow>
     i < length evs \<and> j < length evs \<and> i \<noteq> j \<and> racing t env (evs ! i) (evs ! j)"
proof -
  note F = all_regular_facts [OF reg]
  have r: "scan_regular (evs ! k)" "plain_event (evs ! k)" if "k < length evs" for k
    using reg that by (simp_all add: all_regular_def scan_regular_def)
  let ?C = "compared evs (pair_test (check_of t env evs))"
  have C: "?C a b \<longleftrightarrow> racing t env (evs ! a) (evs ! b)" if "a < length evs" "b < length evs" for a b
    using racing_test [OF r(2) r(2)] that by (auto simp: compared_def)
  have sym: "?C a b = ?C b a" if "a < length evs" "b < length evs" for a b
    using pair_test_sym [OF r(2) [OF that(1)] r(2) [OF that(2)]] by (auto simp: compared_def same_mem_def)
  have meet: "ranges_meet evs a b" if "a < length evs" "b < length evs" "racing t env (evs ! a) (evs ! b)" for a b
    using share_bytes_meet [OF r(1) r(1)] that by (simp add: racing_def)
  have "reported (fst (ScanlineAlgorithm iter env typeMap t evs)) i j \<longleftrightarrow>
      i \<in> set (scanned evs) \<and> j \<in> set (scanned evs) \<and> i \<noteq> j \<and> ranges_meet evs i j \<and> ?C i j"
    by (rule reported_iff [OF F(1) Scanline_sweep(1) [OF assms] sym])
  then show ?thesis using C [of i j] meet [of i j] unfolding F(4) by auto
qed

text \<open>
  C1. The scanline is exact. On plain accesses, for every check type, whatever the iteration order
  of the hash sets, two events are reported as a pair (in one order or the other) exactly when they
  are different, one of them writes, they share a byte of the same memory, and the condition of the
  check type holds: not ordered by the vector clocks, not both atomic, and so on.
\<close>
theorem Scanline_exact:
  assumes "all_regular evs" "\<And>xs. set (iter xs) = set xs" "t \<in> set typeMap" "\<not> env_checkDcci env"
  shows "reported (fst (ScanlineAlgorithm iter env typeMap t evs)) i j \<longleftrightarrow>
     i < length evs \<and> j < length evs \<and> i \<noteq> j \<and> racing t env (evs ! i) (evs ! j)"
  using assms by (rule Scanline_reported)

text \<open>
  C24. The two fast scans lose nothing: on plain accesses the bucket scan with its constant time
  removal and the window scan with its ordered sets find the same pairs as the generic scan.
\<close>
theorem fast_scans_agree_with_generic:
  assumes "all_regular evs" "\<And>xs. set (iter xs) = set xs"
  defines "ms \<equiv> fst (BuildScanlineMetaData evs)"
  shows "idx_pairs (ScanSingleBlockFast env evs ms) =
       idx_pairs (races_out (ScanGeneric iter evs False (check_of SINGLE_BLOCK_CHECK env evs) dcci ms)) \<and>
     idx_pairs (ScanSinglePipeWindow evs (check_of SINGLE_PIPE_CHECK env evs) ms) =
       idx_pairs (races_out (ScanGeneric iter evs False (check_of SINGLE_PIPE_CHECK env evs) dcci ms))"
proof -
  note F = all_regular_facts [OF assms(1)]
  note ok = Build_scan_ok [OF F(1), folded ms_def]
  note st = check_stable(1) [OF F(3)]
  have gen: "idx_pairs (races_out (ScanGeneric iter evs False (check_of t env evs) dcci ms)) =
      sweep_pairs (compared evs (pair_test (check_of t env evs))) ms" for t
    using ScanGeneric_sweep [OF ok, of False dcci "check_of t env evs" iter evs] st assms(2)
    by (simp add: generic_inv_def the_out_def)
  show ?thesis
    unfolding gen ScanSinglePipeWindow_sweep [OF ok st SinglePipe_windowed] ScanSingleBlockFast_sweep [OF ok F(2)]
    by (simp add: check_of_def)
qed

section \<open>The reports\<close>







text \<open>A checker as \<open>Init\<close> and a sequence of \<open>PushEvent\<close> calls leave it.\<close>

definition loaded :: "MemEventChecker \<Rightarrow> MemEvent list \<Rightarrow> MemEventChecker" where
  "loaded c evs = fold PushEvent evs c"

lemma loaded_simps [simp]:
  "mec_events (loaded c evs) = mec_events c @ evs" "mec_result (loaded c evs) = mec_result c"
  "mec_raceSet (loaded c evs) = mec_raceSet c" "mec_raceCnt (loaded c evs) = mec_raceCnt c"
  "mec_checkType (loaded c evs) = mec_checkType c" "mec_checkTypeMap (loaded c evs) = mec_checkTypeMap c"
  "mec_kernelType (loaded c evs) = mec_kernelType c" "mec_deviceType (loaded c evs) = mec_deviceType c"
  "mec_blockNum (loaded c evs) = mec_blockNum c"
  unfolding loaded_def by (induction evs arbitrary: c) (simp_all add: PushEvent_def)



subsection \<open>Instances\<close>

definition sample_events :: "MemEvent list" where
  "sample_events = [sample_mem_event 0 PIPE_V (VectorTime_Set VectorTime_new 1 2),
     sample_mem_event 64 PIPE_MTE2 (VectorTime_Set VectorTime_new 4 2), sample_mem_event 32 PIPE_MTE3 VectorTime_new]"

lemma sample_scan_regular:
  "unat a < 2 ^ 32 \<Longrightarrow> vt_inv t \<Longrightarrow> p \<noteq> PIPE_SIZE \<Longrightarrow> scan_regular (sample_mem_event a p t)"
  by (simp add: scan_regular_def sample_plain) (simp add: sample_mem_event_def sample_op_def op_len_def)

lemma sample_events_regular: "all_regular sample_events"
  by (simp add: all_regular_def sample_events_def sample_scan_regular Set_inv)

lemma sample_race:
  "racing SINGLE_BLOCK_CHECK sample_env (sample_events ! 0) (sample_events ! 1)"
  "\<not> racing SINGLE_BLOCK_CHECK sample_env (sample_events ! 0) (sample_events ! 2)"
proof -
  have two: "{..<2} = {0, 1 :: nat}" by auto
  have bytes: "op_bytes (sample_op 0) = {0 ..< 32} \<union> {64 ..< 96}" "op_bytes (sample_op 64) = {64 ..< 96} \<union> {128 ..< 160}"
    "op_bytes (sample_op 32) = {32 ..< 64} \<union> {96 ..< 128}"
    by (simp_all add: op_bytes_def op_start_def sample_op_def two lessThan_Suc)
  let ?e = "sample_events ! 0" and ?f = "sample_events ! 1" and ?g = "sample_events ! 2"
  have mem: "memInfo ?e = sample_op 0" "memInfo ?f = sample_op 64" "memInfo ?g = sample_op 32"
    by (simp_all add: sample_events_def sample_mem_event_def)
  have "64 \<in> op_bytes (sample_op 0) \<inter> op_bytes (sample_op 64)" unfolding bytes by simp
  then have "share_bytes ?e ?f" unfolding share_bytes_def mem by (auto simp: sample_op_def)
  moreover have "plain_event ?e" "plain_event ?f" by (simp_all add: sample_events_def sample_plain Set_inv)
  moreover have "IsNotHappensBefore (ev_vt ?e) (ev_vt ?f) 1 4" by code_simp
  moreover have "GetPipeIdxByMemEvent SINGLE_BLOCK_CHECK ?e KT_AIVEC ASCEND_910B1 = 1"
      "GetPipeIdxByMemEvent SINGLE_BLOCK_CHECK ?f KT_AIVEC ASCEND_910B1 = 4" by code_simp+
  moreover have "ev_pipe ?e \<noteq> ev_pipe ?f" "\<not> IsAtomicAgainst ?e ?f" "opType (memInfo ?e) = WRITE" by code_simp+
  ultimately show "racing SINGLE_BLOCK_CHECK sample_env ?e ?f"
    using concurrent_at_NotHappensBefore [of ?e ?f 1 4] by (simp add: racing_def sample_env_def)
  have "op_bytes (sample_op 0) \<inter> op_bytes (sample_op 32) = {}" unfolding bytes by auto
  then show "\<not> racing SINGLE_BLOCK_CHECK sample_env ?e ?g" by (simp add: racing_def share_bytes_def mem)
qed

theorem Scanline_exact_witness:
  "reported (fst (ScanlineAlgorithm id sample_env [SINGLE_BLOCK_CHECK] SINGLE_BLOCK_CHECK sample_events)) 0 1 \<and>
   \<not> reported (fst (ScanlineAlgorithm id sample_env [SINGLE_BLOCK_CHECK] SINGLE_BLOCK_CHECK sample_events)) 0 2"
proof -
  have "reported (fst (ScanlineAlgorithm id sample_env [SINGLE_BLOCK_CHECK] SINGLE_BLOCK_CHECK sample_events)) i j \<longleftrightarrow>
      i < length sample_events \<and> j < length sample_events \<and> i \<noteq> j \<and> racing SINGLE_BLOCK_CHECK sample_env (sample_events ! i) (sample_events ! j)" for i j
    by (rule Scanline_exact [OF sample_events_regular]) (simp_all add: sample_env_def)
  then show ?thesis using sample_race by (simp add: sample_events_def)
qed

theorem fast_scans_agree_with_generic_witness:
  "idx_pairs (ScanSingleBlockFast sample_env sample_events (fst (BuildScanlineMetaData sample_events))) =
     idx_pairs (races_out (ScanGeneric id sample_events False (check_of SINGLE_BLOCK_CHECK sample_env sample_events)
       (IsMissDcciEvent sample_env sample_events) (fst (BuildScanlineMetaData sample_events))))"
  using fast_scans_agree_with_generic [OF sample_events_regular, of id sample_env "IsMissDcciEvent sample_env sample_events"] by simp


end
