(* ===== verification/Handlers.thy ===== *)
theory Handlers
  imports PipeLine
begin

text \<open>
  The shape the event functions of the race algorithms and of the replayer share: an event that is
  met on another pipe than its own is launched, that is, events for its pipe are pushed behind that
  pipe's queue; an event on its own pipe is dispatched and touches no queue. The locale
  \<open>launching_handler\<close> states this interface; it gives the contract \<open>event_handler\<close> the pipeline
  relies on, and \<open>pure_handler\<close> where a dispatch that stalls leaves the state alone.
\<close>

section \<open>The block of an event\<close>

definition GetEventExpandBlockIndex :: "SanEvent \<Rightarrow> nat" where
  "GetEventExpandBlockIndex event =
     (let aicoreIndex = (if blockType (loc event) = BT_AIVEC then coreId (loc event) div C220_VEC_SUB_BLOCKDIM
                         else coreId (loc event));
          subBlockIndex = (if blockType (loc event) = BT_AIVEC then coreId (loc event) mod C220_VEC_SUB_BLOCKDIM
                           else C220_VEC_SUB_BLOCKDIM) in
      aicoreIndex * C220_MIX_SUB_BLOCKDIM + subBlockIndex)"

definition GetEventBlockIndex :: "SanEvent \<Rightarrow> KernelType \<Rightarrow> DeviceType \<Rightarrow> RaceCheckType \<Rightarrow> nat" where
  "GetEventBlockIndex event k d checkType =
     (if \<not> NeedExpandBlockDim k d then
        if checkType = SINGLE_BLOCK_CHECK then 0 else coreId (loc event)
      else GetEventExpandBlockIndex event)"

text \<open>The overload without a check type.\<close>

definition GetEventBlockIndex3 :: "SanEvent \<Rightarrow> KernelType \<Rightarrow> DeviceType \<Rightarrow> nat" where
  "GetEventBlockIndex3 event k d =
     (if \<not> NeedExpandBlockDim k d then coreId (loc event) else GetEventExpandBlockIndex event)"

text \<open>A default-initialised event: every member with its initialiser.\<close>

definition SanEvent_new :: SanEvent where
  "SanEvent_new = \<lparr>serialNo = 0, pipe = PIPE_S, eventInfo = SANITIZER_CONTROL_EVENT SC_KERNEL_FINISH, timeInfo = None,
     loc = \<lparr>fileNo = 0, lineNo = 0, loc_pc = 0, deviceIdx = 0, kernelIdx = 0, deviceId = 0, coreId = 0, blockType = BT_AIVEC\<rparr>,
     isAtomicMode = False, recordType = INVALID_RECORD_TYPE, closedRingStartSerialNo = 0\<rparr>"

definition is_finish :: "SanEvent \<Rightarrow> bool" where
  "is_finish e \<longleftrightarrow> eventInfo e = SANITIZER_CONTROL_EVENT SC_KERNEL_FINISH"

lemma GetEventBlockIndex_ByLoc:
  "GetEventBlockIndex e k d ct = GetEventBlockIndexByLoc (loc e) k d ct"
  "GetEventBlockIndex3 e k d = GetEventBlockIndexByLoc (loc e) k d CROSS_BLOCK_CHECK"
  by (simp_all add: GetEventBlockIndex_def GetEventBlockIndex3_def GetEventBlockIndexByLoc_def
      GetEventExpandBlockIndex_def GetEventExpandBlockIndexByLoc_def)

section \<open>The work left in a container\<close>

definition slots :: "EventContainer \<Rightarrow> (nat \<times> nat \<times> nat) set" where
  "slots c = {..<deviceNum c} \<times> {..<maxBlockNum c} \<times> {..<PIPE_NUM}"

definition launchable :: "EventContainer \<Rightarrow> bool" where
  "launchable c \<longleftrightarrow> (\<forall>d b p. in_range c d b p \<longrightarrow> (\<forall>e\<in>set (queued c d b p). pipe e \<noteq> PIPE_SIZE))"

definition event_weight :: "(SanEvent \<Rightarrow> bool) \<Rightarrow> nat \<Rightarrow> SanEvent \<Rightarrow> nat" where
  "event_weight movable p e = (if movable e \<and> pipe_of p \<noteq> pipe e then 4 else 1)"

definition queue_weight :: "(SanEvent \<Rightarrow> bool) \<Rightarrow> nat \<Rightarrow> SanEvent list \<Rightarrow> nat" where
  "queue_weight movable p es = sum_list (map (event_weight movable p) es)"

definition work_left :: "(SanEvent \<Rightarrow> bool) \<Rightarrow> EventContainer \<Rightarrow> nat" where
  "work_left movable c = (\<Sum>(d, b, p)\<in>slots c. queue_weight movable p (queued c d b p))"

lemma finite_slots [simp]: "finite (slots c)"
  by (simp add: slots_def)

lemma in_slots [simp]: "(d, b, p) \<in> slots c \<longleftrightarrow> in_range c d b p"
  by (auto simp: slots_def in_range_def simp del: PIPE_NUM_eq)

lemma slots_cong: "deviceNum c' = deviceNum c \<Longrightarrow> maxBlockNum c' = maxBlockNum c \<Longrightarrow> slots c' = slots c"
  by (simp add: slots_def)

lemma work_left_content: "same_content c c' \<Longrightarrow> work_left m c' = work_left m c"
  using same_content_queued [of c c'] slots_cong [of c' c] by (simp add: work_left_def same_content_def)

lemma work_left_change:
  assumes "slots c' = slots c" "in_range c d b p"
    and "\<And>d' b' p'. in_range c d' b' p' \<Longrightarrow> (d', b', p') \<noteq> (d, b, p) \<Longrightarrow> queued c' d' b' p' = queued c d' b' p'"
  shows "work_left m c' + queue_weight m p (queued c d b p) = work_left m c + queue_weight m p (queued c' d b p)"
proof -
  let ?f = "\<lambda>(d, b, p). queue_weight m p (queued c d b p)" and ?g = "\<lambda>(d, b, p). queue_weight m p (queued c' d b p)"
  have x: "(d, b, p) \<in> slots c" using assms(2) by simp
  have "sum ?f (slots c - {(d, b, p)}) = sum ?g (slots c - {(d, b, p)})"
  proof (rule sum.cong [OF refl])
    fix x assume x: "x \<in> slots c - {(d, b, p)}"
    obtain d' b' p' where [simp]: "x = (d', b', p')" by (metis prod_cases3)
    show "?f x = ?g x" using assms(3) [of d' b' p'] x by simp
  qed
  then show ?thesis
    using sum.remove [OF finite_slots x, of ?f] sum.remove [OF finite_slots x, of ?g] assms(1)
    by (simp add: work_left_def)
qed

lemma queue_weight_Nil [simp]: "queue_weight m p [] = 0"
  by (simp add: queue_weight_def)

lemma queue_weight_append [simp]: "queue_weight m p (xs @ ys) = queue_weight m p xs + queue_weight m p ys"
  by (simp add: queue_weight_def)

lemma split_event_pipe: "x \<in> set (split_event e) \<Longrightarrow> pipe x = pipe e"
  by (auto simp: split_event_def split: EventInfo.splits if_splits)

lemma split_event_length: "length (split_event e) \<le> 2"
  by (auto simp: split_event_def split: EventInfo.splits)

lemma split_event_other: "(\<And>m. eventInfo e \<noteq> MEM_EVENT m) \<Longrightarrow> split_event e = [e]"
  by (auto simp: split_event_def split: EventInfo.splits)

lemma queue_weight_own: "\<forall>x\<in>set es. pipe x = pipe_of p \<Longrightarrow> queue_weight m p es = length es"
  by (induction es) (simp_all add: queue_weight_def event_weight_def)

subsection \<open>Pushing a list of events to one pipe\<close>

definition push_list :: "EventContainer \<Rightarrow> SanEvent list \<Rightarrow> PipeType \<Rightarrow> nat \<Rightarrow> nat \<Rightarrow> EventContainer" where
  "push_list c es p b d = foldl (\<lambda>c e. EventContainer_Push c e p b d) c es"

lemma push_list_queued:
  assumes "ec_inv c" "p \<noteq> PIPE_SIZE"
  shows "ec_inv (push_list c es p b d) \<and> same_frame c (push_list c es p b d) \<and>
     (\<forall>d' b' p'. in_range c d' b' p' \<longrightarrow> queued (push_list c es p b d) d' b' p' =
       queued c d' b' p' @ (if (d', b', p') = (d, b, pipe_code p) then concat (map split_event es) else []))"
  using assms(1)
proof (induction es arbitrary: c)
  case (Cons e es)
  let ?c = "EventContainer_Push c e p b d"
  have c: "ec_inv ?c" "same_frame c ?c"
    using EventContainer_Push_queued [OF Cons.prems assms(2) ec_inv_cursor [OF Cons.prems], of e b d] by simp_all
  note f = same_frame_fields [OF c(2)]
  have "ec_inv (push_list ?c es p b d) \<and> same_frame ?c (push_list ?c es p b d) \<and>
     (\<forall>d' b' p'. in_range ?c d' b' p' \<longrightarrow> queued (push_list ?c es p b d) d' b' p' =
       queued ?c d' b' p' @ (if (d', b', p') = (d, b, pipe_code p) then concat (map split_event es) else []))"
    by (rule Cons.IH [OF c(1)])
  moreover have "push_list c (e # es) p b d = push_list ?c es p b d" by (simp add: push_list_def)
  ultimately show ?case
    using EventContainer_Push_queued(3) [OF Cons.prems assms(2)] same_frame_trans [OF c(2)] f(13) by simp
qed (simp add: push_list_def)

lemma push_list_work:
  assumes "ec_inv c" "p \<noteq> PIPE_SIZE" "\<forall>e\<in>set es. pipe e = p"
  shows "work_left m (push_list c es p b d) \<le> work_left m c + length (concat (map split_event es))"
proof -
  let ?c = "push_list c es p b d"
  note q = push_list_queued [OF assms(1,2), of es b d]
  then have fr: "same_frame c ?c" by blast
  have sl: "slots ?c = slots c" using same_frame_fields(1,2) [OF fr] by (rule slots_cong)
  show ?thesis
  proof (cases "in_range c d b (pipe_code p)")
    case True
    have own: "queue_weight m (pipe_code p) (concat (map split_event es)) = length (concat (map split_event es))"
      using assms(3) split_event_pipe by (intro queue_weight_own) auto
    have "work_left m ?c + queue_weight m (pipe_code p) (queued c d b (pipe_code p)) =
        work_left m c + queue_weight m (pipe_code p) (queued ?c d b (pipe_code p))"
      by (rule work_left_change [OF sl True]) (use q in auto)
    then show ?thesis using q True own by simp
  next
    case False
    have "work_left m ?c = work_left m c"
      unfolding work_left_def sl by (rule sum.cong) (use q False in auto)
    then show ?thesis by simp
  qed
qed

lemma Pop_work:
  assumes "ec_inv c" "at_cursor c \<noteq> []"
  shows "work_left m (EventContainer_Pop c) + event_weight m (pipeIndex c) (hd (at_cursor c)) = work_left m c"
proof -
  let ?d = "deviceIndex c" and ?b = "blockIndex c" and ?p = "pipeIndex c"
  have r: "in_range c ?d ?b ?p" by (rule ec_inv_cursor [OF assms(1)])
  have "work_left m (EventContainer_Pop c) + queue_weight m ?p (queued c ?d ?b ?p) =
      work_left m c + queue_weight m ?p (queued (EventContainer_Pop c) ?d ?b ?p)"
    by (rule work_left_change [OF slots_cong r]) (use EventContainer_Pop_queued [OF assms] in \<open>auto simp: queue_simps\<close>)
  moreover have "queued (EventContainer_Pop c) ?d ?b ?p = tl (at_cursor c)"
    using EventContainer_Pop_queued [OF assms r] by (simp add: at_cursor_def)
  moreover have "queue_weight m ?p (at_cursor c) = event_weight m ?p (hd (at_cursor c)) + queue_weight m ?p (tl (at_cursor c))"
    using assms(2) by (cases "at_cursor c") (simp_all add: queue_weight_def)
  ultimately show ?thesis by (simp add: at_cursor_def)
qed

lemma in_set_tl: "x \<in> set (tl xs) \<Longrightarrow> x \<in> set xs"
  by (cases xs) simp_all

lemma launchable_Pop:
  assumes "launchable c" "ec_inv c" "at_cursor c \<noteq> []"
  shows "launchable (EventContainer_Pop c)"
  unfolding launchable_def
proof (intro allI impI ballI)
  fix d b p e assume r: "in_range (EventContainer_Pop c) d b p" and e: "e \<in> set (queued (EventContainer_Pop c) d b p)"
  then have r': "in_range c d b p" by (simp add: in_range_def queue_simps)
  then have "e \<in> set (queued c d b p)"
    using e EventContainer_Pop_queued [OF assms(2,3) r'] by (auto split: if_splits dest: in_set_tl)
  then show "pipe e \<noteq> PIPE_SIZE" using assms(1) r' by (auto simp: launchable_def)
qed

lemma launchable_push_list:
  assumes "launchable c" "ec_inv c" "p \<noteq> PIPE_SIZE" "\<forall>e\<in>set es. pipe e = p"
  shows "launchable (push_list c es p b d)"
  unfolding launchable_def
proof (intro allI impI ballI)
  fix d' b' p' e assume r: "in_range (push_list c es p b d) d' b' p'" and e: "e \<in> set (queued (push_list c es p b d) d' b' p')"
  note q = push_list_queued [OF assms(2,3), of es b d]
  then have r': "in_range c d' b' p'" using r same_frame_fields(13) by blast
  then have "e \<in> set (queued c d' b' p') \<or> e \<in> set (concat (map split_event es))" using q e by (auto split: if_splits)
  then show "pipe e \<noteq> PIPE_SIZE" using assms r' split_event_pipe by (auto simp: launchable_def)
qed

lemma launchable_content: "launchable c \<Longrightarrow> same_content c c' \<Longrightarrow> launchable c'"
  using same_content_queued [of c c'] same_content_in_range [of c c'] by (simp add: launchable_def)

subsection \<open>Filling the scalar queues\<close>

definition load :: "(SanEvent \<Rightarrow> nat) \<Rightarrow> EventContainer \<Rightarrow> SanEvent list \<Rightarrow> EventContainer" where
  "load block c es = foldl (\<lambda>c e. EventContainer_Push c e PIPE_S (block e) 0) c es"

lemma Init_queued: "in_range (EventContainer_Init n k) d b p \<Longrightarrow> queued (EventContainer_Init n k) d b p = []"
  using FlattenPipeIdx_less [of p b "EventContainer_Init n k" d]
  by (simp add: queued_def EventContainer_Init_def in_range_def del: PIPE_NUM_eq)

lemma load_queued:
  assumes "0 < n"
  shows "ec_inv (load block (EventContainer_Init n 1) es)"
    and "same_frame (EventContainer_Init n 1) (load block (EventContainer_Init n 1) es)"
    and "in_range (load block (EventContainer_Init n 1) es) 0 b p \<Longrightarrow> queued (load block (EventContainer_Init n 1) es) 0 b p =
       (if p = pipe_code PIPE_S then concat (map split_event [e\<leftarrow>es. block e = b]) else [])"
    and "maxBlockNum (load block (EventContainer_Init n 1) es) = n" "deviceNum (load block (EventContainer_Init n 1) es) = 1"
proof -
  let ?i = "EventContainer_Init n 1"
  have inv0: "ec_inv ?i" using assms by (intro ec_inv_Init) simp_all
  have S: "PIPE_S \<noteq> PIPE_SIZE" by simp
  have all: "ec_inv (load block ?i es) \<and> same_frame ?i (load block ?i es) \<and>
      (\<forall>b p. in_range ?i 0 b p \<longrightarrow> queued (load block ?i es) 0 b p =
         (if p = pipe_code PIPE_S then concat (map split_event [e\<leftarrow>es. block e = b]) else []))"
  proof (induction es rule: rev_induct)
    case Nil
    show ?case using inv0 Init_queued by (simp add: load_def)
  next
    case (snoc x xs)
    let ?c = "load block ?i xs"
    have c: "ec_inv ?c" and fr: "same_frame ?i ?c" using snoc by simp_all
    have eq: "load block ?i (xs @ [x]) = EventContainer_Push ?c x PIPE_S (block x) 0" by (simp add: load_def)
    note push = EventContainer_Push_queued [OF c S]
    note f = same_frame_fields [OF fr]
    have "ec_inv (EventContainer_Push ?c x PIPE_S (block x) 0)" "same_frame ?c (EventContainer_Push ?c x PIPE_S (block x) 0)"
      using push(1,2) [OF ec_inv_cursor [OF c]] by simp_all
    moreover have "queued (EventContainer_Push ?c x PIPE_S (block x) 0) 0 b p =
        (if p = pipe_code PIPE_S then concat (map split_event [e\<leftarrow>xs @ [x]. block e = b]) else [])"
      if "in_range ?i 0 b p" for b p
      using push(3) [of 0 b p x "block x" 0] snoc that f(13) by auto
    ultimately show ?case using same_frame_trans [OF fr] unfolding eq by blast
  qed
  then show "ec_inv (load block ?i es)" "same_frame ?i (load block ?i es)" by simp_all
  then have f: "same_frame ?i (load block ?i es)" by simp
  note f = same_frame_fields [OF f]
  show "queued (load block ?i es) 0 b p = (if p = pipe_code PIPE_S then concat (map split_event [e\<leftarrow>es. block e = b]) else [])"
    if "in_range (load block ?i es) 0 b p" using all that f(13) by simp
  show "maxBlockNum (load block ?i es) = n" "deviceNum (load block ?i es) = 1"
    using f(1,2) by (simp_all add: EventContainer_Init_def)
qed

lemma load_launchable:
  assumes "0 < n" "\<forall>e\<in>set es. pipe e \<noteq> PIPE_SIZE"
  shows "launchable (load block (EventContainer_Init n 1) es)"
  unfolding launchable_def
proof (intro allI impI ballI)
  let ?c = "load block (EventContainer_Init n 1) es"
  fix d b p e assume r: "in_range ?c d b p" and e: "e \<in> set (queued ?c d b p)"
  have "d = 0" using r load_queued(5) [OF assms(1), of block es] by (simp add: in_range_def)
  then obtain x where "x \<in> set es" "e \<in> set (split_event x)"
    using load_queued(3) [OF assms(1), of block es b p] r e by (auto split: if_splits)
  then show "pipe e \<noteq> PIPE_SIZE" using assms(2) split_event_pipe by metis
qed

section \<open>Launching handlers\<close>

locale launching_handler =
  fixes h :: "'s EventFunc"
    and movable :: "SanEvent \<Rightarrow> bool"
    and launch :: "SanEvent \<Rightarrow> nat \<Rightarrow> 's \<Rightarrow> 's \<times> SanEvent list"
    and target :: "'s \<Rightarrow> SanEvent \<Rightarrow> nat \<times> nat"
    and dispatch :: "SanEvent \<Rightarrow> nat \<Rightarrow> 's \<Rightarrow> ReturnType \<times> 's"
  assumes h_launch: "movable e \<Longrightarrow> GetPipeIndex c \<noteq> pipe e \<Longrightarrow>
      h e (s, c) = (PROCESS_OK, fst (launch e (GetQueIndex c) s),
        push_list c (snd (launch e (GetQueIndex c) s)) (pipe e) (fst (target s e)) (snd (target s e)))"
    and h_dispatch: "\<not> (movable e \<and> GetPipeIndex c \<noteq> pipe e) \<Longrightarrow>
      h e (s, c) = (fst (dispatch e (GetQueIndex c) s), snd (dispatch e (GetQueIndex c) s), c)"
    and launch_pipe: "x \<in> set (snd (launch e i s)) \<Longrightarrow> pipe x = pipe e"
    and launch_few: "length (concat (map split_event (snd (launch e i s)))) \<le> 3"
begin

lemma cursor_pipe:
  assumes "ec_inv c" "GetPipeIndex c \<noteq> pipe e"
  shows "pipe_code (pipe e) \<noteq> pipeIndex c"
proof
  assume "pipe_code (pipe e) = pipeIndex c"
  then have "pipe_of (pipeIndex c) = pipe e" using pipe_of_code [of "pipe e"] by simp
  then show False using assms(2) by (simp add: GetPipeIndex_def)
qed

lemma launched:
  assumes v: "ec_inv c" "launchable c" and ne: "at_cursor c \<noteq> []"
    and mv: "movable (hd (at_cursor c))" "GetPipeIndex c \<noteq> pipe (hd (at_cursor c))"
    and h: "h (hd (at_cursor c)) (s, c) = (r, s', c')"
  shows "r = PROCESS_OK" "same_frame c c'" "ec_inv c'" "at_cursor c' = at_cursor c" "launchable c'"
    "work_left movable c' \<le> work_left movable c + 3"
proof -
  let ?e = "hd (at_cursor c)"
  have "?e \<in> set (queued c (deviceIndex c) (blockIndex c) (pipeIndex c))" using ne by (simp add: at_cursor_def)
  then have p: "pipe ?e \<noteq> PIPE_SIZE" using v(2) ec_inv_cursor [OF v(1)] by (auto simp: launchable_def)
  let ?es = "snd (launch ?e (GetQueIndex c) s)"
  have c': "c' = push_list c ?es (pipe ?e) (fst (target s ?e)) (snd (target s ?e))" and "r = PROCESS_OK"
    using h h_launch [OF mv] by simp_all
  then show "r = PROCESS_OK" by simp
  note q = push_list_queued [OF v(1) p, of ?es "fst (target s ?e)" "snd (target s ?e)", folded c']
  then show fr: "same_frame c c'" "ec_inv c'" by simp_all
  show "at_cursor c' = at_cursor c"
    using q ec_inv_cursor [OF v(1)] cursor_pipe [OF v(1) mv(2)] same_frame_fields [OF fr(1)]
    by (simp add: at_cursor_def)
  have own: "\<forall>x\<in>set ?es. pipe x = pipe ?e" using launch_pipe by blast
  show "launchable c'" unfolding c' by (rule launchable_push_list [OF v(2,1) p own])
  show "work_left movable c' \<le> work_left movable c + 3"
    using push_list_work [OF v(1) p own, of movable] launch_few [of ?e "GetQueIndex c" s] order.trans
    unfolding c' by (meson add_left_mono)
qed

lemma dispatched:
  assumes "\<not> (movable e \<and> GetPipeIndex c \<noteq> pipe e)" "h e (s, c) = (r, s', c')"
  shows "c' = c" "dispatch e (GetQueIndex c) s = (r, s')"
  using h_dispatch [OF assms(1), of s] assms(2) by (auto simp: prod_eq_iff)

lemma handler_ok:
  assumes v: "ec_inv c" "launchable c" and ne: "at_cursor c \<noteq> []" and h: "h (hd (at_cursor c)) (s, c) = (PROCESS_OK, s', c')"
  shows "same_frame c c'" "ec_inv c'" "at_cursor c' = at_cursor c" "launchable c'"
    "work_left movable (EventContainer_Pop c') < work_left movable c"
proof -
  let ?e = "hd (at_cursor c)"
  have "same_frame c c' \<and> ec_inv c' \<and> at_cursor c' = at_cursor c \<and> launchable c' \<and>
      work_left movable (EventContainer_Pop c') < work_left movable c"
  proof (cases "movable ?e \<and> GetPipeIndex c \<noteq> pipe ?e")
    case True
    note L = launched [OF v ne _ _ h]
    have "work_left movable (EventContainer_Pop c') + event_weight movable (pipeIndex c') ?e = work_left movable c'"
      using Pop_work [of c' movable] L ne True by simp
    moreover have "event_weight movable (pipeIndex c') ?e = 4"
      using True same_frame_fields(3) [of c c'] L(2) by (simp add: event_weight_def GetPipeIndex_def)
    ultimately show ?thesis using L True by simp
  next
    case False
    have "c' = c" using dispatched [OF False h] by simp
    moreover have "work_left movable (EventContainer_Pop c) + event_weight movable (pipeIndex c) ?e = work_left movable c"
      by (rule Pop_work [OF v(1) ne])
    moreover have "0 < event_weight movable (pipeIndex c) ?e" by (simp add: event_weight_def)
    ultimately show ?thesis using v by simp
  qed
  then show "same_frame c c'" "ec_inv c'" "at_cursor c' = at_cursor c" "launchable c'"
    "work_left movable (EventContainer_Pop c') < work_left movable c" by simp_all
qed

lemma handler_stalled:
  assumes "ec_inv c" "launchable c" "at_cursor c \<noteq> []" "h (hd (at_cursor c)) (s, c) = (PROCESS_STALLED, s', c')"
  shows "c' = c" "dispatch (hd (at_cursor c)) (GetQueIndex c) s = (PROCESS_STALLED, s')"
proof -
  have "\<not> (movable (hd (at_cursor c)) \<and> GetPipeIndex c \<noteq> pipe (hd (at_cursor c)))"
    using launched(1) [OF assms(1-3) _ _ assms(4)] by auto
  then show "c' = c" "dispatch (hd (at_cursor c)) (GetQueIndex c) s = (PROCESS_STALLED, s')"
    using dispatched [OF _ assms(4)] by simp_all
qed

end

sublocale launching_handler \<subseteq> event_handler h "\<lambda>_ c. ec_inv c \<and> launchable c" "work_left movable"
proof
  show "ec_inv c \<and> launchable c \<Longrightarrow> ec_inv c" for c by simp
  show "ec_inv c \<and> launchable c \<Longrightarrow> same_content c c' \<Longrightarrow> ec_inv c' \<Longrightarrow> ec_inv c' \<and> launchable c'" for c c'
    using launchable_content by blast
  show "same_content c c' \<Longrightarrow> work_left movable c' = work_left movable c" for c c' by (rule work_left_content)
  show "same_frame c c' \<and> (\<exists>ys. at_cursor c' = at_cursor c @ ys)"
    if "ec_inv c \<and> launchable c" "at_cursor c \<noteq> []" "h (hd (at_cursor c)) (s, c) = (PROCESS_OK, s', c')" for s c s' c'
    using handler_ok [OF _ _ that(2,3)] that(1) by simp
  show "ec_inv (EventContainer_Pop c') \<and> launchable (EventContainer_Pop c')"
    if "ec_inv c \<and> launchable c" "at_cursor c \<noteq> []" "h (hd (at_cursor c)) (s, c) = (PROCESS_OK, s', c')" for s c s' c'
    using handler_ok [OF _ _ that(2,3)] that(1,2) EventContainer_Pop_inv [of c'] launchable_Pop [of c'] by simp
  show "work_left movable (EventContainer_Pop c') < work_left movable c"
    if "ec_inv c \<and> launchable c" "at_cursor c \<noteq> []" "h (hd (at_cursor c)) (s, c) = (PROCESS_OK, s', c')" for s c s' c'
    using handler_ok(5) [OF _ _ that(2,3)] that(1) by simp
  show "c' = c \<and> ec_inv c \<and> launchable c"
    if "ec_inv c \<and> launchable c" "at_cursor c \<noteq> []" "h (hd (at_cursor c)) (s, c) = (PROCESS_STALLED, s', c')" for s c s' c'
    using handler_stalled [OF _ _ that(2,3)] that(1) by simp
qed

locale pure_launching_handler = launching_handler +
  assumes dispatch_pure: "dispatch e i s = (PROCESS_STALLED, s') \<Longrightarrow> s' = s"

sublocale pure_launching_handler \<subseteq> pure_handler h "\<lambda>_ c. ec_inv c \<and> launchable c" "work_left movable"
proof
  show "s' = s"
    if "ec_inv c \<and> launchable c" "at_cursor c \<noteq> []" "h (hd (at_cursor c)) (s, c) = (PROCESS_STALLED, s', c')" for s c s' c'
    using handler_stalled(2) [OF _ _ that(2,3)] that(1) dispatch_pure by blast
  show "fst (h e (s, c')) = fst (h e (s, c))"
    if "same_content c c'" "deviceIndex c' = deviceIndex c" "blockIndex c' = blockIndex c" "pipeIndex c' = pipeIndex c" for c c' e s
  proof -
    have eq: "GetPipeIndex c' = GetPipeIndex c" "GetQueIndex c' = GetQueIndex c"
      using that by (simp_all add: GetPipeIndex_def GetQueIndex_def FlattenPipeIdx_def same_content_def)
    show ?thesis
    proof (cases "movable e \<and> GetPipeIndex c \<noteq> pipe e")
      case True
      then show ?thesis using h_launch [of e c s] h_launch [of e c' s] eq by simp
    next
      case False
      then show ?thesis using h_dispatch [of e c s] h_dispatch [of e c' s] eq by simp
    qed
  qed
qed

end
