(* ===== verification/Recording.thy ===== *)
theory Recording
  imports Handlers
begin

text \<open>
  What a launching handler leaves behind: invariants of a whole run of the pipeline, and the log of
  a handler that records some of its events. The locale \<open>recording_handler\<close> shows that every
  recorded event is logged once, and that the events of one block and pipe are logged in the order
  in which the program issued them.
\<close>

section \<open>Invariants of a run\<close>

context event_handler
begin

lemma step_invariant:
  assumes inv: "pl_inv p" and P: "P (client p) (events p)" and run: "running p"
    and content: "\<And>s c c'. valid s c \<Longrightarrow> P s c \<Longrightarrow> same_content c c' \<Longrightarrow> P s c'"
    and ok: "\<And>s c s' c'. valid s c \<Longrightarrow> P s c \<Longrightarrow> at_cursor c \<noteq> [] \<Longrightarrow>
        h (hd (at_cursor c)) (s, c) = (PROCESS_OK, s', c') \<Longrightarrow> P s' (EventContainer_Pop c')"
    and stalled: "\<And>s c s' c'. valid s c \<Longrightarrow> P s c \<Longrightarrow> at_cursor c \<noteq> [] \<Longrightarrow>
        h (hd (at_cursor c)) (s, c) = (PROCESS_STALLED, s', c') \<Longrightarrow> P s' c"
  shows "P (client (PipeLine_step (Some h) p)) (events (PipeLine_step (Some h) p))"
proof -
  have v: "valid (client p) (events p)" using inv by (simp add: pl_inv_def Let_def)
  note cont = content [OF v P]
  show ?thesis
  proof (cases "pipeState p = PROCESS_EVENT")
    case True
    let ?c = "events p"
    have ne: "at_cursor ?c \<noteq> []" using inv True by (simp add: pl_inv_def Let_def)
    have f: "EventContainer_Front ?c = hd (at_cursor ?c)" by (rule Front_queued [OF valid_inv [OF v] ne])
    obtain r s' c' where h: "h (hd (at_cursor ?c)) (client p, ?c) = (r, s', c')" by (metis prod_cases3)
    show ?thesis
    proof (cases r)
      case PROCESS_OK
      then have "P s' (EventContainer_Pop c')" using ok [OF v P ne] h by simp
      then show ?thesis using True h PROCESS_OK by (simp add: PipeLine_step_def Process_def f)
    next
      case PROCESS_STALLED
      then have "c' = ?c" "valid s' ?c" "P s' ?c" using stalled_frame [OF v ne] stalled [OF v P ne] h by auto
      then have "P s' (SwitchToNextPipe c')" using content [OF _ _ switch_content(1)] by simp
      then show ?thesis using True h PROCESS_STALLED by (simp add: PipeLine_step_def Process_def f)
    qed
  next
    case False
    then show ?thesis
      using P run cont [OF switch_content(1)] cont [OF switch_content(2)] cont [OF switch_content(4)] cont [OF switch_content(5)]
      by (cases "pipeState p") (simp_all add: step_defs running_def Let_def)
  qed
qed

lemma Run_invariant:
  assumes "pl_inv p" "P (client p) (events p)" "PipeLine_Run (Some h) p = Some r"
    and "\<And>s c c'. valid s c \<Longrightarrow> P s c \<Longrightarrow> same_content c c' \<Longrightarrow> P s c'"
    and "\<And>s c s' c'. valid s c \<Longrightarrow> P s c \<Longrightarrow> at_cursor c \<noteq> [] \<Longrightarrow>
        h (hd (at_cursor c)) (s, c) = (PROCESS_OK, s', c') \<Longrightarrow> P s' (EventContainer_Pop c')"
    and "\<And>s c s' c'. valid s c \<Longrightarrow> P s c \<Longrightarrow> at_cursor c \<noteq> [] \<Longrightarrow>
        h (hd (at_cursor c)) (s, c) = (PROCESS_STALLED, s', c') \<Longrightarrow> P s' c"
  shows "P (client r) (events r)"
proof -
  have "pl_inv r \<and> P (client r) (events r)"
  proof (rule while_option_rule [OF _ assms(3) [unfolded PipeLine_Run_def]])
    show "pl_inv p \<and> P (client p) (events p)" using assms(1,2) by simp
    fix q assume q: "pl_inv q \<and> P (client q) (events q)" and run: "running q"
    have "P (client (PipeLine_step (Some h) q)) (events (PipeLine_step (Some h) q))"
      by (rule step_invariant [of q P, OF conjunct1 [OF q] conjunct2 [OF q] run]) (fact assms(4-6))+
    then show "pl_inv (PipeLine_step (Some h) q) \<and> P (client (PipeLine_step (Some h) q)) (events (PipeLine_step (Some h) q))"
      using pl_inv_step [OF conjunct1 [OF q] run] by simp
  qed
  then show ?thesis by simp
qed

end

section \<open>Feeding events to a replay\<close>

primrec feed :: "('e \<Rightarrow> 's \<Rightarrow> 's option) \<Rightarrow> 'e list \<Rightarrow> 's \<Rightarrow> 's option" where
  "feed f [] s = Some s"
| "feed f (e # es) s = Option.bind (f e s) (feed f es)"

lemma feed_append: "feed f (xs @ ys) s = Option.bind (feed f xs s) (feed f ys)"
  by (induction xs arbitrary: s) (simp_all split: bind_split)

definition recorded :: "SanEvent list \<Rightarrow> bool" where
  "recorded es \<longleftrightarrow> (\<forall>e\<in>set es. pipe e \<noteq> PIPE_SIZE \<and> \<not> is_finish e)"

context launching_handler
begin

lemma loaded_inv:
  assumes "0 < n" "\<forall>e\<in>set es. pipe e \<noteq> PIPE_SIZE"
  shows "pl_inv (PipeLine_new s (load block (EventContainer_Init n 1) es))"
    and "\<exists>r. PipeLine_Run (Some h) (PipeLine_new s (load block (EventContainer_Init n 1) es)) = Some r"
proof -
  let ?c = "load block (EventContainer_Init n 1) es"
  note L = load_queued [OF assms(1), of block es]
  note f = same_frame_fields [OF L(2)]
  have init: "\<not> isDeviceStuck (EventContainer_Init n 1)" "stuckDeviceNum (EventContainer_Init n 1) = 0"
    by (simp_all add: EventContainer_Init_def)
  show inv: "pl_inv (PipeLine_new s ?c)"
    by (rule pl_inv_new) (use L(1,5) load_launchable [OF assms, of block] f(9,10) init in simp_all)
  then show "\<exists>r. PipeLine_Run (Some h) (PipeLine_new s ?c) = Some r"
    by (rule Run_returns_one_device) (simp add: PipeLine_new_def L(5) [simplified])
qed


lemma Run_end:
  assumes "pl_inv p" "PipeLine_Run (Some h) p = Some r"
  shows "pipeState r = EXIT \<and> EventContainer_IsEmpty (events r) \<or> pipeState r = EXCEPTION \<and> \<not> EventContainer_IsEmpty (events r)"
  using pl_inv_Run [OF assms] by (auto simp: running_def pl_inv_def Let_def)

end

section \<open>Recording handlers\<close>

locale recording_handler = launching_handler h movable launch target dispatch
  for h :: "'s EventFunc" and movable launch target dispatch +
  fixes good :: "'s \<Rightarrow> bool"
    and block :: "SanEvent \<Rightarrow> nat"
    and log :: "'s \<Rightarrow> 'm list"
    and entry :: "SanEvent \<Rightarrow> 'm list"
    and site :: "'m \<Rightarrow> nat \<times> PipeType"
  assumes target_block: "good s \<Longrightarrow> target s e = (block e, 0)"
    and launch_good: "good s \<Longrightarrow> good (fst (launch e i s))"
    and dispatch_good: "good s \<Longrightarrow> good (snd (dispatch e i s))"
    and launch_log: "log (fst (launch e i s)) = log s"
    and launch_entries: "concat (map entry (concat (map split_event (snd (launch e i s))))) =
        concat (map entry (split_event e))"
    and launch_kind: "x \<in> set (snd (launch e i s)) \<Longrightarrow> x = e \<or> entry x = [] \<and> split_event x = [x]"
    and dispatch_log: "good s \<Longrightarrow> log (snd (dispatch e i s)) =
        log s @ (if fst (dispatch e i s) = PROCESS_OK then entry e else [])"
    and entry_site: "m \<in> set (entry e) \<Longrightarrow> site m = (block e, if movable e then pipe e else PIPE_S)"
    and split_kind: "x \<in> set (split_event e) \<Longrightarrow> block x = block e \<and> movable x = movable e"
begin

definition home :: "SanEvent \<Rightarrow> PipeType" where
  "home e = (if movable e then pipe e else PIPE_S)"

definition entries :: "SanEvent list \<Rightarrow> 'm list" where
  "entries es = concat (map entry es)"

definition at_site :: "nat \<Rightarrow> PipeType \<Rightarrow> 'm list \<Rightarrow> 'm list" where
  "at_site b p = filter (\<lambda>m. site m = (b, p))"

definition timeline :: "'s \<Rightarrow> EventContainer \<Rightarrow> nat \<Rightarrow> PipeType \<Rightarrow> 'm list" where
  "timeline s c b p = at_site b p
     (log s @ entries (queued c 0 b (pipe_code p)) @ (if p = PIPE_S then [] else entries (queued c 0 b (pipe_code PIPE_S))))"

definition placed :: "EventContainer \<Rightarrow> bool" where
  "placed c \<longleftrightarrow> deviceNum c = 1 \<and> (\<forall>b p. in_range c 0 b p \<longrightarrow> (\<forall>e\<in>set (queued c 0 b p).
     split_event e = [e] \<and> (entry e \<noteq> [] \<longrightarrow> block e = b \<and> (p = pipe_code PIPE_S \<or> p = pipe_code (home e)))))"

lemma entries_simps [simp]:
  "entries [] = []" "entries (e # es) = entry e @ entries es" "entries (xs @ ys) = entries xs @ entries ys"
  by (simp_all add: entries_def)

lemma at_site_append [simp]: "at_site b p (xs @ ys) = at_site b p xs @ at_site b p ys"
  by (simp add: at_site_def)

lemma at_site_Nil [simp]: "at_site b p [] = []"
  by (simp add: at_site_def)

lemma at_site_entry: "(b, p) \<noteq> (block e, home e) \<Longrightarrow> at_site b p (entry e) = []"
  using entry_site [of _ e] by (auto simp: at_site_def home_def filter_empty_conv)

lemma placed_head:
  assumes "ec_inv c" "placed c" "at_cursor c \<noteq> []"
  shows "deviceIndex c = 0" "split_event (hd (at_cursor c)) = [hd (at_cursor c)]"
    "entry (hd (at_cursor c)) \<noteq> [] \<Longrightarrow> block (hd (at_cursor c)) = blockIndex c \<and>
       (pipeIndex c = pipe_code PIPE_S \<or> pipeIndex c = pipe_code (home (hd (at_cursor c))))"
    "at_cursor c = hd (at_cursor c) # tl (at_cursor c)"
proof -
  have r: "in_range c (deviceIndex c) (blockIndex c) (pipeIndex c)" by (rule ec_inv_cursor [OF assms(1)])
  show d: "deviceIndex c = 0" using r assms(2) by (simp add: placed_def in_range_def)
  have "hd (at_cursor c) \<in> set (queued c 0 (blockIndex c) (pipeIndex c))" using assms(3) d by (simp add: at_cursor_def)
  then show "split_event (hd (at_cursor c)) = [hd (at_cursor c)]"
    "entry (hd (at_cursor c)) \<noteq> [] \<Longrightarrow> block (hd (at_cursor c)) = blockIndex c \<and>
       (pipeIndex c = pipe_code PIPE_S \<or> pipeIndex c = pipe_code (home (hd (at_cursor c))))"
    using assms(2) r d by (auto simp: placed_def)
  show "at_cursor c = hd (at_cursor c) # tl (at_cursor c)" using assms(3) by simp
qed

lemma pop_ranges: "in_range (EventContainer_Pop c) d b p = in_range c d b p" "deviceNum (EventContainer_Pop c) = deviceNum c"
  by (simp_all add: in_range_def queue_simps)

lemma placed_Pop:
  assumes "ec_inv c" "placed c" "at_cursor c \<noteq> []"
  shows "placed (EventContainer_Pop c)"
  using assms(2) EventContainer_Pop_queued [OF assms(1,3)] in_set_tl
  unfolding placed_def pop_ranges by (metis (no_types, lifting))

lemma placed_push_list:
  assumes "ec_inv c" "placed c" "p \<noteq> PIPE_SIZE"
    and "\<forall>x\<in>set es. entry x \<noteq> [] \<longrightarrow> block x = b \<and> home x = p" "\<forall>x\<in>set es. split_event x = [x]"
  shows "placed (push_list c es p b 0)"
proof -
  note q = push_list_queued [OF assms(1,3), of es b 0]
  then have fr: "same_frame c (push_list c es p b 0)" by blast
  have es: "concat (map split_event es) = es" using assms(5) by (induction es) auto
  have "split_event e = [e] \<and> (entry e \<noteq> [] \<longrightarrow> block e = b' \<and> (p' = pipe_code PIPE_S \<or> p' = pipe_code (home e)))"
    if r: "in_range c 0 b' p'" and e: "e \<in> set (queued (push_list c es p b 0) 0 b' p')" for b' p' e
  proof (cases "e \<in> set (queued c 0 b' p')")
    case True
    then show ?thesis using assms(2) r by (simp add: placed_def)
  next
    case False
    have "queued (push_list c es p b 0) 0 b' p' = queued c 0 b' p' @ (if (0, b', p') = (0, b, pipe_code p) then es else [])"
      using q r es by simp
    then have "e \<in> set es" "b' = b" "p' = pipe_code p" using e False by (auto split: if_splits)
    then show ?thesis using assms(4,5) by simp
  qed
  then show ?thesis using assms(2) unfolding placed_def same_frame_fields [OF fr] by blast
qed

lemma cursor_code: "ec_inv c \<Longrightarrow> pipe_code (pipe_of (pipeIndex c)) = pipeIndex c"
  using pipe_code_of [of "pipeIndex c"] by (simp add: ec_inv_def)

lemma Pop_queue:
  assumes "ec_inv c" "placed c" "at_cursor c \<noteq> []" "in_range c 0 b p"
  shows "queued (EventContainer_Pop c) 0 b p =
     (if b = blockIndex c \<and> p = pipeIndex c then tl (at_cursor c) else queued c 0 b p)"
  using EventContainer_Pop_queued [OF assms(1,3,4)] placed_head(1) [OF assms(1-3)] by (simp add: at_cursor_def)

lemma timeline_dispatch:
  assumes v: "ec_inv c" "placed c" and ne: "at_cursor c \<noteq> []"
    and own: "\<not> (movable (hd (at_cursor c)) \<and> GetPipeIndex c \<noteq> pipe (hd (at_cursor c)))"
    and l: "log s' = log s @ entry (hd (at_cursor c))" and b: "b < maxBlockNum c" and p: "p \<noteq> PIPE_SIZE"
  shows "timeline s' (EventContainer_Pop c) b p = timeline s c b p"
proof -
  let ?e = "hd (at_cursor c)" and ?b0 = "blockIndex c" and ?p0 = "pipeIndex c"
  note hd = placed_head [OF v ne]
  have q: "entries (queued c 0 ?b0 ?p0) = entry ?e @ entries (tl (at_cursor c))"
    using hd(1,4) by (metis at_cursor_def entries_simps(2))
  have r: "in_range c 0 b (pipe_code p)" "in_range c 0 b 0"
    using v(2) b p pipe_code_lt [of p] by (simp_all add: placed_def in_range_def)
  note pop = Pop_queue [OF v ne r(1)] Pop_queue [OF v ne r(2)]
  have "block ?e = ?b0 \<and> home ?e = pipe_of ?p0" if "entry ?e \<noteq> []"
    using hd(3) [OF that] own pipe_of_code [of PIPE_S] pipe_of_code [of "home ?e"]
    by (auto simp: home_def GetPipeIndex_def split: if_splits)
  then have away: "at_site b p (entry ?e) = []" if "(b, p) \<noteq> (?b0, pipe_of ?p0)"
    using that at_site_entry [of b p ?e] by (cases "entry ?e = []") auto
  show ?thesis
  proof (cases "(b, p) = (?b0, pipe_of ?p0)")
    case True
    then have "pipe_code p = ?p0" using cursor_code [OF v(1)] by simp
    then show ?thesis using True l q pop pipe_of_code [of PIPE_S] by (auto simp: timeline_def)
  next
    case False
    then have "\<not> (b = ?b0 \<and> pipe_code p = ?p0)" by (metis pipe_of_code)
    then show ?thesis using away [OF False] l q pop by (auto simp: timeline_def)
  qed
qed

lemma timeline_launch:
  assumes v: "ec_inv c" "placed c" and ne: "at_cursor c \<noteq> []"
    and mv: "movable (hd (at_cursor c))" "GetPipeIndex c \<noteq> pipe (hd (at_cursor c))" "pipe (hd (at_cursor c)) \<noteq> PIPE_SIZE"
    and c': "c' = push_list c es (pipe (hd (at_cursor c))) (block (hd (at_cursor c))) 0" "placed c'"
    and es: "entries (concat (map split_event es)) = entry (hd (at_cursor c))"
    and l: "log s' = log s" and b: "b < maxBlockNum c" and p: "p \<noteq> PIPE_SIZE"
  shows "timeline s' (EventContainer_Pop c') b p = timeline s c b p"
proof -
  let ?e = "hd (at_cursor c)" and ?b0 = "blockIndex c" and ?p0 = "pipeIndex c"
  note hd = placed_head [OF v ne]
  have q: "entries (queued c 0 ?b0 ?p0) = entry ?e @ entries (tl (at_cursor c))"
    using hd(1,4) by (metis at_cursor_def entries_simps(2))
  note pl = push_list_queued [OF v(1) mv(3), of es "block ?e" 0, folded c'(1)]
  then have c'': "ec_inv c'" and fr: "same_frame c c'" by simp_all
  note f = same_frame_fields [OF fr]
  have p0: "?p0 \<noteq> pipe_code (pipe ?e)" using cursor_pipe [OF v(1) mv(2)] by simp
  have cur: "at_cursor c' = at_cursor c"
    using pl ec_inv_cursor [OF v(1)] hd(1) p0 f by (simp add: at_cursor_def)
  have r: "in_range c 0 b (pipe_code p)" "in_range c 0 b 0"
    using v(2) b p pipe_code_lt [of p] by (simp_all add: placed_def in_range_def)
  have quu: "entries (queued (EventContainer_Pop c') 0 b p') =
      (if b = ?b0 \<and> p' = ?p0 then entries (tl (at_cursor c))
       else entries (queued c 0 b p') @ (if b = block ?e \<and> p' = pipe_code (pipe ?e) then entry ?e else []))"
    if "in_range c 0 b p'" for p'
  proof -
    have "queued c' 0 b p' = queued c 0 b p' @ (if b = block ?e \<and> p' = pipe_code (pipe ?e) then concat (map split_event es) else [])"
      using conjunct2 [OF conjunct2 [OF pl], rule_format, OF that] by simp
    then show ?thesis using Pop_queue [OF c'' c'(2), of b p'] cur ne that f p0 es by auto
  qed
  show ?thesis
  proof (cases "entry ?e = []")
    case True
    then show ?thesis using quu [OF r(1)] quu [OF r(2)] q l by (auto simp: timeline_def)
  next
    case False
    have e: "block ?e = ?b0" "?p0 = 0" "home ?e = pipe ?e" "pipe ?e \<noteq> PIPE_S"
      using hd(3) [OF False] mv(1) p0 by (auto simp: home_def)
    show ?thesis
    proof (cases "(b, p) = (block ?e, pipe ?e)")
      case True
      then show ?thesis using quu [OF r(1)] quu [OF r(2)] q l e p0 by (auto simp: timeline_def)
    next
      case other: False
      then have "at_site b p (entry ?e) = []" using at_site_entry [of b p ?e] e(3) by simp
      then show ?thesis
        using quu [OF r(1)] quu [OF r(2)] q l e other by (auto simp: timeline_def)
    qed
  qed
qed

text \<open>The invariant of a run, and what it gives at the end.\<close>

definition rec_inv :: "(nat \<Rightarrow> PipeType \<Rightarrow> 'm list) \<Rightarrow> nat \<Rightarrow> 's \<Rightarrow> EventContainer \<Rightarrow> bool" where
  "rec_inv T n s c \<longleftrightarrow> good s \<and> placed c \<and> maxBlockNum c = n \<and> (\<forall>b p. b < n \<longrightarrow> p \<noteq> PIPE_SIZE \<longrightarrow> timeline s c b p = T b p)"

lemma rec_inv_content:
  assumes "rec_inv T n s c" "same_content c c'"
  shows "rec_inv T n s c'"
proof -
  have "timeline s c' = timeline s c" "placed c' = placed c" "maxBlockNum c' = maxBlockNum c"
    using same_content_queued [OF assms(2)] same_content_in_range [OF assms(2)] assms(2)
    by (simp_all add: timeline_def placed_def fun_eq_iff same_content_def)
  then show ?thesis using assms(1) by (simp add: rec_inv_def)
qed

lemma split_split: "x \<in> set (split_event e) \<Longrightarrow> split_event x = [x]"
  by (auto simp: split_event_def split: EventInfo.splits if_splits)

lemma launch_pushed:
  assumes "ec_inv c" "placed c" "split_event e = [e]" "pipe e \<noteq> PIPE_SIZE" "movable e"
  shows "placed (push_list c (snd (launch e i s)) (pipe e) (block e) 0)"
  by (rule placed_push_list [OF assms(1,2,4)]) (use launch_kind [of _ e i s] assms(3,5) in \<open>auto simp: home_def\<close>)

lemma rec_inv_ok:
  assumes v: "ec_inv c" "launchable c" and I: "rec_inv T n s c" and ne: "at_cursor c \<noteq> []"
    and h: "h (hd (at_cursor c)) (s, c) = (PROCESS_OK, s', c')"
  shows "rec_inv T n s' (EventContainer_Pop c')"
proof -
  let ?e = "hd (at_cursor c)"
  have g: "good s" and pl: "placed c" and n: "maxBlockNum c = n" using I by (simp_all add: rec_inv_def)
  note hd = placed_head [OF v(1) pl ne]
  show ?thesis
  proof (cases "movable ?e \<and> GetPipeIndex c \<noteq> pipe ?e")
    case True
    let ?es = "snd (launch ?e (GetQueIndex c) s)"
    note L = launched [OF v ne _ _ h]
    have c': "c' = push_list c ?es (pipe ?e) (block ?e) 0" and s': "s' = fst (launch ?e (GetQueIndex c) s)"
      using h h_launch [of ?e c s] True target_block [OF g] by simp_all
    have "?e \<in> set (queued c 0 (blockIndex c) (pipeIndex c))" using ne hd(1) by (simp add: at_cursor_def)
    then have p: "pipe ?e \<noteq> PIPE_SIZE" using v(2) ec_inv_cursor [OF v(1)] hd(1) by (auto simp: launchable_def)
    have pl': "placed c'" unfolding c' by (rule launch_pushed [OF v(1) pl hd(2) p]) (use True in simp)
    have "timeline s' (EventContainer_Pop c') b q = timeline s c b q" if "b < n" "q \<noteq> PIPE_SIZE" for b q
      by (rule timeline_launch [OF v(1) pl ne _ _ p c' pl'])
         (use True that n launch_entries [of ?e "GetQueIndex c" s] hd(2) s' launch_log in \<open>simp_all add: entries_def\<close>)
    moreover have "maxBlockNum (EventContainer_Pop c') = n" using L(2) True n same_frame_fields(2) by (simp add: queue_simps)
    ultimately show ?thesis
      using I placed_Pop [OF _ pl'] L(3,4) True ne launch_good [OF g] s' by (simp add: rec_inv_def)
  next
    case False
    note d = dispatched [OF False h]
    have l: "log s' = log s @ entry ?e" "good s'"
      using d(2) dispatch_log [OF g, of ?e "GetQueIndex c"] dispatch_good [OF g, of ?e "GetQueIndex c"] by simp_all
    have "timeline s' (EventContainer_Pop c') b q = timeline s c b q" if "b < n" "q \<noteq> PIPE_SIZE" for b q
      unfolding d(1) using timeline_dispatch [OF v(1) pl ne False l(1)] that n by simp
    then show ?thesis
      using I d(1) placed_Pop [OF v(1) pl ne] l(2) n by (simp add: rec_inv_def queue_simps)
  qed
qed

lemma rec_inv_stalled:
  assumes v: "ec_inv c" "launchable c" and I: "rec_inv T n s c" and ne: "at_cursor c \<noteq> []"
    and h: "h (hd (at_cursor c)) (s, c) = (PROCESS_STALLED, s', c')"
  shows "rec_inv T n s' c"
proof -
  have "dispatch (hd (at_cursor c)) (GetQueIndex c) s = (PROCESS_STALLED, s')" by (rule handler_stalled(2) [OF v ne h])
  then have "log s' = log s" "good s'"
    using dispatch_log [of s "hd (at_cursor c)" "GetQueIndex c"] dispatch_good [of s "hd (at_cursor c)" "GetQueIndex c"] I
    by (simp_all add: rec_inv_def)
  then show ?thesis using I by (simp add: rec_inv_def timeline_def)
qed

lemma Run_log:
  assumes "pl_inv p" "rec_inv T n (client p) (events p)" "PipeLine_Run (Some h) p = Some r"
  shows "rec_inv T n (client r) (events r)"
  by (rule Run_invariant [where P = "rec_inv T n", OF assms]) (use rec_inv_content rec_inv_ok rec_inv_stalled in blast)+

lemma Run_log_exit:
  assumes "pl_inv p" "rec_inv T n (client p) (events p)" "PipeLine_Run (Some h) p = Some r" "pipeState r = EXIT"
    and "b < n" "q \<noteq> PIPE_SIZE"
  shows "filter (\<lambda>m. site m = (b, q)) (log (client r)) = T b q"
proof -
  have I: "rec_inv T n (client r) (events r)" by (rule Run_log [OF assms(1-3)])
  have "pl_inv r" using pl_inv_Run [OF assms(1,3)] by simp
  then have "EventContainer_IsEmpty (events r)" "ec_inv (events r)"
    using assms(4) pl_inv_ec by (simp_all add: pl_inv_def Let_def)
  then have "queued (events r) 0 b p' = []" if "p' < 12" for p'
    using I assms(5) that by (simp add: IsEmpty_queued rec_inv_def placed_def in_range_def)
  then have "timeline (client r) (events r) b q = at_site b q (log (client r))"
    using pipe_code_lt [OF assms(6)] by (simp add: timeline_def)
  then show ?thesis using I assms(5,6) by (simp add: rec_inv_def at_site_def)
qed

text \<open>A container filled by the first stage: every event behind the scalar queue of its block.\<close>

lemma rec_inv_load:
  assumes "0 < n" "good s" "\<forall>e\<in>set es. pipe e \<noteq> PIPE_SIZE"
  shows "rec_inv (\<lambda>b p. at_site b p (log s @ entries (concat (map split_event es)))) n s (load block (EventContainer_Init n 1) es)"
proof -
  let ?c = "load block (EventContainer_Init n 1) es"
  note L = load_queued [OF assms(1), of block es]
  have pl: "placed ?c"
    unfolding placed_def
  proof (intro conjI allI impI ballI)
    show "deviceNum ?c = 1" by (rule L(5))
    fix b p e assume r: "in_range ?c 0 b p" and e: "e \<in> set (queued ?c 0 b p)"
    then obtain x where x: "x \<in> set es" "block x = b" "e \<in> set (split_event x)" "p = pipe_code PIPE_S"
      using L(3) [of b p] by (auto split: if_splits)
    then show "split_event e = [e]" "block e = b" using split_split split_kind by auto
    show "p = pipe_code PIPE_S \<or> p = pipe_code (home e)" using x(4) by simp
  qed
  have only: "at_site b p (entries (concat (map split_event [x\<leftarrow>es. block x = b]))) =
      at_site b p (entries (concat (map split_event es)))" for b p
  proof (induction es)
    case (Cons x xs)
    have none: "at_site b p (entries ys) = []" if "\<forall>y\<in>set ys. block y \<noteq> b" for ys
      using that at_site_entry by (induction ys) auto
    have "at_site b p (entries (split_event x)) = []" if "block x \<noteq> b"
      by (rule none) (use split_kind [of _ x] that in auto)
    then show ?case using Cons.IH by simp
  qed simp
  have "timeline s ?c b p = at_site b p (log s @ entries (concat (map split_event es)))" if "b < n" "p \<noteq> PIPE_SIZE" for b p
  proof (cases "p = PIPE_S")
    case True
    then show ?thesis using L(3) [of b 0] that only by (simp add: timeline_def L(4,5) [simplified] in_range_def)
  next
    case False
    then have "pipe_code p \<noteq> 0" using pipe_code_inj [of p PIPE_S] by simp
    then show ?thesis
      using L(3) [of b 0] L(3) [of b "pipe_code p"] that only False pipe_code_lt [OF that(2)]
      by (simp add: timeline_def L(4,5) [simplified] in_range_def)
  qed
  then show ?thesis using pl assms(2) L(4) by (simp add: rec_inv_def)
qed

end

end
