(* ===== verification/RaceAlg.thy ===== *)
theory RaceAlg
  imports Recording SyncStores CrossCoreSync Scanline
begin

text \<open>
  The race algorithms of \<open>csrc/race_sanitizer/alg_framework\<close>: the state and the synchronisation
  handlers every algorithm inherits (\<open>race_alg_base.cpp\<close>), the check inside one core
  (\<open>race_alg_impl.cpp\<close>), the check inside one pipe (\<open>single_pipe_race_alg_impl.cpp\<close>) and the check
  across cores (\<open>cross_core_race_alg_impl.cpp\<close>). The event container is kept beside the record, as
  the pipeline shares it. \<open>SubmitStage2\<close> runs the second stage in the background and every reader of
  the results waits for it first, so the stage is modelled as part of the call that submits it.
\<close>

section \<open>The base class\<close>

record RaceAlgBase =
  ra_kernelType :: KernelType
  ra_deviceType :: DeviceType
  ra_blockDim :: nat
  ra_sync :: CrossCoreSyncInfoContainer
  mstxSetCrossMap :: "u64 \<times> u64 \<rightharpoonup> u64"
  getRlsBufMap :: "nat \<times> u64 \<rightharpoonup> VectorTime list"
  vc :: "VectorTime list"
  memChecker :: MemEventChecker
  timeInfoPool :: TimeInfoPool
  isFinished :: bool

text \<open>\<open>VectorClock::UpdateLogicTime\<close> and \<open>UpdateVectorTime\<close> on the clock of a pipe.\<close>

definition tick :: "nat \<Rightarrow> 'a RaceAlgBase_scheme \<Rightarrow> 'a RaceAlgBase_scheme" where
  "tick i s = s\<lparr>vc := (vc s)[i := UpdateLogicTime (vc s ! i) (of_nat i)]\<rparr>"

definition receive :: "VectorTime \<Rightarrow> nat \<Rightarrow> 'a RaceAlgBase_scheme \<Rightarrow> 'a RaceAlgBase_scheme" where
  "receive t i s = s\<lparr>vc := (vc s)[i := UpdateVectorTime t (vc s ! i)]\<rparr>"

definition AllocTimeInfo :: "VectorTime \<Rightarrow> 'a RaceAlgBase_scheme \<Rightarrow> 'a RaceAlgBase_scheme \<times> nat" where
  "AllocTimeInfo v s = (let (tp, p) = TimeInfoPool_Alloc (timeInfoPool s) v in (s\<lparr>timeInfoPool := tp\<rparr>, p))"

definition FreeTimeInfo :: "nat option \<Rightarrow> 'a RaceAlgBase_scheme \<Rightarrow> 'a RaceAlgBase_scheme" where
  "FreeTimeInfo p s = s\<lparr>timeInfoPool := TimeInfoPool_Free (timeInfoPool s) p\<rparr>"

definition waited :: "nat \<Rightarrow> CrossCoreSyncInfoContainer \<times> VectorTime \<times> bool \<Rightarrow> 'a RaceAlgBase_scheme \<Rightarrow> ReturnType \<times> 'a RaceAlgBase_scheme" where
  "waited i r s =
     (case r of (c, t, ok) \<Rightarrow>
        (if ok then PROCESS_OK else PROCESS_STALLED, s\<lparr>ra_sync := c, vc := (vc s)[i := t]\<rparr>))"

definition ProcessBlockSyncEvent ::
  "RaceCheckType \<Rightarrow> SanEvent \<Rightarrow> FftsSyncInfo \<Rightarrow> nat \<Rightarrow> 'a RaceAlgBase_scheme \<Rightarrow> ReturnType \<times> 'a RaceAlgBase_scheme" where
  "ProcessBlockSyncEvent checkType event info curPipe s =
     (let blockIdx = GetEventBlockIndex event (ra_kernelType s) (ra_deviceType s) checkType in
      if ffts_opType info = FFTS_SYNC
      then (let s1 = tick curPipe s;
                s2 = s1\<lparr>memChecker := MemEventChecker_SetVecSubBlockDim (vecSubBlockDim info) (memChecker s1)\<rparr>
            in (PROCESS_OK,
                s2\<lparr>ra_sync := SetBlockSyncInfo (unat (flagId info)) (unat (ffts_mode info)) blockIdx (vc s2 ! curPipe)
                     (unat (vecSubBlockDim info)) (loc event) (serialNo event) (ra_sync s2)\<rparr>))
      else if ffts_opType info = WAIT_FLAG_DEV
      then waited curPipe (GetBlockSyncInfo (unat (flagId info)) blockIdx (vc s ! curPipe) (ra_sync s)) s
      else if ffts_opType info = WAIT_INTRA_BLOCK
      then waited curPipe (GetIntraBlockSyncInfo (unat (flagId info)) blockIdx (vc s ! curPipe) (ra_sync s)) s
      else (PROCESS_STALLED, s))"

definition CacheMstxCrossSet :: "SanEvent \<Rightarrow> 'a RaceAlgBase_scheme \<Rightarrow> 'a RaceAlgBase_scheme" where
  "CacheMstxCrossSet event s =
     (case eventInfo event of
        MSTX_CROSS_SYNC_EVENT info \<Rightarrow>
          (if cross_opType info = MSTX_SET_CROSS
           then (let key = (cross_addr info, cross_flagId info)
                 in s\<lparr>mstxSetCrossMap := (mstxSetCrossMap s)
                        (key \<mapsto> (case mstxSetCrossMap s key of Some n \<Rightarrow> n + 1 | None \<Rightarrow> 1))\<rparr>)
           else s)
      | _ \<Rightarrow> s)"

definition ProcessMstxCrossSyncEvent ::
  "MstxCrossInfo \<Rightarrow> nat \<Rightarrow> 'a RaceAlgBase_scheme \<Rightarrow> ReturnType \<times> 'a RaceAlgBase_scheme" where
  "ProcessMstxCrossSyncEvent info curPipe s =
     (if cross_opType info = MSTX_SET_CROSS
      then (let s1 = tick curPipe s
            in (PROCESS_OK, s1\<lparr>ra_sync := SetMstxCrossInfo info (vc s1 ! curPipe) (ra_sync s1)\<rparr>))
      else if cross_opType info = MSTX_WAIT_CROSS
      then (let key = (cross_addr info, cross_flagId info); iter = mstxSetCrossMap s key in
            if isMore info \<and> (iter = None \<or> iter = Some 0) then (PROCESS_OK, s)
            else (case waited curPipe (GetMstxCrossInfo info (vc s ! curPipe) (ra_sync s)) s of
                    (PROCESS_OK, s1) \<Rightarrow>
                      (PROCESS_OK,
                       (case iter of None \<Rightarrow> s1
                        | Some n \<Rightarrow> s1\<lparr>mstxSetCrossMap := (mstxSetCrossMap s1)(key \<mapsto> n - 1)\<rparr>))
                  | (PROCESS_STALLED, s1) \<Rightarrow> (PROCESS_STALLED, s1)))
      else (PROCESS_STALLED, s))"

definition ProcessGetRlsBufSyncEvent ::
  "RaceCheckType \<Rightarrow> SanEvent \<Rightarrow> BufSyncInfo \<Rightarrow> nat \<Rightarrow> 'a RaceAlgBase_scheme \<Rightarrow> ReturnType \<times> 'a RaceAlgBase_scheme" where
  "ProcessGetRlsBufSyncEvent checkType event info curPipe s =
     (let bufKey = (GetEventBlockIndex event (ra_kernelType s) (ra_deviceType s) checkType, bufId info) in
      if buf_opType info = GET_BUF \<and> bufMode info = BLOCK_MODE
      then (if rlsCount info = 0 then (PROCESS_OK, s)
            else (case getRlsBufMap s bufKey of
                    None \<Rightarrow> (PROCESS_STALLED, s)
                  | Some ts \<Rightarrow>
                      (if length ts < rlsCount info then (PROCESS_STALLED, s)
                       else if length ts = rlsCount info then (PROCESS_OK, fold (\<lambda>t. receive t curPipe) ts s)
                       else (PROCESS_OK, s))))
      else if buf_opType info = RLS_BUF
      then (PROCESS_OK, s\<lparr>getRlsBufMap := (getRlsBufMap s)
              (bufKey \<mapsto> pending (getRlsBufMap s) bufKey @ [vc s ! curPipe])\<rparr>)
      else (PROCESS_OK, s))"

definition RaceAlg_GetFlagIdWarnInfo :: "'a RaceAlgBase_scheme \<Rightarrow> CrossCoreSyncWarnInfo list" where
  "RaceAlg_GetFlagIdWarnInfo s = flagIdWarnInfo (ra_sync s)"

definition RaceAlg_ClearFlagIdWarnInfo :: "'a RaceAlgBase_scheme \<Rightarrow> 'a RaceAlgBase_scheme" where
  "RaceAlg_ClearFlagIdWarnInfo s = s\<lparr>ra_sync := ClearFlagIdWarnInfo (ra_sync s)\<rparr>"

text \<open>
  The members common to the constructors, and the steps the algorithms share line by line: recording
  a memory event, receiving a clock snapshot, launching an event from one pipe to another, and the
  flags between the pipes of one block.
\<close>

definition RaceAlgBase_fields :: "KernelType \<Rightarrow> DeviceType \<Rightarrow> nat \<Rightarrow> nat \<Rightarrow> RaceCheckType \<Rightarrow> RaceAlgBase" where
  "RaceAlgBase_fields kt dt blockDim totalBlockNum ct =
     \<lparr>ra_kernelType = kt, ra_deviceType = dt, ra_blockDim = blockDim, ra_sync = CrossCoreSync_Init totalBlockNum kt,
      mstxSetCrossMap = Map.empty, getRlsBufMap = Map.empty, vc = replicate (totalBlockNum * PIPE_NUM) VectorTime_new,
      memChecker = MemEventChecker_Init kt dt ct MemEventChecker_new, timeInfoPool = \<lparr>pool = [], freeList = []\<rparr>,
      isFinished = False\<rparr>"

definition record_access :: "MemOpInfo \<Rightarrow> SanEvent \<Rightarrow> nat \<Rightarrow> 'a RaceAlgBase_scheme \<Rightarrow> ReturnType \<times> 'a RaceAlgBase_scheme" where
  "record_access junk event curPipe s =
     (let s1 = tick curPipe s
      in (PROCESS_OK, s1\<lparr>memChecker := PushEvent ((MemEvent_new junk event)\<lparr>ev_vt := vc s1 ! curPipe\<rparr>) (memChecker s1)\<rparr>))"

definition receive_snapshot :: "SanEvent \<Rightarrow> nat \<Rightarrow> 'a RaceAlgBase_scheme \<Rightarrow> ReturnType \<times> 'a RaceAlgBase_scheme" where
  "receive_snapshot event curPipe s =
     (let s1 = (case timeInfo event of
                  None \<Rightarrow> s
                | Some p \<Rightarrow> FreeTimeInfo (Some p) (receive (pool (timeInfoPool s) ! p) curPipe s))
      in (PROCESS_OK, tick curPipe s1))"

definition flag_step ::
  "SyncOpInfo \<Rightarrow> nat \<Rightarrow> SyncEventDataBase \<Rightarrow> 'a RaceAlgBase_scheme \<Rightarrow> ReturnType \<times> SyncEventDataBase \<times> 'a RaceAlgBase_scheme" where
  "flag_step info curPipe db s =
     (let e = SyncEvent_of info in
      if sync_opType info = SET_FLAG
      then (let s1 = tick curPipe s in (PROCESS_OK, SyncEventDataBase_Set db e (vc s1 ! curPipe), s1))
      else if sync_opType info = WAIT_FLAG
      then (case SyncEventDataBase_Get db e of
              (db', Some vt) \<Rightarrow> (PROCESS_OK, db', tick curPipe (receive vt curPipe s))
            | (db', None) \<Rightarrow> (PROCESS_STALLED, db', s))
      else (PROCESS_OK, db, s))"

text \<open>
  The launch of an event from the pipe under the cursor to its own pipe: the clock of the launching
  pipe advances, a snapshot of it goes ahead of the event. \<open>header\<close> is the snapshot event without
  its time.
\<close>

definition launch :: "(SanEvent \<Rightarrow> SanEvent) \<Rightarrow> SanEvent \<Rightarrow> nat \<Rightarrow> 'a RaceAlgBase_scheme \<Rightarrow> 'a RaceAlgBase_scheme \<times> SanEvent list" where
  "launch header event curPipe s =
     (let s1 = tick curPipe s; (s2, p) = AllocTimeInfo (vc s1 ! curPipe) s1
      in (s2, [(header event)\<lparr>eventInfo := TIME_EVENT, pipe := pipe event, timeInfo := Some p\<rparr>, event]))"

definition launch_to ::
  "(SanEvent \<Rightarrow> SanEvent) \<Rightarrow> SanEvent \<Rightarrow> nat \<Rightarrow> nat \<Rightarrow> 'a RaceAlgBase_scheme \<times> EventContainer \<Rightarrow>
     ReturnType \<times> 'a RaceAlgBase_scheme \<times> EventContainer" where
  "launch_to header event blockIdx devIdx = (\<lambda>(s, c).
     (case launch header event (GetQueIndex c) s of
        (s1, es) \<Rightarrow> (PROCESS_OK, s1, foldl (\<lambda>c e. EventContainer_Push c e (pipe event) blockIdx devIdx) c es)))"

section \<open>The check inside one core\<close>

record RaceAlgImpl = RaceAlgBase +
  syncDB :: SyncEventDataBase

definition RaceAlgImpl_blocks :: "KernelType \<Rightarrow> DeviceType \<Rightarrow> nat \<Rightarrow> nat" where
  "RaceAlgImpl_blocks kt dt blockDim = (if NeedExpandBlockDim kt dt then blockDim * C220_MIX_SUB_BLOCKDIM else 1)"

definition RaceAlgImpl_new :: "KernelType \<Rightarrow> DeviceType \<Rightarrow> nat \<Rightarrow> RaceAlgImpl \<times> EventContainer" where
  "RaceAlgImpl_new kt dt blockDim =
     (let totalBlockNum = RaceAlgImpl_blocks kt dt blockDim
      in (RaceAlgBase.extend (RaceAlgBase_fields kt dt blockDim totalBlockNum SINGLE_BLOCK_CHECK) (RaceAlgImpl.fields Map.empty),
          EventContainer_Init totalBlockNum 1))"

definition RaceAlgImpl_ProcessSyncEvent :: "SyncOpInfo \<Rightarrow> nat \<Rightarrow> RaceAlgImpl \<Rightarrow> ReturnType \<times> RaceAlgImpl" where
  "RaceAlgImpl_ProcessSyncEvent info curPipe s =
     (case flag_step info curPipe (syncDB s) s of (r, db, s1) \<Rightarrow> (r, s1\<lparr>syncDB := db\<rparr>))"

definition RaceAlgImpl_ProcessMemEvent :: "MemOpInfo \<Rightarrow> SanEvent \<Rightarrow> nat \<Rightarrow> RaceAlgImpl \<Rightarrow> ReturnType \<times> RaceAlgImpl" where
  "RaceAlgImpl_ProcessMemEvent = record_access"

definition RaceAlgImpl_ProcessDynamicMemEvent :: "MemOpInfo \<Rightarrow> SanEvent \<Rightarrow> nat \<Rightarrow> RaceAlgImpl \<Rightarrow> ReturnType \<times> RaceAlgImpl" where
  "RaceAlgImpl_ProcessDynamicMemEvent = record_access"

definition RaceAlgImpl_ProcessTimeEvent :: "SanEvent \<Rightarrow> nat \<Rightarrow> RaceAlgImpl \<Rightarrow> ReturnType \<times> RaceAlgImpl" where
  "RaceAlgImpl_ProcessTimeEvent = receive_snapshot"

definition RaceAlgImpl_dispatch :: "MemOpInfo \<Rightarrow> SanEvent \<Rightarrow> nat \<Rightarrow> RaceAlgImpl \<Rightarrow> ReturnType \<times> RaceAlgImpl" where
  "RaceAlgImpl_dispatch junk event curPipe s =
     (case eventInfo event of
        SYNC_EVENT info \<Rightarrow> RaceAlgImpl_ProcessSyncEvent info curPipe s
      | MEM_EVENT _ \<Rightarrow> RaceAlgImpl_ProcessMemEvent junk event curPipe s
      | TIME_EVENT \<Rightarrow> RaceAlgImpl_ProcessTimeEvent event curPipe s
      | CROSS_CORE_SYNC_EVENT info \<Rightarrow> ProcessBlockSyncEvent SINGLE_BLOCK_CHECK event info curPipe s
      | MSTX_CROSS_SYNC_EVENT info \<Rightarrow> ProcessMstxCrossSyncEvent info curPipe s
      | BUF_SYNC_EVENT info \<Rightarrow> ProcessGetRlsBufSyncEvent SINGLE_BLOCK_CHECK event info curPipe s
      | DYNAMIC_MEM_EVENT _ \<Rightarrow> RaceAlgImpl_ProcessDynamicMemEvent junk event curPipe s
      | _ \<Rightarrow> (PROCESS_OK, s))"

lemmas core_dispatch_defs = RaceAlgImpl_dispatch_def RaceAlgImpl_ProcessMemEvent_def RaceAlgImpl_ProcessDynamicMemEvent_def
  RaceAlgImpl_ProcessTimeEvent_def

definition RaceAlgImpl_ProcessEvent :: "MemOpInfo \<Rightarrow> RaceAlgImpl EventFunc" where
  "RaceAlgImpl_ProcessEvent junk event = (\<lambda>(s, c).
     if GetPipeIndex c \<noteq> pipe event
     then launch_to (\<lambda>_. SanEvent_new) event
            (GetEventBlockIndex event (ra_kernelType s) (ra_deviceType s) SINGLE_BLOCK_CHECK) 0 (s, c)
     else (case RaceAlgImpl_dispatch junk event (GetQueIndex c) s of (r, s1) \<Rightarrow> (r, s1, c)))"

text \<open>
  The second stage: replay the queues, then look for races. The result is \<open>None\<close> when the replay
  does not return.
\<close>

definition stage2 ::
  "(nat list \<Rightarrow> nat list) \<Rightarrow> bool \<Rightarrow> (nat \<Rightarrow> nat \<Rightarrow> string option) \<Rightarrow> 'a RaceAlgBase_scheme EventFunc \<Rightarrow>
     'a RaceAlgBase_scheme \<times> EventContainer \<Rightarrow> ('a RaceAlgBase_scheme \<times> EventContainer) option" where
  "stage2 iter cfg names func = (\<lambda>(s, c).
     (case PipeLine_Run (Some func) (PipeLine_new s c) of
        None \<Rightarrow> None
      | Some p \<Rightarrow> Some ((client p)\<lparr>memChecker := RunAlgorithm iter cfg names (memChecker (client p)), isFinished := True\<rparr>, events p)))"

definition RaceAlgImpl_Do ::
  "(nat list \<Rightarrow> nat list) \<Rightarrow> bool \<Rightarrow> (nat \<Rightarrow> nat \<Rightarrow> string option) \<Rightarrow> MemOpInfo \<Rightarrow> SanEvent \<Rightarrow>
     RaceAlgImpl \<times> EventContainer \<Rightarrow> (RaceAlgImpl \<times> EventContainer) option" where
  "RaceAlgImpl_Do iter cfg names junk event = (\<lambda>(s, c).
     if \<not> is_finish event
     then (let s1 = CacheMstxCrossSet event s
           in Some (s1, EventContainer_Push c event PIPE_S
                          (GetEventBlockIndex event (ra_kernelType s1) (ra_deviceType s1) SINGLE_BLOCK_CHECK) 0))
     else stage2 iter cfg names (RaceAlgImpl_ProcessEvent junk) (s, c))"

definition RaceAlg_GetResult :: "'a RaceAlgBase_scheme \<Rightarrow> RaceDispInfo list" where
  "RaceAlg_GetResult s = mec_result (memChecker s)"

definition RaceAlg_GetRaceCount :: "'a RaceAlgBase_scheme \<Rightarrow> u32" where
  "RaceAlg_GetRaceCount s = mec_raceCnt (memChecker s)"

section \<open>The check inside one pipe\<close>

text \<open>
  The two counter arrays of the class have no initialiser and no constructor sets them: \<open>bars\<close> and
  \<open>nums\<close> are what they hold at the start.
\<close>

record SinglePipeRaceAlgImpl = RaceAlgBase +
  pipeBarrierNo :: "u32 list"
  sp_pipeSerialNo :: "(nat \<times> nat) list"

definition MAX_PIPE_NUM_FOR_BARRIER :: nat where
  "MAX_PIPE_NUM_FOR_BARRIER = pipe_code PIPE_SIZE - 1"

definition SinglePipe_new ::
  "u32 list \<Rightarrow> (nat \<times> nat) list \<Rightarrow> KernelType \<Rightarrow> DeviceType \<Rightarrow> nat \<Rightarrow> SinglePipeRaceAlgImpl \<times> EventContainer" where
  "SinglePipe_new bars nums kt dt blockDim =
     (RaceAlgBase.extend (RaceAlgBase_fields kt dt blockDim 0 SINGLE_PIPE_CHECK) (SinglePipeRaceAlgImpl.fields bars nums),
      EventContainer_Init 1 1)"

definition SinglePipe_ProcessMemEvent :: "MemOpInfo \<Rightarrow> SanEvent \<Rightarrow> SinglePipeRaceAlgImpl \<Rightarrow> ReturnType \<times> SinglePipeRaceAlgImpl" where
  "SinglePipe_ProcessMemEvent junk event s =
     (let pipeNum = pipe_code (pipe event) - 1;
          (lastNo, n) = sp_pipeSerialNo s ! pipeNum;
          s1 = (if lastNo \<noteq> serialNo event
                then s\<lparr>sp_pipeSerialNo := (sp_pipeSerialNo s)[pipeNum := (serialNo event, n + 1)]\<rparr> else s);
          e = (MemEvent_new junk event)\<lparr>barrierNo := unat (pipeBarrierNo s ! pipeNum),
                pipeSerialNo := snd (sp_pipeSerialNo s1 ! pipeNum)\<rparr>
      in (PROCESS_OK, s1\<lparr>memChecker := PushEvent e (memChecker s1)\<rparr>))"

definition bump_barrier :: "SanEvent \<Rightarrow> SinglePipeRaceAlgImpl \<Rightarrow> SinglePipeRaceAlgImpl" where
  "bump_barrier event s =
     (let i = pipe_code (pipe event) - 1 in s\<lparr>pipeBarrierNo := (pipeBarrierNo s)[i := pipeBarrierNo s ! i + 1]\<rparr>)"

definition SinglePipe_ProcessSyncEvent :: "SanEvent \<Rightarrow> SyncOpInfo \<Rightarrow> SinglePipeRaceAlgImpl \<Rightarrow> ReturnType \<times> SinglePipeRaceAlgImpl" where
  "SinglePipe_ProcessSyncEvent event info s =
     (if sync_opType info \<noteq> PIPE_BARRIER then (PROCESS_OK, s) else (PROCESS_OK, bump_barrier event s))"

definition SinglePipe_ProcessBufSyncEvent :: "SanEvent \<Rightarrow> BufSyncInfo \<Rightarrow> SinglePipeRaceAlgImpl \<Rightarrow> ReturnType \<times> SinglePipeRaceAlgImpl" where
  "SinglePipe_ProcessBufSyncEvent event info s =
     (if buf_opType info = GET_BUF \<and> bufMode info = BLOCK_MODE
      then (if rlsCount info = 0 then (PROCESS_OK, s) else (PROCESS_OK, bump_barrier event s))
      else (PROCESS_OK, s))"

definition SinglePipe_dispatch :: "MemOpInfo \<Rightarrow> SanEvent \<Rightarrow> SinglePipeRaceAlgImpl \<Rightarrow> ReturnType \<times> SinglePipeRaceAlgImpl" where
  "SinglePipe_dispatch junk event s =
     (case eventInfo event of
        SYNC_EVENT info \<Rightarrow> SinglePipe_ProcessSyncEvent event info s
      | MEM_EVENT _ \<Rightarrow>
          (if IsAscend95 (ra_deviceType s) \<and> pipe event = PIPE_V then (PROCESS_OK, s)
           else if pipe event = PIPE_S \<or> pipe event = PIPE_S_CAL then (PROCESS_OK, s)
           else SinglePipe_ProcessMemEvent junk event s)
      | BUF_SYNC_EVENT info \<Rightarrow> SinglePipe_ProcessBufSyncEvent event info s
      | _ \<Rightarrow> (PROCESS_OK, s))"

definition SinglePipe_ProcessEvent :: "MemOpInfo \<Rightarrow> SinglePipeRaceAlgImpl EventFunc" where
  "SinglePipe_ProcessEvent junk event = (\<lambda>(s, c). case SinglePipe_dispatch junk event s of (r, s1) \<Rightarrow> (r, s1, c))"

definition SinglePipe_Do ::
  "(nat list \<Rightarrow> nat list) \<Rightarrow> bool \<Rightarrow> (nat \<Rightarrow> nat \<Rightarrow> string option) \<Rightarrow> MemOpInfo \<Rightarrow> SanEvent \<Rightarrow>
     SinglePipeRaceAlgImpl \<times> EventContainer \<Rightarrow> (SinglePipeRaceAlgImpl \<times> EventContainer) option" where
  "SinglePipe_Do iter cfg names junk event = (\<lambda>(s, c).
     if \<not> is_finish event
     then Some (s, if pipe_code PIPE_S < pipe_code (pipe event) \<and> pipe_code (pipe event) < pipe_code PIPE_SIZE
                   then EventContainer_Push c event (pipe event) 0 0 else c)
     else stage2 iter cfg names (SinglePipe_ProcessEvent junk) (s, c))"

section \<open>Frames\<close>

lemma base_ops_frame [simp]:
  "ra_kernelType (tick i s) = ra_kernelType s" "ra_deviceType (tick i s) = ra_deviceType s" "memChecker (tick i s) = memChecker s"
  "ra_kernelType (receive t i s) = ra_kernelType s" "ra_deviceType (receive t i s) = ra_deviceType s"
  "memChecker (receive t i s) = memChecker s"
  "ra_kernelType (FreeTimeInfo p s) = ra_kernelType s" "ra_deviceType (FreeTimeInfo p s) = ra_deviceType s"
  "memChecker (FreeTimeInfo p s) = memChecker s"
  by (simp_all add: tick_def receive_def FreeTimeInfo_def)

lemma fold_receive_frame [simp]:
  "ra_kernelType (fold (\<lambda>t. receive t i) ts s) = ra_kernelType s" "ra_deviceType (fold (\<lambda>t. receive t i) ts s) = ra_deviceType s"
  "memChecker (fold (\<lambda>t. receive t i) ts s) = memChecker s"
  by (induction ts arbitrary: s) simp_all

text \<open>An operation that keeps the parameters of the kernel and the recorded accesses.\<close>

definition quiet :: "'a RaceAlgBase_scheme \<Rightarrow> 'a RaceAlgBase_scheme \<Rightarrow> bool" where
  "quiet s s' \<longleftrightarrow> ra_kernelType s' = ra_kernelType s \<and> ra_deviceType s' = ra_deviceType s \<and>
     mec_events (memChecker s') = mec_events (memChecker s)"

lemma quiet_refl [simp]: "quiet s s"
  by (simp add: quiet_def)

lemma quiet_ops [simp]:
  "quiet s (tick i s)" "quiet s (receive t i s)" "quiet s (snd (waited i r s))"
  "quiet s (snd (ProcessBlockSyncEvent ct e fi i s))" "quiet s (snd (ProcessMstxCrossSyncEvent mi i s))"
  "quiet s (snd (ProcessGetRlsBufSyncEvent ct e bi i s))" "quiet s (snd (receive_snapshot e i s))"
  "quiet s (snd (snd (flag_step si i db s)))" "quiet s (fst (launch hdr e i s))"
  by (auto simp: quiet_def waited_def ProcessBlockSyncEvent_def ProcessMstxCrossSyncEvent_def ProcessGetRlsBufSyncEvent_def
      receive_snapshot_def flag_step_def launch_def AllocTimeInfo_def MemEventChecker_SetVecSubBlockDim_def Let_def
      split: prod.split ReturnType.split option.split)

lemma record_access_log:
  "fst (record_access junk e i s) = PROCESS_OK"
  "mec_events (memChecker (snd (record_access junk e i s))) =
     mec_events (memChecker s) @ [(MemEvent_new junk e)\<lparr>ev_vt := vc (tick i s) ! i\<rparr>]"
  "ra_kernelType (snd (record_access junk e i s)) = ra_kernelType s" "ra_deviceType (snd (record_access junk e i s)) = ra_deviceType s"
  by (simp_all add: record_access_def PushEvent_def Let_def)

lemma waited_stalled:
  assumes "waited i r s = (PROCESS_STALLED, s')" "\<And>c t. r = (c, t, False) \<Longrightarrow> c = ra_sync s \<and> t = vc s ! i"
  shows "s' = s"
  using assms by (cases s) (auto simp: waited_def split: prod.splits if_splits)

lemma waits_pure:
  "ProcessBlockSyncEvent ct e fi i s = (PROCESS_STALLED, s') \<Longrightarrow> s' = s"
  "ProcessMstxCrossSyncEvent mi i s = (PROCESS_STALLED, s') \<Longrightarrow> s' = s"
  "ProcessGetRlsBufSyncEvent ct e bi i s = (PROCESS_STALLED, s') \<Longrightarrow> s' = s"
  "flag_step si i db s = (PROCESS_STALLED, db', s') \<Longrightarrow> db' = db \<and> s' = s"
proof -
  show "s' = s" if "ProcessBlockSyncEvent ct e fi i s = (PROCESS_STALLED, s')"
    using that wait_failed_unchanged
    by (auto simp: ProcessBlockSyncEvent_def Let_def split: if_splits elim!: waited_stalled)
  show "s' = s" if "ProcessMstxCrossSyncEvent mi i s = (PROCESS_STALLED, s')"
    using that wait_failed_unchanged
    by (auto simp: ProcessMstxCrossSyncEvent_def Let_def split: if_splits prod.splits ReturnType.splits elim!: waited_stalled)
  show "s' = s" if "ProcessGetRlsBufSyncEvent ct e bi i s = (PROCESS_STALLED, s')"
    using that by (auto simp: ProcessGetRlsBufSyncEvent_def Let_def split: if_splits option.splits)
  show "db' = db \<and> s' = s" if "flag_step si i db s = (PROCESS_STALLED, db', s')"
    using that Get_None [of db "SyncEvent_of si"]
    by (auto simp: flag_step_def Let_def split: if_splits prod.splits option.splits)
qed

lemma launch_to_push:
  "launch_to hdr e b d (s, c) = (PROCESS_OK, fst (launch hdr e (GetQueIndex c) s),
     push_list c (snd (launch hdr e (GetQueIndex c) s)) (pipe e) b d)"
  by (simp add: launch_to_def push_list_def case_prod_unfold)

lemma launch_events:
  assumes "x \<in> set (snd (launch hdr e i s))"
  shows "pipe x = pipe e" "x = e \<or> eventInfo x = TIME_EVENT"
  using assms by (auto simp: launch_def Let_def split: prod.splits)

lemma launch_few_events: "length (concat (map split_event (snd (launch hdr e i s)))) \<le> 3"
  using split_event_length [of e] by (auto simp: launch_def Let_def split_event_other split: prod.splits)

text \<open>The accesses a checker keeps, without their times, and the access an event stands for.\<close>

definition untimed :: "MemEvent \<Rightarrow> MemEvent" where
  "untimed m = m\<lparr>ev_vt := VectorTime_new\<rparr>"

definition accesses :: "'a RaceAlgBase_scheme \<Rightarrow> MemEvent list" where
  "accesses s = map untimed (mec_events (memChecker s))"

definition access_of :: "MemOpInfo \<Rightarrow> SanEvent \<Rightarrow> MemEvent list" where
  "access_of junk e = (case eventInfo e of MEM_EVENT _ \<Rightarrow> [MemEvent_new junk e] | DYNAMIC_MEM_EVENT _ \<Rightarrow> [MemEvent_new junk e] | _ \<Rightarrow> [])"

lemma quiet_accesses: "quiet s s' \<Longrightarrow> accesses s' = accesses s"
  by (simp add: quiet_def accesses_def)

lemma untimed_new [simp]: "untimed ((MemEvent_new junk e)\<lparr>ev_vt := t\<rparr>) = MemEvent_new junk e"
  by (simp add: untimed_def MemEvent_new_def)

lemma access_of_TIME: "eventInfo e = TIME_EVENT \<Longrightarrow> access_of junk e = [] \<and> split_event e = [e]"
  by (simp add: access_of_def split_event_def)

lemma launch_accesses:
  "concat (map (access_of junk) (concat (map split_event (snd (launch hdr e i s))))) = concat (map (access_of junk) (split_event e))"
  by (simp add: launch_def Let_def access_of_TIME split: prod.split)

lemma split_event_loc: "x \<in> set (split_event e) \<Longrightarrow> loc x = loc e"
  by (auto simp: split_event_def split: EventInfo.splits if_splits)

section \<open>The core algorithm on the pipeline\<close>

lemma RaceAlgImpl_dispatch_pure: "RaceAlgImpl_dispatch junk e i s = (PROCESS_STALLED, s') \<Longrightarrow> s' = s"
proof -
  assume d: "RaceAlgImpl_dispatch junk e i s = (PROCESS_STALLED, s')"
  show "s' = s"
  proof (cases "eventInfo e")
    case (SYNC_EVENT info)
    obtain r db s1 where f: "flag_step info i (syncDB s) s = (r, db, s1)" by (metis prod_cases3)
    then have "r = PROCESS_STALLED" "s' = s1\<lparr>syncDB := db\<rparr>"
      using d SYNC_EVENT by (simp_all add: core_dispatch_defs RaceAlgImpl_ProcessSyncEvent_def)
    moreover from this have "db = syncDB s" "s1 = s" using waits_pure(4) [of info i "syncDB s" s db s1] f by simp_all
    ultimately show ?thesis by simp
  qed (use d in \<open>auto simp: core_dispatch_defs receive_snapshot_def record_access_def Let_def dest: waits_pure\<close>)
qed

lemma flag_dispatch_quiet: "quiet s (snd (RaceAlgImpl_ProcessSyncEvent info i s))"
  using quiet_ops(8) [of s info i "syncDB s"]
  by (simp add: RaceAlgImpl_ProcessSyncEvent_def quiet_def case_prod_unfold)

lemma RaceAlgImpl_dispatch_log:
  "accesses (snd (RaceAlgImpl_dispatch junk e i s)) =
     accesses s @ (if fst (RaceAlgImpl_dispatch junk e i s) = PROCESS_OK then access_of junk e else [])"
  "ra_kernelType (snd (RaceAlgImpl_dispatch junk e i s)) = ra_kernelType s"
  "ra_deviceType (snd (RaceAlgImpl_dispatch junk e i s)) = ra_deviceType s"
proof -
  let ?s = "snd (RaceAlgImpl_dispatch junk e i s)"
  have "quiet s ?s \<and> access_of junk e = [] \<or>
      RaceAlgImpl_dispatch junk e i s = record_access junk e i s \<and> access_of junk e = [MemEvent_new junk e]"
    using flag_dispatch_quiet by (cases "eventInfo e") (simp_all add: core_dispatch_defs access_of_def)
  then have "accesses ?s = accesses s @ (if fst (RaceAlgImpl_dispatch junk e i s) = PROCESS_OK then access_of junk e else []) \<and>
      ra_kernelType ?s = ra_kernelType s \<and> ra_deviceType ?s = ra_deviceType s"
    using record_access_log [of junk e i s] by (auto simp: accesses_def quiet_def)
  then show "accesses ?s = accesses s @ (if fst (RaceAlgImpl_dispatch junk e i s) = PROCESS_OK then access_of junk e else [])"
    "ra_kernelType ?s = ra_kernelType s" "ra_deviceType ?s = ra_deviceType s" by simp_all
qed

interpretation core: pure_launching_handler "RaceAlgImpl_ProcessEvent junk" "\<lambda>_. True" "launch (\<lambda>_. SanEvent_new)"
  "\<lambda>s e. (GetEventBlockIndex e (ra_kernelType s) (ra_deviceType s) SINGLE_BLOCK_CHECK, 0)" "RaceAlgImpl_dispatch junk"
  for junk
proof
  show "x \<in> set (snd (launch (\<lambda>_. SanEvent_new) e i s)) \<Longrightarrow> pipe x = pipe e" for x e i and s :: RaceAlgImpl
    by (rule launch_events)
  show "length (concat (map split_event (snd (launch (\<lambda>_. SanEvent_new) e i s)))) \<le> 3" for e i and s :: RaceAlgImpl
    by (rule launch_few_events)
  show "RaceAlgImpl_dispatch junk e i s = (PROCESS_STALLED, s') \<Longrightarrow> s' = s" for e i s s'
    by (rule RaceAlgImpl_dispatch_pure)
qed (simp_all add: RaceAlgImpl_ProcessEvent_def launch_to_push case_prod_unfold)

interpretation core_log: recording_handler "RaceAlgImpl_ProcessEvent junk" "\<lambda>_. True" "launch (\<lambda>_. SanEvent_new)"
  "\<lambda>s e. (GetEventBlockIndex e (ra_kernelType s) (ra_deviceType s) SINGLE_BLOCK_CHECK, 0)" "RaceAlgImpl_dispatch junk"
  "\<lambda>s. ra_kernelType s = kt \<and> ra_deviceType s = dt" "\<lambda>e. GetEventBlockIndex e kt dt SINGLE_BLOCK_CHECK"
  accesses "access_of junk" "\<lambda>m. (GetEventBlockIndexByLoc (ev_loc m) kt dt SINGLE_BLOCK_CHECK, ev_pipe m)"
  for junk kt dt
proof
  show "ra_kernelType (fst (launch (\<lambda>_. SanEvent_new) e i s)) = kt \<and> ra_deviceType (fst (launch (\<lambda>_. SanEvent_new) e i s)) = dt"
    if "ra_kernelType s = kt \<and> ra_deviceType s = dt" for e i and s :: RaceAlgImpl
    using that quiet_ops(9) [of s "\<lambda>_. SanEvent_new" e i] by (simp add: quiet_def)
  show "accesses (fst (launch (\<lambda>_. SanEvent_new) e i s)) = accesses s" for e i and s :: RaceAlgImpl
    by (rule quiet_accesses) simp
  show "x = e \<or> access_of junk x = [] \<and> split_event x = [x]" if "x \<in> set (snd (launch (\<lambda>_. SanEvent_new) e i s))" for x e i and s :: RaceAlgImpl
    using launch_events(2) [OF that] access_of_TIME by blast
  show "concat (map (access_of junk) (concat (map split_event (snd (launch (\<lambda>_. SanEvent_new) e i s))))) = concat (map (access_of junk) (split_event e))"
    for e i and s :: RaceAlgImpl by (rule launch_accesses)
  show "(GetEventBlockIndexByLoc (ev_loc m) kt dt SINGLE_BLOCK_CHECK, ev_pipe m) =
      (GetEventBlockIndex e kt dt SINGLE_BLOCK_CHECK, if True then pipe e else PIPE_S)" if "m \<in> set (access_of junk e)" for m e
    using that by (auto simp: access_of_def MemEvent_new_def GetEventBlockIndex_ByLoc split: EventInfo.splits)
  show "GetEventBlockIndex x kt dt SINGLE_BLOCK_CHECK = GetEventBlockIndex e kt dt SINGLE_BLOCK_CHECK \<and> True = True"
    if "x \<in> set (split_event e)" for x e
    using split_event_loc [OF that] by (simp add: GetEventBlockIndex_ByLoc)
  show "ra_kernelType (snd (RaceAlgImpl_dispatch junk e i s)) = kt \<and> ra_deviceType (snd (RaceAlgImpl_dispatch junk e i s)) = dt"
    if "ra_kernelType s = kt \<and> ra_deviceType s = dt" for e i s
    using that RaceAlgImpl_dispatch_log by simp
  show "accesses (snd (RaceAlgImpl_dispatch junk e i s)) =
      accesses s @ (if fst (RaceAlgImpl_dispatch junk e i s) = PROCESS_OK then access_of junk e else [])" for e i s
    by (rule RaceAlgImpl_dispatch_log)
qed simp

section \<open>Sample inputs\<close>

definition sample_info :: "AccessType \<Rightarrow> MemOpInfo" where
  "sample_info op = \<lparr>memType = MEM_UB, opType = op, vectorMask = \<lparr>mask0 = -1, mask1 = -1\<rparr>, maskMode = MASK_NORM,
     instrName = 0, dataBits = 16, addr = 256, blockNum = 1, blockSize = 32, blockStride = 1, repeatTimes = 1, repeatStride = 1,
     alignSize = 32, ignoreIllegalCheck = False, isScalarAtomic = False, dcciDistance = 0, dstCoreId = 0,
     dstBlockType = BT_AIVEC, instrClass = IC_UNKNOWN, matrixM = 0, matrixN = 0\<rparr>"

definition access_event :: "PipeType \<Rightarrow> AccessType \<Rightarrow> SanEvent" where
  "access_event p op = sample_event p (MEM_EVENT (sample_info op))"

definition sample_flag :: "SyncType \<Rightarrow> SyncOpInfo" where
  "sample_flag op = \<lparr>sync_opType = op, srcPipe = PIPE_V, dstPipe = PIPE_MTE3, eventId = 0, sync_memType = MEM_UB,
     isRetrogress = False, isGenerated = False\<rparr>"

end
