(* ===== verification/ClockOrder.thy ===== *)
theory ClockOrder
  imports RaceAlg
begin

text \<open>
  The times that flow through the synchronisation stores of the core algorithm. Every operation on
  queue \<open>k\<close> changes no clock but that of \<open>k\<close>, publishes no time but the clock it leaves there, and
  gives \<open>k\<close> only joins of times that were stored; so an invariant of times closed under joins
  carries over. From this follow the two claims a race report rests on: accesses ordered by a flag
  have ordered times, accesses with no flow from one pipe to the other have concurrent times.
\<close>

section \<open>Stored times\<close>

definition slot_times :: "BlockSyncInfo \<Rightarrow> VectorTime set" where
  "slot_times i = set (setVec0 i) \<union> set (setVec1 i) \<union> set (setVec2 i) \<union> set (setVec4 i) \<union> set (waitVec i) \<union> set (intrablockwaitVec i)"

definition ccs_times :: "CrossCoreSyncInfoContainer \<Rightarrow> VectorTime set" where
  "ccs_times c = (\<Union>row\<in>set (blockSyncEvent c). \<Union>i\<in>set row. slot_times i) \<union>
     (\<Union>i\<in>set (blockSoftSyncInfo c). ran (mapVectorTime i)) \<union> (\<Union>q\<in>ran (mstxCrossSetMap c). set q)"

definition stored_times :: "RaceAlgImpl \<Rightarrow> VectorTime set" where
  "stored_times s = ccs_times (ra_sync s) \<union> (\<Union>q\<in>ran (getRlsBufMap s). set q) \<union> (\<Union>q\<in>ran (syncDB s). set q) \<union>
     set (pool (timeInfoPool s))"

definition join_closed :: "VectorTime set \<Rightarrow> bool" where
  "join_closed S \<longleftrightarrow> VectorTime_new \<in> S \<and> (\<forall>a\<in>S. \<forall>b\<in>S. UpdateVectorTime a b \<in> S)"

lemma join_closed_new [simp]: "join_closed S \<Longrightarrow> VectorTime_new \<in> S"
  by (simp add: join_closed_def)

lemma join_closed_join: "join_closed S \<Longrightarrow> a \<in> S \<Longrightarrow> b \<in> S \<Longrightarrow> UpdateVectorTime a b \<in> S"
  by (simp add: join_closed_def)

section \<open>Times in the cross-core store\<close>

lemma slot_times_set:
  "set (setVec0 i) \<subseteq> slot_times i" "set (setVec1 i) \<subseteq> slot_times i" "set (setVec2 i) \<subseteq> slot_times i"
  "set (setVec4 i) \<subseteq> slot_times i" "set (waitVec i) \<subseteq> slot_times i" "set (intrablockwaitVec i) \<subseteq> slot_times i"
  by (auto simp: slot_times_def)

lemma slot_push [intro]:
  assumes "slot_times i \<subseteq> S" "t \<in> S"
  shows "slot_times (push_set0 t i) \<subseteq> S" "slot_times (push_set1 t i) \<subseteq> S" "slot_times (push_set2 t i) \<subseteq> S"
    "slot_times (push_set4 t i) \<subseteq> S" "slot_times (push_wait t i) \<subseteq> S" "slot_times (push_intra t i) \<subseteq> S"
  using assms by (auto simp: slot_times_def slot_ops)

lemma slot_pop [intro]:
  assumes "slot_times i \<subseteq> S"
  shows "slot_times (pop_set0 i) \<subseteq> S" "slot_times (pop_set1 i) \<subseteq> S" "slot_times (pop_set2 i) \<subseteq> S"
    "slot_times (pop_set4 i) \<subseteq> S" "slot_times (pop_wait i) \<subseteq> S" "slot_times (pop_intra i) \<subseteq> S"
  using assms by (auto simp: slot_times_def slot_ops dest: in_set_tl)

lemma ccs_slot: "sync_slot_ok c b f \<Longrightarrow> slot_times (blockSyncEvent c ! b ! f) \<subseteq> ccs_times c"
  unfolding ccs_times_def sync_slot_ok_def by (blast intro: nth_mem)

lemma ccs_times_upd:
  assumes "ccs_times c \<subseteq> S" "\<And>i. slot_times i \<subseteq> S \<Longrightarrow> slot_times (g i) \<subseteq> S"
  shows "ccs_times (sync_upd b f g c) \<subseteq> S"
proof (cases "sync_slot_ok c b f")
  case True
  then have bf: "b < length (blockSyncEvent c)" "f < length (blockSyncEvent c ! b)" by (simp_all add: sync_slot_ok_def)
  have g: "slot_times (g (blockSyncEvent c ! b ! f)) \<subseteq> S" using assms(2) ccs_slot [OF True] assms(1) by blast
  have "slot_times i \<subseteq> S" if row: "row \<in> set ((blockSyncEvent c)[b := (blockSyncEvent c ! b)[f := g (blockSyncEvent c ! b ! f)]])"
      and i: "i \<in> set row" for row i
  proof -
    have "row \<in> set (blockSyncEvent c) \<or> row = (blockSyncEvent c ! b)[f := g (blockSyncEvent c ! b ! f)]"
      using set_update_subset_insert row by fast
    then have "i = g (blockSyncEvent c ! b ! f) \<or> (\<exists>row\<in>set (blockSyncEvent c). i \<in> set row)"
      using i set_update_subset_insert [of "blockSyncEvent c ! b" f "g (blockSyncEvent c ! b ! f)"] nth_mem [OF bf(1)] by blast
    then show ?thesis using g assms(1) by (auto simp: ccs_times_def)
  qed
  then show ?thesis using assms(1) True by (auto simp: sync_upd_def ccs_times_def)
qed (simp add: sync_upd_def assms(1))

lemma sync_at_times:
  assumes "ccs_times c \<subseteq> S"
  shows "slot_times (sync_at c b f) \<subseteq> S"
proof (cases "sync_slot_ok c b f")
  case True
  then show ?thesis using ccs_slot [OF True] assms by (simp add: sync_at_def)
qed (simp add: sync_at_def slot_times_def BlockSyncInfo_new_def)

lemma sync_at_heads:
  assumes "ccs_times c \<subseteq> S"
  shows "setVec1 (sync_at c b f) = t # q \<Longrightarrow> t \<in> S" "setVec2 (sync_at c b f) = t # q \<Longrightarrow> t \<in> S"
    "waitVec (sync_at c b f) = t # q \<Longrightarrow> t \<in> S" "intrablockwaitVec (sync_at c b f) = t # q \<Longrightarrow> t \<in> S"
  using sync_at_times [OF assms, of b f] slot_times_set [of "sync_at c b f"] by auto

lemma ccs_push:
  assumes "ccs_times c \<subseteq> S" "t \<in> S"
  shows "ccs_times (sync_upd b f (push_set0 t) c) \<subseteq> S" "ccs_times (sync_upd b f (push_set1 t) c) \<subseteq> S"
    "ccs_times (sync_upd b f (push_set2 t) c) \<subseteq> S" "ccs_times (sync_upd b f (push_set4 t) c) \<subseteq> S"
    "ccs_times (sync_upd b f (push_wait t) c) \<subseteq> S" "ccs_times (sync_upd b f (push_intra t) c) \<subseteq> S"
  by (simp_all add: ccs_times_upd slot_push assms)

lemma ccs_pop:
  assumes "ccs_times c \<subseteq> S"
  shows "ccs_times (sync_upd b f pop_set0 c) \<subseteq> S" "ccs_times (sync_upd b f pop_set1 c) \<subseteq> S"
    "ccs_times (sync_upd b f pop_set2 c) \<subseteq> S" "ccs_times (sync_upd b f pop_set4 c) \<subseteq> S"
    "ccs_times (sync_upd b f pop_wait c) \<subseteq> S" "ccs_times (sync_upd b f pop_intra c) \<subseteq> S"
  by (simp_all add: ccs_times_upd slot_pop assms)

lemmas ccs_upd_ops = ccs_push ccs_pop

lemma collect_set0_times:
  assumes "join_closed S"
  shows "ccs_times c \<subseteq> S \<Longrightarrow> t \<in> S \<Longrightarrow> collect_set0 f bs (c, t) = (c', t') \<Longrightarrow> ccs_times c' \<subseteq> S \<and> t' \<in> S"
proof (induction bs arbitrary: c t)
  case (Cons i bs)
  show ?case
  proof (cases "setVec0 (sync_at c i f)")
    case Nil
    then show ?thesis using Cons by simp
  next
    case (Cons a q)
    then have "a \<in> S" using sync_at_times [OF Cons.prems(1), of i f] slot_times_set(1) [of "sync_at c i f"] by auto
    then have "UpdateVectorTime a t \<in> S" using join_closed_join [OF assms] Cons.prems(2) by blast
    moreover have "ccs_times (sync_upd i f pop_set0 c) \<subseteq> S" using Cons.prems(1) by (rule ccs_upd_ops)
    ultimately show ?thesis using Cons.IH Cons.prems(3) \<open>setVec0 (sync_at c i f) = a # q\<close> by simp
  qed
qed simp

lemma Mode0_times:
  assumes S: "join_closed S" and c: "ccs_times c \<subseteq> S" and t: "t \<in> S"
  shows "ccs_times (SetMode0SyncInfo f b t c) \<subseteq> S"
proof -
  have waits: "ccs_times (fold (\<lambda>i. sync_upd i f (push_wait u)) bs c') \<subseteq> S" if "ccs_times c' \<subseteq> S" "u \<in> S" for u bs c'
    using that(1) by (induction bs arbitrary: c') (simp_all add: ccs_upd_ops that(2))
  have "ccs_times (UpdateSyncInfoInMode0 f bs c') \<subseteq> S" if "ccs_times c' \<subseteq> S" for bs c'
    using collect_set0_times [OF S that join_closed_new [OF S]] waits
    by (auto simp: UpdateSyncInfoInMode0_def split: prod.split)
  then show ?thesis using ccs_upd_ops(1) [OF c t] by (simp add: SetMode0SyncInfo_def Let_def)
qed

lemma Mode1_times:
  assumes S: "join_closed S" and c: "ccs_times c \<subseteq> S" and t: "t \<in> S"
  shows "ccs_times (SetMode1SyncInfo f b t c) \<subseteq> S"
  using sync_at_heads(1) [OF c] join_closed_join [OF S t]
  by (auto simp: SetMode1SyncInfo_def Let_def c t ccs_upd_ops split: list.split)

lemma Mode2_times:
  assumes S: "join_closed S" and c: "ccs_times c \<subseteq> S" and t: "t \<in> S"
  shows "ccs_times (SetMode2SyncInfo f b t d c) \<subseteq> S"
proof -
  have c1: "ccs_times (sync_upd b f (push_set2 t) c) \<subseteq> S" by (rule ccs_push [OF c t])
  show ?thesis
    using sync_at_heads(2) [OF c1] join_closed_join [OF S t]
    by (auto simp: SetMode2SyncInfo_def Let_def c t c1 ccs_upd_ops split: list.split)
qed

lemma AddFlagIdWarnInfo_times [simp]: "ccs_times (AddFlagIdWarnInfo f l n c) = ccs_times c"
  by (simp add: AddFlagIdWarnInfo_def ccs_times_def)

lemma Mode4_times:
  assumes "ccs_times c \<subseteq> S" "t \<in> S"
  shows "ccs_times (SetMode4SyncInfo f b t d l n c) \<subseteq> S"
  using assms by (simp add: SetMode4SyncInfo_def Let_def ccs_upd_ops)

lemma SetBlockSyncInfo_times:
  "join_closed S \<Longrightarrow> ccs_times c \<subseteq> S \<Longrightarrow> t \<in> S \<Longrightarrow> ccs_times (SetBlockSyncInfo f m b t d l n c) \<subseteq> S"
  by (simp add: SetBlockSyncInfo_def Mode0_times Mode1_times Mode2_times Mode4_times)

lemma queue_upd_times:
  assumes "(\<Union>q\<in>ran m. set q) \<subseteq> S" "\<And>q. v = Some q \<Longrightarrow> set q \<subseteq> S"
  shows "(\<Union>q\<in>ran (m(k := v)). set q) \<subseteq> S"
proof -
  have "q \<in> ran m \<or> v = Some q" if "q \<in> ran (m(k := v))" for q using that by (auto simp: ran_def split: if_splits)
  then show ?thesis using assms by blast
qed

lemma queue_times: "(\<Union>q\<in>ran m. set q) \<subseteq> S \<Longrightarrow> m k = Some q \<Longrightarrow> set q \<subseteq> S"
  by (meson UN_subset_iff ranI)

lemma mstx_times: "ccs_times c \<subseteq> S \<Longrightarrow> (\<Union>q\<in>ran (mstxCrossSetMap c). set q) \<subseteq> S"
  "ccs_times c \<subseteq> S \<Longrightarrow> (\<Union>q\<in>ran m. set q) \<subseteq> S \<Longrightarrow> ccs_times (c\<lparr>mstxCrossSetMap := m\<rparr>) \<subseteq> S"
  by (simp_all add: ccs_times_def)

lemma SetMstxCrossInfo_times:
  assumes "ccs_times c \<subseteq> S" "t \<in> S"
  shows "ccs_times (SetMstxCrossInfo i t c) \<subseteq> S"
proof -
  note m = mstx_times(1) [OF assms(1)]
  let ?k = "(cross_addr i, cross_flagId i)"
  define Q where "Q = (case mstxCrossSetMap c ?k of None \<Rightarrow> [] | Some q \<Rightarrow> q)"
  have "set Q \<subseteq> S" using queue_times [OF m, of ?k] by (cases "mstxCrossSetMap c ?k") (simp_all add: Q_def)
  then have "ccs_times (c\<lparr>mstxCrossSetMap := (mstxCrossSetMap c)(?k \<mapsto> Q @ [t])\<rparr>) \<subseteq> S"
    by (intro mstx_times(2) assms(1) queue_upd_times m) (use assms(2) in auto)
  then show ?thesis by (simp add: SetMstxCrossInfo_def Let_def Q_def)
qed

text \<open>A wait leaves the time alone or joins a stored one into it.\<close>

lemma waits_shrink:
  "GetBlockSyncInfo f b t c = (c', t', ok) \<Longrightarrow> ccs_times c' \<subseteq> ccs_times c"
  "GetIntraBlockSyncInfo f b t c = (c', t', ok) \<Longrightarrow> ccs_times c' \<subseteq> ccs_times c"
  "GetMstxCrossInfo i t c = (c', t', ok) \<Longrightarrow> ccs_times c' \<subseteq> ccs_times c"
proof -
  note pop = subsetD [OF ccs_pop(5) [OF order.refl]] subsetD [OF ccs_pop(6) [OF order.refl]]
  show "ccs_times c' \<subseteq> ccs_times c" if "GetBlockSyncInfo f b t c = (c', t', ok)"
    using that by (auto simp: GetBlockSyncInfo_def split: if_splits list.splits dest: pop(1))
  show "ccs_times c' \<subseteq> ccs_times c" if "GetIntraBlockSyncInfo f b t c = (c', t', ok)"
    using that by (auto simp: GetIntraBlockSyncInfo_def Let_def split: if_splits list.splits dest: pop(2))
  show "ccs_times c' \<subseteq> ccs_times c" if get: "GetMstxCrossInfo i t c = (c', t', ok)"
  proof (cases "\<exists>x q. mstxCrossSetMap c (cross_addr i, cross_flagId i) = Some (x # q)")
    case True
    then obtain x q where q: "mstxCrossSetMap c (cross_addr i, cross_flagId i) = Some (x # q)" by blast
    note m = mstx_times(1) [OF order.refl, of c]
    have "ccs_times (c\<lparr>mstxCrossSetMap := (mstxCrossSetMap c)((cross_addr i, cross_flagId i) := (if q = [] then None else Some q))\<rparr>) \<subseteq> ccs_times c"
      by (intro mstx_times(2) order.refl queue_upd_times m) (use queue_times [OF m q] in \<open>auto split: if_splits\<close>)
    then show ?thesis using get q by (auto simp: GetMstxCrossInfo_def Let_def)
  qed (use get in \<open>auto simp: GetMstxCrossInfo_def Let_def split: option.splits list.splits\<close>)
qed

lemma waits_receive:
  "GetBlockSyncInfo f b t c = (c', t', ok) \<Longrightarrow> t' = t \<or> (\<exists>u\<in>ccs_times c. t' = UpdateVectorTime u t)"
  "GetIntraBlockSyncInfo f b t c = (c', t', ok) \<Longrightarrow> t' = t \<or> (\<exists>u\<in>ccs_times c. t' = UpdateVectorTime u t)"
  "GetMstxCrossInfo i t c = (c', t', ok) \<Longrightarrow> t' = t \<or> (\<exists>u\<in>ccs_times c. t' = UpdateVectorTime u t)"
proof -
  note heads = sync_at_heads(3,4) [OF order.refl, of c]
  have m: "set q \<subseteq> ccs_times c" if "mstxCrossSetMap c k = Some q" for k q
    by (rule queue_times [OF mstx_times(1) [OF order.refl] that])
  show "t' = t \<or> (\<exists>u\<in>ccs_times c. t' = UpdateVectorTime u t)" if "GetBlockSyncInfo f b t c = (c', t', ok)"
    using that heads(1) by (auto simp: GetBlockSyncInfo_def split: if_splits list.splits)
  show "t' = t \<or> (\<exists>u\<in>ccs_times c. t' = UpdateVectorTime u t)" if "GetIntraBlockSyncInfo f b t c = (c', t', ok)"
    using that heads(2) by (auto simp: GetIntraBlockSyncInfo_def Let_def split: if_splits list.splits)
  show "t' = t \<or> (\<exists>u\<in>ccs_times c. t' = UpdateVectorTime u t)" if "GetMstxCrossInfo i t c = (c', t', ok)"
    using that by (auto simp: GetMstxCrossInfo_def Let_def split: option.splits list.splits dest!: m)
qed

section \<open>The flow of times in one step\<close>

text \<open>
  What a step of queue \<open>k\<close> may do: change the clock of \<open>k\<close> only, publish nothing but the new clock,
  let the clock receive stored times and advance its own component.
\<close>

definition flow :: "nat \<Rightarrow> RaceAlgImpl \<Rightarrow> RaceAlgImpl \<Rightarrow> bool" where
  "flow k s s' \<longleftrightarrow> (\<exists>x. vc s' = (vc s)[k := x] \<and>
     (\<forall>S. join_closed S \<longrightarrow> stored_times s \<subseteq> S \<longrightarrow> vc s ! k \<in> S \<longrightarrow> x \<in> S \<longrightarrow> stored_times s' \<subseteq> S) \<and>
     (\<forall>S. join_closed S \<longrightarrow> (\<forall>t\<in>S. UpdateLogicTime t (of_nat k) \<in> S) \<longrightarrow> stored_times s \<subseteq> S \<longrightarrow> vc s ! k \<in> S \<longrightarrow> x \<in> S) \<and>
     ((\<forall>t\<in>stored_times s. vt_inv t) \<longrightarrow> vt_inv (vc s ! k) \<longrightarrow> vt.dominated (vc s ! k) x))"

lemma flowI:
  assumes "vc s' = (vc s)[k := x]"
    and "\<And>S. join_closed S \<Longrightarrow> stored_times s \<subseteq> S \<Longrightarrow> vc s ! k \<in> S \<Longrightarrow> x \<in> S \<Longrightarrow> stored_times s' \<subseteq> S"
    and "\<And>S. join_closed S \<Longrightarrow> (\<And>t. t \<in> S \<Longrightarrow> UpdateLogicTime t (of_nat k) \<in> S) \<Longrightarrow> stored_times s \<subseteq> S \<Longrightarrow> vc s ! k \<in> S \<Longrightarrow> x \<in> S"
    and "(\<And>t. t \<in> stored_times s \<Longrightarrow> vt_inv t) \<Longrightarrow> vt_inv (vc s ! k) \<Longrightarrow> vt.dominated (vc s ! k) x"
  shows "flow k s s'"
  unfolding flow_def using assms by (intro exI [of _ x]) blast

lemma dominated_refl [simp]: "vt.dominated t t"
  by (simp add: vt.dominated_def)

lemma flow_refl: "flow k s s"
  by (rule flowI [of _ _ _ "vc s ! k"]) simp_all

lemma vt_inv_closed: "join_closed {t. vt_inv t}"
  by (auto simp: join_closed_def)

text \<open>A step that advances the clock and publishes it.\<close>

lemma flow_publish:
  assumes "k < length (vc s)" "vc s' = (vc s)[k := UpdateLogicTime (vc s ! k) (of_nat k)]"
    and "\<And>S. join_closed S \<Longrightarrow> stored_times s \<subseteq> S \<Longrightarrow> UpdateLogicTime (vc s ! k) (of_nat k) \<in> S \<Longrightarrow> stored_times s' \<subseteq> S"
  shows "flow k s s'"
  by (rule flowI [OF assms(2)]) (use assms(3) vt.tick_dominates in auto)

text \<open>A step that only receives, and one that advances afterwards.\<close>

lemma flow_receive:
  assumes "vc s' = (vc s)[k := x]" "stored_times s' \<subseteq> stored_times s"
    and "x = vc s ! k \<or> (\<exists>u\<in>stored_times s. x = UpdateVectorTime u (vc s ! k))"
  shows "flow k s s'"
proof (rule flowI [OF assms(1)])
  show "stored_times s' \<subseteq> S" if "stored_times s \<subseteq> S" for S using assms(2) that by blast
  show "x \<in> S" if "join_closed S" "stored_times s \<subseteq> S" "vc s ! k \<in> S" for S
    using assms(3) that join_closed_join by blast
  show "vt.dominated (vc s ! k) x" if "\<And>t. t \<in> stored_times s \<Longrightarrow> vt_inv t" "vt_inv (vc s ! k)"
    using assms(3) that vt.join_dominates by auto
qed

lemma flow_receive_tick:
  assumes "vc s' = (vc s)[k := UpdateLogicTime (UpdateVectorTime u (vc s ! k)) (of_nat k)]" "stored_times s' \<subseteq> stored_times s"
    and "u \<in> stored_times s"
  shows "flow k s s'"
proof (rule flowI [OF assms(1)])
  show "stored_times s' \<subseteq> S" if "stored_times s \<subseteq> S" for S using assms(2) that by blast
  show "UpdateLogicTime (UpdateVectorTime u (vc s ! k)) (of_nat k) \<in> S"
    if "join_closed S" "\<And>t. t \<in> S \<Longrightarrow> UpdateLogicTime t (of_nat k) \<in> S" "stored_times s \<subseteq> S" "vc s ! k \<in> S" for S
    using assms(3) that join_closed_join by blast
  show "vt.dominated (vc s ! k) (UpdateLogicTime (UpdateVectorTime u (vc s ! k)) (of_nat k))"
    if "\<And>t. t \<in> stored_times s \<Longrightarrow> vt_inv t" "vt_inv (vc s ! k)"
    using assms(3) that vt.receive_dominates by blast
qed

section \<open>Every operation respects the flow\<close>

lemma stored_parts:
  "ccs_times (ra_sync s) \<subseteq> stored_times s" "(\<Union>q\<in>ran (getRlsBufMap s). set q) \<subseteq> stored_times s"
  "(\<Union>q\<in>ran (syncDB s). set q) \<subseteq> stored_times s" "set (pool (timeInfoPool s)) \<subseteq> stored_times s"
  by (auto simp: stored_times_def)

lemma stored_tick [simp]: "stored_times (tick k s) = stored_times s"
  by (simp add: stored_times_def tick_def)

lemma vc_tick [simp]: "k < length (vc s) \<Longrightarrow> vc (tick k s) ! k = UpdateLogicTime (vc s ! k) (of_nat k)"
  "vc (tick k s) = (vc s)[k := UpdateLogicTime (vc s ! k) (of_nat k)]"
  by (simp_all add: tick_def)

lemma stored_sync: "ccs_times c \<subseteq> S \<Longrightarrow> stored_times s \<subseteq> S \<Longrightarrow> stored_times (s\<lparr>ra_sync := c\<rparr>) \<subseteq> S"
  by (auto simp: stored_times_def)

lemma stored_irrelevant [simp]:
  "stored_times (s\<lparr>memChecker := m\<rparr>) = stored_times s" "stored_times (s\<lparr>vc := v\<rparr>) = stored_times s"
  "stored_times (s\<lparr>mstxSetCrossMap := mm\<rparr>) = stored_times s"
  by (simp_all add: stored_times_def)

lemma flow_record: "k < length (vc s) \<Longrightarrow> flow k s (snd (record_access junk e k s))"
  by (rule flow_publish) (simp_all add: record_access_def Let_def)

lemma flow_waited:
  assumes "r = (c', t', ok)" "ccs_times c' \<subseteq> ccs_times (ra_sync s)"
    and "t' = vc s ! k \<or> (\<exists>u\<in>ccs_times (ra_sync s). t' = UpdateVectorTime u (vc s ! k))"
  shows "flow k s (snd (waited k r s))"
proof (rule flow_receive)
  show "vc (snd (waited k r s)) = (vc s)[k := t']" using assms(1) by (simp add: waited_def)
  have "stored_times (s\<lparr>ra_sync := c'\<rparr>) \<subseteq> stored_times s" by (rule stored_sync) (use assms(2) stored_parts(1) in auto)
  then show "stored_times (snd (waited k r s)) \<subseteq> stored_times s" using assms(1) by (simp add: waited_def)
  show "t' = vc s ! k \<or> (\<exists>u\<in>stored_times s. t' = UpdateVectorTime u (vc s ! k))" using assms(3) stored_parts(1) by blast
qed

lemma flow_waits:
  "flow k s (snd (waited k (GetBlockSyncInfo f b (vc s ! k) (ra_sync s)) s))"
  "flow k s (snd (waited k (GetIntraBlockSyncInfo f b (vc s ! k) (ra_sync s)) s))"
  "flow k s (snd (waited k (GetMstxCrossInfo i (vc s ! k) (ra_sync s)) s))"
  using waits_shrink waits_receive flow_waited by (metis prod_cases3)+

lemma flow_BlockSync: 
  assumes "k < length (vc s)"
  shows "flow k s (snd (ProcessBlockSyncEvent ct e fi k s))"
proof (cases "ffts_opType fi = FFTS_SYNC")
  case True
  show ?thesis
  proof (rule flow_publish [OF assms])
    fix S assume S: "join_closed S" "stored_times s \<subseteq> S" "UpdateLogicTime (vc s ! k) (of_nat k) \<in> S"
    then have "ccs_times (ra_sync s) \<subseteq> S" using stored_parts(1) [of s] by blast
    then show "stored_times (snd (ProcessBlockSyncEvent ct e fi k s)) \<subseteq> S"
      using True S assms
      by (simp add: ProcessBlockSyncEvent_def Let_def tick_def stored_sync SetBlockSyncInfo_times)
  qed (use True in \<open>simp add: ProcessBlockSyncEvent_def Let_def tick_def\<close>)
qed (simp add: ProcessBlockSyncEvent_def Let_def flow_waits flow_refl)

lemma flow_Mstx:
  assumes "k < length (vc s)"
  shows "flow k s (snd (ProcessMstxCrossSyncEvent i k s))"
proof (cases "cross_opType i = MSTX_SET_CROSS")
  case True
  show ?thesis
  proof (rule flow_publish [OF assms])
    fix S assume S: "join_closed S" "stored_times s \<subseteq> S" "UpdateLogicTime (vc s ! k) (of_nat k) \<in> S"
    then have "ccs_times (ra_sync s) \<subseteq> S" using stored_parts(1) [of s] by blast
    then show "stored_times (snd (ProcessMstxCrossSyncEvent i k s)) \<subseteq> S"
      using True S assms
      by (simp add: ProcessMstxCrossSyncEvent_def Let_def tick_def stored_sync SetMstxCrossInfo_times)
  qed (use True in \<open>simp add: ProcessMstxCrossSyncEvent_def Let_def tick_def\<close>)
next
  case False
  let ?w = "waited k (GetMstxCrossInfo i (vc s ! k) (ra_sync s)) s"
  have upd: "flow k s (s'\<lparr>mstxSetCrossMap := m\<rparr>)" if "flow k s s'" for s' m
    using that by (simp add: flow_def)
  have "flow k s (snd ?w)" by (rule flow_waits)
  then show ?thesis
    using False upd [of "snd ?w"]
    by (cases ?w) (auto simp: ProcessMstxCrossSyncEvent_def Let_def flow_refl split: ReturnType.split option.split)
qed

text \<open>A release publishes the clock as it is; a blocking get receives every released time.\<close>

lemma fold_receive_flow:
  assumes "k < length (vc s)"
  shows "set ts \<subseteq> stored_times s \<Longrightarrow> flow k s (fold (\<lambda>t. receive t k) ts s)"
proof -
  have vcs: "vc (fold (\<lambda>t. receive t k) ts s) = (vc s)[k := fold UpdateVectorTime ts (vc s ! k)] \<and>
      stored_times (fold (\<lambda>t. receive t k) ts s) = stored_times s" if "k < length (vc s)" for s :: RaceAlgImpl
    using that by (induction ts arbitrary: s) (simp_all add: receive_def)
  assume ts: "set ts \<subseteq> stored_times s"
  show ?thesis
  proof (rule flowI)
    show "vc (fold (\<lambda>t. receive t k) ts s) = (vc s)[k := fold UpdateVectorTime ts (vc s ! k)]" using vcs [OF assms] by simp
    show "stored_times (fold (\<lambda>t. receive t k) ts s) \<subseteq> S" if "stored_times s \<subseteq> S" for S using vcs [OF assms] that by simp
    have mem: "fold UpdateVectorTime ts x \<in> S" if "join_closed S" "set ts \<subseteq> S" "x \<in> S" for S x
      using that by (induction ts arbitrary: x) (simp_all add: join_closed_join)
    show "fold UpdateVectorTime ts (vc s ! k) \<in> S" if "join_closed S" "stored_times s \<subseteq> S" "vc s ! k \<in> S" for S
      using mem that ts by blast
    have dom: "vt.dominated x (fold UpdateVectorTime ts x)" if "\<forall>t\<in>set ts. vt_inv t" "vt_inv x" for x
      using that
    proof (induction ts arbitrary: x)
      case (Cons t ts)
      then have "vt.dominated x (UpdateVectorTime t x)" "vt_inv (UpdateVectorTime t x)" using vt.join_dominates by auto
      then show ?case using Cons vt.dominated_trans by fastforce
    qed simp
    show "vt.dominated (vc s ! k) (fold UpdateVectorTime ts (vc s ! k))"
      if "\<And>t. t \<in> stored_times s \<Longrightarrow> vt_inv t" "vt_inv (vc s ! k)" using dom that ts by blast
  qed
qed

lemma flow_Buf:
  assumes "k < length (vc s)"
  shows "flow k s (snd (ProcessGetRlsBufSyncEvent ct e bi k s))"
proof -
  let ?key = "(GetEventBlockIndex e (ra_kernelType s) (ra_deviceType s) ct, bufId bi)"
  note m = stored_parts(2) [of s]
  have rls: "flow k s (s\<lparr>getRlsBufMap := (getRlsBufMap s)(?key \<mapsto> pending (getRlsBufMap s) ?key @ [vc s ! k])\<rparr>)"
  proof (rule flowI [of _ _ _ "vc s ! k"])
    fix S assume S: "stored_times s \<subseteq> S" "vc s ! k \<in> S"
    have "set (pending (getRlsBufMap s) ?key) \<subseteq> S"
      using queue_times [OF m, of ?key] S(1) by (cases "getRlsBufMap s ?key") (auto simp: pending_def)
    then have "(\<Union>q\<in>ran ((getRlsBufMap s)(?key \<mapsto> pending (getRlsBufMap s) ?key @ [vc s ! k])). set q) \<subseteq> S"
      by (intro queue_upd_times) (use m S in auto)
    then show "stored_times (s\<lparr>getRlsBufMap := (getRlsBufMap s)(?key \<mapsto> pending (getRlsBufMap s) ?key @ [vc s ! k])\<rparr>) \<subseteq> S"
      using S(1) unfolding stored_times_def by simp
  qed simp_all
  have get: "flow k s (fold (\<lambda>t. receive t k) ts s)" if "getRlsBufMap s ?key = Some ts" for ts
    by (rule fold_receive_flow [OF assms queue_times [OF m that]])
  show ?thesis
    using rls get by (auto simp: ProcessGetRlsBufSyncEvent_def Let_def flow_refl split: option.split)
qed

lemma flow_snapshot:
  assumes k: "k < length (vc s)" and p: "\<And>p. timeInfo e = Some p \<Longrightarrow> p < length (pool (timeInfoPool s))"
  shows "flow k s (snd (receive_snapshot e k s))"
proof (cases "timeInfo e")
  case None
  then show ?thesis by (intro flow_publish k) (simp_all add: receive_snapshot_def)
next
  case (Some p)
  show ?thesis
  proof (rule flow_receive_tick)
    show "vc (snd (receive_snapshot e k s)) =
        (vc s)[k := UpdateLogicTime (UpdateVectorTime (pool (timeInfoPool s) ! p) (vc s ! k)) (of_nat k)]"
      using k Some by (simp add: receive_snapshot_def tick_def receive_def FreeTimeInfo_def Let_def)
    show "stored_times (snd (receive_snapshot e k s)) \<subseteq> stored_times s"
      using Some by (simp add: receive_snapshot_def receive_def FreeTimeInfo_def TimeInfoPool_Free_def stored_times_def tick_def Let_def)
    show "pool (timeInfoPool s) ! p \<in> stored_times s" using p [OF Some] stored_parts(4) nth_mem by blast
  qed
qed

lemma flow_Sync:
  assumes k: "k < length (vc s)"
  shows "flow k s (snd (RaceAlgImpl_ProcessSyncEvent i k s))"
proof (cases "sync_opType i = SET_FLAG")
  case True
  note m = stored_parts(3) [of s]
  show ?thesis
  proof (rule flow_publish [OF k])
    fix S assume S: "stored_times s \<subseteq> S" "UpdateLogicTime (vc s ! k) (of_nat k) \<in> S"
    have "set (pending (syncDB s) (SyncEvent_of i)) \<subseteq> S"
      using queue_times [OF m, of "SyncEvent_of i"] S(1) by (cases "syncDB s (SyncEvent_of i)") (auto simp: pending_def)
    then have "(\<Union>q\<in>ran (SyncEventDataBase_Set (syncDB s) (SyncEvent_of i) (UpdateLogicTime (vc s ! k) (of_nat k))). set q) \<subseteq> S"
      unfolding SyncEventDataBase_Set_def by (intro queue_upd_times) (use m S in auto)
    then show "stored_times (snd (RaceAlgImpl_ProcessSyncEvent i k s)) \<subseteq> S"
      using True S(1) k
      by (simp add: RaceAlgImpl_ProcessSyncEvent_def flow_def flag_step_def Let_def stored_times_def tick_def)
  qed (use True in \<open>simp add: RaceAlgImpl_ProcessSyncEvent_def flag_step_def Let_def tick_def\<close>)
next
  case False
  show ?thesis
  proof (cases "sync_opType i = WAIT_FLAG")
    case wait: True
    show ?thesis
    proof (cases "\<exists>u q. syncDB s (SyncEvent_of i) = Some (u # q)")
      case True
      then obtain u q where uq: "syncDB s (SyncEvent_of i) = Some (u # q)" by blast
      have eq: "snd (RaceAlgImpl_ProcessSyncEvent i k s) = (tick k (receive u k s))\<lparr>syncDB := (syncDB s)(SyncEvent_of i \<mapsto> q)\<rparr>"
        using wait uq False by (simp add: RaceAlgImpl_ProcessSyncEvent_def flag_step_def Let_def SyncEventDataBase_Get_def)
      show ?thesis unfolding eq
      proof (rule flow_receive_tick)
        show "u \<in> stored_times s" using queue_times [OF stored_parts(3) uq] by simp
        have "(\<Union>q\<in>ran ((syncDB s)(SyncEvent_of i \<mapsto> q)). set q) \<subseteq> stored_times s"
          by (intro queue_upd_times stored_parts(3)) (use queue_times [OF stored_parts(3) uq] in auto)
        then show "stored_times ((tick k (receive u k s))\<lparr>syncDB := (syncDB s)(SyncEvent_of i \<mapsto> q)\<rparr>) \<subseteq> stored_times s"
          using stored_parts [of s] by (simp add: stored_times_def [of "_\<lparr>syncDB := _\<rparr>"] tick_def receive_def)
      qed (use k in \<open>simp add: tick_def receive_def\<close>)
    next
      case none: False
      then have "snd (RaceAlgImpl_ProcessSyncEvent i k s) = s"
        using wait by (auto simp: RaceAlgImpl_ProcessSyncEvent_def flag_step_def Let_def SyncEventDataBase_Get_def
            split: option.split list.split)
      then show ?thesis by (simp add: flow_refl)
    qed
  qed (use False in \<open>simp add: RaceAlgImpl_ProcessSyncEvent_def flag_step_def Let_def flow_refl\<close>)
qed

lemma Alloc_pool: "set (pool (fst (TimeInfoPool_Alloc tp v))) \<subseteq> insert v (set (pool tp))"
  using set_update_subset_insert [of "pool tp" "last (freeList tp)" v] by (auto simp: TimeInfoPool_Alloc_def Let_def)

lemma flow_launch:
  assumes k: "k < length (vc s)"
  shows "flow k s (fst (launch hdr e k s))"
proof (rule flow_publish [OF k])
  let ?t = "UpdateLogicTime (vc s ! k) (of_nat k)"
  have eq: "fst (launch hdr e k s) = (tick k s)\<lparr>timeInfoPool := fst (TimeInfoPool_Alloc (timeInfoPool s) ?t)\<rparr>"
    using k by (simp add: launch_def AllocTimeInfo_def Let_def tick_def case_prod_unfold)
  then show "vc (fst (launch hdr e k s)) = (vc s)[k := ?t]" by simp
  fix S assume "stored_times s \<subseteq> S" "?t \<in> S"
  then show "stored_times (fst (launch hdr e k s)) \<subseteq> S"
    unfolding eq using Alloc_pool [of "timeInfoPool s" ?t] by (auto simp: stored_times_def tick_def)
qed

lemma flow_dispatch:
  assumes "k < length (vc s)" "\<And>p. timeInfo e = Some p \<Longrightarrow> p < length (pool (timeInfoPool s))"
  shows "flow k s (snd (RaceAlgImpl_dispatch junk e k s))"
  by (cases "eventInfo e")
     (simp_all add: core_dispatch_defs flow_refl flow_Sync flow_record flow_snapshot flow_BlockSync flow_Mstx flow_Buf assms)

section \<open>Runs\<close>

text \<open>
  The steps the pipeline takes with the core algorithm, in any order: queue \<open>k\<close> launches an event,
  or handles one of its own. A snapshot event points into the pool.
\<close>

inductive core_step :: "MemOpInfo \<Rightarrow> nat \<Rightarrow> RaceAlgImpl \<Rightarrow> RaceAlgImpl \<Rightarrow> bool" for junk where
  launches: "k < length (vc s) \<Longrightarrow> core_step junk k s (fst (launch (\<lambda>_. SanEvent_new) e k s))"
| dispatches: "k < length (vc s) \<Longrightarrow> (\<And>p. timeInfo e = Some p \<Longrightarrow> p < length (pool (timeInfoPool s))) \<Longrightarrow>
     core_step junk k s (snd (RaceAlgImpl_dispatch junk e k s))"

inductive core_run :: "MemOpInfo \<Rightarrow> nat set \<Rightarrow> RaceAlgImpl \<Rightarrow> RaceAlgImpl \<Rightarrow> bool" for junk K where
  here: "core_run junk K s s"
| further: "core_run junk K s s' \<Longrightarrow> k \<in> K \<Longrightarrow> core_step junk k s' s'' \<Longrightarrow> core_run junk K s s''"

lemma core_step_flow: "core_step junk k s s' \<Longrightarrow> k < length (vc s) \<and> flow k s s'"
  by (induction rule: core_step.induct) (simp_all add: flow_launch flow_dispatch)

text \<open>
  The invariant of the clocks: every time is well-formed, and no time knows more of a queue than the
  queue itself.
\<close>

definition clocks_ok :: "RaceAlgImpl \<Rightarrow> bool" where
  "clocks_ok s \<longleftrightarrow> length (vc s) \<le> 2 ^ 32 \<and>
     (\<forall>t\<in>stored_times s \<union> set (vc s). vt_inv t \<and> (\<forall>i<length (vc s). clock t (of_nat i) \<le> clock (vc s ! i) (of_nat i)))"

lemma bounded_closed: "join_closed {t. vt_inv t \<and> clock t i \<le> v}" if "1 \<le> v"
  using that by (auto simp: join_closed_def UpdateVectorTime_clock)

lemma of_nat_32_inj: "i < n \<Longrightarrow> j < n \<Longrightarrow> n \<le> 2 ^ 32 \<Longrightarrow> (of_nat i :: u32) = of_nat j \<longleftrightarrow> i = j"
  by (metis less_le_trans unat_of_nat_32)

lemma clocks_ok_step:
  assumes ok: "clocks_ok s" and step: "core_step junk k s s'"
  shows "clocks_ok s'" "length (vc s') = length (vc s)"
    "\<And>i. i < length (vc s) \<Longrightarrow> vt.dominated (vc s ! i) (vc s' ! i)" "\<And>i. i \<noteq> k \<Longrightarrow> vc s' ! i = vc s ! i"
proof -
  have k: "k < length (vc s)" and fl: "flow k s s'" using core_step_flow [OF step] by simp_all
  obtain x where x: "vc s' = (vc s)[k := x]"
    and pub0: "\<forall>S. join_closed S \<longrightarrow> stored_times s \<subseteq> S \<longrightarrow> vc s ! k \<in> S \<longrightarrow> x \<in> S \<longrightarrow> stored_times s' \<subseteq> S"
    and rcv0: "\<forall>S. join_closed S \<longrightarrow> (\<forall>t\<in>S. UpdateLogicTime t (of_nat k) \<in> S) \<longrightarrow> stored_times s \<subseteq> S \<longrightarrow> vc s ! k \<in> S \<longrightarrow> x \<in> S"
    and dom0: "(\<forall>t\<in>stored_times s. vt_inv t) \<longrightarrow> vt_inv (vc s ! k) \<longrightarrow> vt.dominated (vc s ! k) x"
    using fl unfolding flow_def by (elim exE conjE) (rule that)
  note pub = pub0 [rule_format] and rcv = rcv0 [rule_format] and dom = dom0 [rule_format]
  have n: "length (vc s) \<le> 2 ^ 32" and inv: "\<And>t. t \<in> stored_times s \<union> set (vc s) \<Longrightarrow> vt_inv t"
    and below: "\<And>t i. t \<in> stored_times s \<union> set (vc s) \<Longrightarrow> i < length (vc s) \<Longrightarrow> clock t (of_nat i) \<le> clock (vc s ! i) (of_nat i)"
    using ok by (auto simp: clocks_ok_def)
  have vk: "vc s ! k \<in> set (vc s)" using k by simp
  show len: "length (vc s') = length (vc s)" using x by simp
  show other: "vc s' ! i = vc s ! i" if "i \<noteq> k" for i using x that by simp
  have dk: "vt.dominated (vc s ! k) x" using dom inv vk by blast
  show mono: "vt.dominated (vc s ! i) (vc s' ! i)" if "i < length (vc s)" for i
    using dk x k by (cases "i = k") simp_all
  have xinv: "vt_inv x" using rcv [OF vt_inv_closed] inv vk by blast
  have sinv: "vt_inv t" if "t \<in> stored_times s'" for t
    using pub [OF vt_inv_closed] inv vk xinv that by blast
  have bound: "vt_inv t \<and> clock t (of_nat i) \<le> clock (vc s' ! i) (of_nat i)"
    if i: "i < length (vc s)" and t: "t \<in> stored_times s' \<union> set (vc s')" for i t
  proof -
    let ?i = "of_nat i :: u32" let ?v = "clock (vc s' ! i) ?i"
    let ?S = "{t. vt_inv t \<and> clock t ?i \<le> ?v}"
    have up: "clock (vc s ! i) ?i \<le> ?v" using mono [OF i] by (simp add: vt.dominated_def)
    have "1 \<le> ?v" using up clock_ge [of "vc s ! i" ?i] inv [of "vc s ! i"] i by simp
    then have S: "join_closed ?S" by (rule bounded_closed)
    have old: "stored_times s \<union> set (vc s) \<subseteq> ?S"
      using inv order.trans [OF below [OF _ i] up] by simp blast
    have xS: "x \<in> ?S"
    proof (cases "i = k")
      case True
      then show ?thesis using xinv x k by simp
    next
      case False
      then have "?i \<noteq> of_nat k" using of_nat_32_inj [OF i k n] by simp
      then show ?thesis using old vk by (intro rcv [OF S]) (auto simp: UpdateLogicTime_clock)
    qed
    have "stored_times s' \<subseteq> ?S" using pub [OF S _ _ xS] old vk by blast
    moreover have "set (vc s') \<subseteq> insert x (set (vc s))" by (simp add: x set_update_subset_insert)
    then have "set (vc s') \<subseteq> ?S" using xS old by blast
    ultimately show ?thesis using t by blast
  qed
  have "vt_inv t" if "t \<in> stored_times s' \<union> set (vc s')" for t using bound [OF k that] by simp
  then show "clocks_ok s'" using n len bound by (simp add: clocks_ok_def)
qed

lemma clocks_ok_run:
  assumes "core_run junk K s s'" "clocks_ok s"
  shows "clocks_ok s' \<and> length (vc s') = length (vc s) \<and>
     (\<forall>i<length (vc s). vt.dominated (vc s ! i) (vc s' ! i)) \<and> (\<forall>i. i \<notin> K \<longrightarrow> vc s' ! i = vc s ! i)"
  using assms
proof (induction rule: core_run.induct)
  case (further s s' k s'')
  then have ih: "clocks_ok s'" "length (vc s') = length (vc s)" "\<forall>i<length (vc s). vt.dominated (vc s ! i) (vc s' ! i)"
      "\<forall>i. i \<notin> K \<longrightarrow> vc s' ! i = vc s ! i" by simp_all
  note st = clocks_ok_step [OF ih(1) further.hyps(3)]
  show ?case using ih st further.hyps(2) vt.dominated_trans by (metis (no_types, lifting))
qed simp

text \<open>The state of the constructor satisfies the invariant.\<close>

lemma clocks_ok_new:
  assumes "RaceAlgImpl_blocks kt dt n * 12 \<le> 2 ^ 32"
  shows "clocks_ok (fst (RaceAlgImpl_new kt dt n))"
proof -
  let ?s = "fst (RaceAlgImpl_new kt dt n)" and ?b = "RaceAlgImpl_blocks kt dt n"
  have f: "vc ?s = replicate (?b * 12) VectorTime_new" "ra_sync ?s = CrossCoreSync_Init ?b kt" "getRlsBufMap ?s = Map.empty"
      "syncDB ?s = Map.empty" "pool (timeInfoPool ?s) = []"
    by (simp_all add: RaceAlgImpl_new_def Let_def RaceAlgBase_fields_def RaceAlgBase.defs RaceAlgImpl.defs)
  have "ccs_times (CrossCoreSync_Init ?b kt) = {}"
    by (auto simp: ccs_times_def CrossCoreSync_Init_def slot_times_def BlockSyncInfo_new_def BlockSoftSyncInfo_new_def)
  then show ?thesis using assms by (auto simp: clocks_ok_def stored_times_def f)
qed

lemma record_vt:
  assumes "k < length (vc s)"
  shows "ev_vt (last (mec_events (memChecker (snd (record_access junk e k s))))) = UpdateLogicTime (vc s ! k) (of_nat k)"
    "vc (snd (record_access junk e k s)) = (vc s)[k := UpdateLogicTime (vc s ! k) (of_nat k)]"
    "stored_times (snd (record_access junk e k s)) = stored_times s"
  using assms by (simp_all add: record_access_def PushEvent_def Let_def)

lemma record_step:
  assumes "k < length (vc s)" "clocks_ok s"
  shows "clocks_ok (snd (record_access junk e k s))" "length (vc (snd (record_access junk e k s))) = length (vc s)"
    "\<And>i. i < length (vc s) \<Longrightarrow> vt.dominated (vc s ! i) (vc (snd (record_access junk e k s)) ! i)"
proof -
  let ?e = "SanEvent_new\<lparr>eventInfo := MEM_EVENT junk\<rparr>"
  have "core_step junk k s (snd (RaceAlgImpl_dispatch junk ?e k s))"
    by (rule dispatches) (use assms in \<open>simp_all add: SanEvent_new_def\<close>)
  then have c: "core_step junk k s (snd (record_access junk ?e k s))" by (simp add: core_dispatch_defs)
  have eq: "vc (snd (record_access junk e k s)) = vc (snd (record_access junk ?e k s))"
      "stored_times (snd (record_access junk e k s)) = stored_times (snd (record_access junk ?e k s))"
    using assms(1) by (simp_all add: record_vt)
  note st = clocks_ok_step [OF assms(2) c]
  show "clocks_ok (snd (record_access junk e k s))" using st(1) eq by (simp add: clocks_ok_def)
  show "length (vc (snd (record_access junk e k s))) = length (vc s)" using st(2) eq by simp
  show "vt.dominated (vc s ! i) (vc (snd (record_access junk e k s)) ! i)" if "i < length (vc s)" for i
    using st(3) [OF that] eq by simp
qed

lemma sync_step:
  assumes "k < length (vc s)"
  shows "core_step junk k s (snd (RaceAlgImpl_ProcessSyncEvent f k s))"
proof -
  have "core_step junk k s (snd (RaceAlgImpl_dispatch junk (SanEvent_new\<lparr>eventInfo := SYNC_EVENT f\<rparr>) k s))"
    by (rule dispatches) (use assms in \<open>simp_all add: SanEvent_new_def\<close>)
  then show ?thesis by (simp add: core_dispatch_defs)
qed

lemma clocks_inv: "clocks_ok s \<Longrightarrow> k < length (vc s) \<Longrightarrow> vt_inv (vc s ! k)"
  by (simp add: clocks_ok_def)

text \<open>Times that other queues can hold of queue \<open>i\<close> while \<open>i\<close> does nothing.\<close>

definition confined :: "nat \<Rightarrow> u32 \<Rightarrow> RaceAlgImpl \<Rightarrow> bool" where
  "confined i v s \<longleftrightarrow> (\<forall>t\<in>stored_times s \<union> {vc s ! l | l. l < length (vc s) \<and> l \<noteq> i}. vt_inv t \<and> clock t (of_nat i) \<le> v)"

lemma confined_step:
  assumes c: "confined i v s" and step: "core_step junk k s s'" and ne: "k \<noteq> i" and i: "i < length (vc s)"
    and n: "length (vc s) \<le> 2 ^ 32" and v: "1 \<le> v"
  shows "confined i v s' \<and> length (vc s') = length (vc s)"
proof -
  let ?i = "of_nat i :: u32" let ?S = "{t. vt_inv t \<and> clock t ?i \<le> v}"
  have k: "k < length (vc s)" and fl: "flow k s s'" using core_step_flow [OF step] by simp_all
  obtain x where x: "vc s' = (vc s)[k := x]"
    and pub: "\<forall>S. join_closed S \<longrightarrow> stored_times s \<subseteq> S \<longrightarrow> vc s ! k \<in> S \<longrightarrow> x \<in> S \<longrightarrow> stored_times s' \<subseteq> S"
    and rcv: "\<forall>S. join_closed S \<longrightarrow> (\<forall>t\<in>S. UpdateLogicTime t (of_nat k) \<in> S) \<longrightarrow> stored_times s \<subseteq> S \<longrightarrow> vc s ! k \<in> S \<longrightarrow> x \<in> S"
    using fl unfolding flow_def by (elim exE conjE) (rule that)
  have S: "join_closed ?S" by (rule bounded_closed [OF v])
  have old: "stored_times s \<subseteq> ?S" "vc s ! k \<in> ?S" using c k ne by (auto simp: confined_def)
  have "?i \<noteq> of_nat k" using of_nat_32_inj [OF i k n] ne by simp
  then have "\<forall>t\<in>?S. UpdateLogicTime t (of_nat k) \<in> ?S" by (auto simp: UpdateLogicTime_clock)
  then have xS: "x \<in> ?S" using rcv S old by blast
  moreover have "stored_times s' \<subseteq> ?S" using pub S old xS by blast
  moreover have "vc s' ! l \<in> ?S" if "l < length (vc s)" "l \<noteq> i" for l
    using that xS c by (cases "l = k") (auto simp: x confined_def)
  ultimately have "confined i v s'" unfolding confined_def by (auto simp: x)
  then show ?thesis by (simp add: x)
qed

lemma confined_run:
  assumes "core_run junk (- {i}) s s'" "confined i v s" "i < length (vc s)" "length (vc s) \<le> 2 ^ 32" "1 \<le> v"
  shows "confined i v s' \<and> length (vc s') = length (vc s)"
  using assms
proof (induction rule: core_run.induct)
  case (further s s' k s'')
  then have "confined i v s'" "length (vc s') = length (vc s)" by simp_all
  then show ?case using confined_step [of i v s' junk k s''] further by simp
qed simp

section \<open>Properties\<close>

text \<open>
  C2. Accesses ordered by a flag are never reported: an access on queue \<open>i\<close>, then \<open>set_flag\<close> on
  \<open>i\<close>, then the \<open>wait_flag\<close> on queue \<open>j\<close> that takes this flag, then an access on \<open>j\<close>, with any steps
  of any queues in between, get times for which \<open>IsNotHappensBefore\<close> is false at every pair of
  components. The state before is any state the algorithm can reach.
\<close>
theorem flagged_accesses_ordered:
  assumes "RaceAlgImpl_blocks kt dt n * 12 \<le> 2 ^ 32" "core_run junk UNIV (fst (RaceAlgImpl_new kt dt n)) s0"
    and "i < length (vc s0)" "j < length (vc s0)"
    and s1: "s1 = snd (record_access junk e1 i s0)" and r12: "core_run junk UNIV s1 s2"
    and set: "sync_opType fs = SET_FLAG" "s3 = snd (RaceAlgImpl_ProcessSyncEvent fs i s2)" and r34: "core_run junk UNIV s3 s4"
    and wait: "sync_opType fw = WAIT_FLAG" "RaceAlgImpl_ProcessSyncEvent fw j s4 = (PROCESS_OK, s5)"
      "pending (syncDB s4) (SyncEvent_of fw) = vc s3 ! i # rest"
    and r56: "core_run junk UNIV s5 s6" and s7: "s7 = snd (record_access junk e2 j s6)"
  shows "\<not> IsNotHappensBefore (ev_vt (last (mec_events (memChecker s1)))) (ev_vt (last (mec_events (memChecker s7)))) p q"
proof -
  note i = assms(3) and j = assms(4)
  have c0: "clocks_ok s0" using clocks_ok_run [OF assms(2) clocks_ok_new [OF assms(1)]] by simp
  have c1: "clocks_ok s1" "length (vc s1) = length (vc s0)" using record_step [OF i c0] s1 by simp_all
  have c2: "clocks_ok s2" "length (vc s2) = length (vc s0)" "vt.dominated (vc s1 ! i) (vc s2 ! i)"
    using clocks_ok_run [OF r12 c1(1)] c1(2) i by simp_all
  have "core_step junk i s2 s3" using sync_step [of i s2 junk fs] i c2(2) set(2) by simp
  note st3 = clocks_ok_step [OF c2(1) this]
  have c3: "clocks_ok s3" "length (vc s3) = length (vc s0)" "vt.dominated (vc s2 ! i) (vc s3 ! i)"
    using st3(1,2) st3(3) [of i] c2(2) i by simp_all
  have c4: "clocks_ok s4" "length (vc s4) = length (vc s0)" using clocks_ok_run [OF r34 c3(1)] c3(2) by simp_all
  have s5: "s5 = snd (RaceAlgImpl_ProcessSyncEvent fw j s4)" using wait(2) by simp
  have "core_step junk j s4 s5" using sync_step [of j s4 junk fw] j c4(2) s5 by simp
  note st5 = clocks_ok_step [OF c4(1) this]
  have c5: "clocks_ok s5" "length (vc s5) = length (vc s0)" using st5(1,2) c4(2) by simp_all
  have inv3: "vt_inv (vc s3 ! i)" "vt_inv (vc s4 ! j)" using clocks_inv c3 c4 i j by simp_all
  have "vc s5 ! j = UpdateLogicTime (UpdateVectorTime (vc s3 ! i) (vc s4 ! j)) (of_nat j)"
    using wait(1,3) j c4(2) unfolding s5
    by (auto simp: RaceAlgImpl_ProcessSyncEvent_def flag_step_def Let_def SyncEventDataBase_Get_def pending_def tick_def
        receive_def split: option.splits)
  then have d35: "vt.dominated (vc s3 ! i) (vc s5 ! j)" using vt.receive_dominates [OF inv3] by simp
  have c6: "clocks_ok s6" "length (vc s6) = length (vc s0)" "vt.dominated (vc s5 ! j) (vc s6 ! j)"
    using clocks_ok_run [OF r56 c5(1)] c5(2) j by simp_all
  have c7: "clocks_ok s7" "length (vc s7) = length (vc s0)" "vt.dominated (vc s6 ! j) (vc s7 ! j)"
    using record_step [of j s6] c6 j s7 by simp_all
  have t1: "ev_vt (last (mec_events (memChecker s1))) = vc s1 ! i" and t7: "ev_vt (last (mec_events (memChecker s7))) = vc s7 ! j"
    using record_vt(1,2) i j c6(2) s1 s7 by simp_all
  have "vt.dominated (vc s1 ! i) (vc s7 ! j)"
    using c2(3) c3(3) d35 c6(3) c7(3) vt.dominated_trans by blast
  then show ?thesis
    unfolding t1 t7 using IsNotHappensBefore_concurrent clocks_inv c1 c7(1,2) i j vt.dominated_not_concurrent by metis
qed

text \<open>
  C3. Accesses without synchronisation are always reported: an access on queue \<open>i\<close>, then any steps of
  other queues, then an access on queue \<open>j\<close>, get times for which \<open>IsNotHappensBefore\<close> is true,
  unless one of the two logical times had reached the largest 32-bit value and stopped.
\<close>
theorem unsynchronised_accesses_concurrent:
  assumes "RaceAlgImpl_blocks kt dt n * 12 \<le> 2 ^ 32" "core_run junk UNIV (fst (RaceAlgImpl_new kt dt n)) s0"
    and "i < length (vc s0)" "j < length (vc s0)" "i \<noteq> j"
    and s1: "s1 = snd (record_access junk e1 i s0)" and r12: "core_run junk (- {i}) s1 s2"
    and s3: "s3 = snd (record_access junk e2 j s2)"
    and "clock (vc s0 ! i) (of_nat i) \<noteq> - 1" "clock (vc s2 ! j) (of_nat j) \<noteq> - 1"
  shows "IsNotHappensBefore (ev_vt (last (mec_events (memChecker s1)))) (ev_vt (last (mec_events (memChecker s3)))) (of_nat i) (of_nat j)"
proof -
  note i = assms(3) and j = assms(4) and ij = assms(5)
  let ?i = "of_nat i :: u32" and ?j = "of_nat j :: u32"
  have c0: "clocks_ok s0" using clocks_ok_run [OF assms(2) clocks_ok_new [OF assms(1)]] by simp
  then have n: "length (vc s0) \<le> 2 ^ 32" and inv0: "vt_inv (vc s0 ! i)" using clocks_inv i by (auto simp: clocks_ok_def)
  have c1: "clocks_ok s1" "length (vc s1) = length (vc s0)" using record_step [OF i c0] s1 by simp_all
  have c2: "clocks_ok s2" "length (vc s2) = length (vc s0)" "vt.dominated (vc s1 ! j) (vc s2 ! j)"
    using clocks_ok_run [OF r12 c1(1)] c1(2) j by simp_all
  have "confined i (clock (vc s0 ! i) ?i) s1"
    using c0 i ij s1 record_vt(2,3) [OF i] by (auto simp: confined_def clocks_ok_def)
  then have "confined i (clock (vc s0 ! i) ?i) s2"
    using confined_run [OF r12] i n c1(2) clock_ge [OF inv0] by simp
  then have below: "clock (vc s2 ! j) ?i \<le> clock (vc s0 ! i) ?i" using j c2(2) ij by (auto simp: confined_def)
  have "clock (vc s0 ! i) ?j \<le> clock (vc s0 ! j) ?j" using c0 i j by (simp add: clocks_ok_def)
  also have "clock (vc s0 ! j) ?j \<le> clock (vc s2 ! j) ?j"
    using c2(3) record_vt(2) [OF i] s1 ij by (simp add: vt.dominated_def)
  finally have "vt.concurrent (UpdateLogicTime (vc s0 ! i) ?i) (UpdateLogicTime (vc s2 ! j) ?j) ?i ?j"
    using vt.unsynchronised_concurrent [OF inv0 clocks_inv [OF c2(1)], of j ?i ?j] of_nat_32_inj [OF i j n] ij below assms(9,10) j c2(2)
    by simp
  moreover have "vt_inv (UpdateLogicTime (vc s0 ! i) ?i)" "vt_inv (UpdateLogicTime (vc s2 ! j) ?j)"
    using inv0 clocks_inv [OF c2(1), of j] j c2(2) by auto
  ultimately show ?thesis
    using IsNotHappensBefore_concurrent record_vt(1) [OF i] record_vt(1) [of j s2] j c2(2) s1 s3 by simp
qed

definition core0 :: RaceAlgImpl where
  "core0 = fst (RaceAlgImpl_new KT_AIVEC ASCEND_910B1 1)"

lemma core0_vc: "length (vc core0) = 12" "RaceAlgImpl_blocks KT_AIVEC ASCEND_910B1 1 = 1" "syncDB core0 = Map.empty"
  "vc core0 = replicate 12 VectorTime_new"
  by (simp_all add: core0_def RaceAlgImpl_new_def RaceAlgImpl_blocks_def NeedExpandBlockDim_def Let_def RaceAlgBase_fields_def
      RaceAlgBase.defs RaceAlgImpl.defs)

definition core1 :: RaceAlgImpl where
  "core1 = snd (record_access (sample_info READ) (access_event PIPE_V WRITE) 1 core0)"

definition core2 :: RaceAlgImpl where
  "core2 = snd (RaceAlgImpl_ProcessSyncEvent (sample_flag SET_FLAG) 1 core1)"

definition core3 :: RaceAlgImpl where
  "core3 = snd (RaceAlgImpl_ProcessSyncEvent (sample_flag WAIT_FLAG) 5 core2)"

lemma core_flag:
  "pending (syncDB core2) (SyncEvent_of (sample_flag WAIT_FLAG)) = [vc core2 ! 1]"
  "RaceAlgImpl_ProcessSyncEvent (sample_flag WAIT_FLAG) 5 core2 = (PROCESS_OK, core3)"
proof -
  have k: "SyncEvent_of (sample_flag WAIT_FLAG) = SyncEvent_of (sample_flag SET_FLAG)"
    by (simp add: SyncEvent_of_def sample_flag_def)
  have len: "length (vc core1) = 12" and db: "syncDB core1 = Map.empty"
    using core0_vc by (simp_all add: core1_def record_access_def Let_def) (simp add: tick_def)
  have c2: "syncDB core2 = [SyncEvent_of (sample_flag SET_FLAG) \<mapsto> [vc core2 ! 1]]"
    using len db
    by (simp add: core2_def RaceAlgImpl_ProcessSyncEvent_def flag_step_def sample_flag_def [of SET_FLAG] Let_def
        SyncEventDataBase_Set_def pending_def)
  then show "pending (syncDB core2) (SyncEvent_of (sample_flag WAIT_FLAG)) = [vc core2 ! 1]" by (simp add: k pending_def)
  show "RaceAlgImpl_ProcessSyncEvent (sample_flag WAIT_FLAG) 5 core2 = (PROCESS_OK, core3)"
    using c2 k
    by (simp add: core3_def RaceAlgImpl_ProcessSyncEvent_def flag_step_def Let_def SyncEventDataBase_Get_def sample_flag_def)
qed

theorem flagged_accesses_ordered_witness:
  "\<not> IsNotHappensBefore (ev_vt (last (mec_events (memChecker core1))))
     (ev_vt (last (mec_events (memChecker (snd (record_access (sample_info READ) (access_event PIPE_MTE3 READ) 5 core3)))))) 1 5"
  by (rule flagged_accesses_ordered [where n = 1 and kt = KT_AIVEC and dt = ASCEND_910B1, OF _ _ _ _ core1_def here _ core2_def here _
        core_flag(2,1) here refl])
     (simp_all add: core0_vc sample_flag_def here core0_def [symmetric] del: One_nat_def)

theorem unsynchronised_accesses_concurrent_witness:
  "IsNotHappensBefore (ev_vt (last (mec_events (memChecker core1))))
     (ev_vt (last (mec_events (memChecker (snd (record_access (sample_info READ) (access_event PIPE_MTE3 READ) 5 core1)))))) 1 5"
proof -
  have vc1: "vc core1 ! 5 = VectorTime_new" using core0_vc by (simp add: core1_def record_vt nth_list_update)
  show ?thesis
    using unsynchronised_accesses_concurrent [where n = 1 and kt = KT_AIVEC and dt = ASCEND_910B1 and i = 1 and j = 5 and
        junk = "sample_info READ", OF _ _ _ _ _ core1_def here refl]
    by (simp add: core0_vc here core0_def [symmetric] vc1 del: One_nat_def)
qed

end
