(* ===== verification/RaceAlgCorrect.thy ===== *)
theory RaceAlgCorrect
  imports RaceAlg
begin

text \<open>
  Properties of the race check inside one core: both of its stages return on every input, a replay
  that ends early is a real deadlock, a complete replay records every access of the kernel in
  program order, and accesses ordered by a flag between two pipes get ordered times.
\<close>

section \<open>Feeding events\<close>

lemma CacheMstxCrossSet_quiet: "quiet s (CacheMstxCrossSet e s)"
  by (simp add: CacheMstxCrossSet_def quiet_def Let_def split: EventInfo.split)

lemma core_feed:
  assumes "\<forall>e\<in>set es. \<not> is_finish e"
  shows "\<exists>s'. quiet s s' \<and> feed (RaceAlgImpl_Do iter cfg names junk) es (s, c) =
     Some (s', load (\<lambda>e. GetEventBlockIndex e (ra_kernelType s) (ra_deviceType s) SINGLE_BLOCK_CHECK) c es)"
  using assms
proof (induction es arbitrary: s c)
  case (Cons e es)
  have q: "quiet s (CacheMstxCrossSet e s)" by (rule CacheMstxCrossSet_quiet)
  then have eq: "ra_kernelType (CacheMstxCrossSet e s) = ra_kernelType s" "ra_deviceType (CacheMstxCrossSet e s) = ra_deviceType s"
    by (simp_all add: quiet_def)
  obtain s' where s': "quiet (CacheMstxCrossSet e s) s'"
      "feed (RaceAlgImpl_Do iter cfg names junk) es (CacheMstxCrossSet e s,
         EventContainer_Push c e PIPE_S (GetEventBlockIndex e (ra_kernelType s) (ra_deviceType s) SINGLE_BLOCK_CHECK) 0) =
       Some (s', load (\<lambda>e. GetEventBlockIndex e (ra_kernelType s) (ra_deviceType s) SINGLE_BLOCK_CHECK)
         (EventContainer_Push c e PIPE_S (GetEventBlockIndex e (ra_kernelType s) (ra_deviceType s) SINGLE_BLOCK_CHECK) 0) es)"
    using Cons.IH [of "CacheMstxCrossSet e s"] Cons.prems eq by auto
  moreover have "quiet s s'" using q s'(1) by (simp add: quiet_def)
  moreover have "RaceAlgImpl_Do iter cfg names junk e (s, c) = Some (CacheMstxCrossSet e s,
      EventContainer_Push c e PIPE_S (GetEventBlockIndex e (ra_kernelType s) (ra_deviceType s) SINGLE_BLOCK_CHECK) 0)"
    using Cons.prems by (simp add: RaceAlgImpl_Do_def Let_def eq)
  ultimately show ?case by (auto simp: load_def)
qed (auto simp: load_def)

lemma RaceAlgImpl_new_fields:
  "snd (RaceAlgImpl_new kt dt n) = EventContainer_Init (RaceAlgImpl_blocks kt dt n) 1"
  "ra_kernelType (fst (RaceAlgImpl_new kt dt n)) = kt" "ra_deviceType (fst (RaceAlgImpl_new kt dt n)) = dt"
  "accesses (fst (RaceAlgImpl_new kt dt n)) = []"
  by (simp_all add: RaceAlgImpl_new_def Let_def RaceAlgBase_fields_def RaceAlgBase.defs RaceAlgImpl.defs accesses_def
      MemEventChecker_Init_def MemEventChecker_new_def)

section \<open>The replay\<close>

context pure_launching_handler
begin

lemma exception_stalled:
  assumes n: "0 < n" and es: "\<forall>e\<in>set es. pipe e \<noteq> PIPE_SIZE"
    and run: "PipeLine_Run (Some h) (PipeLine_new s (load block (EventContainer_Init n 1) es)) = Some r"
  shows "pipeState r = EXIT \<and> EventContainer_IsEmpty (events r) \<or>
     pipeState r = EXCEPTION \<and> \<not> EventContainer_IsEmpty (events r) \<and>
     (\<forall>d b p. in_range (events r) d b p \<longrightarrow> queued (events r) d b p \<noteq> [] \<longrightarrow>
        fst (dispatch (hd (queued (events r) d b p)) (FlattenPipeIdx (events r) p b d) (client r)) = PROCESS_STALLED)"
proof -
  let ?c = "load block (EventContainer_Init n 1) es"
  note inv = loaded_inv(1) [OF n es, of s block]
  note f = same_frame_fields [OF load_queued(2) [OF n, of block es]]
  have st: "stuck_inv (PipeLine_new s ?c)"
    by (rule stuck_inv_new) (use f in \<open>simp_all add: EventContainer_Init_def\<close>)
  have "fst (dispatch (hd (queued (events r) d b p)) (FlattenPipeIdx (events r) p b d) (client r)) = PROCESS_STALLED"
    if "pipeState r = EXCEPTION" "in_range (events r) d b p" "queued (events r) d b p \<noteq> []" for d b p
  proof -
    let ?e = "hd (queued (events r) d b p)" and ?at = "at_position (events r) d b p"
    have h: "fst (h ?e (client r, ?at)) = PROCESS_STALLED"
      using Run_exception_blocked [OF inv st run that(1,2)] that(3) by (simp add: blocked_def)
    have own: "\<not> (movable ?e \<and> GetPipeIndex ?at \<noteq> pipe ?e)"
    proof
      assume "movable ?e \<and> GetPipeIndex ?at \<noteq> pipe ?e"
      then show False using h_launch [of ?e ?at "client r"] h by simp
    qed
    have "GetQueIndex ?at = FlattenPipeIdx (events r) p b d"
      by (simp add: at_position_def GetQueIndex_def FlattenPipeIdx_def)
    moreover have "fst (dispatch ?e (GetQueIndex ?at) (client r)) = PROCESS_STALLED"
      using h unfolding h_dispatch [OF own] by simp
    ultimately show ?thesis by simp
  qed
  then have stalled: "pipeState r = EXCEPTION \<Longrightarrow> \<forall>d b p. in_range (events r) d b p \<longrightarrow> queued (events r) d b p \<noteq> [] \<longrightarrow>
      fst (dispatch (hd (queued (events r) d b p)) (FlattenPipeIdx (events r) p b d) (client r)) = PROCESS_STALLED" by blast
  then show ?thesis using Run_end [OF inv run] by blast
qed

end

lemma report_events: "mec_events (report m x c) = mec_events c"
  by (simp add: report_def Let_def)

lemma RunAlgorithm_events: "mec_events (RunAlgorithm iter cfg names c) = mec_events c"
proof -
  have "mec_events (fold (report m) xs c) = mec_events c" for m xs and c :: MemEventChecker
    by (induction xs arbitrary: c) (simp_all add: report_events)
  then show ?thesis by (simp add: RunAlgorithm_def case_prod_unfold Let_def)
qed

lemma RaceAlgImpl_blocks_pos: "0 < n \<Longrightarrow> 0 < RaceAlgImpl_blocks kt dt n"
  by (simp add: RaceAlgImpl_blocks_def subblock_dims)

text \<open>The whole check on the events of a kernel, in terms of the replay of the loaded queues.\<close>

lemma core_check:
  assumes "0 < n" "recorded es" "is_finish fin"
  obtains s r where "ra_kernelType s = kt" "ra_deviceType s = dt" "accesses s = []"
    "PipeLine_Run (Some (RaceAlgImpl_ProcessEvent junk)) (PipeLine_new s
       (load (\<lambda>e. GetEventBlockIndex e kt dt SINGLE_BLOCK_CHECK) (EventContainer_Init (RaceAlgImpl_blocks kt dt n) 1) es)) = Some r"
    "feed (RaceAlgImpl_Do iter cfg names junk) (es @ [fin]) (RaceAlgImpl_new kt dt n) =
       Some ((client r)\<lparr>memChecker := RunAlgorithm iter cfg names (memChecker (client r)), isFinished := True\<rparr>, events r)"
proof -
  let ?block = "\<lambda>e. GetEventBlockIndex e kt dt SINGLE_BLOCK_CHECK"
  let ?c = "load ?block (EventContainer_Init (RaceAlgImpl_blocks kt dt n) 1) es"
  have rec: "\<forall>e\<in>set es. \<not> is_finish e" "\<forall>e\<in>set es. pipe e \<noteq> PIPE_SIZE" using assms(2) by (simp_all add: recorded_def)
  note new = RaceAlgImpl_new_fields [of kt dt n]
  obtain s0 where s0: "RaceAlgImpl_new kt dt n = (s0, EventContainer_Init (RaceAlgImpl_blocks kt dt n) 1)"
    using new(1) by (metis prod.collapse)
  obtain s where s: "quiet s0 s" "feed (RaceAlgImpl_Do iter cfg names junk) es (RaceAlgImpl_new kt dt n) = Some (s, ?c)"
    using core_feed [OF rec(1), of s0 iter cfg names junk] new(2,3) s0 by auto
  obtain r where r: "PipeLine_Run (Some (RaceAlgImpl_ProcessEvent junk)) (PipeLine_new s ?c) = Some r"
    using core.loaded_inv(2) [OF RaceAlgImpl_blocks_pos [OF assms(1)] rec(2)] by blast
  have "feed (RaceAlgImpl_Do iter cfg names junk) (es @ [fin]) (RaceAlgImpl_new kt dt n) =
      Some ((client r)\<lparr>memChecker := RunAlgorithm iter cfg names (memChecker (client r)), isFinished := True\<rparr>, events r)"
    using s(2) r assms(3) by (simp add: feed_append RaceAlgImpl_Do_def stage2_def)
  moreover have "ra_kernelType s = kt" "ra_deviceType s = dt" "accesses s = []"
    using s(1) new(2-4) s0 quiet_accesses [OF s(1)] by (simp_all add: quiet_def)
  ultimately show thesis using r that by blast
qed

section \<open>Properties of the replay\<close>

text \<open>
  C23. The check inside a core always returns: whatever events of a kernel are fed to \<open>Do\<close>, the call
  with the \<open>KERNEL_FINISH\<close> event replays the queues and runs the race search to the end, also when
  waits are never satisfied. The only condition is that every event names an existing pipe.
\<close>
theorem RaceAlgImpl_always_finishes:
  assumes "0 < blockDim" "recorded es" "is_finish fin"
  shows "\<exists>s c. feed (RaceAlgImpl_Do iter cfg names junk) (es @ [fin]) (RaceAlgImpl_new kt dt blockDim) = Some (s, c) \<and> isFinished s"
  by (rule core_check [OF assms, of kt dt junk iter cfg names]) simp

definition finish_event :: SanEvent where
  "finish_event = sample_event PIPE_S (SANITIZER_CONTROL_EVENT SC_KERNEL_FINISH)"

definition wait_event :: "PipeType \<Rightarrow> SyncType \<Rightarrow> SanEvent" where
  "wait_event p op = sample_event p (SYNC_EVENT (sample_flag op))"

lemma wait_event_recorded: "recorded [wait_event PIPE_MTE3 WAIT_FLAG]" "is_finish finish_event"
  by (simp_all add: recorded_def wait_event_def finish_event_def sample_event_def is_finish_def)

theorem RaceAlgImpl_always_finishes_witness:
  "\<exists>s c. feed (RaceAlgImpl_Do id False (\<lambda>_ _. None) undefined) [wait_event PIPE_MTE3 WAIT_FLAG, finish_event]
     (RaceAlgImpl_new KT_MIX ASCEND_910B1 2) = Some (s, c) \<and> isFinished s"
  using RaceAlgImpl_always_finishes [OF _ wait_event_recorded, of 2 id False "\<lambda>_ _. None" undefined KT_MIX ASCEND_910B1]
  by simp

text \<open>
  C22. A deadlock report is sound: when the replay of a kernel ends, either every queue is empty, or
  it ended with \<open>EXCEPTION\<close>, some queue is not empty, and the first event of every non-empty queue
  cannot proceed in the final state, so that no order of the remaining events continues.
\<close>
theorem RaceAlgImpl_deadlock_sound:
  assumes "0 < blocks" "recorded es"
    and "PipeLine_Run (Some (RaceAlgImpl_ProcessEvent junk)) (PipeLine_new s (load block (EventContainer_Init blocks 1) es)) = Some r"
  shows "pipeState r = EXIT \<and> EventContainer_IsEmpty (events r) \<or>
     pipeState r = EXCEPTION \<and> \<not> EventContainer_IsEmpty (events r) \<and>
     (\<forall>d b p. in_range (events r) d b p \<longrightarrow> queued (events r) d b p \<noteq> [] \<longrightarrow>
        fst (RaceAlgImpl_dispatch junk (hd (queued (events r) d b p)) (FlattenPipeIdx (events r) p b d) (client r)) = PROCESS_STALLED)"
  by (rule core.exception_stalled) (use assms in \<open>simp_all add: recorded_def\<close>)

theorem RaceAlgImpl_deadlock_sound_witness:
  "\<exists>r. PipeLine_Run (Some (RaceAlgImpl_ProcessEvent undefined))
     (PipeLine_new (fst (RaceAlgImpl_new KT_MIX ASCEND_910B1 1)) (load (\<lambda>_. 0) (EventContainer_Init 3 1) [wait_event PIPE_MTE3 WAIT_FLAG])) = Some r \<and>
   (pipeState r = EXIT \<or> pipeState r = EXCEPTION)"
proof -
  have "\<forall>e\<in>set [wait_event PIPE_MTE3 WAIT_FLAG]. pipe e \<noteq> PIPE_SIZE" using wait_event_recorded(1) by (simp add: recorded_def)
  then obtain r where r: "PipeLine_Run (Some (RaceAlgImpl_ProcessEvent undefined))
     (PipeLine_new (fst (RaceAlgImpl_new KT_MIX ASCEND_910B1 1)) (load (\<lambda>_. 0) (EventContainer_Init 3 1) [wait_event PIPE_MTE3 WAIT_FLAG])) = Some r"
    using core.loaded_inv(2) [of 3] by fastforce
  then show ?thesis
    using RaceAlgImpl_deadlock_sound [OF _ wait_event_recorded(1) r] by auto
qed

text \<open>
  C4. A complete replay is faithful: when the queues are empty at the end, the accesses the checker
  received from each block and pipe are exactly those the kernel issued for it (a copy as its read
  and its write), each once and in program order; only their times were added.
\<close>
theorem RaceAlgImpl_records_program:
  assumes "0 < blockDim" "recorded es" "is_finish fin"
    and "feed (RaceAlgImpl_Do iter cfg names junk) (es @ [fin]) (RaceAlgImpl_new kt dt blockDim) = Some (s, c)"
    and "EventContainer_IsEmpty c" "b < RaceAlgImpl_blocks kt dt blockDim" "p \<noteq> PIPE_SIZE"
  shows "[m \<leftarrow> accesses s. GetEventBlockIndexByLoc (ev_loc m) kt dt SINGLE_BLOCK_CHECK = b \<and> ev_pipe m = p] =
     [m \<leftarrow> concat (map (access_of junk) (concat (map split_event es))).
        GetEventBlockIndexByLoc (ev_loc m) kt dt SINGLE_BLOCK_CHECK = b \<and> ev_pipe m = p]"
proof -
  let ?block = "\<lambda>e. GetEventBlockIndex e kt dt SINGLE_BLOCK_CHECK" and ?n = "RaceAlgImpl_blocks kt dt blockDim"
  have n: "0 < ?n" and es: "\<forall>e\<in>set es. pipe e \<noteq> PIPE_SIZE"
    using RaceAlgImpl_blocks_pos [OF assms(1)] assms(2) by (simp_all add: recorded_def)
  obtain s0 r where s0: "ra_kernelType s0 = kt" "ra_deviceType s0 = dt" "accesses s0 = []"
      and run: "PipeLine_Run (Some (RaceAlgImpl_ProcessEvent junk)) (PipeLine_new s0 (load ?block (EventContainer_Init ?n 1) es)) = Some r"
      and sc: "s = (client r)\<lparr>memChecker := RunAlgorithm iter cfg names (memChecker (client r)), isFinished := True\<rparr>" "c = events r"
    using core_check [OF assms(1-3), of kt dt junk iter cfg names thesis] assms(4) by auto
  have "pipeState r = EXIT" using core.exception_stalled [OF n es run] assms(5) sc(2) by blast
  then have "filter (\<lambda>m. (GetEventBlockIndexByLoc (ev_loc m) kt dt SINGLE_BLOCK_CHECK, ev_pipe m) = (b, p)) (accesses (client r)) =
      core_log.at_site kt dt b p (accesses s0 @ core_log.entries junk (concat (map split_event es)))"
    using core_log.Run_log_exit [OF core.loaded_inv(1) [OF n es] _ run, of kt dt _ ?n b p]
      core_log.rec_inv_load [OF n _ es, of s0 kt dt junk] s0 assms(6,7) by (simp add: PipeLine_new_def)
  then show ?thesis
    using s0(3) sc(1) by (simp add: core_log.at_site_def core_log.entries_def accesses_def RunAlgorithm_events)
qed

lemma sample_replay:
  "map_option (\<lambda>r. EventContainer_IsEmpty (events r)) (PipeLine_Run (Some (RaceAlgImpl_ProcessEvent (sample_info READ)))
     (PipeLine_new (fst (RaceAlgImpl_new KT_AIVEC ASCEND_910B1 1))
       (EventContainer_Push (EventContainer_Init 1 1) (access_event PIPE_V MEMCPY_BLOCKS) PIPE_S 0 0))) = Some True"
  by code_simp

theorem RaceAlgImpl_records_program_witness:
  "\<exists>s c. feed (RaceAlgImpl_Do id False (\<lambda>_ _. None) (sample_info READ)) [access_event PIPE_V MEMCPY_BLOCKS, finish_event]
       (RaceAlgImpl_new KT_AIVEC ASCEND_910B1 1) = Some (s, c) \<and>
     map (\<lambda>m. opType (memInfo m)) [m \<leftarrow> accesses s. ev_pipe m = PIPE_V] = [READ, WRITE]"
proof -
  let ?e = "access_event PIPE_V MEMCPY_BLOCKS" and ?f = "RaceAlgImpl_Do id False (\<lambda>_ _. None) (sample_info READ)"
  have rec: "recorded [?e]" by (simp add: recorded_def access_event_def sample_event_def is_finish_def)
  obtain r where r: "PipeLine_Run (Some (RaceAlgImpl_ProcessEvent (sample_info READ)))
     (PipeLine_new (fst (RaceAlgImpl_new KT_AIVEC ASCEND_910B1 1)) (EventContainer_Push (EventContainer_Init 1 1) ?e PIPE_S 0 0)) = Some r"
    and empty: "EventContainer_IsEmpty (events r)" using sample_replay by auto
  have new: "RaceAlgImpl_new KT_AIVEC ASCEND_910B1 1 = (fst (RaceAlgImpl_new KT_AIVEC ASCEND_910B1 1), EventContainer_Init 1 1)"
    by (simp add: RaceAlgImpl_new_def Let_def RaceAlgImpl_blocks_def NeedExpandBlockDim_def)
  have e: "\<not> is_finish ?e" "CacheMstxCrossSet ?e s = s" "GetEventBlockIndex ?e KT_AIVEC d SINGLE_BLOCK_CHECK = 0" for s :: RaceAlgImpl and d
    by (simp_all add: access_event_def sample_event_def is_finish_def CacheMstxCrossSet_def GetEventBlockIndex_def NeedExpandBlockDim_def)
  have "?f ?e (RaceAlgImpl_new KT_AIVEC ASCEND_910B1 1) =
      Some (fst (RaceAlgImpl_new KT_AIVEC ASCEND_910B1 1), EventContainer_Push (EventContainer_Init 1 1) ?e PIPE_S 0 0)"
    by (subst new) (simp add: RaceAlgImpl_Do_def e RaceAlgImpl_new_fields del: One_nat_def)
  then obtain s where s: "feed ?f ([?e] @ [finish_event]) (RaceAlgImpl_new KT_AIVEC ASCEND_910B1 1) = Some (s, events r)"
    using r wait_event_recorded(2) by (simp add: RaceAlgImpl_Do_def stage2_def)
  have "[m \<leftarrow> accesses s. GetEventBlockIndexByLoc (ev_loc m) KT_AIVEC ASCEND_910B1 SINGLE_BLOCK_CHECK = 0 \<and> ev_pipe m = PIPE_V] =
     [m \<leftarrow> concat (map (access_of (sample_info READ)) (concat (map split_event [?e]))).
        GetEventBlockIndexByLoc (ev_loc m) KT_AIVEC ASCEND_910B1 SINGLE_BLOCK_CHECK = 0 \<and> ev_pipe m = PIPE_V]"
    by (rule RaceAlgImpl_records_program [OF _ rec wait_event_recorded(2) s empty])
       (simp_all add: RaceAlgImpl_blocks_def NeedExpandBlockDim_def)
  then show ?thesis using s
    by (simp add: GetEventBlockIndexByLoc_def NeedExpandBlockDim_def access_event_def sample_event_def split_event_def
        sample_info_def access_of_def MemEvent_new_def)
qed

end
