(* ===== verification/SinglePipe.thy ===== *)
theory SinglePipe
  imports RaceAlgCorrect
begin

text \<open>
  The check inside one pipe on the pipeline (\<open>single_pipe_race_alg_impl.cpp\<close>). Its first stage files
  every event in the queue of its own pipe, so the pipes never wait for each other; the accesses of a
  pipe are stamped with the number of barriers and of instructions the pipe has met. The reference
  \<open>stamped\<close> does this for the events of one pipe alone; the replay of all pipes agrees with it.
\<close>

section \<open>The reference for one pipe\<close>

definition pipe_barrier :: "SanEvent \<Rightarrow> bool" where
  "pipe_barrier e = (case eventInfo e of
     SYNC_EVENT info \<Rightarrow> sync_opType info = PIPE_BARRIER
   | BUF_SYNC_EVENT info \<Rightarrow> buf_opType info = GET_BUF \<and> bufMode info = BLOCK_MODE \<and> rlsCount info \<noteq> 0
   | _ \<Rightarrow> False)"

definition pipe_access :: "DeviceType \<Rightarrow> SanEvent \<Rightarrow> bool" where
  "pipe_access dt e = (case eventInfo e of
     MEM_EVENT _ \<Rightarrow> \<not> (IsAscend95 dt \<and> pipe e = PIPE_V) \<and> pipe e \<noteq> PIPE_S \<and> pipe e \<noteq> PIPE_S_CAL
   | _ \<Rightarrow> False)"

definition next_number :: "SanEvent \<Rightarrow> nat \<times> nat \<Rightarrow> nat \<times> nat" where
  "next_number e = (\<lambda>(serial, n). if serial \<noteq> serialNo e then (serialNo e, n + 1) else (serial, n))"

primrec stamped :: "MemOpInfo \<Rightarrow> DeviceType \<Rightarrow> u32 \<Rightarrow> nat \<times> nat \<Rightarrow> SanEvent list \<Rightarrow> MemEvent list" where
  "stamped junk dt bar num [] = []"
| "stamped junk dt bar num (e # es) =
     (if pipe_barrier e then stamped junk dt (bar + 1) num es
      else if pipe_access dt e
      then (MemEvent_new junk e)\<lparr>barrierNo := unat bar, pipeSerialNo := snd (next_number e num)\<rparr> #
             stamped junk dt bar (next_number e num) es
      else stamped junk dt bar num es)"

section \<open>One step of the algorithm\<close>

definition sp_good :: "DeviceType \<Rightarrow> SinglePipeRaceAlgImpl \<Rightarrow> bool" where
  "sp_good dt s \<longleftrightarrow> ra_deviceType s = dt \<and> length (pipeBarrierNo s) = MAX_PIPE_NUM_FOR_BARRIER \<and>
     length (sp_pipeSerialNo s) = MAX_PIPE_NUM_FOR_BARRIER"

text \<open>What the accesses of a pipe come to when the events \<open>es\<close> are still to be processed.\<close>

definition outlook :: "MemOpInfo \<Rightarrow> DeviceType \<Rightarrow> PipeType \<Rightarrow> SinglePipeRaceAlgImpl \<Rightarrow> SanEvent list \<Rightarrow> MemEvent list" where
  "outlook junk dt p s es = [m \<leftarrow> mec_events (memChecker s). ev_pipe m = p] @
     stamped junk dt (pipeBarrierNo s ! (pipe_code p - 1)) (sp_pipeSerialNo s ! (pipe_code p - 1)) es"

lemma pipe_slot:
  assumes "p \<noteq> PIPE_S" "p \<noteq> PIPE_SIZE" "q \<noteq> PIPE_S" "q \<noteq> PIPE_SIZE"
  shows "pipe_code p - 1 < MAX_PIPE_NUM_FOR_BARRIER" "pipe_code p - 1 = pipe_code q - 1 \<longleftrightarrow> p = q"
proof -
  have "0 < pipe_code p" "0 < pipe_code q" using assms by (cases p; simp) (cases q; simp add: assms)
  then show "pipe_code p - 1 = pipe_code q - 1 \<longleftrightarrow> p = q" using pipe_code_inject [of p q] by linarith
  show "pipe_code p - 1 < MAX_PIPE_NUM_FOR_BARRIER"
    using pipe_code_lt [OF assms(2)] \<open>0 < pipe_code p\<close> by (simp add: MAX_PIPE_NUM_FOR_BARRIER_def)
qed

lemma ev_pipe_new [simp]: "ev_pipe (MemEvent_new junk e) = pipe e"
  by (simp add: MemEvent_new_def)

lemma SinglePipe_dispatch_cases:
  "SinglePipe_dispatch junk e s = (PROCESS_OK,
     if pipe_barrier e then bump_barrier e s
     else if pipe_access (ra_deviceType s) e then snd (SinglePipe_ProcessMemEvent junk e s) else s)"
  by (cases "eventInfo e") (auto simp: SinglePipe_dispatch_def SinglePipe_ProcessSyncEvent_def SinglePipe_ProcessBufSyncEvent_def
      SinglePipe_ProcessMemEvent_def pipe_barrier_def pipe_access_def Let_def split: prod.split)

lemma SinglePipe_mem:
  assumes "sp_good dt s" "pipe e \<noteq> PIPE_S" "pipe e \<noteq> PIPE_SIZE"
  shows "snd (SinglePipe_ProcessMemEvent junk e s) =
     (let i = pipe_code (pipe e) - 1; num = next_number e (sp_pipeSerialNo s ! i)
      in s\<lparr>sp_pipeSerialNo := (sp_pipeSerialNo s)[i := num],
           memChecker := PushEvent ((MemEvent_new junk e)\<lparr>barrierNo := unat (pipeBarrierNo s ! i), pipeSerialNo := snd num\<rparr>) (memChecker s)\<rparr>)"
proof -
  let ?i = "pipe_code (pipe e) - 1"
  have i: "?i < length (sp_pipeSerialNo s)" using assms pipe_slot(1) by (simp add: sp_good_def)
  obtain l n where ln: "sp_pipeSerialNo s ! ?i = (l, n)" by (metis prod.collapse)
  have same: "(sp_pipeSerialNo s)[?i := (l, n)] = sp_pipeSerialNo s" using ln list_update_id by metis
  show ?thesis
  proof (cases "l = serialNo e")
    case True
    then show ?thesis using ln same i by (simp add: SinglePipe_ProcessMemEvent_def next_number_def Let_def)
  next
    case False
    then show ?thesis using ln i by (simp add: SinglePipe_ProcessMemEvent_def next_number_def Let_def)
  qed
qed

lemma outlook_step:
  assumes g: "sp_good dt s" and e: "pipe e \<noteq> PIPE_S" "pipe e \<noteq> PIPE_SIZE" and p: "p \<noteq> PIPE_S" "p \<noteq> PIPE_SIZE"
  shows "sp_good dt (snd (SinglePipe_dispatch junk e s))"
    and "outlook junk dt p (snd (SinglePipe_dispatch junk e s)) es = outlook junk dt p s ((if pipe e = p then [e] else []) @ es)"
proof -
  note sl = pipe_slot [OF e p] pipe_slot(1) [OF p e]
  have dt: "ra_deviceType s = dt" "length (pipeBarrierNo s) = MAX_PIPE_NUM_FOR_BARRIER"
    "length (sp_pipeSerialNo s) = MAX_PIPE_NUM_FOR_BARRIER" using g by (simp_all add: sp_good_def)
  show "sp_good dt (snd (SinglePipe_dispatch junk e s))"
    using g by (simp add: SinglePipe_dispatch_cases SinglePipe_mem [OF g e] bump_barrier_def sp_good_def Let_def)
  show "outlook junk dt p (snd (SinglePipe_dispatch junk e s)) es = outlook junk dt p s ((if pipe e = p then [e] else []) @ es)"
    using sl dt by (auto simp: SinglePipe_dispatch_cases SinglePipe_mem [OF g e] bump_barrier_def outlook_def PushEvent_def Let_def)
qed

interpretation pipe_alg: pure_launching_handler "SinglePipe_ProcessEvent junk" "\<lambda>_. False" "\<lambda>e _ s. (s, [e])" "\<lambda>_ _. (0, 0)"
  "\<lambda>e _. SinglePipe_dispatch junk e"
  for junk
proof
  show "length (concat (map split_event (snd (s, [e])))) \<le> 3" for e and s :: SinglePipeRaceAlgImpl
    using split_event_length [of e] by simp
qed (simp_all add: SinglePipe_ProcessEvent_def SinglePipe_dispatch_cases case_prod_unfold)

section \<open>The first stage\<close>

definition filed :: "SanEvent \<Rightarrow> bool" where
  "filed e \<longleftrightarrow> pipe e \<noteq> PIPE_S \<and> pipe e \<noteq> PIPE_SIZE"

definition file_events :: "EventContainer \<Rightarrow> SanEvent list \<Rightarrow> EventContainer" where
  "file_events c es = foldl (\<lambda>c e. if filed e then EventContainer_Push c e (pipe e) 0 0 else c) c es"

lemma filed_codes: "pipe_code PIPE_S < pipe_code (pipe e) \<and> pipe_code (pipe e) < pipe_code PIPE_SIZE \<longleftrightarrow> filed e"
  by (cases "pipe e") (simp_all add: filed_def)

lemma pipe_feed:
  assumes "\<forall>e\<in>set es. \<not> is_finish e"
  shows "feed (SinglePipe_Do iter cfg names junk) es (s, c) = Some (s, file_events c es)"
  using assms by (induction es arbitrary: c) (simp_all add: SinglePipe_Do_def filed_codes file_events_def del: pipe_code.simps)

lemma file_queued:
  "ec_inv (file_events (EventContainer_Init 1 1) es) \<and> same_frame (EventContainer_Init 1 1) (file_events (EventContainer_Init 1 1) es) \<and>
     (\<forall>p. in_range (EventContainer_Init 1 1) 0 0 p \<longrightarrow> queued (file_events (EventContainer_Init 1 1) es) 0 0 p =
        concat (map split_event [e \<leftarrow> es. filed e \<and> pipe_code (pipe e) = p]))"
proof (induction es rule: rev_induct)
  case Nil
  show ?case using ec_inv_Init [of 1 1] Init_queued [of 1 1 0 0] by (simp add: file_events_def)
next
  case (snoc x xs)
  let ?c = "file_events (EventContainer_Init 1 1) xs" and ?c' = "EventContainer_Push (file_events (EventContainer_Init 1 1) xs) x (pipe x) 0 0"
  have c: "ec_inv ?c" and fr: "same_frame (EventContainer_Init 1 1) ?c" using snoc by simp_all
  show ?case
  proof (cases "filed x")
    case True
    then have p: "pipe x \<noteq> PIPE_SIZE" by (simp add: filed_def)
    note push = EventContainer_Push_queued [OF c p]
    have "ec_inv ?c'" "same_frame ?c ?c'" using push(1,2) [OF ec_inv_cursor [OF c]] by simp_all
    moreover have "queued ?c' 0 0 q = concat (map split_event [e \<leftarrow> xs @ [x]. filed e \<and> pipe_code (pipe e) = q])"
      if "in_range (EventContainer_Init 1 1) 0 0 q" for q
      using push(3) [of 0 0 q x 0 0] snoc that same_frame_fields(13) [OF fr] True by auto
    ultimately show ?thesis using same_frame_trans [OF fr] True by (simp add: file_events_def)
  next
    case False
    then show ?thesis using snoc by (simp add: file_events_def)
  qed
qed

section \<open>The replay\<close>

definition homed :: "EventContainer \<Rightarrow> bool" where
  "homed c \<longleftrightarrow> deviceNum c = 1 \<and> maxBlockNum c = 1 \<and>
     (\<forall>p. in_range c 0 0 p \<longrightarrow> (\<forall>e\<in>set (queued c 0 0 p). pipe_code (pipe e) = p \<and> filed e))"

definition pipe_inv :: "MemOpInfo \<Rightarrow> DeviceType \<Rightarrow> (PipeType \<Rightarrow> MemEvent list) \<Rightarrow> SinglePipeRaceAlgImpl \<Rightarrow> EventContainer \<Rightarrow> bool" where
  "pipe_inv junk dt T s c \<longleftrightarrow> homed c \<and> sp_good dt s \<and>
     (\<forall>p. p \<noteq> PIPE_S \<longrightarrow> p \<noteq> PIPE_SIZE \<longrightarrow> outlook junk dt p s (queued c 0 0 (pipe_code p)) = T p)"

lemma pipe_inv_content:
  assumes "pipe_inv junk dt T s c" "same_content c c'"
  shows "pipe_inv junk dt T s c'"
  using assms same_content_queued [OF assms(2)] same_content_in_range [OF assms(2)]
  by (simp add: pipe_inv_def homed_def same_content_def)

lemma homed_cursor:
  assumes "ec_inv c" "homed c" "at_cursor c \<noteq> []"
  shows "deviceIndex c = 0" "blockIndex c = 0" "in_range c 0 0 (pipeIndex c)" "at_cursor c = queued c 0 0 (pipeIndex c)"
    "pipe_code (pipe (hd (at_cursor c))) = pipeIndex c" "filed (hd (at_cursor c))"
proof -
  have r: "in_range c (deviceIndex c) (blockIndex c) (pipeIndex c)" by (rule ec_inv_cursor [OF assms(1)])
  then show z: "deviceIndex c = 0" "blockIndex c = 0" using assms(2) by (simp_all add: homed_def in_range_def)
  then show r: "in_range c 0 0 (pipeIndex c)" and q: "at_cursor c = queued c 0 0 (pipeIndex c)" using r by (simp_all add: at_cursor_def)
  have "hd (at_cursor c) \<in> set (queued c 0 0 (pipeIndex c))" using assms(3) q by simp
  then show "pipe_code (pipe (hd (at_cursor c))) = pipeIndex c" "filed (hd (at_cursor c))"
    using assms(2) r by (auto simp: homed_def)
qed

lemma pipe_inv_ok:
  assumes c: "ec_inv c" and I: "pipe_inv junk dt T s c" and ne: "at_cursor c \<noteq> []"
    and h: "SinglePipe_ProcessEvent junk (hd (at_cursor c)) (s, c) = (PROCESS_OK, s', c')"
  shows "pipe_inv junk dt T s' (EventContainer_Pop c')"
proof -
  let ?e = "hd (at_cursor c)"
  have hm: "homed c" and g: "sp_good dt s" using I by (simp_all add: pipe_inv_def)
  note cur = homed_cursor [OF c hm ne]
  have s': "s' = snd (SinglePipe_dispatch junk ?e s)" and [simp]: "c' = c"
    using h by (auto simp: SinglePipe_ProcessEvent_def case_prod_unfold)
  have e: "pipe ?e \<noteq> PIPE_S" "pipe ?e \<noteq> PIPE_SIZE" using cur(6) by (simp_all add: filed_def)
  note step = outlook_step [OF g e, of _ junk, folded s']
  have r: "in_range (EventContainer_Pop c) d b p = in_range c d b p" for d b p by (simp add: in_range_def queue_simps)
  have q: "queued (EventContainer_Pop c) 0 0 p = (if p = pipeIndex c then tl (at_cursor c) else queued c 0 0 p)" if "in_range c 0 0 p" for p
    using EventContainer_Pop_queued [OF c ne that] cur(1,2,4) by simp
  have "homed (EventContainer_Pop c)"
    using hm q cur(4) in_set_tl [of _ "at_cursor c"] unfolding homed_def r by (simp add: queue_simps)
  moreover have "outlook junk dt p s' (queued (EventContainer_Pop c) 0 0 (pipe_code p)) = T p" if p: "p \<noteq> PIPE_S" "p \<noteq> PIPE_SIZE" for p
  proof -
    have "in_range c 0 0 (pipe_code p)" using hm pipe_code_lt [OF p(2)] by (simp add: homed_def in_range_def)
    then have "(if pipe ?e = p then [?e] else []) @ queued (EventContainer_Pop c) 0 0 (pipe_code p) = queued c 0 0 (pipe_code p)"
      using q [of "pipe_code p"] cur(4,5) ne pipe_code_inject [of p "pipe ?e"] by (cases "at_cursor c") auto
    then show ?thesis using step(2) [OF p] I p by (simp add: pipe_inv_def)
  qed
  moreover have "sp_good dt s'" using step(1) [of PIPE_V] by simp
  ultimately show ?thesis by (simp add: pipe_inv_def)
qed

lemma pipe_run:
  assumes I: "pipe_inv junk dt T s c" and c: "ec_inv c" "launchable c"
    and st: "\<not> isDeviceStuck c" "\<not> isBlockStuck c" "stuckDeviceNum c = 0" "blockIndex c = 0" "pipeIndex c = 0"
  obtains r where "PipeLine_Run (Some (SinglePipe_ProcessEvent junk)) (PipeLine_new s c) = Some r"
    "EventContainer_IsEmpty (events r)"
    "\<And>p. p \<noteq> PIPE_S \<Longrightarrow> p \<noteq> PIPE_SIZE \<Longrightarrow> [m \<leftarrow> mec_events (memChecker (client r)). ev_pipe m = p] = T p"
proof -
  have d: "deviceNum c = 1" using I by (simp add: pipe_inv_def homed_def)
  have inv: "pipe_alg.pl_inv (PipeLine_new s c)" by (rule pipe_alg.pl_inv_new) (use c st d in simp_all)
  have stk: "pipe_alg.stuck_inv junk (PipeLine_new s c)" by (rule pipe_alg.stuck_inv_new) (use st in simp_all)
  obtain r where run: "PipeLine_Run (Some (SinglePipe_ProcessEvent junk)) (PipeLine_new s c) = Some r"
    using pipe_alg.Run_returns_one_device [OF inv] d by (auto simp: PipeLine_new_def)
  have R: "pipe_inv junk dt T (client r) (events r)"
    by (rule pipe_alg.Run_invariant [where P = "pipe_inv junk dt T", OF inv _ run])
       (use I pipe_inv_content pipe_inv_ok in \<open>auto simp: PipeLine_new_def SinglePipe_ProcessEvent_def SinglePipe_dispatch_cases\<close>)
  have ec: "ec_inv (events r)" using pipe_alg.pl_inv_Run [OF inv run] pipe_alg.pl_inv_ec by simp
  have empty: "EventContainer_IsEmpty (events r)"
  proof (rule ccontr)
    assume ne: "\<not> EventContainer_IsEmpty (events r)"
    then obtain d' b' p' where "in_range (events r) d' b' p'" "queued (events r) d' b' p' \<noteq> []" using IsEmpty_queued [OF ec] by blast
    then show False
      using pipe_alg.Run_exception_blocked [OF inv stk run] pipe_alg.Run_end [OF inv run] ne
      by (auto simp: pipe_alg.blocked_def SinglePipe_ProcessEvent_def SinglePipe_dispatch_cases)
  qed
  then have "queued (events r) 0 0 (pipe_code p) = []" if "p \<noteq> PIPE_SIZE" for p
    using IsEmpty_queued [OF ec] R pipe_code_lt [OF that] by (simp add: pipe_inv_def homed_def in_range_def)
  then have "[m \<leftarrow> mec_events (memChecker (client r)). ev_pipe m = p] = T p" if "p \<noteq> PIPE_S" "p \<noteq> PIPE_SIZE" for p
    using R that by (simp add: pipe_inv_def outlook_def)
  then show thesis using that run empty by blast
qed

section \<open>Properties\<close>

lemma file_frame:
  "deviceNum (file_events (EventContainer_Init 1 1) es) = 1" "maxBlockNum (file_events (EventContainer_Init 1 1) es) = 1"
  "\<not> isDeviceStuck (file_events (EventContainer_Init 1 1) es)" "\<not> isBlockStuck (file_events (EventContainer_Init 1 1) es)"
  "stuckDeviceNum (file_events (EventContainer_Init 1 1) es) = 0" "blockIndex (file_events (EventContainer_Init 1 1) es) = 0"
  "pipeIndex (file_events (EventContainer_Init 1 1) es) = 0"
proof -
  have f: "same_frame (EventContainer_Init 1 1) (file_events (EventContainer_Init 1 1) es)" using file_queued by blast
  show "deviceNum (file_events (EventContainer_Init 1 1) es) = 1" "maxBlockNum (file_events (EventContainer_Init 1 1) es) = 1"
    "\<not> isDeviceStuck (file_events (EventContainer_Init 1 1) es)" "\<not> isBlockStuck (file_events (EventContainer_Init 1 1) es)"
    "stuckDeviceNum (file_events (EventContainer_Init 1 1) es) = 0" "blockIndex (file_events (EventContainer_Init 1 1) es) = 0"
    "pipeIndex (file_events (EventContainer_Init 1 1) es) = 0"
    using same_frame_fields [OF f] by (simp_all add: EventContainer_Init_def)
qed

lemma file_homed: "homed (file_events (EventContainer_Init 1 1) es)" "launchable (file_events (EventContainer_Init 1 1) es)"
proof -
  let ?c = "file_events (EventContainer_Init 1 1) es"
  have q: "queued ?c 0 0 p = concat (map split_event [e \<leftarrow> es. filed e \<and> pipe_code (pipe e) = p])" if "in_range ?c 0 0 p" for p
    using file_queued [of es] that file_frame(1,2) [of es] by (simp add: in_range_def EventContainer_Init_def)
  have "pipe_code (pipe x) = p \<and> filed x" if "in_range ?c 0 0 p" "x \<in> set (queued ?c 0 0 p)" for p x
    using that q split_event_pipe by (fastforce simp: filed_def)
  then show h: "homed ?c" using file_frame(1,2) [of es] by (simp add: homed_def)
  show "launchable ?c"
    unfolding launchable_def
  proof (intro allI impI ballI)
    fix d b p e assume r: "in_range ?c d b p" and e: "e \<in> set (queued ?c d b p)"
    have "d = 0" "b = 0" using r file_frame(1,2) [of es] by (simp_all add: in_range_def)
    then show "pipe e \<noteq> PIPE_SIZE" using h r e by (simp add: homed_def filed_def)
  qed
qed

lemma SinglePipe_new_fields:
  "snd (SinglePipe_new bars nums kt dt n) = EventContainer_Init 1 1" "ra_deviceType (fst (SinglePipe_new bars nums kt dt n)) = dt"
  "mec_events (memChecker (fst (SinglePipe_new bars nums kt dt n))) = []"
  "pipeBarrierNo (fst (SinglePipe_new bars nums kt dt n)) = bars" "sp_pipeSerialNo (fst (SinglePipe_new bars nums kt dt n)) = nums"
  by (simp_all add: SinglePipe_new_def Let_def RaceAlgBase_fields_def RaceAlgBase.defs SinglePipeRaceAlgImpl.defs
      MemEventChecker_Init_def MemEventChecker_new_def)

text \<open>
  C28. The check inside one pipe returns, never gets stuck, and agrees with the sequential reference:
  whatever other pipes do, the accesses recorded for a pipe are those of its own events in program
  order, each stamped with the number of barriers the pipe passed before it (as a 32-bit counter) and
  with its instruction number, from the initial contents of the counter arrays.
\<close>
theorem SinglePipe_stamps_program:
  assumes "length bars = MAX_PIPE_NUM_FOR_BARRIER" "length nums = MAX_PIPE_NUM_FOR_BARRIER"
    and "\<forall>e\<in>set es. \<not> is_finish e" "is_finish fin"
  shows "\<exists>s c. feed (SinglePipe_Do iter cfg names junk) (es @ [fin]) (SinglePipe_new bars nums kt dt blockDim) = Some (s, c) \<and>
     isFinished s \<and> EventContainer_IsEmpty c \<and>
     (\<forall>p. p \<noteq> PIPE_S \<and> p \<noteq> PIPE_SIZE \<longrightarrow>
        [m \<leftarrow> mec_events (memChecker s). ev_pipe m = p] =
        stamped junk dt (bars ! (pipe_code p - 1)) (nums ! (pipe_code p - 1)) (concat (map split_event [e \<leftarrow> es. pipe e = p])))"
proof -
  let ?c = "file_events (EventContainer_Init 1 1) es"
  let ?T = "\<lambda>p. stamped junk dt (bars ! (pipe_code p - 1)) (nums ! (pipe_code p - 1)) (concat (map split_event [e \<leftarrow> es. pipe e = p]))"
  note new = SinglePipe_new_fields [of bars nums kt dt blockDim]
  obtain s0 where s0: "SinglePipe_new bars nums kt dt blockDim = (s0, EventContainer_Init 1 1)" using new(1) by (metis prod.collapse)
  note f = new(2-5) [unfolded s0 fst_conv]
  have fed: "feed (SinglePipe_Do iter cfg names junk) es (s0, EventContainer_Init 1 1) = Some (s0, ?c)" by (rule pipe_feed [OF assms(3)])
  have "outlook junk dt p s0 (queued ?c 0 0 (pipe_code p)) = ?T p" if p: "p \<noteq> PIPE_S" "p \<noteq> PIPE_SIZE" for p
  proof -
    have "in_range (EventContainer_Init 1 1) 0 0 (pipe_code p)"
      using pipe_code_lt [OF p(2)] by (simp add: in_range_def EventContainer_Init_def)
    moreover have "(filed e \<and> pipe_code (pipe e) = pipe_code p) = (pipe e = p)" for e using p by (auto simp: filed_def)
    ultimately show ?thesis using file_queued [of es] f by (simp add: outlook_def)
  qed
  then have I: "pipe_inv junk dt ?T s0 ?c" using f assms(1,2) file_homed(1) by (simp add: pipe_inv_def sp_good_def)
  have ec: "ec_inv ?c" using file_queued by blast
  obtain r where r: "PipeLine_Run (Some (SinglePipe_ProcessEvent junk)) (PipeLine_new s0 ?c) = Some r" "EventContainer_IsEmpty (events r)"
      "\<And>p. p \<noteq> PIPE_S \<Longrightarrow> p \<noteq> PIPE_SIZE \<Longrightarrow> [m \<leftarrow> mec_events (memChecker (client r)). ev_pipe m = p] = ?T p"
    by (rule pipe_run [OF I ec file_homed(2) file_frame(3-7)]) (rule that)
  have "feed (SinglePipe_Do iter cfg names junk) (es @ [fin]) (s0, EventContainer_Init 1 1) =
      Some ((client r)\<lparr>memChecker := RunAlgorithm iter cfg names (memChecker (client r)), isFinished := True\<rparr>, events r)"
    unfolding feed_append fed bind.simps using r(1) assms(4) by (simp add: SinglePipe_Do_def stage2_def)
  then show ?thesis using r(2,3) unfolding s0 by (simp add: RunAlgorithm_events)
qed

text \<open>Two accesses with a barrier between them get different barrier numbers.\<close>

definition barrier_event :: "PipeType \<Rightarrow> SanEvent" where
  "barrier_event p = sample_event p (SYNC_EVENT ((sample_flag PIPE_BARRIER)))"

theorem SinglePipe_stamps_program_witness:
  "\<exists>s c. feed (SinglePipe_Do id False (\<lambda>_ _. None) (sample_info READ))
       [access_event PIPE_V WRITE, barrier_event PIPE_MTE3, barrier_event PIPE_V, access_event PIPE_V READ, finish_event]
       (SinglePipe_new (replicate 11 0) (replicate 11 (0, 0)) KT_AIVEC ASCEND_910B1 1) = Some (s, c) \<and>
     map barrierNo [m \<leftarrow> mec_events (memChecker s). ev_pipe m = PIPE_V] = [0, 1]"
proof -
  let ?es = "[access_event PIPE_V WRITE, barrier_event PIPE_MTE3, barrier_event PIPE_V, access_event PIPE_V READ]"
  have "\<forall>e\<in>set ?es. \<not> is_finish e" by (simp add: access_event_def barrier_event_def sample_event_def is_finish_def)
  then obtain s c where s: "feed (SinglePipe_Do id False (\<lambda>_ _. None) (sample_info READ)) (?es @ [finish_event])
      (SinglePipe_new (replicate 11 0) (replicate 11 (0, 0)) KT_AIVEC ASCEND_910B1 1) = Some (s, c)"
    and st: "[m \<leftarrow> mec_events (memChecker s). ev_pipe m = PIPE_V] =
      stamped (sample_info READ) ASCEND_910B1 (replicate 11 0 ! (pipe_code PIPE_V - 1)) (replicate 11 (0, 0) ! (pipe_code PIPE_V - 1))
        (concat (map split_event [e \<leftarrow> ?es. pipe e = PIPE_V]))"
    using SinglePipe_stamps_program [of "replicate 11 0" "replicate 11 (0, 0)" ?es finish_event id False "\<lambda>_ _. None" "sample_info READ"
        KT_AIVEC ASCEND_910B1 1] wait_event_recorded(2) by (fastforce simp: MAX_PIPE_NUM_FOR_BARRIER_def)
  have "map barrierNo [m \<leftarrow> mec_events (memChecker s). ev_pipe m = PIPE_V] = [0, 1]"
    unfolding st by (simp add: access_event_def barrier_event_def sample_event_def split_event_def sample_info_def sample_flag_def
        pipe_barrier_def pipe_access_def IsAscend95_def next_number_def)
  then show ?thesis using s by auto
qed

end
