(* ===== verification/Replayer.thy ===== *)
theory Replayer
  imports Recording SyncStores CrossCoreSync
begin

text \<open>
  The pipeline replayer of \<open>csrc/core/framework/pipeline_replayer.cpp\<close>: the replay of the race check
  without clocks. Synchronisation events move to their own pipes, memory events stay on the scalar
  queue and are handed to a callback. The calls of the callback are kept as a log; the times the
  stores expect are the empty time.
\<close>

section \<open>The replayer\<close>

datatype ReplayerCallbackType = MEMORY_EVENT | ALL_DEVICE_STUCK

record PipelineReplayer =
  rp_syncDB :: "SyncEventDataBase list"
  rp_sync :: CrossCoreSyncInfoContainer
  memEventCount :: nat
  rp_barrier :: "(CrossNpuBarrierConf, nat) BarrierDatabase"
  rp_mstxSetCrossMap :: "u64 \<times> u64 \<rightharpoonup> u64"
  rp_getRlsBufMap :: "nat \<times> u64 \<rightharpoonup> VectorTime list"
  getBufCount :: "nat \<times> u64 \<rightharpoonup> nat"
  rp_kernelType :: KernelType
  rp_deviceType :: DeviceType
  rp_blockDim :: nat
  rp_isFinished :: bool
  callback :: bool
  called :: "(ReplayerCallbackType \<times> SanEvent) list"

definition Replayer_Init :: "KernelType \<Rightarrow> DeviceType \<Rightarrow> nat \<Rightarrow> PipelineReplayer \<Rightarrow> PipelineReplayer \<times> EventContainer" where
  "Replayer_Init kt dt blockDim s =
     (let totalBlockNum = (if NeedExpandBlockDim kt dt then blockDim * C220_MIX_SUB_BLOCKDIM else blockDim)
      in (s\<lparr>rp_kernelType := kt, rp_deviceType := dt, rp_blockDim := blockDim,
            rp_syncDB := replicate totalBlockNum Map.empty, rp_sync := CrossCoreSync_Init totalBlockNum kt,
            rp_getRlsBufMap := Map.empty, getBufCount := Map.empty, rp_mstxSetCrossMap := Map.empty,
            rp_barrier := Map.empty, rp_isFinished := False, memEventCount := 0\<rparr>,
          EventContainer_Init totalBlockNum 1))"

definition Replayer_RegisterCallback :: "PipelineReplayer \<Rightarrow> PipelineReplayer" where
  "Replayer_RegisterCallback s = s\<lparr>callback := True\<rparr>"

definition notify :: "ReplayerCallbackType \<Rightarrow> SanEvent \<Rightarrow> PipelineReplayer \<Rightarrow> PipelineReplayer" where
  "notify t e s = s\<lparr>called := called s @ [(t, e)]\<rparr>"

definition Replayer_CacheMstxCrossSet :: "SanEvent \<Rightarrow> PipelineReplayer \<Rightarrow> PipelineReplayer" where
  "Replayer_CacheMstxCrossSet event s =
     (case eventInfo event of
        MSTX_CROSS_SYNC_EVENT info \<Rightarrow>
          (if cross_opType info = MSTX_SET_CROSS
           then (let key = (cross_addr info, cross_flagId info)
                 in s\<lparr>rp_mstxSetCrossMap := (rp_mstxSetCrossMap s)
                        (key \<mapsto> (case rp_mstxSetCrossMap s key of Some n \<Rightarrow> n + 1 | None \<Rightarrow> 1))\<rparr>)
           else s)
      | _ \<Rightarrow> s)"

section \<open>Event handlers\<close>

definition done_if :: "bool \<Rightarrow> ReturnType" where
  "done_if ok = (if ok then PROCESS_OK else PROCESS_STALLED)"

definition Replayer_ProcessMemEvent :: "SanEvent \<Rightarrow> PipelineReplayer \<Rightarrow> ReturnType \<times> PipelineReplayer" where
  "Replayer_ProcessMemEvent event s = (PROCESS_OK, if callback s then notify MEMORY_EVENT event s else s)"

definition Replayer_ProcessSyncEvent :: "SanEvent \<Rightarrow> SyncOpInfo \<Rightarrow> PipelineReplayer \<Rightarrow> ReturnType \<times> PipelineReplayer" where
  "Replayer_ProcessSyncEvent event info s =
     (let e = SyncEvent_of info; blockIdx = GetEventBlockIndex3 event (rp_kernelType s) (rp_deviceType s) in
      if sync_opType info = SET_FLAG
      then (PROCESS_OK, s\<lparr>rp_syncDB := (rp_syncDB s)[blockIdx := SyncEventDataBase_Set (rp_syncDB s ! blockIdx) e VectorTime_new]\<rparr>)
      else if sync_opType info = WAIT_FLAG
      then (case SyncEventDataBase_Get (rp_syncDB s ! blockIdx) e of
              (db, r) \<Rightarrow> (done_if (r \<noteq> None), s\<lparr>rp_syncDB := (rp_syncDB s)[blockIdx := db]\<rparr>))
      else (PROCESS_OK, s))"

definition Replayer_ProcessBlockSyncEvent :: "SanEvent \<Rightarrow> FftsSyncInfo \<Rightarrow> PipelineReplayer \<Rightarrow> ReturnType \<times> PipelineReplayer" where
  "Replayer_ProcessBlockSyncEvent event info s0 =
     (let blockIdx = GetEventBlockIndex3 event (rp_kernelType s0) (rp_deviceType s0);
          s = (if vecSubBlockDim info \<ge> 1 \<and> vecSubBlockDim info \<le> of_nat C220_VEC_SUB_BLOCKDIM
               then s0\<lparr>rp_sync := SetVecSubBlockDim (unat (vecSubBlockDim info)) (rp_sync s0)\<rparr> else s0) in
      if ffts_opType info = FFTS_SYNC
      then (PROCESS_OK, s\<lparr>rp_sync := SetBlockSyncInfo (unat (flagId info)) (unat (ffts_mode info)) blockIdx VectorTime_new
              (unat (vecSubBlockDim info)) (loc event) (serialNo event) (rp_sync s)\<rparr>)
      else if ffts_opType info = WAIT_FLAG_DEV
      then (case GetBlockSyncInfo (unat (flagId info)) blockIdx VectorTime_new (rp_sync s) of
              (c, t, ok) \<Rightarrow> (done_if ok, s\<lparr>rp_sync := c\<rparr>))
      else if ffts_opType info = WAIT_INTRA_BLOCK
      then (case GetIntraBlockSyncInfo (unat (flagId info)) blockIdx VectorTime_new (rp_sync s) of
              (c, t, ok) \<Rightarrow> (done_if ok, s\<lparr>rp_sync := c\<rparr>))
      else (PROCESS_STALLED, s))"

definition Replayer_ProcessBlockSoftSyncEvent ::
  "SanEvent \<Rightarrow> SoftSyncInfo \<Rightarrow> nat \<Rightarrow> PipelineReplayer \<Rightarrow> ReturnType \<times> PipelineReplayer" where
  "Replayer_ProcessBlockSoftSyncEvent event info curPipe s =
     (let blockIdx = GetEventBlockIndex3 event (rp_kernelType s) (rp_deviceType s) in
      if soft_opType info = SYNC_ALL
      then (case SyncAll blockIdx (usedCores info) curPipe VectorTime_new (rp_sync s) of
              (c, t, ok) \<Rightarrow> (done_if ok, s\<lparr>rp_sync := c\<rparr>))
      else if soft_opType info = IB_SET
      then (PROCESS_OK, s\<lparr>rp_sync := SetBlockSoftSyncInfo (soft_eventID info) blockIdx VectorTime_new (rp_sync s)\<rparr>)
      else if soft_opType info = IB_WAIT
      then (case GetBlockSoftSyncInfo (soft_eventID info) (waitCoreID info) VectorTime_new (rp_sync s) of
              (c, t, ok) \<Rightarrow> (done_if ok, s\<lparr>rp_sync := c\<rparr>))
      else (PROCESS_STALLED, s))"

definition Replayer_ProcessMstxCrossSyncEvent :: "MstxCrossInfo \<Rightarrow> PipelineReplayer \<Rightarrow> ReturnType \<times> PipelineReplayer" where
  "Replayer_ProcessMstxCrossSyncEvent info s =
     (if cross_opType info = MSTX_SET_CROSS
      then (PROCESS_OK, s\<lparr>rp_sync := SetMstxCrossInfo info VectorTime_new (rp_sync s)\<rparr>)
      else if cross_opType info = MSTX_WAIT_CROSS
      then (let key = (cross_addr info, cross_flagId info); iter = rp_mstxSetCrossMap s key in
            if isMore info \<and> (iter = None \<or> iter = Some 0) then (PROCESS_OK, s)
            else (case GetMstxCrossInfo info VectorTime_new (rp_sync s) of
                    (c, t, ok) \<Rightarrow>
                      (let s1 = s\<lparr>rp_sync := c\<rparr> in
                       (done_if ok,
                        (case iter of Some n \<Rightarrow> if ok then s1\<lparr>rp_mstxSetCrossMap := (rp_mstxSetCrossMap s1)(key \<mapsto> n - 1)\<rparr> else s1
                         | None \<Rightarrow> s1)))))
      else (PROCESS_STALLED, s))"

definition Replayer_ProcessMstxCrossCoreBarrier :: "SanEvent \<Rightarrow> MstxCrossCoreBarrier \<Rightarrow> PipelineReplayer \<Rightarrow> ReturnType \<times> PipelineReplayer" where
  "Replayer_ProcessMstxCrossCoreBarrier event barrier s =
     (let conf = \<lparr>conf_isAIVOnly = ccb_isAIVOnly barrier, conf_usedDeviceNum = 1, conf_usedCoreNum = ccb_usedCoreNum barrier\<rparr> in
      case BarrierDatabase_Wait (conf_usedCoreNum conf) conf (coreId (loc event)) VectorTime_new (rp_barrier s) of
        (db, r) \<Rightarrow> (done_if (r \<noteq> None), s\<lparr>rp_barrier := db\<rparr>))"

text \<open>A barrier across devices decays to one across cores.\<close>

definition decay_barrier :: "MstxCrossNpuBarrier \<Rightarrow> MstxCrossCoreBarrier" where
  "decay_barrier b = \<lparr>ccb_usedCoreNum = cnb_usedCoreNum b, ccb_usedCoreId = cnb_usedCoreId b, ccb_isAIVOnly = cnb_isAIVOnly b,
     ccb_pipeBarrierAll = cnb_pipeBarrierAll b\<rparr>"

definition Replayer_ProcessMstxCrossNpuBarrier :: "SanEvent \<Rightarrow> MstxCrossNpuBarrier \<Rightarrow> PipelineReplayer \<Rightarrow> ReturnType \<times> PipelineReplayer" where
  "Replayer_ProcessMstxCrossNpuBarrier event barrier s =
     Replayer_ProcessMstxCrossCoreBarrier (event\<lparr>eventInfo := MSTX_CROSS_CORE_BARRIER (decay_barrier barrier)\<rparr>) (decay_barrier barrier) s"

definition Replayer_ProcessGetRlsBufSyncEvent :: "SanEvent \<Rightarrow> BufSyncInfo \<Rightarrow> PipelineReplayer \<Rightarrow> ReturnType \<times> PipelineReplayer" where
  "Replayer_ProcessGetRlsBufSyncEvent event info s =
     (let bufKey = (GetEventBlockIndex3 event (rp_kernelType s) (rp_deviceType s), bufId info) in
      if buf_opType info = GET_BUF \<and> bufMode info = BLOCK_MODE
      then (let it = rp_getRlsBufMap s bufKey;
                consumed = (case getBufCount s bufKey of None \<Rightarrow> 0 | Some n \<Rightarrow> n);
                s1 = s\<lparr>getBufCount := (getBufCount s)(bufKey \<mapsto> consumed)\<rparr>;
                available = (case it of None \<Rightarrow> 0 | Some ts \<Rightarrow> length ts) + 1;
                s2 = s1\<lparr>getBufCount := (getBufCount s1)(bufKey \<mapsto> consumed + 1)\<rparr> in
            if rlsCount info = 0
            then (if consumed + 1 > available then (PROCESS_STALLED, s1) else (PROCESS_OK, s2))
            else if it = None \<or> available - 1 < rlsCount info \<or> consumed + 1 > available
            then (PROCESS_STALLED, s1) else (PROCESS_OK, s2))
      else if buf_opType info = RLS_BUF
      then (PROCESS_OK, s\<lparr>rp_getRlsBufMap := (rp_getRlsBufMap s)(bufKey \<mapsto> pending (rp_getRlsBufMap s) bufKey @ [VectorTime_new])\<rparr>)
      else (PROCESS_OK, s))"

definition is_memory :: "SanEvent \<Rightarrow> bool" where
  "is_memory e = (case eventInfo e of MEM_EVENT _ \<Rightarrow> True | DYNAMIC_MEM_EVENT _ \<Rightarrow> True | _ \<Rightarrow> False)"

definition Replayer_dispatch :: "SanEvent \<Rightarrow> nat \<Rightarrow> PipelineReplayer \<Rightarrow> ReturnType \<times> PipelineReplayer" where
  "Replayer_dispatch event curPipe s =
     (case eventInfo event of
        SYNC_EVENT info \<Rightarrow> Replayer_ProcessSyncEvent event info s
      | CROSS_CORE_SYNC_EVENT info \<Rightarrow> Replayer_ProcessBlockSyncEvent event info s
      | CROSS_CORE_SOFT_SYNC_EVENT info \<Rightarrow> Replayer_ProcessBlockSoftSyncEvent event info curPipe s
      | MSTX_CROSS_SYNC_EVENT info \<Rightarrow> Replayer_ProcessMstxCrossSyncEvent info s
      | MSTX_CROSS_CORE_BARRIER b \<Rightarrow> Replayer_ProcessMstxCrossCoreBarrier event b s
      | MSTX_CROSS_NPU_BARRIER b \<Rightarrow> Replayer_ProcessMstxCrossNpuBarrier event b s
      | BUF_SYNC_EVENT info \<Rightarrow> Replayer_ProcessGetRlsBufSyncEvent event info s
      | TIME_EVENT \<Rightarrow> (PROCESS_OK, s)
      | MEM_EVENT _ \<Rightarrow> Replayer_ProcessMemEvent event s
      | DYNAMIC_MEM_EVENT _ \<Rightarrow> Replayer_ProcessMemEvent event s
      | _ \<Rightarrow> (PROCESS_OK, s))"

definition Replayer_ProcessEvent :: "PipelineReplayer EventFunc" where
  "Replayer_ProcessEvent event = (\<lambda>(s, c).
     if \<not> is_memory event \<and> GetPipeIndex c \<noteq> pipe event \<and> pipe_code (pipe event) < pipe_code PIPE_SIZE
     then (PROCESS_OK, s, EventContainer_Push c event (pipe event) (GetEventBlockIndex3 event (rp_kernelType s) (rp_deviceType s)) 0)
     else (case Replayer_dispatch event (GetQueIndex c) s of (r, s1) \<Rightarrow> (r, s1, c)))"

definition Replayer_Do :: "SanEvent \<Rightarrow> PipelineReplayer \<times> EventContainer \<Rightarrow> (PipelineReplayer \<times> EventContainer) option" where
  "Replayer_Do event = (\<lambda>(s, c).
     if \<not> is_finish event
     then (let s1 = Replayer_CacheMstxCrossSet event s;
               s2 = (if is_memory event then s1\<lparr>memEventCount := memEventCount s1 + 1\<rparr> else s1)
           in Some (s2, EventContainer_Push c event PIPE_S (GetEventBlockIndex3 event (rp_kernelType s2) (rp_deviceType s2)) 0))
     else (case PipeLine_Run (Some Replayer_ProcessEvent) (PipeLine_new s c) of
             None \<Rightarrow> None
           | Some p \<Rightarrow>
               (let s1 = (if callback (client p) \<and> \<not> EventContainer_IsEmpty (events p)
                          then fold (notify ALL_DEVICE_STUCK) (ForEachFrontEvent (events p)) (client p) else client p)
                in Some (s1\<lparr>rp_isFinished := True\<rparr>, events p))))"

section \<open>The replayer on the pipeline\<close>

lemma pipe_code_SIZE: "pipe_code p < 12 \<longleftrightarrow> p \<noteq> PIPE_SIZE"
  by (cases p) simp_all

definition Replayer_moves :: "SanEvent \<Rightarrow> bool" where
  "Replayer_moves e \<longleftrightarrow> \<not> is_memory e \<and> pipe e \<noteq> PIPE_SIZE"

interpretation replay: launching_handler Replayer_ProcessEvent Replayer_moves "\<lambda>e _ s. (s, [e])"
  "\<lambda>s e. (GetEventBlockIndex3 e (rp_kernelType s) (rp_deviceType s), 0)" Replayer_dispatch
proof
  show "length (concat (map split_event (snd (s, [e])))) \<le> 3" for e and s :: PipelineReplayer
    using split_event_length [of e] by simp
qed (auto simp: Replayer_ProcessEvent_def Replayer_moves_def push_list_def pipe_code_SIZE case_prod_unfold)

text \<open>An operation that keeps the parameters of the kernel and calls nothing.\<close>

definition silent :: "PipelineReplayer \<Rightarrow> PipelineReplayer \<Rightarrow> bool" where
  "silent s s' \<longleftrightarrow> rp_kernelType s' = rp_kernelType s \<and> rp_deviceType s' = rp_deviceType s \<and> callback s' = callback s \<and> called s' = called s"

lemma silent_ops [simp]:
  "silent s s" "silent s (snd (Replayer_ProcessSyncEvent e si s))" "silent s (snd (Replayer_ProcessBlockSyncEvent e fi s))"
  "silent s (snd (Replayer_ProcessBlockSoftSyncEvent e ti k s))" "silent s (snd (Replayer_ProcessMstxCrossSyncEvent mi s))"
  "silent s (snd (Replayer_ProcessMstxCrossCoreBarrier e cb s))" "silent s (snd (Replayer_ProcessMstxCrossNpuBarrier e nb s))"
  "silent s (snd (Replayer_ProcessGetRlsBufSyncEvent e bi s))" "silent s (Replayer_CacheMstxCrossSet e s)"
  by (auto simp: silent_def Replayer_ProcessSyncEvent_def Replayer_ProcessBlockSyncEvent_def Replayer_ProcessBlockSoftSyncEvent_def
      Replayer_ProcessMstxCrossSyncEvent_def Replayer_ProcessMstxCrossCoreBarrier_def Replayer_ProcessMstxCrossNpuBarrier_def
      Replayer_ProcessGetRlsBufSyncEvent_def Replayer_CacheMstxCrossSet_def Let_def split: prod.split option.split EventInfo.split)

definition replayed :: "PipelineReplayer \<Rightarrow> SanEvent list" where
  "replayed s = map snd [x \<leftarrow> called s. fst x = MEMORY_EVENT]"

definition memory_of :: "SanEvent \<Rightarrow> SanEvent list" where
  "memory_of e = (if is_memory e then [e] else [])"

lemma Replayer_dispatch_log:
  assumes "callback s"
  shows "replayed (snd (Replayer_dispatch e k s)) =
      replayed s @ (if fst (Replayer_dispatch e k s) = PROCESS_OK then memory_of e else [])"
    and "rp_kernelType (snd (Replayer_dispatch e k s)) = rp_kernelType s" "rp_deviceType (snd (Replayer_dispatch e k s)) = rp_deviceType s"
      "callback (snd (Replayer_dispatch e k s)) = callback s"
proof -
  let ?r = "Replayer_dispatch e k s"
  have "silent s (snd ?r) \<and> \<not> is_memory e \<or> ?r = (PROCESS_OK, notify MEMORY_EVENT e s) \<and> is_memory e"
    using assms by (cases "eventInfo e") (simp_all add: Replayer_dispatch_def is_memory_def Replayer_ProcessMemEvent_def)
  then have "replayed (snd ?r) = replayed s @ (if fst ?r = PROCESS_OK then memory_of e else []) \<and>
      rp_kernelType (snd ?r) = rp_kernelType s \<and> rp_deviceType (snd ?r) = rp_deviceType s \<and> callback (snd ?r) = callback s"
    by (auto simp: silent_def replayed_def memory_of_def notify_def)
  then show "replayed (snd ?r) = replayed s @ (if fst ?r = PROCESS_OK then memory_of e else [])"
    "rp_kernelType (snd ?r) = rp_kernelType s" "rp_deviceType (snd ?r) = rp_deviceType s" "callback (snd ?r) = callback s" by simp_all
qed

lemma split_event_memory: "x \<in> set (split_event e) \<Longrightarrow> is_memory x = is_memory e \<and> loc x = loc e \<and> pipe x = pipe e"
  by (auto simp: split_event_def is_memory_def split: EventInfo.splits if_splits)

interpretation replay_log: recording_handler Replayer_ProcessEvent Replayer_moves "\<lambda>e _ s. (s, [e])"
  "\<lambda>s e. (GetEventBlockIndex3 e (rp_kernelType s) (rp_deviceType s), 0)" Replayer_dispatch
  "\<lambda>s. callback s \<and> rp_kernelType s = kt \<and> rp_deviceType s = dt" "\<lambda>e. GetEventBlockIndex3 e kt dt"
  replayed memory_of "\<lambda>e. (GetEventBlockIndex3 e kt dt, PIPE_S)"
  for kt dt
proof
  show "GetEventBlockIndex3 x kt dt = GetEventBlockIndex3 e kt dt \<and> Replayer_moves x = Replayer_moves e"
    if "x \<in> set (split_event e)" for x e
    using split_event_memory [OF that] by (simp add: GetEventBlockIndex_ByLoc Replayer_moves_def)
  show "replayed (snd (Replayer_dispatch e i s)) =
      replayed s @ (if fst (Replayer_dispatch e i s) = PROCESS_OK then memory_of e else [])"
    if "callback s \<and> rp_kernelType s = kt \<and> rp_deviceType s = dt" for s e i
    using that Replayer_dispatch_log(1) by blast
qed (auto simp: memory_of_def Replayer_moves_def Replayer_dispatch_log split: if_splits)

section \<open>Properties\<close>

lemma Replayer_new_fields:
  "\<exists>s'. Replayer_Init kt dt n s = (s', EventContainer_Init (if NeedExpandBlockDim kt dt then n * 3 else n) 1) \<and>
     rp_kernelType s' = kt \<and> rp_deviceType s' = dt \<and> callback s' = callback s \<and> called s' = called s"
  by (simp add: Replayer_Init_def Let_def subblock_dims)

lemma Replayer_feed:
  assumes "\<forall>e\<in>set es. \<not> is_finish e"
  shows "\<exists>s'. silent s s' \<and> feed Replayer_Do es (s, c) =
     Some (s', load (\<lambda>e. GetEventBlockIndex3 e (rp_kernelType s) (rp_deviceType s)) c es)"
  using assms
proof (induction es arbitrary: s c)
  case (Cons e es)
  define s1 where "s1 = (let s1 = Replayer_CacheMstxCrossSet e s in if is_memory e then s1\<lparr>memEventCount := memEventCount s1 + 1\<rparr> else s1)"
  have q: "silent s s1" using silent_ops(9) [of s e] by (simp add: s1_def Let_def silent_def)
  let ?c = "EventContainer_Push c e PIPE_S (GetEventBlockIndex3 e (rp_kernelType s) (rp_deviceType s)) 0"
  have "Replayer_Do e (s, c) = Some (s1, ?c)"
    using Cons.prems q by (simp add: Replayer_Do_def s1_def Let_def silent_def)
  moreover obtain s' where "silent s1 s'"
      "feed Replayer_Do es (s1, ?c) = Some (s', load (\<lambda>e. GetEventBlockIndex3 e (rp_kernelType s) (rp_deviceType s)) ?c es)"
    using Cons.IH [of s1 ?c] Cons.prems q by (auto simp: silent_def)
  ultimately show ?case using q by (auto simp: load_def silent_def)
qed (auto simp: load_def)

lemma notify_fold:
  "called (fold (notify t) es s) = called s @ map (Pair t) es" "callback (fold (notify t) es s) = callback s"
  by (induction es arbitrary: s) (simp_all add: notify_def)

lemma memory_of_simps [simp]: "is_memory e \<Longrightarrow> memory_of e = [e]" "\<not> is_memory e \<Longrightarrow> memory_of e = []"
  by (simp_all add: memory_of_def)

lemma Replayer_calls_memory:
  assumes "\<forall>x\<in>set (called s). fst x = MEMORY_EVENT"
  shows "\<forall>x\<in>set (called (snd (Replayer_dispatch e k s))). fst x = MEMORY_EVENT"
proof -
  have "silent s (snd (Replayer_dispatch e k s)) \<or> snd (Replayer_dispatch e k s) = notify MEMORY_EVENT e s"
    by (cases "eventInfo e") (simp_all add: Replayer_dispatch_def Replayer_ProcessMemEvent_def)
  then show ?thesis using assms by (auto simp: silent_def notify_def)
qed

lemma Replayer_run_calls:
  assumes "replay.pl_inv p" "PipeLine_Run (Some Replayer_ProcessEvent) p = Some r" "called (client p) = []"
  shows "called (client r) = map (Pair MEMORY_EVENT) (replayed (client r))"
proof -
  have "\<forall>x\<in>set (called (client r)). fst x = MEMORY_EVENT"
  proof (rule replay.Run_invariant [where P = "\<lambda>s _. \<forall>x\<in>set (called s). fst x = MEMORY_EVENT", OF assms(1) _ assms(2)])
    fix s s' :: PipelineReplayer and c c'
    assume c: "\<forall>x\<in>set (called s). fst x = MEMORY_EVENT"
    then show step: "\<forall>x\<in>set (called s'). fst x = MEMORY_EVENT"
      if "Replayer_ProcessEvent (hd (at_cursor c)) (s, c) = (PROCESS_OK, s', c')"
      using that c Replayer_calls_memory [OF c, of "hd (at_cursor c)" "GetQueIndex c"]
      by (simp add: Replayer_ProcessEvent_def split: if_splits prod.splits)
    show "\<forall>x\<in>set (called s'). fst x = MEMORY_EVENT"
      if "Replayer_ProcessEvent (hd (at_cursor c)) (s, c) = (PROCESS_STALLED, s', c')"
      using that c Replayer_calls_memory [OF c, of "hd (at_cursor c)" "GetQueIndex c"]
      by (simp add: Replayer_ProcessEvent_def split: if_splits prod.splits)
  qed (simp_all add: assms(3))
  moreover have "xs = map (Pair MEMORY_EVENT) (map snd [x \<leftarrow> xs. fst x = MEMORY_EVENT])"
    if "\<forall>x\<in>set xs. fst x = MEMORY_EVENT" for xs :: "(ReplayerCallbackType \<times> SanEvent) list"
    using that by (induction xs) auto
  ultimately show ?thesis by (simp only: replayed_def)
qed

definition Replayer_blocks :: "KernelType \<Rightarrow> DeviceType \<Rightarrow> nat \<Rightarrow> nat" where
  "Replayer_blocks kt dt n = (if NeedExpandBlockDim kt dt then n * 3 else n)"

lemma Replayer_check:
  assumes "0 < n" "recorded es" "is_finish fin"
  obtains s1 r where "rp_kernelType s1 = kt" "rp_deviceType s1 = dt" "callback s1 = callback s" "called s1 = called s"
    "PipeLine_Run (Some Replayer_ProcessEvent) (PipeLine_new s1
       (load (\<lambda>e. GetEventBlockIndex3 e kt dt) (EventContainer_Init (Replayer_blocks kt dt n) 1) es)) = Some r"
    "feed Replayer_Do (es @ [fin]) (Replayer_Init kt dt n s) =
       Some ((if callback (client r) \<and> \<not> EventContainer_IsEmpty (events r)
              then fold (notify ALL_DEVICE_STUCK) (ForEachFrontEvent (events r)) (client r) else client r)\<lparr>rp_isFinished := True\<rparr>, events r)"
proof -
  let ?c = "load (\<lambda>e. GetEventBlockIndex3 e kt dt) (EventContainer_Init (Replayer_blocks kt dt n) 1) es"
  have rec: "\<forall>e\<in>set es. \<not> is_finish e" "\<forall>e\<in>set es. pipe e \<noteq> PIPE_SIZE" using assms(2) by (simp_all add: recorded_def)
  obtain s0 where s0: "Replayer_Init kt dt n s = (s0, EventContainer_Init (Replayer_blocks kt dt n) 1)"
      "rp_kernelType s0 = kt" "rp_deviceType s0 = dt" "callback s0 = callback s" "called s0 = called s"
    using Replayer_new_fields [of kt dt n s] by (auto simp: Replayer_blocks_def)
  obtain s1 where s1: "silent s0 s1" "feed Replayer_Do es (Replayer_Init kt dt n s) = Some (s1, ?c)"
    using Replayer_feed [OF rec(1), of s0] s0 by auto
  have "0 < Replayer_blocks kt dt n" using assms(1) by (simp add: Replayer_blocks_def)
  then obtain r where r: "PipeLine_Run (Some Replayer_ProcessEvent) (PipeLine_new s1 ?c) = Some r"
    using replay.loaded_inv(2) [OF _ rec(2)] by blast
  then have "feed Replayer_Do (es @ [fin]) (Replayer_Init kt dt n s) =
      Some ((if callback (client r) \<and> \<not> EventContainer_IsEmpty (events r)
             then fold (notify ALL_DEVICE_STUCK) (ForEachFrontEvent (events r)) (client r) else client r)\<lparr>rp_isFinished := True\<rparr>, events r)"
    using s1(2) assms(3) by (simp add: feed_append Replayer_Do_def Let_def)
  moreover have "rp_kernelType s1 = kt" "rp_deviceType s1 = dt" "callback s1 = callback s" "called s1 = called s"
    using s1(1) s0 by (simp_all add: silent_def)
  ultimately show thesis using r that by blast
qed

text \<open>
  The replay always returns: whatever events are fed to \<open>Do\<close>, the call with \<open>KERNEL_FINISH\<close> ends
  and sets the finished flag, also when the kernel deadlocks.
\<close>
theorem Replayer_always_finishes:
  assumes "0 < blockDim" "recorded es" "is_finish fin"
  shows "\<exists>s' c. feed Replayer_Do (es @ [fin]) (Replayer_Init kt dt blockDim s) = Some (s', c) \<and> rp_isFinished s'"
  by (rule Replayer_check [OF assms, of kt dt s]) simp

definition fresh_replayer :: PipelineReplayer where
  "fresh_replayer = \<lparr>rp_syncDB = [], rp_sync = CrossCoreSync_Init 0 KT_AICPU, memEventCount = 0, rp_barrier = Map.empty,
     rp_mstxSetCrossMap = Map.empty, rp_getRlsBufMap = Map.empty, getBufCount = Map.empty, rp_kernelType = KT_AICPU,
     rp_deviceType = ASCEND_910_PREMIUM_A, rp_blockDim = 0, rp_isFinished = False, callback = True, called = []\<rparr>"

definition memory_event :: SanEvent where
  "memory_event = sample_event PIPE_V (DYNAMIC_MEM_EVENT \<lparr>dyn_count = 0, minAddr = 0, maxAddr = 0, dynamicType = 0,
     dyn_memType = MEM_GM, dyn_buffer = None\<rparr>)"

definition finish_kernel :: SanEvent where
  "finish_kernel = sample_event PIPE_S (SANITIZER_CONTROL_EVENT SC_KERNEL_FINISH)"

lemma memory_recorded: "recorded [memory_event]" "is_finish finish_kernel"
  by (simp_all add: recorded_def memory_event_def finish_kernel_def sample_event_def is_finish_def)

theorem Replayer_always_finishes_witness:
  "\<exists>s' c. feed Replayer_Do [memory_event, finish_kernel] (Replayer_Init KT_MIX ASCEND_910B1 2 fresh_replayer) = Some (s', c) \<and>
     rp_isFinished s'"
  using Replayer_always_finishes [OF _ memory_recorded, of 2 KT_MIX ASCEND_910B1 fresh_replayer] by simp

text \<open>
  C30. What the replay hands to its callback: first the memory accesses, of each block in program
  order (a copy as its read and its write) and without omission, so that what is missing is a suffix
  of the program and nothing is missing when the queues are empty; then, if and only if the kernel is
  stuck, the first unprocessed event of every queue.
\<close>
theorem Replayer_callback_order:
  assumes "0 < blockDim" "recorded es" "is_finish fin" "callback s" "called s = []"
    and "feed Replayer_Do (es @ [fin]) (Replayer_Init kt dt blockDim s) = Some (s', c)"
    and "b < Replayer_blocks kt dt blockDim"
  shows "\<exists>mems. called s' = map (Pair MEMORY_EVENT) mems @
           map (Pair ALL_DEVICE_STUCK) (if EventContainer_IsEmpty c then [] else ForEachFrontEvent c) \<and>
     (\<exists>rest. [e \<leftarrow> concat (map split_event es). is_memory e \<and> GetEventBlockIndex3 e kt dt = b] =
          [e \<leftarrow> mems. GetEventBlockIndex3 e kt dt = b] @ rest \<and> (EventContainer_IsEmpty c \<longrightarrow> rest = []))"
proof (rule Replayer_check [OF assms(1-3), of kt dt s])
  let ?n = "Replayer_blocks kt dt blockDim" and ?bl = "\<lambda>e. GetEventBlockIndex3 e kt dt"
  fix s1 r
  assume s1: "rp_kernelType s1 = kt" "rp_deviceType s1 = dt" "callback s1 = callback s" "called s1 = called s"
    and run: "PipeLine_Run (Some Replayer_ProcessEvent) (PipeLine_new s1 (load ?bl (EventContainer_Init ?n 1) es)) = Some r"
    and fed: "feed Replayer_Do (es @ [fin]) (Replayer_Init kt dt blockDim s) =
       Some ((if callback (client r) \<and> \<not> EventContainer_IsEmpty (events r)
              then fold (notify ALL_DEVICE_STUCK) (ForEachFrontEvent (events r)) (client r) else client r)\<lparr>rp_isFinished := True\<rparr>, events r)"
  have n: "0 < ?n" and es: "\<forall>e\<in>set es. pipe e \<noteq> PIPE_SIZE" using assms(1,2) by (simp_all add: Replayer_blocks_def recorded_def)
  note inv = replay.loaded_inv(1) [OF n es, of s1 ?bl]
  have I0: "replay_log.rec_inv kt dt (\<lambda>b p. replay_log.at_site kt dt b p (replayed s1 @ replay_log.entries (concat (map split_event es))))
      ?n s1 (load ?bl (EventContainer_Init ?n 1) es)"
    by (rule replay_log.rec_inv_load [OF n _ es]) (use s1 assms(4) in simp)
  have I: "replay_log.rec_inv kt dt (\<lambda>b p. replay_log.at_site kt dt b p (replayed s1 @ replay_log.entries (concat (map split_event es))))
      ?n (client r) (events r)"
    by (rule replay_log.Run_log [OF inv _ run]) (use I0 in \<open>simp add: PipeLine_new_def\<close>)
  have cb: "callback (client r)" using I by (simp add: replay_log.rec_inv_def)
  have ent: "replay_log.at_site kt dt b PIPE_S (replay_log.entries xs) = [e \<leftarrow> xs. is_memory e \<and> ?bl e = b]" for xs
  proof (induction xs)
    case (Cons x xs)
    then show ?case by (cases "is_memory x") (simp_all add: replay_log.at_site_def)
  qed simp
  have "replayed s1 = []" using s1(4) assms(5) by (simp add: replayed_def)
  then have prog: "[e \<leftarrow> concat (map split_event es). is_memory e \<and> ?bl e = b] =
      [e \<leftarrow> replayed (client r). ?bl e = b] @ [e \<leftarrow> queued (events r) 0 b 0. is_memory e \<and> ?bl e = b]"
  proof -
    have "replay_log.timeline kt dt (client r) (events r) b PIPE_S =
        replay_log.at_site kt dt b PIPE_S (replayed s1 @ replay_log.entries (concat (map split_event es)))"
      using I assms(7) by (simp add: replay_log.rec_inv_def)
    then show ?thesis using \<open>replayed s1 = []\<close> by (simp add: replay_log.timeline_def ent) (simp add: replay_log.at_site_def)
  qed
  have "replay.pl_inv r" using replay.pl_inv_Run [OF inv run] by simp
  then have "queued (events r) 0 b 0 = []" if "EventContainer_IsEmpty (events r)"
    using replay.pl_inv_ec that I assms(7) by (simp add: IsEmpty_queued replay_log.rec_inv_def replay_log.placed_def in_range_def)
  moreover have "called (client r) = map (Pair MEMORY_EVENT) (replayed (client r))"
    by (rule Replayer_run_calls [OF inv run]) (simp add: PipeLine_new_def s1(4) assms(5))
  moreover have "called s' = called (client r) @ map (Pair ALL_DEVICE_STUCK) (if EventContainer_IsEmpty c then [] else ForEachFrontEvent c)"
    "c = events r" using fed assms(6) cb by (auto simp: notify_fold)
  ultimately show ?thesis using prog by auto
qed

lemma sample_replayer:
  "map_option (\<lambda>(s', c). EventContainer_IsEmpty c)
     (feed Replayer_Do [memory_event, finish_kernel] (Replayer_Init KT_AIVEC ASCEND_910B1 1 fresh_replayer)) = Some True"
  by code_simp

theorem Replayer_callback_order_witness:
  "\<exists>s' c. feed Replayer_Do [memory_event, finish_kernel] (Replayer_Init KT_AIVEC ASCEND_910B1 1 fresh_replayer) = Some (s', c) \<and>
     (\<exists>mems. called s' = map (Pair MEMORY_EVENT) mems \<and> [memory_event] = [e \<leftarrow> mems. GetEventBlockIndex3 e KT_AIVEC ASCEND_910B1 = 0])"
proof -
  obtain s' c where fed: "feed Replayer_Do ([memory_event] @ [finish_kernel]) (Replayer_Init KT_AIVEC ASCEND_910B1 1 fresh_replayer) = Some (s', c)"
    and empty: "EventContainer_IsEmpty c" using sample_replayer by auto
  have "split_event memory_event = [memory_event]" "is_memory memory_event" "GetEventBlockIndex3 memory_event KT_AIVEC ASCEND_910B1 = 0"
    by (simp_all add: memory_event_def sample_event_def sample_loc_def split_event_def is_memory_def GetEventBlockIndex3_def NeedExpandBlockDim_def)
  then show ?thesis
    using Replayer_callback_order [OF _ memory_recorded _ _ fed, of 0] fed empty
    by (simp add: fresh_replayer_def Replayer_blocks_def NeedExpandBlockDim_def)
qed

end
