(* ===== verification/CrossCoreAlg.thy ===== *)
theory CrossCoreAlg
  imports RaceAlgCorrect Replayer
begin

text \<open>
  The race check across cores (\<open>csrc/race_sanitizer/alg_framework/cross_core_race_alg_impl.cpp\<close>), the
  factory that picks an algorithm (\<open>race_alg_factory.cpp\<close>), and the check inside one pipe on the
  pipeline. The cross-core check keeps one flag store per block and adds barriers and signals; its
  first stage drops the accesses to memory that only one core can reach.
\<close>

section \<open>The check across cores\<close>

record CrossCoreRaceAlgImpl = RaceAlgBase +
  cc_syncDB :: "SyncEventDataBase list"
  crossCoreBarrier :: "(CrossNpuBarrierConf, nat) BarrierDatabase"
  signalDatabase :: SignalDatabase

definition CrossCore_blocks :: "KernelType \<Rightarrow> DeviceType \<Rightarrow> nat \<Rightarrow> nat" where
  "CrossCore_blocks kt dt blockDim = (if NeedExpandBlockDim kt dt then blockDim * C220_MIX_SUB_BLOCKDIM else blockDim)"

definition CrossCore_new :: "KernelType \<Rightarrow> DeviceType \<Rightarrow> nat \<Rightarrow> CrossCoreRaceAlgImpl \<times> EventContainer" where
  "CrossCore_new kt dt blockDim =
     (let totalBlockNum = CrossCore_blocks kt dt blockDim
      in (RaceAlgBase.extend (RaceAlgBase_fields kt dt blockDim totalBlockNum CROSS_BLOCK_CHECK)
            (CrossCoreRaceAlgImpl.fields (replicate totalBlockNum Map.empty) Map.empty Map.empty),
          EventContainer_Init totalBlockNum 1))"

definition NeedCrossCoreMemCheck :: "DeviceType \<Rightarrow> MemType \<Rightarrow> bool" where
  "NeedCrossCoreMemCheck dt mt \<longleftrightarrow> mt = MEM_GM \<or> (IsAscend95 dt \<and> mt = MEM_UB)"

definition CrossCore_ProcessBlockSoftSyncEvent ::
  "SanEvent \<Rightarrow> SoftSyncInfo \<Rightarrow> nat \<Rightarrow> CrossCoreRaceAlgImpl \<Rightarrow> ReturnType \<times> CrossCoreRaceAlgImpl" where
  "CrossCore_ProcessBlockSoftSyncEvent event info curPipe s =
     (let blockIdx = GetEventBlockIndex event (ra_kernelType s) (ra_deviceType s) CROSS_BLOCK_CHECK in
      if soft_opType info = SYNC_ALL
      then (case waited curPipe (SyncAll blockIdx (usedCores info) curPipe (vc s ! curPipe) (ra_sync s)) s of
              (PROCESS_STALLED, s1) \<Rightarrow> (PROCESS_STALLED, s1)
            | (PROCESS_OK, s1) \<Rightarrow> (PROCESS_OK, s1\<lparr>vc := UpdateSyncAllVectorTime (ra_sync s1) (vc s1)\<rparr>))
      else if soft_opType info = IB_SET
      then (let s1 = tick curPipe s
            in (PROCESS_OK, s1\<lparr>ra_sync := SetBlockSoftSyncInfo (soft_eventID info) blockIdx (vc s1 ! curPipe) (ra_sync s1)\<rparr>))
      else if soft_opType info = IB_WAIT
      then waited curPipe (GetBlockSoftSyncInfo (soft_eventID info) (waitCoreID info) (vc s ! curPipe) (ra_sync s)) s
      else (PROCESS_STALLED, s))"

definition CrossCore_ProcessMstxSignalSetEvent :: "MstxSignalSet \<Rightarrow> nat \<Rightarrow> CrossCoreRaceAlgImpl \<Rightarrow> ReturnType \<times> CrossCoreRaceAlgImpl" where
  "CrossCore_ProcessMstxSignalSetEvent info curPipe s =
     (let s1 = tick curPipe s
      in (PROCESS_OK, s1\<lparr>signalDatabase := SignalDatabase_Accumulate (signalDatabase s1) info (vc s1 ! curPipe)\<rparr>))"

definition CrossCore_ProcessMstxSignalWaitEvent :: "MstxSignalWait \<Rightarrow> nat \<Rightarrow> CrossCoreRaceAlgImpl \<Rightarrow> ReturnType \<times> CrossCoreRaceAlgImpl" where
  "CrossCore_ProcessMstxSignalWaitEvent info curPipe s =
     (case SignalDatabase_Wait (signalDatabase s) info VectorTime_new of
        (vt, True) \<Rightarrow> (PROCESS_OK, tick curPipe (receive vt curPipe s))
      | (vt, False) \<Rightarrow> (PROCESS_STALLED, s))"

definition CrossCore_ProcessMemEvent :: "MemOpInfo \<Rightarrow> SanEvent \<Rightarrow> nat \<Rightarrow> CrossCoreRaceAlgImpl \<Rightarrow> ReturnType \<times> CrossCoreRaceAlgImpl" where
  "CrossCore_ProcessMemEvent = record_access"

definition CrossCore_ProcessDynamicMemEvent :: "MemOpInfo \<Rightarrow> SanEvent \<Rightarrow> nat \<Rightarrow> CrossCoreRaceAlgImpl \<Rightarrow> ReturnType \<times> CrossCoreRaceAlgImpl" where
  "CrossCore_ProcessDynamicMemEvent = record_access"

definition CrossCore_ProcessTimeEvent :: "SanEvent \<Rightarrow> nat \<Rightarrow> CrossCoreRaceAlgImpl \<Rightarrow> ReturnType \<times> CrossCoreRaceAlgImpl" where
  "CrossCore_ProcessTimeEvent = receive_snapshot"

text \<open>The flags between the pipes of one block use the clock the event names, not that of the cursor.\<close>

definition CrossCore_ProcessSyncEvent :: "SanEvent \<Rightarrow> SyncOpInfo \<Rightarrow> CrossCoreRaceAlgImpl \<Rightarrow> ReturnType \<times> CrossCoreRaceAlgImpl" where
  "CrossCore_ProcessSyncEvent event info s =
     (let blockIdx = GetEventBlockIndex event (ra_kernelType s) (ra_deviceType s) CROSS_BLOCK_CHECK;
          dstPipe = blockIdx * PIPE_NUM + pipe_code (pipe event)
      in case flag_step info dstPipe (cc_syncDB s ! blockIdx) s of
           (r, db, s1) \<Rightarrow> (r, s1\<lparr>cc_syncDB := (cc_syncDB s1)[blockIdx := db]\<rparr>))"

definition CrossCore_ProcessMstxCrossCoreBarrier ::
  "SanEvent \<Rightarrow> MstxCrossCoreBarrier \<Rightarrow> nat \<Rightarrow> CrossCoreRaceAlgImpl \<Rightarrow> ReturnType \<times> CrossCoreRaceAlgImpl" where
  "CrossCore_ProcessMstxCrossCoreBarrier event barrier curPipe s =
     (let conf = \<lparr>conf_isAIVOnly = ccb_isAIVOnly barrier, conf_usedDeviceNum = 1, conf_usedCoreNum = ccb_usedCoreNum barrier\<rparr> in
      case BarrierDatabase_Wait (conf_usedCoreNum conf) conf (coreId (loc event)) (vc s ! curPipe) (crossCoreBarrier s) of
        (db, None) \<Rightarrow> (PROCESS_STALLED, s\<lparr>crossCoreBarrier := db\<rparr>)
      | (db, Some vt) \<Rightarrow> (PROCESS_OK, tick curPipe (receive vt curPipe (s\<lparr>crossCoreBarrier := db\<rparr>))))"

definition CrossCore_ProcessMstxCrossNpuBarrier ::
  "SanEvent \<Rightarrow> MstxCrossNpuBarrier \<Rightarrow> nat \<Rightarrow> CrossCoreRaceAlgImpl \<Rightarrow> ReturnType \<times> CrossCoreRaceAlgImpl" where
  "CrossCore_ProcessMstxCrossNpuBarrier event barrier curPipe s =
     CrossCore_ProcessMstxCrossCoreBarrier (event\<lparr>eventInfo := MSTX_CROSS_CORE_BARRIER (decay_barrier barrier)\<rparr>)
       (decay_barrier barrier) curPipe s"

definition CrossCore_dispatch :: "MemOpInfo \<Rightarrow> SanEvent \<Rightarrow> nat \<Rightarrow> CrossCoreRaceAlgImpl \<Rightarrow> ReturnType \<times> CrossCoreRaceAlgImpl" where
  "CrossCore_dispatch junk event curPipe s =
     (case eventInfo event of
        SYNC_EVENT info \<Rightarrow> CrossCore_ProcessSyncEvent event info s
      | MEM_EVENT _ \<Rightarrow> CrossCore_ProcessMemEvent junk event curPipe s
      | TIME_EVENT \<Rightarrow> CrossCore_ProcessTimeEvent event curPipe s
      | CROSS_CORE_SYNC_EVENT info \<Rightarrow> ProcessBlockSyncEvent CROSS_BLOCK_CHECK event info curPipe s
      | CROSS_CORE_SOFT_SYNC_EVENT info \<Rightarrow> CrossCore_ProcessBlockSoftSyncEvent event info curPipe s
      | MSTX_CROSS_SYNC_EVENT info \<Rightarrow> ProcessMstxCrossSyncEvent info curPipe s
      | MSTX_SIGNAL_SET_EVENT info \<Rightarrow> CrossCore_ProcessMstxSignalSetEvent info curPipe s
      | MSTX_SIGNAL_WAIT_EVENT info \<Rightarrow> CrossCore_ProcessMstxSignalWaitEvent info curPipe s
      | MSTX_CROSS_CORE_BARRIER b \<Rightarrow> CrossCore_ProcessMstxCrossCoreBarrier event b curPipe s
      | MSTX_CROSS_NPU_BARRIER b \<Rightarrow> CrossCore_ProcessMstxCrossNpuBarrier event b curPipe s
      | BUF_SYNC_EVENT info \<Rightarrow> ProcessGetRlsBufSyncEvent CROSS_BLOCK_CHECK event info curPipe s
      | DYNAMIC_MEM_EVENT _ \<Rightarrow> CrossCore_ProcessDynamicMemEvent junk event curPipe s
      | _ \<Rightarrow> (PROCESS_OK, s))"

text \<open>The snapshot event carries the serial number, the core and the block type of the event it precedes.\<close>

definition snapshot_header :: "SanEvent \<Rightarrow> SanEvent" where
  "snapshot_header event = SanEvent_new\<lparr>serialNo := serialNo event,
     loc := (loc SanEvent_new)\<lparr>coreId := coreId (loc event), blockType := blockType (loc event)\<rparr>\<rparr>"

definition CrossCore_ProcessEvent :: "MemOpInfo \<Rightarrow> CrossCoreRaceAlgImpl EventFunc" where
  "CrossCore_ProcessEvent junk event = (\<lambda>(s, c).
     if GetPipeIndex c \<noteq> pipe event
     then launch_to snapshot_header event (GetEventBlockIndex event (ra_kernelType s) (ra_deviceType s) CROSS_BLOCK_CHECK) 0 (s, c)
     else (case CrossCore_dispatch junk event (GetQueIndex c) s of (r, s1) \<Rightarrow> (r, s1, c)))"

definition CrossCore_dropped :: "DeviceType \<Rightarrow> SanEvent \<Rightarrow> bool" where
  "CrossCore_dropped dt e =
     (case eventInfo e of
        MEM_EVENT m \<Rightarrow> \<not> NeedCrossCoreMemCheck dt (memType m)
      | DYNAMIC_MEM_EVENT d \<Rightarrow> \<not> NeedCrossCoreMemCheck dt (dyn_memType d)
      | _ \<Rightarrow> False)"

definition CrossCore_Do ::
  "(nat list \<Rightarrow> nat list) \<Rightarrow> bool \<Rightarrow> (nat \<Rightarrow> nat \<Rightarrow> string option) \<Rightarrow> MemOpInfo \<Rightarrow> SanEvent \<Rightarrow>
     CrossCoreRaceAlgImpl \<times> EventContainer \<Rightarrow> (CrossCoreRaceAlgImpl \<times> EventContainer) option" where
  "CrossCore_Do iter cfg names junk event = (\<lambda>(s, c).
     if \<not> is_finish event
     then (if CrossCore_dropped (ra_deviceType s) event then Some (s, c)
           else (let s1 = CacheMstxCrossSet event s
                 in Some (s1, EventContainer_Push c event PIPE_S
                                (GetEventBlockIndex event (ra_kernelType s1) (ra_deviceType s1) CROSS_BLOCK_CHECK) 0)))
     else stage2 iter cfg names (CrossCore_ProcessEvent junk) (s, c))"

section \<open>The factory\<close>

datatype RaceAlg =
    CoreAlg "RaceAlgImpl \<times> EventContainer"
  | PipeAlg "SinglePipeRaceAlgImpl \<times> EventContainer"
  | CrossAlg "CrossCoreRaceAlgImpl \<times> EventContainer"

definition RaceAlgFactory_Create :: "u32 list \<Rightarrow> (nat \<times> nat) list \<Rightarrow> RaceCheckType \<Rightarrow> KernelType \<Rightarrow> DeviceType \<Rightarrow> nat \<Rightarrow> RaceAlg" where
  "RaceAlgFactory_Create bars nums ct kt dt blockDim =
     (if ct = SINGLE_BLOCK_CHECK then CoreAlg (RaceAlgImpl_new kt dt blockDim)
      else if ct = SINGLE_PIPE_CHECK then PipeAlg (SinglePipe_new bars nums kt dt blockDim)
      else CrossAlg (CrossCore_new kt dt blockDim))"

section \<open>The check across cores on the pipeline\<close>

lemma CrossCore_quiet [simp]:
  "quiet s (snd (CrossCore_ProcessSyncEvent e si s))" "quiet s (snd (CrossCore_ProcessBlockSoftSyncEvent e ti i s))"
  "quiet s (snd (CrossCore_ProcessMstxSignalSetEvent ss i s))" "quiet s (snd (CrossCore_ProcessMstxSignalWaitEvent sw i s))"
  "quiet s (snd (CrossCore_ProcessMstxCrossCoreBarrier e cb i s))" "quiet s (snd (CrossCore_ProcessMstxCrossNpuBarrier e nb i s))"
proof -
  show "quiet s (snd (CrossCore_ProcessSyncEvent e si s))"
    using quiet_ops(8) [of s si] by (simp add: quiet_def CrossCore_ProcessSyncEvent_def Let_def case_prod_unfold)
qed (auto simp: quiet_def CrossCore_ProcessBlockSoftSyncEvent_def waited_def
      CrossCore_ProcessMstxSignalSetEvent_def CrossCore_ProcessMstxSignalWaitEvent_def
      CrossCore_ProcessMstxCrossCoreBarrier_def CrossCore_ProcessMstxCrossNpuBarrier_def Let_def
      split: prod.split option.split ReturnType.split bool.split)

lemmas cross_dispatch_defs = CrossCore_dispatch_def CrossCore_ProcessMemEvent_def CrossCore_ProcessDynamicMemEvent_def
  CrossCore_ProcessTimeEvent_def

lemma CrossCore_dispatch_log:
  "accesses (snd (CrossCore_dispatch junk e i s)) =
     accesses s @ (if fst (CrossCore_dispatch junk e i s) = PROCESS_OK then access_of junk e else [])"
  "ra_kernelType (snd (CrossCore_dispatch junk e i s)) = ra_kernelType s"
  "ra_deviceType (snd (CrossCore_dispatch junk e i s)) = ra_deviceType s"
proof -
  let ?s = "snd (CrossCore_dispatch junk e i s)"
  have "quiet s ?s \<and> access_of junk e = [] \<or>
      CrossCore_dispatch junk e i s = record_access junk e i s \<and> access_of junk e = [MemEvent_new junk e]"
    by (cases "eventInfo e") (simp_all add: cross_dispatch_defs access_of_def)
  then have "accesses ?s = accesses s @ (if fst (CrossCore_dispatch junk e i s) = PROCESS_OK then access_of junk e else []) \<and>
      ra_kernelType ?s = ra_kernelType s \<and> ra_deviceType ?s = ra_deviceType s"
    using record_access_log [of junk e i s] by (auto simp: accesses_def quiet_def)
  then show "accesses ?s = accesses s @ (if fst (CrossCore_dispatch junk e i s) = PROCESS_OK then access_of junk e else [])"
    "ra_kernelType ?s = ra_kernelType s" "ra_deviceType ?s = ra_deviceType s" by simp_all
qed

interpretation cross: launching_handler "CrossCore_ProcessEvent junk" "\<lambda>_. True" "launch snapshot_header"
  "\<lambda>s e. (GetEventBlockIndex e (ra_kernelType s) (ra_deviceType s) CROSS_BLOCK_CHECK, 0)" "CrossCore_dispatch junk"
  for junk
proof
  show "x \<in> set (snd (launch snapshot_header e i s)) \<Longrightarrow> pipe x = pipe e" for x e i and s :: CrossCoreRaceAlgImpl
    by (rule launch_events)
  show "length (concat (map split_event (snd (launch snapshot_header e i s)))) \<le> 3" for e i and s :: CrossCoreRaceAlgImpl
    by (rule launch_few_events)
qed (simp_all add: CrossCore_ProcessEvent_def launch_to_push case_prod_unfold)

interpretation cross_log: recording_handler "CrossCore_ProcessEvent junk" "\<lambda>_. True" "launch snapshot_header"
  "\<lambda>s e. (GetEventBlockIndex e (ra_kernelType s) (ra_deviceType s) CROSS_BLOCK_CHECK, 0)" "CrossCore_dispatch junk"
  "\<lambda>s. ra_kernelType s = kt \<and> ra_deviceType s = dt" "\<lambda>e. GetEventBlockIndex e kt dt CROSS_BLOCK_CHECK"
  accesses "access_of junk" "\<lambda>m. (GetEventBlockIndexByLoc (ev_loc m) kt dt CROSS_BLOCK_CHECK, ev_pipe m)"
  for junk kt dt
proof
  show "ra_kernelType (fst (launch snapshot_header e i s)) = kt \<and> ra_deviceType (fst (launch snapshot_header e i s)) = dt"
    if "ra_kernelType s = kt \<and> ra_deviceType s = dt" for e i and s :: CrossCoreRaceAlgImpl
    using that quiet_ops(9) [of s snapshot_header e i] by (simp add: quiet_def)
  show "accesses (fst (launch snapshot_header e i s)) = accesses s" for e i and s :: CrossCoreRaceAlgImpl
    by (rule quiet_accesses) simp
  show "x = e \<or> access_of junk x = [] \<and> split_event x = [x]" if "x \<in> set (snd (launch snapshot_header e i s))"
    for x e i and s :: CrossCoreRaceAlgImpl
    using launch_events(2) [OF that] access_of_TIME by blast
  show "concat (map (access_of junk) (concat (map split_event (snd (launch snapshot_header e i s))))) =
      concat (map (access_of junk) (split_event e))" for e i and s :: CrossCoreRaceAlgImpl
    by (rule launch_accesses)
  show "(GetEventBlockIndexByLoc (ev_loc m) kt dt CROSS_BLOCK_CHECK, ev_pipe m) =
      (GetEventBlockIndex e kt dt CROSS_BLOCK_CHECK, if True then pipe e else PIPE_S)" if "m \<in> set (access_of junk e)" for m e
    using that by (auto simp: access_of_def MemEvent_new_def GetEventBlockIndex_ByLoc split: EventInfo.splits)
  show "GetEventBlockIndex x kt dt CROSS_BLOCK_CHECK = GetEventBlockIndex e kt dt CROSS_BLOCK_CHECK \<and> True = True"
    if "x \<in> set (split_event e)" for x e
    using split_event_loc [OF that] by (simp add: GetEventBlockIndex_ByLoc)
  show "ra_kernelType (snd (CrossCore_dispatch junk e i s)) = kt \<and> ra_deviceType (snd (CrossCore_dispatch junk e i s)) = dt"
    if "ra_kernelType s = kt \<and> ra_deviceType s = dt" for e i s
    using that CrossCore_dispatch_log by simp
  show "accesses (snd (CrossCore_dispatch junk e i s)) =
      accesses s @ (if fst (CrossCore_dispatch junk e i s) = PROCESS_OK then access_of junk e else [])" for e i s
    by (rule CrossCore_dispatch_log)
qed simp

lemma cross_feed:
  assumes "\<forall>e\<in>set es. \<not> is_finish e"
  shows "\<exists>s'. quiet s s' \<and> feed (CrossCore_Do iter cfg names junk) es (s, c) =
     Some (s', load (\<lambda>e. GetEventBlockIndex e (ra_kernelType s) (ra_deviceType s) CROSS_BLOCK_CHECK) c
                 [e \<leftarrow> es. \<not> CrossCore_dropped (ra_deviceType s) e])"
  using assms
proof (induction es arbitrary: s c)
  case (Cons e es)
  show ?case
  proof (cases "CrossCore_dropped (ra_deviceType s) e")
    case True
    then show ?thesis using Cons by (simp add: CrossCore_Do_def)
  next
    case False
    let ?s = "CacheMstxCrossSet e s" and ?b = "\<lambda>e. GetEventBlockIndex e (ra_kernelType s) (ra_deviceType s) CROSS_BLOCK_CHECK"
    have q: "quiet s ?s" by (rule CacheMstxCrossSet_quiet)
    then have eq: "ra_kernelType ?s = ra_kernelType s" "ra_deviceType ?s = ra_deviceType s" by (simp_all add: quiet_def)
    obtain s' where s': "quiet ?s s'" "feed (CrossCore_Do iter cfg names junk) es (?s, EventContainer_Push c e PIPE_S (?b e) 0) =
       Some (s', load ?b (EventContainer_Push c e PIPE_S (?b e) 0) [e \<leftarrow> es. \<not> CrossCore_dropped (ra_deviceType s) e])"
      using Cons.IH [of ?s "EventContainer_Push c e PIPE_S (?b e) 0"] Cons.prems eq by auto
    moreover have "quiet s s'" using q s'(1) by (simp add: quiet_def)
    moreover have "CrossCore_Do iter cfg names junk e (s, c) = Some (?s, EventContainer_Push c e PIPE_S (?b e) 0)"
      using Cons.prems False by (simp add: CrossCore_Do_def Let_def eq)
    ultimately show ?thesis using False by (auto simp: load_def)
  qed
qed (auto simp: load_def)

lemma CrossCore_new_fields:
  "snd (CrossCore_new kt dt n) = EventContainer_Init (CrossCore_blocks kt dt n) 1"
  "ra_kernelType (fst (CrossCore_new kt dt n)) = kt" "ra_deviceType (fst (CrossCore_new kt dt n)) = dt"
  "accesses (fst (CrossCore_new kt dt n)) = []"
  by (simp_all add: CrossCore_new_def Let_def RaceAlgBase_fields_def RaceAlgBase.defs CrossCoreRaceAlgImpl.defs accesses_def
      MemEventChecker_Init_def MemEventChecker_new_def)

lemma cross_check:
  assumes "0 < n" "recorded es" "is_finish fin"
  obtains s r where "ra_kernelType s = kt" "ra_deviceType s = dt" "accesses s = []"
    "PipeLine_Run (Some (CrossCore_ProcessEvent junk)) (PipeLine_new s
       (load (\<lambda>e. GetEventBlockIndex e kt dt CROSS_BLOCK_CHECK) (EventContainer_Init (CrossCore_blocks kt dt n) 1)
         [e \<leftarrow> es. \<not> CrossCore_dropped dt e])) = Some r"
    "feed (CrossCore_Do iter cfg names junk) (es @ [fin]) (CrossCore_new kt dt n) =
       Some ((client r)\<lparr>memChecker := RunAlgorithm iter cfg names (memChecker (client r)), isFinished := True\<rparr>, events r)"
proof -
  let ?block = "\<lambda>e. GetEventBlockIndex e kt dt CROSS_BLOCK_CHECK" and ?es = "[e \<leftarrow> es. \<not> CrossCore_dropped dt e]"
  let ?c = "load ?block (EventContainer_Init (CrossCore_blocks kt dt n) 1) ?es"
  have rec: "\<forall>e\<in>set es. \<not> is_finish e" "\<forall>e\<in>set ?es. pipe e \<noteq> PIPE_SIZE" using assms(2) by (simp_all add: recorded_def)
  note new = CrossCore_new_fields [of kt dt n]
  obtain s0 where s0: "CrossCore_new kt dt n = (s0, EventContainer_Init (CrossCore_blocks kt dt n) 1)"
    using new(1) by (metis prod.collapse)
  obtain s where s: "quiet s0 s" "feed (CrossCore_Do iter cfg names junk) es (CrossCore_new kt dt n) = Some (s, ?c)"
    using cross_feed [OF rec(1), of s0 iter cfg names junk] new(2,3) s0 by auto
  have "0 < CrossCore_blocks kt dt n" using assms(1) by (simp add: CrossCore_blocks_def subblock_dims)
  then obtain r where r: "PipeLine_Run (Some (CrossCore_ProcessEvent junk)) (PipeLine_new s ?c) = Some r"
    using cross.loaded_inv(2) [OF _ rec(2)] by blast
  have "feed (CrossCore_Do iter cfg names junk) (es @ [fin]) (CrossCore_new kt dt n) =
      Some ((client r)\<lparr>memChecker := RunAlgorithm iter cfg names (memChecker (client r)), isFinished := True\<rparr>, events r)"
    using s(2) r assms(3) by (simp add: feed_append CrossCore_Do_def stage2_def)
  moreover have "ra_kernelType s = kt" "ra_deviceType s = dt" "accesses s = []"
    using s(1) new s0 by (simp_all add: quiet_def accesses_def)
  ultimately show thesis using r that by blast
qed

section \<open>Properties\<close>

text \<open>
  C37. Both stages of the check across cores return on every input, whatever the events, barriers and
  signals of the kernel are, and the finished flag is set.
\<close>
theorem CrossCore_always_finishes:
  assumes "0 < blockDim" "recorded es" "is_finish fin"
  shows "\<exists>s c. feed (CrossCore_Do iter cfg names junk) (es @ [fin]) (CrossCore_new kt dt blockDim) = Some (s, c) \<and> isFinished s"
  by (rule cross_check [OF assms, of kt dt junk iter cfg names]) simp

theorem CrossCore_always_finishes_witness:
  "\<exists>s c. feed (CrossCore_Do id False (\<lambda>_ _. None) undefined) [wait_event PIPE_MTE3 WAIT_FLAG, finish_event]
     (CrossCore_new KT_MIX ASCEND_910B1 2) = Some (s, c) \<and> isFinished s"
  using CrossCore_always_finishes [OF _ wait_event_recorded, of 2 id False "\<lambda>_ _. None" undefined KT_MIX ASCEND_910B1]
  by simp

text \<open>
  C29. A complete replay across cores is faithful: the accesses recorded for each block and pipe are
  those the kernel issued to memory another core can reach (global memory, and on the 95 series the
  unified buffer), each once, in program order; accesses to private memory are left out.
\<close>
theorem CrossCore_records_program:
  assumes "0 < blockDim" "recorded es" "is_finish fin"
    and "feed (CrossCore_Do iter cfg names junk) (es @ [fin]) (CrossCore_new kt dt blockDim) = Some (s, c)"
    and "EventContainer_IsEmpty c" "b < CrossCore_blocks kt dt blockDim" "p \<noteq> PIPE_SIZE"
  shows "[m \<leftarrow> accesses s. GetEventBlockIndexByLoc (ev_loc m) kt dt CROSS_BLOCK_CHECK = b \<and> ev_pipe m = p] =
     [m \<leftarrow> concat (map (access_of junk) (concat (map split_event [e \<leftarrow> es. \<not> CrossCore_dropped dt e]))).
        GetEventBlockIndexByLoc (ev_loc m) kt dt CROSS_BLOCK_CHECK = b \<and> ev_pipe m = p]"
proof -
  let ?block = "\<lambda>e. GetEventBlockIndex e kt dt CROSS_BLOCK_CHECK" and ?n = "CrossCore_blocks kt dt blockDim"
  let ?es = "[e \<leftarrow> es. \<not> CrossCore_dropped dt e]"
  have n: "0 < ?n" and es: "\<forall>e\<in>set ?es. pipe e \<noteq> PIPE_SIZE"
    using assms(1,2) by (simp_all add: recorded_def CrossCore_blocks_def subblock_dims)
  obtain s0 r where s0: "ra_kernelType s0 = kt" "ra_deviceType s0 = dt" "accesses s0 = []"
      and run: "PipeLine_Run (Some (CrossCore_ProcessEvent junk)) (PipeLine_new s0 (load ?block (EventContainer_Init ?n 1) ?es)) = Some r"
      and sc: "s = (client r)\<lparr>memChecker := RunAlgorithm iter cfg names (memChecker (client r)), isFinished := True\<rparr>" "c = events r"
    using cross_check [OF assms(1-3), of kt dt junk iter cfg names thesis] assms(4) by auto
  note inv = cross.loaded_inv(1) [OF n es, of s0 ?block]
  have "pipeState r = EXIT" using cross.Run_end [OF inv run] assms(5) sc(2) by blast
  then have "filter (\<lambda>m. (GetEventBlockIndexByLoc (ev_loc m) kt dt CROSS_BLOCK_CHECK, ev_pipe m) = (b, p)) (accesses (client r)) =
      cross_log.at_site kt dt b p (accesses s0 @ cross_log.entries junk (concat (map split_event ?es)))"
    using cross_log.Run_log_exit [OF inv _ run, of kt dt _ ?n b p]
      cross_log.rec_inv_load [OF n _ es, of s0 kt dt junk] s0 assms(6,7) by (simp add: PipeLine_new_def)
  then show ?thesis
    using s0(3) sc(1) by (simp add: cross_log.at_site_def cross_log.entries_def accesses_def RunAlgorithm_events)
qed

definition shared_access :: SanEvent where
  "shared_access = sample_event PIPE_V (MEM_EVENT ((sample_info MEMCPY_BLOCKS)\<lparr>memType := MEM_GM\<rparr>))"

lemma sample_cross_replay:
  "map_option (\<lambda>r. EventContainer_IsEmpty (events r)) (PipeLine_Run (Some (CrossCore_ProcessEvent (sample_info READ)))
     (PipeLine_new (fst (CrossCore_new KT_AIVEC ASCEND_910B1 1))
       (EventContainer_Push (EventContainer_Init 1 1) shared_access PIPE_S 0 0))) = Some True"
  by code_simp

lemma sample_cross_feed:
  "feed (CrossCore_Do iter cfg names junk) [access_event PIPE_V READ, shared_access] (CrossCore_new KT_AIVEC ASCEND_910B1 1) =
     Some (fst (CrossCore_new KT_AIVEC ASCEND_910B1 1), EventContainer_Push (EventContainer_Init 1 1) shared_access PIPE_S 0 0)"
proof -
  have new: "CrossCore_new KT_AIVEC ASCEND_910B1 1 = (fst (CrossCore_new KT_AIVEC ASCEND_910B1 1), EventContainer_Init 1 1)"
    by (simp add: CrossCore_new_def Let_def CrossCore_blocks_def NeedExpandBlockDim_def)
  show ?thesis
    by (subst new) (simp add: CrossCore_Do_def CrossCore_new_fields CrossCore_dropped_def shared_access_def access_event_def
        sample_event_def sample_info_def is_finish_def CacheMstxCrossSet_def GetEventBlockIndex_def NeedExpandBlockDim_def
        NeedCrossCoreMemCheck_def IsAscend95_def sample_loc_def del: One_nat_def)
qed

theorem CrossCore_records_program_witness:
  "\<exists>s c. feed (CrossCore_Do id False (\<lambda>_ _. None) (sample_info READ)) [access_event PIPE_V READ, shared_access, finish_event]
       (CrossCore_new KT_AIVEC ASCEND_910B1 1) = Some (s, c) \<and>
     map (\<lambda>m. (memType (memInfo m), opType (memInfo m))) [m \<leftarrow> accesses s. coreId (ev_loc m) = 0 \<and> ev_pipe m = PIPE_V] = [(MEM_GM, READ), (MEM_GM, WRITE)]"
proof -
  let ?es = "[access_event PIPE_V READ, shared_access]" and ?f = "CrossCore_Do id False (\<lambda>_ _. None) (sample_info READ)"
  have rec: "recorded ?es" by (simp add: recorded_def shared_access_def access_event_def sample_event_def is_finish_def)
  obtain r where r: "PipeLine_Run (Some (CrossCore_ProcessEvent (sample_info READ)))
     (PipeLine_new (fst (CrossCore_new KT_AIVEC ASCEND_910B1 1)) (EventContainer_Push (EventContainer_Init 1 1) shared_access PIPE_S 0 0)) = Some r"
    and empty: "EventContainer_IsEmpty (events r)" using sample_cross_replay by auto
  obtain s where s: "feed ?f (?es @ [finish_event]) (CrossCore_new KT_AIVEC ASCEND_910B1 1) = Some (s, events r)"
    unfolding feed_append sample_cross_feed bind.simps
    using r wait_event_recorded(2) by (simp add: CrossCore_Do_def stage2_def)
  have "[m \<leftarrow> accesses s. GetEventBlockIndexByLoc (ev_loc m) KT_AIVEC ASCEND_910B1 CROSS_BLOCK_CHECK = 0 \<and> ev_pipe m = PIPE_V] =
     [m \<leftarrow> concat (map (access_of (sample_info READ)) (concat (map split_event [e \<leftarrow> ?es. \<not> CrossCore_dropped ASCEND_910B1 e]))).
        GetEventBlockIndexByLoc (ev_loc m) KT_AIVEC ASCEND_910B1 CROSS_BLOCK_CHECK = 0 \<and> ev_pipe m = PIPE_V]"
    by (rule CrossCore_records_program [OF _ rec wait_event_recorded(2) s empty])
       (simp_all add: CrossCore_blocks_def NeedExpandBlockDim_def)
  then have "[m \<leftarrow> accesses s. coreId (ev_loc m) = 0 \<and> ev_pipe m = PIPE_V] =
     concat (map (access_of (sample_info READ)) (split_event shared_access))"
    by (simp add: GetEventBlockIndexByLoc_def NeedExpandBlockDim_def shared_access_def access_event_def sample_event_def split_event_def
        sample_info_def access_of_def MemEvent_new_def CrossCore_dropped_def NeedCrossCoreMemCheck_def IsAscend95_def sample_loc_def)
  then have "map (\<lambda>m. (memType (memInfo m), opType (memInfo m))) [m \<leftarrow> accesses s. coreId (ev_loc m) = 0 \<and> ev_pipe m = PIPE_V] =
     [(MEM_GM, READ), (MEM_GM, WRITE)]"
    by (simp add: shared_access_def sample_event_def split_event_def sample_info_def access_of_def MemEvent_new_def)
  then show ?thesis using s by auto
qed

end
