(* ===== verification/ShadowWords.thy ===== *)
theory ShadowWords
  imports Prelude
begin

text \<open>
  The byte tests on machine words of \<open>csrc/address_sanitizer/pm.cpp\<close>: eight shadow bytes are read
  as one 64-bit word, compared with a repeated byte, and searched for a byte with a given status by
  the subtract-and-mask test for a zero byte. Each test is shown equal to its bytewise reference.
  64-bit sums and differences of addresses are written on natural numbers with the wrap-around.
\<close>

unbundle bit_operations_syntax

section \<open>64-bit sums and differences\<close>

definition add64 :: "nat \<Rightarrow> nat \<Rightarrow> nat" where
  "add64 a b = (a + b) mod 2 ^ 64"

definition sub64 :: "nat \<Rightarrow> nat \<Rightarrow> nat" where
  "sub64 a b = (a + (2 ^ 64 - b mod 2 ^ 64)) mod 2 ^ 64"

lemma add64_small [simp]: "a + b < 2 ^ 64 \<Longrightarrow> add64 a b = a + b"
  by (simp add: add64_def)

lemma sub64_small [simp]:
  assumes "b \<le> a" "a < 2 ^ 64"
  shows "sub64 a b = a - b"
proof -
  have "a + (2 ^ 64 - b mod 2 ^ 64) = (a - b) + 2 ^ 64" using assms by simp
  moreover have "a - b < 2 ^ 64" using assms by simp
  ultimately show ?thesis unfolding sub64_def by (metis mod_add_self2 mod_less)
qed

section \<open>Words of shadow bytes\<close>

definition STATUS_MASK :: u8 where
  "STATUS_MASK = 3"

definition BYTE_ONES :: u64 where
  "BYTE_ONES = 0x0101010101010101"

definition BYTE_HIGH_BITS :: u64 where
  "BYTE_HIGH_BITS = 0x8080808080808080"

definition BYTE_STATUS_MASKS :: u64 where
  "BYTE_STATUS_MASKS = BYTE_ONES * ucast STATUS_MASK"

definition ReadShadowWord :: "(nat \<Rightarrow> u8) \<Rightarrow> nat \<Rightarrow> u64" where
  "ReadShadowWord bytes i = word_rcat (rev (map bytes [i ..< i + 8]))"

definition HasZeroByte :: "u64 \<Rightarrow> bool" where
  "HasZeroByte word \<longleftrightarrow> (word - BYTE_ONES) AND NOT word AND BYTE_HIGH_BITS \<noteq> 0"

lemma ReadShadowWord_int: "ReadShadowWord bytes i = word_of_int (horner_sum uint 256 (map bytes [i ..< i + 8]))"
  by (simp add: ReadShadowWord_def word_rcat_def)

lemma bit_bytes:
  "bit (horner_sum uint 256 ws) n \<longleftrightarrow> n div 8 < length ws \<and> bit (ws ! (n div 8)) (n mod 8)" for ws :: "u8 list"
  using bit_horner_sum_uint_exp_iff [of ws n] by simp

lemma bit_ReadShadowWord:
  "bit (ReadShadowWord bytes i) n \<longleftrightarrow> n < 64 \<and> bit (bytes (i + n div 8)) (n mod 8)"
  by (auto simp: ReadShadowWord_int bit_word_of_int_iff bit_bytes)

lemma repeated_byte: "ucast (b :: u8) * BYTE_ONES = ReadShadowWord (\<lambda>_. b) i"
proof -
  have "map (\<lambda>_. b) [i ..< i + 8] = replicate 8 b" by (simp add: map_replicate_const)
  then have "ReadShadowWord (\<lambda>_. b) i = word_of_int (uint b * 0x0101010101010101)"
    by (simp add: ReadShadowWord_int numeral_eq_Suc)
  also have "\<dots> = ucast b * BYTE_ONES" by (simp add: BYTE_ONES_def)
  finally show ?thesis by simp
qed

lemma ReadShadowWord_eq: "ReadShadowWord f i = ReadShadowWord g j \<longleftrightarrow> (\<forall>k<8. f (i + k) = g (j + k))"
proof
  assume eq: "ReadShadowWord f i = ReadShadowWord g j"
  show "\<forall>k<8. f (i + k) = g (j + k)"
  proof (intro allI impI)
    fix k :: nat assume k: "k < 8"
    have "bit (f (i + k)) n = bit (g (j + k)) n" if "n < 8" for n
    proof -
      have "(8 * k + n) div 8 = k" "(8 * k + n) mod 8 = n" "8 * k + n < 64" using that k by simp_all
      then show ?thesis using eq bit_ReadShadowWord [of f i "8 * k + n"] bit_ReadShadowWord [of g j "8 * k + n"] by simp
    qed
    then show "f (i + k) = g (j + k)" by (intro bit_word_eqI) simp
  qed
next
  assume "\<forall>k<8. f (i + k) = g (j + k)"
  then show "ReadShadowWord f i = ReadShadowWord g j"
    by (intro bit_word_eqI) (auto simp: bit_ReadShadowWord)
qed

text \<open>A word equals a repeated byte exactly when its eight bytes do.\<close>

lemma word_is_repeated: "ReadShadowWord bytes i = ucast b * BYTE_ONES \<longleftrightarrow> (\<forall>k<8. bytes (i + k) = b)"
  unfolding repeated_byte [of b i] by (rule ReadShadowWord_eq)

section \<open>The zero byte test\<close>

definition ones :: "nat \<Rightarrow> int" where
  "ones n = horner_sum (\<lambda>_. 1) 256 (replicate n ())"

lemma bit_high:
  fixes a x :: int
  shows "bit (a + 256 * x) (n + 8) = bit (a div 256 + x) n"
proof -
  have "bit (a + 256 * x) (n + 8) = bit (drop_bit 8 (a + 256 * x)) n" by (simp add: bit_drop_bit_eq add.commute)
  then show ?thesis by (simp add: drop_bit_eq_div add.commute)
qed

lemma bit_low:
  fixes a x :: int
  shows "n < 8 \<Longrightarrow> bit (a + 256 * x) n = bit (a mod 256) n"
proof -
  assume n: "n < 8"
  have "bit (a + 256 * x) n = bit (take_bit 8 (a + 256 * x)) n" using n by (simp add: bit_take_bit_iff)
  also have "take_bit 8 (a + 256 * x) = a mod 256" by (simp add: take_bit_eq_mod)
  finally show ?thesis .
qed

lemma zero_byte_lists:
  "(\<exists>k<length bs. bit (horner_sum uint 256 bs - ones (length bs)) (8 * k + 7) \<and> \<not> bit (horner_sum uint 256 bs) (8 * k + 7)) \<longleftrightarrow>
     0 \<in> set bs" for bs :: "u8 list"
proof (induction bs)
  case (Cons b bs)
  let ?v = "horner_sum uint 256 bs :: int" and ?o = "ones (length bs)"
  have v: "horner_sum uint 256 (b # bs) = uint b + 256 * ?v" by simp
  have d: "uint b + 256 * ?v - ones (length (b # bs)) = (uint b - 1) + 256 * (?v - ?o)"
    by (simp add: ones_def algebra_simps)
  have b: "0 \<le> uint b" "uint b < 256" using uint_lt2p [of b] by simp_all
  have split: "(\<exists>k<length (b # bs). P k) \<longleftrightarrow> P 0 \<or> (\<exists>k<length bs. P (Suc k))" for P :: "nat \<Rightarrow> bool"
    by (auto simp: less_Suc_eq_0_disj)
  have step: "8 * Suc k + 7 = (8 * k + 7) + 8" for k :: nat by simp
  show ?case
  proof (cases "b = 0")
    case True
    have "bit ((uint b - 1) + 256 * (?v - ?o)) 7" "\<not> bit (uint b + 256 * ?v) 7"
      using True by (subst bit_low, simp, simp)+
    then show ?thesis unfolding split v d by (simp add: True)
  next
    case False
    then have b1: "1 \<le> uint b" using b by (metis int_one_le_iff_zero_less less_le uint_0_iff)
    have "\<not> (bit ((uint b - 1) + 256 * (?v - ?o)) 7 \<and> \<not> bit (uint b + 256 * ?v) 7)"
    proof
      assume a: "bit ((uint b - 1) + 256 * (?v - ?o)) 7 \<and> \<not> bit (uint b + 256 * ?v) 7"
      have "(uint b - 1) mod 256 = uint b - 1" "uint b mod 256 = uint b" using b b1 by simp_all
      then have "bit (uint b - 1) 7" "\<not> bit (uint b) 7"
        using a bit_low [of 7 "uint b - 1" "?v - ?o"] bit_low [of 7 "uint b" ?v] by simp_all
      then have odd: "odd ((uint b - 1) div 128)" "even (uint b div 128)" by (simp_all add: bit_iff_odd)
      show False
      proof (cases "uint b \<le> 128")
        case True
        then have "(uint b - 1) div 128 = 0" using b1 by (intro div_pos_pos_trivial) simp_all
        then show ?thesis using odd(1) by simp
      next
        case False
        then have "uint b div 128 = 1" using b by (intro int_div_pos_eq [where r = "uint b - 128"]) simp_all
        then show ?thesis using odd(2) by simp
      qed
    qed
    moreover have "bit ((uint b - 1) + 256 * (?v - ?o)) (8 * Suc k + 7) = bit (?v - ?o) (8 * k + 7)"
      "bit (uint b + 256 * ?v) (8 * Suc k + 7) = bit ?v (8 * k + 7)" for k
      unfolding step bit_high using b b1 by simp_all
    ultimately show ?thesis unfolding split v d using Cons.IH False by auto
  qed
qed (simp add: ones_def)

lemma bit_HIGH: "bit BYTE_HIGH_BITS n \<longleftrightarrow> (\<exists>k<8. n = 8 * k + 7)"
proof -
  have "BYTE_HIGH_BITS = ReadShadowWord (\<lambda>_. 128) 0"
    unfolding repeated_byte [symmetric] by (simp add: BYTE_HIGH_BITS_def BYTE_ONES_def)
  moreover have "bit (128 :: u8) (n mod 8) \<longleftrightarrow> n mod 8 = 7" using bit_exp_iff [of 7 "n mod 8", where 'a = u8] by auto
  ultimately have "bit BYTE_HIGH_BITS n \<longleftrightarrow> n < 64 \<and> n mod 8 = 7"
    using bit_ReadShadowWord [of "\<lambda>_. 128" 0 n] by presburger
  also have "\<dots> \<longleftrightarrow> (\<exists>k<8. n = 8 * k + 7)" by presburger
  finally show ?thesis .
qed

text \<open>The test finds a zero byte exactly when there is one; borrows only start above a zero byte.\<close>

lemma HasZeroByte_exact: "HasZeroByte (ReadShadowWord bytes i) \<longleftrightarrow> (\<exists>k<8. bytes (i + k) = 0)"
proof -
  let ?w = "ReadShadowWord bytes i" and ?bs = "map bytes [i ..< i + 8]"
  have ones: "ones 8 = 0x0101010101010101" by (simp add: ones_def numeral_eq_Suc)
  have sub: "?w - BYTE_ONES = word_of_int (horner_sum uint 256 ?bs - ones (length ?bs))"
    by (simp add: ReadShadowWord_int BYTE_ONES_def ones)
  have "HasZeroByte ?w \<longleftrightarrow> (\<exists>n. bit ((?w - BYTE_ONES) AND NOT ?w AND BYTE_HIGH_BITS) n)"
    unfolding HasZeroByte_def by (metis bit_0_eq bit_eq_iff bot_apply bot_bool_def)
  also have "\<dots> \<longleftrightarrow> (\<exists>k<8. bit (?w - BYTE_ONES) (8 * k + 7) \<and> \<not> bit ?w (8 * k + 7))"
    by (auto simp: bit_and_iff bit_not_iff bit_HIGH dest: bit_imp_le_length)
  also have "\<dots> \<longleftrightarrow> (\<exists>k<length ?bs. bit (horner_sum uint 256 ?bs - ones (length ?bs)) (8 * k + 7) \<and>
      \<not> bit (horner_sum uint 256 ?bs :: int) (8 * k + 7))"
  proof -
    have "bit (?w - BYTE_ONES) (8 * k + 7) = bit (horner_sum uint 256 ?bs - ones (length ?bs)) (8 * k + 7)"
      "bit ?w (8 * k + 7) = bit (horner_sum uint 256 ?bs :: int) (8 * k + 7)" if "k < 8" for k
      unfolding sub unfolding ReadShadowWord_int bit_word_of_int_iff using that by simp_all
    then show ?thesis by auto
  qed
  also have "\<dots> \<longleftrightarrow> 0 \<in> set ?bs" by (rule zero_byte_lists)
  also have "\<dots> \<longleftrightarrow> (\<exists>k<8. bytes (i + k) = 0)"
    by (auto simp: image_iff) (metis add.commute le_add_diff_inverse less_diff_conv2 nat_add_left_cancel_less)+
  finally show ?thesis .
qed

text \<open>The test of eight status fields at once.\<close>

definition word_has_status :: "u8 \<Rightarrow> (nat \<Rightarrow> u8) \<Rightarrow> nat \<Rightarrow> bool" where
  "word_has_status status bytes i \<longleftrightarrow>
     HasZeroByte ((ReadShadowWord bytes i XOR (ucast status * BYTE_ONES)) AND BYTE_STATUS_MASKS)"

lemma word_has_status_exact:
  assumes "status \<le> STATUS_MASK"
  shows "word_has_status status bytes i \<longleftrightarrow> (\<exists>k<8. bytes (i + k) AND STATUS_MASK = status)"
proof -
  have "(ReadShadowWord bytes i XOR ReadShadowWord (\<lambda>_. status) i) AND ReadShadowWord (\<lambda>_. STATUS_MASK) i =
      ReadShadowWord (\<lambda>k. (bytes k XOR status) AND STATUS_MASK) i"
    by (intro bit_word_eqI) (auto simp: bit_ReadShadowWord bit_and_iff bit_xor_iff)
  then have "word_has_status status bytes i \<longleftrightarrow> (\<exists>k<8. (bytes (i + k) XOR status) AND STATUS_MASK = 0)"
    unfolding word_has_status_def BYTE_STATUS_MASKS_def
    using repeated_byte [of STATUS_MASK i] repeated_byte [of status i] HasZeroByte_exact by (simp add: mult.commute)
  moreover have "(b XOR status) AND STATUS_MASK = 0 \<longleftrightarrow> b AND STATUS_MASK = status" for b
  proof -
    have m: "STATUS_MASK = mask 2" by (simp add: STATUS_MASK_def mask_eq_exp_minus_1)
    have "status < 4" using assms by (simp add: STATUS_MASK_def word_le_nat_alt word_less_nat_alt)
    then have s: "status AND STATUS_MASK = status" unfolding m by (intro less_mask_eq) simp
    have "(b XOR status) AND STATUS_MASK = (b AND STATUS_MASK) XOR status" by (simp only: bit.conj_xor_distrib2 s)
    moreover have "x XOR status = 0 \<longleftrightarrow> x = status" for x :: u8
    proof
      assume "x XOR status = 0"
      then have "(x XOR status) XOR status = 0 XOR status" by simp
      then show "x = status" by (simp add: xor.assoc)
    qed simp
    ultimately show ?thesis by simp
  qed
  ultimately show ?thesis by simp
qed

end
