(* ===== verification/ShadowMap.thy ===== *)
theory ShadowMap
  imports ShadowWords
begin

text \<open>
  The shadow maps of \<open>csrc/address_sanitizer/pm.h\<close> and \<open>pm.cpp\<close>: \<open>PM\<close> keeps one shadow byte per
  byte of memory in blocks of 64 KB, a block either as one common byte or as a materialised table;
  \<open>GmPM\<close> adds a table of such maps for the global memory. Both implement the interface
  \<open>shadow_map\<close>: a shadow byte per address, \<open>Set\<close> of a range, and the length of the uniform run after
  an address. The vectors and arrays are total functions on their indices beside their sizes.
  Reading a freed table cannot occur, as a deleted entry is overwritten with the null pointer.
\<close>

section \<open>The map of one address space\<close>

definition GLOBAL_MEM_MASK :: nat where
  "GLOBAL_MEM_MASK = 0xFFFFFFFFFFFF"

definition LOCAL_MEM_MASK :: nat where
  "LOCAL_MEM_MASK = 0xFFFFFFFFF"

definition ONE_SM_STAND_FOR_BYTE :: nat where
  "ONE_SM_STAND_FOR_BYTE = 65536"

type_synonym SM = "nat \<Rightarrow> u8"

record PM =
  smList :: "nat \<Rightarrow> SM option"
  commonBitsList :: "nat \<Rightarrow> u8"
  byteNum :: nat
  smNum :: nat

definition PM_new :: "nat \<Rightarrow> u8 \<Rightarrow> PM" where
  "PM_new n memInitVal = \<lparr>smList = (\<lambda>_. None), commonBitsList = (\<lambda>_. memInitVal), byteNum = n,
     smNum = (n + ONE_SM_STAND_FOR_BYTE - 1) div ONE_SM_STAND_FOR_BYTE\<rparr>"

definition PM_Reset :: "u8 \<Rightarrow> PM \<Rightarrow> PM" where
  "PM_Reset memInitVal pm = pm\<lparr>smList := (\<lambda>_. None), commonBitsList := (\<lambda>_. memInitVal)\<rparr>"

text \<open>\<open>addr & LOCAL_MEM_MASK\<close> keeps the low 36 bits.\<close>

definition PM_GetBlockIdx :: "nat \<Rightarrow> nat" where
  "PM_GetBlockIdx a = a mod (LOCAL_MEM_MASK + 1) div ONE_SM_STAND_FOR_BYTE"

definition PM_GetBlockOffset :: "nat \<Rightarrow> nat" where
  "PM_GetBlockOffset a = a mod (LOCAL_MEM_MASK + 1) mod ONE_SM_STAND_FOR_BYTE"

definition PM_GetBits :: "PM \<Rightarrow> nat \<Rightarrow> u8" where
  "PM_GetBits pm a =
     (case smList pm (PM_GetBlockIdx a) of
        None \<Rightarrow> commonBitsList pm (PM_GetBlockIdx a)
      | Some sm \<Rightarrow> sm (PM_GetBlockOffset a))"

definition PM_Set_block :: "nat \<Rightarrow> nat \<Rightarrow> u8 \<Rightarrow> nat \<Rightarrow> PM \<Rightarrow> PM" where
  "PM_Set_block a len bits blockIndex pm =
     (let blockAddrL = ONE_SM_STAND_FOR_BYTE * blockIndex; blockAddrR = blockAddrL + ONE_SM_STAND_FOR_BYTE in
      if a \<le> blockAddrL \<and> add64 a len \<ge> blockAddrR
      then pm\<lparr>smList := (smList pm)(blockIndex := None), commonBitsList := (commonBitsList pm)(blockIndex := bits)\<rparr>
      else
        (let sm = (case smList pm blockIndex of None \<Rightarrow> (\<lambda>_. commonBitsList pm blockIndex) | Some sm \<Rightarrow> sm);
             addrL = max a blockAddrL; addrR = min (add64 a len) blockAddrR
         in pm\<lparr>smList := (smList pm)(blockIndex \<mapsto>
                (if addrL = addrR then sm
                 else (\<lambda>k. if addrL - blockAddrL \<le> k \<and> k < addrR - blockAddrL then bits else sm k)))\<rparr>))"

definition PM_Set :: "nat \<Rightarrow> nat \<Rightarrow> u8 \<Rightarrow> PM \<Rightarrow> PM" where
  "PM_Set a len bits pm =
     (let blockIndexL = PM_GetBlockIdx a;
          remainderSum = PM_GetBlockOffset a + PM_GetBlockOffset len;
          blockIndexR = PM_GetBlockIdx a + PM_GetBlockIdx len + PM_GetBlockIdx (remainderSum + ONE_SM_STAND_FOR_BYTE - 1)
      in fold (PM_Set_block a len bits) (takeWhile (\<lambda>i. i < smNum pm) [blockIndexL ..< blockIndexR]) pm)"

text \<open>The loops that skip a uniform run: by four words, by one word, by one byte.\<close>

function skip :: "nat \<Rightarrow> (nat \<Rightarrow> bool) \<Rightarrow> nat \<Rightarrow> nat \<Rightarrow> nat" where
  "skip step same limit offset =
     (if 0 < step \<and> offset + step \<le> limit \<and> same offset then skip step same limit (offset + step) else offset)"
  by pat_completeness auto
termination
  by (relation "measure (\<lambda>(step, same, limit, offset). limit - offset)") auto

declare skip.simps [simp del]

definition UnifiedSizeInSM :: "SM \<Rightarrow> nat \<Rightarrow> nat \<Rightarrow> nat" where
  "UnifiedSizeInSM sm blockOffset commonSize =
     (let head = sm blockOffset;
          headBytes = ucast head * BYTE_ONES;
          offset1 = skip 32 (\<lambda>k. ReadShadowWord sm (blockOffset + k) = headBytes \<and> ReadShadowWord sm (blockOffset + k + 8) = headBytes \<and>
                      ReadShadowWord sm (blockOffset + k + 16) = headBytes \<and> ReadShadowWord sm (blockOffset + k + 24) = headBytes)
                      commonSize 1;
          offset2 = skip 8 (\<lambda>k. ReadShadowWord sm (blockOffset + k) = headBytes) commonSize offset1
      in skip 1 (\<lambda>k. sm (blockOffset + k) = head) commonSize offset2)"

definition PM_UnifiedSizeAfter :: "PM \<Rightarrow> nat \<Rightarrow> nat \<Rightarrow> nat \<Rightarrow> nat" where
  "PM_UnifiedSizeAfter pm baseAddr len a =
     (let blockIndex = PM_GetBlockIdx a; blockOffset = PM_GetBlockOffset a;
          commonSize = min (sub64 (add64 baseAddr len) a) (ONE_SM_STAND_FOR_BYTE - blockOffset)
      in case smList pm blockIndex of Some sm \<Rightarrow> UnifiedSizeInSM sm blockOffset commonSize | None \<Rightarrow> commonSize)"

text \<open>The search for a status in a materialised block: whole words first, then the tail.\<close>

function status_in_SM :: "u8 \<Rightarrow> SM \<Rightarrow> nat \<Rightarrow> nat \<Rightarrow> nat \<Rightarrow> bool" where
  "status_in_SM status sm offset blockLen i =
     (if i + 8 \<le> blockLen
      then word_has_status status sm (offset + i) \<or> status_in_SM status sm offset blockLen (i + 8)
      else (\<exists>k\<in>set [i ..< blockLen]. sm (offset + k) AND STATUS_MASK = status))"
  by pat_completeness auto
termination
  by (relation "measure (\<lambda>(status, sm, offset, blockLen, i). blockLen - i)") auto

declare status_in_SM.simps [simp del]

definition block_has_status :: "PM \<Rightarrow> u8 \<Rightarrow> nat \<Rightarrow> nat \<Rightarrow> nat \<Rightarrow> bool" where
  "block_has_status pm status bi offsetInBlock blockLen =
     (case smList pm bi of
        None \<Rightarrow> commonBitsList pm bi AND STATUS_MASK = status
      | Some sm \<Rightarrow> status_in_SM status sm offsetInBlock blockLen 0)"

text \<open>The loop over the blocks of a range, shared by both maps: \<open>has\<close> tests one block.\<close>

primrec range_blocks :: "(nat \<Rightarrow> nat \<Rightarrow> nat \<Rightarrow> bool) \<Rightarrow> nat \<Rightarrow> nat list \<Rightarrow> nat \<Rightarrow> nat \<Rightarrow> bool" where
  "range_blocks has blockSize [] remaining offset = False"
| "range_blocks has blockSize (bi # bis) remaining offset =
     (let blockLen = min remaining (blockSize - offset) in
      if has bi offset blockLen then True
      else if remaining - blockLen = 0 then False
      else range_blocks has blockSize bis (remaining - blockLen) 0)"

definition PM_RangeHasStatus :: "PM \<Rightarrow> nat \<Rightarrow> nat \<Rightarrow> u8 \<Rightarrow> bool" where
  "PM_RangeHasStatus pm a len status =
     (if len = 0 then False
      else range_blocks (block_has_status pm status) ONE_SM_STAND_FOR_BYTE
             [PM_GetBlockIdx a ..< PM_GetBlockIdx (add64 (add64 a len) (ONE_SM_STAND_FOR_BYTE - 1))] len (PM_GetBlockOffset a))"

section \<open>The map of the global memory\<close>

record GmPM =
  gm_base :: PM
  pmList :: "nat \<Rightarrow> PM option"
  gm_memInitVal :: u8

definition GM_BLOCK :: nat where
  "GM_BLOCK = LOCAL_MEM_MASK"

definition pmList_size :: nat where
  "pmList_size = (GLOBAL_MEM_MASK + GM_BLOCK - 1) div GM_BLOCK"

definition GmPM_new :: "u8 \<Rightarrow> GmPM" where
  "GmPM_new memInitVal = \<lparr>gm_base = PM_new LOCAL_MEM_MASK memInitVal, pmList = (\<lambda>_. None), gm_memInitVal = memInitVal\<rparr>"

definition GmPM_Reset :: "u8 \<Rightarrow> GmPM \<Rightarrow> GmPM" where
  "GmPM_Reset memInitVal gm = gm\<lparr>pmList := (\<lambda>i. map_option (PM_Reset memInitVal) (pmList gm i))\<rparr>"

definition GmPM_GetBlockIdx :: "nat \<Rightarrow> nat" where
  "GmPM_GetBlockIdx a = a mod (GLOBAL_MEM_MASK + 1) div GM_BLOCK"

definition GmPM_GetBlockOffset :: "nat \<Rightarrow> nat" where
  "GmPM_GetBlockOffset a = a mod (GLOBAL_MEM_MASK + 1) mod GM_BLOCK"

definition QueryPM :: "GmPM \<Rightarrow> nat \<Rightarrow> PM option" where
  "QueryPM gm a = (if GmPM_GetBlockIdx a \<ge> pmList_size then None else pmList gm (GmPM_GetBlockIdx a))"

definition GetPM :: "nat \<Rightarrow> GmPM \<Rightarrow> GmPM \<times> PM option" where
  "GetPM a gm =
     (let pmIdx = GmPM_GetBlockIdx a in
      if pmIdx \<ge> pmList_size then (gm, None)
      else (case pmList gm pmIdx of
              None \<Rightarrow> (let pm = PM_new (byteNum (gm_base gm)) (gm_memInitVal gm) in (gm\<lparr>pmList := (pmList gm)(pmIdx \<mapsto> pm)\<rparr>, Some pm))
            | Some pm \<Rightarrow> (gm, Some pm)))"

definition GmPM_GetBits :: "GmPM \<Rightarrow> nat \<Rightarrow> u8" where
  "GmPM_GetBits gm a =
     (case QueryPM gm a of
        None \<Rightarrow> commonBitsList (gm_base gm) (GmPM_GetBlockIdx a)
      | Some pm \<Rightarrow> PM_GetBits pm (GmPM_GetBlockOffset a))"

text \<open>The loop of \<open>GmPM::Set\<close>; the first argument is the number of blocks left.\<close>

primrec GmPM_Set_loop :: "nat \<Rightarrow> nat \<Rightarrow> nat \<Rightarrow> u8 \<Rightarrow> GmPM \<Rightarrow> GmPM" where
  "GmPM_Set_loop 0 a len bits gm = gm"
| "GmPM_Set_loop (Suc n) a len bits gm =
     (case GetPM a gm of
        (gm1, None) \<Rightarrow> gm1
      | (gm1, Some pm) \<Rightarrow>
          (let pmAddr = GmPM_GetBlockOffset a; pmSize = min (GM_BLOCK - pmAddr) len
           in GmPM_Set_loop n (add64 a pmSize) (len - pmSize) bits
                (gm1\<lparr>pmList := (pmList gm1)(GmPM_GetBlockIdx a \<mapsto> PM_Set pmAddr pmSize bits pm)\<rparr>)))"

definition GmPM_Set :: "nat \<Rightarrow> nat \<Rightarrow> u8 \<Rightarrow> GmPM \<Rightarrow> GmPM" where
  "GmPM_Set a len bits gm =
     GmPM_Set_loop (GmPM_GetBlockIdx (add64 (add64 a len) (GM_BLOCK - 1)) - GmPM_GetBlockIdx a) a len bits gm"

definition GmPM_UnifiedSizeAfter :: "GmPM \<Rightarrow> nat \<Rightarrow> nat \<Rightarrow> nat \<Rightarrow> nat" where
  "GmPM_UnifiedSizeAfter gm baseAddr len a =
     (let basePmIdx = GmPM_GetBlockIdx baseAddr;
          pmIdx = GmPM_GetBlockIdx a;
          nextPmAddr = (pmIdx + 1) * GM_BLOCK;
          (newBaseAddr, curSize) =
            (if pmIdx > basePmIdx
             then (pmIdx * GM_BLOCK, min GM_BLOCK (sub64 len (sub64 (pmIdx * GM_BLOCK) baseAddr)))
             else (baseAddr, min (sub64 nextPmAddr baseAddr) len))
      in PM_UnifiedSizeAfter (case QueryPM gm a of None \<Rightarrow> gm_base gm | Some pm \<Rightarrow> pm)
           (GmPM_GetBlockOffset newBaseAddr) curSize (GmPM_GetBlockOffset a))"

definition gm_block_has_status :: "GmPM \<Rightarrow> u8 \<Rightarrow> nat \<Rightarrow> nat \<Rightarrow> nat \<Rightarrow> bool" where
  "gm_block_has_status gm status bi offsetInBlock blockLen =
     (case QueryPM gm (bi * GM_BLOCK) of
        None \<Rightarrow> bi < smNum (gm_base gm) \<and> commonBitsList (gm_base gm) bi AND STATUS_MASK = status
      | Some pm \<Rightarrow> PM_RangeHasStatus pm offsetInBlock blockLen status)"

definition GmPM_RangeHasStatus :: "GmPM \<Rightarrow> nat \<Rightarrow> nat \<Rightarrow> u8 \<Rightarrow> bool" where
  "GmPM_RangeHasStatus gm a len status =
     (if len = 0 then False
      else range_blocks (gm_block_has_status gm status) GM_BLOCK
             [GmPM_GetBlockIdx a ..< GmPM_GetBlockIdx (add64 (add64 a len) (GM_BLOCK - 1))] len (GmPM_GetBlockOffset a))"

section \<open>Setting a range\<close>

lemmas block_defs = ONE_SM_STAND_FOR_BYTE_def LOCAL_MEM_MASK_def GLOBAL_MEM_MASK_def GM_BLOCK_def

lemma PM_index_small:
  assumes "a < 2 ^ 36"
  shows "PM_GetBlockIdx a = a div 65536" "PM_GetBlockOffset a = a mod 65536"
  using assms by (simp_all add: PM_GetBlockIdx_def PM_GetBlockOffset_def block_defs)

lemma PM_Set_block_frame [simp]: "smNum (PM_Set_block a len v i pm) = smNum pm" "byteNum (PM_Set_block a len v i pm) = byteNum pm"
  by (simp_all add: PM_Set_block_def Let_def)

lemma PM_Set_block_get:
  assumes "a + len < 2 ^ 64" "x < 2 ^ 36" "a < 65536 * i + 65536" "65536 * i \<le> a + len"
  shows "PM_GetBits (PM_Set_block a len v i pm) x =
     (if x div 65536 = i \<and> a \<le> x \<and> x < a + len then v else PM_GetBits pm x)"
proof -
  have sum: "add64 a len = a + len" using assms(1) by simp
  note ix = PM_index_small [OF assms(2)]
  have x: "x = 65536 * (x div 65536) + x mod 65536" "x mod 65536 < 65536" by simp_all
  show ?thesis
  proof (cases "x div 65536 = i")
    case False
    then show ?thesis by (auto simp: PM_GetBits_def PM_Set_block_def Let_def ix split: option.split)
  next
    case True
    then have xi: "x = 65536 * i + x mod 65536" using x(1) by simp
    show ?thesis
    proof (cases "a \<le> 65536 * i \<and> a + len \<ge> 65536 * i + 65536")
      case whole: True
      then have "a \<le> x" "x < a + len" using xi x(2) by linarith+
      then show ?thesis using True whole by (simp add: PM_GetBits_def PM_Set_block_def Let_def ix sum block_defs)
    next
      case part: False
      let ?L = "max a (65536 * i)" and ?R = "min (a + len) (65536 * i + 65536)"
      have "(?L - 65536 * i \<le> x mod 65536 \<and> x mod 65536 < ?R - 65536 * i) = (a \<le> x \<and> x < a + len)"
        using xi x(2) by linarith
      moreover have "?L = ?R \<Longrightarrow> \<not> (a \<le> x \<and> x < a + len)" using xi x(2) assms(3,4) by linarith
      ultimately show ?thesis
        using True part by (auto simp: PM_GetBits_def PM_Set_block_def Let_def ix sum block_defs split: option.split)
    qed
  qed
qed

lemma ceil_sum:
  fixes a n B :: nat
  assumes "0 < B"
  shows "a div B + n div B + (a mod B + n mod B + B - 1) div B = (a + n + B - 1) div B"
proof -
  have "a + n + B - 1 = (a mod B + n mod B + B - 1) + (a div B + n div B) * B"
    using div_mult_mod_eq [of a B] div_mult_mod_eq [of n B] assms by (simp add: algebra_simps)
  then show ?thesis using assms by (metis add.commute add.left_neutral div_mult_self1 neq0_conv)
qed

lemma PM_Set_blocks:
  assumes "a + len < 2 ^ 36"
  shows "PM_Set a len v pm = fold (PM_Set_block a len v) (takeWhile (\<lambda>i. i < smNum pm) [a div 65536 ..< (a + len + 65535) div 65536]) pm"
proof -
  have "PM_GetBlockIdx a + PM_GetBlockIdx len + PM_GetBlockIdx (PM_GetBlockOffset a + PM_GetBlockOffset len + 65536 - 1) =
      (a + len + 65535) div 65536"
    using ceil_sum [of 65536 a len] assms by (simp add: PM_index_small)
  then show ?thesis using assms by (simp add: PM_Set_def Let_def PM_index_small block_defs)
qed

definition pm_ok :: "PM \<Rightarrow> bool" where
  "pm_ok pm \<longleftrightarrow> byteNum pm < 2 ^ 36 \<and> smNum pm = (byteNum pm + 65535) div 65536"

lemma pm_ok_new [simp]: "n < 2 ^ 36 \<Longrightarrow> pm_ok (PM_new n v)"
  by (simp add: pm_ok_def PM_new_def block_defs)

lemma fold_blocks_get:
  assumes "a + len < 2 ^ 64" "x < 2 ^ 36" "distinct is"
    and "\<forall>i\<in>set is. a < 65536 * i + 65536 \<and> 65536 * i \<le> a + len"
  shows "PM_GetBits (fold (PM_Set_block a len v) is pm) x =
     (if x div 65536 \<in> set is \<and> a \<le> x \<and> x < a + len then v else PM_GetBits pm x)"
  using assms(3,4)
proof (induction "is" arbitrary: pm)
  case (Cons i "is")
  then show ?case using PM_Set_block_get [OF assms(1,2), of i v pm] by auto
qed simp

lemma PM_Set_frame [simp]: "smNum (PM_Set a len v pm) = smNum pm" "byteNum (PM_Set a len v pm) = byteNum pm"
proof -
  have "smNum (fold (PM_Set_block a len v) is pm) = smNum pm \<and> byteNum (fold (PM_Set_block a len v) is pm) = byteNum pm" for "is" pm
    by (induction "is" arbitrary: pm) simp_all
  then show "smNum (PM_Set a len v pm) = smNum pm" "byteNum (PM_Set a len v pm) = byteNum pm"
    by (simp_all add: PM_Set_def Let_def)
qed

lemma pm_ok_Set [simp]: "pm_ok (PM_Set a len v pm) = pm_ok pm"
  by (simp add: pm_ok_def)

lemma PM_Set_get:
  assumes "pm_ok pm" "a + len \<le> byteNum pm" "x < byteNum pm"
  shows "PM_GetBits (PM_Set a len v pm) x = (if a \<le> x \<and> x < a + len then v else PM_GetBits pm x)"
proof -
  have b: "byteNum pm < 2 ^ 36" and n: "smNum pm = (byteNum pm + 65535) div 65536" using assms(1) by (simp_all add: pm_ok_def)
  let ?is = "[a div 65536 ..< (a + len + 65535) div 65536]"
  have le: "i < smNum pm" if "i \<in> set ?is" for i
  proof -
    have "(a + len + 65535) div 65536 \<le> smNum pm" unfolding n by (intro div_le_mono) (use assms(2) in simp)
    then show ?thesis using that by simp
  qed
  then have tw: "takeWhile (\<lambda>i. i < smNum pm) ?is = ?is" by (simp add: takeWhile_eq_all_conv)
  have "PM_Set a len v pm = fold (PM_Set_block a len v) ?is pm"
    using PM_Set_blocks [of a len v pm] tw assms(2) b by simp
  moreover have bounds: "a < 65536 * i + 65536 \<and> 65536 * i \<le> a + len" if "i \<in> set ?is" for i
  proof -
    have i: "a div 65536 \<le> i" "i < (a + len + 65535) div 65536" using that by simp_all
    have "a = 65536 * (a div 65536) + a mod 65536" "a mod 65536 < 65536"
      "65536 * ((a + len + 65535) div 65536) \<le> a + len + 65535" by simp_all
    then show ?thesis using i by linarith
  qed
  moreover have "x div 65536 \<in> set ?is" if "a \<le> x" "x < a + len"
  proof -
    have "a div 65536 \<le> x div 65536" using that by (intro div_le_mono)
    moreover have "x div 65536 < (a + len + 65535) div 65536"
    proof -
      have "(x + 65536) div 65536 \<le> (a + len + 65535) div 65536" by (intro div_le_mono) (use that in simp)
      then show ?thesis by simp
    qed
    ultimately show ?thesis by simp
  qed
  ultimately show ?thesis using fold_blocks_get [of a len x ?is v pm] assms(2,3) b by auto
qed

section \<open>Uniform runs\<close>

lemma skip_upto:
  "offset \<le> limit \<Longrightarrow> offset \<le> skip step same limit offset \<and> skip step same limit offset \<le> limit"
proof (induction step same limit offset rule: skip.induct)
  case (1 step same limit offset)
  then show ?case by (subst (1 2) skip.simps) auto
qed

lemma skip_run:
  assumes same: "\<And>k j. same k \<Longrightarrow> k + step \<le> limit \<Longrightarrow> j < step \<Longrightarrow> P (k + j)" and start: "\<And>j. j < offset \<Longrightarrow> P j"
    and "j < skip step same limit offset"
  shows "P j"
  using start assms(3)
proof (induction "limit - offset" arbitrary: offset rule: less_induct)
  case less
  show ?case
  proof (cases "0 < step \<and> offset + step \<le> limit \<and> same offset")
    case True
    have "P k" if "k < offset + step" for k
      using that less.prems(1) same [of offset "k - offset"] True by (cases "k < offset") simp_all
    moreover have "j < skip step same limit (offset + step)" using less.prems(2) True by (subst (asm) skip.simps) simp
    moreover have "limit - (offset + step) < limit - offset" using True by linarith
    ultimately show ?thesis using less.hyps [of "offset + step"] by blast
  next
    case False
    then have "skip step same limit offset = offset" by (subst skip.simps) auto
    then show ?thesis using less.prems by simp
  qed
qed

lemma skip_stop: "offset \<le> limit \<Longrightarrow> skip 1 same limit offset = limit \<or> \<not> same (skip 1 same limit offset)"
proof (induction "limit - offset" arbitrary: offset rule: less_induct)
  case less
  show ?case
  proof (cases "offset + 1 \<le> limit \<and> same offset")
    case True
    then have "limit - (offset + 1) < limit - offset" "skip 1 same limit offset = skip 1 same limit (offset + 1)"
      by (linarith, subst skip.simps, simp)
    then show ?thesis using less.hyps [of "offset + 1"] True by simp
  next
    case False
    then show ?thesis using less.prems by (subst (1 2) skip.simps) auto
  qed
qed

text \<open>The three loops together find the exact end of the run.\<close>

lemma UnifiedSizeInSM_run:
  fixes sm :: SM and off n :: nat
  assumes "1 \<le> n"
  defines "u \<equiv> UnifiedSizeInSM sm off n"
  shows "1 \<le> u" "u \<le> n" "j < u \<Longrightarrow> sm (off + j) = sm off" "u = n \<or> sm (off + u) \<noteq> sm off"
proof -
  let ?h = "sm off"
  let ?w = "\<lambda>k. ReadShadowWord sm (off + k) = ucast ?h * BYTE_ONES"
  let ?b = "\<lambda>k. ?w k \<and> ReadShadowWord sm (off + k + 8) = ucast ?h * BYTE_ONES \<and>
      ReadShadowWord sm (off + k + 16) = ucast ?h * BYTE_ONES \<and> ReadShadowWord sm (off + k + 24) = ucast ?h * BYTE_ONES"
  define o1 where "o1 = skip 32 ?b n 1"
  define o2 where "o2 = skip 8 ?w n o1"
  have u: "u = skip 1 (\<lambda>k. sm (off + k) = ?h) n o2" unfolding u_def UnifiedSizeInSM_def Let_def o1_def o2_def by simp
  have 1: "1 \<le> o1 \<and> o1 \<le> n" unfolding o1_def by (rule skip_upto [OF assms(1)])
  have 2: "o1 \<le> o2 \<and> o2 \<le> n" unfolding o2_def by (rule skip_upto) (use 1 in simp)
  have 3: "o2 \<le> u \<and> u \<le> n" unfolding u by (rule skip_upto) (use 2 in simp)
  show "1 \<le> u" "u \<le> n" using 1 2 3 by simp_all
  have r1: "sm (off + j) = ?h" if "j < o1" for j
  proof (rule skip_run [where P = "\<lambda>j. sm (off + j) = ?h", OF _ _ that [unfolded o1_def]])
    show "sm (off + (k + j)) = ?h" if "?b k" "j < 32" for k j
    proof -
      have "\<forall>m<8. sm (off + k + m) = ?h" "\<forall>m<8. sm (off + k + 8 + m) = ?h" "\<forall>m<8. sm (off + k + 16 + m) = ?h"
        "\<forall>m<8. sm (off + k + 24 + m) = ?h" using that(1) by (simp_all add: word_is_repeated)
      moreover have "j = j mod 8 \<or> j = 8 + j mod 8 \<or> j = 16 + j mod 8 \<or> j = 24 + j mod 8" "j mod 8 < 8" using that(2) by presburger+
      ultimately show ?thesis by (metis add.assoc)
    qed
  qed simp
  have r2: "sm (off + j) = ?h" if "j < o2" for j
  proof (rule skip_run [where P = "\<lambda>j. sm (off + j) = ?h", OF _ _ that [unfolded o2_def]])
    show "sm (off + (k + j)) = ?h" if "?w k" "j < 8" for k j using that by (simp add: word_is_repeated add.assoc)
  qed (rule r1)
  show "sm (off + j) = ?h" if "j < u"
    by (rule skip_run [where P = "\<lambda>j. sm (off + j) = ?h", OF _ _ that [unfolded u]]) (simp_all add: r2)
  show "u = n \<or> sm (off + u) \<noteq> sm off" unfolding u by (rule skip_stop) (use 2 in simp)
qed

lemma same_block:
  fixes a k B :: nat
  assumes "a mod B + k < B"
  shows "(a + k) div B = a div B" "(a + k) mod B = a mod B + k"
proof -
  have k: "k < B" using assms by simp
  show "(a + k) div B = a div B" using div_add1_eq [of a k B] k assms by simp
  show "(a + k) mod B = a mod B + k" using mod_add_left_eq [of a B k] assms by simp
qed

lemma PM_Unified:
  fixes pm :: PM and base len a :: nat
  assumes "base \<le> a" "a < base + len" "base + len < 2 ^ 36"
  defines "u \<equiv> PM_UnifiedSizeAfter pm base len a"
  shows "1 \<le> u" "a + u \<le> base + len" "k < u \<Longrightarrow> PM_GetBits pm (a + k) = PM_GetBits pm a" "a mod 65536 + u \<le> 65536"
proof -
  let ?off = "a mod 65536" and ?n = "min (base + len - a) (65536 - a mod 65536)"
  have "a mod 65536 < 65536" by simp
  then have n: "1 \<le> ?n" using assms(2) by linarith
  have u: "u = (case smList pm (a div 65536) of Some sm \<Rightarrow> UnifiedSizeInSM sm ?off ?n | None \<Rightarrow> ?n)"
    using assms(1-3) PM_index_small [of a] by (simp add: u_def PM_UnifiedSizeAfter_def Let_def block_defs split: option.split)
  have un: "1 \<le> u \<and> u \<le> ?n" using UnifiedSizeInSM_run(1,2) [OF n] n unfolding u by (simp split: option.split)
  then show "1 \<le> u" "a + u \<le> base + len" "a mod 65536 + u \<le> 65536"
    using assms(2) \<open>a mod 65536 < 65536\<close> by linarith+
  assume k: "k < u"
  then have "a mod 65536 + k < 65536" using un by linarith
  note d = same_block [OF this]
  have small: "a < 2 ^ 36" "a + k < 2 ^ 36" using un k assms(2,3) by linarith+
  note ix = PM_index_small [OF small(1)] PM_index_small [OF small(2)]
  show "PM_GetBits pm (a + k) = PM_GetBits pm a"
  proof (cases "smList pm (a div 65536)")
    case (Some sm)
    then show ?thesis using UnifiedSizeInSM_run(3) [OF n, of k sm ?off] k u d by (simp add: PM_GetBits_def ix)
  qed (simp add: PM_GetBits_def ix d)
qed

section \<open>Searching a status\<close>

lemma status_in_SM_exact:
  assumes "status \<le> STATUS_MASK"
  shows "status_in_SM status sm off n i \<longleftrightarrow> (\<exists>k. i \<le> k \<and> k < n \<and> sm (off + k) AND STATUS_MASK = status)"
proof (induction "n - i" arbitrary: i rule: less_induct)
  case less
  show ?case
  proof (cases "i + 8 \<le> n")
    case True
    have IH: "status_in_SM status sm off n (i + 8) \<longleftrightarrow> (\<exists>k. i + 8 \<le> k \<and> k < n \<and> sm (off + k) AND STATUS_MASK = status)"
      by (rule less) (use True in linarith)
    have "(\<exists>k<8. sm (off + i + k) AND STATUS_MASK = status) \<longleftrightarrow> (\<exists>k. i \<le> k \<and> k < i + 8 \<and> sm (off + k) AND STATUS_MASK = status)"
      by (metis add.assoc le_add1 le_add_diff_inverse nat_add_left_cancel_less)
    then show ?thesis
      using True IH word_has_status_exact [OF assms, of sm "off + i"] by (subst status_in_SM.simps) (auto, (metis not_le)+)
  next
    case False
    then show ?thesis by (subst status_in_SM.simps) auto
  qed
qed

text \<open>The bytes of a range, cut at block boundaries.\<close>

lemma range_blocks_exact:
  assumes B: "0 < B" and "off < B" "0 < rem"
    and has: "\<And>bi o' n. bi < r \<Longrightarrow> o' + n \<le> B \<Longrightarrow> 0 < n \<Longrightarrow> has bi o' n \<longleftrightarrow> (\<exists>k<n. Q (bi * B + o' + k))"
    and r: "l * B + off + rem \<le> r * B"
  shows "range_blocks has B [l ..< r] rem off \<longleftrightarrow> (\<exists>k<rem. Q (l * B + off + k))"
  using assms(2,3) r
proof (induction "r - l" arbitrary: l rem off)
  case 0
  then have "r * B \<le> l * B" by simp
  then show ?case using 0 by linarith
next
  case (Suc d)
  let ?n = "min rem (B - off)"
  have lr: "l < r" using Suc.hyps(2) by simp
  then have upt: "[l ..< r] = l # [Suc l ..< r]" by (simp add: upt_rec)
  have h: "has l off ?n \<longleftrightarrow> (\<exists>k<?n. Q (l * B + off + k))" by (rule has) (use lr Suc.prems in simp_all)
  show ?case
  proof (cases "rem \<le> B - off")
    case True
    then show ?thesis unfolding upt using h by (simp add: Let_def)
  next
    case False
    then have n: "?n = B - off" "0 < rem - (B - off)" "(B - off) + (rem - (B - off)) = rem" by simp_all
    have "Suc l * B + 0 + (rem - (B - off)) = l * B + off + rem" using False Suc.prems(1) by simp
    then have IH: "range_blocks has B [Suc l ..< r] (rem - (B - off)) 0 \<longleftrightarrow> (\<exists>k<rem - (B - off). Q (Suc l * B + 0 + k))"
      using Suc.hyps(1) [of "Suc l" 0 "rem - (B - off)"] Suc.hyps(2) Suc.prems(3) n B by simp
    have "(\<exists>k<rem. Q (l * B + off + k)) \<longleftrightarrow> (\<exists>k<B - off. Q (l * B + off + k)) \<or> (\<exists>k<rem - (B - off). Q (l * B + off + (B - off + k)))"
      (is "?A \<longleftrightarrow> ?B \<or> ?C")
    proof
      assume ?A
      then obtain k where k: "k < rem" "Q (l * B + off + k)" by blast
      show "?B \<or> ?C"
      proof (cases "k < B - off")
        case False
        then have "Q (l * B + off + (B - off + (k - (B - off))))" "k - (B - off) < rem - (B - off)" using k by simp_all
        then show ?thesis by blast
      qed (use k in blast)
    next
      assume "?B \<or> ?C"
      then show ?A using False by (metis add_diff_inverse_nat less_diff_conv2 nat_add_left_cancel_less n(3) less_trans not_le order.strict_trans1)
    qed
    moreover have "l * B + off + (B - off + k) = Suc l * B + 0 + k" for k using Suc.prems(1) by simp
    ultimately show ?thesis unfolding upt using h IH n False by (auto simp: Let_def)
  qed
qed

lemma PM_RangeHasStatus_exact:
  assumes "status \<le> STATUS_MASK" "a + len + 65535 < 2 ^ 36"
  shows "PM_RangeHasStatus pm a len status \<longleftrightarrow> (\<exists>k<len. PM_GetBits pm (a + k) AND STATUS_MASK = status)"
proof (cases "len = 0")
  case False
  let ?r = "(a + len + 65535) div 65536"
  have "range_blocks (block_has_status pm status) 65536 [a div 65536 ..< ?r] len (a mod 65536) \<longleftrightarrow>
      (\<exists>k<len. PM_GetBits pm (a div 65536 * 65536 + a mod 65536 + k) AND STATUS_MASK = status)"
  proof (rule range_blocks_exact)
    show "block_has_status pm status bi o' n \<longleftrightarrow> (\<exists>k<n. PM_GetBits pm (bi * 65536 + o' + k) AND STATUS_MASK = status)"
      if "bi < ?r" "o' + n \<le> 65536" "0 < n" for bi o' n
    proof -
      have "65536 * ?r \<le> a + len + 65535" by simp
      then have "bi * 65536 + 65536 < 2 ^ 36" using that(1) assms(2) by linarith
      then have "PM_GetBits pm (bi * 65536 + o' + k) = (case smList pm bi of None \<Rightarrow> commonBitsList pm bi | Some sm \<Rightarrow> sm (o' + k))"
        if "k < n" for k
      proof -
        have "bi * 65536 + (o' + k) < 2 ^ 36" "o' + k < 65536"
          using that \<open>o' + n \<le> 65536\<close> \<open>bi * 65536 + 65536 < 2 ^ 36\<close> by linarith+
        then show ?thesis using PM_index_small [of "bi * 65536 + (o' + k)"] by (simp add: PM_GetBits_def add.assoc split: option.split)
      qed
      then have "(\<exists>k<n. PM_GetBits pm (bi * 65536 + o' + k) AND STATUS_MASK = status) \<longleftrightarrow>
          (\<exists>k<n. (case smList pm bi of None \<Rightarrow> commonBitsList pm bi | Some sm \<Rightarrow> sm (o' + k)) AND STATUS_MASK = status)" by auto
      then show ?thesis
        using that(3) status_in_SM_exact [OF assms(1)] by (cases "smList pm bi") (auto simp: block_has_status_def)
    qed
    show "a div 65536 * 65536 + a mod 65536 + len \<le> ?r * 65536"
    proof -
      have "a + len + 65535 = 65536 * ?r + (a + len + 65535) mod 65536" "(a + len + 65535) mod 65536 < 65536" by simp_all
      then have "a + len \<le> ?r * 65536" by linarith
      then show ?thesis by simp
    qed
  qed (use False in simp_all)
  then show ?thesis using assms(2) False by (simp add: PM_RangeHasStatus_def PM_index_small block_defs)
qed (simp add: PM_RangeHasStatus_def)

section \<open>The global memory\<close>

lemma GmPM_index_small:
  assumes "a < 2 ^ 48"
  shows "GmPM_GetBlockIdx a = a div GM_BLOCK" "GmPM_GetBlockOffset a = a mod GM_BLOCK"
  using assms by (simp_all add: GmPM_GetBlockIdx_def GmPM_GetBlockOffset_def GLOBAL_MEM_MASK_def)

lemma GM_BLOCK_bounds: "0 < GM_BLOCK" "GM_BLOCK < 2 ^ 36" "a < 2 ^ 48 \<Longrightarrow> a div GM_BLOCK < pmList_size"
proof -
  show "a div GM_BLOCK < pmList_size" if "a < 2 ^ 48"
  proof -
    have "a div GM_BLOCK \<le> (2 ^ 48 - 1) div GM_BLOCK" by (intro div_le_mono) (use that in simp)
    then show ?thesis by (simp add: pmList_size_def block_defs)
  qed
qed (simp_all add: block_defs)

definition gm_ok :: "GmPM \<Rightarrow> bool" where
  "gm_ok gm \<longleftrightarrow> gm_base gm = PM_new GM_BLOCK (gm_memInitVal gm) \<and>
     (\<forall>i pm. pmList gm i = Some pm \<longrightarrow> pm_ok pm \<and> byteNum pm = GM_BLOCK)"

lemma gm_ok_new [simp]: "gm_ok (GmPM_new v)"
  by (simp add: gm_ok_def GmPM_new_def GM_BLOCK_def)

lemma gm_ok_base:
  "gm_ok gm \<Longrightarrow> smList (gm_base gm) i = None" "gm_ok gm \<Longrightarrow> commonBitsList (gm_base gm) i = gm_memInitVal gm"
  "gm_ok gm \<Longrightarrow> byteNum (gm_base gm) = GM_BLOCK" "gm_ok gm \<Longrightarrow> smNum (gm_base gm) = 2 ^ 20"
  by (simp_all add: gm_ok_def PM_new_def block_defs)

lemma GmPM_GetBits_small:
  assumes "gm_ok gm" "a < 2 ^ 48"
  shows "GmPM_GetBits gm a =
     (case pmList gm (a div GM_BLOCK) of None \<Rightarrow> gm_memInitVal gm | Some pm \<Rightarrow> PM_GetBits pm (a mod GM_BLOCK))"
  using assms GM_BLOCK_bounds(3) [OF assms(2)]
  by (simp add: GmPM_GetBits_def QueryPM_def GmPM_index_small gm_ok_base split: option.split)

lemma PM_new_bits [simp]: "PM_GetBits (PM_new n v) x = v"
  by (simp add: PM_GetBits_def PM_new_def)

lemma GetPM_small:
  assumes "gm_ok gm" "a < 2 ^ 48"
  obtains gm1 pm where "GetPM a gm = (gm1, Some pm)" "gm_ok gm1" "pmList gm1 (a div GM_BLOCK) = Some pm"
    "\<And>x. x < 2 ^ 48 \<Longrightarrow> GmPM_GetBits gm1 x = GmPM_GetBits gm x"
proof -
  let ?i = "a div GM_BLOCK"
  note ix = GmPM_index_small [OF assms(2)] GM_BLOCK_bounds(3) [OF assms(2)]
  show thesis
  proof (cases "pmList gm ?i")
    case None
    let ?pm = "PM_new GM_BLOCK (gm_memInitVal gm)"
    let ?gm = "gm\<lparr>pmList := (pmList gm)(?i \<mapsto> ?pm)\<rparr>"
    have ok: "gm_ok ?gm" using assms(1) GM_BLOCK_bounds(2) by (auto simp: gm_ok_def PM_new_def block_defs pm_ok_def)
    have "GmPM_GetBits ?gm x = GmPM_GetBits gm x" if "x < 2 ^ 48" for x
      using GmPM_GetBits_small [OF ok that] GmPM_GetBits_small [OF assms(1) that] None by (simp split: option.split)
    moreover have "GetPM a gm = (?gm, Some ?pm)" using None ix gm_ok_base(3) [OF assms(1)] by (simp add: GetPM_def Let_def)
    ultimately show thesis using that [of ?gm ?pm] ok by simp
  next
    case (Some pm)
    then show thesis using that [of gm pm] ix assms(1) by (simp add: GetPM_def Let_def)
  qed
qed

lemma GmPM_Set_block_get:
  fixes v :: u8
  assumes "gm_ok gm" "pmList gm (a div GM_BLOCK) = Some pm" "a mod GM_BLOCK + n \<le> GM_BLOCK" "a < 2 ^ 48" "x < 2 ^ 48"
  defines "gm' \<equiv> gm\<lparr>pmList := (pmList gm)(a div GM_BLOCK \<mapsto> PM_Set (a mod GM_BLOCK) n v pm)\<rparr>"
  shows "gm_ok gm'" "GmPM_GetBits gm' x = (if a \<le> x \<and> x < a + n then v else GmPM_GetBits gm x)"
proof -
  have pm: "pm_ok pm" "byteNum pm = GM_BLOCK" using assms(1,2) by (auto simp: gm_ok_def)
  then show ok: "gm_ok gm'" using assms(1) by (auto simp: gm_ok_def gm'_def)
  have B: "0 < GM_BLOCK" by (rule GM_BLOCK_bounds)
  have a: "a = GM_BLOCK * (a div GM_BLOCK) + a mod GM_BLOCK" and x: "x = GM_BLOCK * (x div GM_BLOCK) + x mod GM_BLOCK"
    and xm: "x mod GM_BLOCK < GM_BLOCK" using B by simp_all
  note g = GmPM_GetBits_small [OF ok assms(5)] GmPM_GetBits_small [OF assms(1,5)]
  show "GmPM_GetBits gm' x = (if a \<le> x \<and> x < a + n then v else GmPM_GetBits gm x)"
  proof (cases "x div GM_BLOCK = a div GM_BLOCK")
    case True
    then have "(a mod GM_BLOCK \<le> x mod GM_BLOCK \<and> x mod GM_BLOCK < a mod GM_BLOCK + n) = (a \<le> x \<and> x < a + n)"
      using a x by (metis add.assoc nat_add_left_cancel_le nat_add_left_cancel_less)
    then show ?thesis using g True PM_Set_get [OF pm(1), of "a mod GM_BLOCK" n "x mod GM_BLOCK" v] pm(2) assms(2,3) xm
      by (simp add: gm'_def)
  next
    case False
    have "\<not> (a \<le> x \<and> x < a + n)"
    proof
      assume r: "a \<le> x \<and> x < a + n"
      have "a mod GM_BLOCK + (x - a) < GM_BLOCK" using r assms(3) by linarith
      then show False using same_block(1) [of a GM_BLOCK "x - a"] r False by simp
    qed
    moreover have "gm_memInitVal gm' = gm_memInitVal gm" by (simp add: gm'_def)
    ultimately show ?thesis using g False by (auto simp: gm'_def split: option.split)
  qed
qed

lemma GmPM_Set_loop_get:
  assumes "gm_ok gm" "a + len < 2 ^ 48" "(a + len + GM_BLOCK - 1) div GM_BLOCK = a div GM_BLOCK + n" "x < 2 ^ 48"
  shows "gm_ok (GmPM_Set_loop n a len v gm) \<and>
     GmPM_GetBits (GmPM_Set_loop n a len v gm) x = (if a \<le> x \<and> x < a + len then v else GmPM_GetBits gm x)"
  using assms(1-3)
proof (induction n arbitrary: a len gm)
  case 0
  have "len = 0"
  proof (rule ccontr)
    assume "len \<noteq> 0"
    then have "(a + GM_BLOCK) div GM_BLOCK \<le> (a + len + GM_BLOCK - 1) div GM_BLOCK" by (intro div_le_mono) simp
    moreover have "(a + GM_BLOCK) div GM_BLOCK = a div GM_BLOCK + 1" by (rule div_add_self2) (use GM_BLOCK_bounds(1) in simp)
    ultimately show False using 0 by linarith
  qed
  then show ?case using 0 by auto
next
  case (Suc n)
  let ?B = GM_BLOCK
  have B: "0 < ?B" by (rule GM_BLOCK_bounds)
  have a: "a < 2 ^ 48" and am: "a mod ?B < ?B" and aq: "a = ?B * (a div ?B) + a mod ?B" using Suc.prems(2) B by simp_all
  obtain gm1 pm where g: "GetPM a gm = (gm1, Some pm)" "gm_ok gm1" "pmList gm1 (a div ?B) = Some pm"
      "\<And>x. x < 2 ^ 48 \<Longrightarrow> GmPM_GetBits gm1 x = GmPM_GetBits gm x"
    using GetPM_small [OF Suc.prems(1) a] by blast
  let ?m = "min (?B - a mod ?B) len"
  let ?gm2 = "gm1\<lparr>pmList := (pmList gm1)(a div ?B \<mapsto> PM_Set (a mod ?B) ?m v pm)\<rparr>"
  have "a mod ?B + ?m \<le> ?B" using am by linarith
  note blk = GmPM_Set_block_get [OF g(2,3) this a assms(4), of v]
  have step: "GmPM_Set_loop (Suc n) a len v gm = GmPM_Set_loop n (a + ?m) (len - ?m) v ?gm2"
    using g(1) Suc.prems(2) by (simp add: GmPM_index_small [OF a] Let_def)
  show ?case
  proof (cases "len < ?B - a mod ?B")
    case True
    have "a + len + ?B - 1 < ?B * (a div ?B) + 2 * ?B" using True aq am by linarith
    then have "(a + len + ?B - 1) div ?B < a div ?B + 2" using B by (simp add: div_less_iff_less_mult algebra_simps)
    then have "n = 0" using Suc.prems(3) by simp
    then show ?thesis using True blk g(4) [OF assms(4)] unfolding step by simp
  next
    case False
    then have m: "?m = ?B - a mod ?B" by simp
    have "a + ?m = ?B * (a div ?B) + ?B" using m aq am by linarith
    then have "a + ?m = ?B * (a div ?B + 1)" by simp
    then have "(a + ?m) div ?B = a div ?B + 1" using B by simp
    then have "gm_ok (GmPM_Set_loop n (a + ?m) (len - ?m) v ?gm2) \<and>
        GmPM_GetBits (GmPM_Set_loop n (a + ?m) (len - ?m) v ?gm2) x =
          (if a + ?m \<le> x \<and> x < a + ?m + (len - ?m) then v else GmPM_GetBits ?gm2 x)"
      using Suc.IH [of ?gm2 "a + ?m" "len - ?m"] blk(1) Suc.prems(2,3) False by simp
    then show ?thesis unfolding step using blk(2) g(4) [OF assms(4)] by auto
  qed
qed

text \<open>
  The end of the range, rounded up, must stay below \<open>2 ^ 48\<close>: the mask in \<open>GetBlockIdx\<close> would wrap it.
\<close>

definition gm_limit :: nat where
  "gm_limit = 2 ^ 48 - GM_BLOCK"

lemma GmPM_Set_get:
  assumes "gm_ok gm" "a + len \<le> gm_limit" "x < gm_limit"
  shows "gm_ok (GmPM_Set a len v gm)"
    "GmPM_GetBits (GmPM_Set a len v gm) x = (if a \<le> x \<and> x < a + len then v else GmPM_GetBits gm x)"
proof -
  have b: "a + len + GM_BLOCK - 1 < 2 ^ 48" "a < 2 ^ 48" "a + len < 2 ^ 48" "x < 2 ^ 48"
    using assms(2,3) GM_BLOCK_bounds(1,2) by (simp_all add: gm_limit_def)
  have "(a + len + GM_BLOCK - 1) div GM_BLOCK \<ge> a div GM_BLOCK" using GM_BLOCK_bounds(1) by (intro div_le_mono) simp
  then have n: "(a + len + GM_BLOCK - 1) div GM_BLOCK = a div GM_BLOCK + ((a + len + GM_BLOCK - 1) div GM_BLOCK - a div GM_BLOCK)" by simp
  have "add64 (add64 a len) (GM_BLOCK - 1) = a + len + GM_BLOCK - 1"
    using b GM_BLOCK_bounds(1) by (simp add: add64_def)
  then have "GmPM_Set a len v gm = GmPM_Set_loop ((a + len + GM_BLOCK - 1) div GM_BLOCK - a div GM_BLOCK) a len v gm"
    using b by (simp add: GmPM_Set_def GmPM_index_small)
  then show "gm_ok (GmPM_Set a len v gm)"
    "GmPM_GetBits (GmPM_Set a len v gm) x = (if a \<le> x \<and> x < a + len then v else GmPM_GetBits gm x)"
    using GmPM_Set_loop_get [OF assms(1) b(3) n b(4), of v] by simp_all
qed

lemma GmPM_Unified:
  fixes gm :: GmPM and base len a :: nat
  assumes ok: "gm_ok gm" and r: "base \<le> a" "a < base + len" "base + len < 2 ^ 48"
  defines "u \<equiv> GmPM_UnifiedSizeAfter gm base len a"
  shows "1 \<le> u" "a + u \<le> base + len" "k < u \<Longrightarrow> GmPM_GetBits gm (a + k) = GmPM_GetBits gm a"
proof -
  let ?B = GM_BLOCK and ?q = "a div GM_BLOCK"
  have B: "0 < ?B" "?B < 2 ^ 36" by (rule GM_BLOCK_bounds)+
  have lt: "a < 2 ^ 48" "base < 2 ^ 48" using r by simp_all
  note ix = GmPM_index_small [OF lt(1)] GmPM_index_small [OF lt(2)] GM_BLOCK_bounds(3) [OF lt(1)]
  define pm where "pm = (case QueryPM gm a of None \<Rightarrow> gm_base gm | Some pm \<Rightarrow> pm)"
  define nb where "nb = (if base div ?B < ?q then 0 else base mod ?B)"
  define cs where "cs = (if base div ?B < ?q then min ?B (len - (?q * ?B - base)) else min ((?q + 1) * ?B - base) len)"
  have aq: "a = ?q * ?B + a mod ?B" "a mod ?B < ?B" and bq: "base = base div ?B * ?B + base mod ?B" "base mod ?B < ?B" using B by simp_all
  have q: "base div ?B \<le> ?q" using r(1) by (rule div_le_mono)
  have qb: "base \<le> ?q * ?B" if "base div ?B < ?q"
  proof -
    have "(base div ?B + 1) * ?B \<le> ?q * ?B" using that by (intro mult_le_mono1) simp
    then show ?thesis using bq unfolding add_mult_distrib by linarith
  qed
  have u: "u = PM_UnifiedSizeAfter pm nb cs (a mod ?B)"
  proof (cases "base div ?B < ?q")
    case True
    have small: "?q * ?B < 2 ^ 48" using aq lt by linarith
    have le: "?q * ?B - base \<le> len" using r aq by linarith
    have "sub64 len (sub64 (?q * ?B) base) = len - (?q * ?B - base)"
      using qb [OF True] small le r(3) by simp
    moreover have "GmPM_GetBlockOffset (?q * ?B) = 0" using GmPM_index_small [OF small] by simp
    ultimately show ?thesis
      using True ix unfolding u_def GmPM_UnifiedSizeAfter_def by (simp add: Let_def pm_def nb_def cs_def)
  next
    case False
    have "(2 :: nat) ^ 48 + 2 ^ 36 < 2 ^ 64" by simp
    then have "?q * ?B + ?B < 2 ^ 64" using aq lt B by linarith
    moreover have "base \<le> ?q * ?B + ?B" using aq r by linarith
    ultimately have "(?q + 1) * ?B < 2 ^ 64" "base \<le> (?q + 1) * ?B" by simp_all
    then have "sub64 ((?q + 1) * ?B) base = (?q + 1) * ?B - base" by simp
    then show ?thesis
      using False ix unfolding u_def GmPM_UnifiedSizeAfter_def by (simp add: Let_def pm_def nb_def cs_def)
  qed
  have bounds: "nb \<le> a mod ?B" "a mod ?B < nb + cs" "nb + cs \<le> ?B" "?q * ?B + nb + cs \<le> base + len"
  proof -
    have "nb \<le> a mod ?B \<and> a mod ?B < nb + cs \<and> nb + cs \<le> ?B \<and> ?q * ?B + nb + cs \<le> base + len"
    proof (cases "base div ?B < ?q")
      case True
      then have "nb = 0" "cs = min ?B (len - (?q * ?B - base))" by (simp_all add: nb_def cs_def)
      then show ?thesis using qb [OF True] aq r by linarith
    next
      case False
      then have "?q * ?B + base mod ?B = base" using bq q by simp
      moreover have "nb = base mod ?B" "cs = min (?q * ?B + ?B - base) len" using False by (simp_all add: nb_def cs_def algebra_simps)
      ultimately show ?thesis using aq bq r by linarith
    qed
    then show "nb \<le> a mod ?B" "a mod ?B < nb + cs" "nb + cs \<le> ?B" "?q * ?B + nb + cs \<le> base + len" by simp_all
  qed
  have nc: "nb + cs < 2 ^ 36" using bounds(3) B(2) by simp
  note run = PM_Unified [OF bounds(1,2) nc, where pm = pm, folded u]
  show "1 \<le> u" by (rule run(1))
  show "a + u \<le> base + len" using run(2) bounds(4) aq by linarith
  assume k: "k < u"
  then have "a mod ?B + k < ?B" using run(2) bounds(3) by linarith
  note sb = same_block [OF this]
  have "a + k < 2 ^ 48" using k \<open>a + u \<le> base + len\<close> r(3) by linarith
  note g = GmPM_GetBits_small [OF ok this] GmPM_GetBits_small [OF ok lt(1)]
  have "pm = (case pmList gm ?q of None \<Rightarrow> gm_base gm | Some pm \<Rightarrow> pm)" using ix by (simp add: pm_def QueryPM_def)
  then show "GmPM_GetBits gm (a + k) = GmPM_GetBits gm a"
    using g sb run(3) [OF k] by (cases "pmList gm ?q") simp_all
qed

text \<open>A search in the global memory finds exactly the bytes that do not lie in the last 64 KB of a block.\<close>

lemma GmPM_RangeHasStatus_exact:
  assumes ok: "gm_ok gm" and st: "status \<le> STATUS_MASK" and lim: "a + len \<le> gm_limit"
    and inner: "a mod GM_BLOCK + len + 65535 < 2 ^ 36"
  shows "GmPM_RangeHasStatus gm a len status \<longleftrightarrow> (\<exists>k<len. GmPM_GetBits gm (a + k) AND STATUS_MASK = status)"
proof (cases "len = 0")
  case False
  let ?B = GM_BLOCK and ?q = "a div GM_BLOCK"
  have B: "0 < ?B" "?B < 2 ^ 36" by (rule GM_BLOCK_bounds)+
  have lt: "a < 2 ^ 48" "a + len + ?B - 1 < 2 ^ 48" using lim False B by (simp_all add: gm_limit_def)
  have am: "a mod ?B + len < ?B" using inner by (simp add: block_defs)
  have aq: "a = ?B * ?q + a mod ?B" by simp
  have r: "(a + len + ?B - 1) div ?B = ?q + 1"
  proof (rule div_nat_eqI)
    have "?B * ?q + ?B \<le> a + len + ?B - 1" using aq False B by linarith
    then show "?B * (?q + 1) \<le> a + len + ?B - 1" by simp
    have "a + len + ?B - 1 < ?B * ?q + ?B + ?B" using aq am B by linarith
    then show "a + len + ?B - 1 < ?B * Suc (?q + 1)" by simp
  qed
  have qs: "?q < pmList_size" by (rule GM_BLOCK_bounds(3) [OF lt(1)])
  then have q20: "?q < 2 ^ 20" by (simp add: pmList_size_def block_defs)
  have qB: "?q * ?B < 2 ^ 48" using aq lt(1) by (metis add_leE mult.commute order.strict_trans1 order_refl)
  have add: "add64 (add64 a len) (?B - 1) = a + len + ?B - 1" using lt(2) B(1) by (simp add: add64_def)
  have "min len (?B - a mod ?B) = len" using am by linarith
  then have "GmPM_RangeHasStatus gm a len status = gm_block_has_status gm status ?q (a mod ?B) len"
    unfolding GmPM_RangeHasStatus_def add using False GmPM_index_small [OF lt(1)] GmPM_index_small [OF lt(2)] r
    by (simp add: Let_def)
  also have "\<dots> \<longleftrightarrow> (\<exists>k<len. (case pmList gm ?q of None \<Rightarrow> gm_memInitVal gm | Some pm \<Rightarrow> PM_GetBits pm (a mod ?B + k)) AND STATUS_MASK = status)"
    using qs q20 False B(1) GmPM_index_small(1) [OF qB] gm_ok_base(2,4) [OF ok] PM_RangeHasStatus_exact [OF st inner]
    by (cases "pmList gm ?q") (auto simp: gm_block_has_status_def QueryPM_def)
  also have "\<dots> \<longleftrightarrow> (\<exists>k<len. GmPM_GetBits gm (a + k) AND STATUS_MASK = status)"
  proof -
    have "GmPM_GetBits gm (a + k) = (case pmList gm ?q of None \<Rightarrow> gm_memInitVal gm | Some pm \<Rightarrow> PM_GetBits pm (a mod ?B + k))"
      if "k < len" for k
    proof -
      have "a mod ?B + k < ?B" "a + k < 2 ^ 48" using that am lt(2) B by linarith+
      then show ?thesis using GmPM_GetBits_small [OF ok] same_block [of a ?B k] by (simp split: option.split)
    qed
    then show ?thesis by auto
  qed
  finally show ?thesis .
qed (simp add: GmPM_RangeHasStatus_def)

section \<open>The interface of a shadow map\<close>

locale shadow_map =
  fixes get :: "'m \<Rightarrow> nat \<Rightarrow> u8"
    and set_range :: "nat \<Rightarrow> nat \<Rightarrow> u8 \<Rightarrow> 'm \<Rightarrow> 'm"
    and unified :: "'m \<Rightarrow> nat \<Rightarrow> nat \<Rightarrow> nat \<Rightarrow> nat"
    and ok :: "nat \<Rightarrow> 'm \<Rightarrow> bool"
  assumes ok_set: "ok limit m \<Longrightarrow> a + len \<le> limit \<Longrightarrow> ok limit (set_range a len v m)"
    and get_set: "ok limit m \<Longrightarrow> a + len \<le> limit \<Longrightarrow> x < limit \<Longrightarrow>
        get (set_range a len v m) x = (if a \<le> x \<and> x < a + len then v else get m x)"
    and unified_pos: "ok limit m \<Longrightarrow> base \<le> a \<Longrightarrow> a < base + len \<Longrightarrow> base + len \<le> limit \<Longrightarrow> 1 \<le> unified m base len a"
    and unified_end: "ok limit m \<Longrightarrow> base \<le> a \<Longrightarrow> a < base + len \<Longrightarrow> base + len \<le> limit \<Longrightarrow> a + unified m base len a \<le> base + len"
    and unified_same: "ok limit m \<Longrightarrow> base \<le> a \<Longrightarrow> a < base + len \<Longrightarrow> base + len \<le> limit \<Longrightarrow> k < unified m base len a \<Longrightarrow>
        get m (a + k) = get m a"

interpretation chip: shadow_map PM_GetBits PM_Set PM_UnifiedSizeAfter "\<lambda>limit pm. pm_ok pm \<and> limit \<le> byteNum pm"
proof
  fix limit base a len k and pm :: PM
  assume ok: "pm_ok pm \<and> limit \<le> byteNum pm" and r: "base \<le> a" "a < base + len" "base + len \<le> limit"
  then have lt: "base + len < 2 ^ 36" by (simp add: pm_ok_def)
  show "1 \<le> PM_UnifiedSizeAfter pm base len a" "a + PM_UnifiedSizeAfter pm base len a \<le> base + len"
    by (rule PM_Unified [OF r(1,2) lt])+
  show "k < PM_UnifiedSizeAfter pm base len a \<Longrightarrow> PM_GetBits pm (a + k) = PM_GetBits pm a" by (rule PM_Unified [OF r(1,2) lt])
qed (simp_all add: PM_Set_get)

interpretation gm: shadow_map GmPM_GetBits GmPM_Set GmPM_UnifiedSizeAfter "\<lambda>limit gm. gm_ok gm \<and> limit \<le> gm_limit"
proof
  fix limit base a len k x v and gm :: GmPM
  assume ok: "gm_ok gm \<and> limit \<le> gm_limit"
  show "gm_ok (GmPM_Set a len v gm) \<and> limit \<le> gm_limit" if "a + len \<le> limit"
    using GmPM_Set_get(1) [of gm a len 0] ok that by (simp add: gm_limit_def block_defs)
  show "GmPM_GetBits (GmPM_Set a len v gm) x = (if a \<le> x \<and> x < a + len then v else GmPM_GetBits gm x)" if "a + len \<le> limit" "x < limit"
    using GmPM_Set_get(2) [of gm a len x] ok that by simp
  assume r: "base \<le> a" "a < base + len" "base + len \<le> limit"
  then have lt: "base + len < 2 ^ 48" using ok GM_BLOCK_bounds(1,2) unfolding gm_limit_def by linarith
  show "1 \<le> GmPM_UnifiedSizeAfter gm base len a" "a + GmPM_UnifiedSizeAfter gm base len a \<le> base + len"
    by (rule GmPM_Unified [OF conjunct1 [OF ok] r(1,2) lt])+
  show "k < GmPM_UnifiedSizeAfter gm base len a \<Longrightarrow> GmPM_GetBits gm (a + k) = GmPM_GetBits gm a"
    by (rule GmPM_Unified [OF conjunct1 [OF ok] r(1,2) lt])
qed

end
