(* ===== verification/MemErrors.thy ===== *)
theory MemErrors
  imports Events
begin

text \<open>
  The error messages of the address sanitizer (\<open>csrc/address_sanitizer/mem_error_def.h\<close>), the records of
  memory operations it consumes (\<open>record_defs.h\<close>), and the buffer that reduces equal errors of
  different blocks to one entry (\<open>error_buffer.cpp\<close>). Addresses and sizes of 64 bits are natural numbers.
\<close>

section \<open>Records of memory operations\<close>

datatype MemOpType = MO_MALLOC | MO_FREE | MO_MEMCPY_BLOCKS | MO_LOAD | MO_STORE | MO_GM_ADDR_OUT_OF_BOUND | MO_INVALID

datatype MemInfoSrc = SRC_BYPASS | SRC_HAL | SRC_RT | SRC_ACL | SRC_EXTRA | SRC_MANUAL | SRC_MSTX_HEAP | SRC_MSTX_REGION

datatype MemOpSide = SIDE_HOST | SIDE_KERNEL

record GMAddrOutOfBoundRecord =
  userAddr :: nat
  userSize :: nat
  outAddr :: nat
  outSize :: nat

record MemOpRecord =
  mo_serialNo :: nat
  mo_type :: MemOpType
  mo_coreId :: int
  mo_moduleId :: int
  mo_srcAddr :: nat
  mo_dstAddr :: nat
  mo_srcSpace :: AddressSpace
  mo_dstSpace :: AddressSpace
  mo_memSize :: nat
  mo_lineNo :: int
  mo_fileName :: string
  mo_blockType :: BlockType
  mo_pc :: nat
  mo_infoSrc :: MemInfoSrc
  mo_side :: MemOpSide
  mo_rootAddr :: nat
  mo_mainScalarPc :: u64
  mo_ignoreIllegalCheck :: bool
  mo_isSimt :: bool
  mo_recordType :: RecordType
  mo_outOfBounds :: GMAddrOutOfBoundRecord

section \<open>Error messages\<close>

datatype MemErrorType =
    OUT_OF_BOUNDS | ILLEGAL_ADDR_WRITE | ILLEGAL_ADDR_READ | MISALIGNED_ACCESS | MEM_LEAK | ILLEGAL_FREE | MEM_UNUSED
  | UNINITIALIZED_READ | INTERNAL_ERROR | GM_ADDR_OUT_OF_BOUND | NON_DEFAULT_REG | ERR_INVALID

record AuxData =
  badAddr :: nat
  nBadBytes :: nat
  baseAddr :: nat
  baseSize :: nat
  aux_space :: AddressSpace
  aux_moduleId :: int
  aux_fileName :: string
  aux_lineNo :: nat
  aux_coreId :: int
  aux_blockType :: BlockType
  aux_pc :: nat
  aux_serialNo :: nat
  aux_vectorMask :: VectorMask
  aux_maskMode :: MaskMode
  aux_side :: MemOpSide
  aux_threadLoc :: SimtThreadLocation
  aux_conflictedThreadLoc :: SimtThreadLocation
  aux_instrName :: u8
  aux_recordType :: RecordType
  aux_isSimt :: bool
  displayThread :: bool

record ErrorMsg =
  err_type :: MemErrorType
  isError :: bool
  auxData :: AuxData

definition no_thread :: SimtThreadLocation where
  "no_thread = SimtThreadLocation 0 0 0 0"

definition AuxData_new :: AuxData where
  "AuxData_new = \<lparr>badAddr = 0, nBadBytes = 0, baseAddr = 0, baseSize = 0, aux_space = AS_UNKNOWN, aux_moduleId = -1,
     aux_fileName = [], aux_lineNo = 0, aux_coreId = 0, aux_blockType = BT_AICUBE, aux_pc = 0, aux_serialNo = 0,
     aux_vectorMask = \<lparr>mask0 = 0, mask1 = 0\<rparr>, aux_maskMode = MASK_NORM, aux_side = SIDE_HOST, aux_threadLoc = no_thread,
     aux_conflictedThreadLoc = no_thread, aux_instrName = 0, aux_recordType = INVALID_RECORD_TYPE, aux_isSimt = False,
     displayThread = False\<rparr>"

definition ErrorMsg_new :: ErrorMsg where
  "ErrorMsg_new = \<lparr>err_type = ERR_INVALID, isError = False, auxData = AuxData_new\<rparr>"

definition upd_aux :: "(AuxData \<Rightarrow> AuxData) \<Rightarrow> ErrorMsg \<Rightarrow> ErrorMsg" where
  "upd_aux f m = m\<lparr>auxData := f (auxData m)\<rparr>"

definition SetType :: "MemErrorType \<Rightarrow> AddressSpace \<Rightarrow> nat \<Rightarrow> ErrorMsg \<Rightarrow> ErrorMsg" where
  "SetType t space a m = m\<lparr>err_type := t, isError := True, auxData := (auxData m)\<lparr>aux_space := space, badAddr := a, aux_moduleId := -1\<rparr>\<rparr>"

definition SetLocInfo :: "string \<Rightarrow> nat \<Rightarrow> nat \<Rightarrow> int \<Rightarrow> BlockType \<Rightarrow> ErrorMsg \<Rightarrow> ErrorMsg" where
  "SetLocInfo fn ln pc core bt =
     upd_aux (\<lambda>x. x\<lparr>aux_fileName := fn, aux_lineNo := ln, aux_pc := pc, aux_coreId := core, aux_blockType := bt\<rparr>)"

definition ErrorMsg_eq :: "ErrorMsg \<Rightarrow> ErrorMsg \<Rightarrow> bool" where
  "ErrorMsg_eq l r \<longleftrightarrow>
     (if \<not> isError l \<or> \<not> isError r then isError l = isError r
      else let x = auxData l; y = auxData r in
        err_type l = err_type r \<and> badAddr x = badAddr y \<and> nBadBytes x = nBadBytes y \<and> aux_space x = aux_space y \<and>
        aux_moduleId x = aux_moduleId y \<and> aux_fileName x = aux_fileName y \<and> aux_lineNo x = aux_lineNo y \<and>
        aux_pc x = aux_pc y \<and> aux_isSimt x = aux_isSimt y \<and> displayThread x = displayThread y \<and>
        aux_threadLoc x = aux_threadLoc y)"

lemma ErrorMsg_eq_equiv:
  "ErrorMsg_eq m m" "ErrorMsg_eq l r \<Longrightarrow> ErrorMsg_eq r l" "ErrorMsg_eq l m \<Longrightarrow> ErrorMsg_eq m r \<Longrightarrow> ErrorMsg_eq l r"
  by (auto simp: ErrorMsg_eq_def Let_def split: if_splits)

section \<open>The buffer of reduced errors\<close>

text \<open>
  \<open>std::unordered_set<ReducedErrorMsg>\<close> is a list without equal elements; \<open>iter\<close> is the order in which
  the set is iterated, so that with the stable sort below every order of errors with one serial
  number is covered.
\<close>

record ReducedErrorMsg =
  errorMsg :: ErrorMsg
  aivBlocks :: "nat set"
  aicBlocks :: "nat set"
  aicoreBlocks :: "nat set"

type_synonym ErrorBuffer = "ReducedErrorMsg list"

fun HasBadByteSemantics :: "MemErrorType \<Rightarrow> bool" where
  "HasBadByteSemantics ILLEGAL_FREE = False"
| "HasBadByteSemantics INTERNAL_ERROR = False"
| "HasBadByteSemantics _ = True"

text \<open>\<open>static_cast<uint64_t>\<close> of the signed core id.\<close>

definition core_u64 :: "int \<Rightarrow> nat" where
  "core_u64 c = nat (c mod 2 ^ 64)"

definition add_block :: "ErrorMsg \<Rightarrow> ReducedErrorMsg \<Rightarrow> ReducedErrorMsg" where
  "add_block e r =
     (let c = core_u64 (aux_coreId (auxData e)) in
      case aux_blockType (auxData e) of
        BT_AIVEC \<Rightarrow> r\<lparr>aivBlocks := insert c (aivBlocks r)\<rparr>
      | BT_AICUBE \<Rightarrow> r\<lparr>aicBlocks := insert c (aicBlocks r)\<rparr>
      | BT_AICORE \<Rightarrow> r\<lparr>aicoreBlocks := insert c (aicoreBlocks r)\<rparr>)"

primrec reduce_into :: "ErrorMsg \<Rightarrow> ErrorBuffer \<Rightarrow> ErrorBuffer" where
  "reduce_into e [] = [add_block e \<lparr>errorMsg = e, aivBlocks = {}, aicBlocks = {}, aicoreBlocks = {}\<rparr>]"
| "reduce_into e (r # rs) = (if ErrorMsg_eq (errorMsg r) e then add_block e r # rs else r # reduce_into e rs)"

definition ErrorBuffer_Add :: "ErrorMsg \<Rightarrow> ErrorBuffer \<Rightarrow> ErrorBuffer" where
  "ErrorBuffer_Add e b =
     (if HasBadByteSemantics (err_type e) \<and> nBadBytes (auxData e) = 0 then b else reduce_into e b)"

definition ErrorBuffer_GetBuffer :: "(ErrorBuffer \<Rightarrow> ErrorBuffer) \<Rightarrow> ErrorBuffer \<Rightarrow> ErrorBuffer" where
  "ErrorBuffer_GetBuffer iter b = sort_key (\<lambda>r. aux_serialNo (auxData (errorMsg r))) (iter b)"

definition reportable :: "ErrorMsg \<Rightarrow> bool" where
  "reportable e \<longleftrightarrow> \<not> (HasBadByteSemantics (err_type e) \<and> nBadBytes (auxData e) = 0)"

definition blocks_of :: "BlockType \<Rightarrow> ErrorMsg \<Rightarrow> ErrorMsg list \<Rightarrow> nat set" where
  "blocks_of bt m es = {core_u64 (aux_coreId (auxData e)) |e. e \<in> set es \<and> reportable e \<and> ErrorMsg_eq m e \<and> aux_blockType (auxData e) = bt}"

text \<open>What the buffer holds after the errors \<open>es\<close>: one entry per class of equal errors, with its blocks.\<close>

definition entry_ok :: "ErrorMsg list \<Rightarrow> ReducedErrorMsg \<Rightarrow> bool" where
  "entry_ok es r \<longleftrightarrow> errorMsg r \<in> set es \<and> reportable (errorMsg r) \<and> aivBlocks r = blocks_of BT_AIVEC (errorMsg r) es \<and>
     aicBlocks r = blocks_of BT_AICUBE (errorMsg r) es \<and> aicoreBlocks r = blocks_of BT_AICORE (errorMsg r) es"

definition reduced :: "ErrorMsg list \<Rightarrow> ErrorBuffer \<Rightarrow> bool" where
  "reduced es b \<longleftrightarrow> (\<forall>r\<in>set b. entry_ok es r) \<and>
     (\<forall>e\<in>set es. reportable e \<longrightarrow> (\<exists>r\<in>set b. ErrorMsg_eq (errorMsg r) e)) \<and>
     sorted_wrt (\<lambda>r r'. \<not> ErrorMsg_eq (errorMsg r) (errorMsg r')) b"

lemma errorMsg_add_block [simp]: "errorMsg (add_block e r) = errorMsg r"
  by (simp add: add_block_def Let_def split: BlockType.split)

lemma blocks_of_snoc:
  "blocks_of bt m (es @ [e]) = blocks_of bt m es \<union>
     (if reportable e \<and> ErrorMsg_eq m e \<and> aux_blockType (auxData e) = bt then {core_u64 (aux_coreId (auxData e))} else {})"
  by (auto simp: blocks_of_def)

lemma add_block_blocks:
  "aivBlocks (add_block e r) = aivBlocks r \<union> (if aux_blockType (auxData e) = BT_AIVEC then {core_u64 (aux_coreId (auxData e))} else {})"
  "aicBlocks (add_block e r) = aicBlocks r \<union> (if aux_blockType (auxData e) = BT_AICUBE then {core_u64 (aux_coreId (auxData e))} else {})"
  "aicoreBlocks (add_block e r) = aicoreBlocks r \<union> (if aux_blockType (auxData e) = BT_AICORE then {core_u64 (aux_coreId (auxData e))} else {})"
  by (simp_all add: add_block_def Let_def split: BlockType.split)

lemma reduce_into_cases:
  "(\<exists>xs r ys. b = xs @ r # ys \<and> ErrorMsg_eq (errorMsg r) e \<and> (\<forall>x\<in>set xs. \<not> ErrorMsg_eq (errorMsg x) e) \<and>
      reduce_into e b = xs @ add_block e r # ys) \<or>
   (\<forall>x\<in>set b. \<not> ErrorMsg_eq (errorMsg x) e) \<and>
      reduce_into e b = b @ [add_block e \<lparr>errorMsg = e, aivBlocks = {}, aicBlocks = {}, aicoreBlocks = {}\<rparr>]"
proof (induction b)
  case (Cons r rs)
  show ?case
  proof (cases "ErrorMsg_eq (errorMsg r) e")
    case True
    then show ?thesis by (intro disjI1 exI [of _ "[]"]) auto
  next
    case False
    then show ?thesis using Cons.IH
    proof (elim disjE exE conjE)
      fix xs q ys
      assume "rs = xs @ q # ys" "ErrorMsg_eq (errorMsg q) e" "\<forall>x\<in>set xs. \<not> ErrorMsg_eq (errorMsg x) e"
        "reduce_into e rs = xs @ add_block e q # ys"
      then show ?thesis using False by (intro disjI1 exI [of _ "r # xs"] exI [of _ q] exI [of _ ys]) simp
    qed (use False in simp)
  qed
qed simp

lemma entry_ok_other:
  assumes "entry_ok es r" "\<not> (reportable e \<and> ErrorMsg_eq (errorMsg r) e)"
  shows "entry_ok (es @ [e]) r"
  using assms by (auto simp: entry_ok_def blocks_of_snoc)

lemma entry_ok_same:
  assumes "entry_ok es r" "reportable e" "ErrorMsg_eq (errorMsg r) e"
  shows "entry_ok (es @ [e]) (add_block e r)"
  using assms by (simp add: entry_ok_def blocks_of_snoc add_block_blocks)

lemma entry_ok_first:
  assumes "reportable e" "\<forall>x\<in>set es. reportable x \<longrightarrow> \<not> ErrorMsg_eq e x"
  shows "entry_ok (es @ [e]) (add_block e \<lparr>errorMsg = e, aivBlocks = {}, aicBlocks = {}, aicoreBlocks = {}\<rparr>)"
proof -
  have "blocks_of bt e es = {}" for bt using assms(2) by (auto simp: blocks_of_def)
  then show ?thesis using assms(1) ErrorMsg_eq_equiv(1) [of e] by (simp add: entry_ok_def blocks_of_snoc add_block_blocks)
qed

lemma reduced_Add:
  assumes "reduced es b"
  shows "reduced (es @ [e]) (ErrorBuffer_Add e b)"
proof (cases "reportable e")
  case False
  then have "ErrorBuffer_Add e b = b" by (simp add: ErrorBuffer_Add_def reportable_def)
  then show ?thesis using assms False entry_ok_other [of es _ e] by (auto simp: reduced_def)
next
  case True
  then have add: "ErrorBuffer_Add e b = reduce_into e b" by (auto simp: ErrorBuffer_Add_def reportable_def)
  have ok: "\<forall>r\<in>set b. entry_ok es r" and cover: "\<forall>x\<in>set es. reportable x \<longrightarrow> (\<exists>r\<in>set b. ErrorMsg_eq (errorMsg r) x)"
    and pw: "sorted_wrt (\<lambda>r r'. \<not> ErrorMsg_eq (errorMsg r) (errorMsg r')) b" using assms by (simp_all add: reduced_def)
  show ?thesis
    using reduce_into_cases [of b e]
  proof (elim disjE exE conjE)
    fix xs r ys
    assume b: "b = xs @ r # ys" and r: "ErrorMsg_eq (errorMsg r) e" and eq: "reduce_into e b = xs @ add_block e r # ys"
    have "\<not> ErrorMsg_eq (errorMsg x) e" if "x \<in> set xs \<union> set ys" for x
    proof
      assume x: "ErrorMsg_eq (errorMsg x) e"
      have "ErrorMsg_eq (errorMsg x) (errorMsg r)" "ErrorMsg_eq (errorMsg r) (errorMsg x)"
        using x r ErrorMsg_eq_equiv by blast+
      then show False using that pw b by (auto simp: sorted_wrt_append)
    qed
    then have "\<forall>x\<in>set (xs @ add_block e r # ys). entry_ok (es @ [e]) x"
      using ok b entry_ok_other [of es _ e] entry_ok_same [OF _ True r] by auto
    moreover have "\<forall>x\<in>set (es @ [e]). reportable x \<longrightarrow> (\<exists>q\<in>set (xs @ add_block e r # ys). ErrorMsg_eq (errorMsg q) x)"
      using cover r b by fastforce
    ultimately show ?thesis unfolding add eq using pw b by (simp add: reduced_def sorted_wrt_append)
  next
    let ?n = "add_block e \<lparr>errorMsg = e, aivBlocks = {}, aicBlocks = {}, aicoreBlocks = {}\<rparr>"
    assume none: "\<forall>x\<in>set b. \<not> ErrorMsg_eq (errorMsg x) e" and eq: "reduce_into e b = b @ [?n]"
    have "\<forall>x\<in>set es. reportable x \<longrightarrow> \<not> ErrorMsg_eq e x"
      using cover none ErrorMsg_eq_equiv by meson
    then have "\<forall>x\<in>set (b @ [?n]). entry_ok (es @ [e]) x"
      using ok none entry_ok_other [of es _ e] entry_ok_first [OF True] by auto
    moreover have "\<forall>x\<in>set (es @ [e]). reportable x \<longrightarrow> (\<exists>q\<in>set (b @ [?n]). ErrorMsg_eq (errorMsg q) x)"
      using cover ErrorMsg_eq_equiv(1) by fastforce
    ultimately show ?thesis unfolding add eq using pw none by (simp add: reduced_def sorted_wrt_append)
  qed
qed

text \<open>
  The error buffer reports every kind of error once: after any sequence of errors it has exactly
  one entry per class of equal reportable errors, and the entry lists exactly the blocks, per block
  type, on which an error of the class was found; errors of size zero that have a size are dropped.
\<close>
theorem ErrorBuffer_reduces: "reduced es (fold ErrorBuffer_Add es [])"
proof (induction es rule: rev_induct)
  case Nil
  show ?case by (simp add: reduced_def)
next
  case (snoc e es)
  then show ?case using reduced_Add [OF snoc, of e] by simp
qed

section \<open>Printing the blocks of an error\<close>

text \<open>
  The ranges \<open>operator<<(BlockIdxList)\<close> prints of a sorted list: the second component is the last
  index, a single index prints without a dash.
\<close>

fun block_ranges_from :: "nat \<Rightarrow> nat \<Rightarrow> nat list \<Rightarrow> (nat \<times> nat) list" where
  "block_ranges_from start n [] = [(start, start + n - 1)]"
| "block_ranges_from start n (x # xs) =
     (if n = x - start then block_ranges_from start (n + 1) xs else (start, start + n - 1) # block_ranges_from x 1 xs)"

definition block_ranges :: "nat list \<Rightarrow> (nat \<times> nat) list" where
  "block_ranges blocks = (case sort blocks of [] \<Rightarrow> [] | x # xs \<Rightarrow> block_ranges_from x 1 xs)"

lemma block_ranges_from_denotes:
  assumes "sorted_wrt (<) (start # xs)" "\<forall>x\<in>set xs. start + n \<le> x" "0 < n"
  shows "concat (map (\<lambda>(a, b). [a ..< b + 1]) (block_ranges_from start n xs)) = [start ..< start + n] @ xs"
  using assms
proof (induction start n xs rule: block_ranges_from.induct)
  case (1 start n)
  then have "start + n - 1 + 1 = start + n" by simp
  then show ?case by (simp del: upt_Suc)
next
  case (2 start n x xs)
  have later: "\<forall>y\<in>set xs. x < y" and sx: "sorted_wrt (<) (x # xs)" and sp: "start < x" and ge: "start + n \<le> x"
    using 2(3-5) by simp_all
  show ?case
  proof (cases "n = x - start")
    case True
    then have x: "x = start + n" using ge by simp
    have "concat (map (\<lambda>(a, b). [a ..< b + 1]) (block_ranges_from start (n + 1) xs)) = [start ..< start + (n + 1)] @ xs"
    proof (rule 2(1) [OF True])
      show "sorted_wrt (<) (start # xs)" using 2(3) by simp
      show "\<forall>y\<in>set xs. start + (n + 1) \<le> y" using later unfolding x by (simp add: Suc_le_eq)
    qed simp
    moreover have "block_ranges_from start n (x # xs) = block_ranges_from start (n + 1) xs" using True by simp
    ultimately show ?thesis unfolding x by simp
  next
    case False
    have "concat (map (\<lambda>(a, b). [a ..< b + 1]) (block_ranges_from x 1 xs)) = [x ..< x + 1] @ xs"
      by (rule 2(2) [OF False sx]) (use later in \<open>simp_all add: Suc_le_eq\<close>)
    moreover have "start + n - 1 + 1 = start + n" using 2(5) by simp
    moreover have "[x ..< Suc x] = [x]" by simp
    ultimately show ?thesis using False by (simp del: upt_Suc)
  qed
qed

text \<open>
  Printing the blocks of an error loses nothing: the printed ranges, expanded in order, are
  exactly the block indices in increasing order.
\<close>
theorem block_ranges_roundtrip:
  assumes "distinct blocks"
  shows "concat (map (\<lambda>(a, b). [a ..< b + 1]) (block_ranges blocks)) = sort blocks"
proof (cases "sort blocks")
  case (Cons x xs)
  have "sorted_wrt (<) (x # xs)" using assms Cons by (metis distinct_sort sorted_sort strict_sorted_iff)
  then show ?thesis using block_ranges_from_denotes [of x xs 1] Cons by (auto simp: block_ranges_def Suc_le_eq upt_rec)
qed (simp add: block_ranges_def)

theorem block_ranges_roundtrip_witness:
  "block_ranges [3, 0, 1, 2, 7] = [(0, 3), (7, 7)] \<and> concat (map (\<lambda>(a, b). [a ..< b + 1]) (block_ranges [3, 0, 1, 2, 7])) = sort [3, 0, 1, 2, 7]"
  using block_ranges_roundtrip [of "[3, 0, 1, 2, 7]"] by (simp add: block_ranges_def)

end
