(* ===== verification/OrderedMap.thy ===== *)
theory OrderedMap
  imports Main
begin

text \<open>
  A \<open>std::map\<close> with unsigned keys as the list of its entries in increasing order of the keys: insertion
  or assignment, removal, and the lookup with \<^const>\<open>map_of\<close>.
\<close>

type_synonym 'v omap = "(nat \<times> 'v) list"

primrec oput :: "nat \<Rightarrow> 'v \<Rightarrow> 'v omap \<Rightarrow> 'v omap" where
  "oput k v [] = [(k, v)]"
| "oput k v (x # xs) = (if k < fst x then (k, v) # x # xs else if k = fst x then (k, v) # xs else x # oput k v xs)"

definition oerase :: "nat \<Rightarrow> 'v omap \<Rightarrow> 'v omap" where
  "oerase k xs = filter (\<lambda>x. fst x \<noteq> k) xs"

definition ordered :: "'v omap \<Rightarrow> bool" where
  "ordered xs \<longleftrightarrow> sorted_wrt (<) (map fst xs)"

lemma map_of_oput: "ordered xs \<Longrightarrow> map_of (oput k v xs) = (map_of xs)(k \<mapsto> v)"
proof (induction xs)
  case (Cons x xs)
  have "map_of xs k = None" if "k < fst x"
    using that Cons.prems by (auto simp: ordered_def map_of_eq_None_iff)
  then show ?case using Cons by (cases x) (auto simp: ordered_def fun_upd_twist)
qed simp

lemma set_oput: "fst ` set (oput k v xs) = insert k (fst ` set xs)"
  by (induction xs) auto

lemma ordered_oput: "ordered xs \<Longrightarrow> ordered (oput k v xs)"
proof (induction xs)
  case (Cons x xs)
  have "set (map fst (oput k v xs)) = insert k (set (map fst xs))" using set_oput [of k v xs] by simp
  then show ?case using Cons by (auto simp: ordered_def)
qed (simp add: ordered_def)

lemma map_of_oerase: "map_of (oerase k xs) = (map_of xs)(k := None)"
  by (induction xs) (auto simp: oerase_def)

lemma ordered_oerase: "ordered xs \<Longrightarrow> ordered (oerase k xs)"
  by (induction xs) (auto simp: ordered_def oerase_def)

lemma ordered_entries:
  assumes "ordered xs"
  shows "(k, v) \<in> set xs \<longleftrightarrow> map_of xs k = Some v"
proof -
  have "distinct (map fst xs)" using assms unfolding ordered_def by (simp add: strict_sorted_iff)
  then show ?thesis by simp
qed

lemma ordered_Nil [simp]: "ordered []"
  by (simp add: ordered_def)

end
