(* ===== verification/HeapBlocks.thy ===== *)
theory HeapBlocks
  imports MemErrors OrderedMap
begin

text \<open>
  The heap blocks of the address sanitizer (\<open>csrc/address_sanitizer/heap_block_manager.cpp\<close>): the blocks
  of the runtime, those reported by the framework, and the heaps and regions of the user. A
  \<open>std::map\<close> keyed by addresses is an ordered map. Log output and the messages on the console are not
  part of the state.
\<close>

section \<open>The manager\<close>

record HeapBlock =
  hb_serialNo :: nat
  hb_addr :: nat
  hb_len :: nat
  hb_moduleId :: int
  hb_lineNo :: nat
  hb_fileName :: string
  hb_isInvalid :: bool

definition HeapBlock_of :: "MemOpRecord \<Rightarrow> HeapBlock" where
  "HeapBlock_of r = \<lparr>hb_serialNo = mo_serialNo r, hb_addr = mo_dstAddr r, hb_len = mo_memSize r, hb_moduleId = mo_moduleId r,
     hb_lineNo = nat (mo_lineNo r mod 2 ^ 32), hb_fileName = mo_fileName r, hb_isInvalid = False\<rparr>"

datatype HeapType = HT_RT | HT_DFX | HT_MSTX_HEAP | HT_MSTX_REGION | HT_BYPASS

record HeapBlockManager =
  heapBlocks :: "HeapBlock omap"
  heapBlocksForDfx :: "HeapBlock omap"
  mstxHeapBlocks :: "HeapBlock omap"
  mstxRegionBlocks :: "HeapBlock list omap"

definition HeapBlockManager_new :: HeapBlockManager where
  "HeapBlockManager_new = \<lparr>heapBlocks = [], heapBlocksForDfx = [], mstxHeapBlocks = [], mstxRegionBlocks = []\<rparr>"

definition IsAddrInRange :: "HeapBlock \<Rightarrow> nat \<Rightarrow> nat \<Rightarrow> bool" where
  "IsAddrInRange b thresholdAddr thresholdSize \<longleftrightarrow>
     hb_addr b \<ge> thresholdAddr \<and> thresholdSize \<ge> hb_len b \<and> hb_addr b - thresholdAddr \<le> thresholdSize - hb_len b"

definition uses_dfx :: "MemInfoSrc \<Rightarrow> bool" where
  "uses_dfx src \<longleftrightarrow> src = SRC_EXTRA \<or> src = SRC_MANUAL \<or> src = SRC_BYPASS"

definition GetHeapBlocks :: "MemInfoSrc \<Rightarrow> HeapBlockManager \<Rightarrow> HeapBlock omap" where
  "GetHeapBlocks src m = (if uses_dfx src then heapBlocksForDfx m else heapBlocks m)"

definition SetHeapBlocks :: "MemInfoSrc \<Rightarrow> HeapBlock omap \<Rightarrow> HeapBlockManager \<Rightarrow> HeapBlockManager" where
  "SetHeapBlocks src bs m = (if uses_dfx src then m\<lparr>heapBlocksForDfx := bs\<rparr> else m\<lparr>heapBlocks := bs\<rparr>)"

fun GetHeapType :: "MemInfoSrc \<Rightarrow> HeapType" where
  "GetHeapType SRC_HAL = HT_RT"
| "GetHeapType SRC_RT = HT_RT"
| "GetHeapType SRC_ACL = HT_RT"
| "GetHeapType SRC_EXTRA = HT_DFX"
| "GetHeapType SRC_MANUAL = HT_DFX"
| "GetHeapType SRC_BYPASS = HT_BYPASS"
| "GetHeapType SRC_MSTX_HEAP = HT_MSTX_HEAP"
| "GetHeapType SRC_MSTX_REGION = HT_MSTX_REGION"

definition add_new :: "MemOpRecord \<Rightarrow> HeapBlock omap \<Rightarrow> HeapBlock omap" where
  "add_new r bs = (if map_of bs (mo_dstAddr r) = None then oput (mo_dstAddr r) (HeapBlock_of r) bs else bs)"

definition AddRtDfxBlock :: "MemOpRecord \<Rightarrow> HeapBlockManager \<Rightarrow> bool \<times> HeapBlockManager" where
  "AddRtDfxBlock r m = (True, SetHeapBlocks (mo_infoSrc r) (add_new r (GetHeapBlocks (mo_infoSrc r) m)) m)"

definition AddByPassBlock :: "MemOpRecord \<Rightarrow> HeapBlockManager \<Rightarrow> bool \<times> HeapBlockManager" where
  "AddByPassBlock r m = (True, m\<lparr>heapBlocks := add_new r (heapBlocks m), heapBlocksForDfx := add_new r (heapBlocksForDfx m)\<rparr>)"

definition AddMstxHeapBlock :: "MemOpRecord \<Rightarrow> HeapBlockManager \<Rightarrow> bool \<times> HeapBlockManager" where
  "AddMstxHeapBlock r m =
     (if map_of (mstxHeapBlocks m) (mo_dstAddr r) \<noteq> None then (False, m)
      else let b = HeapBlock_of r in
        if list_ex (\<lambda>(_, bk). IsAddrInRange b (hb_addr bk) (hb_len bk)) (heapBlocks m)
        then (True, m\<lparr>mstxHeapBlocks := oput (mo_dstAddr r) b (mstxHeapBlocks m)\<rparr>)
        else (False, m\<lparr>mstxHeapBlocks := oput (mo_dstAddr r) (b\<lparr>hb_isInvalid := True\<rparr>) (mstxHeapBlocks m)\<rparr>))"

definition AddMstxRegionBlock :: "MemOpRecord \<Rightarrow> HeapBlockManager \<Rightarrow> bool \<times> HeapBlockManager" where
  "AddMstxRegionBlock r m =
     (let root = mo_rootAddr r; it = map_of (mstxHeapBlocks m) root in
      if root \<noteq> 0 \<and> it = None then (False, m)
      else (root = 0 \<or> (case it of Some b \<Rightarrow> \<not> hb_isInvalid b | None \<Rightarrow> False),
            m\<lparr>mstxRegionBlocks := oput root
                (case map_of (mstxRegionBlocks m) root of None \<Rightarrow> [HeapBlock_of r] | Some bs \<Rightarrow> bs @ [HeapBlock_of r]) (mstxRegionBlocks m)\<rparr>))"

definition AddHeapBlock :: "MemOpRecord \<Rightarrow> HeapBlockManager \<Rightarrow> bool \<times> HeapBlockManager" where
  "AddHeapBlock r m =
     (case GetHeapType (mo_infoSrc r) of
        HT_RT \<Rightarrow> AddRtDfxBlock r m
      | HT_DFX \<Rightarrow> AddRtDfxBlock r m
      | HT_BYPASS \<Rightarrow> AddByPassBlock r m
      | HT_MSTX_HEAP \<Rightarrow> AddMstxHeapBlock r m
      | HT_MSTX_REGION \<Rightarrow> AddMstxRegionBlock r m)"

definition IsRealMalloc :: "MemInfoSrc \<Rightarrow> bool" where
  "IsRealMalloc src \<longleftrightarrow> src = SRC_HAL \<or> src = SRC_ACL \<or> src = SRC_RT"

definition DeleteMstxInfo :: "MemOpRecord \<Rightarrow> nat \<Rightarrow> HeapBlockManager \<Rightarrow> HeapBlockManager" where
  "DeleteMstxInfo r freeSize m =
     (if \<not> IsRealMalloc (mo_infoSrc r) then m
      else case find (\<lambda>(_, b). IsAddrInRange b (mo_dstAddr r) freeSize) (mstxHeapBlocks m) of
             None \<Rightarrow> m
           | Some (k, _) \<Rightarrow> m\<lparr>mstxRegionBlocks := oerase k (mstxRegionBlocks m), mstxHeapBlocks := oerase k (mstxHeapBlocks m)\<rparr>)"

definition illegal_free :: "MemOpRecord \<Rightarrow> ErrorMsg" where
  "illegal_free r = SetType ILLEGAL_FREE AS_GM (mo_dstAddr r) ErrorMsg_new"

text \<open>The out parameter \<open>size\<close> keeps its value when the free is illegal.\<close>

definition FreeRtDfxBlock :: "MemOpRecord \<Rightarrow> nat \<Rightarrow> HeapBlockManager \<Rightarrow> ErrorMsg \<times> nat \<times> HeapBlockManager" where
  "FreeRtDfxBlock r sz m =
     (case map_of (GetHeapBlocks (mo_infoSrc r) m) (mo_dstAddr r) of
        None \<Rightarrow> (illegal_free r, sz, m)
      | Some b \<Rightarrow>
          (let m1 = DeleteMstxInfo r (hb_len b) m
           in (ErrorMsg_new, hb_len b, SetHeapBlocks (mo_infoSrc r) (oerase (mo_dstAddr r) (GetHeapBlocks (mo_infoSrc r) m1)) m1)))"

definition FreeByPassBlock :: "MemOpRecord \<Rightarrow> nat \<Rightarrow> HeapBlockManager \<Rightarrow> ErrorMsg \<times> nat \<times> HeapBlockManager" where
  "FreeByPassBlock r sz m =
     (case map_of (heapBlocks m) (mo_dstAddr r) of
        None \<Rightarrow> (illegal_free r, sz, m)
      | Some b \<Rightarrow>
          (if map_of (heapBlocksForDfx m) (mo_dstAddr r) = None then (illegal_free r, sz, m)
           else (ErrorMsg_new, hb_len b, m\<lparr>heapBlocks := oerase (mo_dstAddr r) (heapBlocks m),
                                             heapBlocksForDfx := oerase (mo_dstAddr r) (heapBlocksForDfx m)\<rparr>)))"

definition FreeMstxHeapBlock :: "MemOpRecord \<Rightarrow> nat \<Rightarrow> HeapBlockManager \<Rightarrow> ErrorMsg \<times> nat \<times> HeapBlockManager" where
  "FreeMstxHeapBlock r sz m =
     (case map_of (mstxHeapBlocks m) (mo_dstAddr r) of
        None \<Rightarrow> (illegal_free r, sz, m)
      | Some b \<Rightarrow> (ErrorMsg_new, hb_len b, m\<lparr>mstxHeapBlocks := oerase (mo_dstAddr r) (mstxHeapBlocks m),
                                              mstxRegionBlocks := oerase (mo_dstAddr r) (mstxRegionBlocks m)\<rparr>))"

text \<open>The last region of a vector with the address, counted from the back.\<close>

definition last_region :: "nat \<Rightarrow> HeapBlock list \<Rightarrow> (HeapBlock \<times> HeapBlock list) option" where
  "last_region a bs =
     (case dropWhile (\<lambda>b. hb_addr b \<noteq> a) (rev bs) of
        [] \<Rightarrow> None
      | b # rest \<Rightarrow> Some (b, rev rest @ rev (takeWhile (\<lambda>b. hb_addr b \<noteq> a) (rev bs))))"

primrec free_region :: "nat \<Rightarrow> HeapBlock list omap \<Rightarrow> (HeapBlock \<times> HeapBlock list omap) option" where
  "free_region a [] = None"
| "free_region a (x # xs) =
     (case last_region a (snd x) of
        Some (b, bs) \<Rightarrow> Some (b, (fst x, bs) # xs)
      | None \<Rightarrow> map_option (\<lambda>(b, ys). (b, x # ys)) (free_region a xs))"

definition FreeMstxRegionBlock :: "MemOpRecord \<Rightarrow> nat \<Rightarrow> HeapBlockManager \<Rightarrow> ErrorMsg \<times> nat \<times> HeapBlockManager" where
  "FreeMstxRegionBlock r sz m =
     (case free_region (mo_dstAddr r) (mstxRegionBlocks m) of
        None \<Rightarrow> (illegal_free r, sz, m)
      | Some (b, rs) \<Rightarrow> (ErrorMsg_new, hb_len b, m\<lparr>mstxRegionBlocks := rs\<rparr>))"

definition FreeHeapBlock :: "MemOpRecord \<Rightarrow> nat \<Rightarrow> HeapBlockManager \<Rightarrow> ErrorMsg \<times> nat \<times> HeapBlockManager" where
  "FreeHeapBlock r sz m =
     (case GetHeapType (mo_infoSrc r) of
        HT_RT \<Rightarrow> FreeRtDfxBlock r sz m
      | HT_DFX \<Rightarrow> FreeRtDfxBlock r sz m
      | HT_BYPASS \<Rightarrow> FreeByPassBlock r sz m
      | HT_MSTX_HEAP \<Rightarrow> FreeMstxHeapBlock r sz m
      | HT_MSTX_REGION \<Rightarrow> FreeMstxRegionBlock r sz m)"

definition leak_message :: "HeapBlock \<Rightarrow> ErrorMsg" where
  "leak_message b = upd_aux (\<lambda>x. x\<lparr>nBadBytes := hb_len b, aux_moduleId := hb_moduleId b, aux_fileName := hb_fileName b,
     aux_lineNo := hb_lineNo b, aux_serialNo := hb_serialNo b\<rparr>) (SetType MEM_LEAK AS_GM (hb_addr b) ErrorMsg_new)"

definition HeapBlockManager_DoLeakCheck :: "HeapBlockManager \<Rightarrow> ErrorMsg list" where
  "HeapBlockManager_DoLeakCheck m = map (\<lambda>(_, b). leak_message b) (heapBlocks m)"

definition HeapBlockManager_GetHeapBlockSize :: "MemOpRecord \<Rightarrow> HeapBlockManager \<Rightarrow> nat" where
  "HeapBlockManager_GetHeapBlockSize r m =
     (case map_of (heapBlocks m) (mo_dstAddr r) of
        Some b \<Rightarrow> hb_len b
      | None \<Rightarrow> (case map_of (heapBlocksForDfx m) (mo_dstAddr r) of Some b \<Rightarrow> hb_len b | None \<Rightarrow> 0))"

section \<open>Invariant and lookups\<close>

definition heap_inv :: "HeapBlockManager \<Rightarrow> bool" where
  "heap_inv m \<longleftrightarrow> ordered (heapBlocks m) \<and> ordered (heapBlocksForDfx m) \<and> ordered (mstxHeapBlocks m) \<and> ordered (mstxRegionBlocks m)"

lemma ordered_add_new: "ordered bs \<Longrightarrow> ordered (add_new r bs)"
  by (simp add: add_new_def ordered_oput)

lemma map_of_add_new:
  "ordered bs \<Longrightarrow> map_of (add_new r bs) a =
     (if a = mo_dstAddr r \<and> map_of bs a = None then Some (HeapBlock_of r) else map_of bs a)"
  by (auto simp: add_new_def map_of_oput)

lemma free_region_ordered: "free_region a xs = Some (b, ys) \<Longrightarrow> map fst ys = map fst xs"
  by (induction xs arbitrary: ys) (auto split: option.splits)

lemma heap_inv_Delete: "heap_inv m \<Longrightarrow> heap_inv (DeleteMstxInfo r n m)"
  by (auto simp: DeleteMstxInfo_def heap_inv_def ordered_oerase split: option.split)

lemma Delete_blocks [simp]:
  "heapBlocks (DeleteMstxInfo r n m) = heapBlocks m" "heapBlocksForDfx (DeleteMstxInfo r n m) = heapBlocksForDfx m"
  by (auto simp: DeleteMstxInfo_def split: option.split)

lemma heap_inv_Add: "heap_inv m \<Longrightarrow> heap_inv (snd (AddHeapBlock r m))"
  by (auto simp: AddHeapBlock_def AddRtDfxBlock_def AddByPassBlock_def AddMstxHeapBlock_def AddMstxRegionBlock_def
      SetHeapBlocks_def GetHeapBlocks_def heap_inv_def ordered_add_new ordered_oput Let_def split: HeapType.split option.split)

lemma heap_inv_Free: "heap_inv m \<Longrightarrow> heap_inv (snd (snd (FreeHeapBlock r n m)))"
proof -
  assume inv: "heap_inv m"
  have "heap_inv (snd (snd (FreeRtDfxBlock r n m)))"
    using inv heap_inv_Delete [OF inv, of r] by (auto simp: FreeRtDfxBlock_def SetHeapBlocks_def GetHeapBlocks_def heap_inv_def
        ordered_oerase Let_def split: option.split)
  moreover have "heap_inv (snd (snd (FreeMstxRegionBlock r n m)))"
    using inv free_region_ordered [of "mo_dstAddr r" "mstxRegionBlocks m"]
    by (auto simp: FreeMstxRegionBlock_def heap_inv_def ordered_def split: option.split)
  ultimately show ?thesis
    using inv by (auto simp: FreeHeapBlock_def FreeByPassBlock_def FreeMstxHeapBlock_def heap_inv_def ordered_oerase
        split: HeapType.split option.split)
qed

section \<open>Live blocks of a trace\<close>

definition heap_step :: "MemOpRecord \<Rightarrow> HeapBlockManager \<Rightarrow> HeapBlockManager" where
  "heap_step r m =
     (case mo_type r of
        MO_MALLOC \<Rightarrow> snd (AddHeapBlock r m)
      | MO_FREE \<Rightarrow> snd (snd (FreeHeapBlock r 0 m))
      | _ \<Rightarrow> m)"

definition mallocs :: "MemOpRecord \<Rightarrow> nat \<Rightarrow> bool" where
  "mallocs r a \<longleftrightarrow> mo_type r = MO_MALLOC \<and> mo_dstAddr r = a"

definition frees :: "MemOpRecord \<Rightarrow> nat \<Rightarrow> bool" where
  "frees r a \<longleftrightarrow> mo_type r = MO_FREE \<and> mo_dstAddr r = a"

text \<open>No block is live at \<open>a\<close> after \<open>rs\<close>: every allocation there was freed later.\<close>

definition unowned :: "MemOpRecord list \<Rightarrow> nat \<Rightarrow> bool" where
  "unowned rs a \<longleftrightarrow> (\<forall>xs r ys. rs = xs @ r # ys \<and> mallocs r a \<longrightarrow> (\<exists>y\<in>set ys. frees y a))"

text \<open>The block of the record \<open>r\<close> is live at \<open>a\<close> after \<open>rs\<close>.\<close>

definition live_at :: "MemOpRecord list \<Rightarrow> nat \<Rightarrow> MemOpRecord \<Rightarrow> bool" where
  "live_at rs a r \<longleftrightarrow> mallocs r a \<and> (\<exists>xs ys. rs = xs @ r # ys \<and> unowned xs a \<and> (\<forall>y\<in>set ys. \<not> frees y a))"

lemma append_eq_snoc: "xs @ r # ys = rs @ [x] \<longleftrightarrow> ys = [] \<and> r = x \<and> xs = rs \<or> (\<exists>zs. ys = zs @ [x] \<and> rs = xs @ r # zs)"
  by (cases ys rule: rev_cases) auto

lemma unowned_snoc: "unowned (rs @ [x]) a \<longleftrightarrow> frees x a \<or> unowned rs a \<and> \<not> mallocs x a"
proof
  assume u: "unowned (rs @ [x]) a"
  show "frees x a \<or> unowned rs a \<and> \<not> mallocs x a"
  proof (cases "frees x a")
    case False
    have "unowned rs a"
      unfolding unowned_def
    proof (intro allI impI, elim conjE)
      fix xs r ys assume "rs = xs @ r # ys" "mallocs r a"
      then have "\<exists>y\<in>set (ys @ [x]). frees y a" using u unfolding unowned_def by (metis append.assoc append_Cons)
      then show "\<exists>y\<in>set ys. frees y a" using False by auto
    qed
    moreover have "\<not> mallocs x a" using u unfolding unowned_def by (metis append_Nil2 empty_iff list.set(1))
    ultimately show ?thesis by simp
  qed simp
next
  assume "frees x a \<or> unowned rs a \<and> \<not> mallocs x a"
  then show "unowned (rs @ [x]) a"
    unfolding unowned_def
  proof (intro allI impI, elim conjE)
    fix xs r ys assume h: "frees x a \<or> (\<forall>xs r ys. rs = xs @ r # ys \<and> mallocs r a \<longrightarrow> (\<exists>y\<in>set ys. frees y a)) \<and> \<not> mallocs x a"
      and eq: "rs @ [x] = xs @ r # ys" and m: "mallocs r a"
    from eq [symmetric] show "\<exists>y\<in>set ys. frees y a"
      unfolding append_eq_snoc using h m by (auto simp: mallocs_def frees_def)
  qed
qed

lemma live_at_snoc:
  "live_at (rs @ [x]) a r \<longleftrightarrow> (if x = r \<and> mallocs x a \<and> unowned rs a then True else live_at rs a r \<and> \<not> frees x a)"
  (is "?L \<longleftrightarrow> ?R")
proof
  assume ?L
  then obtain xs ys where m: "mallocs r a" and eq: "xs @ r # ys = rs @ [x]" and u: "unowned xs a" "\<forall>y\<in>set ys. \<not> frees y a"
    unfolding live_at_def by metis
  have "live_at rs a r \<and> \<not> frees x a" if "ys = zs @ [x]" "rs = xs @ r # zs" for zs
    unfolding live_at_def using m u that by auto
  then show ?R
    using eq m u(1) unfolding append_eq_snoc by auto
next
  assume R: ?R
  show ?L
  proof (cases "x = r \<and> mallocs x a \<and> unowned rs a")
    case True
    then have "mallocs r a \<and> rs @ [x] = rs @ r # [] \<and> unowned rs a \<and> (\<forall>y\<in>set []. \<not> frees y a)" by auto
    then show ?thesis unfolding live_at_def by blast
  next
    case False
    have "live_at rs a r" "\<not> frees x a" using R unfolding if_not_P [OF False] by blast+
    then obtain xs ys where "mallocs r a" "rs = xs @ r # ys" "unowned xs a" "\<forall>y\<in>set ys. \<not> frees y a" "\<not> frees x a"
      unfolding live_at_def by blast
    then have "mallocs r a \<and> rs @ [x] = xs @ r # (ys @ [x]) \<and> unowned xs a \<and> (\<forall>y\<in>set (ys @ [x]). \<not> frees y a)" by auto
    then show ?thesis unfolding live_at_def by blast
  qed
qed

definition runtime_trace :: "MemOpRecord list \<Rightarrow> bool" where
  "runtime_trace rs \<longleftrightarrow> (\<forall>r\<in>set rs. IsRealMalloc (mo_infoSrc r))"

lemma real_step:
  assumes "IsRealMalloc (mo_infoSrc x)" "ordered (heapBlocks m)"
  shows "map_of (heapBlocks (heap_step x m)) a =
     (if frees x a then None
      else if mallocs x a \<and> map_of (heapBlocks m) a = None then Some (HeapBlock_of x) else map_of (heapBlocks m) a)"
proof -
  have t: "GetHeapType (mo_infoSrc x) = HT_RT" "\<not> uses_dfx (mo_infoSrc x)"
    using assms(1) by (auto simp: IsRealMalloc_def uses_dfx_def)
  show ?thesis
  proof (cases "mo_type x")
    case MO_MALLOC
    then show ?thesis using t map_of_add_new [OF assms(2)]
      by (auto simp: heap_step_def AddHeapBlock_def AddRtDfxBlock_def SetHeapBlocks_def GetHeapBlocks_def mallocs_def frees_def)
  next
    case MO_FREE
    then show ?thesis using t
      by (auto simp: heap_step_def FreeHeapBlock_def FreeRtDfxBlock_def SetHeapBlocks_def GetHeapBlocks_def mallocs_def frees_def
          map_of_oerase Let_def split: option.split)
  qed (auto simp: heap_step_def mallocs_def frees_def)
qed

lemma heap_inv_step: "heap_inv m \<Longrightarrow> heap_inv (heap_step r m)"
  using heap_inv_Add heap_inv_Free by (simp add: heap_step_def split: MemOpType.split)

lemma heap_inv_trace: "heap_inv (fold heap_step rs HeapBlockManager_new)"
  by (induction rs rule: rev_induct) (simp_all add: heap_inv_step, simp add: heap_inv_def HeapBlockManager_new_def ordered_def)

lemma live_unique: "live_at rs a r \<Longrightarrow> \<not> unowned rs a"
  by (auto simp: live_at_def unowned_def)

lemma heap_trace:
  assumes "runtime_trace rs"
  shows "(map_of (heapBlocks (fold heap_step rs HeapBlockManager_new)) a = None \<longleftrightarrow> unowned rs a) \<and>
     (\<forall>b. map_of (heapBlocks (fold heap_step rs HeapBlockManager_new)) a = Some b \<longleftrightarrow> (\<exists>r. live_at rs a r \<and> b = HeapBlock_of r))"
  using assms
proof (induction rs rule: rev_induct)
  case Nil
  show ?case by (simp add: HeapBlockManager_new_def unowned_def live_at_def)
next
  case (snoc x rs)
  let ?m = "fold heap_step rs HeapBlockManager_new"
  have r: "IsRealMalloc (mo_infoSrc x)" "runtime_trace rs" using snoc.prems by (simp_all add: runtime_trace_def)
  note IH = snoc.IH [OF r(2)]
  have "ordered (heapBlocks ?m)" using heap_inv_trace [of rs] by (simp add: heap_inv_def)
  note step = real_step [OF r(1) this, of a]
  have excl: "\<not> (frees x a \<and> mallocs x a)" by (auto simp: frees_def mallocs_def)
  show ?case
    using step IH excl live_unique [of rs a]
    by (simp add: unowned_snoc live_at_snoc) (metis option.distinct(1) option.inject)
qed

text \<open>
  C9. The leak check reports exactly the blocks that are live at the end: for any sequence of runtime
  allocations and frees, a leak of \<open>n\<close> bytes at \<open>a\<close> is reported if and only if some allocation of \<open>n\<close>
  bytes at \<open>a\<close>, at a moment when no block was live there, was never freed afterwards.
\<close>
theorem leak_check_exact:
  assumes "runtime_trace rs"
  shows "(\<exists>e\<in>set (HeapBlockManager_DoLeakCheck (fold heap_step rs HeapBlockManager_new)).
       badAddr (auxData e) = a \<and> nBadBytes (auxData e) = n) \<longleftrightarrow> (\<exists>r. live_at rs a r \<and> mo_memSize r = n)"
proof -
  let ?m = "fold heap_step rs HeapBlockManager_new"
  have ord: "ordered (heapBlocks ?m)" using heap_inv_trace [of rs] by (simp add: heap_inv_def)
  have key: "k = hb_addr b" if "(k, b) \<in> set (heapBlocks ?m)" for k b
  proof -
    have "map_of (heapBlocks ?m) k = Some b" using that ordered_entries [OF ord] by simp
    then obtain r where "live_at rs k r" "b = HeapBlock_of r" using heap_trace [OF assms, of k] by blast
    then show ?thesis by (auto simp: live_at_def mallocs_def HeapBlock_of_def)
  qed
  have msg: "badAddr (auxData (leak_message b)) = hb_addr b" "nBadBytes (auxData (leak_message b)) = hb_len b" for b
    by (simp_all add: leak_message_def SetType_def upd_aux_def)
  have "(\<exists>e\<in>set (HeapBlockManager_DoLeakCheck ?m). badAddr (auxData e) = a \<and> nBadBytes (auxData e) = n) \<longleftrightarrow>
      (\<exists>p\<in>set (heapBlocks ?m). hb_addr (snd p) = a \<and> hb_len (snd p) = n)"
    by (simp add: HeapBlockManager_DoLeakCheck_def case_prod_unfold msg)
  also have "\<dots> \<longleftrightarrow> (\<exists>b. (a, b) \<in> set (heapBlocks ?m) \<and> hb_len b = n)"
    using key by (metis prod.collapse snd_conv)
  also have "\<dots> \<longleftrightarrow> (\<exists>b. map_of (heapBlocks ?m) a = Some b \<and> hb_len b = n)"
    by (simp add: ordered_entries [OF ord])
  also have "\<dots> \<longleftrightarrow> (\<exists>b r. live_at rs a r \<and> b = HeapBlock_of r \<and> hb_len b = n)"
    using heap_trace [OF assms, of a] by metis
  also have "\<dots> \<longleftrightarrow> (\<exists>r. live_at rs a r \<and> mo_memSize r = n)"
    by (auto simp: HeapBlock_of_def)
  finally show ?thesis .
qed

definition sample_heap_op :: "MemOpType \<Rightarrow> nat \<Rightarrow> nat \<Rightarrow> MemOpRecord" where
  "sample_heap_op t a n = \<lparr>mo_serialNo = 0, mo_type = t, mo_coreId = 0, mo_moduleId = 0, mo_srcAddr = 0, mo_dstAddr = a,
     mo_srcSpace = AS_GM, mo_dstSpace = AS_GM, mo_memSize = n, mo_lineNo = 0, mo_fileName = [], mo_blockType = BT_AICORE,
     mo_pc = 0, mo_infoSrc = SRC_RT, mo_side = SIDE_HOST, mo_rootAddr = 0, mo_mainScalarPc = 0, mo_ignoreIllegalCheck = False,
     mo_isSimt = False, mo_recordType = INVALID_RECORD_TYPE, mo_outOfBounds = \<lparr>userAddr = 0, userSize = 0, outAddr = 0, outSize = 0\<rparr>\<rparr>"

lemma sample_trace: "runtime_trace [sample_heap_op MO_MALLOC 16 32, sample_heap_op MO_MALLOC 64 8, sample_heap_op MO_FREE 16 0]"
  by (simp add: runtime_trace_def sample_heap_op_def IsRealMalloc_def)

theorem leak_check_exact_witness:
  "\<exists>r. live_at [sample_heap_op MO_MALLOC 16 32, sample_heap_op MO_MALLOC 64 8, sample_heap_op MO_FREE 16 0] 64 r \<and> mo_memSize r = 8"
  unfolding leak_check_exact [OF sample_trace, symmetric]
  by (simp add: HeapBlockManager_DoLeakCheck_def heap_step_def HeapBlockManager_new_def sample_heap_op_def AddHeapBlock_def
      AddRtDfxBlock_def FreeHeapBlock_def FreeRtDfxBlock_def SetHeapBlocks_def GetHeapBlocks_def uses_dfx_def add_new_def
      HeapBlock_of_def DeleteMstxInfo_def IsRealMalloc_def oerase_def leak_message_def SetType_def upd_aux_def)

text \<open>
  C31. A free is reported as illegal exactly when no block is live at its address (it was never
  allocated, or already freed); a legal free yields the size of the live block.
\<close>
theorem free_check_exact:
  assumes "runtime_trace rs" "IsRealMalloc (mo_infoSrc f)"
  shows "case FreeHeapBlock f 0 (fold heap_step rs HeapBlockManager_new) of (e, n, _) \<Rightarrow>
     (isError e \<longleftrightarrow> (\<nexists>r. live_at rs (mo_dstAddr f) r)) \<and> (isError e \<longrightarrow> err_type e = ILLEGAL_FREE) \<and>
     (\<not> isError e \<longrightarrow> (\<exists>r. live_at rs (mo_dstAddr f) r \<and> n = mo_memSize r))"
proof -
  let ?m = "fold heap_step rs HeapBlockManager_new"
  have t: "GetHeapType (mo_infoSrc f) = HT_RT" "\<not> uses_dfx (mo_infoSrc f)"
    using assms(2) by (auto simp: IsRealMalloc_def uses_dfx_def)
  show ?thesis
  proof (cases "map_of (heapBlocks ?m) (mo_dstAddr f)")
    case None
    then have "\<nexists>r. live_at rs (mo_dstAddr f) r" using heap_trace [OF assms(1), of "mo_dstAddr f"] by force
    then show ?thesis using None t
      by (simp add: FreeHeapBlock_def FreeRtDfxBlock_def GetHeapBlocks_def illegal_free_def SetType_def)
  next
    case (Some b)
    then obtain r where "live_at rs (mo_dstAddr f) r" "b = HeapBlock_of r" using heap_trace [OF assms(1), of "mo_dstAddr f"] by blast
    then show ?thesis using Some t
      by (auto simp: FreeHeapBlock_def FreeRtDfxBlock_def GetHeapBlocks_def Let_def ErrorMsg_new_def HeapBlock_of_def)
  qed
qed

theorem free_check_exact_witness:
  "\<nexists>r. live_at [sample_heap_op MO_MALLOC 16 32, sample_heap_op MO_MALLOC 64 8, sample_heap_op MO_FREE 16 0] 16 r"
proof -
  let ?rs = "[sample_heap_op MO_MALLOC 16 32, sample_heap_op MO_MALLOC 64 8, sample_heap_op MO_FREE 16 0]"
  have "IsRealMalloc (mo_infoSrc (sample_heap_op MO_FREE 16 0))" by (simp add: sample_heap_op_def IsRealMalloc_def)
  note x = free_check_exact [OF sample_trace this]
  have "isError (fst (FreeHeapBlock (sample_heap_op MO_FREE 16 0) 0 (fold heap_step ?rs HeapBlockManager_new)))"
    by (simp add: heap_step_def HeapBlockManager_new_def sample_heap_op_def AddHeapBlock_def AddRtDfxBlock_def FreeHeapBlock_def
        FreeRtDfxBlock_def SetHeapBlocks_def GetHeapBlocks_def uses_dfx_def add_new_def HeapBlock_of_def DeleteMstxInfo_def
        IsRealMalloc_def oerase_def illegal_free_def SetType_def)
  then show ?thesis using x by (simp add: case_prod_unfold sample_heap_op_def)
qed

end
