(* ===== verification/ShadowMemory.thy ===== *)
theory ShadowMemory
  imports ShadowMap HeapBlocks
begin

text \<open>
  The shadow memory of the address sanitizer (\<open>csrc/address_sanitizer/shadow_memory.h\<close> and
  \<open>shadow_memory.cpp\<close>): one shadow map per address space, the status and owning core packed into a
  shadow byte, the checks of loads and stores, and the statistics of unused memory. A \<open>PM*\<close> is a value
  of \<open>MemMap\<close>, whose operations are the virtual calls. The loops over uniform runs are one partial
  function, whose value is \<open>None\<close> when the loop does not end.
\<close>

section \<open>Shadow bytes\<close>

datatype MemStatus = NOACCESS | UNDEFINED | DEFINED | ERROR_STATUS

fun MemStatus_code :: "MemStatus \<Rightarrow> u8" where
  "MemStatus_code NOACCESS = 0"
| "MemStatus_code UNDEFINED = 1"
| "MemStatus_code DEFINED = 2"
| "MemStatus_code ERROR_STATUS = 3"

definition MemStatus_of :: "u8 \<Rightarrow> MemStatus" where
  "MemStatus_of b = (if b = 0 then NOACCESS else if b = 1 then UNDEFINED else if b = 2 then DEFINED else ERROR_STATUS)"

definition VA_BITS_SHIFT :: nat where
  "VA_BITS_SHIFT = 2"

definition COREID_MASK :: u8 where
  "COREID_MASK = 0xFC"

definition DEFAULT_CORE_ID :: u8 where
  "DEFAULT_CORE_ID = 0x3F"

definition DEFAULT_VALUE :: u8 where
  "DEFAULT_VALUE = MemStatus_code UNDEFINED OR push_bit VA_BITS_SHIFT DEFAULT_CORE_ID"

definition MakeByte :: "MemStatus \<Rightarrow> u8 \<Rightarrow> u8" where
  "MakeByte status core = (MemStatus_code status AND STATUS_MASK) OR (push_bit VA_BITS_SHIFT core AND COREID_MASK)"

definition GetMemStatus :: "u8 \<Rightarrow> MemStatus" where
  "GetMemStatus byte = MemStatus_of (byte AND STATUS_MASK)"

definition GetCoreId :: "u8 \<Rightarrow> u8" where
  "GetCoreId byte = drop_bit VA_BITS_SHIFT (byte AND COREID_MASK)"

definition SetMemStatus :: "u8 \<Rightarrow> MemStatus \<Rightarrow> u8" where
  "SetMemStatus byte status = (byte AND COREID_MASK) OR (MemStatus_code status AND STATUS_MASK)"

definition SetCoreId :: "u8 \<Rightarrow> u8 \<Rightarrow> u8" where
  "SetCoreId byte core = (byte AND STATUS_MASK) OR (push_bit VA_BITS_SHIFT core AND COREID_MASK)"

lemmas byte_defs = MakeByte_def GetMemStatus_def GetCoreId_def SetMemStatus_def SetCoreId_def VA_BITS_SHIFT_def COREID_MASK_def
  STATUS_MASK_def

section \<open>The maps behind a pointer to the base class\<close>

datatype MemMap = ChipMap PM | GmMap GmPM

fun MM_GetBits :: "MemMap \<Rightarrow> nat \<Rightarrow> u8" where
  "MM_GetBits (ChipMap pm) a = PM_GetBits pm a"
| "MM_GetBits (GmMap g) a = GmPM_GetBits g a"

fun MM_Set :: "nat \<Rightarrow> nat \<Rightarrow> u8 \<Rightarrow> MemMap \<Rightarrow> MemMap" where
  "MM_Set a len v (ChipMap pm) = ChipMap (PM_Set a len v pm)"
| "MM_Set a len v (GmMap g) = GmMap (GmPM_Set a len v g)"

fun MM_UnifiedSizeAfter :: "MemMap \<Rightarrow> nat \<Rightarrow> nat \<Rightarrow> nat \<Rightarrow> nat" where
  "MM_UnifiedSizeAfter (ChipMap pm) base len a = PM_UnifiedSizeAfter pm base len a"
| "MM_UnifiedSizeAfter (GmMap g) base len a = GmPM_UnifiedSizeAfter g base len a"

fun MM_RangeHasStatus :: "MemMap \<Rightarrow> nat \<Rightarrow> nat \<Rightarrow> u8 \<Rightarrow> bool" where
  "MM_RangeHasStatus (ChipMap pm) a len st = PM_RangeHasStatus pm a len st"
| "MM_RangeHasStatus (GmMap g) a len st = GmPM_RangeHasStatus g a len st"

text \<open>A well-formed map that covers the addresses below a limit; the flag says which class it is of.\<close>

fun mm_ok :: "bool \<Rightarrow> nat \<Rightarrow> MemMap \<Rightarrow> bool" where
  "mm_ok glob limit (ChipMap pm) = (\<not> glob \<and> pm_ok pm \<and> limit \<le> byteNum pm)"
| "mm_ok glob limit (GmMap g) = (glob \<and> gm_ok g \<and> limit \<le> gm_limit)"

interpretation mm: shadow_map MM_GetBits MM_Set MM_UnifiedSizeAfter "mm_ok glob" for glob
proof
  fix limit a len v x base k and m :: MemMap
  assume ok: "mm_ok glob limit m"
  show "mm_ok glob limit (MM_Set a len v m)" if "a + len \<le> limit"
    using ok that chip.ok_set [of _ limit a len v] gm.ok_set [of _ limit a len v] by (cases m) simp_all
  show "MM_GetBits (MM_Set a len v m) x = (if a \<le> x \<and> x < a + len then v else MM_GetBits m x)" if "a + len \<le> limit" "x < limit"
    using ok that chip.get_set [of _ limit a len x v] gm.get_set [of _ limit a len x v] by (cases m) simp_all
  assume r: "base \<le> a" "a < base + len" "base + len \<le> limit"
  show "1 \<le> MM_UnifiedSizeAfter m base len a"
    using ok r chip.unified_pos [of _ limit base a len] gm.unified_pos [of _ limit base a len] by (cases m) simp_all
  show "a + MM_UnifiedSizeAfter m base len a \<le> base + len"
    using ok r chip.unified_end [of _ limit base a len] gm.unified_end [of _ limit base a len] by (cases m) simp_all
  show "MM_GetBits m (a + k) = MM_GetBits m a" if "k < MM_UnifiedSizeAfter m base len a"
    using ok r that chip.unified_same [of _ limit base a len k] gm.unified_same [of _ limit base a len k] by (cases m) simp_all
qed

section \<open>Loops over the uniform runs of a range\<close>

text \<open>
  The loop shared by the checks: \<open>body it n\<close> treats the run of \<open>n\<close> bytes at \<open>it\<close>, which
  \<open>UnifiedRangeAfter\<close> has found in the map of that moment.
\<close>

partial_function (option) unified_loop ::
  "(MemMap \<Rightarrow> nat \<Rightarrow> nat) \<Rightarrow> (nat \<Rightarrow> nat \<Rightarrow> MemMap \<times> nat \<Rightarrow> MemMap \<times> nat) \<Rightarrow> nat \<Rightarrow> nat \<Rightarrow> MemMap \<times> nat \<Rightarrow> (MemMap \<times> nat) option" where
  "unified_loop run body rangeEnd it s =
     (if it < rangeEnd
      then (let n = run (fst s) it in unified_loop run body rangeEnd (add64 it n) (body it n s))
      else Some s)"

declare unified_loop.simps [code]

definition for_unified :: "(nat \<Rightarrow> nat \<Rightarrow> MemMap \<times> nat \<Rightarrow> MemMap \<times> nat) \<Rightarrow> nat \<Rightarrow> nat \<Rightarrow> MemMap \<Rightarrow> (MemMap \<times> nat) option" where
  "for_unified body a len m = unified_loop (\<lambda>m it. MM_UnifiedSizeAfter m a len it) body (add64 a len) a (m, 0)"

text \<open>A body that acts on every byte of its run by \<open>g\<close> and counts those with \<open>h\<close>.\<close>

definition bytewise :: "(u8 \<Rightarrow> u8) \<Rightarrow> (u8 \<Rightarrow> bool) \<Rightarrow> bool \<Rightarrow> nat \<Rightarrow> (nat \<Rightarrow> nat \<Rightarrow> MemMap \<times> nat \<Rightarrow> MemMap \<times> nat) \<Rightarrow> bool" where
  "bytewise g h glob limit body \<longleftrightarrow>
     (\<forall>it n m c. mm_ok glob limit m \<and> it + n \<le> limit \<and> (\<forall>k<n. MM_GetBits m (it + k) = MM_GetBits m it) \<longrightarrow>
        mm_ok glob limit (fst (body it n (m, c))) \<and>
        (\<forall>x<limit. MM_GetBits (fst (body it n (m, c))) x = (if it \<le> x \<and> x < it + n then g (MM_GetBits m x) else MM_GetBits m x)) \<and>
        snd (body it n (m, c)) = c + (if h (MM_GetBits m it) then n else 0))"

lemma count_split:
  fixes n :: nat
  assumes "\<And>x. it \<le> x \<Longrightarrow> x < it + n \<Longrightarrow> P x = p" "it + n \<le> e"
  shows "card {x. it \<le> x \<and> x < e \<and> P x} = (if p then n else 0) + card {x. it + n \<le> x \<and> x < e \<and> P x}"
proof -
  have "{x. it \<le> x \<and> x < e \<and> P x} = (if p then {it ..< it + n} else {}) \<union> {x. it + n \<le> x \<and> x < e \<and> P x}"
    using assms by (auto split: if_splits) (metis not_le)+
  moreover have "card ((if p then {it ..< it + n} else {}) \<union> {x. it + n \<le> x \<and> x < e \<and> P x}) =
      (if p then n else 0) + card {x. it + n \<le> x \<and> x < e \<and> P x}"
    by (subst card_Un_disjoint) auto
  ultimately show ?thesis by simp
qed

lemma unified_loop_bytewise:
  assumes body: "bytewise g h glob limit body" and "mm_ok glob limit m" "a + len \<le> limit" "limit < 2 ^ 64" "a \<le> it" "it \<le> a + len"
  shows "\<exists>m'. unified_loop (\<lambda>m it. MM_UnifiedSizeAfter m a len it) body (a + len) it (m, c) =
       Some (m', c + card {x. it \<le> x \<and> x < a + len \<and> h (MM_GetBits m x)}) \<and> mm_ok glob limit m' \<and>
     (\<forall>x<limit. MM_GetBits m' x = (if it \<le> x \<and> x < a + len then g (MM_GetBits m x) else MM_GetBits m x))"
  using assms(2,5,6)
proof (induction "a + len - it" arbitrary: it m c rule: less_induct)
  case less
  show ?case
  proof (cases "it < a + len")
    case False
    then show ?thesis using less.prems by (subst unified_loop.simps) auto
  next
    case True
    let ?n = "MM_UnifiedSizeAfter m a len it"
    note r = less.prems(2) True assms(3)
    have n: "1 \<le> ?n" "it + ?n \<le> a + len" by (rule mm.unified_pos mm.unified_end, rule less.prems, use r in auto)+
    have same: "MM_GetBits m (it + k) = MM_GetBits m it" if "k < ?n" for k
      by (rule mm.unified_same [OF less.prems(1) r that])
    then have same': "MM_GetBits m x = MM_GetBits m it" if "it \<le> x" "x < it + ?n" for x
      using that by (metis le_add_diff_inverse nat_add_left_cancel_less)
    obtain m1 c1 where b: "body it ?n (m, c) = (m1, c1)" by fastforce
    have B: "mm_ok glob limit m1" "c1 = c + (if h (MM_GetBits m it) then ?n else 0)"
      "\<And>x. x < limit \<Longrightarrow> MM_GetBits m1 x = (if it \<le> x \<and> x < it + ?n then g (MM_GetBits m x) else MM_GetBits m x)"
      using body [unfolded bytewise_def, rule_format, of m it ?n c] less.prems(1) n(2) assms(3) same b by simp_all
    have keep: "MM_GetBits m1 x = MM_GetBits m x" if "it + ?n \<le> x" "x < a + len" for x using B(3) [of x] that assms(3) by simp
    have lt: "a + len - (it + ?n) < a + len - it" and le: "a \<le> it + ?n" using n(1) less.prems(2) True by linarith+
    obtain m' where m': "unified_loop (\<lambda>m it. MM_UnifiedSizeAfter m a len it) body (a + len) (it + ?n) (m1, c1) =
         Some (m', c1 + card {x. it + ?n \<le> x \<and> x < a + len \<and> h (MM_GetBits m1 x)})" "mm_ok glob limit m'"
      "\<And>x. x < limit \<Longrightarrow> MM_GetBits m' x = (if it + ?n \<le> x \<and> x < a + len then g (MM_GetBits m1 x) else MM_GetBits m1 x)"
      using less.hyps [OF lt B(1) le n(2), of c1] by blast
    have "{x. it + ?n \<le> x \<and> x < a + len \<and> h (MM_GetBits m1 x)} = {x. it + ?n \<le> x \<and> x < a + len \<and> h (MM_GetBits m x)}"
      using keep by auto
    moreover have "card {x. it \<le> x \<and> x < a + len \<and> h (MM_GetBits m x)} =
        (if h (MM_GetBits m it) then ?n else 0) + card {x. it + ?n \<le> x \<and> x < a + len \<and> h (MM_GetBits m x)}"
      by (rule count_split [OF _ n(2)]) (rule arg_cong [where f = h], rule same')
    ultimately have count: "c1 + card {x. it + ?n \<le> x \<and> x < a + len \<and> h (MM_GetBits m1 x)} = c + card {x. it \<le> x \<and> x < a + len \<and> h (MM_GetBits m x)}"
      unfolding B(2) by (simp only: add.assoc)
    have step: "unified_loop (\<lambda>m it. MM_UnifiedSizeAfter m a len it) body (a + len) it (m, c) =
        unified_loop (\<lambda>m it. MM_UnifiedSizeAfter m a len it) body (a + len) (it + ?n) (m1, c1)"
      using True b n(2) assms(3,4) by (subst unified_loop.simps) (simp add: Let_def)
    have bits: "MM_GetBits m' x = (if it \<le> x \<and> x < a + len then g (MM_GetBits m x) else MM_GetBits m x)" if "x < limit" for x
      using m'(3) [OF that] B(3) [OF that] n by auto
    show ?thesis
      unfolding step m'(1) count using m'(2) bits by blast
  qed
qed

text \<open>A loop over a range inside the map ends; it has acted on every byte and counted the marked ones.\<close>

lemma for_unified_bytewise:
  assumes "bytewise g h glob limit body" "mm_ok glob limit m" "a + len \<le> limit" "limit < 2 ^ 64"
  obtains m' where "for_unified body a len m = Some (m', card {x. a \<le> x \<and> x < a + len \<and> h (MM_GetBits m x)})" "mm_ok glob limit m'"
    "\<And>x. x < limit \<Longrightarrow> MM_GetBits m' x = (if a \<le> x \<and> x < a + len then g (MM_GetBits m x) else MM_GetBits m x)"
proof -
  have "add64 a len = a + len" using assms(3,4) by simp
  then show thesis
    using unified_loop_bytewise [OF assms, of a 0] that unfolding for_unified_def by auto
qed

lemma bytewise_count:
  assumes "\<And>it n m c. body it n (m, c) = (m, c + (if h (MM_GetBits m it) then n else 0))"
  shows "bytewise (\<lambda>b. b) h glob limit body"
  using assms by (simp add: bytewise_def)

lemma bytewise_set:
  assumes "\<And>it n m c. body it n (m, c) = (MM_Set it n (g (MM_GetBits m it)) m, c + (if h (MM_GetBits m it) then n else 0))"
  shows "bytewise g h glob limit body"
  unfolding bytewise_def assms
  by (intro allI impI) (auto simp: mm.ok_set mm.get_set, (metis le_add_diff_inverse nat_add_left_cancel_less)+)

section \<open>The shadow memory\<close>

record MemOpRecordForShadow =
  sh_dstSpace :: AddressSpace
  sh_dstAddr :: nat
  sh_memSize :: nat
  sh_coreId :: u8
  sh_serialNo :: nat
  sh_mainScalarPc :: u64
  sh_isSimt :: bool

definition MemOpRecordForShadow_of :: "MemOpRecord \<Rightarrow> MemOpRecordForShadow" where
  "MemOpRecordForShadow_of r = \<lparr>sh_dstSpace = mo_dstSpace r, sh_dstAddr = mo_dstAddr r, sh_memSize = mo_memSize r,
     sh_coreId = word_of_int (mo_coreId r), sh_serialNo = mo_serialNo r, sh_mainScalarPc = mo_mainScalarPc r,
     sh_isSimt = mo_isSimt r\<rparr>"

record UnusedHeap =
  bytesNotUse :: nat
  blockNum :: nat

text \<open>A \<open>std::unique_ptr\<close> of a chip memory is \<open>None\<close> before \<open>Init\<close>; the global memory always exists.\<close>

record ShadowMemory =
  l0a :: "PM option"
  l0b :: "PM option"
  l0c :: "PM option"
  l1 :: "PM option"
  ub :: "PM option"
  gmem :: GmPM
  private_mem :: "PM option"
  heapBlockManager :: HeapBlockManager
  heapBlockManagerBypass :: HeapBlockManager
  unusedHeap :: UnusedHeap
  sm_chipInfo :: ChipInfo
  atomicEnabled :: bool
  sm_deviceType :: DeviceType

definition ShadowMemory_new :: ShadowMemory where
  "ShadowMemory_new = \<lparr>l0a = None, l0b = None, l0c = None, l1 = None, ub = None, gmem = GmPM_new DEFAULT_VALUE, private_mem = None,
     heapBlockManager = HeapBlockManager_new, heapBlockManagerBypass = HeapBlockManager_new,
     unusedHeap = \<lparr>bytesNotUse = 0, blockNum = 0\<rparr>, sm_chipInfo = chip 0 0 0 0 0 0 0 0 0, atomicEnabled = False,
     sm_deviceType = DEV_INVALID\<rparr>"

definition ShadowMemory_IsReady :: "ShadowMemory \<Rightarrow> bool" where
  "ShadowMemory_IsReady s \<longleftrightarrow> l0a s \<noteq> None \<and> l0b s \<noteq> None \<and> l0c s \<noteq> None \<and> l1 s \<noteq> None \<and> ub s \<noteq> None \<and> private_mem s \<noteq> None"

definition ShadowMemory_Init :: "DeviceType \<Rightarrow> ChipInfo \<Rightarrow> ShadowMemory \<Rightarrow> bool \<times> ShadowMemory" where
  "ShadowMemory_Init dt ci s =
     (let s1 = s\<lparr>sm_deviceType := dt, sm_chipInfo := ci,
          l0a := Some (PM_new (unat (l0aSize ci)) DEFAULT_VALUE), l0b := Some (PM_new (unat (l0bSize ci)) DEFAULT_VALUE),
          l0c := Some (PM_new (unat (l0cSize ci)) DEFAULT_VALUE), l1 := Some (PM_new (unat (l1Size ci)) DEFAULT_VALUE),
          ub := Some (PM_new (unat (ubSize ci)) DEFAULT_VALUE), private_mem := Some (PM_new (unat (privateSize ci)) DEFAULT_VALUE)\<rparr>
      in (ShadowMemory_IsReady s1, s1))"

definition ResetChipMemory :: "ShadowMemory \<Rightarrow> ShadowMemory" where
  "ResetChipMemory s = s\<lparr>l0a := map_option (PM_Reset DEFAULT_VALUE) (l0a s), l0b := map_option (PM_Reset DEFAULT_VALUE) (l0b s),
     l0c := map_option (PM_Reset DEFAULT_VALUE) (l0c s), l1 := map_option (PM_Reset DEFAULT_VALUE) (l1 s),
     ub := map_option (PM_Reset DEFAULT_VALUE) (ub s)\<rparr>"

definition ResetPrivateMemory :: "ShadowMemory \<Rightarrow> ShadowMemory" where
  "ResetPrivateMemory s = s\<lparr>private_mem := map_option (PM_Reset DEFAULT_VALUE) (private_mem s)\<rparr>"

fun GetMemMap :: "AddressSpace \<Rightarrow> ShadowMemory \<Rightarrow> MemMap option" where
  "GetMemMap AS_GM s = Some (GmMap (gmem s))"
| "GetMemMap AS_L0A s = map_option ChipMap (l0a s)"
| "GetMemMap AS_L0B s = map_option ChipMap (l0b s)"
| "GetMemMap AS_L0C s = map_option ChipMap (l0c s)"
| "GetMemMap AS_L1 s = map_option ChipMap (l1 s)"
| "GetMemMap AS_UB s = map_option ChipMap (ub s)"
| "GetMemMap AS_PRIVATE s = map_option ChipMap (private_mem s)"
| "GetMemMap _ s = None"

text \<open>The write through the pointer that \<open>GetMemMap\<close> returned.\<close>

fun PutMemMap :: "AddressSpace \<Rightarrow> MemMap \<Rightarrow> ShadowMemory \<Rightarrow> ShadowMemory" where
  "PutMemMap AS_GM (GmMap g) s = s\<lparr>gmem := g\<rparr>"
| "PutMemMap AS_L0A (ChipMap p) s = s\<lparr>l0a := Some p\<rparr>"
| "PutMemMap AS_L0B (ChipMap p) s = s\<lparr>l0b := Some p\<rparr>"
| "PutMemMap AS_L0C (ChipMap p) s = s\<lparr>l0c := Some p\<rparr>"
| "PutMemMap AS_L1 (ChipMap p) s = s\<lparr>l1 := Some p\<rparr>"
| "PutMemMap AS_UB (ChipMap p) s = s\<lparr>ub := Some p\<rparr>"
| "PutMemMap AS_PRIVATE (ChipMap p) s = s\<lparr>private_mem := Some p\<rparr>"
| "PutMemMap _ _ s = s"

definition SkipSpace :: "AddressSpace \<Rightarrow> bool" where
  "SkipSpace space \<longleftrightarrow> space = AS_UNKNOWN"

fun space_size :: "AddressSpace \<Rightarrow> ChipInfo \<Rightarrow> nat" where
  "space_size AS_GM ci = GLOBAL_MEM_MASK"
| "space_size AS_L1 ci = unat (l1Size ci)"
| "space_size AS_L0A ci = unat (l0aSize ci)"
| "space_size AS_L0B ci = unat (l0bSize ci)"
| "space_size AS_L0C ci = unat (l0cSize ci)"
| "space_size AS_UB ci = unat (ubSize ci)"
| "space_size AS_PRIVATE ci = unat (privateSize ci)"
| "space_size _ ci = 0"

definition ValidateRange :: "AddressSpace \<Rightarrow> nat \<Rightarrow> nat \<Rightarrow> ShadowMemory \<Rightarrow> nat \<times> nat" where
  "ValidateRange space a len s =
     (let maxSize = space_size space (sm_chipInfo s);
          addrR = (if 2 ^ 64 - 1 - len < a then maxSize else min maxSize (a + len))
      in (min maxSize a, addrR - min maxSize a))"

definition MakeBadBytesMsg :: "MemErrorType \<Rightarrow> AddressSpace \<Rightarrow> nat \<Rightarrow> nat \<Rightarrow> bool \<Rightarrow> u64 \<Rightarrow> bool \<Rightarrow> ErrorMsg" where
  "MakeBadBytesMsg err space a nbytes simt pc display =
     upd_aux (\<lambda>x. x\<lparr>nBadBytes := nbytes, aux_isSimt := simt, displayThread := display,
        aux_threadLoc := (case aux_threadLoc x of SimtThreadLocation i j k _ \<Rightarrow> SimtThreadLocation i j k pc)\<rparr>)
       (SetType err space a ErrorMsg_new)"

definition SetAtomic :: "bool \<Rightarrow> ShadowMemory \<Rightarrow> ShadowMemory" where
  "SetAtomic enabled s = s\<lparr>atomicEnabled := enabled\<rparr>"

section \<open>Loads, stores and statistics\<close>

definition count_undefined :: "nat \<Rightarrow> nat \<Rightarrow> MemMap \<times> nat \<Rightarrow> MemMap \<times> nat" where
  "count_undefined it n = (\<lambda>(m, c). (m, c + (if GetMemStatus (MM_GetBits m it) = UNDEFINED then n else 0)))"

definition LoadNBytes :: "MemOpRecordForShadow \<Rightarrow> bool \<Rightarrow> ShadowMemory \<Rightarrow> ErrorMsg list option" where
  "LoadNBytes r initCheck s =
     (let space = sh_dstSpace r in
      if SkipSpace space then Some []
      else if initCheck \<and> space = AS_UB \<and> IsAscend95 (sm_deviceType s) then Some []
      else let (a, len) = ValidateRange space (sh_dstAddr r) (sh_memSize r) s in
      case GetMemMap space s of
        None \<Rightarrow> Some []
      | Some m \<Rightarrow>
          (if initCheck \<and> \<not> MM_RangeHasStatus m a len (MemStatus_code UNDEFINED) then Some []
           else case for_unified (if initCheck then count_undefined else (\<lambda>it n x. x)) a len m of
             None \<Rightarrow> None
           | Some (_, nUninitializedReadBytes) \<Rightarrow>
               Some (if nUninitializedReadBytes > 0
                     then [MakeBadBytesMsg UNINITIALIZED_READ space a nUninitializedReadBytes (sh_isSimt r) (sh_mainScalarPc r) False]
                     else [])))"

text \<open>One iteration of \<open>StoreNBytesInRange\<close>: the run of \<open>n\<close> bytes at \<open>it\<close>.\<close>

definition StoreNBytesInRange :: "AddressSpace \<Rightarrow> u8 \<Rightarrow> bool \<Rightarrow> bool \<Rightarrow> nat \<Rightarrow> nat \<Rightarrow> MemMap \<times> nat \<Rightarrow> MemMap \<times> nat" where
  "StoreNBytesInRange space core atomic outOfBoundCheck it n = (\<lambda>(m, c).
     let bits = MM_GetBits m it in
     if GetMemStatus bits = ERROR_STATUS then (m, c)
     else
       let (bits, m) = (if GetMemStatus bits = UNDEFINED
                        then let bits = SetMemStatus bits DEFINED in (bits, MM_Set it n bits m) else (bits, m)) in
       if space \<noteq> AS_GM then (m, c)
       else if core = 0xFF then (MM_Set it n (SetCoreId bits DEFAULT_CORE_ID) m, c)
       else if GetCoreId bits = DEFAULT_CORE_ID then (MM_Set it n (SetCoreId bits core) m, c)
       else if GetCoreId bits \<noteq> core then
         (if atomic then (m, c)
          else if outOfBoundCheck then (MM_Set it n (SetMemStatus bits ERROR_STATUS) m, c + n)
          else (m, c))
       else (m, c))"

definition StoreNBytes :: "MemOpRecordForShadow \<Rightarrow> bool \<Rightarrow> bool \<Rightarrow> ShadowMemory \<Rightarrow> (ErrorMsg list \<times> ShadowMemory) option" where
  "StoreNBytes r memCheck outOfBoundCheck s =
     (let space = sh_dstSpace r in
      if SkipSpace space then Some ([], s)
      else let (a, len) = ValidateRange space (sh_dstAddr r) (sh_memSize r) s in
      case GetMemMap space s of
        None \<Rightarrow> Some ([], s)
      | Some m \<Rightarrow>
          (case for_unified (StoreNBytesInRange space (sh_coreId r) (atomicEnabled s) outOfBoundCheck) a len m of
             None \<Rightarrow> None
           | Some (m', nBadBytesForOverlap) \<Rightarrow>
               Some (if memCheck \<and> nBadBytesForOverlap > 0
                     then [MakeBadBytesMsg OUT_OF_BOUNDS space a nBadBytesForOverlap (sh_isSimt r) (sh_mainScalarPc r) False]
                     else [], PutMemMap space m' s)))"

definition MakeMemUndefined :: "nat \<Rightarrow> nat \<Rightarrow> ShadowMemory \<Rightarrow> ShadowMemory" where
  "MakeMemUndefined a len s =
     (let (a, len) = ValidateRange AS_GM a len s in
      s\<lparr>gmem := GmPM_Set a len (MakeByte UNDEFINED DEFAULT_CORE_ID) (gmem s)\<rparr>)"

definition clear_core :: "nat \<Rightarrow> nat \<Rightarrow> MemMap \<times> nat \<Rightarrow> MemMap \<times> nat" where
  "clear_core it n = (\<lambda>(m, c). (MM_Set it n (SetCoreId (MM_GetBits m it) DEFAULT_CORE_ID) m, c))"

definition ClearBlockId :: "nat \<Rightarrow> nat \<Rightarrow> ShadowMemory \<Rightarrow> ShadowMemory option" where
  "ClearBlockId a len s =
     (let (a, len) = ValidateRange AS_GM a len s in
      map_option (\<lambda>(m, _). PutMemMap AS_GM m s) (for_unified clear_core a len (GmMap (gmem s))))"

definition CheckUnusedMem :: "nat \<Rightarrow> nat \<Rightarrow> ShadowMemory \<Rightarrow> (ErrorMsg \<times> ShadowMemory) option" where
  "CheckUnusedMem a len s =
     (case for_unified count_undefined a len (GmMap (gmem s)) of
        None \<Rightarrow> None
      | Some (_, nBadBytesForNoUse) \<Rightarrow>
          Some (if nBadBytesForNoUse > 0
            then let e = MakeBadBytesMsg MEM_UNUSED AS_GM a nBadBytesForNoUse False 0 True in
              (case map_of (heapBlocks (heapBlockManager s)) a of
                 None \<Rightarrow> e
               | Some b \<Rightarrow> upd_aux (\<lambda>x. x\<lparr>aux_fileName := hb_fileName b, aux_lineNo := hb_lineNo b\<rparr>) e,
               s\<lparr>unusedHeap := \<lparr>bytesNotUse = add64 (bytesNotUse (unusedHeap s)) nBadBytesForNoUse,
                                blockNum = add64 (blockNum (unusedHeap s)) 1\<rparr>\<rparr>)
            else (ErrorMsg_new, s)))"

primrec check_unused_blocks :: "HeapBlock omap \<Rightarrow> ShadowMemory \<Rightarrow> (ErrorMsg list \<times> ShadowMemory) option" where
  "check_unused_blocks [] s = Some ([], s)"
| "check_unused_blocks (x # xs) s =
     (case CheckUnusedMem (hb_addr (snd x)) (hb_len (snd x)) s of
        None \<Rightarrow> None
      | Some (e, s1) \<Rightarrow> map_option (\<lambda>(es, s2).
          ((if isError e then [upd_aux (\<lambda>d. d\<lparr>aux_serialNo := hb_serialNo (snd x)\<rparr>) e] else []) @ es, s2)) (check_unused_blocks xs s1))"

definition CheckUnusedHeap :: "ShadowMemory \<Rightarrow> (ErrorMsg list \<times> ShadowMemory) option" where
  "CheckUnusedHeap s = check_unused_blocks (heapBlocks (heapBlockManager s)) s"

definition GetUnusedHeap :: "ShadowMemory \<Rightarrow> UnusedHeap" where
  "GetUnusedHeap s = unusedHeap s"

definition ShadowMemory_AddHeapBlock :: "MemOpRecord \<Rightarrow> ShadowMemory \<Rightarrow> bool \<times> ShadowMemory" where
  "ShadowMemory_AddHeapBlock r s =
     (if mo_infoSrc r = SRC_BYPASS
      then (case AddHeapBlock r (heapBlockManagerBypass s) of (ok, m) \<Rightarrow> (ok, s\<lparr>heapBlockManagerBypass := m\<rparr>))
      else (case AddHeapBlock r (heapBlockManager s) of (ok, m) \<Rightarrow> (ok, s\<lparr>heapBlockManager := m\<rparr>)))"

definition ShadowMemory_FreeHeapBlock :: "MemOpRecord \<Rightarrow> nat \<Rightarrow> ShadowMemory \<Rightarrow> ErrorMsg \<times> nat \<times> ShadowMemory" where
  "ShadowMemory_FreeHeapBlock r sz s =
     (if mo_infoSrc r = SRC_BYPASS
      then (case FreeHeapBlock r sz (heapBlockManagerBypass s) of (e, n, m) \<Rightarrow> (e, n, s\<lparr>heapBlockManagerBypass := m\<rparr>))
      else (case FreeHeapBlock r sz (heapBlockManager s) of (e, n, m) \<Rightarrow> (e, n, s\<lparr>heapBlockManager := m\<rparr>)))"

definition ShadowMemory_DoLeakCheck :: "ShadowMemory \<Rightarrow> ErrorMsg list" where
  "ShadowMemory_DoLeakCheck s = HeapBlockManager_DoLeakCheck (heapBlockManager s)"

definition GetHeapBlockSize :: "MemOpRecord \<Rightarrow> ShadowMemory \<Rightarrow> nat" where
  "GetHeapBlockSize r s = HeapBlockManager_GetHeapBlockSize r (heapBlockManager s)"

definition GetHeapBlockBypassSize :: "MemOpRecord \<Rightarrow> ShadowMemory \<Rightarrow> nat" where
  "GetHeapBlockBypassSize r s = HeapBlockManager_GetHeapBlockSize r (heapBlockManagerBypass s)"

section \<open>Facts on shadow bytes\<close>

lemma byte_masks:
  "((b AND 0xFC) OR c) AND 3 = c AND (3 :: u8)" "((b AND 3) OR (c AND 0xFC)) AND 3 = b AND (3 :: u8)"
  "((b AND 3) OR (c AND 0xFC)) AND 0xFC = c AND (0xFC :: u8)" "((b AND 0xFC) OR (c AND 3)) AND 0xFC = b AND (0xFC :: u8)"
  by (simp_all add: bit.conj_disj_distrib2 and.assoc)

lemma core_bits [simp]: "drop_bit 2 (push_bit 2 c) AND 0x3F = c AND (0x3F :: u8)"
proof (rule bit_word_eqI)
  fix n assume "n < LENGTH(8)"
  then have "n \<in> {0, 1, 2, 3, 4, 5, 6, 7}" by auto
  then show "bit (drop_bit 2 (push_bit 2 c) AND 0x3F) n = bit (c AND 0x3F) n"
    by (auto simp: bit_simps)
qed

lemma status_code_mask [simp]: "MemStatus_code st AND 3 = MemStatus_code st"
  by (cases st) simp_all

lemma status_of_code [simp]: "MemStatus_of (MemStatus_code st) = st"
  by (cases st) (simp_all add: MemStatus_of_def)

lemma byte_read_write [simp]:
  "GetMemStatus (SetMemStatus b st) = st" "GetMemStatus (SetCoreId b c) = GetMemStatus b"
  "GetCoreId (SetMemStatus b st) = GetCoreId b" "GetCoreId (SetCoreId b c) = c AND 0x3F"
  "GetMemStatus (MakeByte st c) = st" "GetCoreId (MakeByte st c) = c AND 0x3F"
proof -
  show "GetMemStatus (SetMemStatus b st) = st" "GetMemStatus (SetCoreId b c) = GetMemStatus b"
    by (simp_all add: byte_defs byte_masks)
  show "GetCoreId (SetMemStatus b st) = GetCoreId b"
    using byte_masks(4) [of b "MemStatus_code st"] by (simp add: byte_defs)
  show "GetCoreId (SetCoreId b c) = c AND 0x3F" by (simp add: byte_defs byte_masks)
  show "GetMemStatus (MakeByte st c) = st"
    using byte_masks(1) [of "push_bit 2 c" "MemStatus_code st"] by (simp add: byte_defs or.commute)
  show "GetCoreId (MakeByte st c) = c AND 0x3F"
    using byte_masks(3) [of "MemStatus_code st" "push_bit 2 c"] by (simp add: byte_defs)
qed


section \<open>Well-formed shadow memories\<close>

definition chip_ok :: "nat \<Rightarrow> PM option \<Rightarrow> bool" where
  "chip_ok n p \<longleftrightarrow> (\<forall>pm. p = Some pm \<longrightarrow> pm_ok pm \<and> n \<le> byteNum pm)"

definition shadow_ok :: "ShadowMemory \<Rightarrow> bool" where
  "shadow_ok s \<longleftrightarrow> gm_ok (gmem s) \<and> chip_ok (unat (l0aSize (sm_chipInfo s))) (l0a s) \<and>
     chip_ok (unat (l0bSize (sm_chipInfo s))) (l0b s) \<and> chip_ok (unat (l0cSize (sm_chipInfo s))) (l0c s) \<and>
     chip_ok (unat (l1Size (sm_chipInfo s))) (l1 s) \<and> chip_ok (unat (ubSize (sm_chipInfo s))) (ub s) \<and>
     chip_ok (unat (privateSize (sm_chipInfo s))) (private_mem s)"

text \<open>The addresses for which the map of a space is modelled exactly.\<close>

definition space_limit :: "AddressSpace \<Rightarrow> ShadowMemory \<Rightarrow> nat" where
  "space_limit space s = (if space = AS_GM then gm_limit else space_size space (sm_chipInfo s))"

definition shadow_byte :: "ShadowMemory \<Rightarrow> AddressSpace \<Rightarrow> nat \<Rightarrow> u8" where
  "shadow_byte s space x = (case GetMemMap space s of None \<Rightarrow> DEFAULT_VALUE | Some m \<Rightarrow> MM_GetBits m x)"

lemma u32_bound: "unat (x :: u32) < 2 ^ 32"
  using unsigned_less [of x] by simp

lemma u32_bound36: "unat (x :: u32) + 65536 < 2 ^ 36"
  using u32_bound [of x] by simp

lemma chip_ok_new [simp]: "chip_ok (unat (n :: u32)) (Some (PM_new (unat n) v))"
  using u32_bound36 [of n] by (simp add: chip_ok_def) (simp add: PM_new_def)

lemma chip_ok_None [simp]: "chip_ok n None"
  by (simp add: chip_ok_def)

lemma chip_ok_Reset [simp]: "chip_ok n p \<Longrightarrow> chip_ok n (map_option (PM_Reset v) p)"
  by (auto simp: chip_ok_def PM_Reset_def pm_ok_def)

lemma shadow_ok_new [simp]: "shadow_ok ShadowMemory_new"
  by (simp add: shadow_ok_def ShadowMemory_new_def)

lemma shadow_ok_Init: "gm_ok (gmem s) \<Longrightarrow> shadow_ok (snd (ShadowMemory_Init dt ci s)) \<and> fst (ShadowMemory_Init dt ci s)"
  by (simp add: shadow_ok_def ShadowMemory_Init_def ShadowMemory_IsReady_def)

lemma shadow_ok_Reset: "shadow_ok s \<Longrightarrow> shadow_ok (ResetChipMemory s)" "shadow_ok s \<Longrightarrow> shadow_ok (ResetPrivateMemory s)"
  by (simp_all add: shadow_ok_def ResetChipMemory_def ResetPrivateMemory_def)


lemma space_limit_bound: "space_limit space s < 2 ^ 64"
proof -
  have "gm_limit < 2 ^ 64" by (simp add: gm_limit_def block_defs)
  moreover have "unat (x :: u32) < 2 ^ 64" for x using u32_bound [of x] by simp
  ultimately show ?thesis by (cases space) (simp_all add: space_limit_def)
qed

lemma GetMemMap_ok:
  assumes "shadow_ok s" "GetMemMap space s = Some m"
  shows "mm_ok (space = AS_GM) (space_limit space s) m"
  using assms by (cases space) (auto simp: shadow_ok_def chip_ok_def space_limit_def)

lemma PutMemMap_ok:
  assumes "shadow_ok s" "GetMemMap space s = Some m" "mm_ok (space = AS_GM) (space_limit space s) m'"
  shows "shadow_ok (PutMemMap space m' s)" "GetMemMap space (PutMemMap space m' s) = Some m'"
    "sp \<noteq> space \<Longrightarrow> GetMemMap sp (PutMemMap space m' s) = GetMemMap sp s"
    "sm_chipInfo (PutMemMap space m' s) = sm_chipInfo s"
proof -
  show "shadow_ok (PutMemMap space m' s)" "GetMemMap space (PutMemMap space m' s) = Some m'"
    "sm_chipInfo (PutMemMap space m' s) = sm_chipInfo s"
    using assms by (cases space; cases m'; auto simp: shadow_ok_def chip_ok_def space_limit_def)+
  show "sp \<noteq> space \<Longrightarrow> GetMemMap sp (PutMemMap space m' s) = GetMemMap sp s"
    by (cases space; cases m'; cases sp; simp)
qed

lemma ValidateRange_end:
  assumes "ValidateRange space a len s = (a', len')"
  shows "a' + len' \<le> space_size space (sm_chipInfo s)"
  using assms by (auto simp: ValidateRange_def Let_def split: if_splits)

lemma ValidateRange_inside:
  assumes "a + len \<le> space_limit space s"
  shows "ValidateRange space a len s = (a, len)"
proof -
  have "space_limit space s \<le> space_size space (sm_chipInfo s)"
    by (cases space) (simp_all add: space_limit_def gm_limit_def block_defs)
  moreover have "\<not> 2 ^ 64 - 1 - len < a" using assms space_limit_bound [of space s] by linarith
  ultimately show ?thesis using assms by (simp add: ValidateRange_def)
qed

section \<open>What a load and a store do\<close>

text \<open>The byte a store leaves, and whether it tramples on a byte of another core.\<close>

definition tramples :: "AddressSpace \<Rightarrow> u8 \<Rightarrow> bool \<Rightarrow> bool \<Rightarrow> u8 \<Rightarrow> bool" where
  "tramples space core atomic outOfBoundCheck b \<longleftrightarrow>
     GetMemStatus b \<noteq> ERROR_STATUS \<and> space = AS_GM \<and> core \<noteq> 0xFF \<and> GetCoreId b \<noteq> DEFAULT_CORE_ID \<and> GetCoreId b \<noteq> core \<and>
     \<not> atomic \<and> outOfBoundCheck"

definition store_byte :: "AddressSpace \<Rightarrow> u8 \<Rightarrow> bool \<Rightarrow> bool \<Rightarrow> u8 \<Rightarrow> u8" where
  "store_byte space core atomic outOfBoundCheck b =
     (if GetMemStatus b = ERROR_STATUS then b
      else
        (let b1 = (if GetMemStatus b = UNDEFINED then SetMemStatus b DEFINED else b) in
         if space \<noteq> AS_GM then b1
         else if core = 0xFF then SetCoreId b1 DEFAULT_CORE_ID
         else if GetCoreId b = DEFAULT_CORE_ID then SetCoreId b1 core
         else if tramples space core atomic outOfBoundCheck b then SetMemStatus b1 ERROR_STATUS
         else b1))"


lemma bytewise_count_undefined: "bytewise (\<lambda>b. b) (\<lambda>b. GetMemStatus b = UNDEFINED) glob limit count_undefined"
  by (rule bytewise_count) (simp add: count_undefined_def)

lemma bytewise_clear: "bytewise (\<lambda>b. SetCoreId b DEFAULT_CORE_ID) (\<lambda>_. False) glob limit clear_core"
  by (rule bytewise_set) (simp add: clear_core_def)

lemma bytewise_store:
  "bytewise (store_byte space core atomic oob) (tramples space core atomic oob) glob limit (StoreNBytesInRange space core atomic oob)"
  unfolding bytewise_def
proof (intro allI impI, elim conjE)
  fix it n m c
  assume ok: "mm_ok glob limit m" "it + n \<le> limit" and same: "\<forall>k<n. MM_GetBits m (it + k) = MM_GetBits m it"
  let ?b = "MM_GetBits m it"
  let ?m' = "fst (StoreNBytesInRange space core atomic oob it n (m, c))"
  have sb: "MM_GetBits m x = ?b" if "it \<le> x" "x < it + n" for x
    using same that by (metis le_add_diff_inverse nat_add_left_cancel_less)
  have okS: "mm_ok glob limit (MM_Set it n v m)" for v using mm.ok_set [OF ok] .
  note getS = mm.get_set [OF ok]
  note get2 = mm.get_set [OF okS ok(2)]
  have 1: "mm_ok glob limit ?m'"
    by (auto simp: StoreNBytesInRange_def Let_def okS ok intro: mm.ok_set)
  have 2: "MM_GetBits ?m' x = (if it \<le> x \<and> x < it + n then store_byte space core atomic oob (MM_GetBits m x) else MM_GetBits m x)" if "x < limit" for x
    using that sb [of x] by (simp add: StoreNBytesInRange_def store_byte_def tramples_def Let_def getS get2)
  have 3: "snd (StoreNBytesInRange space core atomic oob it n (m, c)) = c + (if tramples space core atomic oob ?b then n else 0)"
    by (simp add: StoreNBytesInRange_def tramples_def Let_def)
  show "mm_ok glob limit ?m' \<and>
       (\<forall>x<limit. MM_GetBits ?m' x = (if it \<le> x \<and> x < it + n then store_byte space core atomic oob (MM_GetBits m x) else MM_GetBits m x)) \<and>
       snd (StoreNBytesInRange space core atomic oob it n (m, c)) = c + (if tramples space core atomic oob ?b then n else 0)"
    using 1 2 3 by blast
qed



lemma StoreNBytes_spec:
  assumes ok: "shadow_ok s" and m: "GetMemMap (sh_dstSpace r) s = Some m"
    and v: "ValidateRange (sh_dstSpace r) (sh_dstAddr r) (sh_memSize r) s = (a, len)"
    and lim: "a + len \<le> space_limit (sh_dstSpace r) s"
  obtains s' where
    "StoreNBytes r memCheck oob s = Some (let n = card {x. a \<le> x \<and> x < a + len \<and>
         tramples (sh_dstSpace r) (sh_coreId r) (atomicEnabled s) oob (shadow_byte s (sh_dstSpace r) x)} in
       if memCheck \<and> n > 0 then [MakeBadBytesMsg OUT_OF_BOUNDS (sh_dstSpace r) a n (sh_isSimt r) (sh_mainScalarPc r) False] else [], s')"
    "shadow_ok s'" "sm_chipInfo s' = sm_chipInfo s" "sm_deviceType s' = sm_deviceType s" "atomicEnabled s' = atomicEnabled s"
    "\<And>sp. GetMemMap sp s' = None \<longleftrightarrow> GetMemMap sp s = None"
    "\<And>sp x. x < space_limit sp s \<Longrightarrow> shadow_byte s' sp x =
       (if sp = sh_dstSpace r \<and> a \<le> x \<and> x < a + len
        then store_byte sp (sh_coreId r) (atomicEnabled s) oob (shadow_byte s sp x) else shadow_byte s sp x)"
proof -
  let ?sp = "sh_dstSpace r" and ?c = "sh_coreId r" and ?at = "atomicEnabled s"
  have skip: "\<not> SkipSpace ?sp" using m by (auto simp: SkipSpace_def)
  have sb: "shadow_byte s ?sp x = MM_GetBits m x" for x using m by (simp add: shadow_byte_def)
  obtain m' where loop: "for_unified (StoreNBytesInRange ?sp ?c ?at oob) a len m =
        Some (m', card {x. a \<le> x \<and> x < a + len \<and> tramples ?sp ?c ?at oob (MM_GetBits m x)})"
      and ok': "mm_ok (?sp = AS_GM) (space_limit ?sp s) m'"
      and bits: "\<And>x. x < space_limit ?sp s \<Longrightarrow> MM_GetBits m' x = (if a \<le> x \<and> x < a + len then store_byte ?sp ?c ?at oob (MM_GetBits m x) else MM_GetBits m x)"
    by (rule for_unified_bytewise [OF bytewise_store GetMemMap_ok [OF ok m] lim space_limit_bound]) (rule that)
  note put = PutMemMap_ok [OF ok m ok']
  have frame: "sm_deviceType (PutMemMap ?sp m' s) = sm_deviceType s" "atomicEnabled (PutMemMap ?sp m' s) = atomicEnabled s"
    by (cases ?sp; cases m'; simp)+
  have maps: "GetMemMap sp (PutMemMap ?sp m' s) = None \<longleftrightarrow> GetMemMap sp s = None" for sp
    using put(2) put(3) [of sp] m by (cases "sp = ?sp") simp_all
  have bytes: "shadow_byte (PutMemMap ?sp m' s) sp x =
       (if sp = ?sp \<and> a \<le> x \<and> x < a + len then store_byte sp ?c ?at oob (shadow_byte s sp x) else shadow_byte s sp x)"
    if "x < space_limit sp s" for sp x
    using that bits [of x] put(2) put(3) [of sp] m by (cases "sp = ?sp") (simp_all add: shadow_byte_def)
  show thesis
    by (rule that [OF _ put(1,4) frame maps bytes]) (use skip v m loop in \<open>simp_all add: StoreNBytes_def sb Let_def\<close>)
qed

section \<open>Initialised memory along a run\<close>


definition in_space :: "ShadowMemory \<Rightarrow> MemOpRecordForShadow \<Rightarrow> bool" where
  "in_space s r \<longleftrightarrow> GetMemMap (sh_dstSpace r) s \<noteq> None \<and> sh_dstAddr r + sh_memSize r \<le> space_limit (sh_dstSpace r) s"

definition covers :: "MemOpRecordForShadow \<Rightarrow> AddressSpace \<Rightarrow> nat \<Rightarrow> bool" where
  "covers r sp x \<longleftrightarrow> sh_dstSpace r = sp \<and> sh_dstAddr r \<le> x \<and> x < sh_dstAddr r + sh_memSize r"




definition initialised :: "DeviceType \<Rightarrow> ChipInfo \<Rightarrow> ShadowMemory" where
  "initialised dt ci = snd (ShadowMemory_Init dt ci ShadowMemory_new)"

lemma initialised_ok: "shadow_ok (initialised dt ci)"
  using shadow_ok_Init [of ShadowMemory_new dt ci] by (simp add: initialised_def ShadowMemory_new_def)

lemma default_undefined [simp]: "GetMemStatus DEFAULT_VALUE = UNDEFINED" "GetCoreId DEFAULT_VALUE = DEFAULT_CORE_ID"
  by (simp_all add: DEFAULT_VALUE_def DEFAULT_CORE_ID_def byte_defs MemStatus_of_def)

lemma initialised_fields [simp]:
  "gmem (initialised dt ci) = GmPM_new DEFAULT_VALUE" "sm_chipInfo (initialised dt ci) = ci" "sm_deviceType (initialised dt ci) = dt"
  "l0a (initialised dt ci) = Some (PM_new (unat (l0aSize ci)) DEFAULT_VALUE)" "l0b (initialised dt ci) = Some (PM_new (unat (l0bSize ci)) DEFAULT_VALUE)"
  "l0c (initialised dt ci) = Some (PM_new (unat (l0cSize ci)) DEFAULT_VALUE)" "l1 (initialised dt ci) = Some (PM_new (unat (l1Size ci)) DEFAULT_VALUE)"
  "ub (initialised dt ci) = Some (PM_new (unat (ubSize ci)) DEFAULT_VALUE)" "atomicEnabled (initialised dt ci) = False"
  "private_mem (initialised dt ci) = Some (PM_new (unat (privateSize ci)) DEFAULT_VALUE)"
  by (simp_all add: initialised_def ShadowMemory_Init_def ShadowMemory_new_def Let_def)

lemma GmPM_new_bits: "x < 2 ^ 48 \<Longrightarrow> GmPM_GetBits (GmPM_new v) x = v"
  by (simp add: GmPM_GetBits_small, simp add: GmPM_new_def)

lemma initialised_bytes: "x < 2 ^ 48 \<Longrightarrow> shadow_byte (initialised dt ci) sp x = DEFAULT_VALUE"
  by (cases sp) (simp_all add: shadow_byte_def GmPM_new_bits)


definition sample_store :: "AddressSpace \<Rightarrow> nat \<Rightarrow> nat \<Rightarrow> u8 \<Rightarrow> MemOpRecordForShadow" where
  "sample_store sp a n c = \<lparr>sh_dstSpace = sp, sh_dstAddr = a, sh_memSize = n, sh_coreId = c, sh_serialNo = 0, sh_mainScalarPc = 0,
     sh_isSimt = False\<rparr>"

definition sample_chip :: ChipInfo where
  "sample_chip = chip 24 64 64 128 512 192 32 ASCEND_910B_PRIVATE_SIZE 64"

lemma sample_in_space: "a + n \<le> 65536 \<Longrightarrow> sp \<in> {AS_GM, AS_L0A, AS_UB} \<Longrightarrow> in_space (initialised ASCEND_910B1 sample_chip) (sample_store sp a n c)"
  by (auto simp: in_space_def sample_store_def sample_chip_def space_limit_def chip_def
      KB_TO_BYTES_def gm_limit_def block_defs)


section \<open>Stores of two cores\<close>

text \<open>A store of core \<open>c2\<close> on bytes that core \<open>c1\<close> has written first; the shadow byte keeps six bits of \<open>c1\<close>.\<close>

definition other_core :: "u8 \<Rightarrow> u8 \<Rightarrow> bool" where
  "other_core c1 c2 \<longleftrightarrow> c1 \<noteq> 0xFF \<and> c1 AND 0x3F \<noteq> DEFAULT_CORE_ID \<and> c2 \<noteq> 0xFF \<and> c1 AND 0x3F \<noteq> c2"

lemma tramples_default: "\<not> tramples sp c atomic oob DEFAULT_VALUE"
  by (simp add: tramples_def)

lemma tramples_first_store:
  "tramples AS_GM c2 False True (store_byte AS_GM c1 False oob DEFAULT_VALUE) \<longleftrightarrow> other_core c1 c2"
  by (auto simp: tramples_def store_byte_def other_core_def Let_def DEFAULT_CORE_ID_def)

text \<open>
  C32. After one core has written a range of the global memory, a store of another core reports as
  out of bounds exactly the bytes of their intersection, and a store of the same core none. Only six
  bits of the core number survive in the shadow byte, so a core from 64 on is reported against
  itself and core 63 is taken for the default owner.
\<close>
theorem second_store_overlap_report:
  assumes "in_space (initialised dt ci) r1" "in_space (initialised dt ci) r2" "sh_dstSpace r1 = AS_GM" "sh_dstSpace r2 = AS_GM"
  shows "\<exists>s1 s2. StoreNBytes r1 True True (initialised dt ci) = Some ([], s1) \<and>
     StoreNBytes r2 True True s1 = Some (let n = card {x. covers r1 AS_GM x \<and> covers r2 AS_GM x} in
       if other_core (sh_coreId r1) (sh_coreId r2) \<and> n > 0
       then [MakeBadBytesMsg OUT_OF_BOUNDS AS_GM (sh_dstAddr r2) n (sh_isSimt r2) (sh_mainScalarPc r2) False] else [], s2)"
proof -
  let ?s = "initialised dt ci" and ?r = "\<lambda>r. sh_dstAddr r + sh_memSize r"
  have lim: "?r r1 \<le> space_limit AS_GM ?s" "?r r2 \<le> space_limit AS_GM ?s" using assms by (simp_all add: in_space_def)
  then have small: "x < 2 ^ 48" if "x < ?r r1 \<or> x < ?r r2" for x using that by (auto simp: space_limit_def gm_limit_def block_defs)
  have m: "GetMemMap (sh_dstSpace r1) ?s = Some (GmMap (gmem ?s))" using assms(3) by simp
  have lim0: "?r r1 \<le> space_limit (sh_dstSpace r1) ?s" using lim(1) assms(3) by simp
  have none: "{x. sh_dstAddr r1 \<le> x \<and> x < ?r r1 \<and> tramples AS_GM (sh_coreId r1) False True (shadow_byte ?s AS_GM x)} = {}"
    using initialised_bytes small by (auto simp: tramples_default)
  obtain s1 where s1: "StoreNBytes r1 True True ?s = Some ([], s1)" "shadow_ok s1" "sm_chipInfo s1 = ci" "sm_deviceType s1 = dt"
      "atomicEnabled s1 = False"
      "\<And>sp. GetMemMap sp s1 = None \<longleftrightarrow> GetMemMap sp ?s = None"
      "\<And>sp x. x < space_limit sp ?s \<Longrightarrow> shadow_byte s1 sp x = (if sp = AS_GM \<and> sh_dstAddr r1 \<le> x \<and> x < ?r r1
          then store_byte sp (sh_coreId r1) False True (shadow_byte ?s sp x) else shadow_byte ?s sp x)"
    by (rule StoreNBytes_spec [OF initialised_ok m ValidateRange_inside [OF lim0] lim0, of True True, unfolded assms(3) initialised_fields none])
       (rule that, simp)
  have lim1: "sh_dstAddr r2 + sh_memSize r2 \<le> space_limit (sh_dstSpace r2) s1" using lim(2) s1(3) assms(4) by (simp add: space_limit_def)
  have m1: "GetMemMap (sh_dstSpace r2) s1 = Some (GmMap (gmem s1))" using assms(4) by simp
  have bits: "tramples AS_GM (sh_coreId r2) False True (shadow_byte s1 AS_GM x) \<longleftrightarrow> other_core (sh_coreId r1) (sh_coreId r2) \<and> covers r1 AS_GM x"
    if "x < ?r r2" for x
    using s1(7) [of x AS_GM] that lim(2) small [of x] assms(3)
    by (auto simp: initialised_bytes tramples_default tramples_first_store covers_def)
  have set: "{x. sh_dstAddr r2 \<le> x \<and> x < ?r r2 \<and> tramples AS_GM (sh_coreId r2) False True (shadow_byte s1 AS_GM x)} =
      (if other_core (sh_coreId r1) (sh_coreId r2) then {x. covers r1 AS_GM x \<and> covers r2 AS_GM x} else {})"
    using bits assms(4) by (auto simp: covers_def)
  obtain s2 where "StoreNBytes r2 True True s1 = Some (let n = card (if other_core (sh_coreId r1) (sh_coreId r2)
         then {x. covers r1 AS_GM x \<and> covers r2 AS_GM x} else {}) in
       if True \<and> n > 0 then [MakeBadBytesMsg OUT_OF_BOUNDS AS_GM (sh_dstAddr r2) n (sh_isSimt r2) (sh_mainScalarPc r2) False] else [], s2)"
    by (rule StoreNBytes_spec [OF s1(2) m1 ValidateRange_inside [OF lim1] lim1, of True True, unfolded s1(5) assms(4) set]) (rule that)
  then show ?thesis using s1(1) by (cases "other_core (sh_coreId r1) (sh_coreId r2)") (simp_all add: Let_def)
qed

theorem second_store_overlap_report_witness:
  "\<exists>s1 s2. StoreNBytes (sample_store AS_GM 0 64 64) True True (initialised ASCEND_910B1 sample_chip) = Some ([], s1) \<and>
     StoreNBytes (sample_store AS_GM 32 64 64) True True s1 = Some ([MakeBadBytesMsg OUT_OF_BOUNDS AS_GM 32 32 False 0 False], s2)"
proof -
  have "{x. covers (sample_store AS_GM 0 64 64) AS_GM x \<and> covers (sample_store AS_GM 32 64 64) AS_GM x} = {32 ..< 64}"
    by (auto simp: covers_def sample_store_def)
  then have n: "card {x. covers (sample_store AS_GM 0 64 64) AS_GM x \<and> covers (sample_store AS_GM 32 64 64) AS_GM x} = 32" by simp
  show ?thesis
    using second_store_overlap_report [OF sample_in_space sample_in_space, of 0 64 AS_GM 32 64 AS_GM 64 64, unfolded n]
    by (simp add: sample_store_def other_core_def DEFAULT_CORE_ID_def)
qed

section \<open>Unused memory\<close>

definition unused_bytes :: "ShadowMemory \<Rightarrow> HeapBlock \<Rightarrow> nat" where
  "unused_bytes s b = card {x. hb_addr b \<le> x \<and> x < hb_addr b + hb_len b \<and> GetMemStatus (GmPM_GetBits (gmem s) x) = UNDEFINED}"

lemma CheckUnusedMem_spec:
  assumes "shadow_ok s" "hb_addr b + hb_len b \<le> gm_limit"
  obtains e s' where "CheckUnusedMem (hb_addr b) (hb_len b) s = Some (e, s')" "isError e \<longleftrightarrow> unused_bytes s b > 0"
    "isError e \<Longrightarrow> badAddr (auxData e) = hb_addr b \<and> nBadBytes (auxData e) = unused_bytes s b"
    "gmem s' = gmem s" "shadow_ok s'" "bytesNotUse (unusedHeap s') mod 2 ^ 64 = (bytesNotUse (unusedHeap s) + unused_bytes s b) mod 2 ^ 64"
proof -
  have ok: "mm_ok True gm_limit (GmMap (gmem s))" "gm_limit < 2 ^ 64" using assms(1) by (simp_all add: shadow_ok_def gm_limit_def block_defs)
  obtain m' where "for_unified count_undefined (hb_addr b) (hb_len b) (GmMap (gmem s)) =
      Some (m', card {x. hb_addr b \<le> x \<and> x < hb_addr b + hb_len b \<and> GetMemStatus (MM_GetBits (GmMap (gmem s)) x) = UNDEFINED})"
    by (rule for_unified_bytewise [OF bytewise_count_undefined ok(1) assms(2) ok(2)]) (rule that)
  then have loop: "for_unified count_undefined (hb_addr b) (hb_len b) (GmMap (gmem s)) = Some (m', unused_bytes s b)"
    by (simp add: unused_bytes_def)
  show thesis
  proof (cases "unused_bytes s b = 0")
    case True
    then show thesis using that [of ErrorMsg_new s] loop assms(1) by (simp add: CheckUnusedMem_def ErrorMsg_new_def)
  next
    case False
    then obtain e s' where es: "CheckUnusedMem (hb_addr b) (hb_len b) s = Some (e, s')"
      using loop by (simp add: CheckUnusedMem_def Let_def)
    show thesis
      by (rule that [OF es])
         (use es loop False assms(1) in \<open>auto simp: CheckUnusedMem_def Let_def MakeBadBytesMsg_def upd_aux_def SetType_def shadow_ok_def
            add64_def split: option.splits\<close>)
  qed
qed

lemma check_unused_blocks_spec:
  assumes "shadow_ok s" "\<forall>(k, b)\<in>set bs. hb_addr b + hb_len b \<le> gm_limit"
  shows "\<exists>es s'. check_unused_blocks bs s = Some (es, s') \<and>
     map (\<lambda>e. (badAddr (auxData e), nBadBytes (auxData e), aux_serialNo (auxData e))) es =
       [(hb_addr b, unused_bytes s b, hb_serialNo b). (k, b) \<leftarrow> bs, unused_bytes s b > 0] \<and>
     bytesNotUse (unusedHeap s') mod 2 ^ 64 = (bytesNotUse (unusedHeap s) + (\<Sum>(k, b)\<leftarrow>bs. unused_bytes s b)) mod 2 ^ 64"
  using assms
proof (induction bs arbitrary: s)
  case (Cons x bs)
  let ?b = "snd x"
  have "hb_addr ?b + hb_len ?b \<le> gm_limit" using Cons.prems(2) by (auto simp: case_prod_unfold)
  then obtain e s1 where e: "CheckUnusedMem (hb_addr ?b) (hb_len ?b) s = Some (e, s1)" "isError e \<longleftrightarrow> unused_bytes s ?b > 0"
      "isError e \<Longrightarrow> badAddr (auxData e) = hb_addr ?b \<and> nBadBytes (auxData e) = unused_bytes s ?b" "gmem s1 = gmem s" "shadow_ok s1"
      "bytesNotUse (unusedHeap s1) mod 2 ^ 64 = (bytesNotUse (unusedHeap s) + unused_bytes s ?b) mod 2 ^ 64"
    by (rule CheckUnusedMem_spec [OF Cons.prems(1)]) (rule that)
  have ub: "unused_bytes s1 = unused_bytes s" using e(4) by (simp add: unused_bytes_def fun_eq_iff)
  obtain es s' where es: "check_unused_blocks bs s1 = Some (es, s')"
     "map (\<lambda>e. (badAddr (auxData e), nBadBytes (auxData e), aux_serialNo (auxData e))) es =
       [(hb_addr b, unused_bytes s b, hb_serialNo b). (k, b) \<leftarrow> bs, unused_bytes s b > 0]"
     "bytesNotUse (unusedHeap s') mod 2 ^ 64 = (bytesNotUse (unusedHeap s1) + (\<Sum>(k, b)\<leftarrow>bs. unused_bytes s b)) mod 2 ^ 64"
    using Cons.IH [OF e(5)] Cons.prems(2) unfolding ub by auto
  have sum: "(bytesNotUse (unusedHeap s1) + S) mod 2 ^ 64 = (bytesNotUse (unusedHeap s) + (unused_bytes s ?b + S)) mod 2 ^ 64" for S
    using e(6) by (metis add.assoc mod_add_left_eq)
  show ?case
    using e(1-3) es(1,2) es(3) [unfolded sum]
    by (intro exI conjI) (auto simp: case_prod_unfold upd_aux_def)
qed simp

text \<open>
  C34. The unused-memory report covers exactly the heap blocks with bytes that were never written:
  one message per such block, in the order of the addresses, with the number of unwritten bytes and
  the serial number of the allocation; the counter of unused bytes grows by their sum.
\<close>
theorem unused_heap_report_exact:
  assumes "shadow_ok s" "\<forall>(k, b)\<in>set (heapBlocks (heapBlockManager s)). hb_addr b + hb_len b \<le> gm_limit"
  shows "\<exists>es s'. CheckUnusedHeap s = Some (es, s') \<and>
     map (\<lambda>e. (badAddr (auxData e), nBadBytes (auxData e), aux_serialNo (auxData e))) es =
       [(hb_addr b, unused_bytes s b, hb_serialNo b). (k, b) \<leftarrow> heapBlocks (heapBlockManager s), unused_bytes s b > 0] \<and>
     bytesNotUse (GetUnusedHeap s') mod 2 ^ 64 =
       (bytesNotUse (GetUnusedHeap s) + (\<Sum>(k, b)\<leftarrow>heapBlocks (heapBlockManager s). unused_bytes s b)) mod 2 ^ 64"
  using check_unused_blocks_spec [OF assms] by (simp add: CheckUnusedHeap_def GetUnusedHeap_def)

definition sample_heap :: ShadowMemory where
  "sample_heap = snd (ShadowMemory_AddHeapBlock (sample_heap_op MO_MALLOC 4096 16) (initialised ASCEND_910B1 sample_chip))"

theorem unused_heap_report_exact_witness:
  "\<exists>es s'. CheckUnusedHeap sample_heap = Some (es, s') \<and>
     map (\<lambda>e. (badAddr (auxData e), nBadBytes (auxData e))) es = [(4096, 16)] \<and> bytesNotUse (GetUnusedHeap s') mod 2 ^ 64 = 16"
proof -
  let ?b = "HeapBlock_of (sample_heap_op MO_MALLOC 4096 16)"
  have h: "heapBlocks (heapBlockManager sample_heap) = [(4096, ?b)]" "gmem sample_heap = GmPM_new DEFAULT_VALUE"
    "unusedHeap sample_heap = \<lparr>bytesNotUse = 0, blockNum = 0\<rparr>"
    by (simp_all add: sample_heap_def ShadowMemory_AddHeapBlock_def AddHeapBlock_def AddRtDfxBlock_def GetHeapBlocks_def SetHeapBlocks_def
        uses_dfx_def add_new_def sample_heap_op_def initialised_def ShadowMemory_Init_def ShadowMemory_new_def HeapBlockManager_new_def Let_def)
  have ok: "shadow_ok sample_heap" using initialised_ok [of ASCEND_910B1 sample_chip]
    by (simp add: sample_heap_def ShadowMemory_AddHeapBlock_def sample_heap_op_def shadow_ok_def case_prod_unfold)
  have b: "hb_addr ?b = 4096" "hb_len ?b = 16" by (simp_all add: HeapBlock_of_def sample_heap_op_def)
  have "{x. hb_addr ?b \<le> x \<and> x < hb_addr ?b + hb_len ?b \<and> GetMemStatus (GmPM_GetBits (gmem sample_heap) x) = UNDEFINED} = {4096 ..< 4112}"
    by (auto simp: h b GmPM_new_bits)
  then have n: "unused_bytes sample_heap ?b = 16" by (simp add: unused_bytes_def)
  have lim: "\<forall>(k, b)\<in>set (heapBlocks (heapBlockManager sample_heap)). hb_addr b + hb_len b \<le> gm_limit"
    by (simp add: h b gm_limit_def block_defs)
  obtain es s' where "CheckUnusedHeap sample_heap = Some (es, s')"
     "map (\<lambda>e. (badAddr (auxData e), nBadBytes (auxData e), aux_serialNo (auxData e))) es = [(4096, 16, hb_serialNo ?b)]"
     "bytesNotUse (GetUnusedHeap s') mod 2 ^ 64 = 16"
    using unused_heap_report_exact [OF ok lim] by (auto simp: h n b GetUnusedHeap_def)
  then show ?thesis by (intro exI [of _ es] exI [of _ s']) (auto simp: Cons_eq_map_conv map_eq_Cons_conv)
qed

section \<open>The end of a block of the global memory\<close>

lemma PM_RangeHasStatus_end:
  assumes "a + len \<le> 2 ^ 36" "2 ^ 36 \<le> a + len + 65535"
  shows "\<not> PM_RangeHasStatus pm a len st"
proof -
  have "PM_GetBlockIdx (add64 (add64 a len) 65535) = (a + len + 65535) mod 2 ^ 36 div 65536"
    using assms(1) by (simp add: PM_GetBlockIdx_def block_defs)
  also have "\<dots> = (a + len + 65535 - 2 ^ 36) mod 2 ^ 36 div 65536" using assms(2) by (simp add: le_mod_geq)
  also have "\<dots> = 0" using assms(1) by simp
  finally show ?thesis by (simp add: PM_RangeHasStatus_def block_defs)
qed

text \<open>
  C35. In the last 64 KB of a 64 GB block of the global memory the fast path of \<open>LoadNBytes\<close> misses
  uninitialised reads: once the map of the block exists, a load that ends there reports nothing
  whatever the shadow bytes are, because the end of the range, rounded up, wraps in the 36-bit mask.
\<close>
theorem load_misses_end_of_block:
  assumes "shadow_ok s" "sh_dstSpace r = AS_GM" "sh_dstAddr r + sh_memSize r \<le> gm_limit" "0 < sh_memSize r"
    and "pmList (gmem s) (sh_dstAddr r div GM_BLOCK) = Some pm"
    and "sh_dstAddr r mod GM_BLOCK + sh_memSize r \<le> GM_BLOCK" "2 ^ 36 \<le> sh_dstAddr r mod GM_BLOCK + sh_memSize r + 65535"
  shows "LoadNBytes r True s = Some []"
proof -
  let ?a = "sh_dstAddr r" and ?n = "sh_memSize r" and ?B = GM_BLOCK
  have B: "0 < ?B" "?B < 2 ^ 36" by (rule GM_BLOCK_bounds)+
  have lt: "?a < 2 ^ 48" "?a + ?n + ?B - 1 < 2 ^ 48" using assms(3,4) B by (simp_all add: gm_limit_def)
  have aq: "?a = ?B * (?a div ?B) + ?a mod ?B" by simp
  have r: "(?a + ?n + ?B - 1) div ?B = ?a div ?B + 1"
  proof (rule div_nat_eqI)
    have "?B * (?a div ?B) + ?B \<le> ?a + ?n + ?B - 1" using aq assms(4) B by linarith
    then show "?B * (?a div ?B + 1) \<le> ?a + ?n + ?B - 1" by simp
    have "?a + ?n + ?B - 1 < ?B * (?a div ?B) + ?B + ?B" using aq assms(6) B by linarith
    then show "?a + ?n + ?B - 1 < ?B * Suc (?a div ?B + 1)" by simp
  qed
  have qB: "?a div ?B * ?B < 2 ^ 48" using aq lt(1) by (metis add_leE mult.commute order.strict_trans1 order_refl)
  have "add64 (add64 ?a ?n) (?B - 1) = ?a + ?n + ?B - 1" using lt(2) B(1) by (simp add: add64_def)
  moreover have "min ?n (?B - ?a mod ?B) = ?n" using assms(6) by linarith
  ultimately have "GmPM_RangeHasStatus (gmem s) ?a ?n (MemStatus_code UNDEFINED) =
      gm_block_has_status (gmem s) (MemStatus_code UNDEFINED) (?a div ?B) (?a mod ?B) ?n"
    unfolding GmPM_RangeHasStatus_def using assms(4) GmPM_index_small [OF lt(1)] GmPM_index_small [OF lt(2)] r
    by (simp add: Let_def)
  also have "\<dots> \<longleftrightarrow> PM_RangeHasStatus pm (?a mod ?B) ?n (MemStatus_code UNDEFINED)"
    using assms(5) GM_BLOCK_bounds(3) [OF lt(1)] GmPM_index_small(1) [OF qB] B(1)
    by (simp add: gm_block_has_status_def QueryPM_def)
  also have "\<dots> \<longleftrightarrow> False" using PM_RangeHasStatus_end [of "?a mod ?B" ?n pm] assms(6,7) B(2) by simp
  finally show ?thesis
    using assms(2) ValidateRange_inside [of ?a ?n AS_GM s] assms(3)
    by (simp add: LoadNBytes_def SkipSpace_def space_limit_def)
qed

definition sample_freed :: ShadowMemory where
  "sample_freed = MakeMemUndefined 0 8 (initialised ASCEND_910B1 sample_chip)"

theorem load_misses_end_of_block_witness:
  "GetMemStatus (shadow_byte sample_freed AS_GM (2 ^ 36 - 40)) = UNDEFINED \<and>
   LoadNBytes (sample_store AS_GM (2 ^ 36 - 40) 16 0) True sample_freed = Some []"
proof
  let ?s = sample_freed and ?r = "sample_store AS_GM (2 ^ 36 - 40) 16 0"
  let ?v = "MakeByte UNDEFINED DEFAULT_CORE_ID"
  have "ValidateRange AS_GM 0 8 (initialised ASCEND_910B1 sample_chip) = (0, 8)"
    by (rule ValidateRange_inside) (simp add: space_limit_def gm_limit_def block_defs)
  then have eq: "?s = (initialised ASCEND_910B1 sample_chip)\<lparr>gmem := GmPM_Set 0 8 ?v (GmPM_new DEFAULT_VALUE)\<rparr>"
    by (simp add: sample_freed_def MakeMemUndefined_def)
  have g: "gmem ?s = GmPM_Set 0 8 ?v (GmPM_new DEFAULT_VALUE)" unfolding eq by simp
  have lim: "0 + 8 \<le> gm_limit" "2 ^ 36 - 40 < gm_limit" "gm_limit \<le> 2 ^ 48" by (simp_all add: gm_limit_def block_defs)
  have set: "gm_ok (gmem ?s)" "GmPM_GetBits (gmem ?s) (2 ^ 36 - 40) = DEFAULT_VALUE"
    unfolding g using GmPM_Set_get [OF gm_ok_new lim(1,2)] GmPM_new_bits [of "2 ^ 36 - 40"] by simp_all
  show "GetMemStatus (shadow_byte ?s AS_GM (2 ^ 36 - 40)) = UNDEFINED"
    using set(2) by (simp add: shadow_byte_def)
  have ok: "shadow_ok ?s" using initialised_ok [of ASCEND_910B1 sample_chip] set(1) unfolding eq by (simp add: shadow_ok_def)
  obtain pm where pm: "pmList (gmem ?s) 0 = Some pm"
    unfolding g by (simp add: GmPM_Set_def GetPM_def GmPM_GetBlockIdx_def GmPM_GetBlockOffset_def pmList_size_def block_defs add64_def
        GmPM_new_def Let_def)
  have f: "sh_dstAddr ?r = 2 ^ 36 - 40" "sh_memSize ?r = 16" "sh_dstSpace ?r = AS_GM" by (simp_all add: sample_store_def)
  show "LoadNBytes ?r True ?s = Some []"
    by (rule load_misses_end_of_block [OF ok f(3), where pm = pm]) (unfold f, simp_all add: pm gm_limit_def block_defs)
qed

end
