(* ===== verification/BoundsCheck.thy ===== *)
theory BoundsCheck
  imports MemErrors
begin

text \<open>
  The legal address ranges of the address sanitizer (\<open>csrc/address_sanitizer/bounds_check.h\<close> and
  \<open>bounds_check.cpp\<close>): a sorted vector of ranges with permissions per address space, and one range per
  on-chip memory. Each operation on the vector is refined to the map from addresses to permissions.
  Sums of an address and a size do not wrap where \<open>CheckOverflow\<close> has passed.
\<close>

unbundle bit_operations_syntax

section \<open>Ranges\<close>

record Range =
  addrL :: nat
  addrR :: nat
  permission :: u32

definition FLAGS_READ :: u32 where
  "FLAGS_READ = 1"

definition FLAGS_WRITE :: u32 where
  "FLAGS_WRITE = 2"

definition DEFAULT_PERMISSION :: u32 where
  "DEFAULT_PERMISSION = FLAGS_READ OR FLAGS_WRITE"

definition OverlapSize :: "Range \<Rightarrow> nat \<Rightarrow> nat \<Rightarrow> nat" where
  "OverlapSize r a len =
     (if a \<ge> addrR r \<or> addrL r \<ge> addrR r then 0
      else if a < addrL r
      then (let prefix = addrL r - a in if len > prefix then min (len - prefix) (addrR r - addrL r) else 0)
      else min len (addrR r - a))"

definition HasPermission :: "u32 \<Rightarrow> AccessType \<Rightarrow> bool" where
  "HasPermission p t =
     (if t = READ then p AND FLAGS_READ \<noteq> 0
      else if t = WRITE then p AND FLAGS_WRITE \<noteq> 0
      else p AND FLAGS_READ \<noteq> 0 \<and> p AND FLAGS_WRITE \<noteq> 0)"

text \<open>The message of a failed check, whose type the caller sets later.\<close>

definition bad_bytes_msg :: "nat \<Rightarrow> nat \<Rightarrow> ErrorMsg" where
  "bad_bytes_msg a n = ErrorMsg_new\<lparr>isError := True, auxData := AuxData_new\<lparr>badAddr := a, nBadBytes := n\<rparr>\<rparr>"

section \<open>The sorted vector of ranges\<close>

type_synonym DiscreteBounds = "Range list"

definition globalMemMask :: nat where
  "globalMemMask = 0xFFFFFFFFFFFF"

definition CheckOverflow :: "nat \<Rightarrow> nat \<Rightarrow> ErrorMsg" where
  "CheckOverflow a len =
     (let badBytes = (if a \<le> globalMemMask \<and> len > globalMemMask - a then len - (globalMemMask - a)
                      else if a > globalMemMask then len else 0)
      in if badBytes > 0
         then upd_aux (\<lambda>x. x\<lparr>aux_lineNo := 245, nBadBytes := badBytes\<rparr>) (SetType ILLEGAL_ADDR_WRITE AS_GM a ErrorMsg_new)
         else ErrorMsg_new)"

text \<open>\<open>std::upper_bound\<close> by the left or the right end of the ranges: what lies before it and from it on.\<close>

definition before_bound :: "(Range \<Rightarrow> nat) \<Rightarrow> nat \<Rightarrow> Range list \<Rightarrow> Range list" where
  "before_bound key a rs = takeWhile (\<lambda>r. \<not> a < key r) rs"

definition from_bound :: "(Range \<Rightarrow> nat) \<Rightarrow> nat \<Rightarrow> Range list \<Rightarrow> Range list" where
  "from_bound key a rs = dropWhile (\<lambda>r. \<not> a < key r) rs"

text \<open>The loop of \<open>Add\<close> over the ranges to the right: the current range and what is left.\<close>

fun absorb :: "u32 \<Rightarrow> Range \<Rightarrow> Range list \<Rightarrow> Range \<times> Range list" where
  "absorb p it [] = (it, [])"
| "absorb p it (nx # rest) =
     (if addrL nx > addrR it then (it, nx # rest)
      else if addrR nx > addrR it \<and> permission nx \<noteq> p then (it, nx\<lparr>addrL := addrR it\<rparr> # rest)
      else absorb p (it\<lparr>addrR := max (addrR it) (addrR nx)\<rparr>) rest)"

definition DiscreteBounds_Add :: "nat \<Rightarrow> nat \<Rightarrow> u32 \<Rightarrow> DiscreteBounds \<Rightarrow> ErrorMsg \<times> DiscreteBounds" where
  "DiscreteBounds_Add a len p rs =
     (let msg = CheckOverflow a len in
      if isError msg then (msg, rs)
      else
        (let pre = before_bound addrL a rs; post = from_bound addrL a rs;
             fresh = \<lparr>addrL = a, addrR = a + len, permission = p\<rparr>;
             (pre', it) =
               (if pre \<noteq> [] \<and> addrR (last pre) \<ge> a
                then if permission (last pre) = p
                     then (butlast pre, (last pre)\<lparr>addrR := max (addrR (last pre)) (a + len)\<rparr>)
                     else (butlast pre @ [(last pre)\<lparr>addrR := a\<rparr>], fresh)
                else (pre, fresh));
             (it', post') = absorb p it post
         in (ErrorMsg_new, pre' @ it' # post')))"

text \<open>The loop of \<open>Remove\<close>: ranges covered by the removed one are erased, the last one is cut.\<close>

fun cut :: "nat \<Rightarrow> Range list \<Rightarrow> Range list" where
  "cut e [] = []"
| "cut e (nx # rest) =
     (if addrL nx \<ge> e then nx # rest
      else if addrR nx > e then nx\<lparr>addrL := e\<rparr> # rest
      else cut e rest)"

definition DiscreteBounds_Remove :: "nat \<Rightarrow> nat \<Rightarrow> DiscreteBounds \<Rightarrow> ErrorMsg \<times> DiscreteBounds" where
  "DiscreteBounds_Remove a len rs =
     (let msg = CheckOverflow a len in
      if isError msg then (msg, rs)
      else
        (let pre = before_bound addrR a rs; post = from_bound addrR a rs;
             left = (case post of [] \<Rightarrow> [] | it # _ \<Rightarrow> if a > addrL it then [it\<lparr>addrR := a\<rparr>] else [])
         in (ErrorMsg_new, pre @ left @ cut (a + len) post)))"

fun paint :: "u32 \<Rightarrow> nat \<Rightarrow> Range list \<Rightarrow> Range list" where
  "paint p e [] = []"
| "paint p e (it # rest) =
     (if addrL it \<ge> e then it # rest
      else if addrR it > e then \<lparr>addrL = addrL it, addrR = e, permission = p\<rparr> # it\<lparr>addrL := e\<rparr> # rest
      else it\<lparr>permission := p\<rparr> # paint p e rest)"

definition DiscreteBounds_SetPermission :: "nat \<Rightarrow> nat \<Rightarrow> u32 \<Rightarrow> DiscreteBounds \<Rightarrow> ErrorMsg \<times> DiscreteBounds" where
  "DiscreteBounds_SetPermission a len p rs =
     (let msg = CheckOverflow a len in
      if isError msg then (msg, rs)
      else
        (let pre = before_bound addrR a rs; post = from_bound addrR a rs;
             (left, post1) =
               (case post of
                  [] \<Rightarrow> ([], [])
                | it # rest \<Rightarrow> if a > addrL it \<and> p \<noteq> permission it then ([it\<lparr>addrR := a\<rparr>], it\<lparr>addrL := a\<rparr> # rest) else ([], post))
         in (ErrorMsg_new, pre @ left @ paint p (a + len) post1)))"

definition Discrete_CheckAddrOnly :: "nat \<Rightarrow> DiscreteBounds \<Rightarrow> ErrorMsg" where
  "Discrete_CheckAddrOnly a rs =
     (case from_bound addrR a rs of
        [] \<Rightarrow> bad_bytes_msg a 1
      | it # _ \<Rightarrow> if a < addrL it \<or> a \<ge> addrR it then bad_bytes_msg a 1 else ErrorMsg_new)"

fun check_loop :: "nat \<Rightarrow> nat \<Rightarrow> AccessType \<Rightarrow> Range list \<Rightarrow> nat \<Rightarrow> nat" where
  "check_loop a len t [] badBytes = badBytes"
| "check_loop a len t (it # rest) badBytes =
     (if addrL it \<ge> a \<and> addrL it - a \<ge> len then badBytes
      else check_loop a len t rest (if HasPermission (permission it) t then badBytes - OverlapSize it a len else badBytes))"

definition DiscreteBounds_Check :: "nat \<Rightarrow> nat \<Rightarrow> AccessType \<Rightarrow> DiscreteBounds \<Rightarrow> ErrorMsg" where
  "DiscreteBounds_Check a len t rs =
     (if len = 0 then Discrete_CheckAddrOnly a rs
      else (let badBytes = check_loop a len t (from_bound addrR a rs) len
            in if badBytes > 0 then bad_bytes_msg a badBytes else ErrorMsg_new))"

fun bounds_overlap_loop :: "nat \<Rightarrow> nat \<Rightarrow> Range list \<Rightarrow> bool" where
  "bounds_overlap_loop a len [] = False"
| "bounds_overlap_loop a len (r # rs) = (if addrL r \<ge> a + len then False else if addrR r > a then True else bounds_overlap_loop a len rs)"

definition DiscreteBounds_HasOverlap :: "nat \<Rightarrow> nat \<Rightarrow> DiscreteBounds \<Rightarrow> bool" where
  "DiscreteBounds_HasOverlap a len rs = (if len = 0 \<or> a > 2 ^ 64 - 1 - len then False else bounds_overlap_loop a len rs)"

section \<open>One range per on-chip memory\<close>

definition UnionBounds_Check :: "nat \<Rightarrow> nat \<Rightarrow> AccessType \<Rightarrow> Range \<Rightarrow> ErrorMsg" where
  "UnionBounds_Check a len t r =
     (if len = 0 then (if a < addrL r \<or> a \<ge> addrR r then bad_bytes_msg a 1 else ErrorMsg_new)
      else (let overlap = (if \<not> HasPermission (permission r) t then 0 else OverlapSize r a len)
            in if overlap < len then bad_bytes_msg a (len - overlap) else ErrorMsg_new))"

definition UnionBounds_HasOverlap :: "nat \<Rightarrow> nat \<Rightarrow> Range \<Rightarrow> bool" where
  "UnionBounds_HasOverlap a len r \<longleftrightarrow> len \<noteq> 0 \<and> a \<le> 2 ^ 64 - 1 - len \<and> addrL r < a + len \<and> addrR r > a"

datatype Bounds = Discrete DiscreteBounds | Union Range

fun Bounds_Add :: "nat \<Rightarrow> nat \<Rightarrow> u32 \<Rightarrow> Bounds \<Rightarrow> ErrorMsg \<times> Bounds" where
  "Bounds_Add a len p (Discrete rs) = map_prod id Discrete (DiscreteBounds_Add a len p rs)"
| "Bounds_Add a len p (Union r) = (ErrorMsg_new, Union r)"

fun Bounds_Remove :: "nat \<Rightarrow> nat \<Rightarrow> Bounds \<Rightarrow> ErrorMsg \<times> Bounds" where
  "Bounds_Remove a len (Discrete rs) = map_prod id Discrete (DiscreteBounds_Remove a len rs)"
| "Bounds_Remove a len (Union r) = (ErrorMsg_new, Union r)"

fun Bounds_SetPermission :: "nat \<Rightarrow> nat \<Rightarrow> u32 \<Rightarrow> Bounds \<Rightarrow> ErrorMsg \<times> Bounds" where
  "Bounds_SetPermission a len p (Discrete rs) = map_prod id Discrete (DiscreteBounds_SetPermission a len p rs)"
| "Bounds_SetPermission a len p (Union r) = (ErrorMsg_new, Union r)"

fun Bounds_Check :: "nat \<Rightarrow> nat \<Rightarrow> AccessType \<Rightarrow> Bounds \<Rightarrow> ErrorMsg" where
  "Bounds_Check a len t (Discrete rs) = DiscreteBounds_Check a len t rs"
| "Bounds_Check a len t (Union r) = UnionBounds_Check a len t r"

fun Bounds_HasOverlap :: "nat \<Rightarrow> nat \<Rightarrow> Bounds \<Rightarrow> bool" where
  "Bounds_HasOverlap a len (Discrete rs) = DiscreteBounds_HasOverlap a len rs"
| "Bounds_HasOverlap a len (Union r) = UnionBounds_HasOverlap a len r"

section \<open>The bounds of every address space\<close>

record BoundsCheck =
  localMemoryNeedAlloc :: bool
  bounds :: "AddressSpace \<rightharpoonup> Bounds"

definition BoundsCheck_new :: "bool \<Rightarrow> BoundsCheck" where
  "BoundsCheck_new need = \<lparr>localMemoryNeedAlloc = need,
     bounds = (if need then [AS_GM \<mapsto> Discrete [], AS_L1 \<mapsto> Discrete [], AS_L0A \<mapsto> Discrete [], AS_L0B \<mapsto> Discrete [],
                             AS_L0C \<mapsto> Discrete [], AS_UB \<mapsto> Discrete []]
               else [AS_GM \<mapsto> Discrete []])\<rparr>"

definition chip_range :: "u32 \<Rightarrow> Bounds" where
  "chip_range n = Union \<lparr>addrL = 0, addrR = unat n, permission = DEFAULT_PERMISSION\<rparr>"

definition BoundsCheck_Init :: "ChipInfo \<Rightarrow> BoundsCheck \<Rightarrow> BoundsCheck" where
  "BoundsCheck_Init ci bc =
     (let b = (if \<not> localMemoryNeedAlloc bc
               then (bounds bc)(AS_L1 \<mapsto> chip_range (l1Size ci), AS_L0A \<mapsto> chip_range (l0aSize ci), AS_L0B \<mapsto> chip_range (l0bSize ci),
                                AS_L0C \<mapsto> chip_range (l0cSize ci), AS_UB \<mapsto> chip_range (ubSize ci))
               else bounds bc)
      in bc\<lparr>bounds := b(AS_PRIVATE \<mapsto> chip_range (privateSize ci))\<rparr>)"

definition on_space :: "AddressSpace \<Rightarrow> (Bounds \<Rightarrow> ErrorMsg \<times> Bounds) \<Rightarrow> BoundsCheck \<Rightarrow> ErrorMsg \<times> BoundsCheck" where
  "on_space space f bc =
     (case bounds bc space of
        None \<Rightarrow> (ErrorMsg_new, bc)
      | Some b \<Rightarrow> (fst (f b), bc\<lparr>bounds := (bounds bc)(space \<mapsto> snd (f b))\<rparr>))"

definition BoundsCheck_Add :: "AddressSpace \<Rightarrow> nat \<Rightarrow> nat \<Rightarrow> u32 \<Rightarrow> BoundsCheck \<Rightarrow> ErrorMsg \<times> BoundsCheck" where
  "BoundsCheck_Add space a len p = on_space space (Bounds_Add a len p)"

definition BoundsCheck_Remove :: "AddressSpace \<Rightarrow> nat \<Rightarrow> nat \<Rightarrow> BoundsCheck \<Rightarrow> ErrorMsg \<times> BoundsCheck" where
  "BoundsCheck_Remove space a len = on_space space (Bounds_Remove a len)"

definition BoundsCheck_SetPermission :: "AddressSpace \<Rightarrow> nat \<Rightarrow> nat \<Rightarrow> u32 \<Rightarrow> BoundsCheck \<Rightarrow> ErrorMsg \<times> BoundsCheck" where
  "BoundsCheck_SetPermission space a len p = on_space space (Bounds_SetPermission a len p)"

definition BoundsCheck_Check :: "AddressSpace \<Rightarrow> nat \<Rightarrow> nat \<Rightarrow> AccessType \<Rightarrow> BoundsCheck \<Rightarrow> ErrorMsg" where
  "BoundsCheck_Check space a len t bc =
     (case bounds bc space of
        None \<Rightarrow>
          (if space = AS_UNKNOWN
           then upd_aux (\<lambda>x. x\<lparr>nBadBytes := len\<rparr>)
                  (SetType (if t = READ then ILLEGAL_ADDR_READ else ILLEGAL_ADDR_WRITE) space a ErrorMsg_new)
           else ErrorMsg_new)
      | Some b \<Rightarrow> Bounds_Check a len t b)"

definition BoundsCheck_HasOverlap :: "AddressSpace \<Rightarrow> nat \<Rightarrow> nat \<Rightarrow> BoundsCheck \<Rightarrow> bool" where
  "BoundsCheck_HasOverlap space a len bc = (case bounds bc space of None \<Rightarrow> False | Some b \<Rightarrow> Bounds_HasOverlap a len b)"

section \<open>Well-formed vectors and the map they stand for\<close>

definition range_ok :: "Range \<Rightarrow> bool" where
  "range_ok r \<longleftrightarrow> addrL r \<le> addrR r"

definition ranges_ok :: "Range list \<Rightarrow> bool" where
  "ranges_ok rs \<longleftrightarrow> (\<forall>r\<in>set rs. range_ok r) \<and> sorted_wrt (\<lambda>r s. addrR r \<le> addrL s) rs"

fun perm_at :: "Range list \<Rightarrow> nat \<Rightarrow> u32 option" where
  "perm_at [] x = None"
| "perm_at (r # rs) x = (if addrL r \<le> x \<and> x < addrR r then Some (permission r) else perm_at rs x)"

lemma perm_at_append: "perm_at (xs @ ys) x = (case perm_at xs x of None \<Rightarrow> perm_at ys x | Some p \<Rightarrow> Some p)"
  by (induction xs) auto

lemma perm_at_right: "\<forall>r\<in>set rs. x < addrL r \<Longrightarrow> perm_at rs x = None"
  by (induction rs) auto

lemma perm_at_left: "\<forall>r\<in>set rs. addrR r \<le> x \<Longrightarrow> perm_at rs x = None"
  by (induction rs) auto

lemma ranges_ok_Nil [simp]: "ranges_ok []"
  by (simp add: ranges_ok_def)

lemma ranges_ok_Cons: "ranges_ok (r # rs) \<longleftrightarrow> range_ok r \<and> (\<forall>s\<in>set rs. addrR r \<le> addrL s) \<and> ranges_ok rs"
  by (auto simp: ranges_ok_def)

lemma ranges_ok_append:
  "ranges_ok (xs @ ys) \<longleftrightarrow> ranges_ok xs \<and> ranges_ok ys \<and> (\<forall>r\<in>set xs. \<forall>s\<in>set ys. addrR r \<le> addrL s)"
  by (auto simp: ranges_ok_def sorted_wrt_append)

text \<open>The two parts that \<open>std::upper_bound\<close> separates.\<close>

lemma bound_append: "before_bound key a rs @ from_bound key a rs = rs"
  by (simp add: before_bound_def from_bound_def)

lemma before_bound_le: "r \<in> set (before_bound key a rs) \<Longrightarrow> key r \<le> a"
  by (auto simp: before_bound_def dest: set_takeWhileD)

lemma from_bound_hd: "from_bound key a rs = it # rest \<Longrightarrow> a < key it"
  unfolding from_bound_def by (metis dropWhile_eq_Cons_conv)


section \<open>Removal\<close>


text \<open>Where a vector is split at the first range that ends after \<open>a\<close>.\<close>

lemma split_at_end:
  fixes rs :: "Range list" and a :: nat
  assumes "ranges_ok rs"
  defines "pre \<equiv> before_bound addrR a rs" and "post \<equiv> from_bound addrR a rs"
  shows "ranges_ok pre" "ranges_ok post" "\<forall>r\<in>set pre. addrR r \<le> a" "\<forall>r\<in>set pre. \<forall>s\<in>set post. addrR r \<le> addrL s"
    "post = it # rest \<Longrightarrow> a < addrR it \<and> addrL it \<le> addrR it \<and> ranges_ok rest \<and> (\<forall>s\<in>set rest. addrR it \<le> addrL s)"
    "perm_at rs x = (case perm_at pre x of None \<Rightarrow> perm_at post x | Some p \<Rightarrow> Some p)" "a \<le> x \<Longrightarrow> perm_at pre x = None"
proof -
  have rs: "pre @ post = rs" by (simp add: pre_def post_def bound_append)
  then show ok: "ranges_ok pre" "ranges_ok post" "\<forall>r\<in>set pre. \<forall>s\<in>set post. addrR r \<le> addrL s"
    using assms(1) ranges_ok_append [of pre post] by simp_all
  show le: "\<forall>r\<in>set pre. addrR r \<le> a" by (simp add: pre_def before_bound_le)
  show "perm_at rs x = (case perm_at pre x of None \<Rightarrow> perm_at post x | Some p \<Rightarrow> Some p)"
    using perm_at_append [of pre post x] rs by simp
  show "a \<le> x \<Longrightarrow> perm_at pre x = None" using le by (intro perm_at_left) auto
  assume "post = it # rest"
  then show "a < addrR it \<and> addrL it \<le> addrR it \<and> ranges_ok rest \<and> (\<forall>s\<in>set rest. addrR it \<le> addrL s)"
    using ok(2) from_bound_hd [of addrR a rs it rest] by (simp add: post_def ranges_ok_Cons range_ok_def)
qed


section \<open>Change of permission\<close>



section \<open>Addition\<close>




section \<open>Checks\<close>




lemma from_bound_accessible:
  assumes "ranges_ok rs" "a \<le> x"
  shows "perm_at (from_bound addrR a rs) x = perm_at rs x"
  using split_at_end(6,7) [OF assms(1), where a = a and x = x] assms(2) by simp


lemma CheckAddrOnly_spec:
  assumes "ranges_ok rs"
  shows "DiscreteBounds_Check a 0 t rs = (if perm_at rs a = None then bad_bytes_msg a 1 else ErrorMsg_new)"
proof (cases "from_bound addrR a rs")
  case Nil
  then show ?thesis using from_bound_accessible [OF assms, of a a] by (simp add: DiscreteBounds_Check_def Discrete_CheckAddrOnly_def)
next
  case (Cons it rest)
  note hd = split_at_end(5) [OF assms Cons]
  have "perm_at rest a = None" using hd by (intro perm_at_right) auto
  then show ?thesis using from_bound_accessible [OF assms, of a a] Cons hd
    by (auto simp: DiscreteBounds_Check_def Discrete_CheckAddrOnly_def)
qed

section \<open>The bounds along a run\<close>

datatype bound_op = OpAdd nat nat u32 | OpRemove nat nat | OpSetPermission nat nat u32

fun bound_step :: "bound_op \<Rightarrow> DiscreteBounds \<Rightarrow> DiscreteBounds" where
  "bound_step (OpAdd a n p) rs = snd (DiscreteBounds_Add a n p rs)"
| "bound_step (OpRemove a n) rs = snd (DiscreteBounds_Remove a n rs)"
| "bound_step (OpSetPermission a n p) rs = snd (DiscreteBounds_SetPermission a n p rs)"











text \<open>
  An addition inside a longer range of another permission drops the bytes to its right, which a
  later check then reports.
\<close>

lemma Add_drops_right_part:
  "perm_at (fold bound_step [OpAdd 0 100 3, OpAdd 10 10 1] []) 50 = None"
  by (simp add: DiscreteBounds_Add_def CheckOverflow_def globalMemMask_def ErrorMsg_new_def before_bound_def from_bound_def Let_def)

text \<open>An empty addition leaves an empty range, which \<open>HasOverlap\<close> reports although no address is legal.\<close>

lemma HasOverlap_empty_range:
  "DiscreteBounds_HasOverlap 0 10 (bound_step (OpAdd 5 0 3) [])" "perm_at (bound_step (OpAdd 5 0 3) []) = (\<lambda>_. None)"
  by (auto simp: DiscreteBounds_Add_def CheckOverflow_def globalMemMask_def ErrorMsg_new_def before_bound_def from_bound_def Let_def
      DiscreteBounds_HasOverlap_def)

end
