(* ===== verification/MemRecords.thy ===== *)
theory MemRecords
  imports MemErrors MemSeries ShadowWords
begin

text \<open>
  From events to records of memory operations (\<open>csrc/address_sanitizer/address_sanitizer.cpp\<close>): a
  strided access becomes one record per contiguous piece, with special cases that save records, and
  adjacent records of one kind are merged, either afterwards in place or while they are produced.
  Products of two \<open>uint32_t\<close> are taken in 32 bits, as in the source.
\<close>

section \<open>Single records\<close>

fun MemTypeToAddrSpace :: "MemType \<Rightarrow> AddressSpace" where
  "MemTypeToAddrSpace MEM_L1 = AS_L1"
| "MemTypeToAddrSpace MEM_L0A = AS_L0A"
| "MemTypeToAddrSpace MEM_L0B = AS_L0B"
| "MemTypeToAddrSpace MEM_L0C = AS_L0C"
| "MemTypeToAddrSpace MEM_UB = AS_UB"
| "MemTypeToAddrSpace MEM_BT = AS_BT"
| "MemTypeToAddrSpace MEM_GM = AS_GM"
| "MemTypeToAddrSpace MEM_PRIVATE = AS_PRIVATE"
| "MemTypeToAddrSpace MEM_FB = AS_FB"
| "MemTypeToAddrSpace _ = AS_UNKNOWN"

fun AccessTypeToMemOpType :: "AccessType \<Rightarrow> MemOpType" where
  "AccessTypeToMemOpType READ = MO_LOAD"
| "AccessTypeToMemOpType WRITE = MO_STORE"
| "AccessTypeToMemOpType MEMCPY_BLOCKS = MO_MEMCPY_BLOCKS"

text \<open>\<open>MemOpRecord record{}\<close>: every field is zero.\<close>

definition MemOpRecord_zero :: MemOpRecord where
  "MemOpRecord_zero = \<lparr>mo_serialNo = 0, mo_type = MO_MALLOC, mo_coreId = 0, mo_moduleId = 0, mo_srcAddr = 0, mo_dstAddr = 0,
     mo_srcSpace = AS_PRIVATE, mo_dstSpace = AS_PRIVATE, mo_memSize = 0, mo_lineNo = 0, mo_fileName = [], mo_blockType = BT_AIVEC,
     mo_pc = 0, mo_infoSrc = SRC_BYPASS, mo_side = SIDE_HOST, mo_rootAddr = 0, mo_mainScalarPc = 0, mo_ignoreIllegalCheck = False,
     mo_isSimt = False, mo_recordType = 0, mo_outOfBounds = \<lparr>userAddr = 0, userSize = 0, outAddr = 0, outSize = 0\<rparr>\<rparr>"

text \<open>The conversion of a 64-bit number to \<open>int32_t\<close>.\<close>

definition to_int32 :: "u64 \<Rightarrow> int" where
  "to_int32 x = sint (ucast x :: u32)"

definition SetBasicMemInfo :: "SanEvent \<Rightarrow> MemOpInfo \<Rightarrow> MemOpRecord \<Rightarrow> MemOpRecord" where
  "SetBasicMemInfo e m r = r\<lparr>mo_serialNo := serialNo e, mo_type := AccessTypeToMemOpType (opType m), mo_coreId := int (coreId (loc e)),
     mo_moduleId := -1, mo_srcSpace := MemTypeToAddrSpace (memType m), mo_dstSpace := MemTypeToAddrSpace (memType m),
     mo_lineNo := to_int32 (lineNo (loc e)), mo_blockType := blockType (loc e), mo_pc := unat (loc_pc (loc e)),
     mo_side := SIDE_KERNEL, mo_recordType := recordType e\<rparr>"

definition IsContinuousAddr :: "MemOpRecord \<Rightarrow> MemOpRecord \<Rightarrow> bool" where
  "IsContinuousAddr l r \<longleftrightarrow> add64 (mo_dstAddr l) (mo_memSize l) = mo_dstAddr r \<and>
     (mo_type l \<noteq> MO_MEMCPY_BLOCKS \<or> add64 (mo_srcAddr l) (mo_memSize l) = mo_srcAddr r)"

definition IsSameOp :: "MemOpRecord \<Rightarrow> MemOpRecord \<Rightarrow> bool" where
  "IsSameOp l r \<longleftrightarrow> mo_type l = mo_type r \<and> mo_dstSpace l = mo_dstSpace r \<and>
     (mo_type l \<noteq> MO_MEMCPY_BLOCKS \<or> mo_srcSpace l = mo_srcSpace r)"

section \<open>Merging\<close>

definition grow :: "MemOpRecord \<Rightarrow> MemOpRecord \<Rightarrow> MemOpRecord" where
  "grow l r = l\<lparr>mo_memSize := add64 (mo_memSize l) (mo_memSize r)\<rparr>"

text \<open>\<open>MemRecordSink::emplace_back\<close>.\<close>

definition sink_add :: "MemOpRecord \<Rightarrow> MemOpRecord list \<Rightarrow> MemOpRecord list" where
  "sink_add r rs =
     (if rs \<noteq> [] \<and> IsSameOp (last rs) r \<and> IsContinuousAddr (last rs) r then rs[length rs - 1 := grow (last rs) r] else rs @ [r])"

text \<open>The loop of \<open>MergeRecords\<close>: \<open>lst\<close> is the last kept record, \<open>i\<close> the one that is looked at.\<close>

function merge_loop :: "nat \<Rightarrow> nat \<Rightarrow> MemOpRecord list \<Rightarrow> MemOpRecord list" where
  "merge_loop lst i rs =
     (if i < length rs
      then if IsSameOp (rs ! lst) (rs ! i) \<and> IsContinuousAddr (rs ! lst) (rs ! i)
           then merge_loop lst (i + 1) (rs[lst := grow (rs ! lst) (rs ! i)])
           else merge_loop (lst + 1) (i + 1) (rs[lst + 1 := rs ! i])
      else take (lst + 1) rs)"
  by pat_completeness auto
termination
  by (relation "measure (\<lambda>(lst, i, rs). length rs - i)") auto

declare merge_loop.simps [simp del]

definition MergeRecords :: "MemOpRecord list \<Rightarrow> MemOpRecord list" where
  "MergeRecords rs = (if rs = [] then [] else merge_loop 0 1 rs)"

section \<open>The records of an event\<close>

definition simt_record :: "MemOpRecord \<Rightarrow> ShadowMemoryRecord \<Rightarrow> MemOpRecord" where
  "simt_record base s = base\<lparr>mo_lineNo := to_int32 (location_lineNo (sm_location s)), mo_pc := unat (location_pc (sm_location s)),
     mo_dstAddr := unat (sm_addr s), mo_memSize := unat (sm_size s), mo_mainScalarPc := mainScalarPc (sm_threadLoc s),
     mo_type := AccessTypeToMemOpType (sm_accessType s)\<rparr>"

definition SimtEntryToSingle :: "SanEvent \<Rightarrow> DynamicOpInfo \<Rightarrow> MemType \<Rightarrow> MemOpRecord list" where
  "SimtEntryToSingle e d mt =
     (let base = MemOpRecord_zero\<lparr>mo_ignoreIllegalCheck := True, mo_isSimt := True, mo_serialNo := serialNo e,
            mo_coreId := int (coreId (loc e)), mo_blockType := blockType (loc e), mo_moduleId := -1, mo_side := SIDE_KERNEL,
            mo_dstSpace := (if mt = MEM_GM then AS_GM else AS_UB)\<rparr>
      in case dyn_buffer d of None \<Rightarrow> [] | Some ss \<Rightarrow> map (simt_record base) (take (dyn_count d) ss))"

definition ProcessAndStoreMemOp :: "MemOpRecord \<Rightarrow> MemOpRecord" where
  "ProcessAndStoreMemOp r = (if mo_type r = MO_MEMCPY_BLOCKS then r\<lparr>mo_srcAddr := mo_dstAddr r\<rparr> else r)"

definition store_at :: "MemOpRecord \<Rightarrow> u64 \<Rightarrow> u64 \<Rightarrow> MemOpRecord" where
  "store_at r a n = ProcessAndStoreMemOp (r\<lparr>mo_dstAddr := unat a, mo_memSize := unat n\<rparr>)"

definition clamp_repeat :: "u32 \<Rightarrow> u32" where
  "clamp_repeat n = (if n > 0x7FFF then 0x7FFF else n)"

definition ConvertSingleRecordRepeats :: "MemOpInfo \<Rightarrow> MemOpRecord \<Rightarrow> MemOpRecord list" where
  "ConvertSingleRecordRepeats m r =
     (let sz :: u64 = (if blockStride m = 1 then ucast (blockSize m * blockNum m) else ucast (blockSize m));
          repeatStrideSize :: u64 = ucast (repeatStride m * blockSize m)
      in if repeatStride m = 0 then [store_at r (addr m) sz]
         else if repeatStrideSize \<le> sz then [store_at r (addr m) (repeatStrideSize * ucast (repeatTimes m - 1) + sz)]
         else map (\<lambda>i. store_at r (addr m + of_nat i * repeatStrideSize) sz) [0 ..< unat (clamp_repeat (repeatTimes m))])"

definition ConvertMutiRecordRepeats :: "MemOpInfo \<Rightarrow> MemOpRecord \<Rightarrow> MemOpRecord list" where
  "ConvertMutiRecordRepeats m r =
     (let bs :: u64 = ucast (blockSize m); stride :: u64 = ucast (blockStride m) in
      if repeatStride m = 0 then map (\<lambda>_. store_at r (addr m) bs) [0 ..< unat (blockNum m)]
      else if repeatStride m = 1 \<and> repeatTimes m \<ge> blockStride m
      then [store_at r (addr m) (ucast ((blockNum m - 1 + repeatTimes m) * blockSize m))]
      else if repeatStride m = 1 \<and> repeatTimes m < blockStride m
      then map (\<lambda>b. store_at r (addr m + of_nat b * bs * stride) (ucast (repeatTimes m * blockSize m))) [0 ..< unat (blockNum m)]
      else if repeatStride m = blockStride m
      then map (\<lambda>b. store_at r (addr m + of_nat b * bs * stride) bs) [0 ..< unat (max (blockNum m) (repeatTimes m))]
      else concat (map (\<lambda>i. map (\<lambda>b. store_at r (addr m + of_nat i * bs * ucast (repeatStride m) + of_nat b * stride * bs) bs)
             [0 ..< unat (blockNum m)]) [0 ..< unat (clamp_repeat (repeatTimes m))]))"

definition ConvertMemEventRecords :: "SanEvent \<Rightarrow> MemOpInfo \<Rightarrow> MemOpRecord list" where
  "ConvertMemEventRecords e m =
     (if repeatTimes m = 0 then []
      else let r = SetBasicMemInfo e m MemOpRecord_zero in
        if blockStride m \<le> 1 then ConvertSingleRecordRepeats m r else ConvertMutiRecordRepeats m r)"

definition ConvertEventRecords :: "SanEvent \<Rightarrow> MemOpRecord list" where
  "ConvertEventRecords e =
     (case eventInfo e of
        MEM_EVENT m \<Rightarrow> ConvertMemEventRecords e m
      | DYNAMIC_MEM_EVENT d \<Rightarrow> if dynamicType d = RT_SIMT_ENTRY then SimtEntryToSingle e d (dyn_memType d) else []
      | _ \<Rightarrow> [])"

text \<open>
  \<open>ConvertEventsToRecords\<close>: with the initialisation check the records are merged while they are
  produced, otherwise afterwards. The reserved capacity (\<open>GetRecordsNum\<close>) has no effect.
\<close>

definition ConvertEventsToRecords :: "bool \<Rightarrow> SanEvent list \<Rightarrow> MemOpRecord list \<Rightarrow> MemOpRecord list" where
  "ConvertEventsToRecords initCheck events records =
     (if initCheck then fold (\<lambda>e rs. fold sink_add (ConvertEventRecords e) rs) events (MergeRecords records)
      else MergeRecords (fold (\<lambda>e rs. rs @ ConvertEventRecords e) events records))"

section \<open>Streaming and batch merging agree\<close>

lemma sink_add_snoc:
  "sink_add r (rs @ [l]) = (if IsSameOp l r \<and> IsContinuousAddr l r then rs @ [grow l r] else rs @ [l, r])"
  by (simp add: sink_add_def)

text \<open>The loop keeps the merged records of a prefix in front of the ones that are still to be read.\<close>

lemma merge_loop_fold:
  "length kept = Suc lst \<Longrightarrow> lst < i \<Longrightarrow> i \<le> length rs \<Longrightarrow> take (Suc lst) rs = kept \<Longrightarrow>
     merge_loop lst i rs = fold sink_add (drop i rs) kept"
proof (induction lst i rs arbitrary: kept rule: merge_loop.induct)
  case (1 lst i rs)
  show ?case
  proof (cases "i < length rs")
    case False
    then show ?thesis using 1(3-6) by (subst merge_loop.simps) simp
  next
    case True
    obtain front where kept: "kept = front @ [rs ! lst]" "length front = lst"
      using 1(3-6) True by (metis Suc_lessD append_butlast_last_id length_butlast diff_Suc_1 last_conv_nth length_0_conv less_trans
          list.size(3) nat.distinct(1) nth_take lessI)
    have drop: "drop i rs = rs ! i # drop (Suc i) rs" by (rule Cons_nth_drop_Suc [symmetric]) (rule True)
    show ?thesis
    proof (cases "IsSameOp (rs ! lst) (rs ! i) \<and> IsContinuousAddr (rs ! lst) (rs ! i)")
      case same: True
      let ?rs = "rs[lst := grow (rs ! lst) (rs ! i)]"
      have "take (Suc lst) ?rs = front @ [grow (rs ! lst) (rs ! i)]"
        using 1(4-6) kept True by (simp add: take_update_swap) (simp add: list_update_append)
      then have "merge_loop lst (i + 1) ?rs = fold sink_add (drop (i + 1) ?rs) (front @ [grow (rs ! lst) (rs ! i)])"
        using 1(4) True kept same by (intro 1(1) [OF True same]) simp_all
      then show ?thesis using True same kept drop 1(4) by (subst merge_loop.simps) (simp add: sink_add_snoc)
    next
      case diff: False
      let ?rs = "rs[lst + 1 := rs ! i]"
      have "take (Suc (lst + 1)) ?rs = kept @ [rs ! i]"
        using 1(3-6) True by (simp add: take_Suc_conv_app_nth)
      then have "merge_loop (lst + 1) (i + 1) ?rs = fold sink_add (drop (i + 1) ?rs) (kept @ [rs ! i])"
        using 1(3,4) True diff by (intro 1(2) [OF True diff]) simp_all
      then show ?thesis using True diff kept drop 1(4) by (subst merge_loop.simps) (auto simp: sink_add_snoc)
    qed
  qed
qed

lemma MergeRecords_fold: "MergeRecords rs = fold sink_add rs []"
proof (cases rs)
  case (Cons r rest)
  then show ?thesis
    using merge_loop_fold [of "[r]" 0 1 rs] by (simp add: MergeRecords_def sink_add_def)
qed (simp add: MergeRecords_def)

lemma fold_append_concat: "fold (\<lambda>e rs. rs @ f e) es rs = rs @ concat (map f es)"
  by (induction es arbitrary: rs) simp_all

lemma fold_fold_concat: "fold (\<lambda>e rs. fold g (f e) rs) es rs = fold g (concat (map f es)) rs"
  by (induction es arbitrary: rs) simp_all

text \<open>
  C25. Merging the records while they are produced gives the same records as converting all events
  and merging in place afterwards: the conversion does not depend on the initialisation check.
\<close>
theorem streaming_merge_equals_batch_merge:
  "ConvertEventsToRecords True events records = ConvertEventsToRecords False events records"
  by (simp add: ConvertEventsToRecords_def MergeRecords_fold fold_append_concat fold_fold_concat)

section \<open>The bytes of the records\<close>

definition record_bytes :: "MemOpRecord list \<Rightarrow> nat set" where
  "record_bytes rs = (\<Union>r\<in>set rs. {mo_dstAddr r ..< mo_dstAddr r + mo_memSize r})"

lemma record_bytes_Nil [simp]: "record_bytes [] = {}"
  by (simp add: record_bytes_def)

lemma record_bytes_Cons [simp]: "record_bytes (r # rs) = {mo_dstAddr r ..< mo_dstAddr r + mo_memSize r} \<union> record_bytes rs"
  by (simp add: record_bytes_def)

lemma store_at_fields [simp]: "mo_dstAddr (store_at r a n) = unat a" "mo_memSize (store_at r a n) = unat n"
  by (simp_all add: store_at_def ProcessAndStoreMemOp_def)

lemma record_bytes_map: "record_bytes (map f xs) = (\<Union>x\<in>set xs. {mo_dstAddr (f x) ..< mo_dstAddr (f x) + mo_memSize (f x)})"
  by (simp add: record_bytes_def)

text \<open>Equally spaced intervals that touch or overlap are one interval.\<close>

lemma interval_union: "a \<le> q \<Longrightarrow> q \<le> p \<Longrightarrow> p \<le> r \<Longrightarrow> {a ..< p} \<union> {q ..< r} = {a ..< r :: nat}"
  by auto

lemma contiguous_intervals:
  fixes a q n :: nat
  assumes "q \<le> n" "0 < t"
  shows "(\<Union>i<t. {a + i * q ..< a + i * q + n}) = {a ..< a + (t - 1) * q + n}"
  using assms(2)
proof (induction t)
  case (Suc t)
  show ?case
  proof (cases "t = 0")
    case False
    then have "(\<Union>i<Suc t. {a + i * q ..< a + i * q + n}) = {a ..< a + (t - 1) * q + n} \<union> {a + t * q ..< a + t * q + n}"
      using Suc.IH by (auto simp: lessThan_Suc)
    also have "\<dots> = {a ..< a + t * q + n}"
    proof -
      have "t * q = (t - 1) * q + q" using False by (cases t) simp_all
      then show ?thesis using assms(1) by (intro interval_union) linarith+
    qed
    finally show ?thesis by simp
  qed (simp add: lessThan_Suc)
qed simp

lemma unat_of_small: "n < 2 ^ LENGTH('a) \<Longrightarrow> unat (of_nat n :: 'a :: len word) = n"
  by (simp add: unat_of_nat)

lemma unat64_lin:
  fixes a q :: u64
  assumes "unat a + i * unat q < 2 ^ 64"
  shows "unat (a + of_nat i * q) = unat a + i * unat q"
proof -
  have "a + of_nat i * q = of_nat (unat a + i * unat q)" by simp
  moreover have "unat (of_nat (unat a + i * unat q) :: u64) = unat a + i * unat q" by (rule unat_of_small) (use assms in simp)
  ultimately show ?thesis by (simp only:)
qed

lemma unat32_mult:
  fixes a b :: u32
  assumes "unat a * unat b < 2 ^ 32"
  shows "unat (a * b) = unat a * unat b"
proof -
  have "a * b = of_nat (unat a * unat b)" by simp
  moreover have "unat (of_nat (unat a * unat b) :: u32) = unat a * unat b" by (rule unat_of_small) (use assms in simp)
  ultimately show ?thesis by (simp only:)
qed

text \<open>
  The accesses whose records are exact: the blocks of a repeat are adjacent or on one place, or the
  blocks and repeats of the general branch, or repeats that fill the gap between two blocks only in
  part. The products of 32 bits do not wrap and there are at most \<open>0x7FFF\<close> repeats.
\<close>

definition convertible :: "MemOpInfo \<Rightarrow> bool" where
  "convertible m \<longleftrightarrow> op_regular m \<and> unat (blockSize m) * unat (blockNum m) < 2 ^ 32 \<and>
     unat (repeatTimes m) * unat (blockSize m) < 2 ^ 32 \<and> repeatTimes m \<le> 0x7FFF \<and>
     (blockStride m \<le> 1 \<or> repeatStride m = 1 \<and> repeatTimes m < blockStride m \<or> 1 < repeatStride m \<and> repeatStride m \<noteq> blockStride m)"

lemma op_end:
  assumes "op_regular m" "r < unat (repeatTimes m)" "k < unat (blockNum m)"
  shows "op_start m r k + unat (blockSize m) < 2 ^ 64"
proof -
  have "op_start m r k \<le> op_start m (unat (repeatTimes m) - 1) (unat (blockNum m) - 1)"
    unfolding op_start_def using assms(2,3) by (intro add_mono mult_right_mono) simp_all
  then show ?thesis using assms(1) by (simp add: op_regular_def)
qed

lemma regular_pos:
  assumes "op_regular m"
  shows "0 < unat (repeatTimes m)" "0 < unat (blockNum m)" "0 < unat (blockSize m)"
  using assms by (simp_all add: op_regular_def unat_gt_0)

lemma clamp_small: "n \<le> 0x7FFF \<Longrightarrow> clamp_repeat n = n"
  by (auto simp: clamp_repeat_def)

text \<open>A repeat whose blocks are adjacent, or all on one place, is one interval.\<close>

lemma single_repeat:
  assumes "op_regular m" "blockStride m \<le> 1"
  shows "(\<Union>k<unat (blockNum m). {op_start m r k ..< op_start m r k + unat (blockSize m)}) =
     {unat (addr m) + r * (unat (repeatStride m) * unat (blockSize m)) ..<
      unat (addr m) + r * (unat (repeatStride m) * unat (blockSize m)) +
        (if blockStride m = 1 then unat (blockSize m) * unat (blockNum m) else unat (blockSize m))}"
proof (cases "blockStride m = 1")
  case True
  let ?n = "unat (blockNum m)" and ?b = "unat (blockSize m)"
  have "(?n - 1) * ?b + ?b = ?b * ?n" using regular_pos(2) [OF assms(1)] by (cases ?n) (simp_all add: algebra_simps)
  then show ?thesis
    using True contiguous_intervals [of ?b ?b ?n "unat (addr m) + r * (unat (repeatStride m) * ?b)"] regular_pos(2) [OF assms(1)]
    by (simp add: op_start_def add.assoc)
next
  case False
  have "unat (blockStride m) \<le> 1" using assms(2) by (simp add: word_le_nat_alt)
  moreover have "unat (blockStride m) \<noteq> 1" using False by (metis unat_1 word_unat_eq_iff)
  ultimately have "unat (blockStride m) = 0" by simp
  then show ?thesis using False regular_pos(2) [OF assms(1)] by (auto simp: op_start_def)
qed

lemma Single_bytes:
  assumes "convertible m" "blockStride m \<le> 1"
  shows "record_bytes (ConvertSingleRecordRepeats m r) = op_bytes m"
proof -
  have reg: "op_regular m" using assms(1) by (simp add: convertible_def)
  let ?A = "unat (addr m)" and ?B = "unat (blockSize m)" and ?N = "unat (blockNum m)" and ?T = "unat (repeatTimes m)"
  let ?Q = "unat (repeatStride m) * ?B"
  define sz :: u64 where "sz = (if blockStride m = 1 then ucast (blockSize m * blockNum m) else ucast (blockSize m))"
  define q :: u64 where "q = ucast (repeatStride m * blockSize m)"
  note pos = regular_pos [OF reg]
  have q: "unat q = ?Q" using reg by (simp add: q_def op_regular_def unat32_mult)
  have sz: "unat sz = (if blockStride m = 1 then ?B * ?N else ?B)"
    using assms(1) by (simp add: sz_def convertible_def unat32_mult)
  have bytes: "op_bytes m = (\<Union>i<?T. {?A + i * ?Q ..< ?A + i * ?Q + unat sz})"
    unfolding op_bytes_def single_repeat [OF reg assms(2)] sz ..
  have fin: "?A + i * ?Q + unat sz < 2 ^ 64" if "i < ?T" for i
  proof -
    have "?A + i * ?Q + unat sz = op_start m i (?N - 1) + ?B"
    proof (cases "blockStride m = 1")
      case True
      have "?B * ?N = (?N - 1) * ?B + ?B" using pos(2) by (cases ?N) (simp_all add: algebra_simps)
      then show ?thesis using True by (simp add: sz op_start_def)
    next
      case False
      have "unat (blockStride m) \<le> 1" using assms(2) by (simp add: word_le_nat_alt)
      moreover have "unat (blockStride m) \<noteq> 1" using False by (metis unat_1 word_unat_eq_iff)
      ultimately show ?thesis using False by (simp add: sz op_start_def)
    qed
    then show ?thesis using op_end [OF reg that, of "?N - 1"] pos(2) by simp
  qed
  have conv: "ConvertSingleRecordRepeats m r = (if repeatStride m = 0 then [store_at r (addr m) sz]
      else if q \<le> sz then [store_at r (addr m) (q * ucast (repeatTimes m - 1) + sz)]
      else map (\<lambda>i. store_at r (addr m + of_nat i * q) sz) [0 ..< ?T])"
    using assms(1) by (simp add: ConvertSingleRecordRepeats_def sz_def q_def Let_def clamp_small convertible_def)
  show ?thesis
  proof (cases "repeatStride m = 0")
    case True
    then have "?Q = 0" by simp
    then show ?thesis using True pos(1) unfolding conv bytes by auto
  next
    case R: False
    show ?thesis
    proof (cases "q \<le> sz")
      case True
      have t: "unat (repeatTimes m - 1) = ?T - 1" using pos(1) by (metis unat_minus_one unat_gt_0)
      have "unat sz + (?T - 1) * unat q < 2 ^ 64" using fin [of "?T - 1"] pos(1) q by simp
      moreover have "(of_nat (?T - 1) :: u64) = ucast (repeatTimes m - 1)" unfolding t [symmetric] by simp
      ultimately have "unat (q * ucast (repeatTimes m - 1) + sz) = (?T - 1) * ?Q + unat sz"
        using unat64_lin [of sz "?T - 1" q] q by (simp add: ac_simps)
      moreover have "?Q \<le> unat sz" using True q by (simp add: word_le_nat_alt)
      ultimately show ?thesis using R True contiguous_intervals [of ?Q "unat sz" ?T ?A] pos(1) unfolding conv bytes
        by (simp add: add.assoc)
    next
      case False
      have "unat (addr m + of_nat i * q) = ?A + i * ?Q" if "i < ?T" for i
        using unat64_lin [of "addr m" i q] fin [OF that] q by simp
      then show ?thesis using R False unfolding conv bytes by (simp add: record_bytes_map atLeast0LessThan)
    qed
  qed
qed

lemma Multi_bytes:
  assumes "convertible m" "\<not> blockStride m \<le> 1"
  shows "record_bytes (ConvertMutiRecordRepeats m r) = op_bytes m"
proof -
  have reg: "op_regular m" using assms(1) by (simp add: convertible_def)
  let ?A = "unat (addr m)" and ?B = "unat (blockSize m)" and ?N = "unat (blockNum m)" and ?T = "unat (repeatTimes m)"
  let ?R = "unat (repeatStride m)" and ?S = "unat (blockStride m)"
  define bs :: u64 where "bs = ucast (blockSize m)"
  define stride :: u64 where "stride = ucast (blockStride m)"
  define rep :: u64 where "rep = ucast (repeatStride m)"
  have un: "unat bs = ?B" "unat stride = ?S" "unat rep = ?R" by (simp_all add: bs_def stride_def rep_def)
  note pos = regular_pos [OF reg]
  have start: "unat (addr m + of_nat i * bs * rep + of_nat b * stride * bs) = op_start m i b" if "i < ?T" "b < ?N" for i b
  proof -
    have "addr m + of_nat i * bs * rep + of_nat b * stride * bs = of_nat (op_start m i b)"
      unfolding op_start_def un [symmetric] by (simp add: ac_simps)
    moreover have "unat (of_nat (op_start m i b) :: u64) = op_start m i b"
      by (rule unat_of_small) (use op_end [OF reg that] in simp)
    ultimately show ?thesis by (simp only:)
  qed
  have "repeatStride m \<noteq> 0" "\<not> (repeatStride m = 1 \<and> repeatTimes m \<ge> blockStride m)"
    using assms by (auto simp: convertible_def)
  moreover have "repeatTimes m < blockStride m" if "repeatStride m = 1" using assms that by (auto simp: convertible_def)
  moreover have "repeatStride m \<noteq> blockStride m" if "repeatStride m \<noteq> 1" using assms that by (auto simp: convertible_def)
  moreover have "clamp_repeat (repeatTimes m) = repeatTimes m" using assms(1) by (simp add: convertible_def clamp_small)
  ultimately have conv: "ConvertMutiRecordRepeats m r =
     (if repeatStride m = 1 then map (\<lambda>b. store_at r (addr m + of_nat b * bs * stride) (ucast (repeatTimes m * blockSize m))) [0 ..< ?N]
      else concat (map (\<lambda>i. map (\<lambda>b. store_at r (addr m + of_nat i * bs * rep + of_nat b * stride * bs) bs) [0 ..< ?N]) [0 ..< ?T]))"
    unfolding ConvertMutiRecordRepeats_def bs_def stride_def rep_def Let_def by auto
  show ?thesis
  proof (cases "repeatStride m = 1")
    case True
    have sz: "unat (repeatTimes m * blockSize m) = ?T * ?B" using assms(1) by (simp add: convertible_def unat32_mult)
    have st: "unat (addr m + of_nat b * bs * stride) = ?A + b * (?S * ?B)" if "b < ?N" for b
      using start [OF pos(1) that] by (simp add: op_start_def ac_simps)
    have tb: "(?T - 1) * ?B + ?B = ?T * ?B" using pos(1) by (cases ?T) simp_all
    have "(\<Union>i<?T. {op_start m i b ..< op_start m i b + ?B}) = {?A + b * (?S * ?B) ..< ?A + b * (?S * ?B) + ?T * ?B}" for b
    proof -
      have os: "op_start m i b = ?A + b * (?S * ?B) + i * ?B" for i using True by (simp add: op_start_def)
      have "?A + b * (?S * ?B) + (?T - 1) * ?B + ?B = ?A + b * (?S * ?B) + ?T * ?B" using tb by linarith
      then show ?thesis unfolding os contiguous_intervals [OF order_refl pos(1)] by (simp only:)
    qed
    moreover have "op_bytes m = (\<Union>b<?N. \<Union>i<?T. {op_start m i b ..< op_start m i b + ?B})"
      unfolding op_bytes_def by (rule SUP_commute)
    ultimately show ?thesis using True st by (simp add: conv record_bytes_map sz atLeast0LessThan)
  next
    case False
    have "record_bytes (concat (map f xs)) = (\<Union>x\<in>set xs. record_bytes (f x))" for f and xs :: "nat list"
      by (auto simp: record_bytes_def)
    then show ?thesis using False start un(1) by (simp add: conv record_bytes_map op_bytes_def atLeast0LessThan)
  qed
qed

text \<open>
  C21. The records of a strided access cover exactly its bytes, in the regular cases: adjacent blocks
  (merged over the repeats where they touch), repeats that fill part of the gap between blocks, and
  the general pattern of blocks and repeats.
\<close>
theorem event_records_cover_access:
  assumes "convertible m"
  shows "record_bytes (ConvertMemEventRecords e m) = op_bytes m"
proof -
  have "repeatTimes m \<noteq> 0" using assms by (simp add: convertible_def op_regular_def)
  then show ?thesis using Single_bytes [OF assms] Multi_bytes [OF assms] by (simp add: ConvertMemEventRecords_def Let_def)
qed

definition strided_op :: "u32 \<Rightarrow> u32 \<Rightarrow> u32 \<Rightarrow> u32 \<Rightarrow> MemOpInfo" where
  "strided_op bn bstr rt rstr = (sample_op 0)\<lparr>blockNum := bn, blockStride := bstr, repeatTimes := rt, repeatStride := rstr\<rparr>"

definition sample_record_event :: "MemOpInfo \<Rightarrow> SanEvent" where
  "sample_record_event m = \<lparr>serialNo = 0, pipe = PIPE_V, eventInfo = MEM_EVENT m, timeInfo = None, loc = sample_loc 0 BT_AIVEC,
     isAtomicMode = False, recordType = 0, closedRingStartSerialNo = 0\<rparr>"

theorem event_records_cover_access_witness:
  "record_bytes (ConvertMemEventRecords (sample_record_event (strided_op 2 2 2 8)) (strided_op 2 2 2 8)) = op_bytes (strided_op 2 2 2 8)"
proof -
  have "convertible (strided_op 2 2 2 8)"
    by (simp add: convertible_def op_regular_def op_start_def strided_op_def sample_op_def)
  then show ?thesis by (rule event_records_cover_access)
qed

text \<open>
  Three special cases of the conversion lose bytes, which the memory check then never sees: with
  repeat stride 0 every block is recorded at the address of the first one; with repeat stride 1 and
  at least as many repeats as the block stride the length counts each block but the last as one block
  instead of a whole stride; with equal strides the number of distinct blocks is taken as the
  maximum of the block and repeat counts instead of their sum less one.
\<close>
theorem event_records_miss_bytes:
  "64 \<in> op_bytes (strided_op 2 2 1 0) - record_bytes (ConvertMemEventRecords e (strided_op 2 2 1 0)) \<and>
   160 \<in> op_bytes (strided_op 3 2 2 1) - record_bytes (ConvertMemEventRecords e (strided_op 3 2 2 1)) \<and>
   128 \<in> op_bytes (strided_op 2 2 2 2) - record_bytes (ConvertMemEventRecords e (strided_op 2 2 2 2))"
proof -
  have upt: "[0 ..< 2] = [0, 1 :: nat]" by (simp add: upt_rec)
  have two: "{..<2} = {0, 1 :: nat}" and three: "{..<3} = {0, 1, 2 :: nat}" by auto
  note defs = op_bytes_def op_start_def strided_op_def sample_op_def ConvertMemEventRecords_def ConvertMutiRecordRepeats_def Let_def
    word_le_nat_alt max_def two three upt lessThan_Suc
  have "64 \<in> op_bytes (strided_op 2 2 1 0) - record_bytes (ConvertMemEventRecords e (strided_op 2 2 1 0))"
    by (simp add: defs)
  moreover have "160 \<in> op_bytes (strided_op 3 2 2 1) - record_bytes (ConvertMemEventRecords e (strided_op 3 2 2 1))"
    by (simp add: defs)
  moreover have "128 \<in> op_bytes (strided_op 2 2 2 2) - record_bytes (ConvertMemEventRecords e (strided_op 2 2 2 2))"
    by (simp add: defs)
  ultimately show ?thesis by blast
qed

end
