(* ===== verification/ToolTypes.thy ===== *)
theory ToolTypes
  imports Events
begin

text \<open>
  What the sanitizers share: the configuration of the tool (\<open>csrc/core/framework/config.h\<close>), the
  summaries of a device and of a kernel, and the errors that the checks on the device report
  (\<open>csrc/core/framework/record_defs.h\<close>).
\<close>

section \<open>Configuration\<close>

datatype DemangleMode = FULL_DEMANGLED_NAME | SIMPLE_DEMANGLED_NAME | MANGLED_NAME

record Config =
  cfg_defaultCheck :: bool
  cfg_memCheck :: bool
  cfg_raceCheck :: bool
  cfg_initCheck :: bool
  cfg_syncCheck :: bool
  cfg_registerCheck :: bool
  cfg_checkDeviceHeap :: bool
  cfg_checkCannHeap :: bool
  cfg_leakCheck :: bool
  cfg_checkUnusedMemory :: bool
  cfg_checkCrossNpuRaces :: bool
  cfg_checkDcci :: bool
  cfg_isPrintFullStack :: bool
  cfg_outOfBoundCheck :: bool
  cfg_traceNonDefaultSprReg :: bool
  cfg_checkBlockId :: int
  cfg_cacheSize :: u32
  cfg_demangleMode :: DemangleMode
  cfg_pluginPath :: string
  cfg_kernelName :: string
  cfg_dumpPath :: string
  cfg_gmBufferGuardSize :: u32

text \<open>The value of \<open>Config{}\<close>.\<close>

definition Config_new :: Config where
  "Config_new = \<lparr>cfg_defaultCheck = False, cfg_memCheck = False, cfg_raceCheck = False, cfg_initCheck = False, cfg_syncCheck = False,
     cfg_registerCheck = False, cfg_checkDeviceHeap = False, cfg_checkCannHeap = False, cfg_leakCheck = False,
     cfg_checkUnusedMemory = False, cfg_checkCrossNpuRaces = False, cfg_checkDcci = False, cfg_isPrintFullStack = False,
     cfg_outOfBoundCheck = False, cfg_traceNonDefaultSprReg = False, cfg_checkBlockId = -1, cfg_cacheSize = 100,
     cfg_demangleMode = FULL_DEMANGLED_NAME, cfg_pluginPath = [], cfg_kernelName = [], cfg_dumpPath = [], cfg_gmBufferGuardSize = 32\<rparr>"

section \<open>Summaries\<close>

record DeviceInfoSummary =
  dis_device :: DeviceType
  dis_blockSize :: u32
  dis_blockNum :: u32
  dis_deviceId :: int

record KernelSummary =
  ks_pcStartAddr :: u64
  ks_blockDim :: nat
  ks_kernelType :: KernelType
  ks_isKernelWithDBI :: bool
  ks_hasDebugLine :: bool
  ks_kernelName :: string

definition MAX_BLOCKDIM_NUMS :: nat where
  "MAX_BLOCKDIM_NUMS = 100"

definition CHECK_ALL_BLOCK :: int where
  "CHECK_ALL_BLOCK = -1"

section \<open>Errors found on the device\<close>

text \<open>The type of an error with the member of the union that it selects; \<open>KE_UNKNOWN\<close> are the values from \<open>MAX\<close> on.\<close>

record KernelIllegalErrorDesc =
  ke_addr :: u64
  illegalSize :: u64

record KernelMisAlignErrorDesc =
  ma_addr :: u64
  misAlignSize :: u64

record KernelOverLapErrorDesc =
  ol_conflictedLocation :: Location
  ol_conflictedThreadLoc :: SimtThreadLocation
  ol_addr :: u64
  overLapSize :: u64

record KernelRaceErrorDesc =
  rc_conflictedLocation :: Location
  rc_conflictedThreadLoc :: SimtThreadLocation
  rc_addr :: u64

record KernelSyncErrorDesc =
  syncLocation :: Location
  syncThreadLoc :: SimtThreadLocation

datatype KernelErrorType =
    KE_ILLEGAL_ADDR_WRITE KernelIllegalErrorDesc | KE_ILLEGAL_ADDR_READ KernelIllegalErrorDesc
  | KE_MISALIGNED_ACCESS KernelMisAlignErrorDesc | KE_THREAD_OVERLAP KernelOverLapErrorDesc
  | KE_THREAD_RW_RACE KernelRaceErrorDesc | KE_THREAD_WR_RACE KernelRaceErrorDesc | KE_THREAD_WW_RACE KernelRaceErrorDesc
  | KE_THREADS_ASYNC_IN_BLOCK KernelSyncErrorDesc | KE_SYNC_THREADS_RECORD_LOSS | KE_UNKNOWN u8

record KernelErrorDesc =
  ked_location :: Location
  ked_threadLoc :: SimtThreadLocation
  ked_space :: AddressSpace
  errorType :: KernelErrorType
  l1StartAddr :: u64
  l2StartAddr :: u64
  l2MemStatusAddr :: u64

text \<open>\<open>None\<close> is the null pointer; otherwise the first \<open>errorNum\<close> descriptions.\<close>

record KernelErrorRecord =
  ker_recordType :: RecordType
  kernelErrorDesc :: "KernelErrorDesc list option"

end
