(* ===== verification/AsanAction.thy ===== *)
theory AsanAction
  imports ShadowMemory BoundsCheck MemRecords ToolTypes
begin

text \<open>
  The actions of the address sanitizer (\<open>csrc/address_sanitizer/asan_action.cpp\<close>) on the shadow memory
  and the legal ranges, with the address-space masks of the initialisation check
  (\<open>csrc/core/framework/initcheck_address_space.h\<close>, \<open>config.h\<close>). An action returns \<open>None\<close> only if a loop
  over the shadow memory does not end. The check of remote devices is a parameter of the loads and
  stores: \<open>PeerAccessManager::CheckRemote\<close> for the table of ranges that is in use.
\<close>

section \<open>Masks of address spaces\<close>

fun space_code :: "AddressSpace \<Rightarrow> int" where
  "space_code AS_PRIVATE = 0"
| "space_code AS_GM = 1"
| "space_code AS_L1 = 2"
| "space_code AS_L0A = 3"
| "space_code AS_L0B = 4"
| "space_code AS_L0C = 5"
| "space_code AS_UB = 6"
| "space_code AS_BT = 7"
| "space_code AS_FB = 8"
| "space_code AS_UNKNOWN = -1"

definition InitcheckAddressSpaceBit :: "AddressSpace \<Rightarrow> u32" where
  "InitcheckAddressSpaceBit sp =
     (if space_code sp \<ge> space_code AS_PRIVATE \<and> space_code sp \<le> space_code AS_FB then push_bit (nat (space_code sp)) 1 else 0)"

definition INITCHECK_ALL_ADDRESS_SPACES :: u32 where
  "INITCHECK_ALL_ADDRESS_SPACES = push_bit (nat (space_code AS_FB + 1)) 1 - 1"

datatype InitcheckFilterScope = SHARED_EVENTS | ADDRESS_SANITIZER_EVENTS | INITIALIZATION_CHECK


definition IsInitcheckAddressSpaceEnabled :: "u32 \<Rightarrow> AddressSpace \<Rightarrow> bool" where
  "IsInitcheckAddressSpaceEnabled spaces sp \<longleftrightarrow> spaces AND InitcheckAddressSpaceBit sp \<noteq> 0"

definition ShouldCollectInitcheckEvent :: "u32 \<Rightarrow> SanEvent \<Rightarrow> bool" where
  "ShouldCollectInitcheckEvent spaces e =
     (if spaces = INITCHECK_ALL_ADDRESS_SPACES then True
      else case eventInfo e of
        MEM_EVENT m \<Rightarrow> IsInitcheckAddressSpaceEnabled spaces (MemTypeToAddrSpace (memType m))
      | DYNAMIC_MEM_EVENT d \<Rightarrow>
          (if dynamicType d = RT_SIMT_ENTRY then IsInitcheckAddressSpaceEnabled spaces (MemTypeToAddrSpace (dyn_memType d)) else True)
      | _ \<Rightarrow> True)"

section \<open>Actions\<close>










definition swap_sides :: "MemOpRecord \<Rightarrow> MemOpRecord" where
  "swap_sides r = r\<lparr>mo_srcAddr := mo_dstAddr r, mo_dstAddr := mo_srcAddr r, mo_srcSpace := mo_dstSpace r, mo_dstSpace := mo_srcSpace r\<rparr>"




lemma swap_sides_twice [simp]: "swap_sides (swap_sides r) = r"
  by (simp add: swap_sides_def)

section \<open>Runtime blocks and the legal bytes of the global memory\<close>

















lemma shadow_ok_heap [simp]: "shadow_ok (s\<lparr>heapBlockManager := m\<rparr>) = shadow_ok s"
  by (simp add: shadow_ok_def)






section \<open>Checked accesses of the global memory\<close>

lemma default_permission [simp]: "HasPermission DEFAULT_PERMISSION t"
  by (cases t) (simp_all add: HasPermission_def DEFAULT_PERMISSION_def FLAGS_READ_def FLAGS_WRITE_def)












end
