(* ===== verification/PeerAccess.thy ===== *)
theory PeerAccess
  imports BoundsCheck
begin

text \<open>
  The access rights between devices (\<open>csrc/core/framework/peer_access_manager.h\<close> and
  \<open>peer_access_manager.cpp\<close>). A sanitizer object is its number; the two tables of ranges it owns are
  the pairs of that number and a flag, so that a pointer to a table identifies its owner. The
  manager's lock is held for each operation, which is therefore one step.
\<close>

section \<open>The manager\<close>

datatype PeerAccessOp = PEER_ENABLE | PEER_DISABLE | PEER_RESET

record PeerAccessRecord =
  pa_deviceId :: int
  pa_peerDeviceId :: int
  pa_operation :: PeerAccessOp

type_synonym san_id = nat
type_synonym table_id = "san_id \<times> bool"

record ProcessState =
  relations :: "int \<rightharpoonup> int set"
  devices :: "int \<rightharpoonup> san_id"

record PeerSource =
  src_pid :: int
  src_deviceId :: int
  src_sanitizer :: san_id

record PeerAccessManager =
  processes :: "int \<rightharpoonup> ProcessState"
  sources :: "table_id \<rightharpoonup> PeerSource"

definition Peer_new :: PeerAccessManager where
  "Peer_new = \<lparr>processes = Map.empty, sources = Map.empty\<rparr>"

text \<open>\<open>processes_[pid]\<close> creates an empty state for a new process.\<close>

definition process_of :: "int \<Rightarrow> PeerAccessManager \<Rightarrow> ProcessState" where
  "process_of pid m = (case processes m pid of None \<Rightarrow> \<lparr>relations = Map.empty, devices = Map.empty\<rparr> | Some p \<Rightarrow> p)"

definition put_process :: "int \<Rightarrow> ProcessState \<Rightarrow> PeerAccessManager \<Rightarrow> PeerAccessManager" where
  "put_process pid p m = m\<lparr>processes := (processes m)(pid \<mapsto> p)\<rparr>"

definition peers_of :: "int \<Rightarrow> ProcessState \<Rightarrow> int set" where
  "peers_of d p = (case relations p d of None \<Rightarrow> {} | Some s \<Rightarrow> s)"

definition Peer_Apply :: "int \<Rightarrow> PeerAccessRecord \<Rightarrow> PeerAccessManager \<Rightarrow> bool \<times> PeerAccessManager" where
  "Peer_Apply pid r m =
     (if pid < 0 \<or> pa_deviceId r < 0 then (False, m)
      else
        (let p = process_of pid m; m1 = put_process pid p m; d = pa_deviceId r; peer = pa_peerDeviceId r in
         case pa_operation r of
           PEER_RESET \<Rightarrow>
             (if peer \<noteq> -1 then (False, m1)
              else (True, put_process pid (p\<lparr>relations := (\<lambda>k. if k = d then None else map_option (\<lambda>s. s - {d}) (relations p k))\<rparr>) m1))
         | oper \<Rightarrow>
             (if peer < 0 \<or> peer = d then (False, m1)
              else if oper = PEER_ENABLE
              then (True, put_process pid (p\<lparr>relations := (relations p)(d \<mapsto> insert peer (peers_of d p))\<rparr>) m1)
              else (True, put_process pid (p\<lparr>relations := (relations p)(d \<mapsto> peers_of d p - {peer})\<rparr>) m1))))"

definition Peer_RegisterDevice :: "int \<Rightarrow> int \<Rightarrow> san_id \<Rightarrow> PeerAccessManager \<Rightarrow> PeerAccessManager" where
  "Peer_RegisterDevice pid d san m =
     (if pid < 0 \<or> d < 0 then m
      else
        (let p = process_of pid m; s = \<lparr>src_pid = pid, src_deviceId = d, src_sanitizer = san\<rparr>
         in (put_process pid (p\<lparr>devices := (devices p)(d \<mapsto> san)\<rparr>) m)\<lparr>sources := (sources m)((san, False) \<mapsto> s, (san, True) \<mapsto> s)\<rparr>))"

definition Peer_UnregisterDevice :: "san_id \<Rightarrow> PeerAccessManager \<Rightarrow> PeerAccessManager" where
  "Peer_UnregisterDevice san m =
     m\<lparr>processes := (\<lambda>pid. map_option (\<lambda>p. p\<lparr>devices := (\<lambda>d. if devices p d = Some san then None else devices p d)\<rparr>) (processes m pid)),
       sources := (\<lambda>t. case sources m t of Some s \<Rightarrow> if src_sanitizer s = san then None else Some s | None \<Rightarrow> None)\<rparr>"

text \<open>\<open>allows\<close> is \<open>CheckExistingGmRange\<close> of the sanitizer objects.\<close>

definition Peer_CheckRemote ::
  "(san_id \<Rightarrow> nat \<Rightarrow> nat \<Rightarrow> AccessType \<Rightarrow> bool) \<Rightarrow> table_id \<Rightarrow> nat \<Rightarrow> nat \<Rightarrow> AccessType \<Rightarrow> PeerAccessManager \<Rightarrow> bool" where
  "Peer_CheckRemote allows t a len acc m =
     (if len = 0 \<or> a > 2 ^ 64 - 1 - len then False
      else
        (case sources m t of
           None \<Rightarrow> False
         | Some s \<Rightarrow>
             (case processes m (src_pid s) of
                None \<Rightarrow> False
              | Some p \<Rightarrow>
                  (case relations p (src_deviceId s) of
                     None \<Rightarrow> False
                   | Some peers \<Rightarrow> \<exists>peer\<in>peers. \<exists>san. devices p peer = Some san \<and> allows san a len acc))))"

definition Peer_Clear :: "PeerAccessManager \<Rightarrow> PeerAccessManager" where
  "Peer_Clear m = m\<lparr>processes := Map.empty, sources := Map.empty\<rparr>"

section \<open>The rights along a run\<close>

text \<open>The record turns the right of \<open>d\<close> to access \<open>p\<close> on, or takes it away.\<close>

definition grants :: "int \<Rightarrow> int \<Rightarrow> PeerAccessRecord \<Rightarrow> bool" where
  "grants d p r \<longleftrightarrow> pa_operation r = PEER_ENABLE \<and> pa_deviceId r = d \<and> pa_peerDeviceId r = p \<and> 0 \<le> d \<and> 0 \<le> p \<and> d \<noteq> p"

definition revokes :: "int \<Rightarrow> int \<Rightarrow> PeerAccessRecord \<Rightarrow> bool" where
  "revokes d p r \<longleftrightarrow> pa_operation r = PEER_DISABLE \<and> pa_deviceId r = d \<and> pa_peerDeviceId r = p \<and> d \<noteq> p \<or>
     pa_operation r = PEER_RESET \<and> pa_peerDeviceId r = -1 \<and> (pa_deviceId r = d \<or> pa_deviceId r = p)"

definition granted :: "int \<Rightarrow> int \<Rightarrow> PeerAccessRecord list \<Rightarrow> bool" where
  "granted d p rs \<longleftrightarrow> (\<exists>xs r ys. rs = xs @ r # ys \<and> grants d p r \<and> (\<forall>y\<in>set ys. \<not> revokes d p y))"

lemma granted_snoc: "granted d p (rs @ [x]) \<longleftrightarrow> grants d p x \<or> granted d p rs \<and> \<not> revokes d p x"
proof
  assume "granted d p (rs @ [x])"
  then obtain xs r ys where h: "rs @ [x] = xs @ r # ys" "grants d p r" "\<forall>y\<in>set ys. \<not> revokes d p y" unfolding granted_def by blast
  show "grants d p x \<or> granted d p rs \<and> \<not> revokes d p x"
  proof (cases ys rule: rev_cases)
    case (snoc zs z)
    then have "rs = xs @ r # zs" "z = x" using h(1) by simp_all
    then show ?thesis using h snoc unfolding granted_def by auto
  qed (use h in simp)
next
  assume "grants d p x \<or> granted d p rs \<and> \<not> revokes d p x"
  then show "granted d p (rs @ [x])"
  proof
    assume "grants d p x"
    then show ?thesis unfolding granted_def by (intro exI [of _ rs] exI [of _ x] exI [of _ "[]"]) simp
  next
    assume g: "granted d p rs \<and> \<not> revokes d p x"
    then obtain xs r ys where "rs = xs @ r # ys" "grants d p r" "\<forall>y\<in>set ys. \<not> revokes d p y" unfolding granted_def by blast
    then show ?thesis using g unfolding granted_def by (intro exI [of _ xs] exI [of _ r] exI [of _ "ys @ [x]"]) auto
  qed
qed

lemma process_of_put [simp]: "process_of pid (put_process pid' p m) = (if pid = pid' then p else process_of pid m)"
  by (simp add: process_of_def put_process_def)

lemma Apply_peers:
  assumes "0 \<le> pid" "0 \<le> d" "0 \<le> p"
  shows "p \<in> peers_of d (process_of pid (snd (Peer_Apply pid r m))) \<longleftrightarrow>
     grants d p r \<or> p \<in> peers_of d (process_of pid m) \<and> \<not> revokes d p r"
  using assms
  by (cases "pa_operation r")
     (auto simp: Peer_Apply_def Let_def grants_def revokes_def peers_of_def split: option.splits)

definition apply_all :: "int \<Rightarrow> PeerAccessRecord list \<Rightarrow> PeerAccessManager \<Rightarrow> PeerAccessManager" where
  "apply_all pid rs = fold (\<lambda>r m. snd (Peer_Apply pid r m)) rs"

lemma apply_all_snoc: "apply_all pid (rs @ [x]) m = snd (Peer_Apply pid x (apply_all pid rs m))"
  by (simp add: apply_all_def)

lemma apply_all_peers:
  assumes "0 \<le> pid" "0 \<le> d" "0 \<le> p" "peers_of d (process_of pid m) = {}"
  shows "p \<in> peers_of d (process_of pid (apply_all pid rs m)) \<longleftrightarrow> granted d p rs"
proof (induction rs rule: rev_induct)
  case Nil
  show ?case using assms(4) by (simp add: apply_all_def granted_def)
next
  case (snoc x rs)
  then show ?case unfolding apply_all_snoc Apply_peers [OF assms(1-3)] granted_snoc by simp
qed

lemma Apply_frame:
  "sources (snd (Peer_Apply pid r m)) = sources m" "devices (process_of q (snd (Peer_Apply pid r m))) = devices (process_of q m)"
  "processes m q \<noteq> None \<Longrightarrow> processes (snd (Peer_Apply pid r m)) q \<noteq> None"
  by (auto simp: Peer_Apply_def Let_def split: PeerAccessOp.split) (auto simp: put_process_def)

lemma apply_all_frame:
  "sources (apply_all pid rs m) = sources m" "devices (process_of q (apply_all pid rs m)) = devices (process_of q m)"
  "processes m q \<noteq> None \<Longrightarrow> processes (apply_all pid rs m) q \<noteq> None"
proof -
  have "sources (apply_all pid rs m) = sources m \<and> devices (process_of q (apply_all pid rs m)) = devices (process_of q m) \<and>
      (processes m q \<noteq> None \<longrightarrow> processes (apply_all pid rs m) q \<noteq> None)"
  proof (induction rs rule: rev_induct)
    case (snoc x rs)
    then show ?case unfolding apply_all_snoc using Apply_frame [where r = x and m = "apply_all pid rs m"] by metis
  qed (simp add: apply_all_def)
  then show "sources (apply_all pid rs m) = sources m" "devices (process_of q (apply_all pid rs m)) = devices (process_of q m)"
    "processes m q \<noteq> None \<Longrightarrow> processes (apply_all pid rs m) q \<noteq> None" by blast+
qed

definition register_all :: "int \<Rightarrow> (int \<times> san_id) list \<Rightarrow> PeerAccessManager \<Rightarrow> PeerAccessManager" where
  "register_all pid regs = fold (\<lambda>(d, s). Peer_RegisterDevice pid d s) regs"

lemma register_all_spec:
  assumes "0 \<le> pid" "\<forall>(d, s)\<in>set regs. 0 \<le> d" "distinct (map fst regs)" "distinct (map snd regs)"
  defines "m \<equiv> register_all pid regs Peer_new"
  shows "devices (process_of pid m) d = map_of regs d" "peers_of d (process_of pid m) = {}"
    "(d, s) \<in> set regs \<Longrightarrow> (\<exists>src. sources m (s, flag) = Some src \<and> src_pid src = pid \<and> src_deviceId src = d) \<and> processes m pid \<noteq> None"
proof -
  have "(\<forall>d. devices (process_of pid m) d = map_of regs d) \<and> (\<forall>d. peers_of d (process_of pid m) = {}) \<and>
      (\<forall>d s flag. (d, s) \<in> set regs \<longrightarrow> (\<exists>src. sources m (s, flag) = Some src \<and> src_pid src = pid \<and> src_deviceId src = d) \<and> processes m pid \<noteq> None)"
    unfolding m_def using assms(2-4)
  proof (induction regs rule: rev_induct)
    case Nil
    show ?case by (simp add: register_all_def Peer_new_def process_of_def peers_of_def)
  next
    case (snoc x regs)
    obtain d s where x: "x = (d, s)" by fastforce
    let ?m = "register_all pid regs Peer_new"
    have IH: "\<forall>d. devices (process_of pid ?m) d = map_of regs d" "\<forall>d. peers_of d (process_of pid ?m) = {}"
        "\<forall>d s flag. (d, s) \<in> set regs \<longrightarrow> (\<exists>src. sources ?m (s, flag) = Some src \<and> src_pid src = pid \<and> src_deviceId src = d) \<and> processes ?m pid \<noteq> None"
      using snoc by auto
    have new: "d \<notin> fst ` set regs" "s \<notin> snd ` set regs" using snoc.prems(2,3) x by auto
    have step: "register_all pid (regs @ [x]) Peer_new = Peer_RegisterDevice pid d s ?m" by (simp add: register_all_def x)
    have pr: "process_of pid (Peer_RegisterDevice pid d s ?m) = (process_of pid ?m)\<lparr>devices := (devices (process_of pid ?m))(d \<mapsto> s)\<rparr>"
      using assms(1) snoc.prems(1) x by (simp add: Peer_RegisterDevice_def Let_def process_of_def put_process_def)
    have "map_of (regs @ [x]) k = ((map_of regs)(d \<mapsto> s)) k" for k
      using new(1) by (auto simp: x map_add_def split: option.split) (metis image_eqI map_of_SomeD fst_conv)
    moreover have "peers_of k ((process_of pid ?m)\<lparr>devices := v\<rparr>) = peers_of k (process_of pid ?m)" for k v by (simp add: peers_of_def)
    moreover have "(\<exists>src. sources (Peer_RegisterDevice pid d s ?m) (s', flag) = Some src \<and> src_pid src = pid \<and> src_deviceId src = d') \<and>
        processes (Peer_RegisterDevice pid d s ?m) pid \<noteq> None" if "(d', s') \<in> set (regs @ [x])" for d' s' flag
    proof -
      have "s' = s \<longleftrightarrow> (d', s') = x" using that new(2) x by force
      then show ?thesis using that IH(3) assms(1) snoc.prems(1) x
        by (cases flag) (auto simp: Peer_RegisterDevice_def Let_def put_process_def)
    qed
    ultimately show ?case unfolding step pr using IH(1,2) by simp
  qed
  then show "devices (process_of pid m) d = map_of regs d" "peers_of d (process_of pid m) = {}"
    "(d, s) \<in> set regs \<Longrightarrow> (\<exists>src. sources m (s, flag) = Some src \<and> src_pid src = pid \<and> src_deviceId src = d) \<and> processes m pid \<noteq> None"
    by blast+
qed

text \<open>
  C33. A remote access is accepted exactly when some single device that the accessing device has been
  granted access to, and not been revoked since, is registered and allows the whole range; a reset
  of either device takes the right away, and rights are directed.
\<close>
theorem remote_check_exact:
  assumes "0 \<le> pid" "\<forall>(d, s)\<in>set regs. 0 \<le> d" "distinct (map fst regs)" "distinct (map snd regs)"
    and "(d, s) \<in> set regs" "0 < len" "a + len < 2 ^ 64"
  shows "Peer_CheckRemote allows (s, flag) a len acc (apply_all pid rs (register_all pid regs Peer_new)) \<longleftrightarrow>
     (\<exists>(p, s')\<in>set regs. granted d p rs \<and> allows s' a len acc)"
proof -
  let ?base = "register_all pid regs Peer_new"
  let ?m = "apply_all pid rs ?base"
  note reg = register_all_spec [OF assms(1-4)]
  obtain src where src: "sources ?m (s, flag) = Some src" "src_pid src = pid" "src_deviceId src = d" and pn: "processes ?base pid \<noteq> None"
    using reg(3) [OF assms(5)] apply_all_frame(1) by metis
  have "processes ?m pid \<noteq> None" by (rule apply_all_frame(3) [OF pn])
  then obtain p where p: "processes ?m pid = Some p" by blast
  then have po: "process_of pid ?m = p" by (simp add: process_of_def)
  have d0: "0 \<le> d" using assms(2,5) by auto
  have dev: "devices p q = map_of regs q" for q using apply_all_frame(2) [of pid pid rs ?base] reg(1) po by simp
  have "Peer_CheckRemote allows (s, flag) a len acc ?m \<longleftrightarrow> (\<exists>peer\<in>peers_of d p. \<exists>san. devices p peer = Some san \<and> allows san a len acc)"
    using src p assms(6,7) by (auto simp: Peer_CheckRemote_def peers_of_def split: option.splits)
  also have "\<dots> \<longleftrightarrow> (\<exists>peer san. (peer, san) \<in> set regs \<and> peer \<in> peers_of d p \<and> allows san a len acc)"
    using dev assms(3) by (metis map_of_eq_Some_iff)
  also have "\<dots> \<longleftrightarrow> (\<exists>peer san. (peer, san) \<in> set regs \<and> granted d peer rs \<and> allows san a len acc)"
  proof -
    have "peer \<in> peers_of d p \<longleftrightarrow> granted d peer rs" if "(peer, san) \<in> set regs" for peer san
      using apply_all_peers [OF assms(1) d0 _ reg(2), of peer rs] that assms(2) po by auto
    then show ?thesis by blast
  qed
  also have "\<dots> \<longleftrightarrow> (\<exists>(p, s')\<in>set regs. granted d p rs \<and> allows s' a len acc)" by auto
  finally show ?thesis .
qed

definition peer_record :: "PeerAccessOp \<Rightarrow> int \<Rightarrow> int \<Rightarrow> PeerAccessRecord" where
  "peer_record oper d p = \<lparr>pa_deviceId = d, pa_peerDeviceId = p, pa_operation = oper\<rparr>"

theorem remote_check_exact_witness:
  "\<not> Peer_CheckRemote (\<lambda>_ _ _ _. True) (7, False) 16 8 READ
     (apply_all 1 [peer_record PEER_ENABLE 0 1, peer_record PEER_RESET 1 (-1)] (register_all 1 [(0, 7), (1, 9)] Peer_new))"
proof -
  have "\<not> granted 0 1 [peer_record PEER_ENABLE 0 1, peer_record PEER_RESET 1 (-1)]"
    using granted_snoc [of 0 1 "[peer_record PEER_ENABLE 0 1]" "peer_record PEER_RESET 1 (-1)"]
    by (simp add: grants_def revokes_def peer_record_def)
  moreover have "\<not> granted 0 0 [peer_record PEER_ENABLE 0 1, peer_record PEER_RESET 1 (-1)]"
    by (auto simp: granted_def grants_def)
  ultimately show ?thesis
    using remote_check_exact [of 1 "[(0, 7), (1, 9)]" 0 7 8 16 "\<lambda>_ _ _ _. True" False READ
        "[peer_record PEER_ENABLE 0 1, peer_record PEER_RESET 1 (-1)]"] by simp
qed

end
