(* ===== verification/SyncSanitizer.thy ===== *)
theory SyncSanitizer
  imports Replayer RaceUnits ToolTypes OrderedMap
begin

text \<open>
  The synchronisation sanitizer (\<open>csrc/sync_sanitizer/sync_sanitizer.cpp\<close>): the match check pairs the
  set_flag and wait_flag instructions of every core, the redundancy check compares each of them with
  the instruction before it on its pipe, and the stuck check replays the kernel. The messages are a
  log in the state; their text and the call stacks are not modelled. \<open>junk\<close> is what the bytes of the
  event union hold as a memory access, which the base event of a message copies for events of other
  kinds.
\<close>

unbundle bit_operations_syntax

section \<open>State\<close>

record SyncDispInfo =
  sd_baseEvent :: ErrorEvent
  sd_srcPipe :: PipeType
  sd_dstPipe :: PipeType
  sd_eventId :: u32
  sd_opType :: SyncType
  sd_checkType :: SyncCheckType

definition SyncDispInfo_eq :: "SyncDispInfo \<Rightarrow> SyncDispInfo \<Rightarrow> bool" where
  "SyncDispInfo_eq a b \<longleftrightarrow> ee_coreId (sd_baseEvent a) = ee_coreId (sd_baseEvent b) \<and>
     ee_blockType (sd_baseEvent a) = ee_blockType (sd_baseEvent b) \<and> sd_srcPipe a = sd_srcPipe b \<and> sd_dstPipe a = sd_dstPipe b \<and>
     sd_eventId a = sd_eventId b \<and> sd_opType a = sd_opType b \<and> sd_checkType a = sd_checkType b"

definition ErrorEvent_zero :: ErrorEvent where
  "ErrorEvent_zero = \<lparr>ee_serialNo = 0, ee_deviceId = 0, ee_kernelIdx = 0, ee_coreId = 0, ee_addr = 0, ee_fileNo = 0, ee_lineNo = 0,
     ee_pc = 0, ee_accessType = 0, ee_memType = 0, ee_pipeType = 0, ee_blockType = BT_AIVEC,
     ee_threadLoc = SimtThreadLocation 0 0 0 0, isSimt = False\<rparr>"

text \<open>The value of \<open>SyncDispInfo{}\<close>, which \<open>operator[]\<close> puts in an empty slot.\<close>

definition SyncDispInfo_zero :: SyncDispInfo where
  "SyncDispInfo_zero = \<lparr>sd_baseEvent = ErrorEvent_zero, sd_srcPipe = PIPE_S, sd_dstPipe = PIPE_S, sd_eventId = 0,
     sd_opType = SET_FLAG, sd_checkType = MATCH_CHECK\<rparr>"

text \<open>An event a queue is stuck at, with the name of its instruction.\<close>

type_synonym stuck = "ErrorEvent \<times> string"

datatype SyncReport = UNPAIRED SyncDispInfo | REDUNDANT SyncDispInfo | DIVERGENT ErrorEvent | STUCK "stuck list"

record SyncSanitizer =
  sy_kernelType :: KernelType
  sy_deviceType :: DeviceType
  pipelineReplayer :: PipelineReplayer
  replayerEvents :: EventContainer
  sy_checkBlockId :: int
  syncEvents :: "SyncDispInfo list omap"
  pipeRedundancyEvents :: "PipeType \<rightharpoonup> SyncDispInfo"
  redundancyInfo :: "SyncDispInfo list"
  syncThreadsInfo :: "ErrorEvent list"
  stuckEvents :: "stuck list"
  sy_isFinished :: bool
  sy_reports :: "SyncReport list"

section \<open>Initialisation\<close>

fun SyncTypeToStr :: "SyncType \<Rightarrow> string" where
  "SyncTypeToStr SET_FLAG = ''SET_FLAG''"
| "SyncTypeToStr WAIT_FLAG = ''WAIT_FLAG''"
| "SyncTypeToStr PIPE_BARRIER = ''PIPE_BARRIER''"
| "SyncTypeToStr FFTS_SYNC = ''FFTS_SYNC''"
| "SyncTypeToStr WAIT_FLAG_DEV = ''WAIT_FLAG_DEV''"
| "SyncTypeToStr IB_SET = ''IB_SET''"
| "SyncTypeToStr IB_WAIT = ''IB_WAIT''"
| "SyncTypeToStr SYNC_ALL = ''SYNC_ALL''"
| "SyncTypeToStr MSTX_SET_CROSS = ''MSTX_SET_CROSS''"
| "SyncTypeToStr MSTX_WAIT_CROSS = ''MSTX_WAIT_CROSS''"
| "SyncTypeToStr GET_BUF = ''GET_BUF''"
| "SyncTypeToStr RLS_BUF = ''RLS_BUF''"
| "SyncTypeToStr WAIT_INTRA_BLOCK = ''WAIT_INTRA_BLOCK''"
| "SyncTypeToStr HSET_FLAG = ''HSET_FLAG''"
| "SyncTypeToStr HWAIT_FLAG = ''HWAIT_FLAG''"
| "SyncTypeToStr _ = ''UNKNOWN_SYNC_TYPE''"

text \<open>The name is cut to the 39 characters the field holds; all of them are shorter.\<close>

definition FillStuckInstructName :: "SanEvent \<Rightarrow> string" where
  "FillStuckInstructName e = take 39
     (case eventInfo e of
        SYNC_EVENT i \<Rightarrow> SyncTypeToStr (sync_opType i)
      | CROSS_CORE_SYNC_EVENT i \<Rightarrow> SyncTypeToStr (ffts_opType i)
      | CROSS_CORE_SOFT_SYNC_EVENT i \<Rightarrow> SyncTypeToStr (soft_opType i)
      | MSTX_CROSS_SYNC_EVENT i \<Rightarrow> SyncTypeToStr (cross_opType i)
      | BUF_SYNC_EVENT i \<Rightarrow> SyncTypeToStr (buf_opType i)
      | H_SYNC_EVENT i \<Rightarrow> SyncTypeToStr (h_opType i)
      | MSTX_CROSS_CORE_BARRIER _ \<Rightarrow> ''MSTX_CROSS_CORE_BARRIER''
      | MSTX_CROSS_NPU_BARRIER _ \<Rightarrow> ''MSTX_CROSS_NPU_BARRIER''
      | _ \<Rightarrow> ''UNKNOWN'')"

definition Sync_SetDeviceInfo :: "DeviceInfoSummary \<Rightarrow> Config \<Rightarrow> SyncSanitizer \<Rightarrow> bool \<times> SyncSanitizer" where
  "Sync_SetDeviceInfo d cfg s = (False, s\<lparr>sy_checkBlockId := cfg_checkBlockId cfg, sy_deviceType := dis_device d\<rparr>)"

definition Sync_Init :: "KernelSummary \<Rightarrow> SyncSanitizer \<Rightarrow> SyncSanitizer" where
  "Sync_Init k s =
     (case Replayer_Init (ks_kernelType k) (sy_deviceType s) (ks_blockDim k) (pipelineReplayer s) of
        (r, c) \<Rightarrow> s\<lparr>syncEvents := [], pipeRedundancyEvents := Map.empty, redundancyInfo := [], stuckEvents := [], sy_isFinished := False,
           pipelineReplayer := Replayer_RegisterCallback r, replayerEvents := c\<rparr>)"

definition Sync_SetKernelInfo :: "KernelSummary \<Rightarrow> SyncSanitizer \<Rightarrow> bool \<times> SyncSanitizer" where
  "Sync_SetKernelInfo k s =
     (ks_kernelType k \<noteq> KT_AICPU \<and> ks_blockDim k < MAX_BLOCKDIM_NUMS, Sync_Init k (s\<lparr>sy_kernelType := ks_kernelType k\<rparr>))"

text \<open>\<open>blockId\<close> is unsigned and \<open>checkBlockId\<close> is converted to an unsigned 32-bit number.\<close>

definition Sync_IsTargetBlockId :: "nat \<Rightarrow> SyncSanitizer \<Rightarrow> bool" where
  "Sync_IsTargetBlockId blockId s \<longleftrightarrow> sy_checkBlockId s = CHECK_ALL_BLOCK \<or> int blockId = sy_checkBlockId s mod 2 ^ 32"

section \<open>Match check\<close>

primrec block_type_code :: "BlockType \<Rightarrow> nat" where
  "block_type_code BT_AIVEC = 0"
| "block_type_code BT_AICUBE = 1"
| "block_type_code BT_AICORE = 2"

definition sync_key :: "nat \<Rightarrow> BlockType \<Rightarrow> PipeType \<Rightarrow> PipeType \<Rightarrow> u32 \<Rightarrow> u64" where
  "sync_key core bt src dst ev =
     push_bit 20 (of_nat core AND 0xFFFF) OR push_bit 16 (of_nat (block_type_code bt) AND 0xF) OR
     push_bit 12 (of_nat (pipe_code src) AND 0xF) OR push_bit 8 (of_nat (pipe_code dst) AND 0xF) OR push_bit 4 (ucast ev AND 0xF)"

definition CalcSetFlagSyncID :: "SanEvent \<Rightarrow> SyncOpInfo \<Rightarrow> u64" where
  "CalcSetFlagSyncID e i = sync_key (coreId (loc e)) (blockType (loc e)) (srcPipe i) (dstPipe i) (eventId i)"

definition CalcWaitFlagSyncID :: "SanEvent \<Rightarrow> SyncOpInfo \<Rightarrow> u64" where
  "CalcWaitFlagSyncID e i = CalcSetFlagSyncID e i + 1"

definition disp_info :: "(SanEvent \<Rightarrow> MemOpInfo) \<Rightarrow> SyncCheckType \<Rightarrow> SanEvent \<Rightarrow> SyncOpInfo \<Rightarrow> SyncDispInfo" where
  "disp_info junk t e i = \<lparr>sd_baseEvent = ErrorEvent_Init (MemEvent_new (junk e) e) 0, sd_srcPipe = srcPipe i, sd_dstPipe = dstPipe i,
     sd_eventId = eventId i, sd_opType = sync_opType i, sd_checkType = t\<rparr>"

definition match_sync :: "nat \<Rightarrow> nat \<Rightarrow> SyncDispInfo \<Rightarrow> SyncDispInfo list omap \<Rightarrow> SyncDispInfo list omap" where
  "match_sync self peer info m =
     (case map_of m peer of
        Some xs \<Rightarrow> (if length xs > 1 then oput peer (butlast xs) m else oerase peer m)
      | None \<Rightarrow> oput self ((case map_of m self of None \<Rightarrow> [] | Some xs \<Rightarrow> xs) @ [info]) m)"

definition DoMatchCheck :: "(SanEvent \<Rightarrow> MemOpInfo) \<Rightarrow> SanEvent \<Rightarrow> SyncSanitizer \<Rightarrow> SyncSanitizer" where
  "DoMatchCheck junk e s =
     (case eventInfo e of
        SYNC_EVENT i \<Rightarrow>
          (let setID = unat (CalcSetFlagSyncID e i); waitID = unat (CalcWaitFlagSyncID e i); info = disp_info junk MATCH_CHECK e i in
           if sync_opType i = SET_FLAG then s\<lparr>syncEvents := match_sync setID waitID info (syncEvents s)\<rparr>
           else if sync_opType i = WAIT_FLAG then s\<lparr>syncEvents := match_sync waitID setID info (syncEvents s)\<rparr>
           else s)
      | _ \<Rightarrow> s)"

section \<open>Redundancy check\<close>

definition getPipeTypeFromSanEvent :: "SanEvent \<Rightarrow> PipeType" where
  "getPipeTypeFromSanEvent e =
     (case eventInfo e of
        MEM_EVENT _ \<Rightarrow> pipe e
      | TIME_EVENT \<Rightarrow> pipe e
      | SYNC_EVENT i \<Rightarrow> (if sync_opType i = RLS_BUF then PIPE_SIZE else if sync_opType i = WAIT_FLAG then dstPipe i else srcPipe i)
      | CROSS_CORE_SYNC_EVENT i \<Rightarrow> ffts_dstPipe i
      | CROSS_CORE_SOFT_SYNC_EVENT _ \<Rightarrow> PIPE_S
      | MSTX_CROSS_SYNC_EVENT i \<Rightarrow> cross_pipe i
      | _ \<Rightarrow> PIPE_SIZE)"

definition DoRedundancyCheck :: "(SanEvent \<Rightarrow> MemOpInfo) \<Rightarrow> SanEvent \<Rightarrow> SyncSanitizer \<Rightarrow> SyncSanitizer" where
  "DoRedundancyCheck junk e s =
     (let p = getPipeTypeFromSanEvent e in
      if p = PIPE_SIZE then s
      else case eventInfo e of
        SYNC_EVENT i \<Rightarrow>
          (if isGenerated i then s
           else
             (let info = disp_info junk REDUMTAMCY_CHECK e i;
                  prev = (case pipeRedundancyEvents s p of None \<Rightarrow> SyncDispInfo_zero | Some x \<Rightarrow> x) in
              if sync_opType i = PIPE_BARRIER then s
              else if (sync_opType i = SET_FLAG \<or> sync_opType i = WAIT_FLAG) \<and> SyncDispInfo_eq info prev
              then s\<lparr>redundancyInfo := redundancyInfo s @ [prev, info], pipeRedundancyEvents := (pipeRedundancyEvents s)(p \<mapsto> info)\<rparr>
              else s\<lparr>pipeRedundancyEvents := (pipeRedundancyEvents s)(p \<mapsto> info)\<rparr>))
      | _ \<Rightarrow> s\<lparr>pipeRedundancyEvents := (pipeRedundancyEvents s)(p := None)\<rparr>)"

section \<open>Stuck check\<close>

definition sync_report :: "SyncReport list \<Rightarrow> SyncSanitizer \<Rightarrow> SyncSanitizer" where
  "sync_report rs s = s\<lparr>sy_reports := sy_reports s @ rs\<rparr>"

definition stuck_callback :: "(SanEvent \<Rightarrow> MemOpInfo) \<Rightarrow> ReplayerCallbackType \<times> SanEvent \<Rightarrow> stuck list" where
  "stuck_callback junk = (\<lambda>(t, e).
     if t = ALL_DEVICE_STUCK \<and> \<not> (case eventInfo e of SYNC_EVENT i \<Rightarrow> isGenerated i | _ \<Rightarrow> False)
     then [(ErrorEvent_Init (MemEvent_new (junk e) e) 0, FillStuckInstructName e)] else [])"

text \<open>
  The callback only appends to \<open>stuckEvents\<close>, so the calls of one \<open>Do\<close> are processed after it: they are
  the new entries of the replayer's log.
\<close>

definition DoStuckCheck :: "(SanEvent \<Rightarrow> MemOpInfo) \<Rightarrow> SanEvent \<Rightarrow> SyncSanitizer \<Rightarrow> SyncSanitizer option" where
  "DoStuckCheck junk e s =
     (case Replayer_Do e (pipelineReplayer s, replayerEvents s) of
        None \<Rightarrow> None
      | Some (r, c) \<Rightarrow>
          (let calls = drop (length (called (pipelineReplayer s))) (called r);
               stuck = stuckEvents s @ concat (map (stuck_callback junk) calls);
               s1 = s\<lparr>pipelineReplayer := r, replayerEvents := c, stuckEvents := stuck\<rparr>
           in Some (if rp_isFinished r \<and> stuck \<noteq> [] then sync_report [STUCK stuck] s1 else s1)))"

section \<open>Events and errors of the device\<close>

definition ReportUnpairedInfo :: "SyncSanitizer \<Rightarrow> SyncSanitizer" where
  "ReportUnpairedInfo s = sync_report (map UNPAIRED (concat (map snd [x \<leftarrow> syncEvents s. fst x mod 16 = 0]))) s"

definition ReportRedundancyInfo :: "SyncSanitizer \<Rightarrow> SyncSanitizer" where
  "ReportRedundancyInfo s = sync_report (map REDUNDANT (redundancyInfo s)) s"

definition ReportSyncThreadsInfo :: "SyncSanitizer \<Rightarrow> SyncSanitizer" where
  "ReportSyncThreadsInfo s = sync_report (map DIVERGENT (syncThreadsInfo s)) s"

fun sync_event_loop :: "(SanEvent \<Rightarrow> MemOpInfo) \<Rightarrow> SanEvent list \<Rightarrow> SyncSanitizer \<Rightarrow> SyncSanitizer option" where
  "sync_event_loop junk [] s = Some s"
| "sync_event_loop junk (e # es) s =
     (case DoStuckCheck junk e s of
        None \<Rightarrow> None
      | Some s1 \<Rightarrow>
          (if is_finish e then Some (s1\<lparr>sy_isFinished := True\<rparr>)
           else if \<not> Sync_IsTargetBlockId (coreId (loc e)) s1 then sync_event_loop junk es s1
           else sync_event_loop junk es (DoRedundancyCheck junk e (DoMatchCheck junk e s1))))"

text \<open>\<open>tensor\<close> is \<open>IsMstxRecordWithTensor\<close> of the record.\<close>

definition Sync_DoEvents :: "(SanEvent \<Rightarrow> MemOpInfo) \<Rightarrow> bool \<Rightarrow> SanEvent list \<Rightarrow> SyncSanitizer \<Rightarrow> SyncSanitizer option" where
  "Sync_DoEvents junk tensor es s =
     (if tensor \<or> es = [] then Some s
      else map_option (\<lambda>s1. if sy_isFinished s1
             then (let s2 = (if syncEvents s1 \<noteq> [] then ReportUnpairedInfo s1 else s1);
                       s3 = (if redundancyInfo s2 \<noteq> [] then ReportRedundancyInfo s2 else s2)
                   in if syncThreadsInfo s3 \<noteq> [] then ReportSyncThreadsInfo s3 else s3)
             else s1) (sync_event_loop junk es s))"

text \<open>
  The errors of the device; \<open>deviceIdx\<close> and \<open>kernelIdx\<close> are what \<open>SetDeviceIdKernelIdx\<close> takes from the
  running context.
\<close>

definition Sync_ParseOnlineError :: "nat \<Rightarrow> nat \<Rightarrow> KernelErrorRecord \<Rightarrow> BlockType \<Rightarrow> nat \<Rightarrow> SyncSanitizer \<Rightarrow> SyncSanitizer" where
  "Sync_ParseOnlineError device kidx r bt sno s =
     (case kernelErrorDesc r of
        None \<Rightarrow> s
      | Some ds \<Rightarrow> s\<lparr>syncThreadsInfo := syncThreadsInfo s @ concat (map (\<lambda>d.
          case errorType d of
            KE_THREADS_ASYNC_IN_BLOCK x \<Rightarrow>
              [ErrorEvent_zero\<lparr>ee_serialNo := sno, ee_deviceId := device, ee_kernelIdx := kidx,
                 ee_coreId := unat (location_blockId (ked_location d)), ee_pc := location_pc (syncLocation x), ee_blockType := bt,
                 isSimt := True, ee_threadLoc := syncThreadLoc x\<rparr>]
          | _ \<Rightarrow> []) ds)\<rparr>)"

section \<open>Pairs of flags\<close>

text \<open>The slot of a key, the key of a message and the number of flag instructions of a key.\<close>

definition waiting :: "SyncDispInfo list omap \<Rightarrow> nat \<Rightarrow> SyncDispInfo list" where
  "waiting m k = (case map_of m k of None \<Rightarrow> [] | Some xs \<Rightarrow> xs)"

definition info_key :: "SyncDispInfo \<Rightarrow> nat" where
  "info_key x = unat (sync_key (ee_coreId (sd_baseEvent x)) (ee_blockType (sd_baseEvent x)) (sd_srcPipe x) (sd_dstPipe x) (sd_eventId x))"

definition is_flag :: "SyncType \<Rightarrow> nat \<Rightarrow> SanEvent \<Rightarrow> bool" where
  "is_flag t k e = (case eventInfo e of SYNC_EVENT i \<Rightarrow> sync_opType i = t \<and> unat (CalcSetFlagSyncID e i) = k | _ \<Rightarrow> False)"

definition flags :: "SyncType \<Rightarrow> nat \<Rightarrow> SanEvent list \<Rightarrow> nat" where
  "flags t k es = length (filter (is_flag t k) es)"

lemma flags_snoc: "flags t k (es @ [e]) = flags t k es + (if is_flag t k e then 1 else 0)"
  by (simp add: flags_def)

lemma sync_key_low: "unat (sync_key core bt src dst ev) mod 16 = 0"
proof -
  have "sync_key core bt src dst ev AND 0xF = 0"
    by (rule bit_eqI) (auto simp: sync_key_def bit_simps numeral_eq_Suc less_Suc_eq)
  moreover have "sync_key core bt src dst ev AND 0xF = take_bit 4 (sync_key core bt src dst ev)"
    by (simp add: take_bit_eq_mask mask_eq_exp_minus_1)
  ultimately have "take_bit 4 (unat (sync_key core bt src dst ev)) = 0" by (metis unsigned_take_bit_eq unsigned_0)
  then show ?thesis by (simp add: take_bit_eq_mod)
qed

lemma wait_id: "unat (CalcWaitFlagSyncID e i) = unat (CalcSetFlagSyncID e i) + 1"
proof -
  have "unat (CalcSetFlagSyncID e i) mod 16 = 0" by (simp add: CalcSetFlagSyncID_def sync_key_low)
  then have "unat (CalcSetFlagSyncID e i) \<noteq> 2 ^ 64 - 1" by auto
  moreover have "unat (CalcSetFlagSyncID e i) < 2 ^ 64" using unsigned_less [of "CalcSetFlagSyncID e i"] by simp
  ultimately have "unat (CalcSetFlagSyncID e i) + 1 < 2 ^ 64" by simp
  then show ?thesis by (simp add: CalcWaitFlagSyncID_def unat_word_ariths)
qed

lemma and_masks: "x AND 0xF = take_bit 4 x" "x AND 0xFFFF = take_bit 16 x" for x :: u64
  by (simp_all add: take_bit_eq_mask mask_eq_exp_minus_1)

lemma sync_key_fields:
  "drop_bit 20 (sync_key core bt src dst ev) = take_bit 16 (of_nat core)"
  "take_bit 4 (drop_bit 16 (sync_key core bt src dst ev)) = take_bit 4 (of_nat (block_type_code bt))"
  "take_bit 4 (drop_bit 12 (sync_key core bt src dst ev)) = take_bit 4 (of_nat (pipe_code src))"
  "take_bit 4 (drop_bit 8 (sync_key core bt src dst ev)) = take_bit 4 (of_nat (pipe_code dst))"
  "take_bit 4 (drop_bit 4 (sync_key core bt src dst ev)) = take_bit 4 (ucast ev)"
  unfolding sync_key_def and_masks by (rule bit_eqI; auto simp: bit_simps)+

lemma low_bits_eq: "n \<le> 64 \<Longrightarrow> take_bit n (of_nat x :: u64) = take_bit n (of_nat y) \<longleftrightarrow> x mod 2 ^ n = y mod 2 ^ n"
proof -
  assume "n \<le> 64"
  then have "unat (take_bit n (of_nat x :: u64)) = take_bit n x" for x
    unfolding unsigned_take_bit_eq unsigned_of_nat by (simp add: take_bit_take_bit min_def)
  then show ?thesis by (simp add: word_unat_eq_iff take_bit_eq_mod)
qed

lemma ucast_of_nat: "(ucast (v :: u32) :: u64) = of_nat (unat v)"
  by simp

lemma code_inject: "block_type_code b mod 2 ^ 4 = block_type_code b' mod 2 ^ 4 \<longleftrightarrow> b = b'"
  "pipe_code p mod 2 ^ 4 = pipe_code p' mod 2 ^ 4 \<longleftrightarrow> p = p'"
  by (cases b; cases b'; simp) (cases p; cases p'; simp)

text \<open>Two flags share a key when core, block type, pipes and flag agree, up to 16 bits of the core and four of the flag.\<close>

lemma sync_key_eq:
  "sync_key c b p q v = sync_key c' b' p' q' v' \<longleftrightarrow>
     c mod 2 ^ 16 = c' mod 2 ^ 16 \<and> b = b' \<and> p = p' \<and> q = q' \<and> unat v mod 2 ^ 4 = unat v' mod 2 ^ 4" (is "?l \<longleftrightarrow> ?r")
proof -
  have pieces: "?r \<longleftrightarrow> take_bit 16 (of_nat c :: u64) = take_bit 16 (of_nat c') \<and>
      take_bit 4 (of_nat (block_type_code b) :: u64) = take_bit 4 (of_nat (block_type_code b')) \<and>
      take_bit 4 (of_nat (pipe_code p) :: u64) = take_bit 4 (of_nat (pipe_code p')) \<and>
      take_bit 4 (of_nat (pipe_code q) :: u64) = take_bit 4 (of_nat (pipe_code q')) \<and>
      take_bit 4 (ucast v :: u64) = take_bit 4 (ucast v')"
  proof -
    have four: "take_bit 4 (of_nat x :: u64) = take_bit 4 (of_nat y) \<longleftrightarrow> x mod 2 ^ 4 = y mod 2 ^ 4" for x y
      by (rule low_bits_eq) simp
    have sixteen: "take_bit 16 (of_nat x :: u64) = take_bit 16 (of_nat y) \<longleftrightarrow> x mod 2 ^ 16 = y mod 2 ^ 16" for x y
      by (rule low_bits_eq) simp
    show ?thesis unfolding ucast_of_nat four sixteen code_inject ..
  qed
  show ?thesis
  proof
    assume ?l
    then show ?r unfolding pieces using sync_key_fields by metis
  next
    assume ?r
    then show ?l unfolding pieces by (simp only: sync_key_def and_masks)
  qed
qed

definition match_inv :: "(nat \<Rightarrow> nat) \<Rightarrow> (nat \<Rightarrow> nat) \<Rightarrow> SyncDispInfo list omap \<Rightarrow> bool" where
  "match_inv S W m \<longleftrightarrow> ordered m \<and> (\<forall>k xs. map_of m k = Some xs \<longrightarrow> xs \<noteq> []) \<and>
     (\<forall>k. k mod 16 = 0 \<longrightarrow> length (waiting m k) = S k - W k \<and> length (waiting m (k + 1)) = W k - S k \<and>
        (\<forall>x\<in>set (waiting m k). info_key x = k \<and> sd_opType x = SET_FLAG))"

lemma match_sync_waiting:
  assumes "ordered m" "\<forall>k xs. map_of m k = Some xs \<longrightarrow> xs \<noteq> []" "self \<noteq> peer"
  shows "ordered (match_sync self peer info m)" "\<forall>k xs. map_of (match_sync self peer info m) k = Some xs \<longrightarrow> xs \<noteq> []"
    "waiting (match_sync self peer info m) k =
       (if waiting m peer \<noteq> [] then (if k = peer then butlast (waiting m peer) else waiting m k)
        else if k = self then waiting m self @ [info] else waiting m k)"
proof -
  have "length xs > 1 \<Longrightarrow> butlast xs \<noteq> []" for xs :: "SyncDispInfo list" by (cases xs rule: rev_cases) auto
  then show "ordered (match_sync self peer info m)" "\<forall>k xs. map_of (match_sync self peer info m) k = Some xs \<longrightarrow> xs \<noteq> []"
    using assms by (auto simp: match_sync_def ordered_oput ordered_oerase map_of_oput map_of_oerase split: option.splits if_splits)
  have one: "length xs \<le> 1 \<Longrightarrow> butlast xs = []" for xs :: "SyncDispInfo list" by (cases xs rule: rev_cases) auto
  show "waiting (match_sync self peer info m) k =
       (if waiting m peer \<noteq> [] then (if k = peer then butlast (waiting m peer) else waiting m k)
        else if k = self then waiting m self @ [info] else waiting m k)"
    using assms one by (auto simp: match_sync_def waiting_def map_of_oput map_of_oerase split: option.splits)
qed

lemma match_step:
  assumes "match_inv S W m" "k mod 16 = 0" "info_key x = k" "sd_opType x = SET_FLAG"
  shows "match_inv (S(k := S k + 1)) W (match_sync k (k + 1) x m)" "match_inv S (W(k := W k + 1)) (match_sync (k + 1) k y m)"
proof -
  note m = assms(1) [unfolded match_inv_def]
  have o: "ordered m" "\<forall>k xs. map_of m k = Some xs \<longrightarrow> xs \<noteq> []" using m by blast+
  note set = match_sync_waiting [OF o, of k "k + 1" x]
  note wait = match_sync_waiting [OF o, of "k + 1" k y]
  have odd: "j mod 16 = 0 \<Longrightarrow> j \<noteq> k + 1 \<and> j + 1 \<noteq> k" for j using assms(2) by presburger
  have len: "length (waiting m j) = S j - W j" "length (waiting m (j + 1)) = W j - S j" if "j mod 16 = 0" for j using m that by simp_all
  have mem: "\<forall>x\<in>set (waiting m j). info_key x = j \<and> sd_opType x = SET_FLAG" if "j mod 16 = 0" for j using m that by simp
  have empty: "waiting m (k + 1) = [] \<longleftrightarrow> W k \<le> S k" "waiting m k = [] \<longleftrightarrow> S k \<le> W k" using len [OF assms(2)] by auto
  show "match_inv (S(k := S k + 1)) W (match_sync k (k + 1) x m)"
    unfolding match_inv_def
  proof (intro conjI allI impI)
    fix j :: nat assume j: "j mod 16 = 0"
    show "length (waiting (match_sync k (k + 1) x m) j) = (S(k := S k + 1)) j - W j"
      using set(3) [of j] odd [OF j] len(1) [OF j] empty len [OF assms(2)] by auto
    show "length (waiting (match_sync k (k + 1) x m) (j + 1)) = W j - (S(k := S k + 1)) j"
      using set(3) [of "j + 1"] odd [OF j] len(2) [OF j] empty len [OF assms(2)] by auto
    show "\<forall>x'\<in>set (waiting (match_sync k (k + 1) x m) j). info_key x' = j \<and> sd_opType x' = SET_FLAG"
      using set(3) [of j] odd [OF j] mem [OF j] assms(3,4) by (auto dest: in_set_butlastD)
  qed (use set(1,2) in auto)
  show "match_inv S (W(k := W k + 1)) (match_sync (k + 1) k y m)"
    unfolding match_inv_def
  proof (intro conjI allI impI)
    fix j :: nat assume j: "j mod 16 = 0"
    show "length (waiting (match_sync (k + 1) k y m) j) = S j - (W(k := W k + 1)) j"
      using wait(3) [of j] odd [OF j] len(1) [OF j] empty len [OF assms(2)] by auto
    show "length (waiting (match_sync (k + 1) k y m) (j + 1)) = (W(k := W k + 1)) j - S j"
      using wait(3) [of "j + 1"] odd [OF j] len(2) [OF j] empty len [OF assms(2)] by auto
    show "\<forall>x'\<in>set (waiting (match_sync (k + 1) k y m) j). info_key x' = j \<and> sd_opType x' = SET_FLAG"
      using wait(3) [of j] odd [OF j] mem [OF j] by (auto dest: in_set_butlastD)
  qed (use wait(1,2) in auto)
qed

lemma info_key_disp: "info_key (disp_info junk t e i) = unat (CalcSetFlagSyncID e i)"
  "sd_opType (disp_info junk t e i) = sync_opType i"
  by (simp_all add: info_key_def disp_info_def CalcSetFlagSyncID_def ErrorEvent_Init_def MemEvent_new_def Let_def split: option.split)

lemma DoMatchCheck_inv:
  assumes "match_inv (\<lambda>k. flags SET_FLAG k es) (\<lambda>k. flags WAIT_FLAG k es) (syncEvents s)"
  shows "match_inv (\<lambda>k. flags SET_FLAG k (es @ [e])) (\<lambda>k. flags WAIT_FLAG k (es @ [e])) (syncEvents (DoMatchCheck junk e s))"
proof -
  have other: ?thesis if "\<forall>k. \<not> is_flag SET_FLAG k e \<and> \<not> is_flag WAIT_FLAG k e" "syncEvents (DoMatchCheck junk e s) = syncEvents s"
    using assms that by (simp add: flags_snoc)
  show ?thesis
  proof (cases "eventInfo e")
    case (SYNC_EVENT i)
    let ?k = "unat (CalcSetFlagSyncID e i)"
    have k: "?k mod 16 = 0" by (simp add: CalcSetFlagSyncID_def sync_key_low)
    have f: "is_flag t k e \<longleftrightarrow> sync_opType i = t \<and> k = ?k" for t k using SYNC_EVENT by (auto simp: is_flag_def)
    have upd: "(\<lambda>k. flags t k es + (if k = ?k then 1 else 0)) = (\<lambda>k. flags t k es)(?k := flags t ?k es + 1)" for t by auto
    show ?thesis
    proof (cases "sync_opType i")
      case SET_FLAG
      then show ?thesis
        using match_step(1) [OF assms k info_key_disp(1) [of junk MATCH_CHECK e i]] SYNC_EVENT
        by (simp add: DoMatchCheck_def Let_def flags_snoc f wait_id info_key_disp upd)
    next
      case WAIT_FLAG
      have x: "info_key (disp_info junk MATCH_CHECK e (i\<lparr>sync_opType := SET_FLAG\<rparr>)) = ?k"
        by (simp add: info_key_disp CalcSetFlagSyncID_def)
      show ?thesis
        using match_step(2) [OF assms k x] SYNC_EVENT WAIT_FLAG
        by (simp add: DoMatchCheck_def Let_def flags_snoc f wait_id info_key_disp upd)
    qed (rule other; use SYNC_EVENT f in \<open>simp add: DoMatchCheck_def Let_def\<close>)+
  qed (rule other; simp add: is_flag_def DoMatchCheck_def)+
qed

section \<open>One pass over the events of a kernel\<close>

definition check_event :: "(SanEvent \<Rightarrow> MemOpInfo) \<Rightarrow> SanEvent \<Rightarrow> SyncSanitizer \<Rightarrow> SyncSanitizer" where
  "check_event junk e s = DoRedundancyCheck junk e (DoMatchCheck junk e s)"

definition targets :: "SyncSanitizer \<Rightarrow> SanEvent list \<Rightarrow> SanEvent list" where
  "targets s es = [e \<leftarrow> es. Sync_IsTargetBlockId (coreId (loc e)) s]"

definition with_replayer :: "PipelineReplayer \<times> EventContainer \<Rightarrow> SyncSanitizer \<Rightarrow> SyncSanitizer" where
  "with_replayer rc s = s\<lparr>pipelineReplayer := fst rc, replayerEvents := snd rc\<rparr>"

lemma check_event_replayer: "check_event junk e (with_replayer rc s) = with_replayer rc (check_event junk e s)"
  by (simp add: check_event_def DoRedundancyCheck_def DoMatchCheck_def with_replayer_def Let_def split: EventInfo.split option.split)

lemma check_event_keeps [simp]:
  "pipelineReplayer (check_event junk e s) = pipelineReplayer s" "replayerEvents (check_event junk e s) = replayerEvents s"
  "sy_checkBlockId (check_event junk e s) = sy_checkBlockId s" "stuckEvents (check_event junk e s) = stuckEvents s"
  "sy_reports (check_event junk e s) = sy_reports s" "sy_isFinished (check_event junk e s) = sy_isFinished s"
  "syncThreadsInfo (check_event junk e s) = syncThreadsInfo s" "syncEvents (check_event junk e s) = syncEvents (DoMatchCheck junk e s)"
  by (simp_all add: check_event_def DoRedundancyCheck_def DoMatchCheck_def Let_def split: EventInfo.split option.split)

lemma target_check [simp]: "Sync_IsTargetBlockId b (check_event junk e s) = Sync_IsTargetBlockId b s"
  "Sync_IsTargetBlockId b (with_replayer rc s) = Sync_IsTargetBlockId b s"
  by (simp_all add: Sync_IsTargetBlockId_def with_replayer_def)

lemma fold_check_keeps [simp]:
  "stuckEvents (fold (check_event junk) es s) = stuckEvents s" "sy_reports (fold (check_event junk) es s) = sy_reports s"
  "syncThreadsInfo (fold (check_event junk) es s) = syncThreadsInfo s" "sy_isFinished (fold (check_event junk) es s) = sy_isFinished s"
  by (induction es arbitrary: s) simp_all

lemma Replayer_push:
  assumes "\<not> is_finish e"
  obtains rc where "Replayer_Do e rc0 = Some rc" "called (fst rc) = called (fst rc0)" "rp_isFinished (fst rc) = rp_isFinished (fst rc0)"
proof -
  let ?s = "Replayer_CacheMstxCrossSet e (fst rc0)"
  have cache: "called ?s = called (fst rc0)" "rp_isFinished ?s = rp_isFinished (fst rc0)"
    by (simp_all add: Replayer_CacheMstxCrossSet_def Let_def split: EventInfo.split)
  obtain rc where rc: "Replayer_Do e rc0 = Some rc" using assms by (simp add: Replayer_Do_def Let_def case_prod_unfold)
  show thesis
    by (rule that [OF rc]) (use rc assms cache in \<open>auto simp: Replayer_Do_def Let_def case_prod_unfold split: if_splits\<close>)
qed

lemma stuck_push:
  assumes "\<not> is_finish e" "\<not> rp_isFinished (pipelineReplayer s)" "Replayer_Do e (pipelineReplayer s, replayerEvents s) = Some rc"
  shows "DoStuckCheck junk e s = Some (with_replayer rc s)"
proof -
  obtain rc' where "Replayer_Do e (pipelineReplayer s, replayerEvents s) = Some rc'" "called (fst rc') = called (pipelineReplayer s)"
      "\<not> rp_isFinished (fst rc')"
    using Replayer_push [OF assms(1), of "(pipelineReplayer s, replayerEvents s)"] assms(2) by auto
  then show ?thesis using assms(3) by (simp add: DoStuckCheck_def with_replayer_def case_prod_unfold Let_def)
qed

lemma event_loop_feed:
  assumes "\<forall>e\<in>set es. \<not> is_finish e" "\<not> rp_isFinished (pipelineReplayer s)"
  shows "\<exists>rc. feed Replayer_Do es (pipelineReplayer s, replayerEvents s) = Some rc \<and> called (fst rc) = called (pipelineReplayer s) \<and>
     \<not> rp_isFinished (fst rc) \<and>
     sync_event_loop junk (es @ rest) s = sync_event_loop junk rest (with_replayer rc (fold (check_event junk) (targets s es) s))"
  using assms
proof (induction es arbitrary: s)
  case Nil
  have "with_replayer (pipelineReplayer s, replayerEvents s) s = s" by (simp add: with_replayer_def)
  then show ?case using Nil.prems by (intro exI [of _ "(pipelineReplayer s, replayerEvents s)"]) (simp add: targets_def)
next
  case (Cons e es)
  have e: "\<not> is_finish e" using Cons.prems by simp
  obtain rc where rc: "Replayer_Do e (pipelineReplayer s, replayerEvents s) = Some rc" "called (fst rc) = called (pipelineReplayer s)"
      "\<not> rp_isFinished (fst rc)"
    using Replayer_push [OF e, of "(pipelineReplayer s, replayerEvents s)"] Cons.prems(2) by auto
  note push = stuck_push [OF e Cons.prems(2) rc(1), of junk]
  define s1 where "s1 = (if Sync_IsTargetBlockId (coreId (loc e)) s then check_event junk e (with_replayer rc s) else with_replayer rc s)"
  have s1: "pipelineReplayer s1 = fst rc" "replayerEvents s1 = snd rc" "targets s1 es = targets s es"
    by (simp_all add: s1_def targets_def) (simp_all add: with_replayer_def)
  have "sync_event_loop junk ((e # es) @ rest) s = sync_event_loop junk (es @ rest) s1"
    using push e by (simp add: s1_def check_event_def)
  moreover have "\<exists>rc'. feed Replayer_Do es (pipelineReplayer s1, replayerEvents s1) = Some rc' \<and> called (fst rc') = called (pipelineReplayer s1) \<and>
     \<not> rp_isFinished (fst rc') \<and>
     sync_event_loop junk (es @ rest) s1 = sync_event_loop junk rest (with_replayer rc' (fold (check_event junk) (targets s1 es) s1))"
    using Cons.IH [of s1] Cons.prems s1(1) rc(3) by simp
  moreover have "with_replayer rc' (fold (check_event junk) es' (with_replayer rc x)) = with_replayer rc' (fold (check_event junk) es' x)" for rc' es' x
    by (induction es' arbitrary: x) (simp_all add: check_event_replayer, simp add: with_replayer_def)
  ultimately show ?case using rc s1 by (auto simp: s1_def targets_def check_event_replayer)
qed

text \<open>The reports of a whole kernel: the stuck queues, the unpaired flags, the redundant flags, and the divergent threads.\<close>

lemma Sync_Init_fields:
  "syncEvents (Sync_Init k s) = []" "pipeRedundancyEvents (Sync_Init k s) = Map.empty" "redundancyInfo (Sync_Init k s) = []"
  "stuckEvents (Sync_Init k s) = []" "sy_checkBlockId (Sync_Init k s) = sy_checkBlockId s" "sy_reports (Sync_Init k s) = sy_reports s"
  "syncThreadsInfo (Sync_Init k s) = syncThreadsInfo s" "\<not> rp_isFinished (pipelineReplayer (Sync_Init k s))"
  "called (pipelineReplayer (Sync_Init k s)) = called (pipelineReplayer s)" "callback (pipelineReplayer (Sync_Init k s))"
  by (simp_all add: Sync_Init_def Replayer_Init_def Replayer_RegisterCallback_def Let_def)

lemma Sync_Init_replayer:
  "(pipelineReplayer (Sync_Init k s), replayerEvents (Sync_Init k s)) =
     Replayer_Init (ks_kernelType k) (sy_deviceType s) (ks_blockDim k) (Replayer_RegisterCallback (pipelineReplayer s))"
  by (simp add: Sync_Init_def Replayer_Init_def Replayer_RegisterCallback_def Let_def)

lemma bind_feed_Nil [simp]: "Option.bind x (feed f []) = x"
  by (cases x) simp_all

lemma kernel_pass:
  assumes "0 < ks_blockDim k" "recorded es" "is_finish fin"
  shows "\<exists>r c s' stuck. feed Replayer_Do (es @ [fin]) (pipelineReplayer (Sync_Init k s), replayerEvents (Sync_Init k s)) = Some (r, c) \<and>
     Sync_DoEvents junk False (es @ [fin]) (Sync_Init k s) = Some s' \<and> pipelineReplayer s' = r \<and> replayerEvents s' = c \<and>
     stuck = concat (map (stuck_callback junk) (drop (length (called (pipelineReplayer s))) (called r))) \<and> stuckEvents s' = stuck \<and>
     (let s1 = fold (check_event junk) (targets s es) (Sync_Init k s) in
      sy_reports s' = sy_reports s @ (if stuck = [] then [] else [STUCK stuck]) @
        map UNPAIRED (concat (map snd [x \<leftarrow> syncEvents s1. fst x mod 16 = 0])) @ map REDUNDANT (redundancyInfo s1) @ map DIVERGENT (syncThreadsInfo s))"
proof -
  let ?s = "Sync_Init k s"
  have nf: "\<forall>e\<in>set es. \<not> is_finish e" using assms(2) by (simp add: recorded_def)
  obtain rc where rc: "feed Replayer_Do es (pipelineReplayer ?s, replayerEvents ?s) = Some rc" "called (fst rc) = called (pipelineReplayer s)"
      "sync_event_loop junk (es @ [fin]) ?s = sync_event_loop junk [fin] (with_replayer rc (fold (check_event junk) (targets ?s es) ?s))"
    using event_loop_feed [OF nf Sync_Init_fields(8), of k s junk "[fin]"] by (auto simp: Sync_Init_fields)
  obtain r c where fin: "Replayer_Do fin rc = Some (r, c)" "rp_isFinished r"
  proof (rule Replayer_check [OF assms, of "ks_kernelType k" "sy_deviceType s" "Replayer_RegisterCallback (pipelineReplayer s)"])
    fix s1 p
    assume "feed Replayer_Do (es @ [fin]) (Replayer_Init (ks_kernelType k) (sy_deviceType s) (ks_blockDim k) (Replayer_RegisterCallback (pipelineReplayer s))) =
       Some ((if callback (client p) \<and> \<not> EventContainer_IsEmpty (events p)
              then fold (notify ALL_DEVICE_STUCK) (ForEachFrontEvent (events p)) (client p) else client p)\<lparr>rp_isFinished := True\<rparr>, events p)"
    then have "Replayer_Do fin rc = Some ((if callback (client p) \<and> \<not> EventContainer_IsEmpty (events p)
              then fold (notify ALL_DEVICE_STUCK) (ForEachFrontEvent (events p)) (client p) else client p)\<lparr>rp_isFinished := True\<rparr>, events p)"
      using rc(1) unfolding Sync_Init_replayer [symmetric] by (simp add: feed_append split del: if_split)
    then show thesis by (rule that) simp
  qed
  define s1 where "s1 = fold (check_event junk) (targets s es) ?s"
  have t: "targets ?s es = targets s es" by (simp add: targets_def Sync_IsTargetBlockId_def Sync_Init_fields)
  have keep: "sy_reports s1 = sy_reports s" "stuckEvents s1 = []" "syncThreadsInfo s1 = syncThreadsInfo s"
    by (simp_all add: s1_def Sync_Init_fields)
  have loop: "sync_event_loop junk (es @ [fin]) ?s = Option.bind (DoStuckCheck junk fin (with_replayer rc s1)) (\<lambda>x. Some (x\<lparr>sy_isFinished := True\<rparr>))"
    using rc(3) assms(3) unfolding t s1_def [symmetric] by (simp split: option.split)
  define stuck where "stuck = concat (map (stuck_callback junk) (drop (length (called (pipelineReplayer s))) (called r)))"
  have "DoStuckCheck junk fin (with_replayer rc s1) =
      Some ((if stuck = [] then (\<lambda>x. x) else sync_report [STUCK stuck]) (s1\<lparr>pipelineReplayer := r, replayerEvents := c, stuckEvents := stuck\<rparr>))"
    using fin rc(2) keep(2) unfolding stuck_def by (simp add: DoStuckCheck_def with_replayer_def Let_def)
  then have "\<exists>s'. Sync_DoEvents junk False (es @ [fin]) ?s = Some s' \<and> pipelineReplayer s' = r \<and> replayerEvents s' = c \<and> stuckEvents s' = stuck \<and>
      sy_reports s' = sy_reports s @ (if stuck = [] then [] else [STUCK stuck]) @
        map UNPAIRED (concat (map snd [x \<leftarrow> syncEvents s1. fst x mod 16 = 0])) @ map REDUNDANT (redundancyInfo s1) @ map DIVERGENT (syncThreadsInfo s)"
    using keep by (simp add: Sync_DoEvents_def loop ReportUnpairedInfo_def ReportRedundancyInfo_def ReportSyncThreadsInfo_def
        sync_report_def with_replayer_def Let_def)
  moreover have "feed Replayer_Do (es @ [fin]) (pipelineReplayer ?s, replayerEvents ?s) = Some (r, c)" using rc(1) fin by (simp add: feed_append)
  ultimately show ?thesis unfolding s1_def stuck_def Let_def by blast
qed

section \<open>Properties\<close>

lemma fold_match_inv:
  "match_inv (\<lambda>k. flags SET_FLAG k es) (\<lambda>k. flags WAIT_FLAG k es) (syncEvents (fold (check_event junk) es (Sync_Init k s)))"
proof (induction es rule: rev_induct)
  case Nil
  show ?case by (simp add: match_inv_def waiting_def flags_def Sync_Init_fields)
next
  case (snoc e es)
  then show ?case using DoMatchCheck_inv by simp
qed

lemma count_concat_slots:
  assumes "ordered m" "\<forall>k. k mod 16 = 0 \<longrightarrow> (\<forall>x\<in>set (waiting m k). info_key x = k)" "\<forall>x. info_key x mod 16 = 0"
  shows "length [x \<leftarrow> concat (map snd [x \<leftarrow> m. fst x mod 16 = 0]). info_key x = key] = (if key mod 16 = 0 then length (waiting m key) else 0)"
  using assms
proof (induction m)
  case (Cons y m)
  obtain k xs where y: "y = (k, xs)" by (cases y)
  have ord: "ordered m" "map_of m k = None"
    using Cons.prems(1) y by (auto simp: ordered_def map_of_eq_None_iff)
  have w: "waiting (y # m) j = (if j = k then xs else waiting m j)" for j using y by (simp add: waiting_def)
  have "\<forall>j. j mod 16 = 0 \<longrightarrow> (\<forall>x\<in>set (waiting m j). info_key x = j)"
    using Cons.prems(2) ord(2) w by (metis empty_iff list.set(1) option.simps(4) waiting_def)
  note IH = Cons.IH [OF ord(1) this Cons.prems(3)]
  have mk: "waiting m k = []" using ord(2) by (simp add: waiting_def)
  show ?case
  proof (cases "k mod 16 = 0")
    case True
    then have "\<forall>x\<in>set xs. info_key x = k" using Cons.prems(2) w by metis
    then have "[x \<leftarrow> xs. info_key x = key] = (if key = k then xs else [])"
      by (auto intro: filter_True filter_False)
    then show ?thesis using True IH mk y w [of key] by auto
  next
    case False
    then show ?thesis using IH y w [of key] by auto
  qed
qed (simp add: waiting_def)

definition unpaired_of :: "nat \<Rightarrow> SyncReport \<Rightarrow> bool" where
  "unpaired_of key x = (case x of UNPAIRED i \<Rightarrow> info_key i = key \<and> sd_opType i = SET_FLAG | _ \<Rightarrow> False)"

text \<open>
  C10. The match check is exact: after the events of a kernel, the number of reports of an unpaired
  set_flag for a key (core, kind of core, source and destination pipe and flag) is the number of its
  set_flag instructions minus the number of its wait_flag instructions in the checked cores, and zero
  when there are at least as many waits; the order in which they come does not matter, and every
  report names a set_flag.
\<close>
theorem unpaired_flags_exact:
  assumes "0 < ks_blockDim k" "recorded es" "is_finish fin"
  shows "\<exists>s' rs. Sync_DoEvents junk False (es @ [fin]) (Sync_Init k s) = Some s' \<and> sy_reports s' = sy_reports s @ rs \<and>
     (\<forall>key. length (filter (unpaired_of key) rs) = flags SET_FLAG key (targets s es) - flags WAIT_FLAG key (targets s es))"
proof -
  let ?m = "syncEvents (fold (check_event junk) (targets s es) (Sync_Init k s))"
  let ?u = "concat (map snd [x \<leftarrow> ?m. fst x mod 16 = 0])"
  obtain s' stuck where s': "Sync_DoEvents junk False (es @ [fin]) (Sync_Init k s) = Some s'"
      "sy_reports s' = sy_reports s @ (if stuck = [] then [] else [STUCK stuck]) @ map UNPAIRED ?u @
         map REDUNDANT (redundancyInfo (fold (check_event junk) (targets s es) (Sync_Init k s))) @ map DIVERGENT (syncThreadsInfo s)"
    using kernel_pass [OF assms, of s junk] unfolding Let_def by blast
  have inv: "match_inv (\<lambda>k. flags SET_FLAG k (targets s es)) (\<lambda>k. flags WAIT_FLAG k (targets s es)) ?m" by (rule fold_match_inv)
  have low: "info_key x mod 16 = 0" for x by (simp add: info_key_def sync_key_low)
  have op: "\<forall>x\<in>set ?u. sd_opType x = SET_FLAG"
  proof
    fix x assume "x \<in> set ?u"
    then obtain j xs where j: "(j, xs) \<in> set ?m" "j mod 16 = 0" "x \<in> set xs" by auto
    moreover have "ordered ?m" using inv by (simp add: match_inv_def)
    ultimately have "x \<in> set (waiting ?m j)" using ordered_entries [of ?m j xs] by (simp add: waiting_def)
    moreover have "\<forall>x\<in>set (waiting ?m j). sd_opType x = SET_FLAG" using inv j(2) by (simp add: match_inv_def)
    ultimately show "sd_opType x = SET_FLAG" by blast
  qed
  have none: "flags t key es' = 0" if "key mod 16 \<noteq> 0" for t key es'
    using that by (auto simp: flags_def filter_empty_conv is_flag_def CalcSetFlagSyncID_def sync_key_low split: EventInfo.splits)
  have "length [x \<leftarrow> ?u. info_key x = key] = flags SET_FLAG key (targets s es) - flags WAIT_FLAG key (targets s es)" for key
    using count_concat_slots [of ?m key] inv low none [of key] by (simp add: match_inv_def)
  moreover have "filter (unpaired_of key) (map UNPAIRED xs) = map UNPAIRED [x \<leftarrow> xs. info_key x = key]" if "\<forall>x\<in>set xs. sd_opType x = SET_FLAG" for key xs
    using that by (induction xs) (simp_all add: unpaired_of_def)
  note this [OF op]
  moreover have "filter (unpaired_of key) (map REDUNDANT xs) = []" "filter (unpaired_of key) (map DIVERGENT ys) = []"
    "\<not> unpaired_of key (STUCK st)" for key xs ys st by (simp_all add: filter_map o_def unpaired_of_def)
  ultimately have "length (filter (unpaired_of key) ((if stuck = [] then [] else [STUCK stuck]) @ map UNPAIRED ?u @
         map REDUNDANT (redundancyInfo (fold (check_event junk) (targets s es) (Sync_Init k s))) @ map DIVERGENT (syncThreadsInfo s))) =
      flags SET_FLAG key (targets s es) - flags WAIT_FLAG key (targets s es)" for key
    by (simp only: filter_append length_append length_map if_split filter.simps list.size simp_thms add_0 add_0_right append_Nil if_cancel split: if_split)
  then show ?thesis using s' by blast
qed

definition flag_event :: "SyncType \<Rightarrow> nat \<Rightarrow> u32 \<Rightarrow> SanEvent" where
  "flag_event t core ev = SanEvent_new\<lparr>eventInfo := SYNC_EVENT \<lparr>sync_opType = t, srcPipe = PIPE_MTE2, dstPipe = PIPE_V, eventId = ev,
     sync_memType = MEM_UNKNOWN, isRetrogress = False, isGenerated = False\<rparr>, loc := (loc SanEvent_new)\<lparr>coreId := core\<rparr>\<rparr>"

definition finish_marker :: SanEvent where
  "finish_marker = SanEvent_new\<lparr>eventInfo := SANITIZER_CONTROL_EVENT SC_KERNEL_FINISH\<rparr>"

definition sample_kernel :: KernelSummary where
  "sample_kernel = \<lparr>ks_pcStartAddr = 0, ks_blockDim = 2, ks_kernelType = KT_AIVEC, ks_isKernelWithDBI = False, ks_hasDebugLine = False, ks_kernelName = []\<rparr>"

definition SyncSanitizer_new :: SyncSanitizer where
  "SyncSanitizer_new = \<lparr>sy_kernelType = KT_AIVEC, sy_deviceType = ASCEND_910B1, pipelineReplayer = fresh_replayer,
     replayerEvents = EventContainer_Init 0 0, sy_checkBlockId = CHECK_ALL_BLOCK, syncEvents = [], pipeRedundancyEvents = Map.empty,
     redundancyInfo = [], syncThreadsInfo = [], stuckEvents = [], sy_isFinished = False, sy_reports = []\<rparr>"

lemma sample_flags: "recorded [flag_event WAIT_FLAG 0 1, flag_event SET_FLAG 0 1, flag_event SET_FLAG 0 1]" "is_finish finish_marker"
  "0 < ks_blockDim sample_kernel"
  by (simp_all add: recorded_def flag_event_def finish_marker_def is_finish_def SanEvent_new_def sample_kernel_def)

theorem unpaired_flags_exact_witness:
  "\<exists>s' rs. Sync_DoEvents undefined False [flag_event WAIT_FLAG 0 1, flag_event SET_FLAG 0 1, flag_event SET_FLAG 0 1, finish_marker]
       (Sync_Init sample_kernel SyncSanitizer_new) = Some s' \<and> sy_reports s' = rs \<and>
     length (filter (unpaired_of 0x4110) rs) = 1"
proof -
  let ?es = "[flag_event WAIT_FLAG 0 1, flag_event SET_FLAG 0 1, flag_event SET_FLAG 0 1]"
  have "targets SyncSanitizer_new ?es = ?es" by (simp add: targets_def Sync_IsTargetBlockId_def SyncSanitizer_new_def)
  moreover have "is_flag t 0x4110 (flag_event t' 0 1) \<longleftrightarrow> t = t'" for t t'
    by (auto simp: is_flag_def flag_event_def SanEvent_new_def CalcSetFlagSyncID_def sync_key_def)
  then have "flags SET_FLAG 0x4110 ?es = 2" "flags WAIT_FLAG 0x4110 ?es = 1" by (simp_all add: flags_def)
  moreover have "sy_reports SyncSanitizer_new = []" by (simp add: SyncSanitizer_new_def)
  ultimately show ?thesis
    using unpaired_flags_exact [OF sample_flags(3,1,2), of undefined SyncSanitizer_new] by fastforce
qed













lemma DoMatchCheck_keeps [simp]:
  "pipeRedundancyEvents (DoMatchCheck junk e s) = pipeRedundancyEvents s" "redundancyInfo (DoMatchCheck junk e s) = redundancyInfo s"
  by (simp_all add: DoMatchCheck_def Let_def split: EventInfo.split)











end
