(* ===== verification/OrderedScheduler.thy ===== *)
theory OrderedScheduler
  imports MemErrors OrderedMap PeerAccess "HOL-Library.Sublist"
begin

text \<open>
  The scheduler of the packets of one host process (\<open>csrc/core/framework/ordered_packet_scheduler.cpp\<close>).
  Packets arrive from several connections in any order; a worker takes them in the order of their
  numbers, waits until the checks it depends on are done, and dispatches them. Dispatching only queues
  the checks: a future obtained afterwards becomes ready when the checker has consumed its queue up to
  that point. The callbacks are parameters: what the dispatch does to the context of the connection,
  and which checkers the end of an IPC mapping updates. A future is a token; the tokens of a checker
  become ready in the order in which they were obtained, as its queue is first in, first out.
\<close>

section \<open>Packets, jobs and checkpoints\<close>

datatype IPCOperationType = SET_INFO | DESTROY_INFO | MAP_INFO | UNMAP_INFO

datatype SanitizerPayload =
    SP_MEMORY_RECORD MemOpType MemInfoSrc | SP_KERNEL_RECORD RecordType | SP_IPC_RECORD | SP_REGION_PERMISSION

datatype Packet =
    PK_DEVICE_SUMMARY int | PK_KERNEL_SUMMARY | PK_KERNEL_BINARY | PK_LOG_STRING | PK_MEMORY_RECORD MemOpType MemInfoSrc
  | PK_KERNEL_RECORD | PK_IPC_RECORD IPCOperationType | PK_MEM_REGION_PERMISSION | PK_SANITIZER_RECORD SanitizerPayload
  | PK_GM_ADDR_OUT_OF_BOUND_RECORD | PK_PEER_ACCESS_RECORD PeerAccessRecord | PK_IPC_RESPONSE | PK_KERNEL_RECORD_RESPONSE | PK_INVALID

record Job =
  job_connection :: nat
  job_checker :: nat
  job_orderId :: nat
  job_packet :: Packet

type_synonym token = nat

record DeviceWorkCheckPoints =
  cp_checker :: nat
  cp_connection :: nat
  lastAccess :: "token option"
  lastUpdate :: "token option"
  lastWork :: "token option"

text \<open>An entry without futures, as \<open>operator[]\<close> makes it; checker 0 is the null pointer.\<close>

definition CheckPoints_new :: DeviceWorkCheckPoints where
  "CheckPoints_new = \<lparr>cp_checker = 0, cp_connection = 0, lastAccess = None, lastUpdate = None, lastWork = None\<rparr>"

text \<open>A queued check in the log: what it reads and changes, and which tokens were ready when it was dispatched.\<close>

record entry =
  en_device :: nat
  en_checker :: nat
  en_token :: token
  en_access :: bool
  en_update :: bool
  en_relations :: "nat list"
  en_ready :: "token set"

record callbacks =
  cb_dispatch :: "Job \<Rightarrow> int \<Rightarrow> int"
  cb_ipcUpdates :: "(Job \<Rightarrow> nat list) option"

text \<open>
  \<open>rtContexts\<close> keeps of every context the device number, the only part the scheduler reads. The last five
  fields are logs: the jobs submitted and taken, the tokens handed out with their checkers, those that
  are ready, and the queued checks.
\<close>

record ProcessQueue =
  pendingJobMap :: "Job omap"
  nextOrderId :: nat
  closing :: bool
  exited :: bool
  rtContexts :: "nat \<Rightarrow> int"
  sq_devices :: "DeviceWorkCheckPoints omap"
  sq_relations :: "nat list omap"
  failures :: "string list"
  submitted :: "Job list"
  taken :: "Job list"
  issued :: "nat list"
  ready :: "token set"
  checks :: "entry list"

definition ProcessQueue_new :: ProcessQueue where
  "ProcessQueue_new = \<lparr>pendingJobMap = [], nextOrderId = 1, closing = False, exited = False, rtContexts = (\<lambda>_. 0), sq_devices = [], sq_relations = [],
     failures = [], submitted = [], taken = [], issued = [], ready = {}, checks = []\<rparr>"

definition Fail :: "string \<Rightarrow> ProcessQueue \<Rightarrow> ProcessQueue" where
  "Fail reason s = s\<lparr>failures := failures s @ [reason]\<rparr>"

section \<open>Operations\<close>

definition Queue_Submit :: "Job \<Rightarrow> ProcessQueue \<Rightarrow> ProcessQueue" where
  "Queue_Submit job s =
     (let ident = job_orderId job; s1 = s\<lparr>submitted := submitted s @ [job]\<rparr> in
      if ident = 0 \<or> ident < nextOrderId s \<or> map_of (pendingJobMap s) ident \<noteq> None then Fail ''invalid or duplicate orderId'' s1
      else s1\<lparr>pendingJobMap := oput ident job (pendingJobMap s)\<rparr>)"

definition ClassifyMemory :: "MemOpType \<Rightarrow> MemInfoSrc \<Rightarrow> bool \<times> bool" where
  "ClassifyMemory t src =
     (let access = (t = MO_LOAD \<or> t = MO_STORE \<or> t = MO_MEMCPY_BLOCKS)
      in (access, t = MO_MALLOC \<or> t = MO_FREE \<or> access \<and> src \<noteq> SRC_BYPASS))"

definition RT_ONLINE_ERROR :: RecordType where
  "RT_ONLINE_ERROR = 60000"

definition RT_BLOCK_FINISH :: RecordType where
  "RT_BLOCK_FINISH = 100000"

definition RT_KERNEL_FINISH :: RecordType where
  "RT_KERNEL_FINISH = 100001"

fun Classify :: "Packet \<Rightarrow> bool \<times> bool" where
  "Classify (PK_MEMORY_RECORD t src) = ClassifyMemory t src"
| "Classify PK_KERNEL_RECORD = (True, False)"
| "Classify (PK_SANITIZER_RECORD (SP_MEMORY_RECORD t src)) = ClassifyMemory t src"
| "Classify (PK_SANITIZER_RECORD (SP_KERNEL_RECORD r)) = (r \<noteq> RT_ONLINE_ERROR \<and> r \<noteq> RT_BLOCK_FINISH \<and> r \<noteq> RT_KERNEL_FINISH, False)"
| "Classify (PK_SANITIZER_RECORD SP_REGION_PERMISSION) = (False, True)"
| "Classify PK_MEM_REGION_PERMISSION = (False, True)"
| "Classify (PK_IPC_RECORD t) = (False, t = MAP_INFO \<or> t = UNMAP_INFO)"
| "Classify _ = (False, False)"

definition checkpoint :: "nat \<Rightarrow> ProcessQueue \<Rightarrow> DeviceWorkCheckPoints" where
  "checkpoint d s = (case map_of (sq_devices s) d of None \<Rightarrow> CheckPoints_new | Some c \<Rightarrow> c)"

definition put_checkpoint :: "nat \<Rightarrow> DeviceWorkCheckPoints \<Rightarrow> ProcessQueue \<Rightarrow> ProcessQueue" where
  "put_checkpoint d c s = s\<lparr>sq_devices := oput d c (sq_devices s)\<rparr>"

definition targets_of :: "nat \<Rightarrow> ProcessQueue \<Rightarrow> nat list" where
  "targets_of d s = (case map_of (sq_relations s) d of None \<Rightarrow> [] | Some ts \<Rightarrow> ts)"

definition wait_on :: "token option \<Rightarrow> token list" where
  "wait_on f = (case f of None \<Rightarrow> [] | Some t \<Rightarrow> [t])"

definition WaitForReaders :: "nat \<Rightarrow> ProcessQueue \<Rightarrow> token list" where
  "WaitForReaders d s = concat (map (\<lambda>(src, ts). if d \<in> set ts then wait_on (lastAccess (checkpoint src s)) else []) (sq_relations s))"

definition dispatch_job :: "callbacks \<Rightarrow> Job \<Rightarrow> ProcessQueue \<Rightarrow> ProcessQueue" where
  "dispatch_job cb job s =
     s\<lparr>rtContexts := (rtContexts s)(job_connection job := cb_dispatch cb job (rtContexts s (job_connection job)))\<rparr>"

text \<open>A new future at the end of the queue of a checker.\<close>

definition completion :: "nat \<Rightarrow> ProcessQueue \<Rightarrow> token \<times> ProcessQueue" where
  "completion checker s = (length (issued s), s\<lparr>issued := issued s @ [checker]\<rparr>)"

definition log_check :: "nat \<Rightarrow> nat \<Rightarrow> token \<Rightarrow> bool \<Rightarrow> bool \<Rightarrow> nat list \<Rightarrow> ProcessQueue \<Rightarrow> ProcessQueue" where
  "log_check d c t access update rel s = s\<lparr>checks := checks s @ [\<lparr>en_device = d, en_checker = c, en_token = t, en_access = access,
     en_update = update, en_relations = rel, en_ready = ready s\<rparr>]\<rparr>"

definition invalid_peer :: "nat \<Rightarrow> PeerAccessRecord \<Rightarrow> bool" where
  "invalid_peer d r \<longleftrightarrow> pa_deviceId r \<noteq> int d \<or>
     (pa_operation r = PEER_ENABLE \<or> pa_operation r = PEER_DISABLE) \<and> (pa_peerDeviceId r < 0 \<or> pa_peerDeviceId r = int d) \<or>
     pa_operation r = PEER_RESET \<and> pa_peerDeviceId r \<noteq> -1"

definition peer_waits :: "nat \<Rightarrow> PeerAccessRecord \<Rightarrow> ProcessQueue \<Rightarrow> token list" where
  "peer_waits d r s =
     (case pa_operation r of
        PEER_RESET \<Rightarrow> (if targets_of d s \<noteq> [] then wait_on (lastAccess (checkpoint d s)) else []) @ WaitForReaders d s
      | PEER_ENABLE \<Rightarrow> (if nat (pa_peerDeviceId r) \<notin> set (targets_of d s) then wait_on (lastAccess (checkpoint d s)) else [])
      | PEER_DISABLE \<Rightarrow> (if nat (pa_peerDeviceId r) \<in> set (targets_of d s) then wait_on (lastAccess (checkpoint d s)) else []))"

definition peer_update :: "nat \<Rightarrow> PeerAccessRecord \<Rightarrow> ProcessQueue \<Rightarrow> ProcessQueue" where
  "peer_update d r s =
     (let p = nat (pa_peerDeviceId r) in
      case pa_operation r of
        PEER_ENABLE \<Rightarrow> s\<lparr>sq_relations := oput d (List.insert p (targets_of d s)) (sq_relations s)\<rparr>
      | PEER_DISABLE \<Rightarrow> s\<lparr>sq_relations := oput d (removeAll p (targets_of d s)) (sq_relations s)\<rparr>
      | PEER_RESET \<Rightarrow> s\<lparr>sq_relations := map (\<lambda>(a, ts). (a, removeAll d ts)) (oerase d (sq_relations s))\<rparr>)"

definition ipc_targets :: "callbacks \<Rightarrow> Job \<Rightarrow> ProcessQueue \<Rightarrow> nat list" where
  "ipc_targets cb job s =
     (case (job_packet job, cb_ipcUpdates cb) of
        (PK_IPC_RECORD DESTROY_INFO, Some f) \<Rightarrow> map fst [x \<leftarrow> sq_devices s. cp_checker (snd x) \<in> set (f job)]
      | _ \<Rightarrow> [])"

text \<open>The new future of an IPC target; for the own device the one of the packet is used again.\<close>

definition ipc_done :: "nat \<Rightarrow> token \<Rightarrow> nat \<Rightarrow> ProcessQueue \<Rightarrow> ProcessQueue" where
  "ipc_done d done_token t s =
     (let c = checkpoint t s in
      if t = d then log_check t (cp_checker c) done_token False True [] (put_checkpoint t (c\<lparr>lastUpdate := Some done_token, lastWork := Some done_token\<rparr>) s)
      else (case completion (cp_checker c) s of
              (f, s1) \<Rightarrow> log_check t (cp_checker c) f False True [] (put_checkpoint t (c\<lparr>lastUpdate := Some f, lastWork := Some f\<rparr>) s1)))"

text \<open>
  \<open>Execute\<close>: the futures it waits for, all before the dispatch, and the state afterwards. The parts are
  the branch of a peer access record and the branch of every other packet, at a device \<open>d\<close> whose
  checkpoint names the job already. Reading an entry with \<open>operator[]\<close> is a plain lookup here: the empty
  entry it may leave behind holds no future, no checker and no target.
\<close>

definition Execute_peer :: "callbacks \<Rightarrow> Job \<Rightarrow> nat \<Rightarrow> PeerAccessRecord \<Rightarrow> ProcessQueue \<Rightarrow> token list \<times> ProcessQueue" where
  "Execute_peer cb job d r s =
     (if invalid_peer d r then ([], Fail ''invalid peer access record'' s)
      else
        (let s2 = peer_update d r (dispatch_job cb job s);
             (done_token, s3) = completion (job_checker job) s2;
             s4 = put_checkpoint d ((checkpoint d s3)\<lparr>lastWork := Some done_token\<rparr>) s3
         in (peer_waits d r s, log_check d (job_checker job) done_token False False (targets_of d s) s4)))"

definition Execute_check :: "callbacks \<Rightarrow> Job \<Rightarrow> nat \<Rightarrow> ProcessQueue \<Rightarrow> token list \<times> ProcessQueue" where
  "Execute_check cb job d s =
     (let (access, update) = Classify (job_packet job);
          ipc = ipc_targets cb job s;
          waits = (if access then concat (map (\<lambda>t. wait_on (lastUpdate (checkpoint t s))) (targets_of d s)) else []) @
                  (if update then WaitForReaders d s else []) @ concat (map (\<lambda>t. WaitForReaders t s) ipc);
          (done_token, s1) = completion (job_checker job) (dispatch_job cb job s);
          c = (checkpoint d s1)\<lparr>lastWork := Some done_token\<rparr>;
          c1 = (if access then c\<lparr>lastAccess := Some done_token\<rparr> else c);
          c2 = (if update then c1\<lparr>lastUpdate := Some done_token\<rparr> else c1);
          s2 = log_check d (job_checker job) done_token access update (targets_of d s) (put_checkpoint d c2 s1)
      in (waits, fold (ipc_done d done_token) ipc s2))"

definition Execute :: "callbacks \<Rightarrow> Job \<Rightarrow> ProcessQueue \<Rightarrow> token list \<times> ProcessQueue" where
  "Execute cb job s =
     (if job_packet job = PK_LOG_STRING then ([], dispatch_job cb job s)
      else
        (let device = (case job_packet job of PK_DEVICE_SUMMARY d \<Rightarrow> d | _ \<Rightarrow> rtContexts s (job_connection job)) in
         if device < 0 then ([], Fail ''invalid deviceId'' s)
         else
           (let d = nat device;
                s1 = put_checkpoint d ((checkpoint d s)\<lparr>cp_checker := job_checker job, cp_connection := job_connection job\<rparr>) s in
            case job_packet job of
              PK_PEER_ACCESS_RECORD r \<Rightarrow> Execute_peer cb job d r s1
            | _ \<Rightarrow> Execute_check cb job d s1)))"

definition take_job :: "ProcessQueue \<Rightarrow> ProcessQueue" where
  "take_job s = s\<lparr>pendingJobMap := oerase (nextOrderId s) (pendingJobMap s), nextOrderId := nextOrderId s + 1,
     taken := taken s @ [the (map_of (pendingJobMap s) (nextOrderId s))]\<rparr>"

text \<open>
  The outer scheduler keeps one queue for every process and refuses packets once it is closed; closing
  it closes all queues.
\<close>

record OrderedPacketScheduler =
  processesQueueMap :: "ProcessQueue omap"
  sched_closed :: bool

definition Sched_Submit :: "nat \<Rightarrow> Job \<Rightarrow> OrderedPacketScheduler \<Rightarrow> OrderedPacketScheduler" where
  "Sched_Submit pid job p =
     (if sched_closed p then p
      else
        (let queue = (case map_of (processesQueueMap p) pid of None \<Rightarrow> ProcessQueue_new | Some q \<Rightarrow> q)
         in p\<lparr>processesQueueMap := oput pid (Queue_Submit job queue) (processesQueueMap p)\<rparr>))"

definition Sched_Finish :: "OrderedPacketScheduler \<Rightarrow> OrderedPacketScheduler" where
  "Sched_Finish p =
     (if sched_closed p then p
      else p\<lparr>sched_closed := True, processesQueueMap := map (\<lambda>(pid, q). (pid, q\<lparr>closing := True\<rparr>)) (processesQueueMap p)\<rparr>)"

text \<open>
  The end of \<open>Run\<close>, taken when the queue is closing and the next number has not arrived: the last
  futures of all devices, and the report of packets that were never taken.
\<close>

definition last_works :: "ProcessQueue \<Rightarrow> token list" where
  "last_works s = concat (map (\<lambda>(d, c). wait_on (lastWork c)) (sq_devices s))"

definition missing_packet :: string where
  "missing_packet = ''missing orderId or unconsumed packet''"

definition Run_end :: "ProcessQueue \<Rightarrow> ProcessQueue" where
  "Run_end s = (if pendingJobMap s \<noteq> [] then Fail missing_packet s else s)\<lparr>exited := True\<rparr>"

text \<open>
  The threads of one process: a receiving thread submits a job (the outer scheduler refuses it once it
  is closed), the worker takes the next job and dispatches it once its futures are ready, a checker
  reaches the oldest of its open markers, the main thread closes the queue, and the worker leaves its loop.
\<close>

inductive sched_step :: "callbacks \<Rightarrow> ProcessQueue \<Rightarrow> ProcessQueue \<Rightarrow> bool" for cb where
  submit: "\<not> closing s \<Longrightarrow> sched_step cb s (Queue_Submit job s)"
| run: "\<not> exited s \<Longrightarrow> map_of (pendingJobMap s) (nextOrderId s) = Some job \<Longrightarrow> Execute cb job (take_job s) = (waits, s') \<Longrightarrow>
    set waits \<subseteq> ready s \<Longrightarrow> sched_step cb s s'"
| complete: "t < length (issued s) \<Longrightarrow> \<forall>t'<t. issued s ! t' = issued s ! t \<longrightarrow> t' \<in> ready s \<Longrightarrow>
    sched_step cb s (s\<lparr>ready := insert t (ready s)\<rparr>)"
| close: "sched_step cb s (s\<lparr>closing := True\<rparr>)"
| leave: "\<not> exited s \<Longrightarrow> closing s \<Longrightarrow> map_of (pendingJobMap s) (nextOrderId s) = None \<Longrightarrow> set (last_works s) \<subseteq> ready s \<Longrightarrow>
    sched_step cb s (Run_end s)"

inductive scheduled :: "callbacks \<Rightarrow> ProcessQueue \<Rightarrow> bool" for cb where
  start: "scheduled cb ProcessQueue_new"
| step: "scheduled cb s \<Longrightarrow> sched_step cb s s' \<Longrightarrow> scheduled cb s'"

inductive_cases sched_stepE: "sched_step cb s s'"

section \<open>The outer scheduler\<close>

definition queue_of :: "nat \<Rightarrow> OrderedPacketScheduler \<Rightarrow> ProcessQueue" where
  "queue_of pid p = (case map_of (processesQueueMap p) pid of None \<Rightarrow> ProcessQueue_new | Some q \<Rightarrow> q)"

definition sched_inv :: "OrderedPacketScheduler \<Rightarrow> bool" where
  "sched_inv p \<longleftrightarrow> ordered (processesQueueMap p) \<and> (sched_closed p \<or> list_all (\<lambda>(pid, q). \<not> closing q) (processesQueueMap p))"

lemma queue_open: "sched_inv p \<Longrightarrow> \<not> sched_closed p \<Longrightarrow> \<not> closing (queue_of pid p)"
  by (auto simp: queue_of_def sched_inv_def list_all_iff ProcessQueue_new_def dest: map_of_SomeD split: option.split)

lemma list_all_oput: "list_all (\<lambda>(k, v). P v) xs \<Longrightarrow> P v \<Longrightarrow> list_all (\<lambda>(k, v). P v) (oput k v xs)"
  by (induction xs) auto

lemma closing_submit [simp]: "closing (Queue_Submit job q) = closing q"
  by (simp add: Queue_Submit_def Fail_def Let_def)

text \<open>To the queue of a process, the calls of the outer scheduler are steps of that queue or nothing.\<close>

lemma Sched_Submit_steps:
  assumes "sched_inv p"
  shows "sched_inv (Sched_Submit pid job p) \<and>
     (if pid' = pid \<and> \<not> sched_closed p then sched_step cb (queue_of pid' p) (queue_of pid' (Sched_Submit pid job p))
      else queue_of pid' (Sched_Submit pid job p) = queue_of pid' p)"
proof (cases "sched_closed p")
  case False
  have e: "Sched_Submit pid job p = p\<lparr>processesQueueMap := oput pid (Queue_Submit job (queue_of pid p)) (processesQueueMap p)\<rparr>"
    using False by (simp add: Sched_Submit_def queue_of_def Let_def)
  have o: "ordered (processesQueueMap p)" and a: "list_all (\<lambda>(pid, q). \<not> closing q) (processesQueueMap p)"
    using assms False by (simp_all add: sched_inv_def)
  have "sched_inv (Sched_Submit pid job p)"
    using o False list_all_oput [of "\<lambda>q. \<not> closing q", OF a] queue_open [OF assms False] unfolding e sched_inv_def by (simp add: ordered_oput)
  moreover have "queue_of pid' (Sched_Submit pid job p) = (if pid' = pid then Queue_Submit job (queue_of pid p) else queue_of pid' p)"
    unfolding e using o by (simp add: queue_of_def map_of_oput)
  ultimately show ?thesis using submit [OF queue_open [OF assms False]] False by (cases "pid' = pid") simp_all
qed (use assms in \<open>simp add: Sched_Submit_def\<close>)

lemma Sched_Finish_steps:
  assumes "sched_inv p"
  shows "sched_inv (Sched_Finish p) \<and> sched_closed (Sched_Finish p) \<and>
     (queue_of pid (Sched_Finish p) = queue_of pid p \<or> sched_step cb (queue_of pid p) (queue_of pid (Sched_Finish p)))"
proof -
  have m: "map_of (map (\<lambda>(pid, q). (pid, q\<lparr>closing := True\<rparr>)) m) x = map_option (\<lambda>q. q\<lparr>closing := True\<rparr>) (map_of m x)" for m :: "ProcessQueue omap" and x
    by (induction m) auto
  have f: "map fst (map (\<lambda>(pid, q). (pid, q\<lparr>closing := True\<rparr>)) m) = map fst m" for m :: "ProcessQueue omap" by (induction m) auto
  show ?thesis
    using assms close by (auto simp: Sched_Finish_def sched_inv_def ordered_def f queue_of_def m simp del: map_map split: option.split)
qed

section \<open>Order of the packets\<close>

lemma fold_ipc_keeps:
  "pendingJobMap (fold (ipc_done d t) ts s) = pendingJobMap s \<and> nextOrderId (fold (ipc_done d t) ts s) = nextOrderId s \<and>
   submitted (fold (ipc_done d t) ts s) = submitted s \<and> taken (fold (ipc_done d t) ts s) = taken s \<and> ready (fold (ipc_done d t) ts s) = ready s"
  by (induction ts arbitrary: s) (simp_all add: ipc_done_def log_check_def put_checkpoint_def completion_def Let_def)

lemmas fold_ipc_fields = fold_ipc_keeps [THEN conjunct1] fold_ipc_keeps [THEN conjunct2, THEN conjunct1]
  fold_ipc_keeps [THEN conjunct2, THEN conjunct2, THEN conjunct1] fold_ipc_keeps [THEN conjunct2, THEN conjunct2, THEN conjunct2, THEN conjunct1]
  fold_ipc_keeps [THEN conjunct2, THEN conjunct2, THEN conjunct2, THEN conjunct2]

lemma peer_update_keeps:
  "pendingJobMap (peer_update d r s) = pendingJobMap s" "nextOrderId (peer_update d r s) = nextOrderId s"
  "submitted (peer_update d r s) = submitted s" "taken (peer_update d r s) = taken s" "ready (peer_update d r s) = ready s"
  by (simp_all add: peer_update_def Let_def split: PeerAccessOp.split)

lemma Run_end_keeps:
  "pendingJobMap (Run_end s) = pendingJobMap s" "nextOrderId (Run_end s) = nextOrderId s"
  "submitted (Run_end s) = submitted s" "taken (Run_end s) = taken s"
  by (simp_all add: Run_end_def Fail_def)

definition same_queue :: "ProcessQueue \<Rightarrow> ProcessQueue \<Rightarrow> bool" where
  "same_queue s s' \<longleftrightarrow> pendingJobMap s' = pendingJobMap s \<and> nextOrderId s' = nextOrderId s \<and> submitted s' = submitted s \<and>
     taken s' = taken s \<and> ready s' = ready s"

lemma Execute_keeps: "same_queue s (snd (Execute cb job s))"
  by (cases "job_packet job")
     (simp_all add: same_queue_def Execute_def Execute_peer_def Execute_check_def Let_def case_prod_unfold dispatch_job_def Fail_def put_checkpoint_def
        completion_def log_check_def fold_ipc_fields peer_update_keeps)

definition first_job :: "nat \<Rightarrow> Job list \<Rightarrow> Job option" where
  "first_job k js = find (\<lambda>j. job_orderId j = k) js"

lemma first_job_snoc: "first_job k (js @ [j]) = (case first_job k js of Some x \<Rightarrow> Some x | None \<Rightarrow> if job_orderId j = k then Some j else None)"
  by (induction js) (simp_all add: first_job_def)

definition order_inv :: "ProcessQueue \<Rightarrow> bool" where
  "order_inv s \<longleftrightarrow> ordered (pendingJobMap s) \<and> 1 \<le> nextOrderId s \<and> map job_orderId (taken s) = [1 ..< nextOrderId s] \<and>
     (\<forall>job\<in>set (taken s). first_job (job_orderId job) (submitted s) = Some job) \<and>
     (\<forall>k. nextOrderId s \<le> k \<longrightarrow> map_of (pendingJobMap s) k = first_job k (submitted s)) \<and> (\<forall>k<nextOrderId s. map_of (pendingJobMap s) k = None)"

lemma order_inv_submit:
  assumes "order_inv s"
  shows "order_inv (Queue_Submit job s)"
proof -
  let ?s = "Queue_Submit job s" and ?k = "job_orderId job"
  have f: "nextOrderId ?s = nextOrderId s" "taken ?s = taken s" "submitted ?s = submitted s @ [job]"
    by (simp_all add: Queue_Submit_def Fail_def Let_def)
  have p: "pendingJobMap ?s = (if ?k = 0 \<or> ?k < nextOrderId s \<or> map_of (pendingJobMap s) ?k \<noteq> None then pendingJobMap s else oput ?k job (pendingJobMap s))"
    by (simp add: Queue_Submit_def Fail_def Let_def)
  show ?thesis
    using assms unfolding order_inv_def f p by (auto simp: first_job_snoc map_of_oput ordered_oput split: option.splits)
qed

lemma first_job_id: "first_job k js = Some j \<Longrightarrow> job_orderId j = k"
  by (auto simp: first_job_def find_Some_iff)

lemma order_inv_run:
  assumes "order_inv s" "map_of (pendingJobMap s) (nextOrderId s) = Some job" "same_queue (take_job s) s'"
  shows "order_inv s'"
proof -
  have k: "first_job (nextOrderId s) (submitted s) = Some job" using assms(1,2) by (simp add: order_inv_def)
  have n: "1 \<le> nextOrderId s" using assms(1) by (simp add: order_inv_def)
  have f: "nextOrderId s' = nextOrderId s + 1" "taken s' = taken s @ [job]" "submitted s' = submitted s"
      "pendingJobMap s' = oerase (nextOrderId s) (pendingJobMap s)"
    using assms(2,3) by (simp_all add: same_queue_def take_job_def)
  show ?thesis
    using assms(1) k first_job_id [OF k] n unfolding order_inv_def f by (auto simp: less_Suc_eq map_of_oerase ordered_oerase)
qed

lemma scheduled_order_inv: "scheduled cb s \<Longrightarrow> order_inv s"
proof (induction rule: scheduled.induct)
  case start
  show ?case by (simp add: order_inv_def ProcessQueue_new_def first_job_def)
next
  case (step s s')
  from step(2) step.IH show ?case
  proof cases
    case (run job waits)
    then show ?thesis using order_inv_run [OF step.IH run(2)] Execute_keeps [of "take_job s" cb job] by simp
  qed (simp_all add: order_inv_submit, simp_all add: order_inv_def Run_end_keeps)
qed

text \<open>
  C15. Packets are taken in the order of their numbers, whatever the order and the interleaving in which
  the connections deliver them: the jobs taken so far carry the numbers 1, 2, 3 and so on without gap
  or repetition, the job taken for a number is the first one submitted with it, and the next number is
  waiting exactly when it has been submitted.
\<close>
theorem packets_in_order:
  assumes "scheduled cb s"
  shows "map job_orderId (taken s) = [1 ..< nextOrderId s] \<and>
     (\<forall>job\<in>set (taken s). first_job (job_orderId job) (submitted s) = Some job) \<and>
     map_of (pendingJobMap s) (nextOrderId s) = first_job (nextOrderId s) (submitted s)"
  using scheduled_order_inv [OF assms] by (simp add: order_inv_def)

section \<open>Conflicting checks\<close>

text \<open>
  Two queued checks conflict when one may read the ranges of a device (an access of a device that is
  entitled to it) and the other changes them.
\<close>

definition conflict :: "entry \<Rightarrow> entry \<Rightarrow> bool" where
  "conflict a b \<longleftrightarrow> en_access a \<and> en_update b \<and> en_device b \<in> set (en_relations a) \<or>
     en_update a \<and> en_access b \<and> en_device a \<in> set (en_relations b)"

definition owned :: "(nat \<Rightarrow> nat) \<Rightarrow> ProcessQueue \<Rightarrow> bool" where
  "owned chk s \<longleftrightarrow> (\<forall>e\<in>set (checks s). en_checker e = chk (en_device e))"

definition covered :: "(nat \<Rightarrow> nat) \<Rightarrow> ProcessQueue \<Rightarrow> entry \<Rightarrow> token option \<Rightarrow> bool" where
  "covered chk s e f \<longleftrightarrow> (\<exists>t. f = Some t \<and> en_token e \<le> t \<and> t < length (issued s) \<and> issued s ! t = chk (en_device e))"

definition check_inv :: "(nat \<Rightarrow> nat) \<Rightarrow> ProcessQueue \<Rightarrow> bool" where
  "check_inv chk s \<longleftrightarrow> ordered (sq_devices s) \<and> ordered (sq_relations s) \<and> ready s \<subseteq> {..< length (issued s)} \<and>
     (\<forall>t\<in>ready s. \<forall>t'<t. issued s ! t' = issued s ! t \<longrightarrow> t' \<in> ready s) \<and>
     (\<forall>e\<in>set (checks s). en_token e < length (issued s) \<and> issued s ! en_token e = chk (en_device e)) \<and>
     (\<forall>e\<in>set (checks s). en_access e \<longrightarrow> covered chk s e (lastAccess (checkpoint (en_device e) s))) \<and>
     (\<forall>e\<in>set (checks s). en_update e \<longrightarrow> covered chk s e (lastUpdate (checkpoint (en_device e) s))) \<and>
     (\<forall>e\<in>set (checks s). en_access e \<longrightarrow> en_token e \<notin> ready s \<longrightarrow> set (en_relations e) = set (targets_of (en_device e) s)) \<and>
     sorted_wrt (\<lambda>a b. conflict a b \<longrightarrow> en_token a \<in> en_ready b) (checks s)"

lemma covered_ready:
  assumes "check_inv chk s" "e \<in> set (checks s)" "covered chk s e f" "set (wait_on f) \<subseteq> ready s"
  shows "en_token e \<in> ready s"
proof -
  obtain t where t: "f = Some t" "en_token e \<le> t" "issued s ! t = chk (en_device e)" using assms(3) by (auto simp: covered_def)
  then have "t \<in> ready s" using assms(4) by (simp add: wait_on_def)
  moreover have "issued s ! en_token e = issued s ! t" using assms(1,2) t(3) by (simp add: check_inv_def)
  ultimately show ?thesis using assms(1) t(2) unfolding check_inv_def by (metis le_neq_implies_less)
qed

lemma readers_ready:
  assumes "check_inv chk s" "e \<in> set (checks s)" "en_access e" "d \<in> set (targets_of (en_device e) s)" "set (WaitForReaders d s) \<subseteq> ready s"
  shows "en_token e \<in> ready s"
proof -
  obtain ts where ts: "map_of (sq_relations s) (en_device e) = Some ts" "d \<in> set ts"
    using assms(4) by (cases "map_of (sq_relations s) (en_device e)") (auto simp: targets_of_def)
  then have "(en_device e, ts) \<in> set (sq_relations s)" by (simp add: map_of_SomeD)
  then have "set (wait_on (lastAccess (checkpoint (en_device e) s))) \<subseteq> set (WaitForReaders d s)"
    using ts(2) by (force simp: WaitForReaders_def)
  moreover have "covered chk s e (lastAccess (checkpoint (en_device e) s))" using assms(1-3) by (simp add: check_inv_def)
  ultimately show ?thesis using covered_ready [OF assms(1,2)] assms(5) by blast
qed

lemma checkpoint_put: "ordered (sq_devices s) \<Longrightarrow> checkpoint x (put_checkpoint d c s) = (if x = d then c else checkpoint x s)"
  by (simp add: checkpoint_def put_checkpoint_def map_of_oput)

lemma put_fields [simp]: "issued (put_checkpoint d c s) = issued s" "ready (put_checkpoint d c s) = ready s"
  "checks (put_checkpoint d c s) = checks s" "sq_relations (put_checkpoint d c s) = sq_relations s"
  "targets_of x (put_checkpoint d c s) = targets_of x s"
  by (simp_all add: put_checkpoint_def targets_of_def)

text \<open>Only the futures of the checkpoints matter.\<close>

lemma check_inv_put:
  assumes "check_inv chk s" "lastAccess c = lastAccess (checkpoint d s)" "lastUpdate c = lastUpdate (checkpoint d s)"
  shows "check_inv chk (put_checkpoint d c s)"
proof -
  have o: "ordered (sq_devices s)" "ordered (sq_devices (put_checkpoint d c s))"
    using assms(1) by (simp_all add: check_inv_def put_checkpoint_def ordered_oput)
  have "lastAccess (checkpoint x (put_checkpoint d c s)) = lastAccess (checkpoint x s)"
    "lastUpdate (checkpoint x (put_checkpoint d c s)) = lastUpdate (checkpoint x s)" for x
    using checkpoint_put [OF o(1), of x d c] assms(2,3) by simp_all
  then show ?thesis using assms(1) o(2) unfolding check_inv_def covered_def by simp
qed

lemma check_inv_issue:
  assumes "check_inv chk s"
  shows "check_inv chk (s\<lparr>issued := issued s @ [c]\<rparr>)"
proof -
  have "checkpoint d (s\<lparr>issued := issued s @ [c]\<rparr>) = checkpoint d s" "targets_of d (s\<lparr>issued := issued s @ [c]\<rparr>) = targets_of d s" for d
    by (simp_all add: checkpoint_def targets_of_def)
  moreover have "covered chk s e f \<Longrightarrow> covered chk (s\<lparr>issued := issued s @ [c]\<rparr>) e f" for e f
    by (auto simp: covered_def nth_append)
  moreover have "issued (s\<lparr>issued := issued s @ [c]\<rparr>) ! t = issued s ! t" if "t < length (issued s)" for t using that by (simp add: nth_append)
  moreover have "t \<in> ready s \<Longrightarrow> t < length (issued s)" for t using assms by (auto simp: check_inv_def)
  ultimately show ?thesis using assms unfolding check_inv_def by (auto simp: less_Suc_eq)
qed

lemma check_inv_context: "check_inv chk (dispatch_job cb job s) = check_inv chk s"
  by (simp add: check_inv_def dispatch_job_def covered_def checkpoint_def targets_of_def)

text \<open>A new check of device \<open>d\<close> on its own checker, after the futures it depends on.\<close>

lemma add_check:
  assumes inv: "check_inv chk s" and f: "f < length (issued s)" "issued s ! f = chk d"
    and top: "\<forall>e\<in>set (checks s). en_device e = d \<longrightarrow> en_token e \<le> f"
    and reads: "access \<Longrightarrow> \<forall>t\<in>set (targets_of d s). set (wait_on (lastUpdate (checkpoint t s))) \<subseteq> ready s"
    and writes: "update \<Longrightarrow> set (WaitForReaders d s) \<subseteq> ready s"
    and c: "lastAccess c = (if access then Some f else lastAccess (checkpoint d s))"
      "lastUpdate c = (if update then Some f else lastUpdate (checkpoint d s))"
    and rel: "access \<Longrightarrow> rel = targets_of d s"
  shows "check_inv chk (log_check d (chk d) f access update rel (put_checkpoint d c s))"
proof -
  let ?s = "log_check d (chk d) f access update rel (put_checkpoint d c s)"
  define e where "e = \<lparr>en_device = d, en_checker = chk d, en_token = f, en_access = access, en_update = update,
     en_relations = rel, en_ready = ready s\<rparr>"
  have s: "checks ?s = checks s @ [e]" "issued ?s = issued s" "ready ?s = ready s" "sq_relations ?s = sq_relations s"
      "targets_of x ?s = targets_of x s" for x by (simp_all add: log_check_def e_def targets_of_def)
  have o: "ordered (sq_devices s)" "ordered (sq_relations s)" using inv by (simp_all add: check_inv_def)
  have od: "ordered (sq_devices ?s)" using o(1) by (simp add: log_check_def put_checkpoint_def ordered_oput)
  have cp: "checkpoint x ?s = (if x = d then c else checkpoint x s)" for x
    using checkpoint_put [OF o(1), of x d c] by (simp add: log_check_def checkpoint_def)
  have cov: "covered chk ?s x g = covered chk s x g" for x g by (simp add: covered_def s)
  have new: "covered chk s x (Some f)" if "x \<in> set (checks s)" "en_device x = d" for x
    using that top f by (simp add: covered_def)
  have acc: "covered chk ?s x (lastAccess (checkpoint (en_device x) ?s))" if "x \<in> set (checks s)" "en_access x" for x
  proof -
    have "covered chk s x (lastAccess (checkpoint (en_device x) s))" using inv that by (simp add: check_inv_def)
    then show ?thesis using new [OF that(1)] c(1) unfolding cov cp by (cases "en_device x = d"; cases access) simp_all
  qed
  have upd: "covered chk ?s x (lastUpdate (checkpoint (en_device x) ?s))" if "x \<in> set (checks s)" "en_update x" for x
  proof -
    have "covered chk s x (lastUpdate (checkpoint (en_device x) s))" using inv that by (simp add: check_inv_def)
    then show ?thesis using new [OF that(1)] c(2) unfolding cov cp by (cases "en_device x = d"; cases update) simp_all
  qed
  have own: "covered chk ?s e (Some f)" "access \<Longrightarrow> lastAccess (checkpoint d ?s) = Some f" "update \<Longrightarrow> lastUpdate (checkpoint d ?s) = Some f"
    using f c unfolding cov cp by (simp_all add: covered_def e_def)
  have order: "en_token x \<in> ready s" if x: "x \<in> set (checks s)" and conf: "conflict x e" for x
  proof -
    consider (reading) "access" "en_update x" "en_device x \<in> set (targets_of d s)" | (changing) "update" "en_access x" "d \<in> set (en_relations x)"
      using conf rel by (auto simp: conflict_def e_def)
    then show ?thesis
    proof cases
      case reading
      then have "covered chk s x (lastUpdate (checkpoint (en_device x) s))" using inv x by (simp add: check_inv_def)
      then show ?thesis using covered_ready [OF inv x] reads [OF reading(1)] reading(3) by blast
    next
      case changing
      show ?thesis
      proof (rule ccontr)
        assume "en_token x \<notin> ready s"
        then have "d \<in> set (targets_of (en_device x) s)" using inv x changing(2,3) by (auto simp: check_inv_def)
        then show False using readers_ready [OF inv x changing(2) _ writes [OF changing(1)]] \<open>en_token x \<notin> ready s\<close> by blast
      qed
    qed
  qed
  show ?thesis
    unfolding check_inv_def
  proof (intro conjI)
    show "\<forall>x\<in>set (checks ?s). en_token x < length (issued ?s) \<and> issued ?s ! en_token x = chk (en_device x)"
      using inv f unfolding s by (simp add: check_inv_def e_def)
    show "\<forall>x\<in>set (checks ?s). en_access x \<longrightarrow> covered chk ?s x (lastAccess (checkpoint (en_device x) ?s))"
      using acc own unfolding s(1) by (auto simp: e_def)
    show "\<forall>x\<in>set (checks ?s). en_update x \<longrightarrow> covered chk ?s x (lastUpdate (checkpoint (en_device x) ?s))"
      using upd own unfolding s(1) by (auto simp: e_def)
    show "\<forall>x\<in>set (checks ?s). en_access x \<longrightarrow> en_token x \<notin> ready ?s \<longrightarrow> set (en_relations x) = set (targets_of (en_device x) ?s)"
      using inv rel unfolding s by (simp add: check_inv_def e_def)
    show "sorted_wrt (\<lambda>a b. conflict a b \<longrightarrow> en_token a \<in> en_ready b) (checks ?s)"
      using inv order unfolding s(1) by (simp add: check_inv_def sorted_wrt_append) (simp add: e_def)
  qed (use inv o od in \<open>simp_all add: s check_inv_def\<close>)
qed

lemma peer_update_inv:
  assumes inv: "check_inv chk s" and w: "set (peer_waits d r s) \<subseteq> ready s"
  shows "check_inv chk (peer_update d r s)"
proof -
  let ?s = "peer_update d r s" and ?p = "nat (pa_peerDeviceId r)"
  have o: "ordered (sq_devices s)" "ordered (sq_relations s)" using inv by (simp_all add: check_inv_def)
  have keep: "checks ?s = checks s" "issued ?s = issued s" "ready ?s = ready s" "sq_devices ?s = sq_devices s"
    by (simp_all add: peer_update_def Let_def split: PeerAccessOp.split)
  have cp: "checkpoint x ?s = checkpoint x s" for x by (simp add: checkpoint_def keep)
  have map_snd: "map_of (map (\<lambda>(a, ts). (a, removeAll d ts)) m) x = map_option (removeAll d) (map_of m x)" for m :: "nat list omap" and x
    by (induction m) auto
  have fsts: "map fst (map (\<lambda>(a, ts). (a, removeAll d ts)) m) = map fst m" for m :: "nat list omap" by (induction m) auto
  have "ordered (map (\<lambda>(a, ts). (a, removeAll d ts)) (oerase d (sq_relations s)))"
    using ordered_oerase [OF o(2), of d] unfolding ordered_def fsts .
  then have ord: "ordered (sq_relations ?s)"
    using o(2) by (cases "pa_operation r") (simp_all add: peer_update_def ordered_oput Let_def)
  have t: "targets_of x ?s = (case pa_operation r of
      PEER_ENABLE \<Rightarrow> if x = d then List.insert ?p (targets_of d s) else targets_of x s
    | PEER_DISABLE \<Rightarrow> if x = d then removeAll ?p (targets_of d s) else targets_of x s
    | PEER_RESET \<Rightarrow> if x = d then [] else removeAll d (targets_of x s))" for x
    using o(2) by (cases "pa_operation r")
      (simp_all add: peer_update_def targets_of_def map_of_oput map_of_oerase map_snd Let_def split: option.split)
  have own: "en_token e \<in> ready s" if "e \<in> set (checks s)" "en_access e" "en_device e = d" "set (wait_on (lastAccess (checkpoint d s))) \<subseteq> ready s" for e
  proof -
    have "covered chk s e (lastAccess (checkpoint (en_device e) s))" using inv that(1,2) by (simp add: check_inv_def)
    then show ?thesis using covered_ready [OF inv that(1)] that(3,4) by simp
  qed
  have rel: "set (en_relations e) = set (targets_of (en_device e) ?s)" if e: "e \<in> set (checks s)" "en_access e" "en_token e \<notin> ready s" for e
  proof -
    have eq: "set (en_relations e) = set (targets_of (en_device e) s)" using inv e by (simp add: check_inv_def)
    have nw: "en_device e = d \<Longrightarrow> \<not> set (wait_on (lastAccess (checkpoint d s))) \<subseteq> ready s" using own e by blast
    have nr: "d \<in> set (targets_of (en_device e) s) \<Longrightarrow> \<not> set (WaitForReaders d s) \<subseteq> ready s" using readers_ready [OF inv e(1,2)] e(3) by blast
    show ?thesis
    proof (cases "pa_operation r")
      case PEER_ENABLE
      then show ?thesis using w nw eq by (auto simp: t peer_waits_def split: if_splits)
    next
      case PEER_DISABLE
      then show ?thesis using w nw eq by (auto simp: t peer_waits_def split: if_splits)
    next
      case PEER_RESET
      then have "en_device e = d \<Longrightarrow> targets_of d s = []" using w nw by (auto simp: peer_waits_def split: if_splits)
      moreover have "d \<notin> set (targets_of (en_device e) s)" using w nr PEER_RESET by (auto simp: peer_waits_def)
      ultimately show ?thesis using eq PEER_RESET by (auto simp: t)
    qed
  qed
  show ?thesis
    using inv ord rel unfolding check_inv_def keep cp covered_def by simp
qed


section \<open>Preservation\<close>

lemma WaitForReaders_cong:
  "sq_relations s' = sq_relations s \<Longrightarrow> (\<And>y. lastAccess (checkpoint y s') = lastAccess (checkpoint y s)) \<Longrightarrow> WaitForReaders x s' = WaitForReaders x s"
  by (simp add: WaitForReaders_def cong: if_cong)

lemma unused_fields [simp]:
  "checkpoint x (s\<lparr>issued := i\<rparr>) = checkpoint x s" "checkpoint x (s\<lparr>rtContexts := c\<rparr>) = checkpoint x s"
  "targets_of x (s\<lparr>issued := i\<rparr>) = targets_of x s" "targets_of x (s\<lparr>rtContexts := c\<rparr>) = targets_of x s"
  "WaitForReaders x (s\<lparr>issued := i\<rparr>) = WaitForReaders x s" "WaitForReaders x (s\<lparr>rtContexts := c\<rparr>) = WaitForReaders x s"
proof -
  show c: "checkpoint x (s\<lparr>issued := i\<rparr>) = checkpoint x s" "checkpoint x (s\<lparr>rtContexts := c\<rparr>) = checkpoint x s" for x
    by (simp_all add: checkpoint_def)
  show "WaitForReaders x (s\<lparr>issued := i\<rparr>) = WaitForReaders x s" "WaitForReaders x (s\<lparr>rtContexts := c\<rparr>) = WaitForReaders x s"
    by (rule WaitForReaders_cong; simp add: c)+
qed (simp_all add: targets_of_def)

lemma check_inv_Fail: "check_inv chk (Fail r s) = check_inv chk s"
  by (simp add: check_inv_def Fail_def covered_def checkpoint_def targets_of_def)

lemma ipc_done_checks:
  "\<exists>e. checks (ipc_done d f t s) = checks s @ [e] \<and> en_checker e = cp_checker (checkpoint t s) \<and> en_device e = t \<and> (t = d \<longrightarrow> en_token e = f)"
  by (simp add: ipc_done_def completion_def log_check_def Let_def)

lemma fold_ipc_prefix: "prefix (checks s) (checks (fold (ipc_done d f) ts s))"
proof (induction ts arbitrary: s)
  case (Cons t ts)
  have "prefix (checks s) (checks (ipc_done d f t s))" using ipc_done_checks [of d f t s] by (auto simp: prefix_def)
  then show ?case using Cons [of "ipc_done d f t s"] by (simp add: prefix_order.order_trans)
qed simp

lemma owned_prefix: "owned chk s' \<Longrightarrow> prefix (checks s) (checks s') \<Longrightarrow> owned chk s"
  by (auto simp: owned_def prefix_def)

lemma ipc_done_inv:
  assumes inv: "check_inv chk s" and own: "owned chk (ipc_done d f t s)" and f: "f < length (issued s)" "issued s ! f = chk d"
    and top: "\<forall>e\<in>set (checks s). en_device e = d \<longrightarrow> en_token e \<le> f" and w: "set (WaitForReaders t s) \<subseteq> ready s"
  shows "check_inv chk (ipc_done d f t s)"
proof -
  have c: "cp_checker (checkpoint t s) = chk t" using own ipc_done_checks [of d f t s] by (auto simp: owned_def)
  show ?thesis
  proof (cases "t = d")
    case True
    then show ?thesis
      using add_check [OF inv, of f d False True "(checkpoint d s)\<lparr>lastUpdate := Some f, lastWork := Some f\<rparr>" "[]"] f top w c
      by (simp add: ipc_done_def Let_def)
  next
    case False
    let ?f = "length (issued s)" and ?s = "s\<lparr>issued := issued s @ [chk t]\<rparr>"
    have i: "check_inv chk ?s" by (rule check_inv_issue [OF inv])
    have "\<forall>e\<in>set (checks ?s). en_device e = t \<longrightarrow> en_token e \<le> ?f" using inv by (auto simp: check_inv_def)
    then show ?thesis
      using add_check [OF i, of ?f t False True "(checkpoint t s)\<lparr>lastUpdate := Some ?f, lastWork := Some ?f\<rparr>" "[]"] False w c
      by (simp add: ipc_done_def completion_def Let_def)
  qed
qed

lemma ipc_done_keeps:
  assumes "ordered (sq_devices s)"
  shows "WaitForReaders x (ipc_done d f t s) = WaitForReaders x s" "ready (ipc_done d f t s) = ready s"
    "prefix (issued s) (issued (ipc_done d f t s))"
proof -
  have "lastAccess (checkpoint y (ipc_done d f t s)) = lastAccess (checkpoint y s)" for y
    using assms by (simp add: ipc_done_def completion_def log_check_def put_checkpoint_def checkpoint_def map_of_oput Let_def)
  moreover have "sq_relations (ipc_done d f t s) = sq_relations s"
    by (simp add: ipc_done_def completion_def log_check_def Let_def)
  ultimately show "WaitForReaders x (ipc_done d f t s) = WaitForReaders x s" for x by (rule WaitForReaders_cong [rotated])
qed (simp_all add: ipc_done_def completion_def log_check_def Let_def)

lemma ipc_fold_inv:
  assumes "check_inv chk s" "owned chk (fold (ipc_done d f) ts s)" "f < length (issued s)" "issued s ! f = chk d"
    "\<forall>e\<in>set (checks s). en_device e = d \<longrightarrow> en_token e \<le> f" "\<forall>t\<in>set ts. set (WaitForReaders t s) \<subseteq> ready s"
  shows "check_inv chk (fold (ipc_done d f) ts s)"
  using assms
proof (induction ts arbitrary: s)
  case (Cons t ts)
  let ?s = "ipc_done d f t s"
  have o: "ordered (sq_devices s)" using Cons.prems(1) by (simp add: check_inv_def)
  note k = ipc_done_keeps [OF o, where d = d and f = f and t = t]
  have own: "owned chk ?s" using Cons.prems(2) owned_prefix [OF _ fold_ipc_prefix] by simp
  have inv: "check_inv chk ?s" using ipc_done_inv [OF Cons.prems(1) own] Cons.prems(3-6) by simp
  obtain e where e: "checks ?s = checks s @ [e]" "en_device e = t" "t = d \<longrightarrow> en_token e = f" using ipc_done_checks [of d f t s] by blast
  have "f < length (issued ?s) \<and> issued ?s ! f = chk d" using k(3) Cons.prems(3,4) by (auto simp: prefix_def nth_append)
  moreover have "\<forall>e\<in>set (checks ?s). en_device e = d \<longrightarrow> en_token e \<le> f" using Cons.prems(5) e by auto
  ultimately show ?case using Cons.IH [OF inv] Cons.prems(2,6) k(1,2) by simp
qed simp

lemma Execute_peer_inv:
  assumes inv: "check_inv chk s" and own: "owned chk (snd (Execute_peer cb job d r s))" and w: "set (fst (Execute_peer cb job d r s)) \<subseteq> ready s"
  shows "check_inv chk (snd (Execute_peer cb job d r s))"
proof (cases "invalid_peer d r")
  case True
  then show ?thesis using inv by (simp add: Execute_peer_def check_inv_Fail)
next
  case False
  let ?s1 = "dispatch_job cb job s" and ?j = "job_checker job"
  let ?s2 = "peer_update d r ?s1"
  let ?f = "length (issued ?s2)" and ?s3 = "?s2\<lparr>issued := issued ?s2 @ [job_checker job]\<rparr>"
  let ?c = "(checkpoint d ?s3)\<lparr>lastWork := Some ?f\<rparr>"
  have e: "snd (Execute_peer cb job d r s) = log_check d ?j ?f False False (targets_of d s) (put_checkpoint d ?c ?s3)"
      "fst (Execute_peer cb job d r s) = peer_waits d r s"
    using False by (simp_all add: Execute_peer_def completion_def Let_def)
  have "peer_waits d r ?s1 = peer_waits d r s" "ready ?s1 = ready s"
    by (simp_all add: peer_waits_def dispatch_job_def split: PeerAccessOp.split)
  then have "check_inv chk ?s2" using peer_update_inv [of chk ?s1 d r] inv w e(2) by (simp add: check_inv_context)
  then have i: "check_inv chk ?s3" by (rule check_inv_issue)
  have j: "?j = chk d" using own unfolding e by (simp add: owned_def log_check_def)
  have "\<forall>e\<in>set (checks ?s3). en_device e = d \<longrightarrow> en_token e \<le> ?f" using \<open>check_inv chk ?s2\<close> by (auto simp: check_inv_def)
  then show ?thesis unfolding e using add_check [OF i, of ?f d False False ?c "targets_of d s"] j by simp
qed

lemma ipc_targets_none: "fst (Classify (job_packet job)) \<Longrightarrow> ipc_targets cb job s = []"
  by (cases "job_packet job") (auto simp: ipc_targets_def split: IPCOperationType.split option.split)

lemma Execute_check_inv:
  assumes inv: "check_inv chk s" and own: "owned chk (snd (Execute_check cb job d s))" and w: "set (fst (Execute_check cb job d s)) \<subseteq> ready s"
  shows "check_inv chk (snd (Execute_check cb job d s))"
proof -
  obtain access update where cl: "Classify (job_packet job) = (access, update)" by force
  let ?s1 = "dispatch_job cb job s" and ?j = "job_checker job" and ?ipc = "ipc_targets cb job s"
  let ?f = "length (issued s)" and ?s2 = "(dispatch_job cb job s)\<lparr>issued := issued s @ [job_checker job]\<rparr>"
  define c where "c = (let c = (checkpoint d ?s2)\<lparr>lastWork := Some ?f\<rparr>; c1 = (if access then c\<lparr>lastAccess := Some ?f\<rparr> else c)
     in if update then c1\<lparr>lastUpdate := Some ?f\<rparr> else c1)"
  let ?s3 = "log_check d ?j ?f access update (targets_of d s) (put_checkpoint d c ?s2)"
  have i1: "issued ?s1 = issued s" by (simp add: dispatch_job_def)
  have e: "snd (Execute_check cb job d s) = fold (ipc_done d ?f) ?ipc ?s3"
      "fst (Execute_check cb job d s) = (if access then concat (map (\<lambda>t. wait_on (lastUpdate (checkpoint t s))) (targets_of d s)) else []) @
                  (if update then WaitForReaders d s else []) @ concat (map (\<lambda>t. WaitForReaders t s) ?ipc)"
    by (simp_all add: Execute_check_def cl completion_def Let_def c_def i1)
  have k: "checkpoint x ?s2 = checkpoint x s" "targets_of x ?s2 = targets_of x s" "WaitForReaders x ?s2 = WaitForReaders x s" "ready ?s2 = ready s"
      "checks ?s2 = checks s" for x
    by (simp_all add: dispatch_job_def)
  have c: "lastAccess c = (if access then Some ?f else lastAccess (checkpoint d s))" "lastUpdate c = (if update then Some ?f else lastUpdate (checkpoint d s))"
    by (simp_all add: c_def k Let_def dispatch_job_def)
  have j: "?j = chk d" using owned_prefix [OF own [unfolded e] fold_ipc_prefix] by (simp add: owned_def log_check_def)
  have "check_inv chk (?s1\<lparr>issued := issued ?s1 @ [?j]\<rparr>)" using check_inv_issue [of chk ?s1 ?j] inv by (simp add: check_inv_context)
  then have i: "check_inv chk ?s2" by (simp only: i1)
  have top: "\<forall>e\<in>set (checks s). en_device e = d \<longrightarrow> en_token e \<le> ?f" using inv by (auto simp: check_inv_def)
  have i3: "check_inv chk ?s3"
    using add_check [OF i, of ?f d access update c "targets_of d s"] w top c j unfolding e(2) k by auto
  show ?thesis
  proof (cases "access")
    case True
    then have "?ipc = []" using ipc_targets_none cl by simp
    then show ?thesis using i3 unfolding e by simp
  next
    case False
    have o: "ordered (sq_devices ?s2)" using i by (simp add: check_inv_def)
    have "lastAccess (checkpoint y ?s3) = lastAccess (checkpoint y s)" for y
      using checkpoint_put [OF o, of y d c] False c k(1) by (simp add: log_check_def checkpoint_def)
    then have wf: "WaitForReaders x ?s3 = WaitForReaders x s" for x
      by (intro WaitForReaders_cong) (simp_all add: log_check_def dispatch_job_def)
    have "\<forall>t\<in>set ?ipc. set (WaitForReaders t ?s3) \<subseteq> ready ?s3" using w unfolding wf e(2) by (auto simp: log_check_def dispatch_job_def)
    moreover have "\<forall>e\<in>set (checks ?s3). en_device e = d \<longrightarrow> en_token e \<le> ?f" using top by (simp add: log_check_def dispatch_job_def)
    moreover have "issued ?s3 = issued s @ [?j]" by (simp add: log_check_def)
    ultimately show ?thesis using ipc_fold_inv [OF i3 own [unfolded e]] j unfolding e by simp
  qed
qed

lemma Execute_inv:
  assumes inv: "check_inv chk s" and own: "owned chk (snd (Execute cb job s))" and w: "set (fst (Execute cb job s)) \<subseteq> ready s"
  shows "check_inv chk (snd (Execute cb job s))"
proof -
  let ?v = "case job_packet job of PK_DEVICE_SUMMARY d \<Rightarrow> d | _ \<Rightarrow> rtContexts s (job_connection job)"
  let ?s = "put_checkpoint (nat ?v) ((checkpoint (nat ?v) s)\<lparr>cp_checker := job_checker job, cp_connection := job_connection job\<rparr>) s"
  have i: "check_inv chk ?s" by (rule check_inv_put [OF inv]) simp_all
  consider (log) "job_packet job = PK_LOG_STRING" | (bad) "job_packet job \<noteq> PK_LOG_STRING" "?v < 0"
    | (peer) r where "job_packet job = PK_PEER_ACCESS_RECORD r" "\<not> ?v < 0"
    | (check) "Execute cb job s = Execute_check cb job (nat ?v) ?s"
    by (cases "?v < 0"; cases "job_packet job") (simp_all add: Execute_def Let_def)
  then show ?thesis
  proof cases
    case log
    then show ?thesis using inv by (simp add: Execute_def check_inv_context)
  next
    case bad
    then have "Execute cb job s = ([], Fail ''invalid deviceId'' s)" by (simp add: Execute_def Let_def)
    then show ?thesis using inv by (simp add: check_inv_Fail)
  next
    case peer
    then have "Execute cb job s = Execute_peer cb job (nat ?v) r ?s" by (simp add: Execute_def Let_def)
    then show ?thesis using Execute_peer_inv [OF i] own w by simp
  next
    case check
    then show ?thesis using Execute_check_inv [OF i] own w by simp
  qed
qed

lemma check_inv_ready:
  assumes inv: "check_inv chk s" and t: "t < length (issued s)" "\<forall>t'<t. issued s ! t' = issued s ! t \<longrightarrow> t' \<in> ready s"
  shows "check_inv chk (s\<lparr>ready := insert t (ready s)\<rparr>)"
proof -
  have "checkpoint x (s\<lparr>ready := insert t (ready s)\<rparr>) = checkpoint x s" "targets_of x (s\<lparr>ready := insert t (ready s)\<rparr>) = targets_of x s" for x
    by (simp_all add: checkpoint_def targets_of_def)
  then show ?thesis using inv t unfolding check_inv_def covered_def by simp
qed

lemma check_inv_other:
  "check_inv chk (s\<lparr>closing := b\<rparr>) = check_inv chk s" "check_inv chk (s\<lparr>exited := b\<rparr>) = check_inv chk s"
  "check_inv chk (Queue_Submit job s) = check_inv chk s" "check_inv chk (take_job s) = check_inv chk s"
  by (simp_all add: check_inv_def covered_def checkpoint_def targets_of_def Queue_Submit_def take_job_def Fail_def Let_def)

lemma check_inv_Run_end: "check_inv chk (Run_end s) = check_inv chk s"
  by (simp add: Run_end_def check_inv_other check_inv_Fail)

lemma Execute_prefix: "prefix (checks s) (checks (snd (Execute cb job s)))"
proof -
  have p: "prefix (checks s) (checks (snd (Execute_peer cb job d r (put_checkpoint x c s))))" for d r x c
    by (simp add: Execute_peer_def completion_def Let_def log_check_def peer_update_def dispatch_job_def Fail_def split: PeerAccessOp.split)
  have "\<exists>ts f s'. snd (Execute_check cb job d s1) = fold (ipc_done d f) ts s' \<and> prefix (checks s1) (checks s')" for d s1
    by (intro exI conjI, simp add: Execute_check_def case_prod_unfold Let_def) (simp add: log_check_def completion_def dispatch_job_def)
  then have q: "prefix (checks s1) (checks (snd (Execute_check cb job d s1)))" for d s1
    by (metis fold_ipc_prefix prefix_order.order_trans)
  have q: "prefix (checks s) (checks (snd (Execute_check cb job d (put_checkpoint x c s))))" for d x c
    using q [of "put_checkpoint x c s" d] by simp
  show ?thesis by (cases "job_packet job") (simp_all add: Execute_def Let_def p q dispatch_job_def Fail_def)
qed

lemma scheduled_check_inv:
  assumes "scheduled cb s" "owned chk s"
  shows "check_inv chk s"
  using assms
proof induction
  case start
  show ?case by (simp add: check_inv_def ProcessQueue_new_def ordered_def)
next
  case (step s s')
  from step(2) show ?case
  proof cases
    case (submit job)
    moreover have "checks (Queue_Submit job s) = checks s" by (simp add: Queue_Submit_def Fail_def Let_def)
    ultimately show ?thesis using step by (simp add: check_inv_other owned_def)
  next
    case (run job waits)
    have e: "s' = snd (Execute cb job (take_job s))" "waits = fst (Execute cb job (take_job s))" using run(3) by simp_all
    have "owned chk s" using owned_prefix [of chk s' "take_job s"] Execute_prefix [of "take_job s" cb job] step.prems
      unfolding e by (simp add: owned_def take_job_def)
    then have "check_inv chk (take_job s)" using step.IH by (simp add: check_inv_other)
    then show ?thesis using Execute_inv [of chk "take_job s" cb job] step.prems run(4) unfolding e by (simp add: take_job_def)
  next
    case (complete t)
    then show ?thesis using step check_inv_ready by (simp add: owned_def)
  next
    case close
    then show ?thesis using step by (simp add: check_inv_other owned_def)
  next
    case leave
    moreover have "checks (Run_end s) = checks s" by (simp add: Run_end_def Fail_def)
    ultimately show ?thesis using step by (simp add: check_inv_Run_end owned_def)
  qed
qed

text \<open>
  C13. In every run of the scheduler in which each device keeps its checker, of two conflicting checks
  (one that may read the ranges of a device and one that changes them) the later one is dispatched only
  after the earlier one is done: the marker behind the earlier check was reached when the later packet
  was dispatched. Permissions may come and go in between.
\<close>
theorem conflicting_checks_ordered:
  assumes "scheduled cb s" and "owned chk s"
  shows "sorted_wrt (\<lambda>a b. conflict a b \<longrightarrow> en_token a \<in> en_ready b) (checks s)"
  using scheduled_check_inv [OF assms] by (simp add: check_inv_def)

section \<open>Lost packets and progress\<close>

definition same_report :: "ProcessQueue \<Rightarrow> ProcessQueue \<Rightarrow> bool" where
  "same_report s s' \<longleftrightarrow> closing s' = closing s \<and> exited s' = exited s \<and> (missing_packet \<in> set (failures s') \<longleftrightarrow> missing_packet \<in> set (failures s))"

lemma fold_ipc_report: "same_report s (fold (ipc_done d t) ts s)"
  by (induction ts arbitrary: s) (simp_all add: same_report_def ipc_done_def log_check_def put_checkpoint_def completion_def Let_def)

lemma same_report_trans: "same_report s s1 \<Longrightarrow> same_report s1 s2 \<Longrightarrow> same_report s s2"
  by (simp add: same_report_def)

lemma Execute_report: "same_report s (snd (Execute cb job s))"
proof -
  have p: "same_report s (snd (Execute_peer cb job d r (put_checkpoint x c s)))" for d r x c
    by (simp add: same_report_def Execute_peer_def completion_def Let_def log_check_def peer_update_def dispatch_job_def Fail_def put_checkpoint_def
        missing_packet_def split: PeerAccessOp.split)
  have "\<exists>ts f s'. snd (Execute_check cb job d s1) = fold (ipc_done d f) ts s' \<and> same_report s1 s'" for d s1
    by (intro exI conjI, simp add: Execute_check_def case_prod_unfold Let_def)
       (simp add: same_report_def log_check_def completion_def dispatch_job_def put_checkpoint_def)
  then have q: "same_report s1 (snd (Execute_check cb job d s1))" for d s1
    by (metis fold_ipc_report same_report_trans)
  have q: "same_report s (snd (Execute_check cb job d (put_checkpoint x c s)))" for d x c
    using q [of "put_checkpoint x c s" d] by (simp add: same_report_def put_checkpoint_def)
  have r: "same_report s (Fail ''invalid deviceId'' s)" by (simp add: same_report_def Fail_def missing_packet_def)
  show ?thesis by (cases "job_packet job") (simp_all add: Execute_def Let_def p q r, simp_all add: dispatch_job_def same_report_def)
qed

definition report_inv :: "ProcessQueue \<Rightarrow> bool" where
  "report_inv s \<longleftrightarrow> (if exited s then closing s \<and> (missing_packet \<in> set (failures s) \<longleftrightarrow> pendingJobMap s \<noteq> [])
     else missing_packet \<notin> set (failures s))"

lemma scheduled_report_inv: "scheduled cb s \<Longrightarrow> report_inv s"
proof (induction rule: scheduled.induct)
  case start
  show ?case by (simp add: report_inv_def ProcessQueue_new_def)
next
  case (step s s')
  from step(2) step.IH show ?case
  proof cases
    case (submit job)
    have "same_report s (Queue_Submit job s)" by (simp add: same_report_def Queue_Submit_def Fail_def missing_packet_def Let_def)
    then show ?thesis using step.IH submit by (auto simp: report_inv_def same_report_def)
  next
    case (run job waits)
    then show ?thesis using step.IH Execute_report [of "take_job s" cb job] by (simp add: report_inv_def same_report_def take_job_def)
  qed (simp_all add: report_inv_def, simp add: Run_end_def Fail_def)
qed

text \<open>
  C17. When the worker has left its loop, the detection is reported as incomplete exactly when some
  submitted packet was never taken, that is when a packet arrived whose number lies beyond a gap.
\<close>
theorem lost_packets_reported:
  assumes "scheduled cb s" and "exited s"
  shows "missing_packet \<in> set (failures s) \<longleftrightarrow> (\<exists>job\<in>set (submitted s). nextOrderId s \<le> job_orderId job)"
proof -
  have r: "missing_packet \<in> set (failures s) \<longleftrightarrow> (\<exists>k. map_of (pendingJobMap s) k \<noteq> None)"
    using scheduled_report_inv [OF assms(1)] assms(2) by (cases "pendingJobMap s") (auto simp: report_inv_def)
  have "map_of (pendingJobMap s) k \<noteq> None \<longleftrightarrow> nextOrderId s \<le> k \<and> first_job k (submitted s) \<noteq> None" for k
    using scheduled_order_inv [OF assms(1)] by (cases "nextOrderId s \<le> k") (auto simp: order_inv_def)
  moreover have "first_job k (submitted s) \<noteq> None \<longleftrightarrow> (\<exists>job\<in>set (submitted s). job_orderId job = k)" for k
    by (simp only: first_job_def find_None_iff Bex_def not_not)
  ultimately show ?thesis using r by auto
qed

text \<open>The futures in the checkpoints were handed out earlier, so a checker can always reach them.\<close>

definition future_ok :: "nat \<Rightarrow> DeviceWorkCheckPoints \<Rightarrow> bool" where
  "future_ok n c \<longleftrightarrow> set (wait_on (lastAccess c) @ wait_on (lastUpdate c) @ wait_on (lastWork c)) \<subseteq> {..<n}"

definition token_inv :: "ProcessQueue \<Rightarrow> bool" where
  "token_inv s \<longleftrightarrow> ordered (sq_devices s) \<and> (\<forall>d. future_ok (length (issued s)) (checkpoint d s))"

lemma wait_on_Some [simp]: "wait_on (Some t) = [t]" "wait_on None = []"
  by (simp_all add: wait_on_def)

lemma token_inv_put: "token_inv s \<Longrightarrow> future_ok (length (issued s)) c \<Longrightarrow> token_inv (put_checkpoint d c s)"
  by (simp add: token_inv_def checkpoint_put) (simp add: put_checkpoint_def ordered_oput)

lemma future_ok_mono: "future_ok n c \<Longrightarrow> n \<le> m \<Longrightarrow> future_ok m c"
  by (auto simp: future_ok_def)

lemma token_inv_issue: "token_inv s \<Longrightarrow> token_inv (s\<lparr>issued := issued s @ [c]\<rparr>)"
  by (auto simp: token_inv_def intro: future_ok_mono)

lemma token_inv_cong:
  "sq_devices s' = sq_devices s \<Longrightarrow> issued s' = issued s \<Longrightarrow> token_inv s' = token_inv s"
  by (simp add: token_inv_def checkpoint_def)

lemma token_inv_log [simp]: "token_inv (log_check d c t a u rel s) = token_inv s" "token_inv (dispatch_job cb job s) = token_inv s"
  "token_inv (Fail reason s) = token_inv s" "token_inv (peer_update d r s) = token_inv s" "token_inv (take_job s) = token_inv s"
  "token_inv (Queue_Submit job s) = token_inv s" "token_inv (Run_end s) = token_inv s" "token_inv (s\<lparr>ready := x\<rparr>) = token_inv s"
  "token_inv (s\<lparr>closing := b\<rparr>) = token_inv s"
  by (rule token_inv_cong; simp add: log_check_def dispatch_job_def Fail_def peer_update_def take_job_def Queue_Submit_def Run_end_def Let_def
        split: PeerAccessOp.split)+

lemma future_okD: "token_inv s \<Longrightarrow> future_ok (length (issued s)) (checkpoint d s)"
  by (simp add: token_inv_def)

lemma token_inv_new:
  assumes "token_inv s"
  shows "token_inv (put_checkpoint d ((checkpoint d s)\<lparr>lastWork := Some (length (issued s))\<rparr>) (s\<lparr>issued := issued s @ [c]\<rparr>))"
    "token_inv (put_checkpoint d ((checkpoint d s)\<lparr>lastUpdate := Some (length (issued s)), lastWork := Some (length (issued s))\<rparr>) (s\<lparr>issued := issued s @ [c]\<rparr>))"
  using token_inv_issue [OF assms, of c] future_ok_mono [OF future_okD [OF assms, of d], of "Suc (length (issued s))"]
  by (auto intro!: token_inv_put simp: future_ok_def)

lemma ipc_done_token:
  assumes "token_inv s" "f < length (issued s)"
  shows "token_inv (ipc_done d f t s) \<and> f < length (issued (ipc_done d f t s))"
proof (cases "t = d")
  case True
  have "token_inv (put_checkpoint d ((checkpoint d s)\<lparr>lastUpdate := Some f, lastWork := Some f\<rparr>) s)"
    using assms future_okD [OF assms(1), of d] by (auto intro!: token_inv_put simp: future_ok_def)
  then show ?thesis using True assms(2) by (simp add: ipc_done_def Let_def) (simp add: log_check_def)
next
  case False
  then show ?thesis using assms token_inv_new(2) [OF assms(1)] by (simp add: ipc_done_def completion_def Let_def) (simp add: log_check_def)
qed

lemma fold_ipc_token: "token_inv s \<Longrightarrow> f < length (issued s) \<Longrightarrow> token_inv (fold (ipc_done d f) ts s)"
  by (induction ts arbitrary: s) (simp_all add: ipc_done_token)

lemma WaitForReaders_old: "token_inv s \<Longrightarrow> set (WaitForReaders d s) \<subseteq> {..<length (issued s)}"
  by (auto simp: WaitForReaders_def token_inv_def future_ok_def split: if_splits)

lemma Execute_peer_token:
  assumes "token_inv s"
  shows "token_inv (snd (Execute_peer cb job d r s)) \<and> set (fst (Execute_peer cb job d r s)) \<subseteq> {..<length (issued s)}"
proof
  have "set (peer_waits d r s) \<subseteq> {..<length (issued s)}"
    using WaitForReaders_old [OF assms, of d] future_okD [OF assms, of d] by (auto simp: peer_waits_def future_ok_def split: PeerAccessOp.split)
  then show "set (fst (Execute_peer cb job d r s)) \<subseteq> {..<length (issued s)}" by (simp add: Execute_peer_def completion_def Let_def)
  show "token_inv (snd (Execute_peer cb job d r s))"
    using assms token_inv_new(1) [of "peer_update d r (dispatch_job cb job s)"] by (simp add: Execute_peer_def completion_def Let_def)
qed

lemma Execute_check_token:
  assumes "token_inv s"
  shows "token_inv (snd (Execute_check cb job d s)) \<and> set (fst (Execute_check cb job d s)) \<subseteq> {..<length (issued s)}"
proof
  obtain access update where cl: "Classify (job_packet job) = (access, update)" by force
  have "set (wait_on (lastUpdate (checkpoint t s))) \<subseteq> {..<length (issued s)}" for t
    using future_okD [OF assms, of t] by (simp add: future_ok_def)
  then show "set (fst (Execute_check cb job d s)) \<subseteq> {..<length (issued s)}"
    using WaitForReaders_old [OF assms] by (auto simp: Execute_check_def cl completion_def Let_def)
  let ?s = "dispatch_job cb job s"
  let ?f = "length (issued ?s)" and ?s1 = "?s\<lparr>issued := issued ?s @ [job_checker job]\<rparr>"
  have i: "token_inv ?s1" using assms token_inv_issue [of ?s] by simp
  then have "future_ok (length (issued ?s1)) (checkpoint d ?s1)" by (rule future_okD)
  then have "token_inv (put_checkpoint d (let c = (checkpoint d ?s1)\<lparr>lastWork := Some ?f\<rparr>; c1 = (if access then c\<lparr>lastAccess := Some ?f\<rparr> else c)
     in if update then c1\<lparr>lastUpdate := Some ?f\<rparr> else c1) ?s1)"
    by (intro token_inv_put [OF i]) (simp add: future_ok_def Let_def)
  then show "token_inv (snd (Execute_check cb job d s))"
    unfolding Execute_check_def cl completion_def Let_def split snd_conv
    by (intro fold_ipc_token, simp add: Let_def) (simp add: log_check_def)
qed

lemma Execute_token:
  assumes "token_inv s"
  shows "token_inv (snd (Execute cb job s)) \<and> set (fst (Execute cb job s)) \<subseteq> {..<length (issued s)}"
proof -
  have p: "token_inv (put_checkpoint d ((checkpoint d s)\<lparr>cp_checker := c, cp_connection := n\<rparr>) s)" for d c n
    using token_inv_put [OF assms] future_okD [OF assms, of d] by (simp add: future_ok_def)
  show ?thesis
    using Execute_peer_token [OF p] Execute_check_token [OF p] assms by (cases "job_packet job") (simp_all add: Execute_def Let_def)
qed

lemma scheduled_token_inv: "scheduled cb s \<Longrightarrow> token_inv s"
proof (induction rule: scheduled.induct)
  case start
  show ?case by (simp add: token_inv_def ProcessQueue_new_def ordered_def checkpoint_def CheckPoints_new_def future_ok_def)
next
  case (step s s')
  from step(2) step.IH show ?case
  proof cases
    case (run job waits)
    then show ?thesis using step.IH Execute_token [of "take_job s" cb job] by simp
  qed simp_all
qed

lemma checkers_catch_up: "n \<le> length (issued s) \<Longrightarrow> (sched_step cb)\<^sup>*\<^sup>* s (s\<lparr>ready := {..<n} \<union> ready s\<rparr>)"
proof (induction n)
  case (Suc n)
  let ?s = "s\<lparr>ready := {..<n} \<union> ready s\<rparr>"
  have "sched_step cb ?s (?s\<lparr>ready := insert n (ready ?s)\<rparr>)" by (rule complete) (use Suc.prems in simp_all)
  moreover have "?s\<lparr>ready := insert n (ready ?s)\<rparr> = s\<lparr>ready := {..<Suc n} \<union> ready s\<rparr>" by (simp add: lessThan_Suc)
  ultimately show ?case using Suc by (simp add: rtranclp.rtrancl_into_rtrancl)
qed simp

text \<open>
  C16. The worker cannot wait forever: when the packet with the next number has arrived, there is a run
  of the checkers alone after which the worker takes exactly that packet.
\<close>
theorem next_packet_taken:
  assumes "scheduled cb s" and "\<not> exited s" and "map_of (pendingJobMap s) (nextOrderId s) = Some job"
  shows "\<exists>s1 s2. (sched_step cb)\<^sup>*\<^sup>* s s1 \<and> taken s1 = taken s \<and> sched_step cb s1 s2 \<and> taken s2 = taken s @ [job]"
proof -
  let ?s1 = "s\<lparr>ready := {..<length (issued s)} \<union> ready s\<rparr>"
  let ?s2 = "snd (Execute cb job (take_job ?s1))"
  have "token_inv (take_job ?s1)" using scheduled_token_inv [OF assms(1)] by simp
  then have "set (fst (Execute cb job (take_job ?s1))) \<subseteq> {..<length (issued s)}"
    using Execute_token [of "take_job ?s1" cb job] by (simp add: take_job_def)
  then have "sched_step cb ?s1 ?s2" by (intro run [where job = job and waits = "fst (Execute cb job (take_job ?s1))"]) (use assms in auto)
  moreover have "taken ?s2 = taken s @ [job]" using Execute_keeps [of "take_job ?s1" cb job] assms(3) by (simp add: same_queue_def take_job_def)
  moreover have "(sched_step cb)\<^sup>*\<^sup>* s ?s1" by (rule checkers_catch_up) simp
  ultimately show ?thesis by (intro exI [of _ ?s1] exI [of _ ?s2]) simp
qed

section \<open>A concrete run\<close>

text \<open>
  Connection 1 of device 0 and connection 2 of device 1 announce their devices, device 0 is granted
  access to device 1, loads from it, and device 1 frees memory; the packets arrive out of order. The
  free waits for the marker behind the load. A packet with a number beyond the gap is never taken.
\<close>

definition run_callbacks :: callbacks where
  "run_callbacks = \<lparr>cb_dispatch = (\<lambda>job v. case job_packet job of PK_DEVICE_SUMMARY d \<Rightarrow> d | _ \<Rightarrow> v), cb_ipcUpdates = None\<rparr>"

definition run_job :: "nat \<Rightarrow> nat \<Rightarrow> Packet \<Rightarrow> Job" where
  "run_job conn n p = \<lparr>job_connection = conn, job_checker = conn, job_orderId = n, job_packet = p\<rparr>"

definition run_jobs :: "Job list" where
  "run_jobs = [run_job 2 2 (PK_DEVICE_SUMMARY 1), run_job 1 1 (PK_DEVICE_SUMMARY 0),
     run_job 1 3 (PK_PEER_ACCESS_RECORD \<lparr>pa_deviceId = 0, pa_peerDeviceId = 1, pa_operation = PEER_ENABLE\<rparr>),
     run_job 2 5 (PK_MEMORY_RECORD MO_FREE SRC_BYPASS), run_job 1 4 (PK_MEMORY_RECORD MO_LOAD SRC_BYPASS), run_job 1 7 PK_KERNEL_RECORD]"

text \<open>The moves of the witness: submit, run the worker, let a checker reach a marker, close, leave.\<close>

datatype move = Mv_submit Job | Mv_run | Mv_ready token | Mv_close | Mv_leave

definition do_move :: "callbacks \<Rightarrow> move \<Rightarrow> ProcessQueue \<Rightarrow> ProcessQueue option" where
  "do_move cb m s =
     (case m of
        Mv_submit job \<Rightarrow> if closing s then None else Some (Queue_Submit job s)
      | Mv_run \<Rightarrow> (case map_of (pendingJobMap s) (nextOrderId s) of None \<Rightarrow> None
          | Some job \<Rightarrow> (case Execute cb job (take_job s) of (waits, s') \<Rightarrow> if \<not> exited s \<and> list_all (\<lambda>t. t \<in> ready s) waits then Some s' else None))
      | Mv_ready t \<Rightarrow> if t < length (issued s) \<and> list_all (\<lambda>t'. issued s ! t' = issued s ! t \<longrightarrow> t' \<in> ready s) [0..<t]
          then Some (s\<lparr>ready := insert t (ready s)\<rparr>) else None
      | Mv_close \<Rightarrow> Some (s\<lparr>closing := True\<rparr>)
      | Mv_leave \<Rightarrow> if \<not> exited s \<and> closing s \<and> map_of (pendingJobMap s) (nextOrderId s) = None \<and> list_all (\<lambda>t. t \<in> ready s) (last_works s)
          then Some (Run_end s) else None)"

fun do_moves :: "callbacks \<Rightarrow> move list \<Rightarrow> ProcessQueue \<Rightarrow> ProcessQueue option" where
  "do_moves cb [] s = Some s"
| "do_moves cb (m # ms) s = (case do_move cb m s of None \<Rightarrow> None | Some s' \<Rightarrow> do_moves cb ms s')"

lemma do_move_step: "do_move cb m s = Some s' \<Longrightarrow> sched_step cb s s'"
proof (cases m)
  case Mv_run
  assume "do_move cb m s = Some s'"
  then obtain job where "map_of (pendingJobMap s) (nextOrderId s) = Some job" "\<not> exited s" "set (fst (Execute cb job (take_job s))) \<subseteq> ready s"
      "Execute cb job (take_job s) = (fst (Execute cb job (take_job s)), s')"
    using Mv_run by (auto simp: do_move_def list_all_iff split: option.splits prod.splits if_splits)
  then show ?thesis by (intro run)
next
  case (Mv_ready t)
  assume "do_move cb m s = Some s'"
  then show ?thesis using Mv_ready complete [of t s cb] by (auto simp: do_move_def list_all_iff split: if_splits)
next
  case Mv_leave
  assume "do_move cb m s = Some s'"
  then show ?thesis using Mv_leave leave [of s cb] by (auto simp: do_move_def list_all_iff split: if_splits)
qed (auto simp: do_move_def intro: submit close split: if_splits)

lemma do_moves_scheduled: "scheduled cb s \<Longrightarrow> do_moves cb ms s = Some s' \<Longrightarrow> scheduled cb s'"
  by (induction ms arbitrary: s) (auto split: option.splits dest!: do_move_step dest: scheduled.step)

definition run_moves :: "move list" where
  "run_moves = map Mv_submit run_jobs @ [Mv_run, Mv_run, Mv_run, Mv_run, Mv_ready 0, Mv_ready 2, Mv_ready 3, Mv_run]"

definition run_state :: ProcessQueue where
  "run_state = the (do_moves run_callbacks run_moves ProcessQueue_new)"

lemma run_checks:
  "map en_token (checks run_state) = [0, 1, 2, 3, 4] \<and> map en_device (checks run_state) = [0, 1, 0, 0, 1] \<and>
   list_all (\<lambda>e. en_checker e = en_device e + 1) (checks run_state) \<and> map job_orderId (taken run_state) = [1, 2, 3, 4, 5] \<and>
   conflict (checks run_state ! 3) (checks run_state ! 4) \<and> nextOrderId run_state = 6 \<and>
   length (checks run_state) = 5"
  by code_simp

definition early_state :: ProcessQueue where
  "early_state = the (do_moves run_callbacks (map Mv_submit run_jobs) ProcessQueue_new)"

definition end_state :: ProcessQueue where
  "end_state = the (do_moves run_callbacks (run_moves @ [Mv_close, Mv_ready 1, Mv_ready 4, Mv_leave]) ProcessQueue_new)"

lemma moves_scheduled: "do_moves cb ms ProcessQueue_new \<noteq> None \<Longrightarrow> scheduled cb (the (do_moves cb ms ProcessQueue_new))"
  using do_moves_scheduled [OF start, of cb ms] by (metis option.exhaust_sel)

lemma run_scheduled: "scheduled run_callbacks run_state"
  unfolding run_state_def by (rule moves_scheduled) code_simp

lemma early_scheduled: "scheduled run_callbacks early_state"
  unfolding early_state_def by (rule moves_scheduled) code_simp

lemma end_scheduled: "scheduled run_callbacks end_state"
  unfolding end_state_def by (rule moves_scheduled) code_simp

text \<open>The witnesses of the four properties on this run.\<close>

theorem packets_in_order_witness:
  "map job_orderId (taken run_state) = [1 ..< nextOrderId run_state] \<and> nextOrderId run_state = 6 \<and>
   map job_orderId (submitted run_state) = [2, 1, 3, 5, 4, 7]"
proof -
  have "map job_orderId (submitted run_state) = [2, 1, 3, 5, 4, 7]" by code_simp
  then show ?thesis using packets_in_order [OF run_scheduled] run_checks by simp
qed

theorem conflicting_checks_ordered_witness:
  "conflict (checks run_state ! 3) (checks run_state ! 4) \<and> en_token (checks run_state ! 3) \<in> en_ready (checks run_state ! 4)"
proof -
  have "owned (\<lambda>d. d + 1) run_state" using run_checks by (simp add: owned_def list_all_iff)
  then have "sorted_wrt (\<lambda>a b. conflict a b \<longrightarrow> en_token a \<in> en_ready b) (checks run_state)"
    using conflicting_checks_ordered [OF run_scheduled] by blast
  then show ?thesis using run_checks sorted_wrt_nth_less [of "\<lambda>a b. conflict a b \<longrightarrow> en_token a \<in> en_ready b" "checks run_state" 3 4] by simp
qed

theorem lost_packets_reported_witness: "missing_packet \<in> set (failures end_state)"
proof -
  have "exited end_state" "\<exists>job\<in>set (submitted end_state). nextOrderId end_state \<le> job_orderId job" by code_simp+
  then show ?thesis using lost_packets_reported [OF end_scheduled] by blast
qed

theorem next_packet_taken_witness:
  "\<exists>s1 s2. (sched_step run_callbacks)\<^sup>*\<^sup>* early_state s1 \<and> sched_step run_callbacks s1 s2 \<and> map job_orderId (taken s2) = [1]"
proof -
  have s: "\<not> exited early_state" "taken early_state = []" "map_of (pendingJobMap early_state) (nextOrderId early_state) = Some (run_job 1 1 (PK_DEVICE_SUMMARY 0))"
    by code_simp+
  then show ?thesis using next_packet_taken [OF early_scheduled s(1,3)] by (fastforce simp: run_job_def)
qed

end
