(* ===== verification/Ustring.thy ===== *)
theory Ustring
  imports Prelude
begin

text \<open>
  The string utilities of \<open>csrc/core/framework/utility/ustring.h\<close> and \<open>ustring.cpp\<close>: escaping of control
  characters in kernel names, the hash that stands for a binary name in the log, splitting, joining and
  stripping, and the extraction of the function name from a demangled one. Positions are natural
  numbers; \<open>npos\<close> is \<open>None\<close>.
\<close>

unbundle bit_operations_syntax

section \<open>Searching\<close>

text \<open>\<open>find_if p s pos\<close>: the first position from \<open>pos\<close> on whose character satisfies \<open>p\<close>.\<close>

definition find_from :: "(char \<Rightarrow> bool) \<Rightarrow> string \<Rightarrow> nat \<Rightarrow> nat option" where
  "find_from p s pos = find (\<lambda>i. p (s ! i)) [pos ..< length s]"

definition find_last :: "(char \<Rightarrow> bool) \<Rightarrow> string \<Rightarrow> nat \<Rightarrow> nat option" where
  "find_last p s pos = find (\<lambda>i. p (s ! i)) (rev [0 ..< min (Suc pos) (length s)])"

lemma find_from_Some:
  "find_from p s pos = Some i \<longleftrightarrow> pos \<le> i \<and> i < length s \<and> p (s ! i) \<and> (\<forall>j. pos \<le> j \<longrightarrow> j < i \<longrightarrow> \<not> p (s ! j))"
proof
  assume "find_from p s pos = Some i"
  then obtain k where k: "k < length s - pos" "p (s ! (pos + k))" "i = pos + k" "\<forall>j<k. \<not> p (s ! (pos + j))"
    by (auto simp: find_from_def find_Some_iff)
  have "\<not> p (s ! j)" if "pos \<le> j" "j < i" for j using k(3) k(4) [rule_format, of "j - pos"] that by simp
  then show "pos \<le> i \<and> i < length s \<and> p (s ! i) \<and> (\<forall>j. pos \<le> j \<longrightarrow> j < i \<longrightarrow> \<not> p (s ! j))" using k by simp
next
  assume "pos \<le> i \<and> i < length s \<and> p (s ! i) \<and> (\<forall>j. pos \<le> j \<longrightarrow> j < i \<longrightarrow> \<not> p (s ! j))"
  then show "find_from p s pos = Some i"
    unfolding find_from_def find_Some_iff by (intro exI [of _ "i - pos"]) auto
qed

lemma find_from_None: "find_from p s pos = None \<longleftrightarrow> (\<forall>i. pos \<le> i \<longrightarrow> i < length s \<longrightarrow> \<not> p (s ! i))"
  by (auto simp: find_from_def find_None_iff)

section \<open>Escaping\<close>

definition INVALID_CHAR :: "(char \<times> string) list" where
  "INVALID_CHAR = [(CHR 0x0A, CHR 0x5C # ''n''), (CHR 0x0C, CHR 0x5C # ''f''), (CHR 0x0D, CHR 0x5C # ''r''), (CHR 0x08, CHR 0x5C # ''b''), (CHR 0x09, CHR 0x5C # ''t''),
     (CHR 0x0B, CHR 0x5C # ''v''), (CHR 0x7F, CHR 0x5C # ''u007F'')]"

text \<open>The inner loop for one entry of the table, from a position on.\<close>

function replace_loop :: "char \<Rightarrow> string \<Rightarrow> string \<Rightarrow> nat \<Rightarrow> string" where
  "replace_loop c r s pos =
     (case find_from (\<lambda>x. x = c) s pos of
        None \<Rightarrow> s
      | Some i \<Rightarrow> replace_loop c r (take i s @ r @ drop (i + 1) s) (i + length r))"
  by pat_completeness auto
termination
  by (relation "measure (\<lambda>(c, r, s, pos). length s - pos)") (auto simp: find_from_Some)

declare replace_loop.simps [simp del]

text \<open>The table is an \<open>unordered_map\<close>: \<open>items\<close> is the order in which it is walked.\<close>

definition ReplaceInvalidChar :: "(char \<times> string) list \<Rightarrow> string \<Rightarrow> string" where
  "ReplaceInvalidChar items input = fold (\<lambda>(c, r) s. replace_loop c r s 0) items input"

text \<open>The specification: every character is escaped on its own.\<close>

definition escape :: "char \<Rightarrow> string" where
  "escape x = (case map_of INVALID_CHAR x of None \<Rightarrow> [x] | Some r \<Rightarrow> r)"

definition subst_char :: "char \<Rightarrow> string \<Rightarrow> char \<Rightarrow> string" where
  "subst_char c r x = (if x = c then r else [x])"

lemma subst_char_id: "\<forall>x\<in>set xs. x \<noteq> c \<Longrightarrow> concat (map (subst_char c r) xs) = xs"
  by (induction xs) (simp_all add: subst_char_def)

lemma replace_loop_spec: "pos \<le> length s \<Longrightarrow> replace_loop c r s pos = take pos s @ concat (map (subst_char c r) (drop pos s))"
proof (induction c r s pos rule: replace_loop.induct)
  case (1 c r s pos)
  show ?case
  proof (cases "find_from (\<lambda>x. x = c) s pos")
    case None
    then have n: "\<And>i. pos \<le> i \<Longrightarrow> i < length s \<Longrightarrow> s ! i \<noteq> c" by (simp add: find_from_None)
    have "x \<noteq> c" if x: "x \<in> set (drop pos s)" for x
    proof -
      obtain k where "k < length s - pos" "x = s ! (pos + k)" using x by (auto simp: in_set_conv_nth)
      then show ?thesis using n [of "pos + k"] by simp
    qed
    then have "concat (map (subst_char c r) (drop pos s)) = drop pos s" by (simp add: subst_char_id)
    then show ?thesis using None by (subst replace_loop.simps) simp
  next
    case (Some i)
    let ?s = "take i s @ r @ drop (i + 1) s"
    have i: "pos \<le> i" "i < length s" "s ! i = c" "\<forall>j. pos \<le> j \<longrightarrow> j < i \<longrightarrow> s ! j \<noteq> c" using Some unfolding find_from_Some by auto
    have d: "drop pos s = drop pos (take i s) @ c # drop (i + 1) s"
      using i by (metis Cons_nth_drop_Suc Suc_eq_plus1 append_take_drop_id drop_append drop_eq_Nil2 diff_is_0_eq drop0 length_take min.absorb4 less_imp_le)
    have "\<forall>x\<in>set (drop pos (take i s)). x \<noteq> c" using i by (auto simp: in_set_conv_nth)
    then have m: "concat (map (subst_char c r) (drop pos (take i s))) = drop pos (take i s)" by (rule subst_char_id)
    have "replace_loop c r s pos = take (i + length r) ?s @ concat (map (subst_char c r) (drop (i + length r) ?s))"
      using "1.IH" [OF Some] i Some by (subst replace_loop.simps) simp
    also have "\<dots> = take i s @ r @ concat (map (subst_char c r) (drop (i + 1) s))" using i by simp
    also have "take i s = take pos s @ drop pos (take i s)" using i by (metis append_take_drop_id min.absorb1 take_take)
    finally show ?thesis unfolding d by (simp add: m) (simp add: subst_char_def)
  qed
qed

lemma replace_all: "replace_loop c r s 0 = concat (map (subst_char c r) s)"
  by (simp add: replace_loop_spec)

text \<open>The replacements contain none of the characters of the table.\<close>

lemma table_clean: "(c, r) \<in> set INVALID_CHAR \<Longrightarrow> x \<in> set r \<Longrightarrow> map_of INVALID_CHAR x = None"
proof -
  have "\<forall>(c, r)\<in>set INVALID_CHAR. \<forall>x\<in>set r. map_of INVALID_CHAR x = None" by code_simp
  then show "(c, r) \<in> set INVALID_CHAR \<Longrightarrow> x \<in> set r \<Longrightarrow> map_of INVALID_CHAR x = None" by blast
qed

lemma table_distinct: "distinct (map fst INVALID_CHAR)"
  by (simp add: INVALID_CHAR_def)

lemma concat_map_concat: "concat (map f (concat (map g s))) = concat (map (\<lambda>x. concat (map f (g x))) s)"
  by (induction s) simp_all

definition escape_some :: "(char \<times> string) list \<Rightarrow> char \<Rightarrow> string" where
  "escape_some items x = (case map_of items x of None \<Rightarrow> [x] | Some r \<Rightarrow> r)"

lemma replace_items:
  assumes "set items \<subseteq> set INVALID_CHAR" "distinct (map fst items)"
  shows "ReplaceInvalidChar items s = concat (map (escape_some items) s)"
  using assms
proof (induction items arbitrary: s rule: rev_induct)
  case Nil
  show ?case by (simp add: ReplaceInvalidChar_def escape_some_def)
next
  case (snoc it items)
  obtain c r where it: "it = (c, r)" by force
  have e: "concat (map (subst_char c r) (escape_some items x)) = escape_some (items @ [it]) x" for x
  proof (cases "map_of items x")
    case None
    then show ?thesis using it by (simp add: escape_some_def subst_char_def map_add_def)
  next
    case (Some q)
    then have q: "(x, q) \<in> set INVALID_CHAR" using snoc.prems map_of_SomeD by fastforce
    have "y \<noteq> c" if "y \<in> set q" for y
    proof -
      have "map_of INVALID_CHAR y = None" using table_clean [OF q that] .
      moreover have "map_of INVALID_CHAR c = Some r" using snoc.prems(1) it table_distinct by simp
      ultimately show ?thesis by auto
    qed
    then have "concat (map (subst_char c r) q) = q" by (simp add: subst_char_id)
    moreover have "x \<noteq> c" using Some snoc.prems(2) it by (auto dest: map_of_SomeD simp: image_iff)
    ultimately show ?thesis using Some it by (simp add: escape_some_def map_add_def)
  qed
  have "ReplaceInvalidChar (items @ [it]) s = concat (map (subst_char c r) (ReplaceInvalidChar items s))"
    by (simp add: ReplaceInvalidChar_def it replace_all)
  also have "\<dots> = concat (map (\<lambda>x. concat (map (subst_char c r) (escape_some items x))) s)"
    using snoc by (simp add: concat_map_concat)
  finally show ?case by (simp add: e)
qed

text \<open>
  Escaping a kernel name does not depend on the order in which the table is walked: every control
  character of the table is replaced by its escape, the others are kept, and none of them is left.
\<close>
theorem ReplaceInvalidChar_escapes:
  assumes "set items = set INVALID_CHAR" and "distinct items"
  shows "ReplaceInvalidChar items s = concat (map escape s) \<and> (\<forall>x\<in>set (ReplaceInvalidChar items s). map_of INVALID_CHAR x = None)"
proof -
  have m: "set items = set INVALID_CHAR" "distinct (map fst items)" using assms table_distinct by (simp_all add: distinct_map)
  have "map_of items = map_of INVALID_CHAR" using m table_distinct by (simp add: map_of_inject_set)
  then have e: "ReplaceInvalidChar items s = concat (map escape s)"
    using replace_items [of items s] m by (simp add: escape_some_def escape_def cong: map_cong)
  have "map_of INVALID_CHAR x = None" if "x \<in> set (escape y)" for x y
    using that table_clean [OF map_of_SomeD, of y] by (cases "map_of INVALID_CHAR y") (auto simp: escape_def)
  then show ?thesis unfolding e by auto
qed

theorem ReplaceInvalidChar_escapes_witness:
  "ReplaceInvalidChar (rev INVALID_CHAR) [CHR ''a'', CHR 0x0A, CHR ''b'', CHR 0x7F] = [CHR ''a'', CHR 0x5C, CHR ''n'', CHR ''b'', CHR 0x5C] @ ''u007F''"
proof -
  have "concat (map escape [CHR ''a'', CHR 0x0A, CHR ''b'', CHR 0x7F]) = [CHR ''a'', CHR 0x5C, CHR ''n'', CHR ''b'', CHR 0x5C] @ ''u007F''" by code_simp
  then show ?thesis using ReplaceInvalidChar_escapes [of "rev INVALID_CHAR" "[CHR ''a'', CHR 0x0A, CHR ''b'', CHR 0x7F]"] table_distinct
    by (simp add: distinct_map)
qed

section \<open>The name hash of the log\<close>

definition fnv1a :: "string \<Rightarrow> u32" where
  "fnv1a s = fold (\<lambda>c h. (h XOR of_nat (of_char c)) * 0x01000193) s 0x811c9dc5"

definition HEX_DIGITS :: string where
  "HEX_DIGITS = ''0123456789abcdef''"

text \<open>The loop fills the digits from the last to the first.\<close>

primrec hex_loop :: "nat \<Rightarrow> u32 \<Rightarrow> string \<Rightarrow> string" where
  "hex_loop 0 h acc = acc"
| "hex_loop (Suc n) h acc = hex_loop n (drop_bit 4 h) (HEX_DIGITS ! unat (h AND 0xF) # acc)"

definition FormatNameForLog :: "string \<Rightarrow> string" where
  "FormatNameForLog s = (if s = [] then [] else ''hash='' @ hex_loop 8 (fnv1a s) [])"

text \<open>Reading hexadecimal digits back.\<close>

definition hex_digit :: "char \<Rightarrow> nat" where
  "hex_digit c = (case find (\<lambda>i. HEX_DIGITS ! i = c) [0 ..< 16] of None \<Rightarrow> 0 | Some i \<Rightarrow> i)"

definition hex_value :: "string \<Rightarrow> nat" where
  "hex_value s = foldl (\<lambda>n c. 16 * n + hex_digit c) 0 s"

lemma digit_value: "d < 16 \<Longrightarrow> hex_digit (HEX_DIGITS ! d) = d"
proof -
  have "list_all (\<lambda>d. hex_digit (HEX_DIGITS ! d) = d) [0 ..< 16]" by code_simp
  then show "d < 16 \<Longrightarrow> hex_digit (HEX_DIGITS ! d) = d" by (simp add: list_all_iff)
qed

lemma foldl_hex: "foldl (\<lambda>n c. 16 * n + hex_digit c) m s = m * 16 ^ length s + hex_value s"
proof (induction s arbitrary: m)
  case (Cons c s)
  show ?case using Cons.IH [of "16 * m + hex_digit c"] Cons.IH [of "hex_digit c"] by (simp add: hex_value_def [of "c # s"] algebra_simps)
qed (simp add: hex_value_def)

lemma hex_value_Cons: "d < 16 \<Longrightarrow> hex_value (HEX_DIGITS ! d # s) = d * 16 ^ length s + hex_value s"
  using foldl_hex [of d s] by (simp add: hex_value_def [of "_ # _"] digit_value)

lemma hex_loop_value: "hex_value (hex_loop n h acc) = unat h mod 16 ^ n * 16 ^ length acc + hex_value acc \<and> length (hex_loop n h acc) = n + length acc"
proof (induction n arbitrary: h acc)
  case (Suc n)
  have "h AND 0xF = take_bit 4 h" by (simp add: take_bit_eq_mask mask_eq_exp_minus_1)
  then have a: "unat (h AND 0xF) = unat h mod 16" by (simp only: unsigned_take_bit_eq) (simp add: take_bit_eq_mod)
  have b: "unat (drop_bit 4 h) = unat h div 16" by (simp only: unat_drop_bit_eq) (simp add: drop_bit_eq_div)
  have c: "unat h mod 16 ^ Suc n = 16 * (unat h div 16 mod 16 ^ n) + unat h mod 16" by (simp add: mod_mult2_eq)
  show ?case using Suc [of "drop_bit 4 h"] hex_value_Cons [of "unat h mod 16" acc] unfolding hex_loop.simps a b c by (simp add: algebra_simps)
qed simp

text \<open>
  The log shows a non-empty name as \<open>hash=\<close> and eight hexadecimal digits, and these digits read back
  give the 32-bit FNV-1a hash of the name.
\<close>
theorem FormatNameForLog_reads_back:
  assumes "s \<noteq> []"
  shows "take 5 (FormatNameForLog s) = ''hash='' \<and> length (FormatNameForLog s) = 13 \<and> hex_value (drop 5 (FormatNameForLog s)) = unat (fnv1a s)"
proof -
  have "unat (fnv1a s) < 16 ^ 8" using unsigned_less [of "fnv1a s", where 'a = nat] by simp
  then show ?thesis using assms hex_loop_value [of 8 "fnv1a s" "[]"] by (simp add: FormatNameForLog_def hex_value_def)
qed

theorem FormatNameForLog_reads_back_witness:
  "length (FormatNameForLog ''shm'') = 13 \<and> hex_value (drop 5 (FormatNameForLog ''shm'')) = unat (fnv1a ''shm'')"
  using FormatNameForLog_reads_back [of "''shm''"] by simp

section \<open>Joining and splitting\<close>

fun Join :: "string list \<Rightarrow> string \<Rightarrow> string" where
  "Join [] sep = []"
| "Join (x # xs) sep = foldl (\<lambda>r y. r @ sep @ y) x xs"

fun HumanReadableListFormat :: "('a \<Rightarrow> string) \<Rightarrow> 'a list \<Rightarrow> string" where
  "HumanReadableListFormat f [] = []"
| "HumanReadableListFormat f [x] = f x"
| "HumanReadableListFormat f (x # xs) = foldl (\<lambda>r y. r @ '', '' @ f y) (f x) (butlast xs) @ '' and '' @ f (last xs)"

text \<open>
  The loop of \<open>Split\<close> from the position \<open>fast\<close> of a separator. A position at or beyond the end finds
  nothing; the pieces the iterator writes are returned as a list.
\<close>

definition find_opt :: "(char \<Rightarrow> bool) \<Rightarrow> string \<Rightarrow> nat option \<Rightarrow> nat option" where
  "find_opt p s pos = (case pos of None \<Rightarrow> None | Some i \<Rightarrow> find_from p s i)"

definition substr :: "string \<Rightarrow> nat \<Rightarrow> nat \<Rightarrow> string" where
  "substr s pos n = take n (drop pos s)"

function split_loop :: "string \<Rightarrow> string \<Rightarrow> bool \<Rightarrow> nat option \<Rightarrow> string list" where
  "split_loop s seps strict fast =
     (case fast of
        None \<Rightarrow> []
      | Some f \<Rightarrow>
          if f < length s then
            (let slow = (if strict then if f + 1 \<ge> length s then None else Some (f + 1)
                         else find_from (\<lambda>c. c \<notin> set seps) s f);
                 fast' = find_opt (\<lambda>c. c \<in> set seps) s slow;
                 piece = (case slow of None \<Rightarrow> [] | Some l \<Rightarrow> (case fast' of None \<Rightarrow> drop l s | Some f' \<Rightarrow> substr s l (f' - l)))
             in piece # split_loop s seps strict fast')
          else [])"
  by pat_completeness auto
termination
proof (relation "measure (\<lambda>(s, seps, strict, fast). case fast of None \<Rightarrow> 0 | Some f \<Rightarrow> Suc (length s) - f)", goal_cases)
  case (2 s seps strict fast f slow fast' piece)
  have "f < f'" if f': "fast' = Some f'" for f'
  proof (cases strict)
    case True
    then show ?thesis using 2 f' by (auto simp: find_opt_def find_from_Some split: if_splits option.splits)
  next
    case False
    then obtain l where l: "find_from (\<lambda>c. c \<notin> set seps) s f = Some l" "find_from (\<lambda>c. c \<in> set seps) s l = Some f'"
      using 2 f' by (auto simp: find_opt_def split: option.splits)
    then have "f \<le> l" "l \<le> f'" "s ! l \<notin> set seps" "s ! f' \<in> set seps" unfolding find_from_Some by simp_all
    then show ?thesis by (cases "f = f'") auto
  qed
  moreover have "fast = Some f" "f < length s" using 2 by simp_all
  ultimately show ?case by (cases fast') auto
qed simp

declare split_loop.simps [simp del]

definition Split :: "string \<Rightarrow> string \<Rightarrow> bool \<Rightarrow> string list" where
  "Split s seps strict =
     (let fast = find_from (\<lambda>c. c \<in> set seps) s 0
      in (case fast of None \<Rightarrow> s | Some f \<Rightarrow> substr s 0 f) # split_loop s seps strict fast)"

definition Strip :: "string \<Rightarrow> string \<Rightarrow> string" where
  "Strip s cs =
     (case (find_from (\<lambda>c. c \<notin> set cs) s 0, find_last (\<lambda>c. c \<notin> set cs) s (length s)) of
        (Some l, Some r) \<Rightarrow> substr s l (r - l + 1)
      | _ \<Rightarrow> [])"

definition RStrip :: "string \<Rightarrow> string \<Rightarrow> string" where
  "RStrip s cs = (case find_last (\<lambda>c. c \<notin> set cs) s (length s) of None \<Rightarrow> [] | Some r \<Rightarrow> substr s 0 (r + 1))"

definition EndWith :: "string \<Rightarrow> string \<Rightarrow> bool" where
  "EndWith s target \<longleftrightarrow> length s \<ge> length target \<and> drop (length s - length target) s = target"

lemma Join_Cons: "Join (x # y # ys) sep = x @ sep @ Join (y # ys) sep"
proof -
  have "foldl (\<lambda>r y. r @ sep @ y) (a @ b) zs = a @ foldl (\<lambda>r y. r @ sep @ y) b zs" for a b zs
    by (induction zs arbitrary: b) simp_all
  from this [of "x @ sep" y ys] show ?thesis by simp
qed

lemma take_at_separator: "pos \<le> f \<Longrightarrow> f < length s \<Longrightarrow> substr s pos (f - pos) @ s ! f # drop (Suc f) s = drop pos s"
  unfolding substr_def by (metis Cons_nth_drop_Suc append_take_drop_id drop_drop le_add_diff_inverse2)

lemma split_loop_strict:
  "pos \<le> length s \<Longrightarrow> Join ((case find_from (\<lambda>x. x \<in> set [c]) s pos of None \<Rightarrow> drop pos s | Some f \<Rightarrow> substr s pos (f - pos)) #
     split_loop s [c] True (find_from (\<lambda>x. x \<in> set [c]) s pos)) [c] = drop pos s"
proof (induction "length s - pos" arbitrary: pos rule: less_induct)
  case less
  show ?case
  proof (cases "find_from (\<lambda>x. x \<in> set [c]) s pos")
    case None
    then show ?thesis by (simp add: split_loop.simps [of _ _ _ None])
  next
    case (Some f)
    then have f: "pos \<le> f" "f < length s" "s ! f = c" unfolding find_from_Some by simp_all
    note sep = take_at_separator [OF f(1,2), unfolded f(3)]
    show ?thesis
    proof (cases "Suc f \<ge> length s")
      case True
      then show ?thesis using Some f sep by (simp add: split_loop.simps [of _ _ _ "Some f"] find_opt_def split_loop.simps [of _ _ _ None])
    next
      case False
      have "split_loop s [c] True (Some f) =
          (case find_from (\<lambda>x. x \<in> set [c]) s (Suc f) of None \<Rightarrow> drop (Suc f) s | Some f' \<Rightarrow> substr s (Suc f) (f' - Suc f)) #
          split_loop s [c] True (find_from (\<lambda>x. x \<in> set [c]) s (Suc f))"
        using f False by (subst split_loop.simps) (simp add: find_opt_def Let_def)
      moreover have "Join ((case find_from (\<lambda>x. x \<in> set [c]) s (Suc f) of None \<Rightarrow> drop (Suc f) s | Some f' \<Rightarrow> substr s (Suc f) (f' - Suc f)) #
          split_loop s [c] True (find_from (\<lambda>x. x \<in> set [c]) s (Suc f))) [c] = drop (Suc f) s"
        using less.hyps [of "Suc f"] f False by simp
      ultimately show ?thesis using Some sep unfolding Some option.case by (simp only: Join_Cons append_Cons append_Nil)
    qed
  qed
qed

text \<open>
  Splitting in strict mode at one separator loses nothing: joining the pieces with the separator
  gives the string back, empty pieces at the ends and between adjacent separators included.
\<close>
theorem Split_Join_roundtrip: "Join (Split s [c] True) [c] = s"
  using split_loop_strict [of 0 s c] by (simp add: Split_def Let_def cong: option.case_cong)

section \<open>Function names\<close>

fun enclosure_loop :: "string \<Rightarrow> char \<Rightarrow> char \<Rightarrow> int \<Rightarrow> nat \<Rightarrow> int \<times> nat" where
  "enclosure_loop s l r depth pos =
     (let depth' = (if s ! pos = r then depth + 1 else if s ! pos = l then depth - 1 else depth) in
      if depth' \<le> 0 then (depth', pos)
      else (case pos of 0 \<Rightarrow> (depth', 0) | Suc p \<Rightarrow> enclosure_loop s l r depth' p))"

declare enclosure_loop.simps [simp del]

definition RfindEnclosureChar :: "string \<Rightarrow> char \<Rightarrow> char \<Rightarrow> nat \<Rightarrow> nat option" where
  "RfindEnclosureChar s l r pos = (case enclosure_loop s l r 0 pos of (depth, p) \<Rightarrow> if depth > 0 then None else Some p)"

text \<open>Position 0 is a failure like \<open>npos\<close>.\<close>

definition positive :: "nat option \<Rightarrow> nat option" where
  "positive p = (if p = Some 0 then None else p)"

definition SimplifyDemangledName :: "string \<Rightarrow> string option" where
  "SimplifyDemangledName name =
     (if name = [] \<or> last name \<noteq> CHR '')'' then None
      else
        (case positive (RfindEnclosureChar name CHR ''('' CHR '')'' (length name - 1)) of
           None \<Rightarrow> None
         | Some e0 \<Rightarrow>
             (case (if name ! (e0 - 1) = CHR ''>'' then positive (RfindEnclosureChar name CHR ''<'' CHR ''>'' (e0 - 1)) else Some e0) of
                None \<Rightarrow> None
              | Some e \<Rightarrow>
                  (case positive (find_last (\<lambda>c. c = CHR '' '') name e) of
                     None \<Rightarrow> None
                   | Some start \<Rightarrow> if start + 1 \<ge> e then None else Some (substr name (start + 1) (e - (start + 1)))))))"

text \<open>Brackets in an argument list close what they open.\<close>

definition net :: "char \<Rightarrow> char \<Rightarrow> string \<Rightarrow> int" where
  "net l r s = int (length (filter (\<lambda>x. x = r) s)) - int (length (filter (\<lambda>x. x = l) s))"

definition balanced :: "char \<Rightarrow> char \<Rightarrow> string \<Rightarrow> bool" where
  "balanced l r s \<longleftrightarrow> net l r s = 0 \<and> list_all (\<lambda>i. net l r (drop i s) \<ge> 0) [0 ..< length s]"

lemma enclosure_scan:
  assumes "l \<noteq> r" "\<forall>i\<le>length args. d + net l r (drop i args) \<ge> 1" "d + net l r args = 1"
  shows "enclosure_loop (xs @ l # args @ rest) l r d (length xs + length args) = (0, length xs)"
  using assms(2,3)
proof (induction args arbitrary: d rest rule: rev_induct)
  case Nil
  then show ?case using assms(1) by (subst enclosure_loop.simps) (simp add: net_def nth_append)
next
  case (snoc a args)
  let ?s = "xs @ l # args @ a # rest"
  have n: "net l r (as @ [a]) = net l r as + net l r [a]" for as by (simp add: net_def)
  have at: "?s ! Suc (length xs + length args) = a" using nth_append_length [of "xs @ l # args" a rest] by simp
  have d: "d + net l r [a] \<ge> 1" using snoc.prems(1) [rule_format, of "length args"] by simp
  have i: "\<forall>i\<le>length args. (d + net l r [a]) + net l r (drop i args) \<ge> 1"
    using snoc.prems(1) n by (auto simp: le_Suc_eq)
  have e: "(if a = r then d + 1 else if a = l then d - 1 else d) = d + net l r [a]" using assms(1) by (simp add: net_def)
  have "enclosure_loop ?s l r d (Suc (length xs + length args)) = enclosure_loop ?s l r (d + net l r [a]) (length xs + length args)"
    using d unfolding enclosure_loop.simps [of ?s l r d "Suc (length xs + length args)"] at e Let_def by simp
  then show ?case using snoc.IH [OF i, of "a # rest"] snoc.prems(2) by (simp add: n)
qed

lemma enclosure_found:
  assumes "l \<noteq> r" "balanced l r args"
  shows "RfindEnclosureChar (xs @ l # args @ r # rest) l r (length xs + length args + 1) = Some (length xs)"
proof -
  have at: "(xs @ l # args @ r # rest) ! Suc (length xs + length args) = r" using nth_append_length [of "xs @ l # args" r rest] by simp
  have "\<forall>i\<le>length args. 1 + net l r (drop i args) \<ge> 1" using assms(2) by (auto simp: balanced_def list_all_iff le_less net_def)
  then have "enclosure_loop (xs @ l # args @ r # rest) l r 1 (length xs + length args) = (0, length xs)"
    using enclosure_scan [OF assms(1), of args 1 xs "r # rest"] assms(2) by (simp add: balanced_def)
  then show ?thesis unfolding RfindEnclosureChar_def by (subst enclosure_loop.simps) (simp add: at Let_def)
qed

lemma find_skip: "(\<And>x. x \<in> set xs \<Longrightarrow> \<not> p x) \<Longrightarrow> find p (xs @ zs) = find p zs"
  by (induction xs) auto

lemma find_last_found:
  assumes "p x" "\<forall>y\<in>set f. \<not> p y" "\<not> p e"
  shows "find_last p (pre @ x # f @ e # rest) (length pre + length f + 1) = Some (length pre)"
proof -
  let ?s = "pre @ x # f @ e # rest" and ?n = "length pre"
  have b: "min (Suc (?n + length f + 1)) (length ?s) = ?n + 1 + Suc (length f)" by simp
  have u: "[0 ..< ?n + 1 + Suc (length f)] = [0 ..< ?n] @ ?n # [?n + 1 ..< ?n + 1 + Suc (length f)]"
    by (metis add.commute le_add1 less_add_one plus_1_eq_Suc upt_add_eq_append upt_conv_Cons zero_le add_Suc_right less_add_Suc1)
  have np: "\<not> p (?s ! i)" if "?n < i" "i \<le> ?n + 1 + length f" for i
  proof -
    have "?s ! i = (f @ e # rest) ! (i - Suc ?n)" using that(1) by (simp add: nth_append)
    moreover have "i - Suc ?n < Suc (length f)" using that by simp
    ultimately show ?thesis using assms(2,3) by (auto simp: nth_append less_Suc_eq)
  qed
  have "\<not> p (?s ! i)" if "i \<in> set (rev [?n + 1 ..< ?n + 1 + Suc (length f)])" for i
    using np [of i] that unfolding set_rev set_upt atLeastLessThan_iff by simp
  then have "find (\<lambda>i. p (?s ! i)) (rev [?n + 1 ..< ?n + 1 + Suc (length f)] @ ?n # zs) = find (\<lambda>i. p (?s ! i)) (?n # zs)" for zs
    by (rule find_skip)
  then show ?thesis using assms(1) unfolding find_last_def b u by simp
qed

text \<open>
  From a demangled name with a result type, a function name, possibly template arguments and a
  parenthesised argument list, the function name is extracted, if brackets are balanced in the lists and
  the function name has no blank; nested brackets in the lists do no harm.
\<close>
theorem SimplifyDemangledName_function:
  assumes "pre \<noteq> []" and "f \<noteq> []" and "CHR '' '' \<notin> set f" and "balanced CHR ''('' CHR '')'' args"
    and "t = [] \<and> last f \<noteq> CHR ''>'' \<or> (\<exists>targs. t = ''<'' @ targs @ ''>'' \<and> balanced CHR ''<'' CHR ''>'' targs)"
  shows "SimplifyDemangledName (pre @ '' '' @ f @ t @ ''('' @ args @ '')'') = Some f"
proof -
  let ?n = "pre @ '' '' @ f @ t @ ''('' @ args @ '')''" and ?e = "length pre + 1 + length f"
  have e0: "positive (RfindEnclosureChar ?n CHR ''('' CHR '')'' (length ?n - 1)) = Some (?e + length t)"
    using enclosure_found [OF _ assms(4), of "pre @ '' '' @ f @ t" "[]"] by (simp add: positive_def add.assoc)
  have start: "positive (find_last (\<lambda>c. c = CHR '' '') (pre @ CHR '' '' # f @ x # rest) ?e) = Some (length pre)" if "x \<noteq> CHR '' ''" for x rest
  proof -
    have "\<forall>y\<in>set f. \<not> y = CHR '' ''" using assms(3) by auto
    then show ?thesis using find_last_found [of "\<lambda>c. c = CHR '' ''" "CHR '' ''" f x pre rest] assms(1) that by (simp add: positive_def)
  qed
  have e: "(if ?n ! (?e + length t - 1) = CHR ''>'' then positive (RfindEnclosureChar ?n CHR ''<'' CHR ''>'' (?e + length t - 1)) else Some (?e + length t)) = Some ?e
      \<and> positive (find_last (\<lambda>c. c = CHR '' '') ?n ?e) = Some (length pre)"
    using assms(5)
  proof
    assume t: "t = [] \<and> last f \<noteq> CHR ''>''"
    have "?n ! (?e - 1) = last f" using assms(2) t by (cases f rule: rev_cases) (simp_all add: nth_append)
    then show ?thesis using t start [of "CHR ''(''" "args @ '')''"] by simp
  next
    assume "\<exists>targs. t = ''<'' @ targs @ ''>'' \<and> balanced CHR ''<'' CHR ''>'' targs"
    then obtain targs where t: "t = ''<'' @ targs @ ''>''" "balanced CHR ''<'' CHR ''>'' targs" by blast
    have "?n ! (?e + length t - 1) = CHR ''>''"
      using nth_append_length [of "pre @ '' '' @ f @ ''<'' @ targs" "CHR ''>''" "''('' @ args @ '')''"] t(1) by (simp add: add.assoc)
    then show ?thesis
      using enclosure_found [OF _ t(2), of "pre @ '' '' @ f" "''('' @ args @ '')''"] start [of "CHR ''<''"] t(1) by (simp add: positive_def add.assoc)
  qed
  show ?thesis
    unfolding SimplifyDemangledName_def e0 option.case conjunct1 [OF e] conjunct2 [OF e] using assms(2) by (simp add: substr_def)
qed

theorem SimplifyDemangledName_function_witness:
  "SimplifyDemangledName ''void ns::add<A<int> >(int (*)(int))'' = Some ''ns::add''"
proof -
  have "balanced CHR ''('' CHR '')'' ''int (*)(int)''" "balanced CHR ''<'' CHR ''>'' ''A<int> ''" by code_simp+
  then show ?thesis
    using SimplifyDemangledName_function [of "''void''" "''ns::add''" "''int (*)(int)''" "''<A<int> >''"] by auto
qed

end
