(* ===== verification/RegisterSanitizer.thy ===== *)
theory RegisterSanitizer
  imports Events ToolTypes Ustring
begin

text \<open>
  The register sanitizer (\<open>csrc/register_sanitizer\<close>): it follows the writes to eight registers of every
  core and, when a kernel has finished, reports the registers that were not reset to their defaults.
\<close>

unbundle bit_operations_syntax

section \<open>Data\<close>

record RegValStore =
  rv_regVal :: u64
  rv_blockType :: BlockType
  rv_blockId :: nat

record CheckedRegInfo =
  cr_regType :: RegisterType
  cr_regNameStr :: string
  cr_regDftVal :: u64
  cr_check :: bool

definition g_regInfoTbl :: "CheckedRegInfo list" where
  "g_regInfoTbl =
     [\<lparr>cr_regType = VECTOR_MASK_0, cr_regNameStr = ''VECTOR_MASK_0'', cr_regDftVal = - 1, cr_check = True\<rparr>,
      \<lparr>cr_regType = VECTOR_MASK_1, cr_regNameStr = ''VECTOR_MASK_1'', cr_regDftVal = - 1, cr_check = True\<rparr>,
      \<lparr>cr_regType = CTRL, cr_regNameStr = ''CTRL[56]'', cr_regDftVal = 0, cr_check = True\<rparr>,
      \<lparr>cr_regType = FFTS_BASE_ADDR, cr_regNameStr = ''FFTS_BASE_ADDR'', cr_regDftVal = 0, cr_check = True\<rparr>,
      \<lparr>cr_regType = FPC, cr_regNameStr = ''FPC'', cr_regDftVal = 0, cr_check = True\<rparr>,
      \<lparr>cr_regType = QUANT_PRE, cr_regNameStr = ''QUANT_PRE'', cr_regDftVal = 0, cr_check = True\<rparr>,
      \<lparr>cr_regType = QUANT_POST, cr_regNameStr = ''QUANT_POST'', cr_regDftVal = 0, cr_check = False\<rparr>,
      \<lparr>cr_regType = LRELU_ALPHA, cr_regNameStr = ''LRELU_ALPHA'', cr_regDftVal = 0, cr_check = True\<rparr>]"

text \<open>The number of an enumerator; \<open>RegisterType::MAX\<close> is the length of the table.\<close>

primrec reg_code :: "RegisterType \<Rightarrow> nat" where
  "reg_code VECTOR_MASK_0 = 0"
| "reg_code VECTOR_MASK_1 = 1"
| "reg_code CTRL = 2"
| "reg_code FFTS_BASE_ADDR = 3"
| "reg_code FPC = 4"
| "reg_code QUANT_PRE = 5"
| "reg_code QUANT_POST = 6"
| "reg_code LRELU_ALPHA = 7"

definition MAX_AICORE_NUM :: nat where
  "MAX_AICORE_NUM = 108"

text \<open>Of \<open>baseEvent\<close> the core and the block type are set, the rest stays zero, as do the other fields of the two payloads.\<close>

record RegisterDispInfo =
  rd_coreId :: nat
  rd_blockType :: BlockType
  rd_kernelName :: string
  rd_regType :: RegisterType
  rd_regExpVal :: u64
  rd_regActVal :: u64

text \<open>\<open>rs_reports\<close> collects the calls of \<open>msgFunc_\<close>.\<close>

record RegisterSanitizer =
  rs_checkBlockId :: int
  regValActual :: "RegValStore list list"
  rs_kernelName :: string
  rs_reports :: "RegisterDispInfo list"

section \<open>Operations\<close>

definition Reg_SetDeviceInfo :: "Config \<Rightarrow> RegisterSanitizer \<Rightarrow> bool \<times> RegisterSanitizer" where
  "Reg_SetDeviceInfo cfg s = (False, s\<lparr>rs_checkBlockId := cfg_checkBlockId cfg\<rparr>)"

definition Reg_Init :: "RegisterSanitizer \<Rightarrow> RegisterSanitizer" where
  "Reg_Init s = s\<lparr>regValActual := replicate MAX_AICORE_NUM (map (\<lambda>r. \<lparr>rv_regVal = cr_regDftVal r, rv_blockType = BT_AIVEC, rv_blockId = 0\<rparr>) g_regInfoTbl),
     rs_kernelName := []\<rparr>"

definition Reg_SetKernelInfo :: "(char \<times> string) list \<Rightarrow> KernelSummary \<Rightarrow> RegisterSanitizer \<Rightarrow> bool \<times> RegisterSanitizer" where
  "Reg_SetKernelInfo items k s =
     (let s1 = Reg_Init s in
      if ks_kernelType k = KT_AICPU then (False, s1)
      else if ks_blockDim k \<ge> MAX_BLOCKDIM_NUMS then (False, s1)
      else (True, s1\<lparr>rs_kernelName := ReplaceInvalidChar items (ks_kernelName k)\<rparr>))"

definition report_core :: "string \<Rightarrow> RegValStore list \<Rightarrow> RegisterDispInfo list" where
  "report_core name vals =
     concat (map (\<lambda>(v, r). if rv_regVal v \<noteq> cr_regDftVal r \<and> cr_check r
                      then [\<lparr>rd_coreId = rv_blockId v, rd_blockType = rv_blockType v, rd_kernelName = name, rd_regType = cr_regType r,
                             rd_regExpVal = cr_regDftVal r, rd_regActVal = rv_regVal v\<rparr>]
                      else []) (zip vals g_regInfoTbl))"

definition report_all :: "RegisterSanitizer \<Rightarrow> RegisterSanitizer" where
  "report_all s = s\<lparr>rs_reports := rs_reports s @ concat (map (report_core (rs_kernelName s)) (regValActual s))\<rparr>"

text \<open>The value that is kept of a write: of the control register only bit 56.\<close>

definition kept_value :: "RegisterType \<Rightarrow> u64 \<Rightarrow> u64" where
  "kept_value r v = (if r = CTRL then drop_bit 56 v AND 1 else v)"

text \<open>One round of the loop; an index outside the array is undefined behaviour and gives \<open>None\<close>.\<close>

definition Reg_event :: "SanEvent \<Rightarrow> RegisterSanitizer \<Rightarrow> RegisterSanitizer option" where
  "Reg_event e s =
     (case eventInfo e of
        SANITIZER_CONTROL_EVENT SC_KERNEL_FINISH \<Rightarrow> Some (report_all s)
      | REGISTER_EVENT r \<Rightarrow>
          (let i = regIdx (regPayLoad r) in
           if 0 \<le> i \<and> nat i < length (regValActual s)
           then Some (s\<lparr>regValActual := (regValActual s)[nat i := (regValActual s ! nat i)[reg_code (regType r) :=
                  \<lparr>rv_regVal = kept_value (regType r) (regVal (regPayLoad r)), rv_blockType = blockType (loc e), rv_blockId = coreId (loc e)\<rparr>]]\<rparr>)
           else None)
      | _ \<Rightarrow> Some s)"

fun Reg_DoEvents :: "SanEvent list \<Rightarrow> RegisterSanitizer \<Rightarrow> RegisterSanitizer option" where
  "Reg_DoEvents [] s = Some s"
| "Reg_DoEvents (e # es) s = (case Reg_event e s of None \<Rightarrow> None | Some s' \<Rightarrow> Reg_DoEvents es s')"

section \<open>Specification\<close>

text \<open>The last write to a register of a core in a list of events.\<close>

definition writes_to :: "nat \<Rightarrow> RegisterType \<Rightarrow> SanEvent \<Rightarrow> bool" where
  "writes_to i r e = (case eventInfo e of REGISTER_EVENT x \<Rightarrow> regType x = r \<and> regIdx (regPayLoad x) = int i | _ \<Rightarrow> False)"

definition written :: "SanEvent \<Rightarrow> RegValStore" where
  "written e = (case eventInfo e of REGISTER_EVENT x \<Rightarrow>
     \<lparr>rv_regVal = kept_value (regType x) (regVal (regPayLoad x)), rv_blockType = blockType (loc e), rv_blockId = coreId (loc e)\<rparr>)"

definition last_value :: "SanEvent list \<Rightarrow> nat \<Rightarrow> CheckedRegInfo \<Rightarrow> RegValStore" where
  "last_value es i r =
     (case find (writes_to i (cr_regType r)) (rev es) of
        None \<Rightarrow> \<lparr>rv_regVal = cr_regDftVal r, rv_blockType = BT_AIVEC, rv_blockId = 0\<rparr>
      | Some e \<Rightarrow> written e)"

definition indices_ok :: "SanEvent list \<Rightarrow> bool" where
  "indices_ok es = list_all (\<lambda>e. case eventInfo e of REGISTER_EVENT x \<Rightarrow> 0 \<le> regIdx (regPayLoad x) \<and> regIdx (regPayLoad x) < int MAX_AICORE_NUM | _ \<Rightarrow> True) es"

definition unfinished :: "SanEvent list \<Rightarrow> bool" where
  "unfinished es = list_all (\<lambda>e. eventInfo e \<noteq> SANITIZER_CONTROL_EVENT SC_KERNEL_FINISH) es"

text \<open>The table of values after events.\<close>

definition value_table :: "SanEvent list \<Rightarrow> RegValStore list list" where
  "value_table es = map (\<lambda>i. map (last_value es i) g_regInfoTbl) [0 ..< MAX_AICORE_NUM]"

lemma table_codes: "map cr_regType g_regInfoTbl ! reg_code r = r" "reg_code r < length g_regInfoTbl"
  by (cases r; simp add: g_regInfoTbl_def)+

lemma code_table: "k < length g_regInfoTbl \<Longrightarrow> reg_code (cr_regType (g_regInfoTbl ! k)) = k"
  by (auto simp: g_regInfoTbl_def less_Suc_eq)

lemma value_table_Nil: "regValActual (Reg_Init s) = value_table []"
proof -
  have "last_value [] i = (\<lambda>r. \<lparr>rv_regVal = cr_regDftVal r, rv_blockType = BT_AIVEC, rv_blockId = 0\<rparr>)" for i
    by (rule ext) (simp add: last_value_def)
  then show ?thesis by (simp add: Reg_Init_def value_table_def map_replicate_const)
qed

lemma last_value_snoc:
  "last_value (es @ [e]) i r = (if writes_to i (cr_regType r) e then written e else last_value es i r)"
  by (simp add: last_value_def)

lemma value_table_write:
  assumes "eventInfo e = REGISTER_EVENT x" "0 \<le> regIdx (regPayLoad x)" "regIdx (regPayLoad x) < int MAX_AICORE_NUM"
  shows "value_table (es @ [e]) = (value_table es)[nat (regIdx (regPayLoad x)) := (value_table es ! nat (regIdx (regPayLoad x)))[reg_code (regType x) := written e]]"
proof -
  let ?i = "nat (regIdx (regPayLoad x))"
  have i: "?i < MAX_AICORE_NUM" using assms by simp
  have w: "writes_to i (cr_regType (g_regInfoTbl ! k)) e \<longleftrightarrow> i = ?i \<and> k = reg_code (regType x)" if "k < length g_regInfoTbl" for i k
    using assms code_table [OF that] table_codes [of "regType x"] that by (auto simp: writes_to_def)
  show ?thesis
  proof (rule nth_equalityI)
    fix j assume "j < length (value_table (es @ [e]))"
    then have j: "j < MAX_AICORE_NUM" by (simp add: value_table_def)
    have "map (last_value (es @ [e]) j) g_regInfoTbl =
        (if j = ?i then (map (last_value es j) g_regInfoTbl)[reg_code (regType x) := written e] else map (last_value es j) g_regInfoTbl)"
      by (rule nth_equalityI) (auto simp: last_value_snoc w nth_list_update)
    then show "value_table (es @ [e]) ! j = (value_table es)[?i := (value_table es ! ?i)[reg_code (regType x) := written e]] ! j"
      using i j by (simp add: value_table_def nth_list_update)
  qed (simp add: value_table_def)
qed

lemma value_table_other:
  assumes "\<And>x. eventInfo e \<noteq> REGISTER_EVENT x"
  shows "value_table (es @ [e]) = value_table es"
proof -
  have "\<not> writes_to i r e" for i r using assms by (simp add: writes_to_def split: EventInfo.split)
  then show ?thesis by (simp add: value_table_def last_value_snoc)
qed

lemma length_value_table [simp]: "length (value_table es) = MAX_AICORE_NUM"
  by (simp add: value_table_def)

lemma Reg_event_table:
  assumes "regValActual s = value_table es" "indices_ok [e]" "unfinished [e]"
  shows "\<exists>s'. Reg_event e s = Some s' \<and> regValActual s' = value_table (es @ [e]) \<and> rs_kernelName s' = rs_kernelName s \<and> rs_reports s' = rs_reports s"
proof (cases "\<exists>x. eventInfo e = REGISTER_EVENT x")
  case True
  then obtain x where x: "eventInfo e = REGISTER_EVENT x" by blast
  then have "0 \<le> regIdx (regPayLoad x)" "regIdx (regPayLoad x) < int MAX_AICORE_NUM" using assms(2) by (simp_all add: indices_ok_def)
  then show ?thesis using assms(1) x value_table_write [OF x, of es] by (simp add: Reg_event_def Let_def written_def)
next
  case False
  then have "Reg_event e s = Some s" using assms(3)
    by (auto simp: Reg_event_def unfinished_def split: EventInfo.split SanitizerControlType.split)
  then show ?thesis using assms(1) value_table_other [of e es] False by simp
qed

lemma Reg_DoEvents_table:
  assumes "regValActual s = value_table es0" "indices_ok es" "unfinished es"
  shows "\<exists>s'. Reg_DoEvents es s = Some s' \<and> regValActual s' = value_table (es0 @ es) \<and> rs_kernelName s' = rs_kernelName s \<and> rs_reports s' = rs_reports s"
  using assms
proof (induction es arbitrary: s es0)
  case (Cons e es)
  have "indices_ok [e]" "unfinished [e]" "indices_ok es" "unfinished es" using Cons.prems by (simp_all add: indices_ok_def unfinished_def)
  then obtain s1 where s1: "Reg_event e s = Some s1" "regValActual s1 = value_table (es0 @ [e])" "rs_kernelName s1 = rs_kernelName s" "rs_reports s1 = rs_reports s"
    using Reg_event_table [OF Cons.prems(1)] by blast
  then show ?case using Cons.IH [OF s1(2)] \<open>indices_ok es\<close> \<open>unfinished es\<close> by simp
qed simp

lemma Reg_DoEvents_append: "Reg_DoEvents (xs @ ys) s = (case Reg_DoEvents xs s of None \<Rightarrow> None | Some s' \<Rightarrow> Reg_DoEvents ys s')"
  by (induction xs arbitrary: s) (simp_all split: option.split)

text \<open>
  C18. The register check is exact. For a kernel whose information was accepted, the reports at its end
  are, core by core and register by register, the checked registers whose last written value (bit 56 for
  the control register) differs from the default, with the escaped kernel name, the block of the last
  write, the default and the last value; a register that was never written is not reported.
\<close>
theorem register_reports_exact:
  assumes "Reg_SetKernelInfo items k s0 = (True, s)" and "indices_ok es" and "unfinished es"
    and "eventInfo fin = SANITIZER_CONTROL_EVENT SC_KERNEL_FINISH"
  shows "\<exists>s'. Reg_DoEvents (es @ [fin]) s = Some s' \<and>
     rs_reports s' = rs_reports s0 @ concat (map (\<lambda>i. concat (map (\<lambda>r.
       let v = last_value es i r in
       if cr_check r \<and> rv_regVal v \<noteq> cr_regDftVal r
       then [\<lparr>rd_coreId = rv_blockId v, rd_blockType = rv_blockType v, rd_kernelName = ReplaceInvalidChar items (ks_kernelName k),
              rd_regType = cr_regType r, rd_regExpVal = cr_regDftVal r, rd_regActVal = rv_regVal v\<rparr>]
       else []) g_regInfoTbl)) [0 ..< MAX_AICORE_NUM])"
proof -
  have s: "s = (Reg_Init s0)\<lparr>rs_kernelName := ReplaceInvalidChar items (ks_kernelName k)\<rparr>"
    using assms(1) by (simp add: Reg_SetKernelInfo_def Let_def split: if_splits)
  have "regValActual s = value_table []" using value_table_Nil [of s0] s by simp
  from Reg_DoEvents_table [OF this assms(2,3)] obtain s1 where
    s1: "Reg_DoEvents es s = Some s1" "regValActual s1 = value_table es" "rs_kernelName s1 = rs_kernelName s" "rs_reports s1 = rs_reports s" by auto
  have "Reg_DoEvents (es @ [fin]) s = Some (report_all s1)" using s1(1) assms(4) by (simp add: Reg_DoEvents_append Reg_event_def)
  moreover have "report_core name (map (last_value es i) g_regInfoTbl) = concat (map (\<lambda>r. let v = last_value es i r in
       if cr_check r \<and> rv_regVal v \<noteq> cr_regDftVal r
       then [\<lparr>rd_coreId = rv_blockId v, rd_blockType = rv_blockType v, rd_kernelName = name,
              rd_regType = cr_regType r, rd_regExpVal = cr_regDftVal r, rd_regActVal = rv_regVal v\<rparr>]
       else []) g_regInfoTbl)" for name i
    by (simp add: report_core_def zip_map1 zip_same_conv_map comp_def Let_def conj_commute)
  ultimately show ?thesis using s1 by (simp add: report_all_def value_table_def s comp_def Reg_Init_def)
qed

text \<open>A kernel that changes a mask and sets and clears bit 56 of the control register of core 3.\<close>

definition reg_write :: "EventInfo \<Rightarrow> SanEvent" where
  "reg_write x = \<lparr>serialNo = 0, pipe = PIPE_S, eventInfo = x, timeInfo = None,
     loc = \<lparr>fileNo = 0, lineNo = 0, loc_pc = 0, deviceIdx = 0, kernelIdx = 0, deviceId = 0, coreId = 7, blockType = BT_AICUBE\<rparr>, isAtomicMode = False,
     recordType = 0, closedRingStartSerialNo = 0\<rparr>"

definition reg_value :: "RegisterType \<Rightarrow> u64 \<Rightarrow> EventInfo" where
  "reg_value r v = REGISTER_EVENT \<lparr>regType = r, regPayLoad = \<lparr>regValType = VAL_UINT64, regVal = v, regIdx = 3\<rparr>\<rparr>"

definition reg_events :: "SanEvent list" where
  "reg_events = map reg_write [reg_value VECTOR_MASK_0 5, reg_value CTRL (2 ^ 56), reg_value CTRL 1]"

definition reg_kernel :: KernelSummary where
  "reg_kernel = \<lparr>ks_pcStartAddr = 0, ks_blockDim = 8, ks_kernelType = KT_MIX, ks_isKernelWithDBI = False, ks_hasDebugLine = False, ks_kernelName = ''add''\<rparr>"

definition reg_start :: RegisterSanitizer where
  "reg_start = \<lparr>rs_checkBlockId = CHECK_ALL_BLOCK, regValActual = [], rs_kernelName = [], rs_reports = []\<rparr>"

lemma last_value_reg_events:
  "last_value reg_events i r =
     (if i = 3 \<and> cr_regType r = CTRL then \<lparr>rv_regVal = 0, rv_blockType = BT_AICUBE, rv_blockId = 7\<rparr>
      else if i = 3 \<and> cr_regType r = VECTOR_MASK_0 then \<lparr>rv_regVal = 5, rv_blockType = BT_AICUBE, rv_blockId = 7\<rparr>
      else \<lparr>rv_regVal = cr_regDftVal r, rv_blockType = BT_AIVEC, rv_blockId = 0\<rparr>)"
  by (auto simp: last_value_def reg_events_def reg_write_def reg_value_def writes_to_def written_def kept_value_def)

theorem register_reports_exact_witness:
  "\<exists>s s'. Reg_SetKernelInfo INVALID_CHAR reg_kernel reg_start = (True, s) \<and>
     Reg_DoEvents (reg_events @ [reg_write (SANITIZER_CONTROL_EVENT SC_KERNEL_FINISH)]) s = Some s' \<and>
     rs_reports s' = [\<lparr>rd_coreId = 7, rd_blockType = BT_AICUBE, rd_kernelName = ''add'', rd_regType = VECTOR_MASK_0, rd_regExpVal = - 1, rd_regActVal = 5\<rparr>]"
proof -
  let ?s = "(Reg_Init reg_start)\<lparr>rs_kernelName := ReplaceInvalidChar INVALID_CHAR ''add''\<rparr>"
  have s: "Reg_SetKernelInfo INVALID_CHAR reg_kernel reg_start = (True, ?s)"
    by (simp add: Reg_SetKernelInfo_def reg_kernel_def MAX_BLOCKDIM_NUMS_def)
  have n: "ReplaceInvalidChar INVALID_CHAR ''add'' = ''add''"
    using replace_items [of INVALID_CHAR "''add''"] table_distinct by (simp add: escape_some_def INVALID_CHAR_def)
  have ok: "indices_ok reg_events" "unfinished reg_events" "eventInfo (reg_write (SANITIZER_CONTROL_EVENT SC_KERNEL_FINISH)) = SANITIZER_CONTROL_EVENT SC_KERNEL_FINISH"
    by (simp_all add: indices_ok_def unfinished_def reg_events_def reg_write_def reg_value_def MAX_AICORE_NUM_def)
  let ?x = "\<lparr>rd_coreId = 7, rd_blockType = BT_AICUBE, rd_kernelName = ''add'', rd_regType = VECTOR_MASK_0, rd_regExpVal = - 1, rd_regActVal = 5\<rparr>"
  have row: "concat (map (\<lambda>r. let v = last_value reg_events i r in
       if cr_check r \<and> rv_regVal v \<noteq> cr_regDftVal r
       then [\<lparr>rd_coreId = rv_blockId v, rd_blockType = rv_blockType v, rd_kernelName = ReplaceInvalidChar INVALID_CHAR (ks_kernelName reg_kernel),
              rd_regType = cr_regType r, rd_regExpVal = cr_regDftVal r, rd_regActVal = rv_regVal v\<rparr>]
       else []) g_regInfoTbl) = (if i = 3 then [?x] else [])" for i
    by (simp add: last_value_reg_events g_regInfoTbl_def Let_def n reg_kernel_def)
  have "concat (map (\<lambda>i. if i = 3 then [?x] else []) [0 ..< MAX_AICORE_NUM]) = [?x]" by (simp add: MAX_AICORE_NUM_def upt_rec)
  then show ?thesis using register_reports_exact [OF s ok] s unfolding row by (simp add: reg_start_def)
qed

end
