(* ===== verification/WireProtocol.thy ===== *)
theory WireProtocol
  imports Prelude
begin

text \<open>
  The protocol between the instrumented process and the tool (\<open>csrc/core/framework/protocol.cpp\<close>,
  \<open>serializer.h\<close>, and the receiving loop of \<open>command.cpp\<close>). Bytes arrive in chunks of any size; the protocol
  collects them and cuts packets out of the stream. Numbers are little-endian. The sizes of the structures
  that travel as they are, and the mapping of a received file descriptor, are parameters.
\<close>

section \<open>Numbers\<close>

primrec le_bytes :: "nat \<Rightarrow> nat \<Rightarrow> u8 list" where
  "le_bytes 0 v = []"
| "le_bytes (Suc n) v = of_nat (v mod 256) # le_bytes n (v div 256)"

definition le_value :: "u8 list \<Rightarrow> nat" where
  "le_value bs = foldr (\<lambda>b v. unat b + 256 * v) bs 0"

lemma length_le_bytes [simp]: "length (le_bytes n v) = n"
  by (induction n arbitrary: v) simp_all

lemma le_bytes_Nil [simp]: "le_bytes n v = [] \<longleftrightarrow> n = 0"
  by (cases n) simp_all

lemma le_value_bytes: "v < 256 ^ n \<Longrightarrow> le_value (le_bytes n v) = v"
proof (induction n arbitrary: v)
  case (Suc n)
  have "v div 256 < 256 ^ n" using Suc.prems by (simp add: less_mult_imp_div_less mult.commute)
  then have "le_value (le_bytes n (v div 256)) = v div 256" by (rule Suc.IH)
  moreover have "unat (of_nat (v mod 256) :: u8) = v mod 256" by (simp add: unat_of_nat)
  ultimately show ?case by (simp add: le_value_def)
qed (simp add: le_value_def)

section \<open>Packets\<close>

datatype PacketType =
    PT_DEVICE_SUMMARY | PT_KERNEL_SUMMARY | PT_KERNEL_BINARY | PT_LOG_STRING | PT_MEMORY_RECORD | PT_KERNEL_RECORD | PT_IPC_RECORD
  | PT_MEM_REGION_PERMISSION | PT_SANITIZER_RECORD | PT_GM_ADDR_OUT_OF_BOUND_RECORD | PT_PEER_ACCESS_RECORD | PT_IPC_RESPONSE
  | PT_KERNEL_RECORD_RESPONSE | PT_INVALID

primrec pt_code :: "PacketType \<Rightarrow> nat" where
  "pt_code PT_DEVICE_SUMMARY = 0"
| "pt_code PT_KERNEL_SUMMARY = 1"
| "pt_code PT_KERNEL_BINARY = 2"
| "pt_code PT_LOG_STRING = 3"
| "pt_code PT_MEMORY_RECORD = 1000"
| "pt_code PT_KERNEL_RECORD = 1001"
| "pt_code PT_IPC_RECORD = 1002"
| "pt_code PT_MEM_REGION_PERMISSION = 1003"
| "pt_code PT_SANITIZER_RECORD = 1004"
| "pt_code PT_GM_ADDR_OUT_OF_BOUND_RECORD = 1005"
| "pt_code PT_PEER_ACCESS_RECORD = 1006"
| "pt_code PT_IPC_RESPONSE = 3000"
| "pt_code PT_KERNEL_RECORD_RESPONSE = 3001"
| "pt_code PT_INVALID = 0xFFFFFFFF"

definition known_types :: "PacketType list" where
  "known_types = [PT_DEVICE_SUMMARY, PT_KERNEL_SUMMARY, PT_KERNEL_BINARY, PT_LOG_STRING, PT_MEMORY_RECORD, PT_KERNEL_RECORD, PT_IPC_RECORD,
     PT_MEM_REGION_PERMISSION, PT_SANITIZER_RECORD, PT_GM_ADDR_OUT_OF_BOUND_RECORD, PT_PEER_ACCESS_RECORD, PT_IPC_RESPONSE, PT_KERNEL_RECORD_RESPONSE]"

text \<open>A number in the stream as a type: an unknown one counts as invalid.\<close>

definition pt_of_code :: "nat \<Rightarrow> PacketType" where
  "pt_of_code n = (case find (\<lambda>t. pt_code t = n) known_types of None \<Rightarrow> PT_INVALID | Some t \<Rightarrow> t)"

record PacketHead =
  ph_type :: PacketType
  ph_reserved :: nat
  ph_orderId :: nat

definition decode_head :: "u8 list \<Rightarrow> PacketHead" where
  "decode_head bs = \<lparr>ph_type = pt_of_code (le_value (take 4 bs)), ph_reserved = le_value (take 4 (drop 4 bs)), ph_orderId = le_value (take 8 (drop 8 bs))\<rparr>"

text \<open>A packet with the bytes of its payload; the invalid packet is \<open>None\<close> in the results below.\<close>

record WirePacket =
  wp_type :: PacketType
  wp_orderId :: nat
  wp_data :: "u8 list"

definition IsBinaryPacket :: "PacketType \<Rightarrow> bool" where
  "IsBinaryPacket t \<longleftrightarrow> t = PT_KERNEL_BINARY \<or> t = PT_LOG_STRING \<or> t = PT_KERNEL_RECORD"

section \<open>The extractor\<close>

record Extractor =
  ex_bytes :: "u8 list"
  ex_offset :: nat

definition BYTES_DROP_THRESHOLD :: nat where
  "BYTES_DROP_THRESHOLD = 1024"

definition MAX_STREAM_LEN :: nat where
  "MAX_STREAM_LEN = 100 * 1024 * 1024 * 1024"

definition Ex_Size :: "Extractor \<Rightarrow> nat" where
  "Ex_Size e = length (ex_bytes e) - ex_offset e"

definition DropUsedBytes :: "Extractor \<Rightarrow> Extractor" where
  "DropUsedBytes e = \<lparr>ex_bytes = drop (min (ex_offset e) (length (ex_bytes e))) (ex_bytes e), ex_offset = 0\<rparr>"

definition Ex_Read :: "nat \<Rightarrow> Extractor \<Rightarrow> (u8 list \<times> Extractor) option" where
  "Ex_Read n e =
     (if ex_offset e + n > length (ex_bytes e) then None
      else if ex_offset e = 0 \<and> n = length (ex_bytes e) then Some (ex_bytes e, \<lparr>ex_bytes = [], ex_offset = 0\<rparr>)
      else
        (let buffer = take n (drop (ex_offset e) (ex_bytes e)); e1 = e\<lparr>ex_offset := ex_offset e + n\<rparr>
         in Some (buffer, if ex_offset e1 > BYTES_DROP_THRESHOLD then DropUsedBytes e1 else e1)))"

definition Ex_Feed :: "u8 list \<Rightarrow> Extractor \<Rightarrow> Extractor" where
  "Ex_Feed msg e = (if length (ex_bytes e) + length msg < MAX_STREAM_LEN then e\<lparr>ex_bytes := ex_bytes e @ msg\<rparr> else e)"

text \<open>What is left to read; this is all that matters of an extractor.\<close>

definition unread :: "Extractor \<Rightarrow> u8 list" where
  "unread e = drop (ex_offset e) (ex_bytes e)"

definition ex_ok :: "Extractor \<Rightarrow> bool" where
  "ex_ok e \<longleftrightarrow> ex_offset e \<le> length (ex_bytes e)"

lemma Ex_Read_None: "ex_ok e \<Longrightarrow> Ex_Read n e = None \<longleftrightarrow> length (unread e) < n"
  by (auto simp: Ex_Read_def unread_def ex_ok_def Let_def)

lemma Ex_Read_Some:
  assumes "ex_ok e" "n \<le> length (unread e)"
  shows "\<exists>e'. Ex_Read n e = Some (take n (unread e), e') \<and> ex_ok e' \<and> unread e' = drop n (unread e) \<and> length (ex_bytes e') \<le> length (ex_bytes e)"
  using assms by (auto simp: Ex_Read_def unread_def ex_ok_def Let_def DropUsedBytes_def add.commute)

lemma Ex_Size_unread: "Ex_Size e = length (unread e)"
  by (simp add: Ex_Size_def unread_def)

section \<open>The protocol\<close>

definition MAX_LEGAL_ELF_SEGMENT_SIZE :: nat where
  "MAX_LEGAL_ELF_SEGMENT_SIZE = 16 * 1024 * 1024 * 1024"

record wire_env =
  we_sizeof :: "PacketType \<Rightarrow> nat"
  we_map :: "int \<Rightarrow> nat \<Rightarrow> u8 list option"

text \<open>
  The receiving thread: its protocol object, the head and the length it is waiting for (both static and
  local to the thread in the code) and the descriptors received so far.
\<close>

record MemCheckProtocol =
  extractor :: Extractor
  cur_head :: PacketHead
  cur_size :: nat
  pendingBinaryFd :: int
  recvFds :: "int list"

definition MemCheckProtocol_new :: MemCheckProtocol where
  "MemCheckProtocol_new = \<lparr>extractor = \<lparr>ex_bytes = [], ex_offset = 0\<rparr>, cur_head = \<lparr>ph_type = PT_INVALID, ph_reserved = 0, ph_orderId = 0\<rparr>,
     cur_size = 0, pendingBinaryFd = -1, recvFds = []\<rparr>"

definition PopRecvFd :: "MemCheckProtocol \<Rightarrow> int \<times> MemCheckProtocol" where
  "PopRecvFd p = (case recvFds p of [] \<Rightarrow> (-1, p) | fd # fds \<Rightarrow> (fd, p\<lparr>recvFds := fds\<rparr>))"

definition GetTriviallyCopyable :: "nat \<Rightarrow> MemCheckProtocol \<Rightarrow> u8 list option \<times> MemCheckProtocol" where
  "GetTriviallyCopyable n p = (case Ex_Read n (extractor p) of None \<Rightarrow> (None, p) | Some (bs, e) \<Rightarrow> (Some bs, p\<lparr>extractor := e\<rparr>))"

definition read_binary :: "MemCheckProtocol \<Rightarrow> u8 list option \<times> MemCheckProtocol" where
  "read_binary p =
     (if Ex_Size (extractor p) < cur_size p then (None, p)
      else (case Ex_Read (cur_size p) (extractor p) of None \<Rightarrow> (None, p) | Some (bs, e) \<Rightarrow> (Some bs, p\<lparr>extractor := e, cur_size := 0\<rparr>)))"

definition GetBinaryData :: "MemCheckProtocol \<Rightarrow> u8 list option \<times> MemCheckProtocol" where
  "GetBinaryData p =
     (if cur_size p = 0
      then (case Ex_Read 8 (extractor p) of
              None \<Rightarrow> (None, p)
            | Some (bs, e) \<Rightarrow>
                if le_value bs > MAX_LEGAL_ELF_SEGMENT_SIZE then (None, p\<lparr>extractor := e, cur_size := 0\<rparr>)
                else read_binary (p\<lparr>extractor := e, cur_size := le_value bs\<rparr>))
      else read_binary p)"

definition GetKernelBinaryPacket :: "wire_env \<Rightarrow> MemCheckProtocol \<Rightarrow> u8 list option \<times> MemCheckProtocol" where
  "GetKernelBinaryPacket env p0 =
     (let p = (if pendingBinaryFd p0 < 0 then case PopRecvFd p0 of (fd, q) \<Rightarrow> q\<lparr>pendingBinaryFd := fd\<rparr> else p0) in
      if pendingBinaryFd p < 0 then GetBinaryData p
      else
        (case Ex_Read 8 (extractor p) of
           None \<Rightarrow> (None, p)
         | Some (bs, e) \<Rightarrow> (we_map env (pendingBinaryFd p) (le_value bs), p\<lparr>extractor := e, pendingBinaryFd := -1\<rparr>)))"

definition GetPayLoad :: "wire_env \<Rightarrow> PacketType \<Rightarrow> MemCheckProtocol \<Rightarrow> u8 list option \<times> MemCheckProtocol" where
  "GetPayLoad env t p =
     (if t = PT_KERNEL_RECORD \<or> t = PT_LOG_STRING then GetBinaryData p
      else if t = PT_KERNEL_BINARY then GetKernelBinaryPacket env p
      else if t = PT_IPC_RESPONSE \<or> t = PT_KERNEL_RECORD_RESPONSE \<or> t = PT_INVALID then (None, p)
      else GetTriviallyCopyable (we_sizeof env t) p)"

definition Protocol_Feed :: "u8 list \<Rightarrow> MemCheckProtocol \<Rightarrow> MemCheckProtocol" where
  "Protocol_Feed msg p = (if msg \<noteq> [] then p\<lparr>extractor := Ex_Feed msg (extractor p)\<rparr> else p)"

definition finish_packet :: "u8 list option \<times> MemCheckProtocol \<Rightarrow> WirePacket option \<times> MemCheckProtocol" where
  "finish_packet r =
     (case r of
        (None, p) \<Rightarrow> (None, p)
      | (Some bs, p) \<Rightarrow>
          (Some \<lparr>wp_type = ph_type (cur_head p), wp_orderId = ph_orderId (cur_head p), wp_data = bs\<rparr>,
           p\<lparr>cur_head := (cur_head p)\<lparr>ph_type := PT_INVALID\<rparr>\<rparr>))"

definition GetPacket :: "wire_env \<Rightarrow> MemCheckProtocol \<Rightarrow> WirePacket option \<times> MemCheckProtocol" where
  "GetPacket env p =
     (if ph_type (cur_head p) = PT_INVALID
      then (case Ex_Read 16 (extractor p) of
              None \<Rightarrow> (None, p)
            | Some (bs, e) \<Rightarrow> finish_packet (GetPayLoad env (ph_type (decode_head bs)) (p\<lparr>extractor := e, cur_head := decode_head bs\<rparr>)))
      else finish_packet (GetPayLoad env (ph_type (cur_head p)) p))"

text \<open>The bytes a thread still holds, counting the head and the length it has read already.\<close>

definition weight :: "MemCheckProtocol \<Rightarrow> nat" where
  "weight p = (if ph_type (cur_head p) = PT_INVALID then 0 else 16) + length (unread (extractor p))"

lemma Ex_Read_unread: "Ex_Read n e = Some (bs, e') \<Longrightarrow> length (unread e') + n = length (unread e)"
  by (auto simp: Ex_Read_def unread_def Let_def DropUsedBytes_def split: if_splits)

lemma GetPayLoad_weight: "GetPayLoad env t p = (r, p') \<Longrightarrow> cur_head p' = cur_head p \<and> length (unread (extractor p')) \<le> length (unread (extractor p))"
  by (auto simp: GetPayLoad_def GetKernelBinaryPacket_def GetBinaryData_def read_binary_def GetTriviallyCopyable_def PopRecvFd_def Let_def
      split: if_splits option.splits list.splits prod.splits dest!: Ex_Read_unread)

lemma GetPacket_weight: "GetPacket env p = (Some x, p') \<Longrightarrow> weight p' < weight p"
  by (auto simp: GetPacket_def finish_packet_def weight_def split: if_splits option.splits prod.splits dest!: Ex_Read_unread GetPayLoad_weight)

text \<open>The receiving loop: all packets that are complete, in order.\<close>

function drain :: "wire_env \<Rightarrow> MemCheckProtocol \<Rightarrow> WirePacket list \<times> MemCheckProtocol" where
  "drain env p = (case GetPacket env p of (None, p') \<Rightarrow> ([], p') | (Some x, p') \<Rightarrow> (case drain env p' of (xs, p'') \<Rightarrow> (x # xs, p'')))"
  by pat_completeness auto
termination
  by (relation "measure (\<lambda>(env, p). weight p)") (auto dest: GetPacket_weight [OF sym])

declare drain.simps [simp del]

definition msgSplitFunc :: "wire_env \<Rightarrow> u8 list \<Rightarrow> MemCheckProtocol \<Rightarrow> WirePacket list \<times> MemCheckProtocol" where
  "msgSplitFunc env manyMsg p = drain env (Protocol_Feed manyMsg p)"

fun receive :: "wire_env \<Rightarrow> u8 list list \<Rightarrow> MemCheckProtocol \<Rightarrow> WirePacket list \<times> MemCheckProtocol" where
  "receive env [] p = ([], p)"
| "receive env (m # ms) p = (case msgSplitFunc env m p of (xs, p1) \<Rightarrow> (case receive env ms p1 of (ys, p2) \<Rightarrow> (xs @ ys, p2)))"

section \<open>Encoding\<close>

definition encode_head :: "PacketHead \<Rightarrow> u8 list" where
  "encode_head h = le_bytes 4 (pt_code (ph_type h)) @ le_bytes 4 (ph_reserved h) @ le_bytes 8 (ph_orderId h)"

definition encode_payload :: "PacketType \<Rightarrow> u8 list \<Rightarrow> u8 list" where
  "encode_payload t bs = (if IsBinaryPacket t then le_bytes 8 (length bs) @ bs else bs)"

definition encode :: "WirePacket \<Rightarrow> u8 list" where
  "encode x = encode_head \<lparr>ph_type = wp_type x, ph_reserved = 0, ph_orderId = wp_orderId x\<rparr> @ encode_payload (wp_type x) (wp_data x)"

definition payload_ok :: "wire_env \<Rightarrow> PacketType \<Rightarrow> u8 list \<Rightarrow> bool" where
  "payload_ok env t bs \<longleftrightarrow> t \<noteq> PT_INVALID \<and> t \<noteq> PT_IPC_RESPONSE \<and> t \<noteq> PT_KERNEL_RECORD_RESPONSE \<and>
     (if IsBinaryPacket t then length bs \<le> MAX_LEGAL_ELF_SEGMENT_SIZE else length bs = we_sizeof env t)"

definition packet_ok :: "wire_env \<Rightarrow> WirePacket \<Rightarrow> bool" where
  "packet_ok env x \<longleftrightarrow> payload_ok env (wp_type x) (wp_data x) \<and> wp_orderId x < 2 ^ 64"

lemma known_type: "t \<noteq> PT_INVALID \<Longrightarrow> pt_of_code (pt_code t) = t"
  by (cases t) (simp_all add: pt_of_code_def known_types_def)

lemma length_encode_head [simp]: "length (encode_head h) = 16"
  by (simp add: encode_head_def)

lemma decode_encode_head:
  assumes "ph_type h \<noteq> PT_INVALID" "ph_reserved h < 2 ^ 32" "ph_orderId h < 2 ^ 64"
  shows "decode_head (encode_head h) = h"
proof -
  have "pt_code (ph_type h) < 256 ^ 4" by (cases "ph_type h") simp_all
  then show ?thesis
    using assms known_type [OF assms(1)] le_value_bytes [of "pt_code (ph_type h)" 4] le_value_bytes [of "ph_reserved h" 4]
      le_value_bytes [of "ph_orderId h" 8]
    by (simp add: decode_head_def encode_head_def)
qed

text \<open>A thread without descriptors whose waiting state is consistent, and the bytes it has not turned into packets.\<close>

definition wire_ok :: "MemCheckProtocol \<Rightarrow> bool" where
  "wire_ok p \<longleftrightarrow> ex_ok (extractor p) \<and> pendingBinaryFd p = -1 \<and> recvFds p = [] \<and> cur_size p \<le> MAX_LEGAL_ELF_SEGMENT_SIZE \<and>
     (cur_size p \<noteq> 0 \<longrightarrow> IsBinaryPacket (ph_type (cur_head p))) \<and> ph_orderId (cur_head p) < 2 ^ 64 \<and> ph_reserved (cur_head p) = 0"

definition rest_payload :: "MemCheckProtocol \<Rightarrow> u8 list" where
  "rest_payload p = (if cur_size p = 0 then [] else le_bytes 8 (cur_size p)) @ unread (extractor p)"

definition pending :: "MemCheckProtocol \<Rightarrow> u8 list" where
  "pending p = (if ph_type (cur_head p) = PT_INVALID then [] else encode_head (cur_head p)) @ rest_payload p"

section \<open>One payload\<close>

lemma read_binary_step:
  assumes "ex_ok (extractor p)"
  shows "if cur_size p \<le> length (unread (extractor p))
    then \<exists>e. read_binary p = (Some (take (cur_size p) (unread (extractor p))), p\<lparr>extractor := e, cur_size := 0\<rparr>) \<and> ex_ok e \<and>
      unread e = drop (cur_size p) (unread (extractor p))
    else read_binary p = (None, p)"
proof (cases "cur_size p \<le> length (unread (extractor p))")
  case True
  then obtain e where "Ex_Read (cur_size p) (extractor p) = Some (take (cur_size p) (unread (extractor p)), e)" "ex_ok e"
      "unread e = drop (cur_size p) (unread (extractor p))"
    using Ex_Read_Some [OF assms, of "cur_size p"] by blast
  then show ?thesis using True by (simp add: read_binary_def Ex_Size_unread) blast
qed (simp add: read_binary_def Ex_Size_unread)

lemma size_le: "n \<le> MAX_LEGAL_ELF_SEGMENT_SIZE \<Longrightarrow> le_value (le_bytes 8 n) = n"
  by (rule le_value_bytes) (simp add: MAX_LEGAL_ELF_SEGMENT_SIZE_def)

lemma binary_complete:
  assumes "ex_ok (extractor p)" "cur_size p \<le> MAX_LEGAL_ELF_SEGMENT_SIZE" "length bs \<le> MAX_LEGAL_ELF_SEGMENT_SIZE"
    "rest_payload p = le_bytes 8 (length bs) @ bs @ zs"
  shows "\<exists>e. GetBinaryData p = (Some bs, p\<lparr>extractor := e, cur_size := 0\<rparr>) \<and> ex_ok e \<and> unread e = zs"
proof (cases "cur_size p = 0")
  case True
  then have u: "unread (extractor p) = le_bytes 8 (length bs) @ bs @ zs" using assms(4) by (simp add: rest_payload_def)
  then obtain e where e: "Ex_Read 8 (extractor p) = Some (le_bytes 8 (length bs), e)" "ex_ok e" "unread e = bs @ zs"
    using Ex_Read_Some [OF assms(1), of 8] by auto
  have g: "GetBinaryData p = read_binary (p\<lparr>extractor := e, cur_size := length bs\<rparr>)"
    using True e(1) size_le [OF assms(3)] assms(3) by (simp add: GetBinaryData_def)
  show ?thesis using read_binary_step [of "p\<lparr>extractor := e, cur_size := length bs\<rparr>"] e unfolding g by auto
next
  case False
  then have "le_bytes 8 (cur_size p) = le_bytes 8 (length bs)" and u: "unread (extractor p) = bs @ zs"
    using assms(4) by (simp_all add: rest_payload_def append_eq_append_conv)
  then have "cur_size p = length bs" using size_le [OF assms(2)] size_le [OF assms(3)] by metis
  then show ?thesis using False u read_binary_step [OF assms(1)] by (auto simp: GetBinaryData_def)
qed

lemma binary_incomplete:
  assumes "ex_ok (extractor p)" "cur_size p \<le> MAX_LEGAL_ELF_SEGMENT_SIZE" "length bs \<le> MAX_LEGAL_ELF_SEGMENT_SIZE"
    "rest_payload p @ zs = le_bytes 8 (length bs) @ bs" "zs \<noteq> []"
  shows "\<exists>e n. GetBinaryData p = (None, p\<lparr>extractor := e, cur_size := n\<rparr>) \<and> ex_ok e \<and> n \<le> MAX_LEGAL_ELF_SEGMENT_SIZE \<and>
     (if n = 0 then [] else le_bytes 8 n) @ unread e = rest_payload p"
proof (cases "cur_size p = 0")
  case True
  then have u: "unread (extractor p) @ zs = le_bytes 8 (length bs) @ bs" using assms(4) by (simp add: rest_payload_def)
  show ?thesis
  proof (cases "length (unread (extractor p)) < 8")
    case small: True
    then show ?thesis
      using True assms(1) Ex_Read_None [OF assms(1), of 8] by (intro exI [of _ "extractor p"] exI [of _ 0]) (simp add: GetBinaryData_def rest_payload_def)
  next
    case False
    then have t: "take 8 (unread (extractor p)) = le_bytes 8 (length bs)" "drop 8 (unread (extractor p)) @ zs = bs"
      using arg_cong [OF u, of "take 8"] arg_cong [OF u, of "drop 8"] by simp_all
    then obtain e where e: "Ex_Read 8 (extractor p) = Some (le_bytes 8 (length bs), e)" "ex_ok e" "unread e @ zs = bs" "unread e = drop 8 (unread (extractor p))"
      using Ex_Read_Some [OF assms(1), of 8] False by auto
    have "length (unread e) < length bs" using e(3) assms(5) by auto
    then have "read_binary (p\<lparr>extractor := e, cur_size := length bs\<rparr>) = (None, p\<lparr>extractor := e, cur_size := length bs\<rparr>)" "length bs \<noteq> 0"
      using read_binary_step [of "p\<lparr>extractor := e, cur_size := length bs\<rparr>"] e(2) by auto
    then have "GetBinaryData p = (None, p\<lparr>extractor := e, cur_size := length bs\<rparr>)"
      using True e(1) size_le [OF assms(3)] assms(3) by (simp add: GetBinaryData_def)
    moreover have "le_bytes 8 (length bs) @ unread e = rest_payload p"
      using append_take_drop_id [of 8 "unread (extractor p)"] e(4) t(1) True by (simp add: rest_payload_def)
    ultimately show ?thesis using e(2) assms(3) \<open>length bs \<noteq> 0\<close> by (intro exI [of _ e] exI [of _ "length bs"]) simp
  qed
next
  case False
  then have "le_bytes 8 (cur_size p) = le_bytes 8 (length bs)" and u: "unread (extractor p) @ zs = bs"
    using assms(4) by (simp_all add: rest_payload_def append_eq_append_conv)
  then have c: "cur_size p = length bs" using size_le [OF assms(2)] size_le [OF assms(3)] by metis
  have "length (unread (extractor p)) < length bs" using u assms(5) by auto
  then have "GetBinaryData p = (None, p)" using False read_binary_step [OF assms(1)] c by (simp add: GetBinaryData_def)
  then show ?thesis using False assms(1,2) by (intro exI [of _ "extractor p"] exI [of _ "cur_size p"]) (simp add: rest_payload_def)
qed

text \<open>Without descriptors a kernel binary is an ordinary binary packet.\<close>

lemma GetPayLoad_binary:
  "pendingBinaryFd p = -1 \<Longrightarrow> recvFds p = [] \<Longrightarrow> IsBinaryPacket t \<Longrightarrow> GetPayLoad env t p = GetBinaryData p"
proof -
  assume "pendingBinaryFd p = -1"
  then have "p\<lparr>pendingBinaryFd := -1\<rparr> = p" by (cases p) simp
  then have "GetBinaryData (p\<lparr>pendingBinaryFd := -1\<rparr>) = GetBinaryData p" by (simp only:)
  then show "recvFds p = [] \<Longrightarrow> IsBinaryPacket t \<Longrightarrow> GetPayLoad env t p = GetBinaryData p"
    using \<open>pendingBinaryFd p = -1\<close> by (auto simp: GetPayLoad_def GetKernelBinaryPacket_def PopRecvFd_def IsBinaryPacket_def Let_def)
qed

lemma GetPayLoad_plain:
  "\<not> IsBinaryPacket t \<Longrightarrow> payload_ok env t bs \<Longrightarrow> GetPayLoad env t p = GetTriviallyCopyable (length bs) p"
  by (auto simp: GetPayLoad_def IsBinaryPacket_def payload_ok_def)

lemma payload_complete:
  assumes "wire_ok p" "payload_ok env t bs" "ph_type (cur_head p) = t" "rest_payload p = encode_payload t bs @ zs"
  shows "\<exists>e. GetPayLoad env t p = (Some bs, p\<lparr>extractor := e, cur_size := 0\<rparr>) \<and> ex_ok e \<and> unread e = zs"
proof (cases "IsBinaryPacket t")
  case True
  then show ?thesis
    using assms binary_complete [of p bs zs] GetPayLoad_binary [of p t env] by (simp add: wire_ok_def payload_ok_def encode_payload_def)
next
  case False
  then have c: "cur_size p = 0" using assms(1,3) by (auto simp: wire_ok_def)
  then have u: "unread (extractor p) = bs @ zs" using assms(4) False by (simp add: rest_payload_def encode_payload_def)
  obtain e where "Ex_Read (length bs) (extractor p) = Some (bs, e)" "ex_ok e" "unread e = zs"
    using Ex_Read_Some [of "extractor p" "length bs"] assms(1) u by (auto simp: wire_ok_def)
  moreover have "p\<lparr>extractor := e, cur_size := 0\<rparr> = p\<lparr>extractor := e\<rparr>" for e using c by (cases p) simp
  ultimately show ?thesis using GetPayLoad_plain [OF False assms(2)] by (intro exI [of _ e]) (simp add: GetTriviallyCopyable_def)
qed

lemma payload_incomplete:
  assumes "wire_ok p" "payload_ok env t bs" "ph_type (cur_head p) = t" "rest_payload p @ zs = encode_payload t bs" "zs \<noteq> []"
  shows "\<exists>e n. GetPayLoad env t p = (None, p\<lparr>extractor := e, cur_size := n\<rparr>) \<and> wire_ok (p\<lparr>extractor := e, cur_size := n\<rparr>) \<and>
     rest_payload (p\<lparr>extractor := e, cur_size := n\<rparr>) = rest_payload p"
proof (cases "IsBinaryPacket t")
  case True
  then obtain e n where "GetBinaryData p = (None, p\<lparr>extractor := e, cur_size := n\<rparr>)" "ex_ok e" "n \<le> MAX_LEGAL_ELF_SEGMENT_SIZE"
      "(if n = 0 then [] else le_bytes 8 n) @ unread e = rest_payload p"
    using assms binary_incomplete [of p bs zs] unfolding wire_ok_def payload_ok_def encode_payload_def by auto
  then show ?thesis
    using True assms(1,3) GetPayLoad_binary [of p t env]
    by (intro exI [of _ e] exI [of _ n]) (cases "n = 0"; simp add: wire_ok_def; simp add: rest_payload_def [of "p\<lparr>extractor := _, cur_size := _\<rparr>"])
next
  case False
  then have c: "cur_size p = 0" using assms(1,3) by (auto simp: wire_ok_def)
  then have "unread (extractor p) @ zs = bs" using assms(4) False by (simp add: rest_payload_def encode_payload_def)
  then have "length (unread (extractor p)) < length bs" using assms(5) by auto
  then have "Ex_Read (length bs) (extractor p) = None" using assms(1) Ex_Read_None by (simp add: wire_ok_def)
  moreover have "p\<lparr>extractor := extractor p, cur_size := 0\<rparr> = p" using c by (cases p) simp
  ultimately show ?thesis using GetPayLoad_plain [OF False assms(2)] assms(1)
    by (intro exI [of _ "extractor p"] exI [of _ 0]) (simp add: GetTriviallyCopyable_def)
qed

section \<open>One packet\<close>

definition head_of :: "WirePacket \<Rightarrow> PacketHead" where
  "head_of x = \<lparr>ph_type = wp_type x, ph_reserved = 0, ph_orderId = wp_orderId x\<rparr>"

lemma head_of_ok: "packet_ok env x \<Longrightarrow> decode_head (encode_head (head_of x)) = head_of x \<and> ph_type (head_of x) \<noteq> PT_INVALID"
  by (auto simp: head_of_def packet_ok_def payload_ok_def intro: decode_encode_head)

lemma encode_split: "encode x = encode_head (head_of x) @ encode_payload (wp_type x) (wp_data x)"
  by (simp add: encode_def head_of_def)

text \<open>The state after the head of a packet has been read, whether just now or earlier.\<close>

lemma head_phase:
  assumes "wire_ok p" "packet_ok env x" "pending p @ ys = encode x @ zs" "16 \<le> length (pending p)"
  shows "\<exists>q. GetPacket env p = finish_packet (GetPayLoad env (wp_type x) q) \<and> wire_ok q \<and> cur_head q = head_of x \<and>
     rest_payload q @ ys = encode_payload (wp_type x) (wp_data x) @ zs \<and> pending q = pending p \<and> recvFds q = recvFds p"
proof (cases "ph_type (cur_head p) = PT_INVALID")
  case True
  then have c: "cur_size p = 0" using assms(1) by (auto simp: wire_ok_def IsBinaryPacket_def)
  then have pp: "pending p = unread (extractor p)" using True by (simp add: pending_def rest_payload_def)
  have e1: "encode_head (head_of x) = take 16 (unread (extractor p))"
      "drop 16 (unread (extractor p)) @ ys = encode_payload (wp_type x) (wp_data x) @ zs"
    using arg_cong [OF assms(3), of "take 16"] arg_cong [OF assms(3), of "drop 16"] assms(4) unfolding pp encode_split by simp_all
  obtain e where e: "Ex_Read 16 (extractor p) = Some (encode_head (head_of x), e)" "ex_ok e" "unread e = drop 16 (unread (extractor p))"
    using Ex_Read_Some [of "extractor p" 16] assms(1,4) e1(1) unfolding pp wire_ok_def by auto
  let ?q = "p\<lparr>extractor := e, cur_head := head_of x\<rparr>"
  have "GetPacket env p = finish_packet (GetPayLoad env (wp_type x) ?q)"
    using True e(1) head_of_ok [OF assms(2)] by (simp add: GetPacket_def) (simp add: head_of_def)
  moreover have "wire_ok ?q" using assms(1,2) e(2) c by (simp add: wire_ok_def head_of_def packet_ok_def)
  moreover have "rest_payload ?q @ ys = encode_payload (wp_type x) (wp_data x) @ zs" using e1(2) e(3) c by (simp add: rest_payload_def)
  moreover have "pending ?q = pending p" using e(3) e1(1) c head_of_ok [OF assms(2)] append_take_drop_id [of 16 "unread (extractor p)"]
    unfolding pp by (simp add: pending_def rest_payload_def)
  ultimately show ?thesis by (intro exI [of _ ?q]) simp
next
  case False
  then have "encode_head (cur_head p) @ rest_payload p @ ys = encode_head (head_of x) @ encode_payload (wp_type x) (wp_data x) @ zs"
    using assms(3) by (simp add: pending_def encode_split)
  then have h: "encode_head (cur_head p) = encode_head (head_of x)" "rest_payload p @ ys = encode_payload (wp_type x) (wp_data x) @ zs"
    by (simp_all add: append_eq_append_conv)
  have "decode_head (encode_head (cur_head p)) = cur_head p" using False assms(1) by (intro decode_encode_head) (simp_all add: wire_ok_def)
  then have "cur_head p = head_of x" using h(1) head_of_ok [OF assms(2)] by simp
  then show ?thesis using False assms(1) h(2) by (intro exI [of _ p]) (simp add: GetPacket_def head_of_def)
qed

lemma packet_complete:
  assumes "wire_ok p" "packet_ok env x" "pending p = encode x @ zs"
  shows "\<exists>p'. GetPacket env p = (Some x, p') \<and> wire_ok p' \<and> pending p' = zs"
proof -
  obtain q where q: "GetPacket env p = finish_packet (GetPayLoad env (wp_type x) q)" "wire_ok q" "cur_head q = head_of x"
      "rest_payload q = encode_payload (wp_type x) (wp_data x) @ zs"
    using head_phase [OF assms(1,2), of "[]" zs] assms(3) by (auto simp: encode_split)
  obtain e where e: "GetPayLoad env (wp_type x) q = (Some (wp_data x), q\<lparr>extractor := e, cur_size := 0\<rparr>)" "ex_ok e" "unread e = zs"
    using payload_complete [OF q(2) _ _ q(4)] assms(2) q(3) by (auto simp: packet_ok_def head_of_def)
  let ?p = "q\<lparr>extractor := e, cur_size := 0, cur_head := (cur_head q)\<lparr>ph_type := PT_INVALID\<rparr>\<rparr>"
  have "GetPacket env p = (Some x, ?p)" using q(1,3) e(1) by (simp add: finish_packet_def head_of_def)
  moreover have "wire_ok ?p" using q(2) e(2) by (simp add: wire_ok_def)
  moreover have "pending ?p = zs" using e(3) by (simp add: pending_def rest_payload_def)
  ultimately show ?thesis by blast
qed

lemma packet_incomplete:
  assumes "wire_ok p" "packet_ok env x" "pending p @ zs = encode x" "zs \<noteq> []"
  shows "\<exists>p'. GetPacket env p = (None, p') \<and> wire_ok p' \<and> pending p' = pending p"
proof (cases "16 \<le> length (pending p)")
  case True
  obtain q where q: "GetPacket env p = finish_packet (GetPayLoad env (wp_type x) q)" "wire_ok q" "cur_head q = head_of x"
      "rest_payload q @ zs = encode_payload (wp_type x) (wp_data x)" "pending q = pending p"
    using head_phase [OF assms(1,2), of zs "[]"] assms(3) True by auto
  obtain e n where e: "GetPayLoad env (wp_type x) q = (None, q\<lparr>extractor := e, cur_size := n\<rparr>)" "wire_ok (q\<lparr>extractor := e, cur_size := n\<rparr>)"
      "rest_payload (q\<lparr>extractor := e, cur_size := n\<rparr>) = rest_payload q"
    using payload_incomplete [OF q(2) _ _ q(4) assms(4), of env] assms(2) q(3) unfolding packet_ok_def by (simp add: head_of_def) blast
  have "pending (q\<lparr>extractor := e, cur_size := n\<rparr>) = pending q" using e(3) by (simp add: pending_def)
  then have "pending (q\<lparr>extractor := e, cur_size := n\<rparr>) = pending p" using q(5) by simp
  then show ?thesis using q(1) e(1,2) by (simp add: finish_packet_def)
next
  case False
  then have "ph_type (cur_head p) = PT_INVALID" by (auto simp: pending_def split: if_splits)
  moreover from this have "length (unread (extractor p)) < 16" using False assms(1) by (auto simp: pending_def rest_payload_def split: if_splits)
  ultimately show ?thesis using assms(1) Ex_Read_None [of "extractor p" 16] by (simp add: GetPacket_def wire_ok_def)
qed

section \<open>The stream\<close>

text \<open>
  \<open>holds env p ps rest\<close>: the thread \<open>p\<close> has the first bytes of the packets \<open>ps\<close>, and \<open>rest\<close> is still to come.
\<close>

definition holds :: "wire_env \<Rightarrow> MemCheckProtocol \<Rightarrow> WirePacket list \<Rightarrow> u8 list \<Rightarrow> bool" where
  "holds env p ps rest \<longleftrightarrow> wire_ok p \<and> list_all (packet_ok env) ps \<and> pending p @ rest = concat (map encode ps)"

definition waits_inside :: "MemCheckProtocol \<Rightarrow> WirePacket list \<Rightarrow> bool" where
  "waits_inside p ps \<longleftrightarrow> (case ps of [] \<Rightarrow> pending p = [] | x # xs \<Rightarrow> length (pending p) < length (encode x))"

lemma encode_nonempty: "encode x \<noteq> []"
  by (simp add: encode_split) (metis length_encode_head list.size(3) zero_neq_numeral)

lemma drain_packets:
  "holds env p ps rest \<Longrightarrow> \<exists>xs qs p'. drain env p = (xs, p') \<and> ps = xs @ qs \<and> holds env p' qs rest \<and> waits_inside p' qs"
proof (induction ps arbitrary: p)
  case Nil
  then have "wire_ok p" "pending p = []" by (simp_all add: holds_def)
  then have "ph_type (cur_head p) = PT_INVALID" "unread (extractor p) = []" "ex_ok (extractor p)"
    by (auto simp: pending_def rest_payload_def wire_ok_def encode_head_def split: if_splits)
  then have "drain env p = ([], p)" using Ex_Read_None [of "extractor p" 16] by (subst drain.simps) (simp add: GetPacket_def)
  then show ?case using Nil \<open>pending p = []\<close> by (simp add: waits_inside_def)
next
  case (Cons x xs)
  have ok: "wire_ok p" "packet_ok env x" "list_all (packet_ok env) xs" and e: "pending p @ rest = encode x @ concat (map encode xs)"
    using Cons.prems by (simp_all add: holds_def)
  show ?case
  proof (cases "length (encode x) \<le> length (pending p)")
    case True
    then obtain zs where z: "pending p = encode x @ zs" "zs @ rest = concat (map encode xs)"
      using e by (metis append_eq_append_conv_if append_take_drop_id append_assoc same_append_eq)
    then obtain p1 where p1: "GetPacket env p = (Some x, p1)" "wire_ok p1" "pending p1 = zs" using packet_complete [OF ok(1,2) z(1)] by blast
    then have "holds env p1 xs rest" using ok(3) z(2) by (simp add: holds_def)
    from Cons.IH [OF this] obtain ys qs p2 where r: "drain env p1 = (ys, p2)" "xs = ys @ qs" "holds env p2 qs rest" "waits_inside p2 qs" by blast
    have "drain env p = (x # ys, p2)" using p1(1) r(1) by (subst drain.simps) simp
    then show ?thesis using r by (metis append_Cons)
  next
    case False
    then obtain zs where z: "pending p @ zs = encode x" "zs \<noteq> []"
      using e by (metis append_eq_append_conv2 append_Nil2 le_add1 length_append order_refl)
    then obtain p1 where p1: "GetPacket env p = (None, p1)" "wire_ok p1" "pending p1 = pending p" using packet_incomplete [OF ok(1,2)] by blast
    have "drain env p = ([], p1)" using p1(1) by (subst drain.simps) simp
    moreover have "holds env p1 (x # xs) rest" using Cons.prems p1(2,3) by (simp add: holds_def)
    moreover have "waits_inside p1 (x # xs)" using False p1(3) by (simp add: waits_inside_def)
    ultimately show ?thesis by (intro exI [of _ "[]"] exI [of _ "x # xs"] exI [of _ p1]) simp
  qed
qed

text \<open>Feeding keeps the bytes as long as the buffer stays below its limit; the buffer never holds more than was fed.\<close>

definition fed :: "MemCheckProtocol \<Rightarrow> nat" where
  "fed p = length (ex_bytes (extractor p))"

lemma Ex_Read_fed: "Ex_Read n e = Some (bs, e') \<Longrightarrow> length (ex_bytes e') \<le> length (ex_bytes e)"
  by (auto simp: Ex_Read_def Let_def DropUsedBytes_def split: if_splits)

lemma GetPayLoad_fed: "GetPayLoad env t p = (r, p') \<Longrightarrow> fed p' \<le> fed p"
  by (auto simp: fed_def GetPayLoad_def GetKernelBinaryPacket_def GetBinaryData_def read_binary_def GetTriviallyCopyable_def PopRecvFd_def Let_def
      split: if_splits option.splits list.splits prod.splits dest!: Ex_Read_fed)

lemma GetPacket_fed: "GetPacket env p = (r, p') \<Longrightarrow> fed p' \<le> fed p"
  by (auto simp: GetPacket_def finish_packet_def split: if_splits option.splits prod.splits dest!: Ex_Read_fed GetPayLoad_fed)
     (auto simp: fed_def)

lemma drain_fed: "drain env p = (xs, p') \<Longrightarrow> fed p' \<le> fed p"
proof (induction env p arbitrary: xs rule: drain.induct)
  case (1 env p)
  show ?case
  proof (cases "GetPacket env p")
    case (Pair r p1)
    show ?thesis
    proof (cases r)
      case None
      then have "p' = p1" using "1.prems" Pair by (subst (asm) drain.simps) simp
      then show ?thesis using GetPacket_fed [OF Pair] by simp
    next
      case (Some x)
      then obtain ys where "drain env p1 = (ys, p')" using "1.prems" Pair by (subst (asm) drain.simps) (auto split: prod.splits)
      then show ?thesis using "1.IH" [OF Pair [symmetric] Some] GetPacket_fed [OF Pair] by simp
    qed
  qed
qed

lemma Feed_holds:
  assumes "holds env p ps (m @ rest)" "fed p + length m < MAX_STREAM_LEN"
  shows "holds env (Protocol_Feed m p) ps rest \<and> fed (Protocol_Feed m p) = fed p + length m"
proof -
  have "unread (Ex_Feed m (extractor p)) = unread (extractor p) @ m" "ex_ok (Ex_Feed m (extractor p))"
    using assms by (simp_all add: Ex_Feed_def unread_def ex_ok_def fed_def holds_def wire_ok_def)
  then show ?thesis using assms
    by (cases "m = []") (auto simp: holds_def Protocol_Feed_def wire_ok_def pending_def rest_payload_def fed_def Ex_Feed_def)
qed

lemma receive_packets:
  assumes "holds env p ps (concat ms @ rest)" "fed p + length (concat ms) < MAX_STREAM_LEN" "waits_inside p ps"
  shows "\<exists>xs qs p'. receive env ms p = (xs, p') \<and> ps = xs @ qs \<and> holds env p' qs rest \<and> waits_inside p' qs"
  using assms
proof (induction ms arbitrary: p ps)
  case (Cons m ms)
  have f: "holds env (Protocol_Feed m p) ps (concat ms @ rest)" "fed (Protocol_Feed m p) = fed p + length m"
    using Feed_holds [of env p ps m "concat ms @ rest"] Cons.prems(1,2) by simp_all
  obtain xs qs p1 where d: "drain env (Protocol_Feed m p) = (xs, p1)" "ps = xs @ qs" "holds env p1 qs (concat ms @ rest)" "waits_inside p1 qs"
    using drain_packets [OF f(1)] by blast
  have "fed p1 + length (concat ms) < MAX_STREAM_LEN" using drain_fed [OF d(1)] f(2) Cons.prems(2) by simp
  from Cons.IH [OF d(3) this d(4)] obtain ys rs p2 where "receive env ms p1 = (ys, p2)" "qs = ys @ rs" "holds env p2 rs rest" "waits_inside p2 rs" by blast
  then show ?case using d(1,2) by (simp add: msgSplitFunc_def)
qed (auto simp: waits_inside_def)

text \<open>
  C14. However the stream of packets is cut into messages, the receiving loop delivers the packets
  unchanged and in order, and each one as soon as its last byte has arrived: after any messages the
  packets delivered are a prefix of those sent, the bytes left over are less than one packet, and they are
  the first bytes of the next one; when all bytes have arrived, all packets have been delivered.
\<close>
theorem packets_received:
  assumes "list_all (packet_ok env) ps" and "concat ms @ rest = concat (map encode ps)" and "length (concat ms) < MAX_STREAM_LEN"
  shows "\<exists>xs qs p. receive env ms MemCheckProtocol_new = (xs, p) \<and> ps = xs @ qs \<and>
     concat ms = concat (map encode xs) @ pending p \<and> (qs \<noteq> [] \<longrightarrow> length (pending p) < length (encode (hd qs))) \<and> (rest = [] \<longrightarrow> xs = ps)"
proof -
  have n: "pending MemCheckProtocol_new = []" "wire_ok MemCheckProtocol_new" "fed MemCheckProtocol_new = 0"
    by (simp_all add: MemCheckProtocol_new_def pending_def rest_payload_def unread_def wire_ok_def ex_ok_def fed_def)
  have h: "holds env MemCheckProtocol_new ps (concat ms @ rest)" using n assms by (simp add: holds_def)
  have w: "waits_inside MemCheckProtocol_new ps" using n encode_nonempty by (simp add: waits_inside_def split: list.split)
  obtain xs qs p where r: "receive env ms MemCheckProtocol_new = (xs, p)" "ps = xs @ qs" "holds env p qs rest" "waits_inside p qs"
    using receive_packets [OF h _ w] n(3) assms(3) by auto
  have "pending p @ rest = concat (map encode qs)" using r(3) by (simp add: holds_def)
  then have "concat ms @ rest = (concat (map encode xs) @ pending p) @ rest" using assms(2) r(2) by simp
  then have c: "concat ms = concat (map encode xs) @ pending p" by (simp only: append_same_eq)
  have "qs = []" if "rest = []"
  proof (rule ccontr)
    assume "qs \<noteq> []"
    then obtain x ys where "qs = x # ys" by (cases qs) auto
    then show False using r(4) \<open>pending p @ rest = concat (map encode qs)\<close> that by (simp add: waits_inside_def)
  qed
  then show ?thesis using r c by (intro exI [of _ xs] exI [of _ qs] exI [of _ p]) (auto simp: waits_inside_def split: list.splits)
qed

definition wire_sizes :: wire_env where
  "wire_sizes = \<lparr>we_sizeof = (\<lambda>_. 4), we_map = (\<lambda>_ _. None)\<rparr>"

definition wire_packets :: "WirePacket list" where
  "wire_packets = [\<lparr>wp_type = PT_DEVICE_SUMMARY, wp_orderId = 1, wp_data = [1, 2, 3, 4]\<rparr>, \<lparr>wp_type = PT_LOG_STRING, wp_orderId = 3, wp_data = []\<rparr>,
     \<lparr>wp_type = PT_KERNEL_RECORD, wp_orderId = 2, wp_data = [7, 8]\<rparr>]"

text \<open>The stream of three packets, delivered byte by byte.\<close>

theorem packets_received_witness:
  "\<exists>p. receive wire_sizes (map (\<lambda>b. [b]) (concat (map encode wire_packets))) MemCheckProtocol_new = (wire_packets, p)"
proof -
  let ?ms = "map (\<lambda>b. [b]) (concat (map encode wire_packets))"
  have "list_all (packet_ok wire_sizes) wire_packets"
    by (simp add: wire_packets_def packet_ok_def payload_ok_def IsBinaryPacket_def wire_sizes_def MAX_LEGAL_ELF_SEGMENT_SIZE_def)
  moreover have "concat ?ms @ [] = concat (map encode wire_packets)" by simp
  moreover have "length (concat ?ms) < MAX_STREAM_LEN"
    by (simp add: wire_packets_def encode_split encode_payload_def IsBinaryPacket_def MAX_STREAM_LEN_def)
  ultimately show ?thesis using packets_received [of wire_sizes wire_packets ?ms "[]"] by blast
qed

section \<open>Streams that stop\<close>

lemma response_head_waits:
  assumes "ph_type (cur_head p) = PT_IPC_RESPONSE \<or> ph_type (cur_head p) = PT_KERNEL_RECORD_RESPONSE"
  shows "fst (receive env ms p) = []"
  using assms
proof (induction ms arbitrary: p)
  case (Cons m ms)
  let ?p = "Protocol_Feed m p"
  have h: "cur_head ?p = cur_head p" by (simp add: Protocol_Feed_def)
  then have "GetPacket env ?p = (None, ?p)" using Cons.prems by (auto simp: GetPacket_def GetPayLoad_def finish_packet_def)
  then have "drain env ?p = ([], ?p)" by (subst drain.simps) simp
  then show ?case using Cons.IH [of ?p] Cons.prems h by (simp add: msgSplitFunc_def case_prod_unfold)
qed simp

lemma first_head:
  assumes "16 + length bs < MAX_STREAM_LEN"
  shows "\<exists>e. Ex_Read 16 (extractor (Protocol_Feed (encode_head \<lparr>ph_type = t, ph_reserved = 0, ph_orderId = n\<rparr> @ bs) MemCheckProtocol_new)) =
      Some (encode_head \<lparr>ph_type = t, ph_reserved = 0, ph_orderId = n\<rparr>, e) \<and> ex_ok e \<and> unread e = bs"
proof -
  let ?h = "encode_head \<lparr>ph_type = t, ph_reserved = 0, ph_orderId = n\<rparr>"
  have "extractor (Protocol_Feed (?h @ bs) MemCheckProtocol_new) = \<lparr>ex_bytes = ?h @ bs, ex_offset = 0\<rparr>"
    using assms length_encode_head [of "\<lparr>ph_type = t, ph_reserved = 0, ph_orderId = n\<rparr>"] by (auto simp: Protocol_Feed_def MemCheckProtocol_new_def Ex_Feed_def)
  then show ?thesis using Ex_Read_Some [of "\<lparr>ex_bytes = ?h @ bs, ex_offset = 0\<rparr>" 16] by (auto simp: ex_ok_def unread_def)
qed

text \<open>
  A packet head of one of the two response types, which only the tool itself sends, stops a
  connection for good: the type counts as known, but no payload is defined for it, so the head is never
  given up and no later byte is ever turned into a packet.
\<close>
theorem response_head_blocks:
  assumes "t = PT_IPC_RESPONSE \<or> t = PT_KERNEL_RECORD_RESPONSE" and "n < 2 ^ 64"
  shows "fst (receive env (encode_head \<lparr>ph_type = t, ph_reserved = 0, ph_orderId = n\<rparr> # ms) MemCheckProtocol_new) = []"
proof -
  let ?h = "\<lparr>ph_type = t, ph_reserved = 0, ph_orderId = n\<rparr>"
  let ?p = "Protocol_Feed (encode_head ?h) MemCheckProtocol_new"
  have t: "t \<noteq> PT_INVALID" using assms(1) by auto
  obtain e where e: "Ex_Read 16 (extractor ?p) = Some (encode_head ?h, e)" using first_head [of "[]" t n] by (auto simp: MAX_STREAM_LEN_def)
  have "ph_type (cur_head ?p) = PT_INVALID" by (simp add: Protocol_Feed_def MemCheckProtocol_new_def)
  moreover have "decode_head (encode_head ?h) = ?h" using assms(2) t by (intro decode_encode_head) simp_all
  ultimately have "GetPacket env ?p = (None, ?p\<lparr>extractor := e, cur_head := ?h\<rparr>)"
    using e assms(1) by (auto simp: GetPacket_def GetPayLoad_def finish_packet_def)
  then have "drain env ?p = ([], ?p\<lparr>extractor := e, cur_head := ?h\<rparr>)" by (subst drain.simps) simp
  then show ?thesis using response_head_waits [of "?p\<lparr>extractor := e, cur_head := ?h\<rparr>" env ms] assms(1) by (simp add: msgSplitFunc_def case_prod_unfold)
qed

theorem response_head_blocks_witness:
  "fst (receive wire_sizes (encode_head \<lparr>ph_type = PT_IPC_RESPONSE, ph_reserved = 0, ph_orderId = 5\<rparr> # map encode wire_packets) MemCheckProtocol_new) = []"
  by (rule response_head_blocks) simp_all

text \<open>
  A binary packet whose length exceeds the limit is announced as dropped, but its head is kept: the
  bytes that follow are read as a length and a payload of the same packet.
\<close>

theorem oversize_packet_not_dropped:
  assumes "MAX_LEGAL_ELF_SEGMENT_SIZE < l" "l < 2 ^ 64" "n < 2 ^ 64" "length bs \<le> 2 ^ 32"
  shows "\<exists>p. receive env [encode_head \<lparr>ph_type = PT_KERNEL_RECORD, ph_reserved = 0, ph_orderId = n\<rparr> @ le_bytes 8 l, le_bytes 8 (length bs) @ bs] MemCheckProtocol_new =
     ([\<lparr>wp_type = PT_KERNEL_RECORD, wp_orderId = n, wp_data = bs\<rparr>], p)"
proof -
  let ?h = "\<lparr>ph_type = PT_KERNEL_RECORD, ph_reserved = 0, ph_orderId = n\<rparr>" and ?x = "\<lparr>wp_type = PT_KERNEL_RECORD, wp_orderId = n, wp_data = bs\<rparr>"
  let ?p = "Protocol_Feed (encode_head ?h @ le_bytes 8 l) MemCheckProtocol_new"
  obtain e where e: "Ex_Read 16 (extractor ?p) = Some (encode_head ?h, e)" "ex_ok e" "unread e = le_bytes 8 l"
    using first_head [of "le_bytes 8 l" PT_KERNEL_RECORD n] by (auto simp: MAX_STREAM_LEN_def)
  obtain e1 where e1: "Ex_Read 8 e = Some (le_bytes 8 l, e1)" "ex_ok e1" "unread e1 = []" using Ex_Read_Some [OF e(2), of 8] e(3) by auto
  have i: "ph_type (cur_head ?p) = PT_INVALID" "cur_size ?p = 0" "pendingBinaryFd ?p = -1" "recvFds ?p = []"
    by (simp_all add: Protocol_Feed_def MemCheckProtocol_new_def)
  have d: "decode_head (encode_head ?h) = ?h" using assms(3) by (intro decode_encode_head) simp_all
  let ?q = "?p\<lparr>extractor := e1, cur_head := ?h, cur_size := 0\<rparr>"
  have "GetPacket env ?p = (None, ?q)"
    using e(1) e1(1) i d assms(1) le_value_bytes [of l 8] assms(2)
    by (simp add: GetPacket_def GetPayLoad_def GetBinaryData_def finish_packet_def)
  then have g: "drain env ?p = ([], ?q)" by (subst drain.simps) simp
  have f: "fed ?q + length (le_bytes 8 (length bs) @ bs) < MAX_STREAM_LEN"
  proof -
    have "fed ?q \<le> fed ?p" using drain_fed [OF g] by simp
    also have "fed ?p \<le> 24" by (simp add: fed_def Protocol_Feed_def MemCheckProtocol_new_def Ex_Feed_def)
    finally show ?thesis using assms(4) by (simp add: MAX_STREAM_LEN_def)
  qed
  have "packet_ok env ?x" using assms(3,4) by (simp add: packet_ok_def payload_ok_def IsBinaryPacket_def MAX_LEGAL_ELF_SEGMENT_SIZE_def)
  then have "holds env ?q [?x] (concat [le_bytes 8 (length bs) @ bs] @ [])"
    using e1 i assms(3) by (simp add: holds_def wire_ok_def pending_def rest_payload_def encode_split head_of_def encode_payload_def IsBinaryPacket_def)
  moreover have "waits_inside ?q [?x]" using e1(3) by (simp add: waits_inside_def pending_def rest_payload_def encode_split encode_payload_def IsBinaryPacket_def)
  ultimately obtain xs qs p2 where r: "receive env [le_bytes 8 (length bs) @ bs] ?q = (xs, p2)" "[?x] = xs @ qs" "holds env p2 qs []" "waits_inside p2 qs"
    using receive_packets [of env ?q "[?x]" "[le_bytes 8 (length bs) @ bs]" "[]"] f by auto
  have "qs = []" using r(2-4) by (cases qs) (auto simp: holds_def waits_inside_def Cons_eq_append_conv)
  then show ?thesis using r g by (simp add: msgSplitFunc_def)
qed

end
