(* ===== verification/SyncParse.thy ===== *)
theory SyncParse
  imports Events
begin

text \<open>
  The translation of synchronisation records into events (\<open>csrc/core/framework/record_parse.cpp\<close> and
  \<open>record_parse.h\<close>): one function per record, the handling of \<open>hset_flag\<close> and \<open>hwait_flag\<close>, and the closed rings
  of flags between pipes, from which the race check inside one pipe learns which accesses are ordered.
\<close>

unbundle bit_operations_syntax

section \<open>Records\<close>

datatype AtomicMode = AM_NONE | AM_F32 | AM_F16 | AM_S16 | AM_S32 | AM_S8 | AM_BF16 | AM_SUM | AM_MAX | AM_MIN

record SyncRecord =
  sr_location :: Location
  sr_src :: PipeType
  sr_dst :: PipeType
  sr_eventID :: u64
  sr_isGenerated :: bool

record BufRecord =
  br_location :: Location
  br_pipe :: PipeType
  br_bufId :: u64
  br_mode :: BufMode

record HardSyncRecord =
  hr_location :: Location
  hr_src :: PipeType
  hr_dst :: PipeType
  hr_eventID :: u64
  hr_memory :: MemType
  hr_v :: u8

record SoftSyncRecord =
  so_location :: Location
  so_waitCoreID :: u16
  so_usedCores :: int
  so_eventID :: int
  so_isAIVOnly :: bool

record PipeBarrierRecord =
  pb_location :: Location
  pb_pipe :: PipeType

record DsbRecord =
  ds_location :: Location
  ds_pipe :: PipeType
  ds_memDomain :: MemDsbType

record FftsSyncRecord =
  fs_location :: Location
  fs_dst :: PipeType
  fs_mode :: u8
  fs_flagID :: u8
  fs_vecSubBlockDim :: u8

record WaitFlagDevRecord =
  wd_location :: Location
  wd_flagID :: u8

record WaitFlagDevPipeRecord =
  wp_location :: Location
  wp_flagID :: u8
  wp_pipe :: PipeType

record IntraBlockSyncRecord =
  ib_location :: Location
  ib_pipe :: PipeType
  ib_syncID :: u64
  ib_vecSubBlockDim :: u8

record AtomicModeRecord =
  am_location :: Location
  am_mode :: AtomicMode

record RegisterSetRecord =
  rg_location :: Location
  rg_payload :: RegisterPayload

record DynamicRecord =
  dr_count :: nat
  dr_dynamicType :: RecordType
  dr_buffer :: "ShadowMemoryRecord list option"

text \<open>
  The payload with the parse function it is given to in \<open>g_parseFuncs\<close>: record types that share a parse
  function share a constructor. \<open>KP_other\<close> carries the events of the parse functions that are not modelled
  here, the instructions that move and compute data, and \<open>KP_none\<close> is a type without parse function.
\<close>

datatype KernelPayload =
    KP_SetFlag SyncRecord | KP_WaitFlag SyncRecord | KP_GetBuf BufRecord | KP_RlsBuf BufRecord | KP_FftsSync FftsSyncRecord
  | KP_WaitDev WaitFlagDevRecord | KP_WaitDevPipe WaitFlagDevPipeRecord | KP_SetIntraBlock IntraBlockSyncRecord
  | KP_WaitIntraBlock IntraBlockSyncRecord | KP_IBSet SoftSyncRecord | KP_IBWait SoftSyncRecord | KP_SyncAll SoftSyncRecord
  | KP_HsetFlag HardSyncRecord | KP_HwaitFlag HardSyncRecord | KP_PipeBarrier PipeBarrierRecord | KP_Dsb DsbRecord
  | KP_SetAtomic AtomicModeRecord | KP_Register RegisterType RegisterSetRecord | KP_Dynamic DynamicRecord
  | KP_KernelFinish | KP_Finish | KP_BlockFinish | KP_other "SanEvent list" | KP_none

record KernelRecord =
  kr_recordType :: RecordType
  kr_blockType :: BlockType
  kr_serialNo :: nat
  kr_payload :: KernelPayload

text \<open>
  What a parse function takes from the thread: the device, the last kernel of the device (zero when there
  is none), the index of the running kernel, what the members of the event union hold that it does not set,
  and the order in which a hash set of pipes is walked.
\<close>

record parse_env =
  pe_deviceId :: nat
  pe_kernelIdx :: nat
  pe_contextKernelIdx :: nat
  pe_sync :: SyncOpInfo
  pe_hsync :: HSyncOpInfo
  pe_ffts :: FftsSyncInfo
  pe_buf :: BufSyncInfo
  pe_soft :: SoftSyncInfo
  pe_dyn :: DynamicOpInfo
  pe_walk :: "PipeType list \<Rightarrow> PipeType list"

record HsetRecordKey =
  hk_srcPipe :: PipeType
  hk_dstPipe :: PipeType
  hk_eventId :: u64
  hk_memType :: MemType

record HsetRecordState =
  cacheMode0 :: bool
  cacheMode1 :: bool
  isTransSet :: bool

text \<open>
  The state of a parsing thread. A missing entry of \<open>edgeStartPoints\<close> is the same as one full of zeros, as
  zero means that there is no start. The map of \<open>hset\<close> states is kept in the order of its keys.
\<close>

record RecordParse =
  dstSrcGraph :: "PipeType \<Rightarrow> PipeType list"
  edgeStartPoints :: "PipeType \<Rightarrow> PipeType \<Rightarrow> nat \<Rightarrow> PipeType \<Rightarrow> nat"
  inheritedStartPoints :: "PipeType \<Rightarrow> PipeType \<Rightarrow> nat"
  closedRing :: "PipeType \<Rightarrow> nat"
  hsetSyncMap :: "(HsetRecordKey \<times> HsetRecordState) list"
  getRlsBufMap :: "u16 \<times> u64 \<Rightarrow> nat"
  mapAtomicMode :: "nat \<Rightarrow> bool"

definition ResetSyncInPipeInfo :: "RecordParse \<Rightarrow> RecordParse" where
  "ResetSyncInPipeInfo s = s\<lparr>dstSrcGraph := (\<lambda>_. []), edgeStartPoints := (\<lambda>_ _ _ _. 0), inheritedStartPoints := (\<lambda>_ _. 0), closedRing := (\<lambda>_. 0)\<rparr>"

definition ResetAll :: "RecordParse \<Rightarrow> RecordParse" where
  "ResetAll s = (ResetSyncInPipeInfo s)\<lparr>hsetSyncMap := [], getRlsBufMap := (\<lambda>_. 0)\<rparr>"

section \<open>Parse functions\<close>

definition SanEvent_new :: "EventInfo \<Rightarrow> SanEvent" where
  "SanEvent_new x = \<lparr>serialNo = 0, pipe = PIPE_S, eventInfo = x, timeInfo = None,
     loc = \<lparr>fileNo = 0, lineNo = 0, loc_pc = 0, deviceIdx = 0, kernelIdx = 0, deviceId = 0, coreId = 0, blockType = BT_AIVEC\<rparr>,
     isAtomicMode = False, recordType = INVALID_RECORD_TYPE, closedRingStartSerialNo = 0\<rparr>"

definition SetLocationInfo :: "parse_env \<Rightarrow> RecordParse \<Rightarrow> Location \<Rightarrow> KernelRecord \<Rightarrow> SanEvent \<Rightarrow> SanEvent" where
  "SetLocationInfo env s l r e =
     e\<lparr>serialNo := kr_serialNo r, isAtomicMode := mapAtomicMode s (unat (location_blockId l)),
       loc := (loc e)\<lparr>fileNo := location_fileNo l, lineNo := location_lineNo l, loc_pc := location_pc l, kernelIdx := pe_kernelIdx env,
         deviceId := pe_deviceId env, coreId := unat (location_blockId l), blockType := kr_blockType r\<rparr>\<rparr>"

definition located :: "parse_env \<Rightarrow> RecordParse \<Rightarrow> Location \<Rightarrow> KernelRecord \<Rightarrow> PipeType \<Rightarrow> EventInfo \<Rightarrow> SanEvent" where
  "located env s l r p x = (SetLocationInfo env s l r (SanEvent_new x))\<lparr>pipe := p\<rparr>"

definition IsValidHardSyncRecord :: "BlockType \<Rightarrow> HardSyncRecord \<Rightarrow> bool" where
  "IsValidHardSyncRecord bt h \<longleftrightarrow> bt \<noteq> BT_AIVEC \<and> hr_src h \<in> {PIPE_MTE1, PIPE_M, PIPE_FIX} \<and> hr_dst h \<in> {PIPE_MTE1, PIPE_M, PIPE_FIX} \<and>
     hr_memory h \<notin> {MEM_GM, MEM_UB, MEM_UNKNOWN} \<and> hr_v h \<le> 1 \<and> hr_eventID h \<le> 3"

definition CreateCrossPipeSyncEvent :: "parse_env \<Rightarrow> RecordParse \<Rightarrow> Location \<Rightarrow> KernelRecord \<Rightarrow> SyncType \<Rightarrow> PipeType \<Rightarrow> PipeType \<Rightarrow> SanEvent" where
  "CreateCrossPipeSyncEvent env s l r t src dst =
     located env s l r (if t = SET_FLAG then src else dst)
       (SYNC_EVENT ((pe_sync env)\<lparr>sync_opType := t, srcPipe := src, dstPipe := dst, eventId := 11, sync_memType := MEM_UNKNOWN, isGenerated := True\<rparr>))"

definition CreateInnerPipeSyncEvent :: "parse_env \<Rightarrow> RecordParse \<Rightarrow> Location \<Rightarrow> KernelRecord \<Rightarrow> PipeType \<Rightarrow> SanEvent" where
  "CreateInnerPipeSyncEvent env s l r p =
     located env s l r p
       (SYNC_EVENT ((pe_sync env)\<lparr>sync_opType := PIPE_BARRIER, sync_memType := MEM_UNKNOWN, isRetrogress := False, isGenerated := True\<rparr>))"

definition pipe_triple :: "parse_env \<Rightarrow> RecordParse \<Rightarrow> Location \<Rightarrow> KernelRecord \<Rightarrow> PipeType \<Rightarrow> SanEvent list" where
  "pipe_triple env s l r p = [CreateInnerPipeSyncEvent env s l r p, CreateCrossPipeSyncEvent env s l r SET_FLAG p PIPE_S,
     CreateCrossPipeSyncEvent env s l r WAIT_FLAG p PIPE_S]"

text \<open>All pipes from \<open>PIPE_V\<close> up to, and without, \<open>SIZE\<close>.\<close>

definition CreatePipeAllSyncEvent :: "parse_env \<Rightarrow> RecordParse \<Rightarrow> Location \<Rightarrow> KernelRecord \<Rightarrow> SanEvent list" where
  "CreatePipeAllSyncEvent env s l r =
     concat (map (pipe_triple env s l r) [PIPE_V, PIPE_M, PIPE_MTE1, PIPE_MTE2, PIPE_MTE3, PIPE_ALL, PIPE_MTE4, PIPE_MTE5, PIPE_V2, PIPE_FIX, PIPE_S_CAL])"

definition CreatePipeDdrSyncEvent :: "parse_env \<Rightarrow> RecordParse \<Rightarrow> Location \<Rightarrow> KernelRecord \<Rightarrow> SanEvent list" where
  "CreatePipeDdrSyncEvent env s l r = concat (map (pipe_triple env s l r) [PIPE_MTE2, PIPE_MTE3])"

text \<open>The mask keeps the three low bits of an event number, as the hardware does.\<close>

definition ParseRecordFlag :: "parse_env \<Rightarrow> SyncType \<Rightarrow> KernelRecord \<Rightarrow> SyncRecord \<Rightarrow> RecordParse \<Rightarrow> SanEvent list \<times> RecordParse" where
  "ParseRecordFlag env t r x s =
     ([located env s (sr_location x) r (if t = SET_FLAG then sr_src x else sr_dst x)
        (SYNC_EVENT \<lparr>sync_opType = t, srcPipe = sr_src x, dstPipe = sr_dst x, eventId = ucast (sr_eventID x) AND 7, sync_memType = MEM_UNKNOWN,
           isRetrogress = False, isGenerated = sr_isGenerated x\<rparr>)], s)"

definition ParseRecordGetBuf :: "parse_env \<Rightarrow> KernelRecord \<Rightarrow> BufRecord \<Rightarrow> RecordParse \<Rightarrow> SanEvent list \<times> RecordParse" where
  "ParseRecordGetBuf env r x s =
     (let info = (pe_buf env)\<lparr>buf_opType := GET_BUF, buf_pipe := br_pipe x, bufId := br_bufId x, bufMode := br_mode x\<rparr>;
          info1 = (if br_mode x = BLOCK_MODE then info\<lparr>rlsCount := getRlsBufMap s (location_blockId (br_location x), br_bufId x)\<rparr> else info)
      in ([located env s (br_location x) r (br_pipe x) (BUF_SYNC_EVENT info1)], s))"

definition ParseRecordRlsBuf :: "parse_env \<Rightarrow> KernelRecord \<Rightarrow> BufRecord \<Rightarrow> RecordParse \<Rightarrow> SanEvent list \<times> RecordParse" where
  "ParseRecordRlsBuf env r x s =
     (let key = (location_blockId (br_location x), br_bufId x)
      in ([located env s (br_location x) r (br_pipe x)
            (BUF_SYNC_EVENT ((pe_buf env)\<lparr>buf_opType := RLS_BUF, buf_pipe := br_pipe x, bufId := br_bufId x, bufMode := br_mode x\<rparr>))],
          s\<lparr>getRlsBufMap := (getRlsBufMap s)(key := getRlsBufMap s key + 1)\<rparr>))"

definition ParseFftsSyncRecord :: "parse_env \<Rightarrow> KernelRecord \<Rightarrow> FftsSyncRecord \<Rightarrow> RecordParse \<Rightarrow> SanEvent list" where
  "ParseFftsSyncRecord env r x s =
     [located env s (fs_location x) r (fs_dst x) (CROSS_CORE_SYNC_EVENT \<lparr>ffts_opType = FFTS_SYNC, ffts_dstPipe = fs_dst x, flagId = fs_flagID x,
        ffts_mode = fs_mode x, vecSubBlockDim = fs_vecSubBlockDim x\<rparr>),
      CreateInnerPipeSyncEvent env s (fs_location x) r (fs_dst x)]"

definition ParseWaitDevRecord :: "parse_env \<Rightarrow> KernelRecord \<Rightarrow> WaitFlagDevRecord \<Rightarrow> RecordParse \<Rightarrow> SanEvent list" where
  "ParseWaitDevRecord env r x s =
     [located env s (wd_location x) r PIPE_S (CROSS_CORE_SYNC_EVENT ((pe_ffts env)\<lparr>ffts_opType := WAIT_FLAG_DEV, ffts_dstPipe := PIPE_S, flagId := wd_flagID x\<rparr>))]"

definition ParseWaitDevPipeRecord :: "parse_env \<Rightarrow> KernelRecord \<Rightarrow> WaitFlagDevPipeRecord \<Rightarrow> RecordParse \<Rightarrow> SanEvent list" where
  "ParseWaitDevPipeRecord env r x s =
     [located env s (wp_location x) r (wp_pipe x)
        (CROSS_CORE_SYNC_EVENT ((pe_ffts env)\<lparr>ffts_opType := WAIT_FLAG_DEV, ffts_dstPipe := wp_pipe x, flagId := wp_flagID x\<rparr>))]"

text \<open>The 64-bit number of the record is cut to the 8 bits of the event.\<close>

definition ParseSetIntraBlockRecord :: "parse_env \<Rightarrow> KernelRecord \<Rightarrow> IntraBlockSyncRecord \<Rightarrow> RecordParse \<Rightarrow> SanEvent list" where
  "ParseSetIntraBlockRecord env r x s =
     [located env s (ib_location x) r (ib_pipe x) (CROSS_CORE_SYNC_EVENT \<lparr>ffts_opType = FFTS_SYNC, ffts_dstPipe = ib_pipe x, flagId = ucast (ib_syncID x),
        ffts_mode = 4, vecSubBlockDim = ib_vecSubBlockDim x\<rparr>)]"

definition ParseWaitIntraBlockRecord :: "parse_env \<Rightarrow> KernelRecord \<Rightarrow> IntraBlockSyncRecord \<Rightarrow> RecordParse \<Rightarrow> SanEvent list" where
  "ParseWaitIntraBlockRecord env r x s =
     [located env s (ib_location x) r (ib_pipe x)
        (CROSS_CORE_SYNC_EVENT ((pe_ffts env)\<lparr>ffts_opType := WAIT_INTRA_BLOCK, ffts_dstPipe := ib_pipe x, flagId := ucast (ib_syncID x)\<rparr>))]"

definition ParseRecordIBStub :: "parse_env \<Rightarrow> SyncType \<Rightarrow> KernelRecord \<Rightarrow> SoftSyncRecord \<Rightarrow> RecordParse \<Rightarrow> SanEvent list" where
  "ParseRecordIBStub env t r x s =
     [located env s (so_location x) r PIPE_S (CROSS_CORE_SOFT_SYNC_EVENT
        ((pe_soft env)\<lparr>soft_opType := t, soft_eventID := so_eventID x, waitCoreID := int (unat (so_waitCoreID x)), soft_isAIVOnly := so_isAIVOnly x\<rparr>))]"

definition ParseRecordSyncAllStub :: "parse_env \<Rightarrow> KernelRecord \<Rightarrow> SoftSyncRecord \<Rightarrow> RecordParse \<Rightarrow> SanEvent list" where
  "ParseRecordSyncAllStub env r x s =
     map (\<lambda>t. located env s (so_location x) r PIPE_S (CROSS_CORE_SYNC_EVENT \<lparr>ffts_opType = t, ffts_dstPipe = PIPE_S, flagId = 31, ffts_mode = 0, vecSubBlockDim = 2\<rparr>))
       [FFTS_SYNC, WAIT_FLAG_DEV]"

definition ParseRecordHflag :: "parse_env \<Rightarrow> SyncType \<Rightarrow> KernelRecord \<Rightarrow> HardSyncRecord \<Rightarrow> RecordParse \<Rightarrow> SanEvent list" where
  "ParseRecordHflag env t r x s =
     (if \<not> IsValidHardSyncRecord (kr_blockType r) x then []
      else [located env s (hr_location x) r (if t = HSET_FLAG then hr_src x else hr_dst x)
              (H_SYNC_EVENT ((pe_hsync env)\<lparr>h_opType := t, h_srcPipe := hr_src x, h_dstPipe := hr_dst x, h_eventId := hr_eventID x, h_memType := hr_memory x,
                 h_v := hr_v x\<rparr>))])"

definition ParseRecordPipeBarrier :: "parse_env \<Rightarrow> KernelRecord \<Rightarrow> PipeBarrierRecord \<Rightarrow> RecordParse \<Rightarrow> SanEvent list" where
  "ParseRecordPipeBarrier env r x s =
     (if pb_pipe x = PIPE_ALL then CreatePipeAllSyncEvent env s (pb_location x) r else [CreateInnerPipeSyncEvent env s (pb_location x) r (pb_pipe x)])"

definition ParseRecordDsb :: "parse_env \<Rightarrow> KernelRecord \<Rightarrow> DsbRecord \<Rightarrow> RecordParse \<Rightarrow> SanEvent list" where
  "ParseRecordDsb env r x s =
     (if ds_memDomain x = DSB_ALL \<or> ds_memDomain x = DSB_UB \<and> kr_blockType r = BT_AIVEC then CreatePipeAllSyncEvent env s (ds_location x) r
      else if ds_memDomain x = DSB_DDR \<and> kr_blockType r = BT_AIVEC then CreatePipeDdrSyncEvent env s (ds_location x) r
      else [located env s (ds_location x) r (ds_pipe x) (SYNC_EVENT ((pe_sync env)\<lparr>sync_opType := SYNC_DSB,
              sync_memType := DsbToMemType (ds_memDomain x), isRetrogress := False, isGenerated := True\<rparr>))])"

definition GetAtomicFlag :: "AtomicMode \<Rightarrow> bool option" where
  "GetAtomicFlag m = (case m of AM_SUM \<Rightarrow> None | AM_MIN \<Rightarrow> None | AM_MAX \<Rightarrow> None | AM_NONE \<Rightarrow> Some False | _ \<Rightarrow> Some True)"

definition ParseRecordSetAtomic :: "AtomicModeRecord \<Rightarrow> RecordParse \<Rightarrow> RecordParse" where
  "ParseRecordSetAtomic x s =
     (case GetAtomicFlag (am_mode x) of None \<Rightarrow> s
      | Some b \<Rightarrow> s\<lparr>mapAtomicMode := (mapAtomicMode s)(unat (location_blockId (am_location x)) := b)\<rparr>)"

definition ParseRecordRegister :: "parse_env \<Rightarrow> KernelRecord \<Rightarrow> RegisterType \<Rightarrow> RegisterSetRecord \<Rightarrow> RecordParse \<Rightarrow> SanEvent list" where
  "ParseRecordRegister env r t x s = [SetLocationInfo env s (rg_location x) r (SanEvent_new (REGISTER_EVENT \<lparr>regType = t, regPayLoad = rg_payload x\<rparr>))]"

definition CalShadowMemoryAddrInfo :: "ShadowMemoryRecord list \<Rightarrow> u64 \<times> u64" where
  "CalShadowMemoryAddrInfo rs = foldl (\<lambda>(lo, hi) x. (min lo (sm_addr x), max hi (sm_addr x + sm_size x))) (- 1, 0) rs"

text \<open>The address space and the core come from the first record; the buffer holds \<open>count\<close> records.\<close>

definition ParseRecordDynamic :: "parse_env \<Rightarrow> KernelRecord \<Rightarrow> DynamicRecord \<Rightarrow> SanEvent list" where
  "ParseRecordDynamic env r x =
     (let base = (pe_dyn env)\<lparr>dyn_count := dr_count x, dynamicType := dr_dynamicType x, dyn_buffer := dr_buffer x\<rparr>;
          l0 = (loc (SanEvent_new TIME_EVENT))\<lparr>deviceId := pe_deviceId env, kernelIdx := pe_kernelIdx env, blockType := kr_blockType r\<rparr>
      in (case dr_buffer x of
            None \<Rightarrow> []
          | Some rs \<Rightarrow>
              if dr_count x = 0 then []
              else if dr_dynamicType x = RT_SIMT_ENTRY then
                (case CalShadowMemoryAddrInfo (take (dr_count x) rs) of (lo, hi) \<Rightarrow>
                   [(SanEvent_new (DYNAMIC_MEM_EVENT (base\<lparr>dyn_memType := AddrSpaceToMemType (sm_space (rs ! 0)), minAddr := lo, maxAddr := hi\<rparr>)))
                      \<lparr>serialNo := kr_serialNo r, pipe := PIPE_V, loc := l0\<lparr>coreId := unat (location_blockId (sm_location (rs ! 0)))\<rparr>\<rparr>])
              else [(SanEvent_new (DYNAMIC_MEM_EVENT base))\<lparr>serialNo := kr_serialNo r, loc := l0\<rparr>]))"

definition ParseRecordKernelFinish :: "parse_env \<Rightarrow> KernelRecord \<Rightarrow> SanEvent list" where
  "ParseRecordKernelFinish env r =
     (let e = SanEvent_new (SANITIZER_CONTROL_EVENT SC_KERNEL_FINISH)
      in [e\<lparr>serialNo := kr_serialNo r, loc := (loc e)\<lparr>deviceId := pe_deviceId env, kernelIdx := (pe_contextKernelIdx env + 2 ^ 32 - 1) mod 2 ^ 32\<rparr>\<rparr>])"

definition ParseRecordFinish :: "parse_env \<Rightarrow> KernelRecord \<Rightarrow> SanEvent list" where
  "ParseRecordFinish env r =
     (let e = SanEvent_new (SANITIZER_CONTROL_EVENT SC_FINISH) in [e\<lparr>serialNo := kr_serialNo r, loc := (loc e)\<lparr>deviceId := pe_deviceId env\<rparr>\<rparr>])"

text \<open>The table \<open>g_parseFuncs\<close>; \<open>None\<close> for a type that is not in it.\<close>

definition g_parseFuncs :: "parse_env \<Rightarrow> KernelRecord \<Rightarrow> RecordParse \<Rightarrow> (SanEvent list \<times> RecordParse) option" where
  "g_parseFuncs env r s =
     (case kr_payload r of
        KP_SetFlag x \<Rightarrow> Some (ParseRecordFlag env SET_FLAG r x s)
      | KP_WaitFlag x \<Rightarrow> Some (ParseRecordFlag env WAIT_FLAG r x s)
      | KP_GetBuf x \<Rightarrow> Some (ParseRecordGetBuf env r x s)
      | KP_RlsBuf x \<Rightarrow> Some (ParseRecordRlsBuf env r x s)
      | KP_FftsSync x \<Rightarrow> Some (ParseFftsSyncRecord env r x s, s)
      | KP_WaitDev x \<Rightarrow> Some (ParseWaitDevRecord env r x s, s)
      | KP_WaitDevPipe x \<Rightarrow> Some (ParseWaitDevPipeRecord env r x s, s)
      | KP_SetIntraBlock x \<Rightarrow> Some (ParseSetIntraBlockRecord env r x s, s)
      | KP_WaitIntraBlock x \<Rightarrow> Some (ParseWaitIntraBlockRecord env r x s, s)
      | KP_IBSet x \<Rightarrow> Some (ParseRecordIBStub env IB_SET r x s, s)
      | KP_IBWait x \<Rightarrow> Some (ParseRecordIBStub env IB_WAIT r x s, s)
      | KP_SyncAll x \<Rightarrow> Some (ParseRecordSyncAllStub env r x s, s)
      | KP_HsetFlag x \<Rightarrow> Some (ParseRecordHflag env HSET_FLAG r x s, s)
      | KP_HwaitFlag x \<Rightarrow> Some (ParseRecordHflag env HWAIT_FLAG r x s, s)
      | KP_PipeBarrier x \<Rightarrow> Some (ParseRecordPipeBarrier env r x s, s)
      | KP_Dsb x \<Rightarrow> Some (ParseRecordDsb env r x s, s)
      | KP_SetAtomic x \<Rightarrow> Some ([], ParseRecordSetAtomic x s)
      | KP_Register t x \<Rightarrow> Some (ParseRecordRegister env r t x s, s)
      | KP_Dynamic x \<Rightarrow> Some (ParseRecordDynamic env r x, s)
      | KP_KernelFinish \<Rightarrow> Some (ParseRecordKernelFinish env r, s)
      | KP_Finish \<Rightarrow> Some (ParseRecordFinish env r, s)
      | KP_other es \<Rightarrow> Some (es, s)
      | KP_BlockFinish \<Rightarrow> None
      | KP_none \<Rightarrow> None)"

section \<open>Pipes a pipe depends on\<close>

lemma UNIV_PipeType: "(UNIV :: PipeType set) = set [PIPE_S, PIPE_V, PIPE_M, PIPE_MTE1, PIPE_MTE2, PIPE_MTE3, PIPE_ALL, PIPE_MTE4, PIPE_MTE5, PIPE_V2, PIPE_FIX, PIPE_S_CAL, PIPE_SIZE]"
proof -
  have "x \<in> set [PIPE_S, PIPE_V, PIPE_M, PIPE_MTE1, PIPE_MTE2, PIPE_MTE3, PIPE_ALL, PIPE_MTE4, PIPE_MTE5, PIPE_V2, PIPE_FIX, PIPE_S_CAL, PIPE_SIZE]" for x
    by (cases x) simp_all
  then show ?thesis by blast
qed

lemma finite_pipes [simp]: "finite (A :: PipeType set)"
  by (rule finite_subset [OF subset_UNIV]) (simp only: UNIV_PipeType finite_set)

text \<open>
  The depth-first search with the neighbours still to be visited as a list: a visited neighbour is passed
  over, an unvisited one is entered before the rest.
\<close>

function DfsSrcGraph :: "(PipeType \<Rightarrow> PipeType list) \<Rightarrow> PipeType list \<Rightarrow> PipeType list \<Rightarrow> PipeType list" where
  "DfsSrcGraph g [] visited = visited"
| "DfsSrcGraph g (p # ps) visited =
     (if p \<in> set visited then DfsSrcGraph g ps visited else DfsSrcGraph g (g p @ ps) (p # visited))"
  by pat_completeness auto
termination
proof (relation "(\<lambda>(g, ps, visited). card (- set visited)) <*mlex*> measure (\<lambda>(g, ps, visited). length ps)", goal_cases)
  case 1
  then show ?case by (simp add: wf_mlex)
next
  case (2 g p ps visited)
  then show ?case by (intro mlex_leq) simp_all
next
  case (3 g p ps visited)
  then have "- set (p # visited) \<subset> - set visited" by auto
  then show ?case by (intro mlex_less) (simp add: psubset_card_mono)
qed




section \<open>Closed rings\<close>

definition ring_set :: "PipeType \<Rightarrow> PipeType \<Rightarrow> nat \<Rightarrow> nat \<Rightarrow> RecordParse \<Rightarrow> RecordParse" where
  "ring_set src dst e n s =
     (let starts = (\<lambda>i. max (edgeStartPoints s src dst e i) (inheritedStartPoints s src i));
          starts1 = starts(src := max (starts src) n)
      in s\<lparr>edgeStartPoints := (edgeStartPoints s)(src := (edgeStartPoints s src)(dst := (edgeStartPoints s src dst)(e := starts1)))\<rparr>)"

definition ring_wait :: "PipeType \<Rightarrow> PipeType \<Rightarrow> nat \<Rightarrow> RecordParse \<Rightarrow> RecordParse" where
  "ring_wait src dst e s =
     (let starts = edgeStartPoints s src dst e
      in s\<lparr>inheritedStartPoints := (inheritedStartPoints s)(dst := (\<lambda>i. max (inheritedStartPoints s dst i) (starts i))),
           closedRing := (closedRing s)(dst := max (closedRing s dst) (starts dst))\<rparr>)"

text \<open>The location of the record, for the kinds of record that can end with a wait for \<open>PIPE_S\<close>.\<close>

definition sync_location :: "KernelPayload \<Rightarrow> Location" where
  "sync_location x =
     (case x of KP_WaitFlag r \<Rightarrow> sr_location r | KP_PipeBarrier r \<Rightarrow> pb_location r | KP_Dsb r \<Rightarrow> ds_location r
      | _ \<Rightarrow> \<lparr>location_fileNo = 0, location_lineNo = 0, location_pc = 0, location_blockId = 0\<rparr>)"

definition UpdateSyncInPipe :: "parse_env \<Rightarrow> KernelRecord \<Rightarrow> SanEvent list \<Rightarrow> RecordParse \<Rightarrow> SanEvent list \<times> RecordParse" where
  "UpdateSyncInPipe env r events s =
     (if kr_payload r = KP_BlockFinish \<or> kr_payload r = KP_KernelFinish then (events, ResetSyncInPipeInfo s)
      else if events = [] then (events, s)
      else
        (case eventInfo (last events) of
           MEM_EVENT _ \<Rightarrow> (events, s\<lparr>dstSrcGraph := (\<lambda>p. removeAll (pipe (last events)) (dstSrcGraph s p))\<rparr>)
         | SYNC_EVENT x \<Rightarrow>
             (let e = unat (eventId x AND 7) in
              if srcPipe x = PIPE_SIZE \<or> dstPipe x = PIPE_SIZE then (events, s)
              else if sync_opType x = SET_FLAG then (events, ring_set (srcPipe x) (dstPipe x) e (serialNo (last events)) s)
              else if sync_opType x = WAIT_FLAG then
                (let s1 = s\<lparr>dstSrcGraph := (dstSrcGraph s)(dstPipe x := List.insert (srcPipe x) (dstSrcGraph s (dstPipe x)))\<rparr>;
                     s2 = ring_wait (srcPipe x) (dstPipe x) e s1
                 in if dstPipe x = PIPE_S
                    then (events @ map (CreateInnerPipeSyncEvent env s2 (sync_location (kr_payload r)) r)
                            (pe_walk env (DfsSrcGraph (dstSrcGraph s2) [srcPipe x] [])), s2)
                    else (events, s2))
              else (events, s))
         | _ \<Rightarrow> (events, s)))"

text \<open>What the rings see of a record: its last event.\<close>

datatype sync_op = Op_set PipeType PipeType nat nat | Op_wait PipeType PipeType nat | Op_other

definition ring_op :: "SanEvent list \<Rightarrow> sync_op" where
  "ring_op events =
     (if events = [] then Op_other
      else (case eventInfo (last events) of
              SYNC_EVENT x \<Rightarrow>
                if srcPipe x = PIPE_SIZE \<or> dstPipe x = PIPE_SIZE then Op_other
                else if sync_opType x = SET_FLAG then Op_set (srcPipe x) (dstPipe x) (unat (eventId x AND 7)) (serialNo (last events))
                else if sync_opType x = WAIT_FLAG then Op_wait (srcPipe x) (dstPipe x) (unat (eventId x AND 7))
                else Op_other
            | _ \<Rightarrow> Op_other))"

text \<open>
  A handshake chain in a list of operations: from a set to a wait on the same edge, and on from the pipe
  of that wait with a later set and a still later wait.
\<close>

inductive chain :: "sync_op list \<Rightarrow> nat \<Rightarrow> nat \<Rightarrow> bool" for ops where
  pair: "k < j \<Longrightarrow> j < length ops \<Longrightarrow> ops ! k = Op_set p q e n \<Longrightarrow> ops ! j = Op_wait p q e \<Longrightarrow> chain ops k j"
| link: "chain ops k j \<Longrightarrow> ops ! j = Op_wait p d e \<Longrightarrow> j < l \<Longrightarrow> l < m \<Longrightarrow> m < length ops \<Longrightarrow> ops ! l = Op_set d q e' n \<Longrightarrow> ops ! m = Op_wait d q e' \<Longrightarrow>
    chain ops k m"

text \<open>
  \<open>starts ops i n k\<close>: operation \<open>k\<close> is a set of pipe \<open>i\<close> with a number of at least \<open>n\<close>. \<open>arrives\<close>: the start has
  come to pipe \<open>d\<close>; \<open>leaves\<close>: it has been passed on along an edge.
\<close>

definition starts :: "sync_op list \<Rightarrow> PipeType \<Rightarrow> nat \<Rightarrow> nat \<Rightarrow> bool" where
  "starts ops i n k \<longleftrightarrow> k < length ops \<and> (\<exists>q e m. ops ! k = Op_set i q e m \<and> n \<le> m)"

definition arrives :: "sync_op list \<Rightarrow> PipeType \<Rightarrow> nat \<Rightarrow> PipeType \<Rightarrow> bool" where
  "arrives ops i n d \<longleftrightarrow> (\<exists>k j p e. starts ops i n k \<and> chain ops k j \<and> ops ! j = Op_wait p d e)"

definition leaves :: "sync_op list \<Rightarrow> PipeType \<Rightarrow> nat \<Rightarrow> PipeType \<Rightarrow> PipeType \<Rightarrow> nat \<Rightarrow> bool" where
  "leaves ops i n p q e \<longleftrightarrow>
     (\<exists>k m. starts ops i n k \<and> ops ! k = Op_set p q e m) \<or>
     (\<exists>k j p' e' l m. starts ops i n k \<and> chain ops k j \<and> ops ! j = Op_wait p' p e' \<and> j < l \<and> l < length ops \<and> ops ! l = Op_set p q e m)"

lemma chain_bounds: "chain ops k j \<Longrightarrow> k < j \<and> j < length ops"
  by (induction rule: chain.induct) auto

lemma chain_snoc_old: "chain ops k j \<Longrightarrow> chain (ops @ [x]) k j"
proof (induction rule: chain.induct)
  case (pair k j p q e n)
  then show ?case by (intro chain.pair [of k j _ p q e n]) (simp_all add: nth_append)
next
  case (link k j p d e l m q e' n)
  then show ?case using chain_bounds [OF link(1)] by (intro chain.link [of _ k j p d e l m q e' n]) (simp_all add: nth_append)
qed

lemma chain_snoc_cases:
  "chain (ops @ [x]) k j \<Longrightarrow> chain ops k j \<or>
     j = length ops \<and> (\<exists>p q e n. x = Op_wait p q e \<and>
       (k < length ops \<and> ops ! k = Op_set p q e n \<or>
        (\<exists>i p' e' l. chain ops k i \<and> ops ! i = Op_wait p' p e' \<and> i < l \<and> l < length ops \<and> ops ! l = Op_set p q e n)))"
proof (induction rule: chain.induct)
  case (pair k j p q e n)
  show ?case
  proof (cases "j = length ops")
    case True
    then show ?thesis using pair by (auto simp: nth_append)
  next
    case False
    then show ?thesis using pair by (auto simp: nth_append intro: chain.pair)
  qed
next
  case (link k j p d e l m q e' n)
  then have j: "chain ops k j" "j < length ops" using chain_bounds [OF link(1)] by auto
  have l: "l < length ops" using link by simp
  show ?case
  proof (cases "m = length ops")
    case True
    then show ?thesis using link(2-7) j l by (auto simp: nth_append)
  next
    case False
    then have "m < length ops" using link by simp
    then show ?thesis using link(2-7) j l chain.link [of ops k j p d e l m q e' n] by (simp add: nth_append)
  qed
qed

lemma starts_snoc: "starts (ops @ [x]) i n k \<longleftrightarrow> starts ops i n k \<or> k = length ops \<and> (\<exists>q e m. x = Op_set i q e m \<and> n \<le> m)"
  by (auto simp: starts_def nth_append less_Suc_eq)

lemma arrives_snoc: "arrives (ops @ [x]) i n d \<longleftrightarrow> arrives ops i n d \<or> (\<exists>p e. x = Op_wait p d e \<and> leaves ops i n p d e)"
proof
  assume "arrives (ops @ [x]) i n d"
  then obtain k j p e where a: "starts (ops @ [x]) i n k" "chain (ops @ [x]) k j" "(ops @ [x]) ! j = Op_wait p d e" by (auto simp: arrives_def)
  have k: "starts ops i n k" using a(1) chain_bounds [OF a(2)] by (auto simp: starts_snoc)
  from chain_snoc_cases [OF a(2)] show "arrives ops i n d \<or> (\<exists>p e. x = Op_wait p d e \<and> leaves ops i n p d e)"
  proof
    assume c: "chain ops k j"
    then have "ops ! j = Op_wait p d e" using a(3) chain_bounds [OF c] by (simp add: nth_append)
    then show ?thesis using k c by (auto simp: arrives_def)
  next
    assume c: "j = length ops \<and> (\<exists>p q e n. x = Op_wait p q e \<and>
       (k < length ops \<and> ops ! k = Op_set p q e n \<or>
        (\<exists>i p' e' l. chain ops k i \<and> ops ! i = Op_wait p' p e' \<and> i < l \<and> l < length ops \<and> ops ! l = Op_set p q e n)))"
    then have x: "x = Op_wait p d e" using a(3) by simp
    then obtain m where "k < length ops \<and> ops ! k = Op_set p d e m \<or>
        (\<exists>i p' e' l. chain ops k i \<and> ops ! i = Op_wait p' p e' \<and> i < l \<and> l < length ops \<and> ops ! l = Op_set p d e m)"
      using c by auto
    then have "leaves ops i n p d e" using k unfolding leaves_def by blast
    then show ?thesis using x by blast
  qed
next
  assume "arrives ops i n d \<or> (\<exists>p e. x = Op_wait p d e \<and> leaves ops i n p d e)"
  then show "arrives (ops @ [x]) i n d"
  proof
    assume "arrives ops i n d"
    then obtain k j p e where a: "starts ops i n k" "chain ops k j" "ops ! j = Op_wait p d e" by (auto simp: arrives_def)
    then have "(ops @ [x]) ! j = Op_wait p d e" using chain_bounds [OF a(2)] by (simp add: nth_append)
    then show ?thesis using a chain_snoc_old [OF a(2), of x] by (auto simp: arrives_def starts_snoc)
  next
    assume "\<exists>p e. x = Op_wait p d e \<and> leaves ops i n p d e"
    then obtain p e where x: "x = Op_wait p d e" and l: "leaves ops i n p d e" by blast
    have "\<exists>k. starts ops i n k \<and> chain (ops @ [x]) k (length ops)"
      using l unfolding leaves_def
    proof
      assume "\<exists>k m. starts ops i n k \<and> ops ! k = Op_set p d e m"
      then obtain k m where k: "starts ops i n k" "ops ! k = Op_set p d e m" by blast
      then have "k < length ops" by (simp add: starts_def)
      then show ?thesis using k x chain.pair [of k "length ops" "ops @ [x]" p d e m] by (auto simp: nth_append)
    next
      assume "\<exists>k j p' e' l m. starts ops i n k \<and> chain ops k j \<and> ops ! j = Op_wait p' p e' \<and> j < l \<and> l < length ops \<and> ops ! l = Op_set p d e m"
      then obtain k j p' e' l m where k: "starts ops i n k" "chain ops k j" "ops ! j = Op_wait p' p e'" "j < l" "l < length ops" "ops ! l = Op_set p d e m" by blast
      then show ?thesis using x chain_bounds [OF k(2)] chain.link [OF chain_snoc_old [OF k(2), of x], of p' p e' l "length ops" d e m] by (auto simp: nth_append)
    qed
    then show ?thesis using x unfolding arrives_def starts_snoc by (metis nth_append_length)
  qed
qed

lemma leaves_snoc:
  "leaves (ops @ [x]) i n p q e \<longleftrightarrow> leaves ops i n p q e \<or> (\<exists>m. x = Op_set p q e m \<and> (i = p \<and> n \<le> m \<or> arrives ops i n p))"
proof
  assume "leaves (ops @ [x]) i n p q e"
  then consider (direct) k m where "starts (ops @ [x]) i n k" "(ops @ [x]) ! k = Op_set p q e m"
    | (passed) k j p' e' l m where "starts (ops @ [x]) i n k" "chain (ops @ [x]) k j" "(ops @ [x]) ! j = Op_wait p' p e'" "j < l" "l < length (ops @ [x])"
        "(ops @ [x]) ! l = Op_set p q e m"
    unfolding leaves_def by blast
  then show "leaves ops i n p q e \<or> (\<exists>m. x = Op_set p q e m \<and> (i = p \<and> n \<le> m \<or> arrives ops i n p))"
  proof cases
    case direct
    show ?thesis
    proof (cases "k = length ops")
      case True
      then have "x = Op_set p q e m" using direct(2) by simp
      moreover from this have "i = p \<and> n \<le> m" using direct(1) True by (auto simp: starts_snoc starts_def)
      ultimately show ?thesis by blast
    next
      case False
      then have k: "starts ops i n k" using direct(1) by (simp add: starts_snoc)
      then have "ops ! k = Op_set p q e m" using direct(2) by (simp add: starts_def nth_append)
      then show ?thesis using k unfolding leaves_def by blast
    qed
  next
    case passed
    then have j: "j < length ops" by simp
    then have c: "chain ops k j" using chain_snoc_cases [OF passed(2)] by auto
    then have k: "starts ops i n k" "ops ! j = Op_wait p' p e'" using passed(1,3) chain_bounds [OF c] j by (auto simp: starts_snoc nth_append)
    show ?thesis
    proof (cases "l = length ops")
      case True
      then have "x = Op_set p q e m" using passed(6) by simp
      then show ?thesis using k c by (auto simp: arrives_def)
    next
      case False
      then have "l < length ops" "ops ! l = Op_set p q e m" using passed(5,6) by (auto simp: nth_append)
      then show ?thesis using k c passed(4) unfolding leaves_def by blast
    qed
  qed
next
  assume "leaves ops i n p q e \<or> (\<exists>m. x = Op_set p q e m \<and> (i = p \<and> n \<le> m \<or> arrives ops i n p))"
  then consider (direct) k m where "starts ops i n k" "ops ! k = Op_set p q e m"
    | (passed) k j p' e' l m where "starts ops i n k" "chain ops k j" "ops ! j = Op_wait p' p e'" "j < l" "l < length ops" "ops ! l = Op_set p q e m"
    | (now) m where "x = Op_set p q e m" "i = p" "n \<le> m"
    | (pass) m k j p' e' where "x = Op_set p q e m" "starts ops i n k" "chain ops k j" "ops ! j = Op_wait p' p e'"
    unfolding leaves_def arrives_def by blast
  then show "leaves (ops @ [x]) i n p q e"
  proof cases
    case direct
    then have "(ops @ [x]) ! k = Op_set p q e m" by (simp add: starts_def nth_append)
    then show ?thesis using direct(1) unfolding leaves_def starts_snoc by blast
  next
    case passed
    then have "(ops @ [x]) ! j = Op_wait p' p e'" "(ops @ [x]) ! l = Op_set p q e m" "l < length (ops @ [x])" by (simp_all add: nth_append)
    then show ?thesis using passed chain_snoc_old [OF passed(2), of x] unfolding leaves_def starts_snoc by blast
  next
    case now
    have "starts (ops @ [x]) i n (length ops)" using now by (simp add: starts_snoc)
    moreover have "(ops @ [x]) ! length ops = Op_set p q e m" using now by simp
    ultimately show ?thesis unfolding leaves_def by blast
  next
    case pass
    then have "(ops @ [x]) ! j = Op_wait p' p e'" "(ops @ [x]) ! length ops = Op_set p q e m" "j < length ops"
      using chain_bounds [OF pass(3)] by (simp_all add: nth_append)
    then show ?thesis using pass chain_snoc_old [OF pass(3), of x] unfolding leaves_def starts_snoc by (metis length_append_singleton lessI)
  qed
qed

definition ring_step :: "sync_op \<Rightarrow> RecordParse \<Rightarrow> RecordParse" where
  "ring_step x s = (case x of Op_set p q e n \<Rightarrow> ring_set p q e n s | Op_wait p q e \<Rightarrow> ring_wait p q e s | Op_other \<Rightarrow> s)"

definition ring_inv :: "sync_op list \<Rightarrow> RecordParse \<Rightarrow> bool" where
  "ring_inv ops s \<longleftrightarrow>
     (\<forall>p q e i n. 0 < n \<longrightarrow> (n \<le> edgeStartPoints s p q e i \<longleftrightarrow> leaves ops i n p q e)) \<and>
     (\<forall>d i n. 0 < n \<longrightarrow> (n \<le> inheritedStartPoints s d i \<longleftrightarrow> arrives ops i n d)) \<and>
     (\<forall>d. closedRing s d = inheritedStartPoints s d d)"

lemma ring_inv_step:
  assumes "ring_inv ops s"
  shows "ring_inv (ops @ [x]) (ring_step x s)"
proof (cases x)
  case (Op_set p q e m)
  then show ?thesis
    using assms by (auto simp: ring_inv_def ring_step_def ring_set_def leaves_snoc arrives_snoc Let_def le_max_iff_disj)
next
  case (Op_wait p q e)
  then show ?thesis
    using assms by (auto simp: ring_inv_def ring_step_def ring_wait_def leaves_snoc arrives_snoc Let_def le_max_iff_disj)
next
  case Op_other
  then show ?thesis using assms by (auto simp: ring_inv_def ring_step_def leaves_snoc arrives_snoc)
qed

section \<open>Hard flags\<close>

definition key_code :: "HsetRecordKey \<Rightarrow> nat \<times> nat \<times> nat \<times> nat" where
  "key_code k = (pipe_code (hk_srcPipe k), pipe_code (hk_dstPipe k), unat (hk_eventId k), mem_code (hk_memType k))"

definition key_less :: "HsetRecordKey \<Rightarrow> HsetRecordKey \<Rightarrow> bool" where
  "key_less a b = (case (key_code a, key_code b) of ((s, d, e, m), (s', d', e', m')) \<Rightarrow>
     if s \<noteq> s' then s < s' else if d \<noteq> d' then d < d' else if e \<noteq> e' then e < e' else m < m')"

primrec hput :: "HsetRecordKey \<Rightarrow> HsetRecordState \<Rightarrow> (HsetRecordKey \<times> HsetRecordState) list \<Rightarrow> (HsetRecordKey \<times> HsetRecordState) list" where
  "hput k v [] = [(k, v)]"
| "hput k v (x # xs) = (if key_less k (fst x) then (k, v) # x # xs else if k = fst x then (k, v) # xs else x # hput k v xs)"

definition HsetWaitCreateSyncEvent :: "parse_env \<Rightarrow> SyncType \<Rightarrow> PipeType \<Rightarrow> PipeType \<Rightarrow> SanEvent \<Rightarrow> u64 \<Rightarrow> SanEvent" where
  "HsetWaitCreateSyncEvent env t src dst e ident =
     (SanEvent_new (SYNC_EVENT \<lparr>sync_opType = t, srcPipe = src, dstPipe = dst, eventId = 120 + ucast ident, sync_memType = MEM_UNKNOWN,
        isRetrogress = True, isGenerated = True\<rparr>))\<lparr>serialNo := serialNo e, loc := loc e, pipe := (if t = SET_FLAG then src else dst)\<rparr>"

definition hkey_of :: "HSyncOpInfo \<Rightarrow> HsetRecordKey" where
  "hkey_of h = \<lparr>hk_srcPipe = h_srcPipe h, hk_dstPipe = h_dstPipe h, hk_eventId = h_eventId h, hk_memType = h_memType h\<rparr>"

definition mark_replaced :: "nat \<Rightarrow> HSyncOpInfo \<Rightarrow> SanEvent list \<Rightarrow> SanEvent list" where
  "mark_replaced i h es = es[i := (es ! i)\<lparr>eventInfo := H_SYNC_EVENT (h\<lparr>isReplaced := True\<rparr>)\<rparr>]"

text \<open>
  One round of the first loop. The loop appends to the vector it walks over; it visits the events that
  were there before, and the model leaves out that growing the vector may move them.
\<close>

definition hset_step :: "parse_env \<Rightarrow> nat \<Rightarrow> SanEvent list \<times> RecordParse \<Rightarrow> SanEvent list \<times> RecordParse" where
  "hset_step env i st =
     (case st of (es, s) \<Rightarrow>
        (case eventInfo (es ! i) of
           H_SYNC_EVENT h \<Rightarrow>
             if h_opType h = HSET_FLAG \<and> \<not> isReplaced h then
               (let v = (case map_of (hsetSyncMap s) (hkey_of h) of None \<Rightarrow> \<lparr>cacheMode0 = False, cacheMode1 = False, isTransSet = False\<rparr> | Some v \<Rightarrow> v) in
                if isTransSet v then (es, s)
                else (mark_replaced i h es, s\<lparr>hsetSyncMap := hput (hkey_of h)
                        (if h_v h = 0 then v\<lparr>cacheMode0 := True\<rparr> else if h_v h = 1 then v\<lparr>cacheMode1 := True\<rparr> else v) (hsetSyncMap s)\<rparr>))
             else if h_opType h = HWAIT_FLAG \<and> \<not> isReplaced h then
               (let es1 = (case map_of (hsetSyncMap s) (hkey_of h) of
                             None \<Rightarrow> es
                           | Some v \<Rightarrow> if isTransSet v then es @ [HsetWaitCreateSyncEvent env WAIT_FLAG (h_srcPipe h) (h_dstPipe h) (last es) (h_eventId h)] else es)
                in (mark_replaced i h es1, s\<lparr>hsetSyncMap := filter (\<lambda>x. fst x \<noteq> hkey_of h) (hsetSyncMap s)\<rparr>))
             else (es, s)
         | _ \<Rightarrow> (es, s)))"

definition hset_match :: "HsetRecordKey \<Rightarrow> SanEvent \<Rightarrow> bool" where
  "hset_match k e \<longleftrightarrow> (case eventInfo e of MEM_EVENT m \<Rightarrow> pipe e = hk_srcPipe k \<and> memType m = hk_memType k | _ \<Rightarrow> False)"

text \<open>The second loop: the first cached \<open>hset\<close> of mode 0 for which a memory event is there becomes a \<open>set_flag\<close>.\<close>

fun hset_trans :: "SanEvent list \<Rightarrow> (HsetRecordKey \<times> HsetRecordState) list \<Rightarrow> (HsetRecordKey \<times> (HsetRecordKey \<times> HsetRecordState) list) option" where
  "hset_trans es [] = None"
| "hset_trans es ((k, v) # xs) =
     (if \<not> isTransSet v \<and> cacheMode0 v \<and> list_ex (hset_match k) es then Some (k, (k, v\<lparr>isTransSet := True\<rparr>) # xs)
      else map_option (\<lambda>(k', ys). (k', (k, v) # ys)) (hset_trans es xs))"

definition ProcessHsetWaitSync :: "parse_env \<Rightarrow> SanEvent list \<Rightarrow> RecordParse \<Rightarrow> SanEvent list \<times> RecordParse" where
  "ProcessHsetWaitSync env events s =
     (case fold (hset_step env) [0 ..< length events] (events, s) of
        (es, s1) \<Rightarrow>
          (case hset_trans es (hsetSyncMap s1) of
             None \<Rightarrow> (es, s1)
           | Some (k, m) \<Rightarrow> (es @ [HsetWaitCreateSyncEvent env SET_FLAG (hk_srcPipe k) (hk_dstPipe k) (last es) (hk_eventId k)], s1\<lparr>hsetSyncMap := m\<rparr>)))"

section \<open>The scalar pipe\<close>

definition ReplacePipeScalar :: "SanEvent \<Rightarrow> SanEvent" where
  "ReplacePipeScalar e =
     (case eventInfo e of
        SYNC_EVENT x \<Rightarrow>
          if sync_opType x = SET_FLAG \<and> srcPipe x = PIPE_S then e\<lparr>pipe := PIPE_S_CAL, eventInfo := SYNC_EVENT (x\<lparr>srcPipe := PIPE_S_CAL\<rparr>)\<rparr>
          else if sync_opType x = WAIT_FLAG \<and> srcPipe x = PIPE_S then e\<lparr>eventInfo := SYNC_EVENT (x\<lparr>srcPipe := PIPE_S_CAL\<rparr>)\<rparr>
          else e
      | CROSS_CORE_SYNC_EVENT x \<Rightarrow>
          if ffts_opType x = FFTS_SYNC \<and> ffts_dstPipe x = PIPE_S
          then e\<lparr>pipe := PIPE_S_CAL, eventInfo := CROSS_CORE_SYNC_EVENT (x\<lparr>ffts_dstPipe := PIPE_S_CAL\<rparr>)\<rparr> else e
      | CROSS_CORE_SOFT_SYNC_EVENT x \<Rightarrow> if soft_opType x = IB_SET \<and> pipe e = PIPE_S then e\<lparr>pipe := PIPE_S_CAL\<rparr> else e
      | MSTX_CROSS_SYNC_EVENT x \<Rightarrow>
          if cross_opType x = MSTX_SET_CROSS \<and> cross_pipe x = PIPE_S
          then e\<lparr>pipe := PIPE_S_CAL, eventInfo := MSTX_CROSS_SYNC_EVENT (x\<lparr>cross_pipe := PIPE_S_CAL\<rparr>)\<rparr> else e
      | BUF_SYNC_EVENT x \<Rightarrow>
          if buf_opType x = RLS_BUF \<and> buf_pipe x = PIPE_S
          then e\<lparr>pipe := PIPE_S_CAL, eventInfo := BUF_SYNC_EVENT (x\<lparr>buf_pipe := PIPE_S_CAL\<rparr>)\<rparr> else e
      | _ \<Rightarrow> e)"

section \<open>One record\<close>

text \<open>The events of the record, together with those already in the buffer, before the rings are updated.\<close>

definition parse_events :: "parse_env \<Rightarrow> KernelRecord \<Rightarrow> SanEvent list \<Rightarrow> RecordParse \<Rightarrow> (SanEvent list \<times> RecordParse) option" where
  "parse_events env r events s =
     (case g_parseFuncs env r s of
        None \<Rightarrow> None
      | Some (new, s1) \<Rightarrow>
          if new = [] then None else Some (ProcessHsetWaitSync env (map (\<lambda>e. e\<lparr>recordType := kr_recordType r\<rparr>) (events @ new)) s1))"

definition parse_state :: "parse_env \<Rightarrow> KernelRecord \<Rightarrow> RecordParse \<Rightarrow> RecordParse" where
  "parse_state env r s = (case g_parseFuncs env r s of None \<Rightarrow> s | Some (_, s1) \<Rightarrow> s1)"

definition stamp :: "RecordParse \<Rightarrow> SanEvent \<Rightarrow> SanEvent" where
  "stamp s e = (if pipe e = PIPE_SIZE then e else e\<lparr>closedRingStartSerialNo := closedRing s (pipe e)\<rparr>)"

definition RecordParse_Parse :: "parse_env \<Rightarrow> KernelRecord \<Rightarrow> SanEvent list \<Rightarrow> RecordParse \<Rightarrow> SanEvent list \<times> RecordParse" where
  "RecordParse_Parse env r events s0 =
     (let s = (if kr_payload r = KP_BlockFinish \<or> kr_payload r = KP_KernelFinish then ResetAll s0 else s0) in
      case parse_events env r events s of
        None \<Rightarrow> (events, parse_state env r s)
      | Some (es, s1) \<Rightarrow>
          (case UpdateSyncInPipe env r es s1 of
             (es2, s2) \<Rightarrow> (map ReplacePipeScalar (take (length events) es2 @ map (stamp s2) (drop (length events) es2)), s2)))"

text \<open>A sequence of records, each with a fresh buffer, and what the rings see of it.\<close>

fun parse_run :: "parse_env \<Rightarrow> KernelRecord list \<Rightarrow> RecordParse \<Rightarrow> SanEvent list list \<times> sync_op list \<times> RecordParse" where
  "parse_run env [] s = ([], [], s)"
| "parse_run env (r # rs) s =
     (case RecordParse_Parse env r [] s of (es, s1) \<Rightarrow>
        (case parse_run env rs s1 of (ess, ops, s2) \<Rightarrow>
           (es # ess, (case parse_events env r [] s of None \<Rightarrow> Op_other | Some (es, _) \<Rightarrow> ring_op es) # ops, s2)))"

lemma ring_fields [simp]:
  "closedRing (s\<lparr>hsetSyncMap := m\<rparr>) = closedRing s"
  by simp

definition same_rings :: "RecordParse \<Rightarrow> RecordParse \<Rightarrow> bool" where
  "same_rings s s' \<longleftrightarrow> edgeStartPoints s' = edgeStartPoints s \<and> inheritedStartPoints s' = inheritedStartPoints s \<and> closedRing s' = closedRing s"

lemma ring_inv_same: "same_rings s s' \<Longrightarrow> ring_inv ops s' = ring_inv ops s"
  by (simp add: same_rings_def ring_inv_def)

lemma hset_step_rings: "same_rings s (snd (hset_step env i (es, s)))"
  by (auto simp: hset_step_def same_rings_def Let_def split: EventInfo.split option.split)

lemma same_rings_trans: "same_rings s s1 \<Longrightarrow> same_rings s1 s2 \<Longrightarrow> same_rings s s2"
  by (simp add: same_rings_def)

lemma hset_fold_rings: "same_rings s (snd (fold (hset_step env) is (es, s)))"
proof (induction "is" arbitrary: es s)
  case (Cons i "is")
  obtain es1 s1 where e: "hset_step env i (es, s) = (es1, s1)" by force
  then have "same_rings s s1" using hset_step_rings [of s env i es] by simp
  then show ?case using Cons [of s1 es1] e by (auto intro: same_rings_trans)
qed (simp add: same_rings_def)

lemma ProcessHset_rings: "ProcessHsetWaitSync env es s = (es', s') \<Longrightarrow> same_rings s s'"
  using hset_fold_rings [of s env "[0 ..< length es]" es]
  by (auto simp: ProcessHsetWaitSync_def same_rings_def split: prod.splits option.splits)

lemma g_parseFuncs_rings: "g_parseFuncs env r s = Some (es, s') \<Longrightarrow> same_rings s s'"
  by (auto simp: g_parseFuncs_def same_rings_def ParseRecordFlag_def ParseRecordGetBuf_def ParseRecordRlsBuf_def ParseRecordSetAtomic_def Let_def
      split: KernelPayload.splits option.splits)

lemma parse_events_rings: "parse_events env r es s = Some (es', s') \<Longrightarrow> same_rings s s'"
  by (auto simp: parse_events_def split: option.splits if_splits prod.splits dest!: g_parseFuncs_rings ProcessHset_rings intro: same_rings_trans)

lemma parse_state_rings: "same_rings s (parse_state env r s)"
  using g_parseFuncs_rings [of env r s] by (auto simp: parse_state_def same_rings_def split: option.split)

definition unfinished_record :: "KernelRecord \<Rightarrow> bool" where
  "unfinished_record r \<longleftrightarrow> kr_payload r \<noteq> KP_BlockFinish \<and> kr_payload r \<noteq> KP_KernelFinish"

lemma Update_rings:
  assumes "unfinished_record r" "UpdateSyncInPipe env r es s = (es', s')"
  shows "same_rings (ring_step (ring_op es) s) s'"
  using assms by (auto simp: unfinished_record_def UpdateSyncInPipe_def ring_op_def ring_step_def same_rings_def ring_wait_def Let_def
      split: if_splits EventInfo.splits)

lemma Parse_ring_inv:
  assumes "ring_inv ops s" "unfinished_record r" "RecordParse_Parse env r [] s = (es, s')"
  shows "ring_inv (ops @ [case parse_events env r [] s of None \<Rightarrow> Op_other | Some (es, _) \<Rightarrow> ring_op es]) s'"
proof (cases "parse_events env r [] s")
  case None
  then have "s' = parse_state env r s" using assms(2,3) by (simp add: RecordParse_Parse_def unfinished_record_def)
  then show ?thesis using None ring_inv_step [OF assms(1), of Op_other] ring_inv_same [OF parse_state_rings [of s env r]]
    by (simp add: ring_step_def)
next
  case (Some q)
  obtain es1 s1 where q: "q = (es1, s1)" by force
  then obtain es2 where u: "UpdateSyncInPipe env r es1 s1 = (es2, s')"
    using assms(2,3) Some by (auto simp: RecordParse_Parse_def unfinished_record_def split: prod.splits)
  have "ring_inv ops s1" using ring_inv_same [OF parse_events_rings [of env r "[]" s es1 s1]] Some q assms(1) by simp
  then have "ring_inv (ops @ [ring_op es1]) (ring_step (ring_op es1) s1)" by (rule ring_inv_step)
  then show ?thesis using ring_inv_same [OF Update_rings [OF assms(2) u]] Some q by simp
qed

lemma parse_run_ring_inv:
  assumes "ring_inv ops s" "list_all unfinished_record rs" "parse_run env rs s = (ess, ops', s')"
  shows "ring_inv (ops @ ops') s'"
  using assms
proof (induction rs arbitrary: ops s ess ops')
  case (Cons r rs)
  obtain es s1 where p: "RecordParse_Parse env r [] s = (es, s1)" by force
  obtain ess1 ops1 where t: "parse_run env rs s1 = (ess1, ops1, s')" and
      o: "ops' = (case parse_events env r [] s of None \<Rightarrow> Op_other | Some (es, _) \<Rightarrow> ring_op es) # ops1"
    using Cons.prems(3) p by (auto split: prod.splits)
  have "ring_inv (ops @ [case parse_events env r [] s of None \<Rightarrow> Op_other | Some (es, _) \<Rightarrow> ring_op es]) s1"
    using Parse_ring_inv [OF Cons.prems(1) _ p] Cons.prems(2) by simp
  from Cons.IH [OF this _ t] show ?case using Cons.prems(2) o by simp
qed simp

lemma ring_inv_reset: "ring_inv [] (ResetAll s)"
proof -
  have "\<not> chain [] k j" for k j using chain_bounds [of "[]" k j] by auto
  then show ?thesis by (simp add: ring_inv_def ResetAll_def ResetSyncInPipeInfo_def leaves_def arrives_def starts_def)
qed

lemma replace_stamp:
  assumes "e \<in> set (map ReplacePipeScalar (map (stamp s) es))" "eventInfo e = MEM_EVENT m" "pipe e \<noteq> PIPE_SIZE"
  shows "closedRingStartSerialNo e = closedRing s (pipe e)"
proof -
  obtain e0 where e0: "e = ReplacePipeScalar (stamp s e0)" using assms(1) by auto
  have "eventInfo (ReplacePipeScalar x) = MEM_EVENT m \<Longrightarrow> ReplacePipeScalar x = x" for x
    by (auto simp: ReplacePipeScalar_def split: EventInfo.splits if_splits)
  then have "e = stamp s e0" using e0 assms(2) by simp
  then show ?thesis using assms(3) by (auto simp: stamp_def split: if_splits)
qed

lemma Parse_marks:
  assumes "RecordParse_Parse env r [] s = (es, s')" "e \<in> set es" "eventInfo e = MEM_EVENT m" "pipe e \<noteq> PIPE_SIZE"
  shows "closedRingStartSerialNo e = closedRing s' (pipe e)"
proof -
  obtain es2 where "es = map ReplacePipeScalar (map (stamp s') es2)"
    using assms(1,2) by (auto simp: RecordParse_Parse_def Let_def split: option.splits prod.splits if_splits)
  then show ?thesis using replace_stamp assms(2-4) by blast
qed

lemma parse_run_snoc:
  "parse_run env (rs @ [r]) s = (case parse_run env rs s of (ess, ops, s1) \<Rightarrow>
     (ess @ [fst (RecordParse_Parse env r [] s1)],
      ops @ [case parse_events env r [] s1 of None \<Rightarrow> Op_other | Some (es, _) \<Rightarrow> ring_op es], snd (RecordParse_Parse env r [] s1)))"
  by (induction rs arbitrary: s) (simp_all split: prod.split)

text \<open>
  C19. The mark of a memory event is exact. In a sequence of records without an end of a block, a memory
  event of the last record carries a mark of at least \<open>n\<close>, for a positive \<open>n\<close>, exactly if a chain of flags
  leads back to its pipe: a set on the pipe with a number of at least \<open>n\<close>, the wait on the same edge, a later
  set of the waiting pipe, and so on, up to a wait of the pipe itself.
\<close>
theorem ring_mark_exact:
  assumes "list_all unfinished_record (rs @ [r])" and "parse_run env (rs @ [r]) (ResetAll s) = (ess, ops, s')"
    and "e \<in> set (last ess)" and "eventInfo e = MEM_EVENT m" and "pipe e \<noteq> PIPE_SIZE" and "0 < n"
  shows "n \<le> closedRingStartSerialNo e \<longleftrightarrow>
     (\<exists>k j p q f f' serial. chain ops k j \<and> ops ! k = Op_set (pipe e) q f serial \<and> n \<le> serial \<and> ops ! j = Op_wait p (pipe e) f')"
proof -
  have inv: "ring_inv ops s'" using parse_run_ring_inv [OF ring_inv_reset assms(1,2)] by simp
  obtain ess1 ops1 s1 where "parse_run env rs (ResetAll s) = (ess1, ops1, s1)" by (cases "parse_run env rs (ResetAll s)") auto
  then have "last ess = fst (RecordParse_Parse env r [] s1)" "s' = snd (RecordParse_Parse env r [] s1)"
    using assms(2) by (auto simp: parse_run_snoc)
  then have "closedRingStartSerialNo e = closedRing s' (pipe e)"
    using Parse_marks [of env r s1 "last ess" s' e m] assms(3-5) by simp
  then have "n \<le> closedRingStartSerialNo e \<longleftrightarrow> arrives ops (pipe e) n (pipe e)" using inv assms(6) by (simp add: ring_inv_def)
  also have "\<dots> \<longleftrightarrow> (\<exists>k j p q f f' serial. chain ops k j \<and> ops ! k = Op_set (pipe e) q f serial \<and> n \<le> serial \<and> ops ! j = Op_wait p (pipe e) f')"
    unfolding arrives_def starts_def using chain_bounds by (meson order.strict_trans)
  finally show ?thesis .
qed

text \<open>A ring of two pipes: \<open>PIPE_MTE2\<close> sets a flag for \<open>PIPE_V\<close>, which sets one back; the access comes after it.\<close>

definition ring_flag :: "(SyncRecord \<Rightarrow> KernelPayload) \<Rightarrow> PipeType \<Rightarrow> PipeType \<Rightarrow> nat \<Rightarrow> KernelRecord" where
  "ring_flag c p q n = \<lparr>kr_recordType = 0, kr_blockType = BT_AIVEC, kr_serialNo = n,
     kr_payload = c \<lparr>sr_location = \<lparr>location_fileNo = 0, location_lineNo = 0, location_pc = 0, location_blockId = 0\<rparr>, sr_src = p, sr_dst = q,
       sr_eventID = 0, sr_isGenerated = False\<rparr>\<rparr>"

definition ring_mem :: MemOpInfo where
  "ring_mem = \<lparr>memType = MEM_UB, opType = WRITE, vectorMask = \<lparr>mask0 = 0, mask1 = 0\<rparr>, maskMode = MASK_NORM, instrName = 0, dataBits = 8, addr = 0, blockNum = 1,
     blockSize = 32, blockStride = 1, repeatTimes = 1, repeatStride = 1, alignSize = 1, ignoreIllegalCheck = False, isScalarAtomic = False, dcciDistance = 0,
     dstCoreId = 0, dstBlockType = BT_AIVEC, instrClass = IC_UNKNOWN, matrixM = 0, matrixN = 0\<rparr>"

definition ring_access :: KernelRecord where
  "ring_access = \<lparr>kr_recordType = 0, kr_blockType = BT_AIVEC, kr_serialNo = 9, kr_payload = KP_other [(SanEvent_new (MEM_EVENT ring_mem))\<lparr>serialNo := 9, pipe := PIPE_MTE2\<rparr>]\<rparr>"

definition ring_records :: "KernelRecord list" where
  "ring_records = [ring_flag KP_SetFlag PIPE_MTE2 PIPE_V 5, ring_flag KP_WaitFlag PIPE_MTE2 PIPE_V 6, ring_flag KP_SetFlag PIPE_V PIPE_MTE2 7,
     ring_flag KP_WaitFlag PIPE_V PIPE_MTE2 8]"

definition ring_env :: parse_env where
  "ring_env = \<lparr>pe_deviceId = 0, pe_kernelIdx = 0, pe_contextKernelIdx = 1,
     pe_sync = \<lparr>sync_opType = SET_FLAG, srcPipe = PIPE_S, dstPipe = PIPE_S, eventId = 0, sync_memType = MEM_L1, isRetrogress = False, isGenerated = False\<rparr>,
     pe_hsync = \<lparr>h_eventId = 0, h_srcPipe = PIPE_S, h_dstPipe = PIPE_S, h_opType = SET_FLAG, h_memType = MEM_L1, h_v = 0, isReplaced = False\<rparr>,
     pe_ffts = \<lparr>ffts_opType = SET_FLAG, ffts_dstPipe = PIPE_S, flagId = 0, ffts_mode = 0, vecSubBlockDim = 0\<rparr>,
     pe_buf = \<lparr>buf_opType = SET_FLAG, buf_pipe = PIPE_S, bufId = 0, rlsCount = 0, bufMode = BLOCK_MODE\<rparr>,
     pe_soft = \<lparr>soft_opType = SET_FLAG, soft_eventID = 0, waitCoreID = 0, usedCores = 0, soft_isAIVOnly = False\<rparr>,
     pe_dyn = \<lparr>dyn_count = 0, minAddr = 0, maxAddr = 0, dynamicType = 0, dyn_memType = MEM_L1, dyn_buffer = None\<rparr>, pe_walk = (\<lambda>ps. ps)\<rparr>"

definition ring_start :: RecordParse where
  "ring_start = \<lparr>dstSrcGraph = (\<lambda>_. []), edgeStartPoints = (\<lambda>_ _ _ _. 0), inheritedStartPoints = (\<lambda>_ _. 0), closedRing = (\<lambda>_. 0), hsetSyncMap = [],
     getRlsBufMap = (\<lambda>_. 0), mapAtomicMode = (\<lambda>_. False)\<rparr>"

lemma hset_trans_none: "\<not> list_ex (\<lambda>e. \<exists>m. eventInfo e = MEM_EVENT m) es \<Longrightarrow> hset_trans es xs = None"
  by (induction es xs rule: hset_trans.induct) (auto simp: list_ex_iff hset_match_def split: EventInfo.splits)

lemma ProcessHset_sync: "eventInfo e = SYNC_EVENT x \<Longrightarrow> ProcessHsetWaitSync env [e] s = ([e], s)"
  by (simp add: ProcessHsetWaitSync_def hset_step_def hset_trans_none)

lemma ProcessHset_mem: "eventInfo e = MEM_EVENT x \<Longrightarrow> hsetSyncMap s = [] \<Longrightarrow> ProcessHsetWaitSync env [e] s = ([e], s)"
  by (simp add: ProcessHsetWaitSync_def hset_step_def)

lemma set_flag_events:
  assumes "p \<noteq> PIPE_SIZE" "q \<noteq> PIPE_SIZE"
  shows "\<exists>es. parse_events env (ring_flag KP_SetFlag p q n) [] s = Some (es, s) \<and> ring_op es = Op_set p q 0 n"
  using assms by (simp add: parse_events_def g_parseFuncs_def ring_flag_def ParseRecordFlag_def located_def SetLocationInfo_def SanEvent_new_def
      ProcessHset_sync ring_op_def)

lemma wait_flag_events:
  assumes "p \<noteq> PIPE_SIZE" "q \<noteq> PIPE_SIZE"
  shows "\<exists>es. parse_events env (ring_flag KP_WaitFlag p q n) [] s = Some (es, s) \<and> ring_op es = Op_wait p q 0"
  using assms by (simp add: parse_events_def g_parseFuncs_def ring_flag_def ParseRecordFlag_def located_def SetLocationInfo_def SanEvent_new_def
      ProcessHset_sync ring_op_def)

lemma Update_hset: "unfinished_record r \<Longrightarrow> hsetSyncMap (snd (UpdateSyncInPipe env r es s)) = hsetSyncMap s"
  by (auto simp: unfinished_record_def UpdateSyncInPipe_def ring_set_def ring_wait_def Let_def split: EventInfo.split)

lemma flag_step:
  assumes "parse_events env r [] s = Some (es, s)" "unfinished_record r"
  shows "hsetSyncMap (snd (RecordParse_Parse env r [] s)) = hsetSyncMap s"
  using assms Update_hset [OF assms(2), of env es s] by (auto simp: RecordParse_Parse_def unfinished_record_def split: prod.split)

lemma ring_flag_unfinished [simp]:
  "unfinished_record (ring_flag KP_SetFlag p q n)" "unfinished_record (ring_flag KP_WaitFlag p q n)" "unfinished_record ring_access"
  by (simp_all add: ring_flag_def ring_access_def unfinished_record_def)

lemma parse_run_set:
  assumes "p \<noteq> PIPE_SIZE" "q \<noteq> PIPE_SIZE" "hsetSyncMap s = []"
  shows "\<exists>s1. hsetSyncMap s1 = [] \<and> (\<forall>rs ess ops s'. parse_run env rs s1 = (ess, ops, s') \<longrightarrow>
     (\<exists>es. parse_run env (ring_flag KP_SetFlag p q n # rs) s = (es # ess, Op_set p q 0 n # ops, s')))"
proof -
  obtain es where e: "parse_events env (ring_flag KP_SetFlag p q n) [] s = Some (es, s)" "ring_op es = Op_set p q 0 n"
    using set_flag_events [OF assms(1,2)] by blast
  show ?thesis
    by (rule exI [of _ "snd (RecordParse_Parse env (ring_flag KP_SetFlag p q n) [] s)"])
       (use e flag_step [OF e(1)] assms(3) in \<open>simp split: prod.split\<close>)
qed

lemma parse_run_wait:
  assumes "p \<noteq> PIPE_SIZE" "q \<noteq> PIPE_SIZE" "hsetSyncMap s = []"
  shows "\<exists>s1. hsetSyncMap s1 = [] \<and> (\<forall>rs ess ops s'. parse_run env rs s1 = (ess, ops, s') \<longrightarrow>
     (\<exists>es. parse_run env (ring_flag KP_WaitFlag p q n # rs) s = (es # ess, Op_wait p q 0 # ops, s')))"
proof -
  obtain es where e: "parse_events env (ring_flag KP_WaitFlag p q n) [] s = Some (es, s)" "ring_op es = Op_wait p q 0"
    using wait_flag_events [OF assms(1,2)] by blast
  show ?thesis
    by (rule exI [of _ "snd (RecordParse_Parse env (ring_flag KP_WaitFlag p q n) [] s)"])
       (use e flag_step [OF e(1)] assms(3) in \<open>simp split: prod.split\<close>)
qed

lemma parse_run_access:
  assumes "hsetSyncMap s = []"
  shows "\<exists>e s'. parse_run env [ring_access] s = ([[e]], [Op_other], s') \<and> pipe e = PIPE_MTE2 \<and> eventInfo e = MEM_EVENT ring_mem"
  using assms by (simp add: RecordParse_Parse_def parse_events_def g_parseFuncs_def ring_access_def SanEvent_new_def ProcessHset_mem UpdateSyncInPipe_def
      ReplacePipeScalar_def stamp_def ring_op_def)

lemma ring_run: "\<exists>es e s'. parse_run env (ring_records @ [ring_access]) (ResetAll ring_start) =
   (es @ [[e]], [Op_set PIPE_MTE2 PIPE_V 0 5, Op_wait PIPE_MTE2 PIPE_V 0, Op_set PIPE_V PIPE_MTE2 0 7, Op_wait PIPE_V PIPE_MTE2 0, Op_other], s') \<and>
   pipe e = PIPE_MTE2 \<and> eventInfo e = MEM_EVENT ring_mem"
proof -
  have "hsetSyncMap (ResetAll ring_start) = []" by (simp add: ResetAll_def ResetSyncInPipeInfo_def ring_start_def)
  then obtain s1 where s1: "hsetSyncMap s1 = []" "\<And>rs ess ops s'. parse_run env rs s1 = (ess, ops, s') \<Longrightarrow>
      \<exists>es. parse_run env (ring_flag KP_SetFlag PIPE_MTE2 PIPE_V 5 # rs) (ResetAll ring_start) = (es # ess, Op_set PIPE_MTE2 PIPE_V 0 5 # ops, s')"
    using parse_run_set [of PIPE_MTE2 PIPE_V "ResetAll ring_start" env 5] by auto
  obtain s2 where s2: "hsetSyncMap s2 = []" "\<And>rs ess ops s'. parse_run env rs s2 = (ess, ops, s') \<Longrightarrow>
      \<exists>es. parse_run env (ring_flag KP_WaitFlag PIPE_MTE2 PIPE_V 6 # rs) s1 = (es # ess, Op_wait PIPE_MTE2 PIPE_V 0 # ops, s')"
    using parse_run_wait [of PIPE_MTE2 PIPE_V s1 env 6] s1(1) by auto
  obtain s3 where s3: "hsetSyncMap s3 = []" "\<And>rs ess ops s'. parse_run env rs s3 = (ess, ops, s') \<Longrightarrow>
      \<exists>es. parse_run env (ring_flag KP_SetFlag PIPE_V PIPE_MTE2 7 # rs) s2 = (es # ess, Op_set PIPE_V PIPE_MTE2 0 7 # ops, s')"
    using parse_run_set [of PIPE_V PIPE_MTE2 s2 env 7] s2(1) by auto
  obtain s4 where s4: "hsetSyncMap s4 = []" "\<And>rs ess ops s'. parse_run env rs s4 = (ess, ops, s') \<Longrightarrow>
      \<exists>es. parse_run env (ring_flag KP_WaitFlag PIPE_V PIPE_MTE2 8 # rs) s3 = (es # ess, Op_wait PIPE_V PIPE_MTE2 0 # ops, s')"
    using parse_run_wait [of PIPE_V PIPE_MTE2 s3 env 8] s3(1) by auto
  obtain e s' where e: "parse_run env [ring_access] s4 = ([[e]], [Op_other], s')" "pipe e = PIPE_MTE2" "eventInfo e = MEM_EVENT ring_mem"
    using parse_run_access [OF s4(1)] by blast
  obtain e4 where "parse_run env [ring_flag KP_WaitFlag PIPE_V PIPE_MTE2 8, ring_access] s3 = (e4 # [[e]], [Op_wait PIPE_V PIPE_MTE2 0, Op_other], s')"
    using s4(2) [OF e(1)] by blast
  from s3(2) [OF this] obtain e3 where "parse_run env [ring_flag KP_SetFlag PIPE_V PIPE_MTE2 7, ring_flag KP_WaitFlag PIPE_V PIPE_MTE2 8, ring_access] s2 =
      (e3 # e4 # [[e]], [Op_set PIPE_V PIPE_MTE2 0 7, Op_wait PIPE_V PIPE_MTE2 0, Op_other], s')" by blast
  from s2(2) [OF this] obtain e2 where "parse_run env (ring_flag KP_WaitFlag PIPE_MTE2 PIPE_V 6 # [ring_flag KP_SetFlag PIPE_V PIPE_MTE2 7,
      ring_flag KP_WaitFlag PIPE_V PIPE_MTE2 8, ring_access]) s1 =
      (e2 # e3 # e4 # [[e]], [Op_wait PIPE_MTE2 PIPE_V 0, Op_set PIPE_V PIPE_MTE2 0 7, Op_wait PIPE_V PIPE_MTE2 0, Op_other], s')" by blast
  from s1(2) [OF this] obtain e1 where "parse_run env (ring_records @ [ring_access]) (ResetAll ring_start) =
      ([e1, e2, e3, e4] @ [[e]], [Op_set PIPE_MTE2 PIPE_V 0 5, Op_wait PIPE_MTE2 PIPE_V 0, Op_set PIPE_V PIPE_MTE2 0 7, Op_wait PIPE_V PIPE_MTE2 0, Op_other], s')"
    unfolding ring_records_def append_Cons append_Nil by blast
  then show ?thesis using e(2,3) by blast
qed

theorem ring_mark_exact_witness:
  "\<exists>e. last (fst (parse_run ring_env (ring_records @ [ring_access]) (ResetAll ring_start))) = [e] \<and> 5 \<le> closedRingStartSerialNo e"
proof -
  define ops where o: "ops = [Op_set PIPE_MTE2 PIPE_V 0 5, Op_wait PIPE_MTE2 PIPE_V 0, Op_set PIPE_V PIPE_MTE2 0 7, Op_wait PIPE_V PIPE_MTE2 0, Op_other]"
  obtain es e s' where r: "parse_run ring_env (ring_records @ [ring_access]) (ResetAll ring_start) = (es @ [[e]], ops, s')"
    and e: "pipe e = PIPE_MTE2" "eventInfo e = MEM_EVENT ring_mem" using ring_run [of ring_env] unfolding o by blast
  have u: "list_all unfinished_record (ring_records @ [ring_access])" by (simp add: ring_records_def)
  have "chain ops 0 1" unfolding o by (rule chain.pair [of _ _ _ PIPE_MTE2 PIPE_V 0 5]) simp_all
  then have "chain ops 0 3" using o by (intro chain.link [of ops 0 1 PIPE_MTE2 PIPE_V 0 2 3 PIPE_MTE2 0 7]) simp_all
  moreover have "ops ! 0 = Op_set (pipe e) PIPE_V 0 5" "ops ! 3 = Op_wait PIPE_V (pipe e) 0" using o e(1) by simp_all
  ultimately have c: "\<exists>k j p q f f' serial. chain ops k j \<and> ops ! k = Op_set (pipe e) q f serial \<and> 5 \<le> serial \<and> ops ! j = Op_wait p (pipe e) f'"
    by blast
  have "5 \<le> closedRingStartSerialNo e"
    by (rule ring_mark_exact [OF u r _ e(2), THEN iffD2]) (use e(1) c in simp_all)
  then show ?thesis using r by simp
qed




text \<open>
  The numbers 11 and 120 to 123 of generated flags are meant to differ from those of the program, but the
  rings keep three bits: a generated flag and one of the program are the same edge to them.
\<close>

theorem generated_flags_collide:
  "ring_op [CreateCrossPipeSyncEvent env s l r SET_FLAG p PIPE_S] =
     ring_op (fst (ParseRecordFlag env SET_FLAG r \<lparr>sr_location = l, sr_src = p, sr_dst = PIPE_S, sr_eventID = 3, sr_isGenerated = False\<rparr> s)) \<and>
   ring_op [HsetWaitCreateSyncEvent env SET_FLAG p q (SanEvent_new TIME_EVENT\<lparr>serialNo := kr_serialNo r\<rparr>) 2] =
     ring_op (fst (ParseRecordFlag env SET_FLAG r \<lparr>sr_location = l, sr_src = p, sr_dst = q, sr_eventID = 2, sr_isGenerated = False\<rparr> s))"
  by (simp add: ring_op_def CreateCrossPipeSyncEvent_def HsetWaitCreateSyncEvent_def ParseRecordFlag_def located_def SetLocationInfo_def SanEvent_new_def)

end
