(* ===== verification/Spec2Isabelle.thy ===== *)
theory Spec2Isabelle
  imports VectorTime Platform Events RaceUnits EventContainer PipeLine SyncStores CrossCoreSync MemSeries RaceChecks RadixSort
    Scanline ScanlineCorrect Handlers Recording RaceAlg ClockOrder RaceAlgCorrect SinglePipe Replayer CrossCoreAlg AsanAction PeerAccess SyncSanitizer OrderedScheduler RegisterSanitizer
    WireProtocol SyncParse
begin

text \<open>
  A verification development of mssanitizer, the tool that checks kernels of Ascend processors for
  races, illegal memory accesses, wrong synchronisation and unreset registers. The sources are those
  of \<open>src/csrc\<close>; the paths below are relative to it.

  \<^bold>\<open>The program.\<close> Probes in the instrumented kernel write records; the tool turns them into events
  (\<open>core/framework/event_def.h\<close>) and feeds them to the sanitizers. The race sanitizer replays the events
  on a model of the pipes of every core, gives each access a vector time, and reports accesses that
  overlap and are not ordered. The address sanitizer turns the events into records of memory
  operations and checks them against the live heap blocks, the legal ranges and a shadow byte per byte
  of memory. The synchronisation sanitizer pairs flags, finds repeated ones and replays the kernel to
  find out where it is stuck. The register sanitizer checks that registers are reset. Packets of
  several connections of one host process pass a scheduler that restores their order.

  \<^bold>\<open>Foundations.\<close> \<open>Prelude\<close> has the machine integers and shared facts, \<open>OrderedMap\<close> the \<open>std::map\<close> with
  unsigned keys. \<open>Platform\<close> models \<open>arch_def.h\<close>, \<open>platform_config.h\<close> and the block indices; \<open>Events\<close> the
  event union; \<open>RaceUnits\<close> the units of a race report; \<open>ToolTypes\<close> the configuration, the summaries of
  devices and kernels, and the errors reported by the device. \<open>VectorTime\<close> models the sparse vector
  times of \<open>vector_time.cpp\<close> with their inline and heap form and shows that they implement the pointwise
  maximum on clocks.

  \<^bold>\<open>Race sanitizer.\<close> \<open>EventContainer\<close> models the chunked queues per device, block and pipe, \<open>PipeLine\<close> the
  state machine that drives a handler over them; the locale \<open>event_handler\<close> states what the pipeline
  needs of a handler and gives termination and the reason of a stop. \<open>SyncStores\<close> (flags, barriers,
  signals) and \<open>CrossCoreSync\<close> (all modes of the flags between cores) are the stores a handler uses.
  \<open>Handlers\<close> and \<open>Recording\<close> are locales for handlers that launch events to their pipes and record some
  of them; \<open>RaceAlg\<close>, \<open>SinglePipe\<close>, \<open>CrossCoreAlg\<close> and \<open>Replayer\<close> model the three race algorithms and the
  pipeline replayer and interpret these locales. \<open>RaceAlgCorrect\<close> shows that both stages end, that a
  deadlock is real and that a complete replay records the program; \<open>ClockOrder\<close> that flags order the
  times of accesses and that unsynchronised accesses stay concurrent. \<open>MemSeries\<close> and \<open>RaceChecks\<close> model the
  overlap tests and the predicates of all race kinds, \<open>RadixSort\<close> the sort of the end points, \<open>Scanline\<close>
  the three scans; \<open>ScanlineCorrect\<close> shows that a run reports exactly the races between plain accesses.

  \<^bold>\<open>Address sanitizer.\<close> \<open>MemErrors\<close> models messages and the buffer that reduces them, \<open>HeapBlocks\<close> the heap
  tables with the leak check, \<open>ShadowWords\<close> and \<open>ShadowMap\<close> the two- and three-level shadow maps,
  \<open>ShadowMemory\<close> the loads, stores and reports on them over the locale \<open>shadow_map\<close>, \<open>BoundsCheck\<close> the
  sorted vectors of legal ranges as a refinement of a map from addresses to permissions, \<open>MemRecords\<close>
  the conversion of events into records, \<open>PeerAccess\<close> the rights between devices, and \<open>AsanAction\<close> the
  actions that tie them together: after any allocations and frees an access reports exactly its bytes
  outside the live blocks.

  \<^bold>\<open>Synchronisation sanitizer.\<close> \<open>SyncSanitizer\<close> models \<open>sync_sanitizer.cpp\<close> on top of the replayer: the
  reports of unpaired flags are the surplus of sets over waits per key, the reports of redundant flags
  are the repetitions on a pipe, and a stuck kernel is reported with the first events that remain.

  \<^bold>\<open>Scheduler.\<close> \<open>OrderedScheduler\<close> models \<open>core/framework/ordered_packet_scheduler.cpp\<close>: receiving threads,
  the worker of a process and the checkers as steps of one relation. Packets are taken in the order of
  their numbers, conflicting checks of different devices never overlap, the worker cannot wait forever
  and lost packets are reported.

  \<^bold>\<open>Register sanitizer and strings.\<close> \<open>RegisterSanitizer\<close> models \<open>register_sanitizer.cpp\<close>: its reports are
  exactly the registers whose last written value differs from the default. \<open>Ustring\<close> models the string
  utilities: escaping is independent of the order of the table, strict splitting and joining are
  inverse, the hash in the log reads back, and the function name is found in a demangled name.

  \<^bold>\<open>Protocol.\<close> \<open>WireProtocol\<close> models \<open>core/framework/protocol.cpp\<close> and the receiving loop of \<open>command.cpp\<close>:
  however the byte stream is cut into messages, the packets come out unchanged and in order.

  \<^bold>\<open>Record parsing.\<close> \<open>SyncParse\<close> models the part of \<open>core/framework/record_parse.cpp\<close> that translates the
  records of synchronisation, registers and kernel ends: the mark that a memory event gets from closed
  rings of flags is exact, and a wait of the scalar pipe adds exactly the implied barriers.

  \<^bold>\<open>Conventions.\<close> A C++ object is a record that operations take and return; a loop is structural recursion
  or a \<open>fun\<close> with a measure. Loops that need not end (the pipeline, the loops over uniform runs of shadow
  bytes) are \<open>while_option\<close> or \<open>partial_function (option)\<close>, and the theorems prove that they return; no
  fuel is used. Words keep the width of the source where it matters; addresses and sizes of 64 bits in
  the address sanitizer are natural numbers with the wrap-around of additions written out (\<open>add64\<close>).
  The exact statements on the global memory hold below \<open>gm_limit\<close>, the last 64 GB below \<open>2^48\<close>
  excluded, where the code itself drops writes. Values that the source leaves uninitialised are
  parameters (\<open>junk\<close>), as are hash functions, callbacks and the order in which hash sets are walked.

  \<^bold>\<open>Not modelled.\<close> The command line, sockets, processes, hooks of the runtime interfaces, file and call
  stack lookups, demangling and the text of the messages (input and output without own logic to verify);
  the device side of the plugin, that is, the probes that write the records, whose code is generated per
  instruction and runs in the compiler's address spaces; the translation of most instruction records
  into events; the race check across devices (\<open>cross_npu_race_alg_impl.cpp\<close>); locks and threads, which
  enter only as the interleaving of the operations of the scheduler. Logging has no state in the model.
\<close>

end
